(* ===== verification/Nexus_Prelude.thy ===== *)
theory Nexus_Prelude
  imports Main "HOL-Library.Word"
begin

unbundle bit_operations_syntax

text \<open>
  Shared vocabulary of the development: the machine types of the C++ code, the ordered
  containers it uses (\<^verbatim>\<open>std::map\<close> with its key order), the fixed-width byte layouts, and the
  interface of the cryptographic library the code calls.

  A fixed-size byte array \<^verbatim>\<open>std::array<uint8_t, N>\<close> is a word of \<open>8 * N\<close> bits read big-endian, so
  that the lexicographic order of the array is the unsigned order of the word and the all-zero
  array is \<open>0\<close>. A \<^verbatim>\<open>StrongId\<close> is its 64-bit value with wrap-around arithmetic.
\<close>

named_theorems smap_simps \<open>lookup and update laws of the ordered association maps\<close>
named_theorems stream_simps \<open>injectivity and separation of the canonical byte streams\<close>

type_synonym byte = "8 word"
type_synonym u16 = "16 word"
type_synonym u32 = "32 word"
type_synonym u64 = "64 word"
type_synonym digest = "256 word"
type_synonym pubkey = "256 word"
type_synonym sig = "512 word"

section \<open>Node identities\<close>

text \<open>\<^verbatim>\<open>NodeId\<close> is a struct of its own around 32 bytes, ordered like them.\<close>

datatype node_id = NodeId (node_bytes: "256 word")

instantiation node_id :: linorder
begin

definition less_eq_node_id :: "node_id \<Rightarrow> node_id \<Rightarrow> bool" where
  "less_eq_node_id a b \<longleftrightarrow> node_bytes a \<le> node_bytes b"

definition less_node_id :: "node_id \<Rightarrow> node_id \<Rightarrow> bool" where
  "less_node_id a b \<longleftrightarrow> node_bytes a < node_bytes b"

instance
  by standard (auto simp: less_eq_node_id_def less_node_id_def node_id.expand)

end

lemma node_bytes_eq_iff [simp]: "node_bytes a = node_bytes b \<longleftrightarrow> a = b"
  by (cases a; cases b) simp

lemma less_NodeId [simp]: "NodeId a < NodeId b \<longleftrightarrow> a < b"
  by (simp add: less_node_id_def)

lemma less_eq_NodeId [simp]: "NodeId a \<le> NodeId b \<longleftrightarrow> a \<le> b"
  by (simp add: less_eq_node_id_def)

section \<open>Ordered maps\<close>

text \<open>
  \<^verbatim>\<open>std::map\<close> iterates in key order, and several loops of the code depend on that order. It is
  an association list kept sorted by insertion; \<open>find\<close> is \<^const>\<open>map_of\<close>.
\<close>

type_synonym ('k, 'v) smap = "('k \<times> 'v) list"

abbreviation smap_get :: "('k, 'v) smap \<Rightarrow> 'k \<Rightarrow> 'v option" where
  "smap_get m k \<equiv> map_of m k"

abbreviation smap_has :: "('k, 'v) smap \<Rightarrow> 'k \<Rightarrow> bool" where
  "smap_has m k \<equiv> map_of m k \<noteq> None"

fun smap_put :: "'k::linorder \<Rightarrow> 'v \<Rightarrow> ('k, 'v) smap \<Rightarrow> ('k, 'v) smap" where
  "smap_put k v [] = [(k, v)]"
| "smap_put k v (e # m) =
     (if k = fst e then (k, v) # m
      else if k < fst e then (k, v) # e # m
      else e # smap_put k v m)"

definition smap_erase :: "'k \<Rightarrow> ('k, 'v) smap \<Rightarrow> ('k, 'v) smap" where
  "smap_erase k m = filter (\<lambda>e. fst e \<noteq> k) m"

definition smap_ok :: "('k::linorder, 'v) smap \<Rightarrow> bool" where
  "smap_ok m \<longleftrightarrow> sorted_wrt (<) (map fst m)"

lemma smap_get_put: "map_of (smap_put k v m) = (map_of m)(k \<mapsto> v)"
  by (induction m) (auto simp: fun_eq_iff)

lemma smap_get_erase: "map_of (smap_erase k m) = (map_of m)(k := None)"
  by (induction m) (auto simp: smap_erase_def fun_eq_iff)

lemma keys_smap_put: "fst ` set (smap_put k v m) = insert k (fst ` set m)"
  by (induction m) auto

lemma set_smap_put_subset: "set (smap_put k v m) \<subseteq> insert (k, v) (set m)"
  by (induction m) auto

lemma smap_ok_Nil [simp]: "smap_ok []"
  by (simp add: smap_ok_def)

lemma smap_ok_put: "smap_ok m \<Longrightarrow> smap_ok (smap_put k v m)"
proof (induction m)
  case Nil
  then show ?case by (simp add: smap_ok_def)
next
  case (Cons e m)
  have "fst ` set (smap_put k v m) = insert k (fst ` set m)"
    by (rule keys_smap_put)
  with Cons show ?case
    by (auto simp: smap_ok_def not_less dest: order.strict_trans)
qed

lemma sorted_wrt_map_filter: "sorted_wrt P (map f m) \<Longrightarrow> sorted_wrt P (map f (filter Q m))"
  by (induction m) auto

lemma smap_ok_erase: "smap_ok m \<Longrightarrow> smap_ok (smap_erase k m)"
  by (simp add: smap_ok_def smap_erase_def sorted_wrt_map_filter)

lemma smap_ok_filter: "smap_ok m \<Longrightarrow> smap_ok (filter P m)"
  by (simp add: smap_ok_def sorted_wrt_map_filter)

lemma smap_ok_distinct: "smap_ok m \<Longrightarrow> distinct (map fst m)"
  unfolding smap_ok_def by (metis strict_sorted_iff)

lemma smap_mem_iff: "smap_ok m \<Longrightarrow> (k, v) \<in> set m \<longleftrightarrow> map_of m k = Some v"
  using smap_ok_distinct by fastforce

lemma foldl_smap_put:
  assumes "smap_ok m"
  shows "smap_ok (foldl (\<lambda>m x. smap_put (k x) (v x) m) m xs) \<and>
    fst ` set (foldl (\<lambda>m x. smap_put (k x) (v x) m) m xs) = fst ` set m \<union> k ` set xs"
  using assms by (induction xs arbitrary: m) (simp_all add: smap_ok_put keys_smap_put)

text \<open>Ordered maps with the same bindings are the same list.\<close>

lemma smap_ok_Cons: "smap_ok (e # m) \<longleftrightarrow> (\<forall>k \<in> fst ` set m. fst e < k) \<and> smap_ok m"
  by (auto simp: smap_ok_def)

lemma smap_ext:
  assumes "smap_ok m" and "smap_ok m'" and "map_of m = map_of m'"
  shows "m = m'"
  using assms
proof (induction m arbitrary: m')
  case Nil
  then show ?case by (cases m') (auto simp: fun_eq_iff split: if_splits)
next
  case (Cons e m)
  obtain k v where e: "e = (k, v)" by (cases e)
  show ?case
  proof (cases m')
    case Nil
    with Cons.prems(3) e show ?thesis by (auto simp: fun_eq_iff split: if_splits)
  next
    case (Cons e' m'')
    obtain k' v' where e': "e' = (k', v')" by (cases e')
    have none: "map_of m k = None" "map_of m'' k' = None"
      using Cons.prems(1,2) \<open>m' = e' # m''\<close>
      by (auto simp: e e' smap_ok_Cons map_of_eq_None_iff)
    have same: "(if x = k then Some v else map_of m x) = (if x = k' then Some v' else map_of m'' x)" for x
      using fun_cong [OF Cons.prems(3), of x] by (simp add: \<open>m' = e' # m''\<close> e e')
    have dom: "a \<in> fst ` set ys" if "map_of ys a = Some b" for a b and ys :: "('a, 'b) smap"
      using map_of_SomeD [OF that] by force
    have "k = k'"
    proof (rule ccontr)
      assume ne: "k \<noteq> k'"
      then have "map_of m'' k = Some v" "map_of m k' = Some v'" using same [of k] same [of k'] by simp_all
      then have "k \<in> fst ` set m''" "k' \<in> fst ` set m" using dom by blast+
      then have "k' < k" "k < k'" using Cons.prems(1,2) \<open>m' = e' # m''\<close> by (auto simp: e e' smap_ok_Cons)
      then show False by simp
    qed
    moreover have "v = v'" using same [of k] \<open>k = k'\<close> by simp
    moreover have "map_of m x = map_of m'' x" for x
      using same [of x] none \<open>k = k'\<close> by (cases "x = k") simp_all
    then have "m = m''"
      using Cons.IH [of m''] Cons.prems(1,2) \<open>m' = e' # m''\<close> by (auto simp: smap_ok_Cons)
    ultimately show ?thesis by (simp add: Cons e e')
  qed
qed

text \<open>
  The interface the components rely on: an ordered map answers with the last value put, and
  iterating it visits every binding once. The sorted association list provides it.
\<close>

locale ordered_map =
  fixes empty :: "'m"
    and get :: "'m \<Rightarrow> 'k \<Rightarrow> 'v option"
    and put :: "'k \<Rightarrow> 'v \<Rightarrow> 'm \<Rightarrow> 'm"
    and erase :: "'k \<Rightarrow> 'm \<Rightarrow> 'm"
    and items :: "'m \<Rightarrow> ('k \<times> 'v) list"
    and ok :: "'m \<Rightarrow> bool"
  assumes ok_empty: "ok empty"
    and ok_put: "ok m \<Longrightarrow> ok (put k v m)"
    and ok_erase: "ok m \<Longrightarrow> ok (erase k m)"
    and get_empty: "get empty k = None"
    and get_put: "get (put k v m) k' = (if k' = k then Some v else get m k')"
    and get_erase: "get (erase k m) k' = (if k' = k then None else get m k')"
    and items_get: "ok m \<Longrightarrow> (k, v) \<in> set (items m) \<longleftrightarrow> get m k = Some v"
    and items_distinct: "ok m \<Longrightarrow> distinct (map fst (items m))"
begin

lemma get_put_same: "get (put k v m) k = Some v"
  by (simp add: get_put)

lemma get_put_other: "k' \<noteq> k \<Longrightarrow> get (put k v m) k' = get m k'"
  by (simp add: get_put)

lemma items_put:
  assumes "ok m"
  shows "set (items (put k v m)) = insert (k, v) {e \<in> set (items m). fst e \<noteq> k}"
proof (intro set_eqI)
  fix e :: "'k \<times> 'v"
  obtain a b where e: "e = (a, b)" by (cases e)
  show "e \<in> set (items (put k v m)) \<longleftrightarrow> e \<in> insert (k, v) {e \<in> set (items m). fst e \<noteq> k}"
    using items_get [OF assms, of a b] items_get [OF ok_put [OF assms], of a b k v]
    by (simp add: e get_put) (metis option.inject)
qed

lemma items_all_put:
  assumes "ok m" and "\<forall>e \<in> set (items m). P (fst e) (snd e)" and "P k v"
  shows "\<forall>e \<in> set (items (put k v m)). P (fst e) (snd e)"
  using assms by (auto simp: items_put)

lemma items_inj_values:
  assumes "ok m" and "(k, v) \<in> set (items m)" and "(k, w) \<in> set (items m)"
  shows "v = w"
  using assms items_get by auto

end

interpretation smap: ordered_map "[]" map_of smap_put smap_erase "\<lambda>m. m" smap_ok
proof
  fix m :: "('a, 'b) smap" and k :: 'a and v :: 'b
  assume ok: "smap_ok m"
  then show "smap_ok (smap_put k v m)" by (rule smap_ok_put)
  from ok show "smap_ok (smap_erase k m)" by (rule smap_ok_erase)
  from ok show "(k, v) \<in> set m \<longleftrightarrow> map_of m k = Some v" by (rule smap_mem_iff)
  from ok show "distinct (map fst m)" by (rule smap_ok_distinct)
qed (simp_all add: smap_get_put smap_get_erase)

lemmas smap_laws [smap_simps] = smap_get_put smap_get_erase fun_upd_apply

section \<open>Byte layouts\<close>

text \<open>
  \<open>le_bytes n w\<close> is the loop \<^verbatim>\<open>static_cast<uint8_t>((value >> (i * 8)) & 0xFF)\<close> for
  \<open>i = 0, \<dots>, n - 1\<close>; \<open>be_bytes\<close> is the content of a fixed byte array in memory order.
\<close>

definition le_bytes :: "nat \<Rightarrow> 'a::len word \<Rightarrow> byte list" where
  "le_bytes n w = map (\<lambda>i. ucast (drop_bit (i * 8) w AND 0xFF)) [0..<n]"

definition be_bytes :: "nat \<Rightarrow> 'a::len word \<Rightarrow> byte list" where
  "be_bytes n w = rev (le_bytes n w)"

lemma length_le_bytes [simp]: "length (le_bytes n w) = n"
  by (simp add: le_bytes_def)

lemma length_be_bytes [simp]: "length (be_bytes n w) = n"
  by (simp add: be_bytes_def)

lemma mask_8_word: "(0xFF :: 'a::len word) = mask 8"
  by (simp add: mask_eq_exp_minus_1)

lemma bit_le_bytes:
  assumes "i < n"
  shows "bit (le_bytes n w ! i) j \<longleftrightarrow> j < 8 \<and> bit w (i * 8 + j)"
proof -
  have "le_bytes n w ! i = ucast (drop_bit (i * 8) w AND mask 8)"
    using assms by (simp add: le_bytes_def mask_8_word)
  then show ?thesis
    by (auto simp: bit_simps dest: bit_imp_le_length)
qed

lemma le_bytes_inj:
  fixes v w :: "'a::len word"
  assumes size: "LENGTH('a) \<le> n * 8" and eq: "le_bytes n v = le_bytes n w"
  shows "v = w"
proof (rule bit_word_eqI)
  fix k
  assume "k < LENGTH('a)"
  then have i: "k div 8 < n" using size by (simp add: less_mult_imp_div_less)
  have "bit (le_bytes n v ! (k div 8)) (k mod 8) = bit (le_bytes n w ! (k div 8)) (k mod 8)"
    by (simp add: eq)
  then show "bit v k = bit w k"
    by (simp add: bit_le_bytes [OF i])
qed

lemma be_bytes_inj:
  fixes v w :: "'a::len word"
  assumes "LENGTH('a) \<le> n * 8" and "be_bytes n v = be_bytes n w"
  shows "v = w"
  using assms le_bytes_inj by (auto simp: be_bytes_def)

lemma le_bytes_eq_iff [stream_simps]:
  "le_bytes 2 a = le_bytes 2 b \<longleftrightarrow> a = b"
  "le_bytes 4 c = le_bytes 4 d \<longleftrightarrow> c = d"
  "le_bytes 8 e = le_bytes 8 f \<longleftrightarrow> e = f"
  for a b :: u16 and c d :: u32 and e f :: u64
  by (auto dest: le_bytes_inj [rotated])

lemma be_bytes_eq_iff [stream_simps]:
  "be_bytes 32 a = be_bytes 32 b \<longleftrightarrow> a = b"
  "be_bytes 64 c = be_bytes 64 d \<longleftrightarrow> c = d"
  for a b :: digest and c d :: sig
  by (auto dest: be_bytes_inj [rotated])

text \<open>The bytes of a string, one per character.\<close>

definition string_bytes :: "string \<Rightarrow> byte list" where
  "string_bytes s = map of_char s"

lemma length_string_bytes [simp]: "length (string_bytes s) = length s"
  by (simp add: string_bytes_def)

section \<open>Decimal numbers\<close>

text \<open>\<^verbatim>\<open>std::to_string\<close> of an unsigned integer.\<close>

fun decimal :: "nat \<Rightarrow> string" where
  "decimal n = (if n < 10 then [char_of (48 + n)] else decimal (n div 10) @ [char_of (48 + n mod 10)])"

declare decimal.simps [simp del]

definition undecimal :: "string \<Rightarrow> nat" where
  "undecimal s = foldl (\<lambda>a c. 10 * a + (of_char c - 48)) 0 s"

lemma undecimal_decimal: "undecimal (decimal n) = n"
proof (induction n rule: decimal.induct)
  case (1 n)
  show ?case
  proof (cases "n < 10")
    case True
    then show ?thesis by (subst decimal.simps) (simp add: undecimal_def)
  next
    case False
    have digit: "of_char (char_of (48 + n mod 10) :: char) = 48 + n mod 10"
      by (subst of_char_of) simp
    have "decimal n = decimal (n div 10) @ [char_of (48 + n mod 10)]"
      using False by (subst decimal.simps) simp
    then have "undecimal (decimal n) = 10 * undecimal (decimal (n div 10)) + n mod 10"
      using digit by (simp add: undecimal_def)
    then show ?thesis using 1 [OF False] by simp
  qed
qed

lemma decimal_inj: "decimal m = decimal n \<longleftrightarrow> m = n"
  by (metis undecimal_decimal)

section \<open>The cryptographic library\<close>

text \<open>
  libsodium is not part of the repository. The code calls three of its functions; a
  \<open>crypto\<close> value supplies them and is an argument of every definition that hashes, signs or
  verifies. Private key material is opaque (\<^typ>\<open>byte list\<close>).
\<close>

record crypto =
  sha256 :: "byte list \<Rightarrow> digest"
  sign_detached :: "byte list \<Rightarrow> digest \<Rightarrow> sig"
  verify_detached :: "pubkey \<Rightarrow> digest \<Rightarrow> sig \<Rightarrow> bool"

text \<open>Collision freedom is only ever assumed of the byte streams that were in fact hashed.\<close>

definition collision_free :: "crypto \<Rightarrow> byte list set \<Rightarrow> bool" where
  "collision_free cr S \<longleftrightarrow> inj_on (sha256 cr) S"

lemma collision_freeD:
  "collision_free cr S \<Longrightarrow> sha256 cr x = sha256 cr y \<Longrightarrow> x \<in> S \<Longrightarrow> y \<in> S \<Longrightarrow> x = y"
  by (auto simp: collision_free_def inj_on_def)

lemma collision_free_mono: "collision_free cr S \<Longrightarrow> T \<subseteq> S \<Longrightarrow> collision_free cr T"
  by (auto simp: collision_free_def intro: inj_on_subset)

end
