(* ===== verification/Example_Crypto.thy ===== *)
theory Example_Crypto
  imports Nexus_Prelude
begin

text \<open>
  A concrete instance of the cryptographic library for the witnesses of the development: the digest
  of a byte stream is its position in a table, so that it is collision free on the streams of the
  table, and the signature of a digest is the digest itself, so that every key pair satisfies the
  law of detached signatures.
\<close>

fun stream_index :: "byte list list \<Rightarrow> byte list \<Rightarrow> nat" where
  "stream_index [] s = 0"
| "stream_index (t # ts) s = (if s = t then Suc (length ts) else stream_index ts s)"

definition example_crypto :: "byte list list \<Rightarrow> crypto" where
  "example_crypto table =
     \<lparr>sha256 = (\<lambda>s. of_nat (stream_index table s)),
      sign_detached = (\<lambda>key d. ucast d),
      verify_detached = (\<lambda>key d s. s = ucast d)\<rparr>"

text \<open>What the code relies on of a key pair: its signatures verify.\<close>

definition signs_for :: "crypto \<Rightarrow> byte list \<Rightarrow> pubkey \<Rightarrow> bool" where
  "signs_for cr private public \<longleftrightarrow>
     (\<forall>d. verify_detached cr public d (sign_detached cr private d))"

lemma stream_index_le: "stream_index ts s \<le> length ts"
  by (induction ts) auto

lemma stream_index_inj:
  "stream_index ts s = stream_index ts t \<Longrightarrow> s \<in> set ts \<Longrightarrow> t \<in> set ts \<Longrightarrow> s = t"
proof (induction ts)
  case (Cons x ts)
  have "stream_index ts u \<noteq> Suc (length ts)" for u
    using stream_index_le [of ts u] by simp
  with Cons show ?case by (auto split: if_splits)
qed simp

lemma example_collision_free:
  assumes "length table < 2 ^ 256" and "S \<subseteq> set table"
  shows "collision_free (example_crypto table) S"
  unfolding collision_free_def
proof (rule inj_onI)
  fix s t
  assume st: "s \<in> S" "t \<in> S" and eq: "sha256 (example_crypto table) s = sha256 (example_crypto table) t"
  have small: "unat (of_nat (stream_index table u) :: digest) = stream_index table u" for u
    using stream_index_le [of table u] assms(1) by (simp add: unat_of_nat take_bit_eq_mod)
  have "unat (of_nat (stream_index table s) :: digest) = unat (of_nat (stream_index table t) :: digest)"
    using eq by (simp add: example_crypto_def)
  then have "stream_index table s = stream_index table t" by (simp only: small)
  then show "s = t" using st assms(2) by (intro stream_index_inj) auto
qed

lemma example_signs_for [simp]: "signs_for (example_crypto table) private public"
  by (simp add: signs_for_def example_crypto_def)

lemma example_sha256: "sha256 (example_crypto table) s = of_nat (stream_index table s)"
  by (simp add: example_crypto_def)

lemma example_sign: "sign_detached (example_crypto table) key d = ucast d"
  by (simp add: example_crypto_def)

lemma example_verify: "verify_detached (example_crypto table) key d s \<longleftrightarrow> s = ucast d"
  by (simp add: example_crypto_def)

lemmas example_simps = example_sha256 example_sign example_verify

end
