(* ===== verification/Canonical_Encoding.thy ===== *)
theory Canonical_Encoding
  imports Example_Crypto
begin

text \<open>
  \<^verbatim>\<open>Security/CanonicalEncoding.cpp\<close>: the one serialization behind every security digest. The
  encoder is its buffer; each \<open>add_\<close> operation appends one length-prefixed field. The lemmas show
  that a byte stream determines the field sequence it was built from, as long as every field is
  shorter than the 32-bit length prefix can express.
\<close>

section \<open>The encoder\<close>

type_synonym encoder = "byte list"

definition put_length_prefixed :: "encoder \<Rightarrow> byte list \<Rightarrow> encoder" where
  "put_length_prefixed buf field =
     (let n = (of_nat (length field) :: u32) in (buf @ le_bytes 4 n) @ field)"

definition add_bytes :: "encoder \<Rightarrow> byte list \<Rightarrow> encoder" where
  "add_bytes buf field = put_length_prefixed buf field"

definition add_string :: "encoder \<Rightarrow> string \<Rightarrow> encoder" where
  "add_string buf s = put_length_prefixed buf (string_bytes s)"

definition add_u16 :: "encoder \<Rightarrow> u16 \<Rightarrow> encoder" where
  "add_u16 buf v = put_length_prefixed buf (le_bytes 2 v)"

definition add_u32 :: "encoder \<Rightarrow> u32 \<Rightarrow> encoder" where
  "add_u32 buf v = put_length_prefixed buf (le_bytes 4 v)"

definition add_u64 :: "encoder \<Rightarrow> u64 \<Rightarrow> encoder" where
  "add_u64 buf v = put_length_prefixed buf (le_bytes 8 v)"

definition canonical_encoder :: "string \<Rightarrow> encoder" where
  "canonical_encoder domain = add_string [] domain"

definition encoder_digest :: "crypto \<Rightarrow> encoder \<Rightarrow> digest" where
  "encoder_digest cr buf = sha256 cr buf"

text \<open>Fixed arrays enter through \<open>add_bytes\<close>: 32-byte digests, keys and identities, and
  64-byte signatures.\<close>

abbreviation add_digest :: "encoder \<Rightarrow> digest \<Rightarrow> encoder" where
  "add_digest buf d \<equiv> add_bytes buf (be_bytes 32 d)"

abbreviation add_node :: "encoder \<Rightarrow> node_id \<Rightarrow> encoder" where
  "add_node buf n \<equiv> add_bytes buf (be_bytes 32 (node_bytes n))"

abbreviation add_sig :: "encoder \<Rightarrow> sig \<Rightarrow> encoder" where
  "add_sig buf s \<equiv> add_bytes buf (be_bytes 64 s)"

section \<open>A stream determines its fields\<close>

definition field_stream :: "byte list list \<Rightarrow> byte list" where
  "field_stream fs = concat (map (put_length_prefixed []) fs)"

definition short_fields :: "byte list list \<Rightarrow> bool" where
  "short_fields fs \<longleftrightarrow> (\<forall>f \<in> set fs. length f < 2 ^ 32)"

lemma field_stream_simps [simp]:
  "field_stream [] = []"
  "field_stream (f # fs) = le_bytes 4 (of_nat (length f) :: u32) @ f @ field_stream fs"
  by (simp_all add: field_stream_def put_length_prefixed_def)

lemma field_stream_snoc: "field_stream (fs @ [f]) = put_length_prefixed (field_stream fs) f"
  by (simp add: field_stream_def put_length_prefixed_def)

lemma short_fields_simps [simp]:
  "short_fields []"
  "short_fields (f # fs) \<longleftrightarrow> length f < 2 ^ 32 \<and> short_fields fs"
  by (simp_all add: short_fields_def)

lemma of_nat_u32_inj:
  assumes "(of_nat m :: u32) = of_nat n" and "m < 2 ^ 32" and "n < 2 ^ 32"
  shows "m = n"
proof -
  have "unat (of_nat m :: u32) = unat (of_nat n :: u32)" using assms(1) by simp
  then show ?thesis using assms(2,3) by (simp add: unat_of_nat)
qed

lemma field_stream_inj:
  assumes "short_fields fs" and "short_fields gs" and "field_stream fs = field_stream gs"
  shows "fs = gs"
  using assms
proof (induction fs arbitrary: gs)
  case Nil
  then show ?case by (cases gs) (auto dest: arg_cong [where f = length])
next
  case (Cons f fs)
  show ?case
  proof (cases gs)
    case Nil
    with Cons.prems show ?thesis by (auto dest: arg_cong [where f = length])
  next
    case (Cons g gs')
    from Cons.prems(3) have heads: "le_bytes 4 (of_nat (length f) :: u32) = le_bytes 4 (of_nat (length g) :: u32)"
      and tails: "f @ field_stream fs = g @ field_stream gs'"
      by (simp_all add: Cons append_eq_append_conv)
    from heads have "(of_nat (length f) :: u32) = of_nat (length g)"
      by (simp add: stream_simps)
    then have "length f = length g"
      using Cons.prems(1,2) by (auto simp: Cons intro: of_nat_u32_inj)
    with tails have "f = g" and "field_stream fs = field_stream gs'"
      by (simp_all add: append_eq_append_conv)
    moreover from this(2) have "fs = gs'"
      using Cons.prems(1,2) by (intro Cons.IH) (simp_all add: Cons)
    ultimately show ?thesis by (simp add: Cons)
  qed
qed

lemma field_stream_eq_iff:
  "short_fields fs \<Longrightarrow> short_fields gs \<Longrightarrow> field_stream fs = field_stream gs \<longleftrightarrow> fs = gs"
  using field_stream_inj by blast

text \<open>Every encoder of the code is the stream of its fields; this collection turns a chain of
  \<open>add_\<close> calls into one list of fields.\<close>

lemma encoder_fields:
  "canonical_encoder d = field_stream [string_bytes d]"
  "add_bytes (field_stream fs) b = field_stream (fs @ [b])"
  "add_string (field_stream fs) s = field_stream (fs @ [string_bytes s])"
  "add_u16 (field_stream fs) v = field_stream (fs @ [le_bytes 2 v])"
  "add_u32 (field_stream fs) w = field_stream (fs @ [le_bytes 4 w])"
  "add_u64 (field_stream fs) x = field_stream (fs @ [le_bytes 8 x])"
  by (simp_all only: field_stream_snoc canonical_encoder_def add_string_def add_bytes_def
      add_u16_def add_u32_def add_u64_def)
    (simp add: put_length_prefixed_def)

lemma string_bytes_inj [stream_simps]: "string_bytes s = string_bytes t \<longleftrightarrow> s = t"
proof -
  have "inj (of_char :: char \<Rightarrow> byte)"
  proof (rule injI)
    fix c d :: char
    assume "(of_char c :: byte) = of_char d"
    then have "(of_nat (of_char c) :: byte) = of_nat (of_char d)"
      by (simp only: of_nat_of_char)
    then have "unat (of_nat (of_char c) :: byte) = unat (of_nat (of_char d) :: byte)" by simp
    then have "(of_char c :: nat) mod 256 = of_char d mod 256" by (simp add: unat_of_nat)
    then have "(of_char c :: nat) = of_char d" by (simp only: of_char_mod_256)
    then show "c = d" by simp
  qed
  then show ?thesis by (simp add: string_bytes_def inj_map_eq_map)
qed

text \<open>Streams of different domains are different.\<close>

lemma field_stream_domain:
  assumes "length d < 2 ^ 32" and "length e < 2 ^ 32"
  shows "field_stream (string_bytes d # fs) = field_stream (string_bytes e # gs) \<longleftrightarrow>
    d = e \<and> field_stream fs = field_stream gs"
proof
  assume eq: "field_stream (string_bytes d # fs) = field_stream (string_bytes e # gs)"
  then have heads: "le_bytes 4 (of_nat (length d) :: u32) = le_bytes 4 (of_nat (length e) :: u32)"
    by (simp add: append_eq_append_conv)
  then have "length d = length e"
    using assms by (auto simp: stream_simps intro: of_nat_u32_inj)
  then show "d = e \<and> field_stream fs = field_stream gs"
    using eq by (simp add: append_eq_append_conv stream_simps)
qed simp

section \<open>Properties\<close>

text \<open>Canonical encodings are unambiguous: two encoders that were filled with fields of less than
  \<open>2 ^ 32\<close> bytes hold the same buffer exactly if their domains and all their fields agree, so a
  digest binds the domain and the sequence of fields.\<close>

theorem encoder_unambiguous:
  assumes "length dm < 2 ^ 32" and "length dm' < 2 ^ 32" and "short_fields fs" and "short_fields gs"
  shows "foldl add_bytes (canonical_encoder dm) fs = foldl add_bytes (canonical_encoder dm') gs \<longleftrightarrow>
    dm = dm' \<and> fs = gs"
proof -
  have run: "foldl add_bytes (field_stream hs) ks = field_stream (hs @ ks)" for hs ks
    by (induction ks arbitrary: hs) (simp_all only: foldl.simps encoder_fields append.assoc append.simps append_Nil2)
  have "length (string_bytes dm) < 2 ^ 32" "length (string_bytes dm') < 2 ^ 32"
    using assms(1,2) by (simp_all add: string_bytes_def)
  with assms(3,4) show ?thesis
    using field_stream_eq_iff [of "string_bytes dm # fs" "string_bytes dm' # gs"]
    by (simp only: encoder_fields run short_fields_simps append.simps) (simp add: string_bytes_inj)
qed

theorem encoder_unambiguous_witness:
  "foldl add_bytes (canonical_encoder ''ab'') [[1], [2]] \<noteq> foldl add_bytes (canonical_encoder ''ab'') [[1, 2]]"
  using encoder_unambiguous [of "''ab''" "''ab''" "[[1], [2]]" "[[1, 2]]"] by simp

end
