(* ===== verification/Security_Policy.thy ===== *)
theory Security_Policy
  imports Nexus_Prelude
begin

text \<open>
  \<^verbatim>\<open>Security/Policy/SecurityConstants.hpp\<close> and \<^verbatim>\<open>Tier1TargetPolicy.hpp\<close>: the compiled constants,
  the quorum formulas and the Tier 1 population target. \<^verbatim>\<open>std::size_t\<close> is \<^typ>\<open>nat\<close>: every value
  here is a small population count. The lemmas show what the formulas are chosen for: two
  consensus quorums share a correct member, and the targets stay inside the compiled bounds.
\<close>

section \<open>Constants\<close>

definition kSecurityRulesetVersion :: u16 where "kSecurityRulesetVersion = 1"
definition kConsensusRulesetVersion :: u16 where "kConsensusRulesetVersion = 1"
definition kQcFormatVersion :: u16 where "kQcFormatVersion = 1"
definition kConsensusStoreFormatVersion :: u32 where "kConsensusStoreFormatVersion = 1"

definition kBftProtocolDomain :: string where
  "kBftProtocolDomain = ''LEMONADE-NEXUS-HOTSTUFF-V1''"
definition kTier1SelectDomain :: string where
  "kTier1SelectDomain = ''LEMONADE-NEXUS-T1-SELECT-V1''"
definition kLeaderOrderDomain :: string where
  "kLeaderOrderDomain = ''LEMONADE-NEXUS-HOTSTUFF-LEADER-V1''"

definition kBootstrapThreshold :: nat where "kBootstrapThreshold = 5"
definition kMinActiveTier1 :: nat where "kMinActiveTier1 = 5"
definition kMaxActiveTier1 :: nat where "kMaxActiveTier1 = 31"
definition kMinTier1Reserve :: nat where "kMinTier1Reserve = 2"

definition kTier1TargetSteps :: "(nat \<times> nat) list" where
  "kTier1TargetSteps =
     [(5, 5), (10, 7), (25, 10), (100, 13), (250, 16), (500, 19), (1000, 22), (2500, 25),
      (5000, 28), (10000, 31)]"

definition kMaxFutureViewDistance :: u64 where "kMaxFutureViewDistance = 64"
definition kMaxPendingProposals :: nat where "kMaxPendingProposals = 128"
definition kMaxQcSignatures :: nat where "kMaxQcSignatures = kMaxActiveTier1"
definition kMaxSyncChainBlocks :: nat where "kMaxSyncChainBlocks = 8"

definition kViewTimeoutBaseMs :: u64 where "kViewTimeoutBaseMs = 2000"
definition kViewTimeoutMaxMs :: u64 where "kViewTimeoutMaxMs = 30000"
definition kViewTimeoutBackoffFactor :: u64 where "kViewTimeoutBackoffFactor = 2"
definition kTimeoutResetAfterCommittedBlocks :: u32 where
  "kTimeoutResetAfterCommittedBlocks = 3"

definition kMinContinuityObservations :: nat where "kMinContinuityObservations = 2"
definition kMaxContinuityAttestations :: nat where "kMaxContinuityAttestations = 8"

section \<open>Quorum formulas\<close>

definition max_byzantine_faults :: "nat \<Rightarrow> nat" where
  "max_byzantine_faults n = (if n = 0 then 0 else (n - 1) div 3)"

definition consensus_quorum :: "nat \<Rightarrow> nat" where
  "consensus_quorum n = n - max_byzantine_faults n"

definition authority_threshold :: "nat \<Rightarrow> nat" where
  "authority_threshold n =
     (let quorum = consensus_quorum n
      in if quorum < kBootstrapThreshold then kBootstrapThreshold else quorum)"

fun target_loop :: "(nat \<times> nat) list \<Rightarrow> nat \<Rightarrow> nat \<Rightarrow> nat" where
  "target_loop [] admitted target = target"
| "target_loop ((min_admitted, step_target) # steps) admitted target =
     target_loop steps admitted (if admitted \<ge> min_admitted then step_target else target)"

definition tier1_target_count :: "nat \<Rightarrow> nat" where
  "tier1_target_count admitted = target_loop kTier1TargetSteps admitted 0"

record tier1_target_outcome =
  desired :: nat
  active_target :: nat
  target_shortfall :: bool
  reserve_shortfall :: bool

definition tier1_target_outcome :: "nat \<Rightarrow> nat \<Rightarrow> tier1_target_outcome" where
  "tier1_target_outcome admitted eligible =
     (let want = tier1_target_count admitted
      in \<lparr>desired = want,
          active_target = (if eligible < want then eligible else want),
          target_shortfall = (eligible < want),
          reserve_shortfall = (eligible < want + kMinTier1Reserve)\<rparr>)"

section \<open>Quorums intersect in a correct member\<close>

text \<open>
  What a Byzantine quorum formula promises, and what its clients draw from it. The formulas of
  the code provide it for every non-empty population.
\<close>

locale byzantine_quorum =
  fixes quorum :: "nat \<Rightarrow> nat" and faults :: "nat \<Rightarrow> nat"
  assumes overlap: "0 < n \<Longrightarrow> n + faults n < 2 * quorum n"
    and reachable: "quorum n \<le> n - faults n"
begin

lemma correct_in_common:
  assumes fin: "finite M" and Q: "Q \<subseteq> M" "R \<subseteq> M"
    and big: "quorum (card M) \<le> card Q" "quorum (card M) \<le> card R"
    and nonempty: "M \<noteq> {}" and faulty: "card (M - H) \<le> faults (card M)"
  obtains h where "h \<in> Q" "h \<in> R" "h \<in> H"
proof -
  have pos: "0 < card M" using fin nonempty by (simp add: card_gt_0_iff)
  have finQR: "finite Q" "finite R" using Q fin by (auto intro: finite_subset)
  have "card (Q \<union> R) \<le> card M" using Q fin by (intro card_mono) auto
  moreover have "card (Q \<union> R) + card (Q \<inter> R) = card Q + card R"
    using finQR by (rule card_Un_Int [symmetric])
  ultimately have "faults (card M) < card (Q \<inter> R)"
    using overlap [OF pos] big by linarith
  moreover have "card ((Q \<inter> R) - H) \<le> card (M - H)"
    using Q fin by (intro card_mono) auto
  ultimately have "card ((Q \<inter> R) - H) < card (Q \<inter> R)" using faulty by linarith
  then have "\<not> Q \<inter> R \<subseteq> (Q \<inter> R) - H"
    using finQR by (metis Diff_subset less_irrefl subset_antisym)
  then show thesis using that by blast
qed

lemma correct_quorum_exists: "card (M - H) \<le> faults (card M) \<Longrightarrow> finite M \<Longrightarrow> H \<subseteq> M \<Longrightarrow>
    quorum (card M) \<le> card H"
  using reachable [of "card M"] by (simp add: card_Diff_subset finite_subset)

end

lemma max_byzantine_faults_bound: "0 < n \<Longrightarrow> 3 * max_byzantine_faults n < n"
  by (simp add: max_byzantine_faults_def)

interpretation cq: byzantine_quorum consensus_quorum max_byzantine_faults
proof
  fix n :: nat
  assume "0 < n"
  then show "n + max_byzantine_faults n < 2 * consensus_quorum n"
    using max_byzantine_faults_bound [of n] by (simp add: consensus_quorum_def)
qed (simp add: consensus_quorum_def)

lemma consensus_quorum_pos: "0 < n \<Longrightarrow> 0 < consensus_quorum n"
  using max_byzantine_faults_bound [of n] by (simp add: consensus_quorum_def)

lemma consensus_quorum_le: "consensus_quorum n \<le> n"
  by (simp add: consensus_quorum_def)

section \<open>Population targets\<close>

lemma target_loop_le:
  "target \<le> b \<Longrightarrow> \<forall>s \<in> set steps. snd s \<le> b \<Longrightarrow> target_loop steps admitted target \<le> b"
  by (induction steps admitted target rule: target_loop.induct) auto

lemma target_loop_mono:
  assumes "a \<le> a'" and "t \<le> t'" and "sorted (map snd steps)" and "\<forall>s \<in> set steps. t' \<le> snd s"
  shows "target_loop steps a t \<le> target_loop steps a' t'"
  using assms
proof (induction steps arbitrary: t t')
  case (Cons s steps)
  obtain m u where s: "s = (m, u)" by (cases s)
  show ?case unfolding s target_loop.simps
    by (rule Cons.IH) (use Cons.prems in \<open>auto simp: s\<close>)
qed simp

lemma tier1_target_count_le: "tier1_target_count a \<le> kMaxActiveTier1"
  unfolding tier1_target_count_def
  by (rule target_loop_le) (simp_all add: kTier1TargetSteps_def kMaxActiveTier1_def)

lemma tier1_target_count_mono: "a \<le> b \<Longrightarrow> tier1_target_count a \<le> tier1_target_count b"
  unfolding tier1_target_count_def
  by (rule target_loop_mono) (simp_all add: kTier1TargetSteps_def)

section \<open>Properties\<close>

text \<open>C29. Quorum intersection: any two sets of members that reach the consensus quorum of a non-empty
  population share a member that is correct, whenever at most the tolerated number of members is
  faulty; and the correct members alone reach the quorum.\<close>

theorem quorums_share_correct_member:
  assumes "finite M" and "M \<noteq> {}" and "H \<subseteq> M" and "card (M - H) \<le> max_byzantine_faults (card M)"
    and "Q \<subseteq> M" and "R \<subseteq> M"
    and "consensus_quorum (card M) \<le> card Q" and "consensus_quorum (card M) \<le> card R"
  shows "Q \<inter> R \<inter> H \<noteq> {} \<and> consensus_quorum (card M) \<le> card H"
  using cq.correct_in_common [OF assms(1,5,6,7,8,2,4)] cq.correct_quorum_exists [OF assms(4,1,3)]
  by blast

theorem quorums_share_correct_member_witness:
  "{0, 1, 2, 3 :: nat} \<inter> {1, 2, 3, 4} \<inter> {0, 1, 2, 4} \<noteq> {} \<and> consensus_quorum (card {0, 1, 2, 3, 4 :: nat}) \<le> card {0, 1, 2, 4 :: nat}"
  by (rule quorums_share_correct_member)
    (simp_all add: max_byzantine_faults_def consensus_quorum_def insert_Diff_if)

text \<open>Tier 1 sizing: the target never exceeds the compiled maximum, never falls as the admitted
  population grows, and from the bootstrap population on it is at least the compiled minimum; the
  active target never exceeds the eligible population.\<close>

theorem tier1_target_bounds:
  assumes "a \<le> b"
  shows "tier1_target_count a \<le> tier1_target_count b \<and> tier1_target_count b \<le> kMaxActiveTier1 \<and>
    (kBootstrapThreshold \<le> a \<longrightarrow> kMinActiveTier1 \<le> tier1_target_count a) \<and>
    active_target (tier1_target_outcome a e) \<le> min e kMaxActiveTier1"
proof -
  have "kMinActiveTier1 \<le> tier1_target_count a" if "kBootstrapThreshold \<le> a"
    using tier1_target_count_mono [OF that]
    by (simp add: tier1_target_count_def kTier1TargetSteps_def kBootstrapThreshold_def kMinActiveTier1_def)
  moreover have "active_target (tier1_target_outcome a e) \<le> min e kMaxActiveTier1"
    using tier1_target_count_le [of a] by (simp add: tier1_target_outcome_def Let_def)
  ultimately show ?thesis using tier1_target_count_mono [OF assms] tier1_target_count_le by blast
qed

theorem tier1_target_bounds_witness:
  "tier1_target_count 7 \<le> tier1_target_count 30 \<and> tier1_target_count 30 \<le> kMaxActiveTier1 \<and>
     kMinActiveTier1 \<le> tier1_target_count 7 \<and> active_target (tier1_target_outcome 7 6) \<le> min 6 kMaxActiveTier1"
  using tier1_target_bounds [of 7 30 6] by (simp add: kBootstrapThreshold_def)

end
