(* ===== verification/Consensus_Types.thy ===== *)
theory Consensus_Types
  imports Canonical_Encoding Security_Policy "HOL-Library.Product_Lexorder"
    "HOL-Library.Multiset"
begin

text \<open>
  \<^verbatim>\<open>Security/Consensus/ConsensusTypes.hpp\<close>, \<^verbatim>\<open>ConsensusTypes.cpp\<close>, \<^verbatim>\<open>BlockPayload.cpp\<close> and
  \<^verbatim>\<open>VoteKey.cpp\<close>: the HotStuff wire types and their canonical digests. Each digest hashes a byte
  stream built by the canonical encoder; the lemmas show that the streams of distinct objects and
  of distinct message kinds are distinct, and that certificate digests ignore the signer order.
\<close>

section \<open>Wire types\<close>

record proposal =
  p_security_ruleset :: u16
  p_consensus_ruleset :: u16
  p_network_id :: digest
  p_epoch :: u64
  p_height :: u64
  p_view :: u64
  p_leader :: node_id
  p_parent_digest :: digest
  p_justify_qc_digest :: digest
  p_previous_state_root :: digest
  p_proposed_state_root :: digest
  p_transitions_digest :: digest
  p_timestamp_hint :: u64

record vote =
  v_consensus_ruleset :: u16
  v_network_id :: digest
  v_epoch :: u64
  v_height :: u64
  v_view :: u64
  v_proposal_digest :: digest
  v_voter :: node_id
  v_signature :: sig

record timeout_vote =
  t_consensus_ruleset :: u16
  t_network_id :: digest
  t_epoch :: u64
  t_view :: u64
  t_high_qc_digest :: digest
  t_voter :: node_id
  t_signature :: sig

record qc_signer =
  qs_node_id :: node_id
  qs_signature :: sig

record quorum_certificate =
  qc_format_version :: u16
  qc_consensus_ruleset :: u16
  qc_network_id :: digest
  qc_epoch :: u64
  qc_height :: u64
  qc_view :: u64
  qc_proposal_digest :: digest
  qc_signers :: "qc_signer list"

record timeout_signer =
  ts_node_id :: node_id
  ts_high_qc_digest :: digest
  ts_signature :: sig

record timeout_certificate =
  tc_consensus_ruleset :: u16
  tc_network_id :: digest
  tc_epoch :: u64
  tc_view :: u64
  tc_signers :: "timeout_signer list"

record consensus_commit =
  c_epoch :: u64
  c_height :: u64
  c_view :: u64
  c_proposal_digest :: digest
  c_proposed_state_root :: digest
  c_transitions_digest :: digest
  c_qc_digest :: digest

record certified_chain =
  cc_chain :: "(proposal \<times> quorum_certificate) list"
  cc_certifying :: quorum_certificate

datatype consensus_failure =
    FormatVersion | RulesetMismatch | NetworkMismatch | EpochMismatch | ViewMismatch
  | TooManySignatures | DuplicateSigner | UnknownSigner | InvalidSignature | InsufficientQuorum
  | ProposalDigestMismatch | NotSynced | StaleView | ViewTooFar | WrongLeader | JustifyInvalid
  | ParentQcMismatch | MissingParent | Equivocation | PendingLimit | NotLeader | StorageRejected
  | TransitionUnknown

datatype block_payload_kind =
  TreeBatch | StorageHolderPlan | StorageKeyRotation | UpgradeProgress

fun payload_kind_code :: "block_payload_kind \<Rightarrow> u16" where
  "payload_kind_code TreeBatch = 1"
| "payload_kind_code StorageHolderPlan = 2"
| "payload_kind_code StorageKeyRotation = 3"
| "payload_kind_code UpgradeProgress = 4"

definition block_payload_kind_known :: "u16 \<Rightarrow> bool" where
  "block_payload_kind_known kind \<longleftrightarrow>
     kind = payload_kind_code TreeBatch \<or> kind = payload_kind_code StorageHolderPlan \<or>
     kind = payload_kind_code StorageKeyRotation \<or> kind = payload_kind_code UpgradeProgress"

record block_payload =
  bp_kind :: block_payload_kind
  bp_body :: "byte list"

section \<open>Digests\<close>

definition make_encoder :: "string \<Rightarrow> encoder" where
  "make_encoder kind = add_string (canonical_encoder kBftProtocolDomain) kind"

definition proposal_stream :: "proposal \<Rightarrow> byte list" where
  "proposal_stream p =
     (let e = make_encoder ''proposal'';
          e = add_u16 e (p_security_ruleset p);
          e = add_u16 e (p_consensus_ruleset p);
          e = add_digest e (p_network_id p);
          e = add_u64 e (p_epoch p);
          e = add_u64 e (p_height p);
          e = add_u64 e (p_view p);
          e = add_node e (p_leader p);
          e = add_digest e (p_parent_digest p);
          e = add_digest e (p_justify_qc_digest p);
          e = add_digest e (p_previous_state_root p);
          e = add_digest e (p_proposed_state_root p);
          e = add_digest e (p_transitions_digest p)
      in add_u64 e (p_timestamp_hint p))"

definition proposal_digest :: "crypto \<Rightarrow> proposal \<Rightarrow> digest" where
  "proposal_digest cr p = encoder_digest cr (proposal_stream p)"

definition vote_stream ::
  "u16 \<Rightarrow> digest \<Rightarrow> u64 \<Rightarrow> u64 \<Rightarrow> u64 \<Rightarrow> digest \<Rightarrow> node_id \<Rightarrow> byte list" where
  "vote_stream ruleset network epoch height view pd voter =
     (let e = make_encoder ''vote'';
          e = add_u16 e ruleset;
          e = add_digest e network;
          e = add_u64 e epoch;
          e = add_u64 e height;
          e = add_u64 e view;
          e = add_digest e pd
      in add_node e voter)"

definition vote_signing_digest ::
  "crypto \<Rightarrow> u16 \<Rightarrow> digest \<Rightarrow> u64 \<Rightarrow> u64 \<Rightarrow> u64 \<Rightarrow> digest \<Rightarrow> node_id \<Rightarrow> digest" where
  "vote_signing_digest cr ruleset network epoch height view pd voter =
     encoder_digest cr (vote_stream ruleset network epoch height view pd voter)"

definition vote_digest :: "crypto \<Rightarrow> vote \<Rightarrow> digest" where
  "vote_digest cr v =
     vote_signing_digest cr (v_consensus_ruleset v) (v_network_id v) (v_epoch v) (v_height v)
       (v_view v) (v_proposal_digest v) (v_voter v)"

definition timeout_stream ::
  "u16 \<Rightarrow> digest \<Rightarrow> u64 \<Rightarrow> u64 \<Rightarrow> digest \<Rightarrow> node_id \<Rightarrow> byte list" where
  "timeout_stream ruleset network epoch view hqd voter =
     (let e = make_encoder ''timeout-vote'';
          e = add_u16 e ruleset;
          e = add_digest e network;
          e = add_u64 e epoch;
          e = add_u64 e view;
          e = add_digest e hqd
      in add_node e voter)"

definition timeout_vote_signing_digest ::
  "crypto \<Rightarrow> u16 \<Rightarrow> digest \<Rightarrow> u64 \<Rightarrow> u64 \<Rightarrow> digest \<Rightarrow> node_id \<Rightarrow> digest" where
  "timeout_vote_signing_digest cr ruleset network epoch view hqd voter =
     encoder_digest cr (timeout_stream ruleset network epoch view hqd voter)"

definition timeout_vote_digest :: "crypto \<Rightarrow> timeout_vote \<Rightarrow> digest" where
  "timeout_vote_digest cr v =
     timeout_vote_signing_digest cr (t_consensus_ruleset v) (t_network_id v) (t_epoch v) (t_view v)
       (t_high_qc_digest v) (t_voter v)"

text \<open>The comparison functions of the two \<^verbatim>\<open>std::sort\<close> calls are the lexicographic order of these
  tuples, and equal tuples are equal signers.\<close>

definition qc_signer_key :: "qc_signer \<Rightarrow> node_id \<times> sig" where
  "qc_signer_key s = (qs_node_id s, qs_signature s)"

definition timeout_signer_key :: "timeout_signer \<Rightarrow> node_id \<times> digest \<times> sig" where
  "timeout_signer_key s = (ts_node_id s, ts_high_qc_digest s, ts_signature s)"

fun add_qc_signer :: "encoder \<Rightarrow> node_id \<times> sig \<Rightarrow> encoder" where
  "add_qc_signer e (n, s) = add_sig (add_node e n) s"

fun add_timeout_signer :: "encoder \<Rightarrow> node_id \<times> digest \<times> sig \<Rightarrow> encoder" where
  "add_timeout_signer e (n, d, s) = add_sig (add_digest (add_node e n) d) s"

definition qc_stream :: "quorum_certificate \<Rightarrow> byte list" where
  "qc_stream q =
     (let e = make_encoder ''qc'';
          e = add_u16 e (qc_format_version q);
          e = add_u16 e (qc_consensus_ruleset q);
          e = add_digest e (qc_network_id q);
          e = add_u64 e (qc_epoch q);
          e = add_u64 e (qc_height q);
          e = add_u64 e (qc_view q);
          e = add_digest e (qc_proposal_digest q);
          signers = sort (map qc_signer_key (qc_signers q));
          e = add_u64 e (of_nat (length signers))
      in foldl add_qc_signer e signers)"

definition qc_digest :: "crypto \<Rightarrow> quorum_certificate \<Rightarrow> digest" where
  "qc_digest cr q = encoder_digest cr (qc_stream q)"

definition timeout_certificate_digest :: "crypto \<Rightarrow> timeout_certificate \<Rightarrow> digest" where
  "timeout_certificate_digest cr c =
     (let e = make_encoder ''tc'';
          e = add_u16 e (tc_consensus_ruleset c);
          e = add_digest e (tc_network_id c);
          e = add_u64 e (tc_epoch c);
          e = add_u64 e (tc_view c);
          signers = sort (map timeout_signer_key (tc_signers c));
          e = add_u64 e (of_nat (length signers))
      in encoder_digest cr (foldl add_timeout_signer e signers))"

definition consensus_state_record_digest ::
  "crypto \<Rightarrow> quorum_certificate \<Rightarrow> quorum_certificate \<Rightarrow> u16 \<Rightarrow> u64 \<Rightarrow> u64 \<Rightarrow> digest" where
  "consensus_state_record_digest cr high locked ruleset epoch last_voted =
     (let e = make_encoder ''safety-record'';
          e = add_u32 e kConsensusStoreFormatVersion;
          e = add_u64 e epoch;
          e = add_u16 e ruleset;
          e = add_u64 e last_voted;
          e = add_digest e (qc_digest cr high);
          e = add_digest e (qc_digest cr locked)
      in encoder_digest cr e)"

definition consensus_commit_record_digest :: "crypto \<Rightarrow> consensus_commit \<Rightarrow> digest" where
  "consensus_commit_record_digest cr c =
     (let e = make_encoder ''commit-record'';
          e = add_u32 e kConsensusStoreFormatVersion;
          e = add_u64 e (c_epoch c);
          e = add_u64 e (c_height c);
          e = add_u64 e (c_view c);
          e = add_digest e (c_proposal_digest c);
          e = add_digest e (c_proposed_state_root c);
          e = add_digest e (c_transitions_digest c);
          e = add_digest e (c_qc_digest c)
      in encoder_digest cr e)"

fun add_chain_entry :: "crypto \<Rightarrow> encoder \<Rightarrow> proposal \<times> quorum_certificate \<Rightarrow> encoder" where
  "add_chain_entry cr e (p, justify) =
     add_digest (add_digest e (proposal_digest cr p)) (qc_digest cr justify)"

definition consensus_chain_record_digest :: "crypto \<Rightarrow> u64 \<Rightarrow> certified_chain \<Rightarrow> digest" where
  "consensus_chain_record_digest cr epoch chain =
     (let e = make_encoder ''chain-record'';
          e = add_u32 e kConsensusStoreFormatVersion;
          e = add_u64 e epoch;
          e = add_u64 e (of_nat (length (cc_chain chain)));
          e = foldl (add_chain_entry cr) e (cc_chain chain);
          e = add_digest e (qc_digest cr (cc_certifying chain))
      in encoder_digest cr e)"

definition block_payload_stream :: "block_payload \<Rightarrow> byte list" where
  "block_payload_stream payload =
     (let e = canonical_encoder kBftProtocolDomain;
          e = add_string e ''block-payload'';
          e = add_u16 e (payload_kind_code (bp_kind payload))
      in add_bytes e (bp_body payload))"

definition block_payload_digest :: "crypto \<Rightarrow> block_payload \<Rightarrow> digest" where
  "block_payload_digest cr payload = encoder_digest cr (block_payload_stream payload)"

section \<open>Vote keys\<close>

text \<open>\<^verbatim>\<open>EpochVoteKey\<close>: the signing half is opaque to the model, \<^verbatim>\<open>sign_digest\<close> and \<^verbatim>\<open>verify_digest\<close>
  are the library's detached signatures over the 32 digest bytes. A key whose private part does
  not have the 64 bytes of the library's secret key makes \<^verbatim>\<open>sign_digest\<close> throw.\<close>

record epoch_vote_key =
  vk_epoch :: u64
  vk_node_id :: node_id
  vk_public_key :: pubkey
  vk_private_key :: "byte list"

definition sign_digest :: "crypto \<Rightarrow> epoch_vote_key \<Rightarrow> digest \<Rightarrow> sig option" where
  "sign_digest cr key d =
     (if length (vk_private_key key) \<noteq> 64 then None
      else Some (sign_detached cr (vk_private_key key) d))"

definition verify_digest :: "crypto \<Rightarrow> pubkey \<Rightarrow> digest \<Rightarrow> sig \<Rightarrow> bool" where
  "verify_digest cr key d s = verify_detached cr key d s"

section \<open>Streams of distinct objects are distinct\<close>

abbreviation b32 :: "digest \<Rightarrow> byte list" where "b32 d \<equiv> be_bytes 32 d"
abbreviation bnode :: "node_id \<Rightarrow> byte list" where "bnode n \<equiv> be_bytes 32 (node_bytes n)"

lemma make_encoder_fields:
  "make_encoder kind = field_stream [string_bytes kBftProtocolDomain, string_bytes kind]"
  by (simp add: make_encoder_def encoder_fields del: field_stream_simps)

lemma proposal_stream_fields:
  "proposal_stream p = field_stream
     [string_bytes kBftProtocolDomain, string_bytes ''proposal'',
      le_bytes 2 (p_security_ruleset p), le_bytes 2 (p_consensus_ruleset p), b32 (p_network_id p),
      le_bytes 8 (p_epoch p), le_bytes 8 (p_height p), le_bytes 8 (p_view p), bnode (p_leader p),
      b32 (p_parent_digest p), b32 (p_justify_qc_digest p), b32 (p_previous_state_root p),
      b32 (p_proposed_state_root p), b32 (p_transitions_digest p), le_bytes 8 (p_timestamp_hint p)]"
  by (simp add: proposal_stream_def make_encoder_fields encoder_fields del: field_stream_simps)

lemma vote_stream_fields:
  "vote_stream rs nw ep ht vw pd vt = field_stream
     [string_bytes kBftProtocolDomain, string_bytes ''vote'', le_bytes 2 rs, b32 nw, le_bytes 8 ep,
      le_bytes 8 ht, le_bytes 8 vw, b32 pd, bnode vt]"
  by (simp add: vote_stream_def make_encoder_fields encoder_fields del: field_stream_simps)

lemma timeout_stream_fields:
  "timeout_stream rs nw ep vw hq vt = field_stream
     [string_bytes kBftProtocolDomain, string_bytes ''timeout-vote'', le_bytes 2 rs, b32 nw,
      le_bytes 8 ep, le_bytes 8 vw, b32 hq, bnode vt]"
  by (simp add: timeout_stream_def make_encoder_fields encoder_fields del: field_stream_simps)

fun signer_fields :: "node_id \<times> sig \<Rightarrow> byte list list" where
  "signer_fields (n, s) = [bnode n, be_bytes 64 s]"

lemma signer_fields_eq: "signer_fields x = [bnode (fst x), be_bytes 64 (snd x)]"
  by (cases x) simp

lemma foldl_add_qc_signer:
  "foldl add_qc_signer (field_stream fs) xs = field_stream (fs @ concat (map signer_fields xs))"
  by (induction xs arbitrary: fs) (auto simp: encoder_fields simp del: field_stream_simps)

lemma qc_stream_fields:
  "qc_stream q = field_stream
     ([string_bytes kBftProtocolDomain, string_bytes ''qc'', le_bytes 2 (qc_format_version q),
       le_bytes 2 (qc_consensus_ruleset q), b32 (qc_network_id q), le_bytes 8 (qc_epoch q),
       le_bytes 8 (qc_height q), le_bytes 8 (qc_view q), b32 (qc_proposal_digest q),
       le_bytes 8 (of_nat (length (qc_signers q)) :: u64)]
      @ concat (map signer_fields (sort (map qc_signer_key (qc_signers q)))))"
  by (simp add: qc_stream_def make_encoder_fields encoder_fields foldl_add_qc_signer
      del: field_stream_simps)

lemma short_signer_fields: "short_fields (concat (map signer_fields xs))"
  by (induction xs rule: list.induct) (simp_all add: signer_fields_eq)

lemma signer_fields_inj:
  "concat (map signer_fields xs) = concat (map signer_fields ys) \<longleftrightarrow> xs = ys"
proof (induction xs arbitrary: ys)
  case Nil
  show ?case by (cases ys) (simp_all add: signer_fields_eq)
next
  case (Cons x xs)
  show ?case
  proof (cases ys)
    case Nil
    then show ?thesis by (simp add: signer_fields_eq)
  next
    case (Cons y ys')
    then show ?thesis
      using Cons.IH [of ys'] by (simp add: signer_fields_eq stream_simps prod_eq_iff)
  qed
qed

lemmas stream_fields =
  proposal_stream_fields vote_stream_fields timeout_stream_fields qc_stream_fields

lemmas short_streams =
  short_fields_simps length_string_bytes length_le_bytes length_be_bytes kBftProtocolDomain_def

lemma short_fields_append: "short_fields (fs @ gs) \<longleftrightarrow> short_fields fs \<and> short_fields gs"
  by (auto simp: short_fields_def)

lemma proposal_stream_eq_iff [stream_simps]: "proposal_stream p = proposal_stream q \<longleftrightarrow> p = q"
  unfolding proposal_stream_fields
  by (subst field_stream_eq_iff)
    (auto simp: short_streams stream_simps intro!: proposal.equality)

lemma vote_stream_eq_iff [stream_simps]:
  "vote_stream rs nw ep ht vw pd vt = vote_stream rs' nw' ep' ht' vw' pd' vt' \<longleftrightarrow>
     rs = rs' \<and> nw = nw' \<and> ep = ep' \<and> ht = ht' \<and> vw = vw' \<and> pd = pd' \<and> vt = vt'"
  unfolding vote_stream_fields
  by (subst field_stream_eq_iff)
    (auto simp: short_streams stream_simps)

definition qc_header :: "quorum_certificate \<Rightarrow> u16 \<times> u16 \<times> digest \<times> u64 \<times> u64 \<times> u64 \<times> digest" where
  "qc_header q = (qc_format_version q, qc_consensus_ruleset q, qc_network_id q, qc_epoch q,
     qc_height q, qc_view q, qc_proposal_digest q)"

lemma qc_stream_eq_iff [stream_simps]:
  "qc_stream q = qc_stream r \<longleftrightarrow>
     qc_header q = qc_header r \<and>
     sort (map qc_signer_key (qc_signers q)) = sort (map qc_signer_key (qc_signers r))"
proof -
  have "sort (map qc_signer_key (qc_signers q)) = sort (map qc_signer_key (qc_signers r)) \<Longrightarrow>
      length (qc_signers q) = length (qc_signers r)"
    by (metis length_map length_sort)
  then show ?thesis
    unfolding qc_stream_fields
    by (subst field_stream_eq_iff)
      (auto simp: short_streams short_fields_append short_signer_fields signer_fields_inj
        stream_simps qc_header_def)
qed

lemma stream_kinds_distinct [stream_simps]:
  "proposal_stream p \<noteq> qc_stream q" "qc_stream q \<noteq> proposal_stream p"
  "proposal_stream p \<noteq> vote_stream rs nw ep ht vw pd vt"
  "vote_stream rs nw ep ht vw pd vt \<noteq> proposal_stream p"
  "vote_stream rs nw ep ht vw pd vt \<noteq> qc_stream q"
  "qc_stream q \<noteq> vote_stream rs nw ep ht vw pd vt"
  "vote_stream rs nw ep ht vw pd vt \<noteq> timeout_stream rs' nw' ep' vw' hq' vt'"
  unfolding stream_fields
  by (subst field_stream_eq_iff;
      simp add: short_streams short_fields_append short_signer_fields stream_simps)+

text \<open>What a collision-free hash gives the protocol code.\<close>

lemma proposal_digest_inj:
  assumes "collision_free cr S" and "proposal_stream p \<in> S" and "proposal_stream q \<in> S"
    and "proposal_digest cr p = proposal_digest cr q"
  shows "p = q"
  using assms collision_freeD [of cr S "proposal_stream p" "proposal_stream q"]
  by (simp add: proposal_digest_def encoder_digest_def stream_simps)

lemma qc_digest_header:
  assumes "collision_free cr S" and "qc_stream q \<in> S" and "qc_stream r \<in> S"
    and "qc_digest cr q = qc_digest cr r"
  shows "qc_header q = qc_header r"
  using assms collision_freeD [of cr S "qc_stream q" "qc_stream r"]
  by (simp add: qc_digest_def encoder_digest_def stream_simps)

lemma sort_eq_iff_mset:
  fixes xs ys :: "'a::linorder list"
  shows "sort xs = sort ys \<longleftrightarrow> mset xs = mset ys"
proof
  assume "sort xs = sort ys"
  then have "mset (sort xs) = mset (sort ys)" by (rule arg_cong)
  then show "mset xs = mset ys" by simp
next
  assume "mset xs = mset ys"
  then have "sorted_list_of_multiset (mset xs) = sorted_list_of_multiset (mset ys)" by simp
  then show "sort xs = sort ys" by (simp only: sorted_list_of_multiset_mset)
qed

lemma qc_digest_signer_order:
  assumes "mset (qc_signers q) = mset (qc_signers r)" and "qc_header q = qc_header r"
  shows "qc_digest cr q = qc_digest cr r"
proof -
  have "mset (map qc_signer_key (qc_signers q)) = mset (map qc_signer_key (qc_signers r))"
    using assms(1) by simp
  then have "sort (map qc_signer_key (qc_signers q)) = sort (map qc_signer_key (qc_signers r))"
    by (simp only: sort_eq_iff_mset)
  with assms(2) have "qc_stream q = qc_stream r" by (simp add: stream_simps)
  then show ?thesis by (simp add: qc_digest_def)
qed

section \<open>Properties\<close>

text \<open>A proposal digest binds the whole proposal: where the hash does not collide on the streams
  actually hashed, equal digests mean equal proposals in all thirteen fields, and a proposal never
  shares its digest with a vote or a certificate.\<close>

theorem proposal_digest_binding:
  assumes "collision_free cr S" and "proposal_stream p \<in> S" and "proposal_stream q \<in> S"
    and "vote_stream rs nw ep ht vw pd vt \<in> S" and "qc_stream c \<in> S"
  shows "(proposal_digest cr p = proposal_digest cr q \<longleftrightarrow> p = q) \<and>
    proposal_digest cr p \<noteq> vote_signing_digest cr rs nw ep ht vw pd vt \<and>
    proposal_digest cr p \<noteq> qc_digest cr c"
  using assms proposal_digest_inj [OF assms(1-3)]
    collision_freeD [of cr S "proposal_stream p" "vote_stream rs nw ep ht vw pd vt"]
    collision_freeD [of cr S "proposal_stream p" "qc_stream c"]
  by (auto simp: proposal_digest_def vote_signing_digest_def qc_digest_def encoder_digest_def stream_simps)

definition example_proposal :: "u64 \<Rightarrow> proposal" where
  "example_proposal h =
     \<lparr>p_security_ruleset = 1, p_consensus_ruleset = 1, p_network_id = 2, p_epoch = 3, p_height = h,
      p_view = 5, p_leader = NodeId 7, p_parent_digest = 11, p_justify_qc_digest = 12,
      p_previous_state_root = 13, p_proposed_state_root = 14, p_transitions_digest = 15,
      p_timestamp_hint = 16\<rparr>"

definition example_certificate :: "qc_signer list \<Rightarrow> quorum_certificate" where
  "example_certificate signers =
     \<lparr>qc_format_version = 1, qc_consensus_ruleset = 1, qc_network_id = 2, qc_epoch = 3, qc_height = 4,
      qc_view = 5, qc_proposal_digest = 6, qc_signers = signers\<rparr>"

definition example_streams :: "byte list list" where
  "example_streams = [proposal_stream (example_proposal 4), proposal_stream (example_proposal 8),
     vote_stream 1 2 3 4 5 6 (NodeId 7), qc_stream (example_certificate [])]"

theorem proposal_digest_binding_witness:
  "proposal_digest (example_crypto example_streams) (example_proposal 4) \<noteq>
     proposal_digest (example_crypto example_streams) (example_proposal 8) \<and>
   proposal_digest (example_crypto example_streams) (example_proposal 4) \<noteq>
     vote_signing_digest (example_crypto example_streams) 1 2 3 4 5 6 (NodeId 7)"
proof -
  have "collision_free (example_crypto example_streams) (set example_streams)"
    by (rule example_collision_free) (simp_all add: example_streams_def)
  then show ?thesis
    using proposal_digest_binding [of "example_crypto example_streams" "set example_streams" "example_proposal 4"
        "example_proposal 8" 1 2 3 4 5 6 "NodeId 7" "example_certificate []"]
    by (simp add: example_streams_def example_proposal_def)
qed

text \<open>A certificate digest depends on the header and the signer set and on nothing else: it ignores
  the order in which signatures arrived, and where the hash does not collide it determines the
  header and the signatures.\<close>

theorem qc_digest_binding:
  assumes "collision_free cr {qc_stream q, qc_stream r}"
  shows "qc_digest cr q = qc_digest cr r \<longleftrightarrow>
    qc_header q = qc_header r \<and> mset (map qc_signer_key (qc_signers q)) = mset (map qc_signer_key (qc_signers r))"
proof -
  have "qc_digest cr q = qc_digest cr r \<longleftrightarrow> qc_stream q = qc_stream r"
    using collision_freeD [OF assms, of "qc_stream q" "qc_stream r"]
    by (auto simp: qc_digest_def encoder_digest_def)
  also have "\<dots> \<longleftrightarrow> qc_header q = qc_header r \<and>
      sort (map qc_signer_key (qc_signers q)) = sort (map qc_signer_key (qc_signers r))"
    by (rule qc_stream_eq_iff)
  also have "sort (map qc_signer_key (qc_signers q)) = sort (map qc_signer_key (qc_signers r)) \<longleftrightarrow>
      mset (map qc_signer_key (qc_signers q)) = mset (map qc_signer_key (qc_signers r))"
    by (rule sort_eq_iff_mset)
  finally show ?thesis .
qed

theorem qc_digest_binding_witness:
  "let a = example_certificate [\<lparr>qs_node_id = NodeId 7, qs_signature = 8\<rparr>, \<lparr>qs_node_id = NodeId 9, qs_signature = 10\<rparr>];
       b = example_certificate [\<lparr>qs_node_id = NodeId 9, qs_signature = 10\<rparr>, \<lparr>qs_node_id = NodeId 7, qs_signature = 8\<rparr>];
       cr = example_crypto [qc_stream a, qc_stream b]
   in qc_digest cr a = qc_digest cr b"
proof -
  have "collision_free (example_crypto [qc_stream a, qc_stream b]) {qc_stream a, qc_stream b}" for a b
    by (rule example_collision_free) simp_all
  from qc_digest_binding [OF this] show ?thesis
    by (simp add: Let_def example_certificate_def qc_header_def add_mset_commute)
qed

end
