(* ===== verification/Store_Interface.thy ===== *)
theory Store_Interface
  imports Consensus_Types
begin

text \<open>
  The interface of \<^verbatim>\<open>Security/Consensus/ConsensusStore.hpp\<close> between the HotStuff replica and its
  durable store: the persisted safety state, the operations of \<^verbatim>\<open>IConsensusStore\<close> as a record of
  state-passing functions, and the contract the replica relies on as a locale. The file store
  discharges the contract in the theory \<open>Consensus_Store\<close>.
\<close>

record hotstuff_state =
  s_epoch :: u64
  s_consensus_ruleset :: u16
  s_last_voted_view :: u64
  s_high_qc :: quorum_certificate
  s_locked_qc :: quorum_certificate

text \<open>A \<^verbatim>\<open>std::variant\<close> of a value and \<^verbatim>\<open>LoadResult\<close>.\<close>

datatype 'a loaded = Loaded 'a | Absent | Corrupt

record 'st consensus_store_ops =
  store_before_vote :: "hotstuff_state \<Rightarrow> 'st \<Rightarrow> bool \<times> 'st"
  load_state :: "u64 \<Rightarrow> 'st \<Rightarrow> hotstuff_state loaded"
  store_commit :: "consensus_commit \<Rightarrow> 'st \<Rightarrow> bool \<times> 'st"
  latest_commit :: "u64 \<Rightarrow> 'st \<Rightarrow> consensus_commit option"
  store_chain :: "u64 \<Rightarrow> certified_chain \<Rightarrow> 'st \<Rightarrow> bool \<times> 'st"
  load_chain :: "u64 \<Rightarrow> 'st \<Rightarrow> certified_chain loaded"

text \<open>The order \<^verbatim>\<open>store_before_vote\<close> enforces on the safety states of one epoch.\<close>

definition state_le :: "hotstuff_state \<Rightarrow> hotstuff_state \<Rightarrow> bool" where
  "state_le prior s \<longleftrightarrow>
     s_epoch prior = s_epoch s \<and> s_last_voted_view prior \<le> s_last_voted_view s \<and>
     qc_view (s_high_qc prior) \<le> qc_view (s_high_qc s) \<and>
     qc_view (s_locked_qc prior) \<le> qc_view (s_locked_qc s)"

lemma state_le_refl [simp]: "state_le s s"
  by (simp add: state_le_def)

lemma state_le_trans: "state_le a b \<Longrightarrow> state_le b c \<Longrightarrow> state_le a c"
  by (auto simp: state_le_def)

text \<open>
  What the replica relies on. \<open>possible e st\<close> is the set of results a load of epoch \<open>e\<close> can give
  now or after a crash at this moment. A successful \<^verbatim>\<open>store_before_vote\<close> leaves the new state as the
  only one; a refused one adds the new state at most. A record that does not read back reads as
  \<^const>\<open>Corrupt\<close>, never as another state. States never regress, corrupt state is never overwritten,
  and the commit and chain records do not touch the safety record.
\<close>

locale consensus_store =
  fixes ops :: "'st consensus_store_ops" and store_ok :: "'st \<Rightarrow> bool"
    and possible :: "u64 \<Rightarrow> 'st \<Rightarrow> hotstuff_state loaded set"
  assumes load_possible: "store_ok st \<Longrightarrow> load_state ops e st \<in> possible e st"
    and stored: "store_ok st \<Longrightarrow> store_before_vote ops s st = (True, st') \<Longrightarrow>
      possible (s_epoch s) st' \<subseteq> {Loaded s, Corrupt}"
    and refused: "store_ok st \<Longrightarrow> store_before_vote ops s st = (False, st') \<Longrightarrow>
      possible (s_epoch s) st' \<subseteq> possible (s_epoch s) st \<union> {Loaded s, Corrupt}"
    and other_epoch: "store_ok st \<Longrightarrow> e \<noteq> s_epoch s \<Longrightarrow>
      possible e (snd (store_before_vote ops s st)) \<subseteq> possible e st"
    and no_regress: "store_ok st \<Longrightarrow> load_state ops (s_epoch s) st = Loaded prior \<Longrightarrow>
      snd (store_before_vote ops s st) \<noteq> st \<or> fst (store_before_vote ops s st) \<Longrightarrow> state_le prior s"
    and corrupt_kept: "store_ok st \<Longrightarrow> load_state ops (s_epoch s) st = Corrupt \<Longrightarrow>
      store_before_vote ops s st = (False, st)"
    and commit_frame: "store_ok st \<Longrightarrow> possible e (snd (store_commit ops c st)) \<subseteq> possible e st"
    and chain_frame: "store_ok st \<Longrightarrow> possible e (snd (store_chain ops e' ch st)) \<subseteq> possible e st"
    and ok_before_vote: "store_ok st \<Longrightarrow> store_ok (snd (store_before_vote ops s st))"
    and ok_commit: "store_ok st \<Longrightarrow> store_ok (snd (store_commit ops c st))"
    and ok_chain: "store_ok st \<Longrightarrow> store_ok (snd (store_chain ops e' ch st))"
begin

text \<open>A stored state is a floor: a load after another store gives it, a later state, or nothing.\<close>

lemma floor_kept:
  assumes "store_ok st" and "load_state ops e st = Loaded prior" and "possible e st = {Loaded prior}"
  shows "load_state ops e (snd (store_before_vote ops s st)) \<in>
    {Corrupt, Loaded prior} \<union> {Loaded s' |s'. s' = s \<and> state_le prior s}"
proof -
  obtain b st' where r: "store_before_vote ops s st = (b, st')" by fastforce
  have mem: "load_state ops e st' \<in> possible e st'"
    using load_possible ok_before_vote assms(1) r by (metis snd_conv)
  show ?thesis
  proof (cases "st' = st \<or> e \<noteq> s_epoch s")
    case True
    then show ?thesis using assms mem other_epoch [OF assms(1), of e s] r by auto
  next
    case False
    then have "state_le prior s" using no_regress [OF assms(1)] assms(2) r by auto
    then show ?thesis
      using False assms(3) mem stored [OF assms(1), of s st'] refused [OF assms(1), of s st'] r
      by (cases b) auto
  qed
qed

end

end
