(* ===== verification/Quorum_Validation.thy ===== *)
theory Quorum_Validation
  imports Consensus_Types
begin

text \<open>
  \<^verbatim>\<open>Security/Consensus/QuorumValidation.cpp\<close> and \<^verbatim>\<open>CommitProof.cpp\<close>: certificate validation against
  the frozen epoch membership and verification of the portable three-chain commit proof. The
  lemmas say exactly what a validated certificate is: the context's header, at most the compiled
  number of signature entries, members only, and a verified vote signature for each of at least a
  quorum of distinct members; and from it, that certificates stand for votes that were cast, so that
  two of one view certify one proposal.
\<close>

section \<open>Certificate validation\<close>

record qc_validation_context =
  vc_consensus_ruleset :: u16
  vc_network_id :: digest
  vc_epoch :: u64
  vc_quorum :: nat

type_synonym vote_keys = "(node_id, pubkey) smap"

text \<open>\<^verbatim>\<open>distinct_signers\<close>: the first entry per node, in order; \<open>seen\<close> is the set of the loop.\<close>

fun distinct_signers :: "('a \<Rightarrow> node_id) \<Rightarrow> node_id set \<Rightarrow> 'a list \<Rightarrow> 'a list" where
  "distinct_signers node seen [] = []"
| "distinct_signers node seen (s # signers) =
     (if node s \<in> seen then distinct_signers node seen signers
      else s # distinct_signers node (insert (node s) seen) signers)"

definition qc_signature_ok ::
  "crypto \<Rightarrow> vote_keys \<Rightarrow> quorum_certificate \<Rightarrow> qc_signer \<Rightarrow> bool" where
  "qc_signature_ok cr keys q s =
     (let d = vote_signing_digest cr (qc_consensus_ruleset q) (qc_network_id q) (qc_epoch q)
                (qc_height q) (qc_view q) (qc_proposal_digest q) (qs_node_id s)
      in case map_of keys (qs_node_id s) of
           None \<Rightarrow> False
         | Some key \<Rightarrow> verify_digest cr key d (qs_signature s))"

definition validate_quorum_certificate ::
  "crypto \<Rightarrow> quorum_certificate \<Rightarrow> qc_validation_context \<Rightarrow> vote_keys \<Rightarrow> consensus_failure option" where
  "validate_quorum_certificate cr q ctx keys =
     (if qc_format_version q \<noteq> kQcFormatVersion then Some FormatVersion
      else if qc_consensus_ruleset q \<noteq> vc_consensus_ruleset ctx then Some RulesetMismatch
      else if qc_network_id q \<noteq> vc_network_id ctx then Some NetworkMismatch
      else if qc_epoch q \<noteq> vc_epoch ctx then Some EpochMismatch
      else if length (qc_signers q) > kMaxQcSignatures then Some TooManySignatures
      else if list_ex (\<lambda>s. \<not> smap_has keys (qs_node_id s)) (qc_signers q) then Some UnknownSigner
      else let dist = distinct_signers qs_node_id {} (qc_signers q)
           in if length dist < vc_quorum ctx then Some InsufficientQuorum
              else if list_all (qc_signature_ok cr keys q) dist then None
              else Some InvalidSignature)"

definition timeout_signature_ok ::
  "crypto \<Rightarrow> vote_keys \<Rightarrow> timeout_certificate \<Rightarrow> timeout_signer \<Rightarrow> bool" where
  "timeout_signature_ok cr keys c s =
     (let d = timeout_vote_signing_digest cr (tc_consensus_ruleset c) (tc_network_id c)
                (tc_epoch c) (tc_view c) (ts_high_qc_digest s) (ts_node_id s)
      in case map_of keys (ts_node_id s) of
           None \<Rightarrow> False
         | Some key \<Rightarrow> verify_digest cr key d (ts_signature s))"

definition validate_timeout_certificate ::
  "crypto \<Rightarrow> timeout_certificate \<Rightarrow> qc_validation_context \<Rightarrow> vote_keys \<Rightarrow> consensus_failure option" where
  "validate_timeout_certificate cr c ctx keys =
     (if tc_consensus_ruleset c \<noteq> vc_consensus_ruleset ctx then Some RulesetMismatch
      else if tc_network_id c \<noteq> vc_network_id ctx then Some NetworkMismatch
      else if tc_epoch c \<noteq> vc_epoch ctx then Some EpochMismatch
      else if length (tc_signers c) > kMaxQcSignatures then Some TooManySignatures
      else if list_ex (\<lambda>s. \<not> smap_has keys (ts_node_id s)) (tc_signers c) then Some UnknownSigner
      else let dist = distinct_signers ts_node_id {} (tc_signers c)
           in if length dist < vc_quorum ctx then Some InsufficientQuorum
              else if list_all (timeout_signature_ok cr keys c) dist then None
              else Some InvalidSignature)"

section \<open>Commit proofs\<close>

record committed_block =
  cb_proposal :: proposal
  cb_justify :: quorum_certificate

record commit_proof =
  cp_chain :: "committed_block list"
  cp_certifying :: quorum_certificate

datatype commit_proof_failure =
  CpNone | WrongShape | WrongTransitions | ContextMismatch | BrokenChain | CertificateInvalid

definition context_matches :: "qc_validation_context \<Rightarrow> committed_block \<Rightarrow> bool" where
  "context_matches ctx b \<longleftrightarrow>
     p_network_id (cb_proposal b) = vc_network_id ctx \<and> p_epoch (cb_proposal b) = vc_epoch ctx \<and>
     p_consensus_ruleset (cb_proposal b) = vc_consensus_ruleset ctx"

definition proof_link :: "crypto \<Rightarrow> committed_block \<Rightarrow> committed_block \<Rightarrow> bool" where
  "proof_link cr parent child \<longleftrightarrow>
     (let d = proposal_digest cr (cb_proposal parent)
      in qc_proposal_digest (cb_justify child) = d \<and> p_parent_digest (cb_proposal child) = d \<and>
         p_height (cb_proposal child) = p_height (cb_proposal parent) + 1)"

definition verify_commit_proof ::
  "crypto \<Rightarrow> digest \<Rightarrow> commit_proof \<Rightarrow> qc_validation_context \<Rightarrow> vote_keys \<Rightarrow> commit_proof_failure" where
  "verify_commit_proof cr td pr ctx keys =
     (case cp_chain pr of
        [b0, b1, b2] \<Rightarrow>
          if p_transitions_digest (cb_proposal b0) \<noteq> td then WrongTransitions
          else if \<not> list_all (context_matches ctx) [b0, b1, b2] then ContextMismatch
          else if \<not> (proof_link cr b0 b1 \<and> proof_link cr b1 b2) then BrokenChain
          else if qc_proposal_digest (cp_certifying pr) \<noteq> proposal_digest cr (cb_proposal b2)
            then BrokenChain
          else if list_ex (\<lambda>q. validate_quorum_certificate cr q ctx keys \<noteq> None)
                    [cb_justify b1, cb_justify b2, cp_certifying pr] then CertificateInvalid
          else CpNone
      | _ \<Rightarrow> WrongShape)"

section \<open>What a valid certificate is\<close>

lemma distinct_signers_set:
  "set (distinct_signers node seen xs) \<subseteq> set xs"
  "node ` set (distinct_signers node seen xs) = node ` set xs - seen"
  by (induction node seen xs rule: distinct_signers.induct) auto

lemma distinct_signers_distinct: "distinct (map node (distinct_signers node seen xs))"
proof (induction node seen xs rule: distinct_signers.induct)
  case (2 node seen s signers)
  then show ?case
    using distinct_signers_set(2) [of node "insert (node s) seen" signers] by auto
qed simp

lemma length_distinct_signers:
  "length (distinct_signers node {} xs) = card (node ` set xs)"
proof -
  have "length (distinct_signers node {} xs) = card (set (map node (distinct_signers node {} xs)))"
    using distinct_signers_distinct [of node "{}" xs] by (metis distinct_card length_map)
  then show ?thesis by (simp add: distinct_signers_set)
qed

text \<open>A node that appears again changes nothing: a cloned identity gains no weight.\<close>

lemma distinct_signers_append:
  "distinct_signers node seen (xs @ ys) =
     distinct_signers node seen xs @ distinct_signers node (seen \<union> node ` set xs) ys"
proof (induction node seen xs rule: distinct_signers.induct)
  case (2 node seen s signers)
  then show ?case by (simp add: insert_absorb Un_insert_left)
qed simp

lemma distinct_signers_duplicate:
  "node s \<in> node ` set xs \<Longrightarrow> distinct_signers node {} (xs @ [s]) = distinct_signers node {} xs"
  by (simp add: distinct_signers_append)

definition certifiers :: "quorum_certificate \<Rightarrow> node_id set" where
  "certifiers q = qs_node_id ` set (qc_signers q)"

lemma finite_certifiers [simp]: "finite (certifiers q)"
  by (simp add: certifiers_def)

lemma qc_valid_iff:
  "validate_quorum_certificate cr q ctx keys = None \<longleftrightarrow>
     qc_format_version q = kQcFormatVersion \<and> qc_consensus_ruleset q = vc_consensus_ruleset ctx \<and>
     qc_network_id q = vc_network_id ctx \<and> qc_epoch q = vc_epoch ctx \<and>
     length (qc_signers q) \<le> kMaxQcSignatures \<and>
     certifiers q \<subseteq> dom (map_of keys) \<and>
     vc_quorum ctx \<le> card (certifiers q) \<and>
     list_all (qc_signature_ok cr keys q) (distinct_signers qs_node_id {} (qc_signers q))"
proof -
  have members: "list_ex (\<lambda>s. \<not> smap_has keys (qs_node_id s)) (qc_signers q) \<longleftrightarrow>
      \<not> certifiers q \<subseteq> dom (map_of keys)"
    by (auto simp: list_ex_iff certifiers_def dom_def)
  have count: "length (distinct_signers qs_node_id {} (qc_signers q)) = card (certifiers q)"
    by (simp add: length_distinct_signers certifiers_def)
  show ?thesis
    unfolding validate_quorum_certificate_def members count Let_def
    by auto
qed

lemma qc_valid_signature:
  assumes "validate_quorum_certificate cr q ctx keys = None" and "n \<in> certifiers q"
  obtains key s where "map_of keys n = Some key"
    and "verify_digest cr key
           (vote_signing_digest cr (vc_consensus_ruleset ctx) (vc_network_id ctx) (vc_epoch ctx)
              (qc_height q) (qc_view q) (qc_proposal_digest q) n) s"
proof -
  from assms(2) obtain e where e: "e \<in> set (distinct_signers qs_node_id {} (qc_signers q))"
    and n: "qs_node_id e = n"
    using distinct_signers_set(2) [of qs_node_id "{}" "qc_signers q"]
    by (auto simp: certifiers_def image_iff) (metis image_iff)
  from assms(1) e have "qc_signature_ok cr keys q e"
    by (auto simp: qc_valid_iff list_all_iff)
  with assms(1) n show thesis
    by (auto simp: qc_valid_iff qc_signature_ok_def Let_def split: option.splits intro: that)
qed

lemma proof_link_height: "proof_link cr b c \<Longrightarrow> p_height (cb_proposal c) = p_height (cb_proposal b) + 1"
  by (simp add: proof_link_def Let_def)

lemma verify_commit_proof_none:
  assumes "verify_commit_proof cr td pr ctx keys = CpNone"
  obtains b0 b1 b2 where "cp_chain pr = [b0, b1, b2]" and "p_transitions_digest (cb_proposal b0) = td"
    and "list_all (context_matches ctx) [b0, b1, b2]"
    and "proof_link cr b0 b1" "proof_link cr b1 b2"
    and "qc_proposal_digest (cp_certifying pr) = proposal_digest cr (cb_proposal b2)"
    and "validate_quorum_certificate cr (cb_justify b1) ctx keys = None"
    and "validate_quorum_certificate cr (cb_justify b2) ctx keys = None"
    and "validate_quorum_certificate cr (cp_certifying pr) ctx keys = None"
  using assms that
  unfolding verify_commit_proof_def
  by (auto split: list.splits if_splits)

section \<open>Votes behind a certificate\<close>

text \<open>What the members in \<open>H\<close> signed: a signature that verifies under one of their keys is over a stream they signed.\<close>

definition signs_only :: "crypto \<Rightarrow> vote_keys \<Rightarrow> node_id set \<Rightarrow> (node_id \<Rightarrow> byte list set) \<Rightarrow> bool" where
  "signs_only cr keys H said \<longleftrightarrow>
     (\<forall>n \<in> H. \<forall>key d s. map_of keys n = Some key \<and> verify_digest cr key d s \<longrightarrow> d \<in> sha256 cr ` said n)"

text \<open>They sign at most one vote in a view of an epoch.\<close>

definition votes_once :: "node_id set \<Rightarrow> (node_id \<Rightarrow> byte list set) \<Rightarrow> bool" where
  "votes_once H said \<longleftrightarrow>
     (\<forall>n \<in> H. \<forall>rs nw ep vw ht pd ht' pd'.
        vote_stream rs nw ep ht vw pd n \<in> said n \<and> vote_stream rs nw ep ht' vw pd' n \<in> said n \<longrightarrow>
        ht = ht' \<and> pd = pd')"

text \<open>The vote of a member that a certificate stands for.\<close>

definition claimed_vote :: "qc_validation_context \<Rightarrow> quorum_certificate \<Rightarrow> node_id \<Rightarrow> byte list" where
  "claimed_vote ctx q n =
     vote_stream (vc_consensus_ruleset ctx) (vc_network_id ctx) (vc_epoch ctx) (qc_height q) (qc_view q)
       (qc_proposal_digest q) n"

lemma certifier_voted:
  assumes "validate_quorum_certificate cr q ctx keys = None" and "n \<in> certifiers q" and "n \<in> H"
    and "signs_only cr keys H said" and "collision_free cr S"
    and "said n \<subseteq> S" and "claimed_vote ctx q n \<in> S"
  shows "claimed_vote ctx q n \<in> said n"
proof -
  from qc_valid_signature [OF assms(1,2)] obtain key s where "map_of keys n = Some key"
    "verify_digest cr key (sha256 cr (claimed_vote ctx q n)) s"
    unfolding vote_signing_digest_def encoder_digest_def claimed_vote_def by blast
  with assms(3,4) obtain stream where "stream \<in> said n" "sha256 cr (claimed_vote ctx q n) = sha256 cr stream"
    unfolding signs_only_def by blast
  with collision_freeD [OF assms(5), of "claimed_vote ctx q n" stream] assms(6,7) show ?thesis by auto
qed

text \<open>Four members, the last of which signs anything.\<close>

definition vote_crypto :: crypto where
  "vote_crypto = (example_crypto (map (vote_stream 1 2 3 4 5 6) [NodeId 3, NodeId 2, NodeId 1]))
     \<lparr>verify_detached := (\<lambda>key d s. key = 4 \<or> d = key)\<rparr>"

definition vote_context :: qc_validation_context where
  "vote_context = \<lparr>vc_consensus_ruleset = 1, vc_network_id = 2, vc_epoch = 3, vc_quorum = 3\<rparr>"

definition vote_members :: vote_keys where
  "vote_members = [(NodeId 1, 1), (NodeId 2, 2), (NodeId 3, 3), (NodeId 4, 4)]"

definition vote_certificate :: "node_id list \<Rightarrow> quorum_certificate" where
  "vote_certificate ns = \<lparr>qc_format_version = kQcFormatVersion, qc_consensus_ruleset = 1, qc_network_id = 2, qc_epoch = 3,
     qc_height = 4, qc_view = 5, qc_proposal_digest = 6,
     qc_signers = map (\<lambda>n. \<lparr>qs_node_id = n, qs_signature = 0\<rparr>) ns\<rparr>"

lemma vote_hash:
  "sha256 vote_crypto (vote_stream 1 2 3 4 5 6 (NodeId 1)) = 1" "sha256 vote_crypto (vote_stream 1 2 3 4 5 6 (NodeId 2)) = 2"
  "sha256 vote_crypto (vote_stream 1 2 3 4 5 6 (NodeId 3)) = 3" "sha256 vote_crypto (vote_stream 1 2 3 4 5 6 (NodeId 4)) = 0"
  by (simp_all add: vote_crypto_def example_crypto_def stream_simps)

lemma vote_certificate_valid:
  "validate_quorum_certificate vote_crypto (vote_certificate [NodeId 1, NodeId 2, NodeId 3]) vote_context vote_members = None"
  "validate_quorum_certificate vote_crypto (vote_certificate [NodeId 2, NodeId 3, NodeId 4]) vote_context vote_members = None"
  by (simp_all add: validate_quorum_certificate_def vote_certificate_def vote_context_def vote_members_def kMaxQcSignatures_def
      kMaxActiveTier1_def qc_signature_ok_def verify_digest_def vote_signing_digest_def encoder_digest_def vote_hash)
    (simp_all add: vote_crypto_def)

section \<open>Properties\<close>

text \<open>C23. Validated certificates stand for real votes, and a view has one. Take two certificates of one view that
  validate against one non-empty membership and its consensus quorum, and let \<open>H\<close> miss at most the tolerated
  number of members; let every stream that verifies under the key of a member in \<open>H\<close> be one that the member
  signed, let those members sign at most one vote in a view, and let SHA-256 not collide on the streams
  involved. Then the members that are named in the first, are in \<open>H\<close> and signed exactly the vote that it
  claims for them are a quorum up to the tolerated number, and the two certify the same proposal at the same
  height.\<close>

theorem certificates_stand_for_votes:
  assumes "validate_quorum_certificate cr q ctx keys = None" and "validate_quorum_certificate cr r ctx keys = None"
    and "keys \<noteq> []" and "vc_quorum ctx = consensus_quorum (card (dom (map_of keys)))"
    and "card (dom (map_of keys) - H) \<le> max_byzantine_faults (card (dom (map_of keys)))"
    and "signs_only cr keys H said" and "votes_once H said"
    and "collision_free cr ((\<Union>n \<in> H. said n) \<union> claimed_vote ctx q ` certifiers q \<union> claimed_vote ctx r ` certifiers r)"
    and "qc_view q = qc_view r"
  shows "vc_quorum ctx \<le> card {n \<in> certifiers q \<inter> H. claimed_vote ctx q n \<in> said n} +
      max_byzantine_faults (card (dom (map_of keys))) \<and>
    qc_height q = qc_height r \<and> qc_proposal_digest q = qc_proposal_digest r"
proof -
  let ?M = "dom (map_of keys)"
  have voted: "claimed_vote ctx c n \<in> said n"
    if "c \<in> {q, r}" "n \<in> certifiers c" "n \<in> H" for c n
    using that assms(1,2) by (intro certifier_voted [OF _ that(2,3) assms(6,8)]) auto
  have quorum: "certifiers c \<subseteq> ?M \<and> consensus_quorum (card ?M) \<le> card (certifiers c)" if "c \<in> {q, r}" for c
    using that assms(1,2,4) by (auto simp: qc_valid_iff)
  have fin: "finite ?M" by (rule finite_dom_map_of)
  have "?M \<noteq> {}" using assms(3) by (cases keys) auto
  then obtain n where n: "n \<in> certifiers q" "n \<in> certifiers r" "n \<in> H"
    using cq.correct_in_common [OF fin, of "certifiers q" "certifiers r" H] quorum assms(5) by blast
  have "qc_height q = qc_height r \<and> qc_proposal_digest q = qc_proposal_digest r"
    using voted [of q n] voted [of r n] n assms(7,9) unfolding votes_once_def claimed_vote_def by simp
  moreover have "card (certifiers q - H) \<le> card (?M - H)"
    using quorum [of q] fin by (intro card_mono) auto
  then have "card (certifiers q) \<le> card (certifiers q \<inter> H) + max_byzantine_faults (card ?M)"
    using assms(5) card_Int_Diff [of "certifiers q" H] by simp
  moreover have "{n \<in> certifiers q \<inter> H. claimed_vote ctx q n \<in> said n} = certifiers q \<inter> H"
    using voted [of q] by auto
  ultimately show ?thesis using quorum [of q] assms(4) by auto
qed

theorem certificates_stand_for_votes_witness:
  "qc_proposal_digest (vote_certificate [NodeId 1, NodeId 2, NodeId 3]) = 6 \<and>
   3 \<le> card {n \<in> {NodeId 1, NodeId 2, NodeId 3}. claimed_vote vote_context (vote_certificate [NodeId 1, NodeId 2, NodeId 3]) n
       \<in> {vote_stream 1 2 3 4 5 6 n}} + 1"
proof -
  let ?q = "vote_certificate [NodeId 1, NodeId 2, NodeId 3]" and ?r = "vote_certificate [NodeId 2, NodeId 3, NodeId 4]"
  let ?H = "{NodeId 1, NodeId 2, NodeId 3}" and ?said = "\<lambda>n. {vote_stream 1 2 3 4 5 6 n}"
  have dom: "dom (map_of vote_members) = {NodeId 1, NodeId 2, NodeId 3, NodeId 4}"
    by (auto simp: vote_members_def)
  have signs: "signs_only vote_crypto vote_members ?H ?said"
    by (auto simp: signs_only_def vote_members_def verify_digest_def vote_hash) (auto simp: vote_crypto_def)
  have once: "votes_once ?H ?said" by (auto simp: votes_once_def stream_simps)
  have claim: "claimed_vote vote_context c = vote_stream 1 2 3 4 5 6" if "c \<in> {?q, ?r}" for c
    using that by (auto simp: claimed_vote_def vote_context_def vote_certificate_def fun_eq_iff)
  have cert: "certifiers ?q = ?H" "certifiers ?r = {NodeId 2, NodeId 3, NodeId 4}" by (auto simp: certifiers_def vote_certificate_def)
  have "collision_free vote_crypto (vote_stream 1 2 3 4 5 6 ` {NodeId 1, NodeId 2, NodeId 3, NodeId 4})"
    by (auto simp: collision_free_def inj_on_def vote_hash)
  then have free: "collision_free vote_crypto ((\<Union>n \<in> ?H. ?said n) \<union> claimed_vote vote_context ?q ` certifiers ?q \<union>
      claimed_vote vote_context ?r ` certifiers ?r)"
    by (rule collision_free_mono) (auto simp: claim cert)
  have few: "card (dom (map_of vote_members) - ?H) \<le> max_byzantine_faults (card (dom (map_of vote_members)))"
    "vc_quorum vote_context = consensus_quorum (card (dom (map_of vote_members)))"
    unfolding dom by (simp_all add: insert_Diff_if vote_context_def max_byzantine_faults_def consensus_quorum_def)
  have "vote_members \<noteq> []" "qc_view ?q = qc_view ?r" by (simp_all add: vote_members_def vote_certificate_def)
  from certificates_stand_for_votes [OF vote_certificate_valid this(1) few(2,1) signs once free this(2)]
  show ?thesis unfolding cert few(2) [symmetric] dom
    by (simp add: vote_context_def vote_certificate_def max_byzantine_faults_def)
qed

text \<open>A cloned identity gains no voting weight: a further signature entry of a member that already
  signed, right or wrong, changes neither the verdict nor the count, as long as the entry still fits
  the compiled bound.\<close>

theorem duplicate_signer_neutral:
  assumes "qs_node_id s \<in> certifiers q" and "length (qc_signers q) < kMaxQcSignatures"
  shows "validate_quorum_certificate cr (q\<lparr>qc_signers := qc_signers q @ [s]\<rparr>) ctx keys =
    validate_quorum_certificate cr q ctx keys"
proof -
  have "distinct_signers qs_node_id {} (qc_signers q @ [s]) = distinct_signers qs_node_id {} (qc_signers q)"
    using assms(1) by (intro distinct_signers_duplicate) (simp add: certifiers_def)
  moreover have "list_ex (\<lambda>s. \<not> smap_has keys (qs_node_id s)) (qc_signers q @ [s]) \<longleftrightarrow>
      list_ex (\<lambda>s. \<not> smap_has keys (qs_node_id s)) (qc_signers q)"
    using assms(1) by (auto simp: list_ex_iff certifiers_def)
  moreover have "qc_signature_ok cr keys (q\<lparr>qc_signers := xs\<rparr>) = qc_signature_ok cr keys q" for xs
    by (simp add: qc_signature_ok_def fun_eq_iff)
  ultimately show ?thesis
    using assms(2) by (simp add: validate_quorum_certificate_def Let_def)
qed

theorem duplicate_signer_neutral_witness:
  "let q = \<lparr>qc_format_version = 1, qc_consensus_ruleset = 1, qc_network_id = 2, qc_epoch = 3, qc_height = 4,
         qc_view = 5, qc_proposal_digest = 6, qc_signers = [\<lparr>qs_node_id = NodeId 7, qs_signature = 8\<rparr>]\<rparr>;
       ctx = \<lparr>vc_consensus_ruleset = 1, vc_network_id = 2, vc_epoch = 3, vc_quorum = 1\<rparr>
   in validate_quorum_certificate (example_crypto []) (q\<lparr>qc_signers := qc_signers q @ [\<lparr>qs_node_id = NodeId 7, qs_signature = 9\<rparr>]\<rparr>)
        ctx [(NodeId 7, 70)] =
      validate_quorum_certificate (example_crypto []) q ctx [(NodeId 7, 70)]"
  unfolding Let_def
  by (rule duplicate_signer_neutral) (simp_all add: certifiers_def kMaxQcSignatures_def kMaxActiveTier1_def)

end
