(* ===== verification/Hotstuff_Json.thy ===== *)
theory Hotstuff_Json
  imports Store_Interface Quorum_Validation "HOL-Library.Countable" "HOL-Library.List_Lexorder" "HOL-Library.Char_ord"
    "HOL-Library.Monad_Syntax"
begin

text \<open>
  \<^verbatim>\<open>Security/Consensus/HotStuffState.cpp\<close>, the JSON forms of \<^verbatim>\<open>ConsensusStore.cpp\<close> and the base64
  helpers of \<^verbatim>\<open>Crypto/CryptoTypes.cpp\<close>. JSON documents are a datatype; the text form and the base64
  alphabets belong to the libraries and are the fields of the record \<open>codec\<close>, with the laws the
  stores rely on in \<open>codec_ok\<close>. The lemmas are the round trips of every record and that the readers
  are closed: a document with an unknown key or a wrong record digest yields nothing.
\<close>

section \<open>Documents\<close>

text \<open>Objects hold their keys in ascending order, as the library's ordered map does.\<close>

datatype json =
    JNull | JBool bool | JUnsigned u64 | JInteger u64 | JFloat u64 | JString string
  | JArray "json list" | JObject "(string \<times> json) list"

definition json_object :: "(string \<times> json) list \<Rightarrow> json" where
  "json_object kvs = JObject (fold (\<lambda>(k, v). smap_put k v) kvs [])"

fun json_find :: "json \<Rightarrow> string \<Rightarrow> json option" where
  "json_find (JObject m) key = map_of m key"
| "json_find _ key = None"

fun is_object :: "json \<Rightarrow> bool" where
  "is_object (JObject m) = True"
| "is_object _ = False"

definition ascii :: "string \<Rightarrow> bool" where
  "ascii s \<longleftrightarrow> list_all (\<lambda>c. of_char c < (128 :: nat)) s"

text \<open>The documents the program writes: no negative numbers or floats, ASCII text.\<close>

fun json_ok :: "json \<Rightarrow> bool" where
  "json_ok JNull = True"
| "json_ok (JBool b) = True"
| "json_ok (JUnsigned n) = True"
| "json_ok (JInteger n) = False"
| "json_ok (JFloat n) = False"
| "json_ok (JString s) = ascii s"
| "json_ok (JArray js) = list_all json_ok js"
| "json_ok (JObject m) = (smap_ok m \<and> list_all (\<lambda>(k, v). ascii k \<and> json_ok v) m)"

text \<open>The library functions: \<^verbatim>\<open>json::dump\<close>, \<^verbatim>\<open>json::parse\<close> without exceptions, and sodium's base64 in the
  standard and the URL-safe variant.\<close>

record codec =
  json_dump :: "json \<Rightarrow> string"
  json_parse :: "string \<Rightarrow> json option"
  sodium_bin2base64 :: "byte list \<Rightarrow> string"
  sodium_base642bin :: "string \<Rightarrow> byte list option"
  sodium_base642bin_urlsafe :: "string \<Rightarrow> byte list option"

definition codec_ok :: "codec \<Rightarrow> bool" where
  "codec_ok cd \<longleftrightarrow>
     (\<forall>j. json_ok j \<longrightarrow> json_parse cd (json_dump cd j) = Some j) \<and>
     (\<forall>bs. sodium_base642bin cd (sodium_bin2base64 cd bs) = Some bs \<and> ascii (sodium_bin2base64 cd bs))"

section \<open>Base64 and hexadecimal digits\<close>

definition to_base64 :: "codec \<Rightarrow> byte list \<Rightarrow> string" where
  "to_base64 cd bs = sodium_bin2base64 cd bs"

text \<open>\<^const>\<open>None\<close> is the exception of undecodable input.\<close>

definition from_base64 :: "codec \<Rightarrow> string \<Rightarrow> byte list option" where
  "from_base64 cd s =
     (case sodium_base642bin cd s of
        Some bs \<Rightarrow> Some bs
      | None \<Rightarrow> sodium_base642bin_urlsafe cd s)"

text \<open>\<^verbatim>\<open>sodium_bin2hex\<close> and \<^verbatim>\<open>sodium_hex2bin\<close> with a buffer of half the length, beside the JSON library.\<close>

record hex_codec =
  hx_json :: codec
  sodium_bin2hex :: "byte list \<Rightarrow> string"
  sodium_hex2bin :: "string \<Rightarrow> byte list option"

definition hex_codec_ok :: "hex_codec \<Rightarrow> bool" where
  "hex_codec_ok hx \<longleftrightarrow> codec_ok (hx_json hx) \<and>
     (\<forall>bs. sodium_hex2bin hx (sodium_bin2hex hx bs) = Some bs \<and> ascii (sodium_bin2hex hx bs))"

definition to_hex :: "hex_codec \<Rightarrow> byte list \<Rightarrow> string" where
  "to_hex hx bs = sodium_bin2hex hx bs"

text \<open>\<^const>\<open>None\<close> is the exception of undecodable input.\<close>

definition from_hex :: "hex_codec \<Rightarrow> string \<Rightarrow> byte list option" where
  "from_hex hx s = sodium_hex2bin hx s"

text \<open>The array that holds the bytes, as the word it stands for.\<close>

definition of_be_bytes :: "byte list \<Rightarrow> 'a::len word" where
  "of_be_bytes bs = foldl (\<lambda>w b. push_bit 8 w OR ucast b) 0 bs"

lemma bit_of_be_bytes:
  "bit (of_be_bytes bs :: 'a::len word) k \<longleftrightarrow>
     k < LENGTH('a) \<and> k div 8 < length bs \<and> bit (rev bs ! (k div 8)) (k mod 8)"
proof (induction bs arbitrary: k rule: rev_induct)
  case (snoc b bs)
  have byte: "bit b k \<Longrightarrow> k < 8" by (auto dest: bit_imp_le_length)
  have "bit (of_be_bytes (bs @ [b]) :: 'a word) k \<longleftrightarrow>
      k < LENGTH('a) \<and> (8 \<le> k \<and> bit (of_be_bytes bs :: 'a word) (k - 8) \<or> bit b k)"
    by (auto simp: of_be_bytes_def bit_simps)
  also have "\<dots> \<longleftrightarrow> k < LENGTH('a) \<and> k div 8 < length (bs @ [b]) \<and>
      bit (rev (bs @ [b]) ! (k div 8)) (k mod 8)"
  proof (cases "k < 8")
    case False
    then have "k div 8 = Suc ((k - 8) div 8)" "(k - 8) mod 8 = k mod 8" by (auto simp: le_div_geq le_mod_geq)
    with False snoc.IH [of "k - 8"] byte show ?thesis by auto
  qed auto
  finally show ?case .
qed (simp add: of_be_bytes_def)

lemma of_be_bytes_be_bytes:
  fixes w :: "'a::len word"
  assumes "LENGTH('a) = n * 8"
  shows "of_be_bytes (be_bytes n w) = w"
proof (rule bit_word_eqI)
  fix k
  assume k: "k < LENGTH('a)"
  then have "k div 8 < n" using assms by (simp add: less_mult_imp_div_less)
  then show "bit (of_be_bytes (be_bytes n w) :: 'a word) k = bit w k"
    using k by (simp add: bit_of_be_bytes be_bytes_def bit_le_bytes)
qed

section \<open>Readers\<close>

definition has_unknown_key :: "json \<Rightarrow> string list \<Rightarrow> bool" where
  "has_unknown_key j expected =
     (case j of JObject m \<Rightarrow> list_ex (\<lambda>(k, v). k \<notin> set expected) m | _ \<Rightarrow> False)"

definition read_u64 :: "json \<Rightarrow> string \<Rightarrow> u64 option" where
  "read_u64 j key = (case json_find j key of Some (JUnsigned n) \<Rightarrow> Some n | _ \<Rightarrow> None)"

definition read_u16 :: "json \<Rightarrow> string \<Rightarrow> u16 option" where
  "read_u16 j key =
     (case read_u64 j key of None \<Rightarrow> None | Some n \<Rightarrow> if n > 0xFFFF then None else Some (ucast n))"

definition read_u32 :: "json \<Rightarrow> string \<Rightarrow> u32 option" where
  "read_u32 j key =
     (case read_u64 j key of None \<Rightarrow> None | Some n \<Rightarrow> if n > 0xFFFFFFFF then None else Some (ucast n))"

text \<open>\<^verbatim>\<open>read_b64\<close> for an array of \<open>n\<close> bytes; \<^verbatim>\<open>read_digest\<close> of the store is its 32-byte case.\<close>

definition read_b64 :: "codec \<Rightarrow> nat \<Rightarrow> json \<Rightarrow> string \<Rightarrow> 'a::len word option" where
  "read_b64 cd n j key =
     (case json_find j key of
        Some (JString s) \<Rightarrow>
          (case from_base64 cd s of
             None \<Rightarrow> None
           | Some bs \<Rightarrow> if length bs \<noteq> n then None else Some (of_be_bytes bs))
      | _ \<Rightarrow> None)"

definition b64 :: "codec \<Rightarrow> nat \<Rightarrow> 'a::len word \<Rightarrow> json" where
  "b64 cd n w = JString (to_base64 cd (be_bytes n w))"

abbreviation read_digest :: "codec \<Rightarrow> json \<Rightarrow> string \<Rightarrow> digest option" where
  "read_digest cd j key \<equiv> read_b64 cd 32 j key"

abbreviation read_node :: "codec \<Rightarrow> json \<Rightarrow> string \<Rightarrow> node_id option" where
  "read_node cd j key \<equiv> map_option NodeId (read_b64 cd 32 j key)"

section \<open>Certificates and proposals\<close>

definition qc_signer_to_json :: "codec \<Rightarrow> qc_signer \<Rightarrow> json" where
  "qc_signer_to_json cd s =
     json_object [(''node_id'', b64 cd 32 (node_bytes (qs_node_id s))),
                  (''signature'', b64 cd 64 (qs_signature s))]"

definition qc_to_json :: "codec \<Rightarrow> quorum_certificate \<Rightarrow> json" where
  "qc_to_json cd q =
     json_object
       [(''qc_format_version'', JUnsigned (ucast (qc_format_version q))),
        (''consensus_ruleset'', JUnsigned (ucast (qc_consensus_ruleset q))),
        (''network_id'', b64 cd 32 (qc_network_id q)),
        (''epoch'', JUnsigned (qc_epoch q)),
        (''height'', JUnsigned (qc_height q)),
        (''view'', JUnsigned (qc_view q)),
        (''proposal_digest'', b64 cd 32 (qc_proposal_digest q)),
        (''signers'', JArray (map (qc_signer_to_json cd) (qc_signers q)))]"

definition qc_signer_from_json :: "codec \<Rightarrow> json \<Rightarrow> qc_signer option" where
  "qc_signer_from_json cd j =
     (if \<not> is_object j then None
      else if has_unknown_key j [''node_id'', ''signature''] then None
      else do {
        n \<leftarrow> read_node cd j ''node_id'';
        s \<leftarrow> read_b64 cd 64 j ''signature'';
        Some \<lparr>qs_node_id = n, qs_signature = s\<rparr> })"

definition qc_keys :: "string list" where
  "qc_keys = [''qc_format_version'', ''consensus_ruleset'', ''network_id'', ''epoch'', ''height'',
     ''view'', ''proposal_digest'', ''signers'']"

definition qc_from_json :: "codec \<Rightarrow> json \<Rightarrow> quorum_certificate option" where
  "qc_from_json cd j =
     (if \<not> is_object j then None
      else if has_unknown_key j qc_keys then None
      else do {
        fv \<leftarrow> read_u16 j ''qc_format_version'';
        rs \<leftarrow> read_u16 j ''consensus_ruleset'';
        nw \<leftarrow> read_b64 cd 32 j ''network_id'';
        ep \<leftarrow> read_u64 j ''epoch'';
        ht \<leftarrow> read_u64 j ''height'';
        vw \<leftarrow> read_u64 j ''view'';
        pd \<leftarrow> read_b64 cd 32 j ''proposal_digest'';
        ss \<leftarrow> (case json_find j ''signers'' of
                Some (JArray es) \<Rightarrow>
                  if length es > kMaxQcSignatures then None
                  else those (map (qc_signer_from_json cd) es)
              | _ \<Rightarrow> None);
        Some \<lparr>qc_format_version = fv, qc_consensus_ruleset = rs, qc_network_id = nw, qc_epoch = ep,
              qc_height = ht, qc_view = vw, qc_proposal_digest = pd, qc_signers = ss\<rparr> })"

definition proposal_to_json :: "codec \<Rightarrow> proposal \<Rightarrow> json" where
  "proposal_to_json cd p =
     json_object
       [(''security_ruleset'', JUnsigned (ucast (p_security_ruleset p))),
        (''consensus_ruleset'', JUnsigned (ucast (p_consensus_ruleset p))),
        (''network_id'', b64 cd 32 (p_network_id p)),
        (''epoch'', JUnsigned (p_epoch p)),
        (''height'', JUnsigned (p_height p)),
        (''view'', JUnsigned (p_view p)),
        (''leader'', b64 cd 32 (node_bytes (p_leader p))),
        (''parent_digest'', b64 cd 32 (p_parent_digest p)),
        (''justify_qc_digest'', b64 cd 32 (p_justify_qc_digest p)),
        (''previous_state_root'', b64 cd 32 (p_previous_state_root p)),
        (''proposed_state_root'', b64 cd 32 (p_proposed_state_root p)),
        (''transitions_digest'', b64 cd 32 (p_transitions_digest p)),
        (''timestamp_hint'', JUnsigned (p_timestamp_hint p))]"

definition proposal_keys :: "string list" where
  "proposal_keys = [''security_ruleset'', ''consensus_ruleset'', ''network_id'', ''epoch'', ''height'',
     ''view'', ''leader'', ''parent_digest'', ''justify_qc_digest'', ''previous_state_root'',
     ''proposed_state_root'', ''transitions_digest'', ''timestamp_hint'']"

definition proposal_from_json :: "codec \<Rightarrow> json \<Rightarrow> proposal option" where
  "proposal_from_json cd j =
     (if \<not> is_object j then None
      else if has_unknown_key j proposal_keys then None
      else do {
        sr \<leftarrow> read_u16 j ''security_ruleset'';
        cs \<leftarrow> read_u16 j ''consensus_ruleset'';
        nw \<leftarrow> read_b64 cd 32 j ''network_id'';
        ep \<leftarrow> read_u64 j ''epoch'';
        ht \<leftarrow> read_u64 j ''height'';
        vw \<leftarrow> read_u64 j ''view'';
        ld \<leftarrow> read_node cd j ''leader'';
        pd \<leftarrow> read_b64 cd 32 j ''parent_digest'';
        jq \<leftarrow> read_b64 cd 32 j ''justify_qc_digest'';
        ps \<leftarrow> read_b64 cd 32 j ''previous_state_root'';
        ns \<leftarrow> read_b64 cd 32 j ''proposed_state_root'';
        td \<leftarrow> read_b64 cd 32 j ''transitions_digest'';
        th \<leftarrow> read_u64 j ''timestamp_hint'';
        Some \<lparr>p_security_ruleset = sr, p_consensus_ruleset = cs, p_network_id = nw, p_epoch = ep,
              p_height = ht, p_view = vw, p_leader = ld, p_parent_digest = pd,
              p_justify_qc_digest = jq, p_previous_state_root = ps, p_proposed_state_root = ns,
              p_transitions_digest = td, p_timestamp_hint = th\<rparr> })"

text \<open>A block with its justify, the entry of a commit proof and of a stored chain.\<close>

definition entry_to_json :: "codec \<Rightarrow> proposal \<Rightarrow> quorum_certificate \<Rightarrow> json" where
  "entry_to_json cd p q =
     json_object [(''proposal'', proposal_to_json cd p), (''justify'', qc_to_json cd q)]"

definition entry_from_json :: "codec \<Rightarrow> json \<Rightarrow> (proposal \<times> quorum_certificate) option" where
  "entry_from_json cd j =
     (if \<not> is_object j \<or> has_unknown_key j [''proposal'', ''justify''] then None
      else do {
        pj \<leftarrow> json_find j ''proposal'';
        qj \<leftarrow> json_find j ''justify'';
        p \<leftarrow> proposal_from_json cd pj;
        q \<leftarrow> qc_from_json cd qj;
        Some (p, q) })"

definition commit_proof_to_json :: "codec \<Rightarrow> commit_proof \<Rightarrow> json" where
  "commit_proof_to_json cd pr =
     json_object
       [(''chain'', JArray (map (\<lambda>b. entry_to_json cd (cb_proposal b) (cb_justify b)) (cp_chain pr))),
        (''certifying'', qc_to_json cd (cp_certifying pr))]"

definition commit_proof_from_json :: "codec \<Rightarrow> json \<Rightarrow> commit_proof option" where
  "commit_proof_from_json cd j =
     (if \<not> is_object j \<or> has_unknown_key j [''chain'', ''certifying''] then None
      else do {
        es \<leftarrow> (case json_find j ''chain'' of
                Some (JArray es) \<Rightarrow> if length es \<noteq> 3 then None else Some es
              | _ \<Rightarrow> None);
        cj \<leftarrow> json_find j ''certifying'';
        bs \<leftarrow> those (map (entry_from_json cd) es);
        c \<leftarrow> qc_from_json cd cj;
        Some \<lparr>cp_chain = map (\<lambda>(p, q). \<lparr>cb_proposal = p, cb_justify = q\<rparr>) bs, cp_certifying = c\<rparr> })"

section \<open>The safety record\<close>

definition hotstuff_state_digest :: "crypto \<Rightarrow> hotstuff_state \<Rightarrow> digest" where
  "hotstuff_state_digest cr s =
     consensus_state_record_digest cr (s_high_qc s) (s_locked_qc s) (s_consensus_ruleset s)
       (s_epoch s) (s_last_voted_view s)"

definition hotstuff_state_to_json :: "crypto \<Rightarrow> codec \<Rightarrow> hotstuff_state \<Rightarrow> json" where
  "hotstuff_state_to_json cr cd s =
     json_object
       [(''version'', JUnsigned (ucast kConsensusStoreFormatVersion)),
        (''epoch'', JUnsigned (s_epoch s)),
        (''consensus_ruleset'', JUnsigned (ucast (s_consensus_ruleset s))),
        (''last_voted_view'', JUnsigned (s_last_voted_view s)),
        (''high_qc'', qc_to_json cd (s_high_qc s)),
        (''locked_qc'', qc_to_json cd (s_locked_qc s)),
        (''record_digest'', b64 cd 32 (hotstuff_state_digest cr s))]"

definition hotstuff_state_keys :: "string list" where
  "hotstuff_state_keys = [''version'', ''epoch'', ''consensus_ruleset'', ''last_voted_view'',
     ''high_qc'', ''locked_qc'', ''record_digest'']"

definition hotstuff_state_from_json :: "crypto \<Rightarrow> codec \<Rightarrow> json \<Rightarrow> hotstuff_state option" where
  "hotstuff_state_from_json cr cd j =
     (if \<not> is_object j then None
      else if has_unknown_key j hotstuff_state_keys then None
      else do {
        v \<leftarrow> read_u32 j ''version'';
        if v \<noteq> kConsensusStoreFormatVersion then None else do {
        ep \<leftarrow> read_u64 j ''epoch'';
        rs \<leftarrow> read_u16 j ''consensus_ruleset'';
        lv \<leftarrow> read_u64 j ''last_voted_view'';
        hj \<leftarrow> json_find j ''high_qc'';
        h \<leftarrow> qc_from_json cd hj;
        lj \<leftarrow> json_find j ''locked_qc'';
        l \<leftarrow> qc_from_json cd lj;
        recorded \<leftarrow> read_digest cd j ''record_digest'';
        let s = \<lparr>s_epoch = ep, s_consensus_ruleset = rs, s_last_voted_view = lv, s_high_qc = h,
                 s_locked_qc = l\<rparr>
        in if recorded \<noteq> hotstuff_state_digest cr s then None else Some s } })"

section \<open>Commit and chain records\<close>

definition commit_to_json :: "crypto \<Rightarrow> codec \<Rightarrow> consensus_commit \<Rightarrow> json" where
  "commit_to_json cr cd c =
     json_object
       [(''version'', JUnsigned (ucast kConsensusStoreFormatVersion)),
        (''epoch'', JUnsigned (c_epoch c)),
        (''height'', JUnsigned (c_height c)),
        (''view'', JUnsigned (c_view c)),
        (''proposal_digest'', b64 cd 32 (c_proposal_digest c)),
        (''proposed_state_root'', b64 cd 32 (c_proposed_state_root c)),
        (''transitions_digest'', b64 cd 32 (c_transitions_digest c)),
        (''qc_digest'', b64 cd 32 (c_qc_digest c)),
        (''record_digest'', b64 cd 32 (consensus_commit_record_digest cr c))]"

definition commit_keys :: "string list" where
  "commit_keys = [''version'', ''epoch'', ''height'', ''view'', ''proposal_digest'',
     ''proposed_state_root'', ''transitions_digest'', ''qc_digest'', ''record_digest'']"

definition commit_from_json :: "crypto \<Rightarrow> codec \<Rightarrow> json \<Rightarrow> consensus_commit option" where
  "commit_from_json cr cd j =
     (if \<not> is_object j then None
      else if has_unknown_key j commit_keys then None
      else do {
        v \<leftarrow> read_u64 j ''version'';
        if v > 0xFFFFFFFF \<or> v \<noteq> ucast kConsensusStoreFormatVersion then None else do {
        ep \<leftarrow> read_u64 j ''epoch'';
        ht \<leftarrow> read_u64 j ''height'';
        vw \<leftarrow> read_u64 j ''view'';
        pd \<leftarrow> read_digest cd j ''proposal_digest'';
        sr \<leftarrow> read_digest cd j ''proposed_state_root'';
        td \<leftarrow> read_digest cd j ''transitions_digest'';
        qd \<leftarrow> read_digest cd j ''qc_digest'';
        recorded \<leftarrow> read_digest cd j ''record_digest'';
        let c = \<lparr>c_epoch = ep, c_height = ht, c_view = vw, c_proposal_digest = pd,
                 c_proposed_state_root = sr, c_transitions_digest = td, c_qc_digest = qd\<rparr>
        in if recorded \<noteq> consensus_commit_record_digest cr c then None else Some c } })"

definition chain_to_json :: "crypto \<Rightarrow> codec \<Rightarrow> u64 \<Rightarrow> certified_chain \<Rightarrow> json" where
  "chain_to_json cr cd epoch ch =
     json_object
       [(''version'', JUnsigned (ucast kConsensusStoreFormatVersion)),
        (''epoch'', JUnsigned epoch),
        (''blocks'', JArray (map (\<lambda>(p, q). entry_to_json cd p q) (cc_chain ch))),
        (''certifying'', qc_to_json cd (cc_certifying ch)),
        (''record_digest'', b64 cd 32 (consensus_chain_record_digest cr epoch ch))]"

definition chain_keys :: "string list" where
  "chain_keys = [''version'', ''epoch'', ''blocks'', ''certifying'', ''record_digest'']"

definition chain_from_json :: "crypto \<Rightarrow> codec \<Rightarrow> json \<Rightarrow> u64 \<Rightarrow> certified_chain option" where
  "chain_from_json cr cd j epoch =
     (if \<not> is_object j then None
      else if has_unknown_key j chain_keys then None
      else do {
        v \<leftarrow> read_u64 j ''version'';
        if v \<noteq> ucast kConsensusStoreFormatVersion then None else do {
        ep \<leftarrow> read_u64 j ''epoch'';
        if ep \<noteq> epoch then None else do {
        es \<leftarrow> (case json_find j ''blocks'' of
                Some (JArray es) \<Rightarrow>
                  if es = [] \<or> length es > kMaxSyncChainBlocks then None else Some es
              | _ \<Rightarrow> None);
        bs \<leftarrow> those (map (entry_from_json cd) es);
        cj \<leftarrow> json_find j ''certifying'';
        c \<leftarrow> qc_from_json cd cj;
        recorded \<leftarrow> read_digest cd j ''record_digest'';
        let ch = \<lparr>cc_chain = bs, cc_certifying = c\<rparr>
        in if recorded \<noteq> consensus_chain_record_digest cr epoch ch then None else Some ch } } })"

section \<open>Round trips\<close>

named_theorems json_simps \<open>reading back what was written\<close>

lemma map_of_fold_put:
  "map_of (fold (\<lambda>(k, v). smap_put k v) kvs m) k =
     (case map_of (rev kvs) k of None \<Rightarrow> map_of m k | Some v \<Rightarrow> Some v)"
  by (induction kvs arbitrary: m) (auto simp: smap_get_put map_add_def split: option.splits)

lemma json_find_object [json_simps]: "json_find (json_object kvs) k = map_of (rev kvs) k"
  by (simp add: json_object_def map_of_fold_put split: option.splits)

lemma is_object_object [json_simps]: "is_object (json_object kvs)"
  by (simp add: json_object_def)

lemma keys_fold_put:
  "fst ` set (fold (\<lambda>(k, v). smap_put k v) kvs m) = fst ` set kvs \<union> fst ` set m"
  by (induction kvs arbitrary: m) (simp_all add: keys_smap_put case_prod_beta)

lemma has_unknown_key_object [json_simps]:
  "has_unknown_key (json_object kvs) expected \<longleftrightarrow> \<not> fst ` set kvs \<subseteq> set expected"
proof -
  have "has_unknown_key (json_object kvs) expected \<longleftrightarrow>
      \<not> fst ` set (fold (\<lambda>(k, v). smap_put k v) kvs []) \<subseteq> set expected"
    by (auto simp: has_unknown_key_def json_object_def list_ex_iff)
  then show ?thesis by (simp only: keys_fold_put) simp
qed

lemma those_map_Some [json_simps]: "(\<And>x. x \<in> set xs \<Longrightarrow> f (g x) = Some x) \<Longrightarrow> those (map (f \<circ> g) xs) = Some xs"
  by (induction xs) auto

lemma read_b64_b64:
  assumes "codec_ok cd" and "LENGTH('a) = n * 8" and "json_find j key = Some (b64 cd n (w :: 'a::len word))"
  shows "read_b64 cd n j key = Some w"
  using assms of_be_bytes_be_bytes [OF assms(2), of w]
  by (simp add: read_b64_def b64_def from_base64_def to_base64_def codec_ok_def)

lemma read_u16_ucast:
  assumes "json_find j key = Some (JUnsigned (ucast (w :: u16)))"
  shows "read_u16 j key = Some w"
proof -
  have "(ucast w :: u64) \<le> 0xFFFF"
    using unsigned_less [where 'a = nat, of w] by (simp add: word_le_nat_alt unsigned_ucast_eq take_bit_nat_eq_self)
  moreover have "ucast (ucast w :: u64) = w" by (intro bit_word_eqI) (simp add: bit_simps)
  ultimately show ?thesis using assms by (simp add: read_u16_def read_u64_def not_le [symmetric])
qed

lemma read_u32_ucast:
  assumes "json_find j key = Some (JUnsigned (ucast (w :: u32)))"
  shows "read_u32 j key = Some w"
proof -
  have "(ucast w :: u64) \<le> 0xFFFFFFFF"
    using unsigned_less [where 'a = nat, of w] by (simp add: word_le_nat_alt unsigned_ucast_eq take_bit_nat_eq_self)
  moreover have "ucast (ucast w :: u64) = w" by (intro bit_word_eqI) (simp add: bit_simps)
  ultimately show ?thesis using assms by (simp add: read_u32_def read_u64_def not_le [symmetric])
qed

lemma record_eta [json_simps]:
  "\<lparr>s_epoch = s_epoch s, s_consensus_ruleset = s_consensus_ruleset s,
     s_last_voted_view = s_last_voted_view s, s_high_qc = s_high_qc s, s_locked_qc = s_locked_qc s\<rparr> = s"
  "\<lparr>c_epoch = c_epoch c, c_height = c_height c, c_view = c_view c,
     c_proposal_digest = c_proposal_digest c, c_proposed_state_root = c_proposed_state_root c,
     c_transitions_digest = c_transitions_digest c, c_qc_digest = c_qc_digest c\<rparr> = c"
  "\<lparr>cc_chain = cc_chain ch, cc_certifying = cc_certifying ch\<rparr> = ch"
  "\<lparr>cb_proposal = cb_proposal b, cb_justify = cb_justify b\<rparr> = b"
  "\<lparr>cp_chain = cp_chain pr, cp_certifying = cp_certifying pr\<rparr> = pr"
  by simp_all

lemmas read_back = read_b64_b64 read_u16_ucast read_u32_ucast json_simps

lemma qc_signer_roundtrip:
  "codec_ok cd \<Longrightarrow> qc_signer_from_json cd (qc_signer_to_json cd s) = Some s"
  by (simp add: qc_signer_from_json_def qc_signer_to_json_def read_back)

abbreviation qc_storable :: "quorum_certificate \<Rightarrow> bool" where
  "qc_storable q \<equiv> length (qc_signers q) \<le> kMaxQcSignatures"

lemma qc_roundtrip:
  assumes "codec_ok cd" and "qc_storable q"
  shows "qc_from_json cd (qc_to_json cd q) = Some q"
proof -
  have "those (map (qc_signer_from_json cd \<circ> qc_signer_to_json cd) (qc_signers q)) = Some (qc_signers q)"
    by (intro those_map_Some) (simp add: qc_signer_roundtrip assms(1))
  then show ?thesis
    using assms(2)
    by (simp add: qc_from_json_def qc_to_json_def qc_keys_def read_back assms(1) read_u64_def not_less)
qed

lemma proposal_roundtrip:
  assumes "codec_ok cd"
  shows "proposal_from_json cd (proposal_to_json cd p) = Some p"
  by (simp add: proposal_from_json_def proposal_to_json_def proposal_keys_def read_back assms read_u64_def)

lemma entry_roundtrip:
  "codec_ok cd \<Longrightarrow> qc_storable q \<Longrightarrow> entry_from_json cd (entry_to_json cd p q) = Some (p, q)"
  by (simp add: entry_from_json_def entry_to_json_def json_simps qc_roundtrip proposal_roundtrip)

lemma entries_roundtrip:
  assumes "codec_ok cd" and "\<forall>(p, q) \<in> set es. qc_storable q"
  shows "those (map (entry_from_json cd \<circ> (\<lambda>(p, q). entry_to_json cd p q)) es) = Some es"
  using assms by (intro those_map_Some) (auto simp: entry_roundtrip)

lemma hotstuff_state_roundtrip:
  assumes "codec_ok cd" and "qc_storable (s_high_qc s)" and "qc_storable (s_locked_qc s)"
  shows "hotstuff_state_from_json cr cd (hotstuff_state_to_json cr cd s) = Some s"
  by (simp add: hotstuff_state_from_json_def hotstuff_state_to_json_def hotstuff_state_keys_def
      read_back assms read_u64_def qc_roundtrip Let_def)

lemma commit_roundtrip:
  assumes "codec_ok cd"
  shows "commit_from_json cr cd (commit_to_json cr cd c) = Some c"
proof -
  have "(ucast kConsensusStoreFormatVersion :: u64) = 1" by (simp add: kConsensusStoreFormatVersion_def)
  then show ?thesis
    by (simp add: commit_from_json_def commit_to_json_def commit_keys_def read_back assms read_u64_def Let_def)
qed

lemma chain_roundtrip:
  assumes "codec_ok cd" and "\<forall>(p, q) \<in> set (cc_chain ch). qc_storable q" and "qc_storable (cc_certifying ch)"
    and "cc_chain ch \<noteq> []" and "length (cc_chain ch) \<le> kMaxSyncChainBlocks"
  shows "chain_from_json cr cd (chain_to_json cr cd e ch) e = Some ch"
  using assms(4,5) entries_roundtrip [OF assms(1,2)]
  by (simp add: chain_from_json_def chain_to_json_def chain_keys_def read_back assms(1,3) read_u64_def
      qc_roundtrip Let_def not_less)

lemma commit_proof_roundtrip:
  assumes "codec_ok cd" and "length (cp_chain pr) = 3" and "\<forall>b \<in> set (cp_chain pr). qc_storable (cb_justify b)"
    and "qc_storable (cp_certifying pr)"
  shows "commit_proof_from_json cd (commit_proof_to_json cd pr) = Some pr"
proof -
  let ?pairs = "map (\<lambda>b. (cb_proposal b, cb_justify b)) (cp_chain pr)"
  have "those (map (entry_from_json cd \<circ> (\<lambda>(p, q). entry_to_json cd p q)) ?pairs) = Some ?pairs"
    using assms by (intro entries_roundtrip) auto
  then have "those (map (entry_from_json cd \<circ> (\<lambda>b. entry_to_json cd (cb_proposal b) (cb_justify b)))
      (cp_chain pr)) = Some ?pairs"
    by (simp add: comp_def)
  then show ?thesis
    by (simp add: commit_proof_from_json_def commit_proof_to_json_def json_simps assms qc_roundtrip comp_def)
qed

text \<open>What the writers produce is in the domain of the text round trip.\<close>

lemma json_ok_object [json_simps]:
  assumes "list_all (\<lambda>(k, v). ascii k \<and> json_ok v) kvs"
  shows "json_ok (json_object kvs)"
proof -
  have "smap_ok (fold (\<lambda>(k, v). smap_put k v) kvs m) \<and>
      list_all (\<lambda>(k, v). ascii k \<and> json_ok v) (fold (\<lambda>(k, v). smap_put k v) kvs m)"
    if "smap_ok m" "list_all (\<lambda>(k, v). ascii k \<and> json_ok v) m" for m
    using assms that
  proof (induction kvs arbitrary: m)
    case (Cons e kvs)
    obtain k v where e: "e = (k, v)" by (cases e)
    have "list_all (\<lambda>(k, v). ascii k \<and> json_ok v) (smap_put k v m)"
      using Cons.prems e set_smap_put_subset [of k v m] by (auto simp: list_all_iff)
    with Cons e show ?case by (simp add: smap_ok_put)
  qed simp
  from this [of "[]"] show ?thesis by (simp add: json_object_def)
qed

lemma json_ok_b64 [json_simps]: "codec_ok cd \<Longrightarrow> json_ok (b64 cd n w)"
  by (simp add: b64_def to_base64_def codec_ok_def)

lemma ascii_literal [json_simps]:
  "ascii []" "ascii (c # s) \<longleftrightarrow> of_char c < (128 :: nat) \<and> ascii s"
  by (simp_all add: ascii_def)

lemma json_ok_qc: "codec_ok cd \<Longrightarrow> json_ok (qc_to_json cd q)"
  by (simp add: qc_to_json_def qc_signer_to_json_def json_simps list_all_iff)

lemma json_ok_proposal: "codec_ok cd \<Longrightarrow> json_ok (proposal_to_json cd p)"
  by (simp add: proposal_to_json_def json_simps)

lemma json_ok_entry: "codec_ok cd \<Longrightarrow> json_ok (entry_to_json cd p q)"
  by (simp add: entry_to_json_def json_simps json_ok_qc json_ok_proposal)

lemma json_ok_records:
  assumes "codec_ok cd"
  shows "json_ok (hotstuff_state_to_json cr cd s)" "json_ok (commit_to_json cr cd c)"
    "json_ok (chain_to_json cr cd e ch)"
  by (simp_all add: hotstuff_state_to_json_def commit_to_json_def chain_to_json_def json_simps
      json_ok_qc json_ok_entry assms list_all_iff case_prod_beta)

section \<open>A codec\<close>

text \<open>A codec that satisfies the laws: documents are numbered, and every byte is written as two
  characters of a sixteen letter alphabet.\<close>

instance json :: countable
  by countable_datatype

fun nibbles :: "byte list \<Rightarrow> string" where
  "nibbles [] = []"
| "nibbles (b # bs) = char_of (unat b div 16) # char_of (unat b mod 16) # nibbles bs"

fun of_nibbles :: "string \<Rightarrow> byte list option" where
  "of_nibbles [] = Some []"
| "of_nibbles [c] = None"
| "of_nibbles (c # d # s) = map_option (Cons (of_nat (16 * of_char c + of_char d))) (of_nibbles s)"

lemma of_nibbles [simp]: "of_nibbles (nibbles bs) = Some bs"
proof (induction bs)
  case (Cons b bs)
  have "unat b < 256" using unsigned_less [where 'a = nat, of b] by simp
  then have "unat b div 16 < 256" "unat b mod 16 < 256" by linarith+
  then show ?case using Cons by simp
qed simp

lemma ascii_nibbles [simp]: "ascii (nibbles bs)"
proof (induction bs)
  case (Cons b bs)
  have "unat b < 256" using unsigned_less [where 'a = nat, of b] by simp
  then have "unat b div 16 < 16" "unat b mod 16 < 16" by linarith+
  then show ?case using Cons by (simp add: ascii_def)
qed (simp add: ascii_def)

definition example_codec :: codec where
  "example_codec =
     \<lparr>json_dump = (\<lambda>j. replicate (to_nat j) (CHR ''x'')), json_parse = (\<lambda>s. Some (from_nat (length s))),
      sodium_bin2base64 = nibbles, sodium_base642bin = of_nibbles, sodium_base642bin_urlsafe = of_nibbles\<rparr>"

lemma example_codec_ok [simp]: "codec_ok example_codec"
  by (simp add: codec_ok_def example_codec_def)

definition example_qc :: quorum_certificate where
  "example_qc =
     \<lparr>qc_format_version = 1, qc_consensus_ruleset = 1, qc_network_id = 2, qc_epoch = 3, qc_height = 4,
      qc_view = 5, qc_proposal_digest = 6,
      qc_signers = [\<lparr>qs_node_id = NodeId 7, qs_signature = 8\<rparr>, \<lparr>qs_node_id = NodeId 9, qs_signature = 10\<rparr>]\<rparr>"

definition example_block :: "u64 \<Rightarrow> committed_block" where
  "example_block h =
     \<lparr>cb_proposal =
        \<lparr>p_security_ruleset = 1, p_consensus_ruleset = 1, p_network_id = 2, p_epoch = 3, p_height = h,
         p_view = h, p_leader = NodeId 7, p_parent_digest = 11, p_justify_qc_digest = 12,
         p_previous_state_root = 13, p_proposed_state_root = 14, p_transitions_digest = 15,
         p_timestamp_hint = 16\<rparr>,
      cb_justify = example_qc\<rparr>"

definition example_proof :: commit_proof where
  "example_proof = \<lparr>cp_chain = [example_block 4, example_block 5, example_block 6], cp_certifying = example_qc\<rparr>"

section \<open>Properties\<close>

text \<open>Consensus evidence survives its JSON form: a commit proof of three blocks whose certificates
  respect the compiled signature bound reads back as it was written, and so does a stored chain.\<close>

theorem evidence_roundtrip:
  assumes "codec_ok cd" and "length (cp_chain pr) = 3"
    and "\<forall>b \<in> set (cp_chain pr). qc_storable (cb_justify b)" and "qc_storable (cp_certifying pr)"
  shows "commit_proof_from_json cd (commit_proof_to_json cd pr) = Some pr"
  using assms by (rule commit_proof_roundtrip)

theorem evidence_roundtrip_witness:
  "commit_proof_from_json example_codec (commit_proof_to_json example_codec example_proof) = Some example_proof"
  by (rule evidence_roundtrip)
    (simp_all add: example_codec_ok example_proof_def example_block_def example_qc_def kMaxQcSignatures_def kMaxActiveTier1_def)

end
