(* ===== verification/Leader_Pacemaker.thy ===== *)
theory Leader_Pacemaker
  imports Consensus_Types
begin

text \<open>
  \<^verbatim>\<open>Security/Consensus/LeaderSelection.cpp\<close> and \<^verbatim>\<open>Pacemaker.cpp\<close>: the deterministic leader order of
  an epoch and the view-timeout backoff. The lemmas show that the order is a permutation of the
  members which ignores their input order, that leadership rotates fairly, and that the backoff
  stays between its compiled bounds on every sequence of events.
\<close>

section \<open>Leader selection\<close>

definition leader_seed :: "crypto \<Rightarrow> digest \<Rightarrow> u64 \<Rightarrow> digest" where
  "leader_seed cr previous_checkpoint epoch =
     (let e = canonical_encoder kLeaderOrderDomain;
          e = add_string e ''seed'';
          e = add_digest e previous_checkpoint;
          e = add_u64 e epoch
      in encoder_digest cr e)"

definition leader_score :: "crypto \<Rightarrow> digest \<Rightarrow> node_id \<Rightarrow> digest" where
  "leader_score cr seed member =
     (let e = canonical_encoder kLeaderOrderDomain;
          e = add_string e ''score'';
          e = add_digest e seed;
          e = add_node e member
      in encoder_digest cr e)"

definition leader_order :: "crypto \<Rightarrow> node_id list \<Rightarrow> digest \<Rightarrow> u64 \<Rightarrow> node_id list" where
  "leader_order cr members previous_checkpoint epoch =
     (let seed = leader_seed cr previous_checkpoint epoch;
          scored = map (\<lambda>m. (leader_score cr seed m, m)) members
      in map snd (sort scored))"

text \<open>\<^const>\<open>None\<close> is the \<^verbatim>\<open>std::invalid_argument\<close> of an empty order.\<close>

definition leader_at :: "node_id list \<Rightarrow> u64 \<Rightarrow> node_id option" where
  "leader_at order view =
     (if order = [] then None else Some (order ! (unat view mod length order)))"

lemma mset_leader_order: "mset (leader_order cr members cp ep) = mset members"
proof -
  have "image_mset snd (mset (map (\<lambda>m. (score m, m)) members)) = mset members"
    for score :: "node_id \<Rightarrow> digest"
    by (simp add: multiset.map_comp comp_def)
  then show ?thesis by (simp only: leader_order_def Let_def mset_map [of snd] mset_sort)
qed

lemma set_leader_order [simp]: "set (leader_order cr members cp ep) = set members"
  using arg_cong [OF mset_leader_order, of set_mset] by simp

lemma length_leader_order [simp]: "length (leader_order cr members cp ep) = length members"
  by (simp add: leader_order_def Let_def)

lemma leader_order_perm:
  assumes "mset members = mset members'"
  shows "leader_order cr members cp ep = leader_order cr members' cp ep"
proof -
  let ?s = "\<lambda>m. (leader_score cr (leader_seed cr cp ep) m, m)"
  from assms have "mset (map ?s members) = mset (map ?s members')" by simp
  then have "sort (map ?s members) = sort (map ?s members')"
    by (intro properties_for_sort) (simp_all del: mset_map)
  then show ?thesis by (simp add: leader_order_def Let_def)
qed

lemma leader_at_member:
  "order \<noteq> [] \<Longrightarrow> \<exists>m \<in> set order. leader_at order view = Some m"
  by (simp add: leader_at_def)

text \<open>Any window of \<open>n\<close> consecutive residues meets each residue modulo \<open>n\<close> exactly once.\<close>

lemma mod_window_unique:
  fixes a i n :: nat
  assumes "i < n"
  shows "\<exists>!k. k < n \<and> (a + k) mod n = i"
proof -
  have neq: "(a + x) mod n \<noteq> (a + y) mod n" if "x < y" "y < n" for x y
  proof
    assume "(a + x) mod n = (a + y) mod n"
    then have "n dvd (a + y) - (a + x)"
      using that by (metis add_le_cancel_left less_imp_le mod_eq_dvd_iff_nat)
    with that show False by (auto dest: dvd_imp_le)
  qed
  have inj: "inj_on (\<lambda>k. (a + k) mod n) {..<n}"
    by (rule linorder_inj_onI) (use neq in auto)
  have "(\<lambda>k. (a + k) mod n) ` {..<n} \<subseteq> {..<n}" using assms by auto
  then have "(\<lambda>k. (a + k) mod n) ` {..<n} = {..<n}"
    by (intro endo_inj_surj) (use inj in auto)
  then have "i \<in> (\<lambda>k. (a + k) mod n) ` {..<n}" using assms by simp
  then obtain k where k: "k < n" "(a + k) mod n = i" by auto
  show ?thesis
  proof (rule ex1I [of _ k])
    fix j assume "j < n \<and> (a + j) mod n = i"
    then show "j = k" using inj_onD [OF inj, of j k] k by simp
  qed (use k in simp)
qed

lemma leader_rotation:
  assumes order: "distinct order" and m: "m \<in> set order"
    and window: "unat v + length order \<le> 2 ^ 64"
  shows "\<exists>!k. k < length order \<and> leader_at order (v + of_nat k) = Some m"
proof -
  from m obtain i where i: "i < length order" "order ! i = m" by (auto simp: in_set_conv_nth)
  have "leader_at order (v + of_nat k) = Some m \<longleftrightarrow> (unat v + k) mod length order = i"
    if k: "k < length order" for k
  proof -
    have "k < 2 ^ 64" using k window by linarith
    then have "unat (of_nat k :: u64) = k" by (simp add: unat_of_nat take_bit_eq_mod)
    moreover have "unat v + k < 2 ^ 64" using k window by linarith
    ultimately have "unat (v + of_nat k) = unat v + k"
      by (simp add: unat_word_ariths(1))
    then show ?thesis
      using k i order nth_eq_iff_index_eq [OF order, of "(unat v + k) mod length order" i]
      by (auto simp: leader_at_def)
  qed
  then show ?thesis using mod_window_unique [OF i(1), of "unat v"] by metis
qed

section \<open>Pacemaker\<close>

record pacemaker =
  pm_timeout_ms :: u64
  pm_consecutive_commits :: u32

definition pacemaker_init :: pacemaker where
  "pacemaker_init = \<lparr>pm_timeout_ms = kViewTimeoutBaseMs, pm_consecutive_commits = 0\<rparr>"

definition on_timeout :: "pacemaker \<Rightarrow> pacemaker" where
  "on_timeout pm =
     pm\<lparr>pm_timeout_ms := min (pm_timeout_ms pm * kViewTimeoutBackoffFactor) kViewTimeoutMaxMs,
        pm_consecutive_commits := 0\<rparr>"

definition on_committed_block :: "pacemaker \<Rightarrow> pacemaker" where
  "on_committed_block pm =
     (let pm = pm\<lparr>pm_consecutive_commits := pm_consecutive_commits pm + 1\<rparr>
      in if pm_consecutive_commits pm \<ge> kTimeoutResetAfterCommittedBlocks
         then pm\<lparr>pm_timeout_ms := kViewTimeoutBaseMs, pm_consecutive_commits := 0\<rparr>
         else pm)"

datatype pacemaker_event = Timeout | CommittedBlock

fun pacemaker_step :: "pacemaker \<Rightarrow> pacemaker_event \<Rightarrow> pacemaker" where
  "pacemaker_step pm Timeout = on_timeout pm"
| "pacemaker_step pm CommittedBlock = on_committed_block pm"

definition pacemaker_ok :: "pacemaker \<Rightarrow> bool" where
  "pacemaker_ok pm \<longleftrightarrow>
     kViewTimeoutBaseMs \<le> pm_timeout_ms pm \<and> pm_timeout_ms pm \<le> kViewTimeoutMaxMs \<and>
     pm_consecutive_commits pm < kTimeoutResetAfterCommittedBlocks"

lemmas pacemaker_consts =
  kViewTimeoutBaseMs_def kViewTimeoutMaxMs_def kViewTimeoutBackoffFactor_def
  kTimeoutResetAfterCommittedBlocks_def

lemma pacemaker_ok_init: "pacemaker_ok pacemaker_init"
  by (simp add: pacemaker_ok_def pacemaker_init_def pacemaker_consts)

text \<open>Within the bounds the doubling does not wrap around.\<close>

lemma double_no_wrap:
  fixes t :: u64
  assumes "t \<le> 30000"
  shows "unat (t * 2) = 2 * unat t"
proof -
  have "unat t \<le> 30000" using assms by (simp add: word_le_nat_alt)
  then show ?thesis by (simp add: unat_word_ariths(2))
qed

lemma pacemaker_ok_step: "pacemaker_ok pm \<Longrightarrow> pacemaker_ok (pacemaker_step pm e)"
proof (cases e)
  case Timeout
  assume "pacemaker_ok pm"
  then show ?thesis
    using double_no_wrap [of "pm_timeout_ms pm"] Timeout
    by (auto simp: pacemaker_ok_def on_timeout_def pacemaker_consts word_le_nat_alt min_def)
next
  case CommittedBlock
  assume "pacemaker_ok pm"
  then show ?thesis
    using CommittedBlock
    by (auto simp: pacemaker_ok_def on_committed_block_def Let_def pacemaker_consts not_le)
qed

lemma pacemaker_ok_run: "pacemaker_ok pm \<Longrightarrow> pacemaker_ok (foldl pacemaker_step pm es)"
  by (induction es arbitrary: pm) (simp_all add: pacemaker_ok_step)

text \<open>Backoff in closed form: \<open>k\<close> timeouts in a row multiply the timeout by \<open>2 ^ k\<close>, capped.\<close>

lemma on_timeout_unat:
  assumes "pacemaker_ok pm"
  shows "unat (pm_timeout_ms (on_timeout pm)) = min (2 * unat (pm_timeout_ms pm)) 30000"
  using assms double_no_wrap [of "pm_timeout_ms pm"]
  by (auto simp: pacemaker_ok_def on_timeout_def pacemaker_consts word_le_nat_alt min_def)

lemma backoff_closed_form:
  assumes "pacemaker_ok pm"
  shows "unat (pm_timeout_ms ((on_timeout ^^ k) pm)) = min (2 ^ k * unat (pm_timeout_ms pm)) 30000"
proof (induction k)
  case 0
  show ?case using assms by (simp add: pacemaker_ok_def pacemaker_consts word_le_nat_alt)
next
  case (Suc k)
  have "pacemaker_ok ((on_timeout ^^ k) pm)"
  proof (induction k)
    case (Suc k)
    then show ?case using pacemaker_ok_step [of _ Timeout] by simp
  qed (simp add: assms)
  then show ?case using Suc by (simp add: on_timeout_unat min_def mult.commute)
qed

lemma three_commits_reset:
  "pacemaker_ok pm \<Longrightarrow>
     pm_timeout_ms (foldl pacemaker_step pm [Timeout, CommittedBlock, CommittedBlock, CommittedBlock])
       = kViewTimeoutBaseMs"
  by (simp add: on_timeout_def on_committed_block_def Let_def pacemaker_consts)

section \<open>Properties\<close>

text \<open>The leader order is a permutation of the members that does not depend on the order in which
  they are given: every node derives the same order from the same set.\<close>

theorem leader_order_deterministic:
  assumes "distinct ms" and "distinct ms'" and "set ms = set ms'"
  shows "leader_order cr ms cp ep = leader_order cr ms' cp ep \<and>
    set (leader_order cr ms cp ep) = set ms \<and> distinct (leader_order cr ms cp ep)"
proof -
  have "mset ms = mset ms'" using assms by (simp add: set_eq_iff_mset_eq_distinct)
  then have "leader_order cr ms cp ep = leader_order cr ms' cp ep" by (rule leader_order_perm)
  moreover have "distinct (leader_order cr ms cp ep)"
    using assms(1) mset_leader_order [of cr ms cp ep] by (metis mset_eq_imp_distinct_iff)
  ultimately show ?thesis using set_leader_order by blast
qed

theorem leader_order_deterministic_witness:
  "leader_order (example_crypto []) (map NodeId [3, 1, 2]) 5 6 = leader_order (example_crypto []) (map NodeId [1, 2, 3]) 5 6 \<and>
   set (leader_order (example_crypto []) (map NodeId [3, 1, 2]) 5 6) = set (map NodeId [3, 1, 2])"
proof -
  have "set (map NodeId [3, 1, 2]) = set (map NodeId [1, 2, 3])" by auto
  then show ?thesis
    using leader_order_deterministic [of "map NodeId [3, 1, 2]" "map NodeId [1, 2, 3]" "example_crypto []" 5 6] by simp
qed

text \<open>Leadership rotates fairly: in any window of as many views as there are members, each member
  leads exactly one view.\<close>

theorem leadership_rotates:
  assumes "distinct order" and "m \<in> set order" and "unat v + length order \<le> 2 ^ 64"
  shows "\<exists>!k. k < length order \<and> leader_at order (v + of_nat k) = Some m"
  using assms by (rule leader_rotation)

theorem leadership_rotates_witness:
  "\<exists>!k. k < length [NodeId 4, NodeId 9] \<and> leader_at [NodeId 4, NodeId 9] (7 + of_nat k) = Some (NodeId 9)"
  by (rule leadership_rotates) simp_all

text \<open>The view timeout is between its compiled bounds after every sequence of timeouts and
  commits; \<open>k\<close> timeouts in a row double it \<open>k\<close> times up to the cap, without wrap-around.\<close>

theorem view_timeout_bounded:
  "pacemaker_ok (foldl pacemaker_step pacemaker_init es) \<and>
   unat (pm_timeout_ms ((on_timeout ^^ k) (foldl pacemaker_step pacemaker_init es))) =
     min (2 ^ k * unat (pm_timeout_ms (foldl pacemaker_step pacemaker_init es))) 30000"
  using backoff_closed_form pacemaker_ok_run [OF pacemaker_ok_init] by blast

end
