(* ===== verification/Hotstuff_Service.thy ===== *)
theory Hotstuff_Service
  imports Quorum_Validation Leader_Pacemaker Store_Interface
begin

text \<open>
  \<^verbatim>\<open>Security/Consensus/HotStuffService.hpp\<close> and \<^verbatim>\<open>HotStuffService.cpp\<close>: the chained HotStuff replica
  of one epoch. The members of the class are the record \<open>hotstuff\<close>, the store is passed as a
  state next to it, and every member function is a definition over both. A call that throws is an
  \<^const>\<open>Inl\<close> value. The two loops that follow parent digests have no bound in the code; they run
  with the number of known blocks as fuel and give \<^const>\<open>None\<close> when it is used up, which only a
  cycle of parent digests can do.
\<close>

section \<open>Configuration, state and results\<close>

record hotstuff_config =
  cfg_security_ruleset :: u16
  cfg_consensus_ruleset :: u16
  cfg_network_id :: digest
  cfg_epoch :: u64
  cfg_genesis_digest :: digest
  cfg_leader_order :: "node_id list"
  cfg_vote_keys :: vote_keys
  cfg_quorum :: nat
  cfg_self :: node_id
  cfg_transition_validator :: "(digest \<Rightarrow> bool) option"
  cfg_payload_validator :: "(proposal \<Rightarrow> block_payload \<Rightarrow> bool) option"

record proposal_result =
  pr_vote :: "vote option"
  pr_rejected :: "consensus_failure option"
  pr_commits :: "consensus_commit list"
  pr_safe_node_refused :: bool
  pr_transition_refused :: bool

record orphan_proposal =
  or_proposal :: proposal
  or_justify :: quorum_certificate
  or_payload :: "block_payload option"

record equivocation_record =
  ev_node :: node_id
  ev_view :: u64
  ev_first :: digest
  ev_second :: digest
  ev_is_vote :: bool

record block_record =
  br_proposal :: proposal
  br_justify :: quorum_certificate
  br_digest :: digest
  br_payload :: "block_payload option"

record hotstuff =
  hs_failed :: bool
  hs_synced :: bool
  hs_current_view :: u64
  hs_last_voted_view :: u64
  hs_high_qc :: quorum_certificate
  hs_locked_qc :: quorum_certificate
  hs_last_committed_height :: u64
  hs_blocks :: "(digest, block_record) smap"
  hs_qc_by_block :: "(digest, quorum_certificate) smap"
  hs_accepted_by_view :: "(u64, digest) smap"
  hs_committed_digests :: "digest set"
  hs_committed_by_height :: "(u64, digest) smap"
  hs_votes_by_view :: "(u64, (node_id, vote) smap) smap"
  hs_formed_qcs :: "(u64 \<times> u64 \<times> digest) set"
  hs_timeouts_by_view :: "(u64, (node_id, timeout_vote) smap) smap"
  hs_formed_tcs :: "u64 set"
  hs_orphan :: "orphan_proposal option"
  hs_anchor_adopted :: bool
  hs_restored :: bool
  hs_stored_chain_qc :: "digest option"
  hs_evidence :: "equivocation_record list"

datatype hs_exception = EmptyLeaderOrder | ZeroQuorum | NotSyncedError | SigningKeyInvalid

text \<open>The three outcomes of \<^verbatim>\<open>receive_vote\<close> and \<^verbatim>\<open>receive_timeout\<close>.\<close>

datatype 'c collected = Counted | Formed 'c | Refused consensus_failure

definition cfg_context :: "hotstuff_config \<Rightarrow> qc_validation_context" where
  "cfg_context cfg =
     \<lparr>vc_consensus_ruleset = cfg_consensus_ruleset cfg, vc_network_id = cfg_network_id cfg,
      vc_epoch = cfg_epoch cfg, vc_quorum = cfg_quorum cfg\<rparr>"

abbreviation valid_qc :: "crypto \<Rightarrow> hotstuff_config \<Rightarrow> quorum_certificate \<Rightarrow> bool" where
  "valid_qc cr cfg q \<equiv> validate_quorum_certificate cr q (cfg_context cfg) (cfg_vote_keys cfg) = None"

section \<open>Small operations\<close>

definition genesis_qc :: "hotstuff_config \<Rightarrow> quorum_certificate" where
  "genesis_qc cfg =
     \<lparr>qc_format_version = kQcFormatVersion, qc_consensus_ruleset = cfg_consensus_ruleset cfg,
      qc_network_id = cfg_network_id cfg, qc_epoch = cfg_epoch cfg, qc_height = 0, qc_view = 0,
      qc_proposal_digest = cfg_genesis_digest cfg, qc_signers = []\<rparr>"

definition is_genesis_justify :: "hotstuff_config \<Rightarrow> quorum_certificate \<Rightarrow> bool" where
  "is_genesis_justify cfg j \<longleftrightarrow>
     qc_signers j = [] \<and> qc_view j = 0 \<and> qc_height j = 0 \<and>
     qc_proposal_digest j = cfg_genesis_digest cfg \<and> qc_format_version j = kQcFormatVersion \<and>
     qc_consensus_ruleset j = cfg_consensus_ruleset cfg \<and> qc_network_id j = cfg_network_id cfg \<and>
     qc_epoch j = cfg_epoch cfg"

definition advance_high_qc :: "quorum_certificate \<Rightarrow> hotstuff \<Rightarrow> hotstuff" where
  "advance_high_qc q hs =
     (if qc_view q > qc_view (hs_high_qc hs) then hs\<lparr>hs_high_qc := q\<rparr> else hs)"

definition view_window_failure :: "hotstuff \<Rightarrow> u64 \<Rightarrow> consensus_failure option" where
  "view_window_failure hs view =
     (if view + kMaxFutureViewDistance < hs_current_view hs then Some StaleView
      else if view > hs_current_view hs + kMaxFutureViewDistance then Some ViewTooFar
      else None)"

definition pending_count :: "hotstuff \<Rightarrow> nat" where
  "pending_count hs =
     length (filter (\<lambda>(d, b). p_height (br_proposal b) > hs_last_committed_height hs) (hs_blocks hs))"

definition hotstuff_state_of :: "hotstuff_config \<Rightarrow> hotstuff \<Rightarrow> hotstuff_state" where
  "hotstuff_state_of cfg hs =
     \<lparr>s_epoch = cfg_epoch cfg, s_consensus_ruleset = cfg_consensus_ruleset cfg,
      s_last_voted_view = hs_last_voted_view hs, s_high_qc = hs_high_qc hs,
      s_locked_qc = hs_locked_qc hs\<rparr>"

definition sync_to_certified :: "u64 \<Rightarrow> hotstuff \<Rightarrow> hotstuff" where
  "sync_to_certified certified_view_floor hs =
     (if hs_failed hs then hs
      else hs\<lparr>hs_last_voted_view := max (hs_last_voted_view hs) certified_view_floor,
              hs_current_view := max (hs_current_view hs) (certified_view_floor + 1),
              hs_synced := True\<rparr>)"

definition service_members :: "hotstuff_config \<Rightarrow> node_id list" where
  "service_members cfg = map fst (cfg_vote_keys cfg)"

definition service_block :: "hotstuff \<Rightarrow> digest \<Rightarrow> proposal option" where
  "service_block hs d = map_option br_proposal (map_of (hs_blocks hs) d)"

definition service_block_payload :: "hotstuff \<Rightarrow> digest \<Rightarrow> block_payload option" where
  "service_block_payload hs d =
     (case map_of (hs_blocks hs) d of None \<Rightarrow> None | Some b \<Rightarrow> br_payload b)"

text \<open>\<^verbatim>\<open>extends_locked\<close>: the walk over parent digests, with fuel.\<close>

fun extends_walk ::
  "nat \<Rightarrow> digest \<Rightarrow> digest \<Rightarrow> (digest, block_record) smap \<Rightarrow> digest \<Rightarrow> bool option" where
  "extends_walk 0 locked genesis blocks parent = None"
| "extends_walk (Suc n) locked genesis blocks parent =
     (if parent = locked then Some True
      else if parent = genesis then Some False
      else case map_of blocks parent of
             None \<Rightarrow> Some False
           | Some b \<Rightarrow> extends_walk n locked genesis blocks (p_parent_digest (br_proposal b)))"

definition extends_locked :: "hotstuff_config \<Rightarrow> hotstuff \<Rightarrow> proposal \<Rightarrow> bool option" where
  "extends_locked cfg hs p =
     (let locked = qc_proposal_digest (hs_locked_qc hs)
      in if locked = cfg_genesis_digest cfg then Some True
         else extends_walk (Suc (length (hs_blocks hs))) locked (cfg_genesis_digest cfg)
                (hs_blocks hs) (p_parent_digest p))"

section \<open>Chain rules\<close>

fun ancestor_walk ::
  "nat \<Rightarrow> digest \<Rightarrow> u64 \<Rightarrow> (digest, block_record) smap \<Rightarrow> block_record \<Rightarrow> block_record list
     \<Rightarrow> block_record list option" where
  "ancestor_walk 0 genesis committed blocks current chain = None"
| "ancestor_walk (Suc n) genesis committed blocks current chain =
     (let chain = current # chain;
          parent = p_parent_digest (br_proposal current)
      in if parent = genesis then Some chain
         else case map_of blocks parent of
                None \<Rightarrow> Some chain
              | Some b \<Rightarrow>
                  if p_height (br_proposal b) \<le> committed then Some chain
                  else ancestor_walk n genesis committed blocks b chain)"

definition make_commit :: "crypto \<Rightarrow> hotstuff_config \<Rightarrow> block_record \<Rightarrow> quorum_certificate \<Rightarrow> consensus_commit" where
  "make_commit cr cfg b certifying =
     \<lparr>c_epoch = cfg_epoch cfg, c_height = p_height (br_proposal b), c_view = p_view (br_proposal b),
      c_proposal_digest = br_digest b, c_proposed_state_root = p_proposed_state_root (br_proposal b),
      c_transitions_digest = p_transitions_digest (br_proposal b),
      c_qc_digest = qc_digest cr certifying\<rparr>"

text \<open>The commit loop; the flag is false when the loop left \<^verbatim>\<open>apply_chain_rules\<close> early.\<close>

fun commit_loop ::
  "crypto \<Rightarrow> hotstuff_config \<Rightarrow> hotstuff \<Rightarrow> consensus_commit list \<Rightarrow> block_record list
     \<Rightarrow> hotstuff \<times> consensus_commit list \<times> bool" where
  "commit_loop cr cfg hs commits [] = (hs, commits, True)"
| "commit_loop cr cfg hs commits (b # chain) =
     (case map_of (hs_qc_by_block hs) (br_digest b) of
        None \<Rightarrow> (hs, commits, False)
      | Some certifying \<Rightarrow>
          commit_loop cr cfg
            (hs\<lparr>hs_committed_digests := insert (br_digest b) (hs_committed_digests hs),
                hs_committed_by_height :=
                  smap_put (p_height (br_proposal b)) (br_digest b) (hs_committed_by_height hs),
                hs_last_committed_height := p_height (br_proposal b)\<rparr>)
            (commits @ [make_commit cr cfg b certifying]) chain)"

definition dropped_by_prune :: "hotstuff \<Rightarrow> digest \<times> block_record \<Rightarrow> bool" where
  "dropped_by_prune hs = (\<lambda>(d, b).
     p_height (br_proposal b) \<le> hs_last_committed_height hs \<and> d \<notin> hs_committed_digests hs)"

definition prune_committed :: "hotstuff \<Rightarrow> hotstuff" where
  "prune_committed hs =
     (let dropped = filter (dropped_by_prune hs) (hs_blocks hs)
      in hs\<lparr>hs_accepted_by_view :=
              fold (\<lambda>(d, b). smap_erase (p_view (br_proposal b))) dropped (hs_accepted_by_view hs),
            hs_qc_by_block := fold (\<lambda>(d, b). smap_erase d) dropped (hs_qc_by_block hs),
            hs_blocks := filter (Not \<circ> dropped_by_prune hs) (hs_blocks hs)\<rparr>)"

definition raise_lock :: "quorum_certificate \<Rightarrow> hotstuff \<Rightarrow> hotstuff" where
  "raise_lock q hs =
     (if qc_view q > qc_view (hs_locked_qc hs) then hs\<lparr>hs_locked_qc := q\<rparr> else hs)"

text \<open>\<^verbatim>\<open>COMMIT_ON_THREE_CHAIN\<close> from \<open>b0\<close> on.\<close>

definition commit_chain ::
  "'st consensus_store_ops \<Rightarrow> crypto \<Rightarrow> hotstuff_config \<Rightarrow> hotstuff \<Rightarrow> 'st \<Rightarrow> block_record
     \<Rightarrow> consensus_commit list \<Rightarrow> (hotstuff \<times> 'st \<times> consensus_commit list) option" where
  "commit_chain ops cr cfg hs st b0 commits =
     (if p_height (br_proposal b0) \<le> hs_last_committed_height hs then Some (hs, st, commits)
      else case ancestor_walk (Suc (length (hs_blocks hs))) (cfg_genesis_digest cfg)
                  (hs_last_committed_height hs) (hs_blocks hs) b0 [] of
             None \<Rightarrow> None
           | Some chain \<Rightarrow>
               (case commit_loop cr cfg hs commits chain of
                  (hs, commits, False) \<Rightarrow> Some (hs, st, commits)
                | (hs, commits, True) \<Rightarrow>
                    Some (prune_committed hs, snd (store_commit ops (last commits) st), commits)))"

definition apply_chain_rules ::
  "'st consensus_store_ops \<Rightarrow> crypto \<Rightarrow> hotstuff_config \<Rightarrow> hotstuff \<Rightarrow> 'st \<Rightarrow> quorum_certificate
     \<Rightarrow> consensus_commit list \<Rightarrow> (hotstuff \<times> 'st \<times> consensus_commit list) option" where
  "apply_chain_rules ops cr cfg hs st justify commits =
     (case map_of (hs_blocks hs) (qc_proposal_digest justify) of
        None \<Rightarrow> Some (hs, st, commits)
      | Some b2 \<Rightarrow>
          (let qc1 = br_justify b2; hs = raise_lock qc1 hs
           in case map_of (hs_blocks hs) (qc_proposal_digest qc1) of
                None \<Rightarrow> Some (hs, st, commits)
              | Some b1 \<Rightarrow>
                  (case map_of (hs_blocks hs) (qc_proposal_digest (br_justify b1)) of
                     None \<Rightarrow> Some (hs, st, commits)
                   | Some b0 \<Rightarrow> commit_chain ops cr cfg hs st b0 commits)))"

section \<open>The stored chain\<close>

fun uncommitted_walk ::
  "nat \<Rightarrow> hotstuff_config \<Rightarrow> hotstuff \<Rightarrow> digest \<Rightarrow> (proposal \<times> quorum_certificate) list
     \<Rightarrow> (proposal \<times> quorum_certificate) list" where
  "uncommitted_walk 0 cfg hs cursor chain = chain"
| "uncommitted_walk (Suc n) cfg hs cursor chain =
     (if cursor = cfg_genesis_digest cfg then chain
      else case map_of (hs_blocks hs) cursor of
             None \<Rightarrow> chain
           | Some b \<Rightarrow>
               if p_height (br_proposal b) \<le> hs_last_committed_height hs then chain
               else uncommitted_walk n cfg hs (p_parent_digest (br_proposal b))
                      ((br_proposal b, br_justify b) # chain))"

definition uncommitted_chain ::
  "hotstuff_config \<Rightarrow> hotstuff \<Rightarrow> (proposal \<times> quorum_certificate) list" where
  "uncommitted_chain cfg hs =
     uncommitted_walk kMaxSyncChainBlocks cfg hs (qc_proposal_digest (hs_high_qc hs)) []"

definition store_certified_chain ::
  "'st consensus_store_ops \<Rightarrow> crypto \<Rightarrow> hotstuff_config \<Rightarrow> hotstuff \<Rightarrow> 'st \<Rightarrow> bool \<times> hotstuff \<times> 'st" where
  "store_certified_chain ops cr cfg hs st =
     (let certificate = qc_digest cr (hs_high_qc hs);
          chain = uncommitted_chain cfg hs
      in if hs_stored_chain_qc hs = Some certificate then (True, hs, st)
         else if chain = [] \<or>
                 proposal_digest cr (fst (last chain)) \<noteq> qc_proposal_digest (hs_high_qc hs)
           then (True, hs, st)
         else case store_chain ops (cfg_epoch cfg)
                     \<lparr>cc_chain = chain, cc_certifying = hs_high_qc hs\<rparr> st of
                (False, st) \<Rightarrow> (False, hs, st)
              | (True, st) \<Rightarrow> (True, hs\<lparr>hs_stored_chain_qc := Some certificate\<rparr>, st))"

definition certified_block_failure ::
  "crypto \<Rightarrow> hotstuff_config \<Rightarrow> proposal \<Rightarrow> quorum_certificate \<Rightarrow> quorum_certificate
     \<Rightarrow> consensus_failure option" where
  "certified_block_failure cr cfg p justify certifying =
     (if p_security_ruleset p \<noteq> cfg_security_ruleset cfg \<or>
         p_consensus_ruleset p \<noteq> cfg_consensus_ruleset cfg then Some RulesetMismatch
      else if p_network_id p \<noteq> cfg_network_id cfg then Some NetworkMismatch
      else if p_epoch p \<noteq> cfg_epoch cfg then Some EpochMismatch
      else if qc_digest cr justify \<noteq> p_justify_qc_digest p then Some JustifyInvalid
      else if p_parent_digest p \<noteq> qc_proposal_digest justify then Some ParentQcMismatch
      else if \<not> is_genesis_justify cfg justify \<and> \<not> valid_qc cr cfg justify then Some JustifyInvalid
      else if qc_proposal_digest certifying \<noteq> proposal_digest cr p \<or> \<not> valid_qc cr cfg certifying
        then Some JustifyInvalid
      else None)"

text \<open>\<^verbatim>\<open>restore_stored_chain\<close>: each entry is certified by the justify of the next one, the last by
  the record's certificate; the loop stops at the first entry that fails a check.\<close>

definition restore_entry ::
  "crypto \<Rightarrow> hotstuff \<Rightarrow> proposal \<Rightarrow> quorum_certificate \<Rightarrow> quorum_certificate \<Rightarrow> hotstuff" where
  "restore_entry cr hs p justify certifying =
     (let d = proposal_digest cr p
      in (advance_high_qc certifying
           (hs\<lparr>hs_blocks := smap_put d \<lparr>br_proposal = p, br_justify = justify, br_digest = d,
                                         br_payload = None\<rparr> (hs_blocks hs),
               hs_qc_by_block := smap_put d certifying
                 (smap_put (qc_proposal_digest justify) justify (hs_qc_by_block hs)),
               hs_accepted_by_view := smap_put (p_view p) d (hs_accepted_by_view hs)\<rparr>))
         \<lparr>hs_restored := True\<rparr>)"

fun restore_loop ::
  "crypto \<Rightarrow> hotstuff_config \<Rightarrow> quorum_certificate \<Rightarrow> (digest \<times> u64) option \<Rightarrow> hotstuff
     \<Rightarrow> (proposal \<times> quorum_certificate) list \<Rightarrow> hotstuff" where
  "restore_loop cr cfg last_qc previous hs [] = hs"
| "restore_loop cr cfg last_qc previous hs ((p, justify) # rest) =
     (let certifying = (case rest of [] \<Rightarrow> last_qc | (_, j) # _ \<Rightarrow> j);
          d = proposal_digest cr p;
          linked = (case previous of
                      Some (pd, ph) \<Rightarrow> p_parent_digest p = pd \<and> p_height p = ph + 1
                    | None \<Rightarrow> \<not> (p_parent_digest p = cfg_genesis_digest cfg \<and> p_height p \<noteq> 1))
      in if certified_block_failure cr cfg p justify certifying \<noteq> None then hs
         else if \<not> linked then hs
         else if (case map_of (hs_accepted_by_view hs) (p_view p) of None \<Rightarrow> False | Some s \<Rightarrow> s \<noteq> d)
           then hs
         else restore_loop cr cfg last_qc (Some (d, p_height p))
                (restore_entry cr hs p justify certifying) rest)"

definition restore_stored_chain ::
  "'st consensus_store_ops \<Rightarrow> crypto \<Rightarrow> hotstuff_config \<Rightarrow> 'st \<Rightarrow> hotstuff \<Rightarrow> hotstuff" where
  "restore_stored_chain ops cr cfg st hs =
     (case load_chain ops (cfg_epoch cfg) st of
        Loaded rec \<Rightarrow> restore_loop cr cfg (cc_certifying rec) None hs (cc_chain rec)
      | _ \<Rightarrow> hs)"

section \<open>Construction\<close>

definition hotstuff_fresh :: "hotstuff_config \<Rightarrow> hotstuff" where
  "hotstuff_fresh cfg =
     \<lparr>hs_failed = False, hs_synced = False, hs_current_view = 1, hs_last_voted_view = 0,
      hs_high_qc = genesis_qc cfg, hs_locked_qc = genesis_qc cfg, hs_last_committed_height = 0,
      hs_blocks = [], hs_qc_by_block = [], hs_accepted_by_view = [], hs_committed_digests = {},
      hs_committed_by_height = [], hs_votes_by_view = [], hs_formed_qcs = {},
      hs_timeouts_by_view = [], hs_formed_tcs = {}, hs_orphan = None, hs_anchor_adopted = False,
      hs_restored = False, hs_stored_chain_qc = None, hs_evidence = []\<rparr>"

definition restart_views :: "hotstuff \<Rightarrow> hotstuff" where
  "restart_views hs =
     hs\<lparr>hs_current_view := max (qc_view (hs_high_qc hs) + 1) (hs_last_voted_view hs + 1),
        hs_synced := False\<rparr>"

definition hotstuff_service ::
  "'st consensus_store_ops \<Rightarrow> crypto \<Rightarrow> hotstuff_config \<Rightarrow> 'st \<Rightarrow> hs_exception + hotstuff" where
  "hotstuff_service ops cr cfg st =
     (if cfg_leader_order cfg = [] then Inl EmptyLeaderOrder
      else if cfg_quorum cfg = 0 then Inl ZeroQuorum
      else let hs = hotstuff_fresh cfg
           in case load_state ops (cfg_epoch cfg) st of
                Absent \<Rightarrow> Inr (hs\<lparr>hs_synced := True\<rparr>)
              | Corrupt \<Rightarrow> Inr (hs\<lparr>hs_failed := True\<rparr>)
              | Loaded s \<Rightarrow>
                  if s_epoch s \<noteq> cfg_epoch cfg \<or> s_consensus_ruleset s \<noteq> cfg_consensus_ruleset cfg
                  then Inr (hs\<lparr>hs_failed := True\<rparr>)
                  else Inr (restart_views (restore_stored_chain ops cr cfg st
                         (hs\<lparr>hs_last_voted_view := s_last_voted_view s,
                             hs_high_qc := s_high_qc s, hs_locked_qc := s_locked_qc s\<rparr>))))"

section \<open>Receiving a proposal\<close>

definition rejected :: "consensus_failure \<Rightarrow> bool \<Rightarrow> proposal_result" where
  "rejected f refused =
     \<lparr>pr_vote = None, pr_rejected = Some f, pr_commits = [], pr_safe_node_refused = False,
      pr_transition_refused = refused\<rparr>"

text \<open>Steps 1 to 5 read the state only.\<close>

definition proposal_precheck ::
  "crypto \<Rightarrow> hotstuff_config \<Rightarrow> hotstuff \<Rightarrow> proposal \<Rightarrow> quorum_certificate \<Rightarrow> consensus_failure option" where
  "proposal_precheck cr cfg hs p justify =
     (if hs_failed hs \<or> \<not> hs_synced hs then Some NotSynced
      else if p_security_ruleset p \<noteq> cfg_security_ruleset cfg \<or>
              p_consensus_ruleset p \<noteq> cfg_consensus_ruleset cfg then Some RulesetMismatch
      else if p_network_id p \<noteq> cfg_network_id cfg then Some NetworkMismatch
      else if p_epoch p \<noteq> cfg_epoch cfg then Some EpochMismatch
      else if qc_digest cr justify \<noteq> p_justify_qc_digest p then Some JustifyInvalid
      else if p_parent_digest p \<noteq> qc_proposal_digest justify then Some ParentQcMismatch
      else if \<not> is_genesis_justify cfg justify \<and> \<not> valid_qc cr cfg justify then Some JustifyInvalid
      else None)"

text \<open>Steps 6 and 7, after \<open>current_view\<close> was raised.\<close>

definition proposal_view_check :: "hotstuff_config \<Rightarrow> hotstuff \<Rightarrow> proposal \<Rightarrow> consensus_failure option" where
  "proposal_view_check cfg hs p =
     (if p_view p < hs_current_view hs then Some StaleView
      else if p_view p > hs_current_view hs + kMaxFutureViewDistance then Some ViewTooFar
      else if leader_at (cfg_leader_order cfg) (p_view p) \<noteq> Some (p_leader p) then Some WrongLeader
      else None)"

text \<open>Step 7b.\<close>

definition transition_refused :: "hotstuff_config \<Rightarrow> proposal \<Rightarrow> block_payload option \<Rightarrow> bool" where
  "transition_refused cfg p payload \<longleftrightarrow>
     p_transitions_digest p \<noteq> 0 \<and> payload = None \<and>
     (case cfg_transition_validator cfg of None \<Rightarrow> True | Some f \<Rightarrow> \<not> f (p_transitions_digest p))"

text \<open>Step 9: the outcome of the height rule.\<close>

datatype chain_position = Linked | WrongHeight | ParentUnknown

definition chain_position ::
  "hotstuff_config \<Rightarrow> hotstuff \<Rightarrow> proposal \<Rightarrow> chain_position" where
  "chain_position cfg hs p =
     (if p_parent_digest p = cfg_genesis_digest cfg
      then (if p_height p \<noteq> 1 then WrongHeight else Linked)
      else case map_of (hs_blocks hs) (p_parent_digest p) of
             None \<Rightarrow> ParentUnknown
           | Some b \<Rightarrow> if p_height p \<noteq> p_height (br_proposal b) + 1 then WrongHeight else Linked)"

definition hold_orphan ::
  "proposal \<Rightarrow> quorum_certificate \<Rightarrow> block_payload option \<Rightarrow> hotstuff \<Rightarrow> hotstuff" where
  "hold_orphan p justify payload hs =
     (let hs = advance_high_qc justify hs
      in if (case hs_orphan hs of None \<Rightarrow> True | Some orph \<Rightarrow> p_view p \<ge> p_view (or_proposal orph))
         then hs\<lparr>hs_orphan := Some \<lparr>or_proposal = p, or_justify = justify, or_payload = payload\<rparr>\<rparr>
         else hs)"

text \<open>Step 9b: the payload that matches the header, and whether the vote is withheld.\<close>

definition judge_payload ::
  "crypto \<Rightarrow> hotstuff_config \<Rightarrow> proposal \<Rightarrow> block_payload option \<Rightarrow> block_payload option \<times> bool" where
  "judge_payload cr cfg p payload =
     (case payload of
        None \<Rightarrow> (None, False)
      | Some pl \<Rightarrow>
          if block_payload_digest cr pl \<noteq> p_transitions_digest p then (None, True)
          else (Some pl, case cfg_payload_validator cfg of None \<Rightarrow> True | Some f \<Rightarrow> \<not> f p pl))"

text \<open>Step 10.\<close>

definition accept_block ::
  "digest \<Rightarrow> proposal \<Rightarrow> quorum_certificate \<Rightarrow> block_payload option \<Rightarrow> hotstuff \<Rightarrow> hotstuff" where
  "accept_block d p justify matched hs =
     (let matched = (case matched of
                       Some pl \<Rightarrow> Some pl
                     | None \<Rightarrow> (case map_of (hs_blocks hs) d of None \<Rightarrow> None | Some b \<Rightarrow> br_payload b))
      in advance_high_qc justify
           (hs\<lparr>hs_blocks := smap_put d \<lparr>br_proposal = p, br_justify = justify, br_digest = d,
                                         br_payload = matched\<rparr> (hs_blocks hs),
               hs_qc_by_block := smap_put (qc_proposal_digest justify) justify (hs_qc_by_block hs),
               hs_accepted_by_view := smap_put (p_view p) d (hs_accepted_by_view hs)\<rparr>))"

text \<open>Step 12: the store writes come before the vote is built.\<close>

definition make_vote ::
  "crypto \<Rightarrow> hotstuff_config \<Rightarrow> epoch_vote_key \<Rightarrow> proposal \<Rightarrow> digest \<Rightarrow> vote option" where
  "make_vote cr cfg key p d =
     map_option (\<lambda>s.
       \<lparr>v_consensus_ruleset = cfg_consensus_ruleset cfg, v_network_id = cfg_network_id cfg,
        v_epoch = cfg_epoch cfg, v_height = p_height p, v_view = p_view p, v_proposal_digest = d,
        v_voter = cfg_self cfg, v_signature = s\<rparr>)
       (sign_digest cr key
         (vote_signing_digest cr (cfg_consensus_ruleset cfg) (cfg_network_id cfg) (cfg_epoch cfg)
            (p_height p) (p_view p) d (cfg_self cfg)))"

definition safe_node :: "hotstuff_config \<Rightarrow> hotstuff \<Rightarrow> proposal \<Rightarrow> quorum_certificate \<Rightarrow> bool option" where
  "safe_node cfg hs p justify =
     (if \<not> p_view p > hs_last_voted_view hs then Some False
      else case extends_locked cfg hs p of
             None \<Rightarrow> None
           | Some True \<Rightarrow> Some True
           | Some False \<Rightarrow> Some (qc_view justify > qc_view (hs_locked_qc hs)))"

definition emit_vote ::
  "'st consensus_store_ops \<Rightarrow> crypto \<Rightarrow> hotstuff_config \<Rightarrow> epoch_vote_key \<Rightarrow> proposal \<Rightarrow> digest
     \<Rightarrow> consensus_commit list \<Rightarrow> hotstuff \<Rightarrow> 'st \<Rightarrow> (hs_exception + proposal_result) \<times> hotstuff \<times> 'st" where
  "emit_vote ops cr cfg key p d commits hs st =
     (let result = \<lparr>pr_vote = None, pr_rejected = None, pr_commits = commits,
                     pr_safe_node_refused = False, pr_transition_refused = False\<rparr>
      in case store_certified_chain ops cr cfg hs st of
           (False, hs, st) \<Rightarrow> (Inr (result\<lparr>pr_rejected := Some StorageRejected\<rparr>), hs, st)
         | (True, hs, st) \<Rightarrow>
             (let pending = (hotstuff_state_of cfg hs)\<lparr>s_last_voted_view := p_view p\<rparr>
              in case store_before_vote ops pending st of
                   (False, st) \<Rightarrow> (Inr (result\<lparr>pr_rejected := Some StorageRejected\<rparr>), hs, st)
                 | (True, st) \<Rightarrow>
                     (let hs = hs\<lparr>hs_last_voted_view := p_view p\<rparr>
                      in case make_vote cr cfg key p d of
                           None \<Rightarrow> (Inl SigningKeyInvalid, hs, st)
                         | Some v \<Rightarrow> (Inr (result\<lparr>pr_vote := Some v\<rparr>), hs, st))))"

definition vote_stage ::
  "'st consensus_store_ops \<Rightarrow> crypto \<Rightarrow> hotstuff_config \<Rightarrow> epoch_vote_key \<Rightarrow> proposal
     \<Rightarrow> quorum_certificate \<Rightarrow> digest \<Rightarrow> bool \<Rightarrow> consensus_commit list \<Rightarrow> hotstuff \<Rightarrow> 'st
     \<Rightarrow> ((hs_exception + proposal_result) \<times> hotstuff \<times> 'st) option" where
  "vote_stage ops cr cfg key p justify d refused commits hs st =
     (let result = \<lparr>pr_vote = None, pr_rejected = None, pr_commits = commits,
                     pr_safe_node_refused = False, pr_transition_refused = refused\<rparr>
      in if refused then Some (Inr result, hs, st)
         else case safe_node cfg hs p justify of
                None \<Rightarrow> None
              | Some False \<Rightarrow> Some (Inr (result\<lparr>pr_safe_node_refused := True\<rparr>), hs, st)
              | Some True \<Rightarrow> Some (emit_vote ops cr cfg key p d commits hs st))"

text \<open>Steps 9b to 12.\<close>

definition accept_proposal ::
  "'st consensus_store_ops \<Rightarrow> crypto \<Rightarrow> hotstuff_config \<Rightarrow> epoch_vote_key \<Rightarrow> proposal
     \<Rightarrow> quorum_certificate \<Rightarrow> block_payload option \<Rightarrow> digest \<Rightarrow> bool \<Rightarrow> hotstuff \<Rightarrow> 'st
     \<Rightarrow> ((hs_exception + proposal_result) \<times> hotstuff \<times> 'st) option" where
  "accept_proposal ops cr cfg key p justify payload d refused hs st =
     (let (matched, payload_refused) = judge_payload cr cfg p payload;
          hs = accept_block d p justify matched hs
      in case apply_chain_rules ops cr cfg hs st justify [] of
           None \<Rightarrow> None
         | Some (hs, st, commits) \<Rightarrow>
             vote_stage ops cr cfg key p justify d (refused \<or> payload_refused) commits hs st)"

text \<open>Step 9 and the pending limit, then the rest.\<close>

definition place_proposal ::
  "'st consensus_store_ops \<Rightarrow> crypto \<Rightarrow> hotstuff_config \<Rightarrow> epoch_vote_key \<Rightarrow> proposal
     \<Rightarrow> quorum_certificate \<Rightarrow> block_payload option \<Rightarrow> digest \<Rightarrow> bool \<Rightarrow> hotstuff \<Rightarrow> 'st
     \<Rightarrow> ((hs_exception + proposal_result) \<times> hotstuff \<times> 'st) option" where
  "place_proposal ops cr cfg key p justify payload d refused hs st =
     (case chain_position cfg hs p of
        WrongHeight \<Rightarrow> Some (Inr (rejected ParentQcMismatch refused), hs, st)
      | ParentUnknown \<Rightarrow>
          Some (Inr (rejected MissingParent refused), hold_orphan p justify payload hs, st)
      | Linked \<Rightarrow>
          if \<not> smap_has (hs_blocks hs) d \<and> pending_count hs \<ge> kMaxPendingProposals
          then Some (Inr (rejected PendingLimit refused), hs, st)
          else accept_proposal ops cr cfg key p justify payload d refused hs st)"

definition receive_proposal ::
  "'st consensus_store_ops \<Rightarrow> crypto \<Rightarrow> hotstuff_config \<Rightarrow> epoch_vote_key \<Rightarrow> proposal
     \<Rightarrow> quorum_certificate \<Rightarrow> block_payload option \<Rightarrow> hotstuff \<Rightarrow> 'st
     \<Rightarrow> ((hs_exception + proposal_result) \<times> hotstuff \<times> 'st) option" where
  "receive_proposal ops cr cfg key p justify payload hs st =
     (case proposal_precheck cr cfg hs p justify of
        Some f \<Rightarrow> Some (Inr (rejected f False), hs, st)
      | None \<Rightarrow>
          (let hs = hs\<lparr>hs_current_view := max (hs_current_view hs) (qc_view justify + 1)\<rparr>
           in case proposal_view_check cfg hs p of
                Some f \<Rightarrow> Some (Inr (rejected f False), hs, st)
              | None \<Rightarrow>
                  (let refused = transition_refused cfg p payload;
                       d = proposal_digest cr p
                   in case map_of (hs_accepted_by_view hs) (p_view p) of
                        Some seen \<Rightarrow>
                          if seen \<noteq> d
                          then Some (Inr (rejected Equivocation refused),
                                 hs\<lparr>hs_evidence := hs_evidence hs @
                                   [\<lparr>ev_node = p_leader p, ev_view = p_view p, ev_first = seen,
                                     ev_second = d, ev_is_vote = False\<rparr>]\<rparr>, st)
                          else place_proposal ops cr cfg key p justify payload d refused hs st
                      | None \<Rightarrow> place_proposal ops cr cfg key p justify payload d refused hs st)))"

section \<open>Votes and timeouts\<close>

text \<open>A ledger of the view, created empty on first use.\<close>

definition view_ledger :: "(u64, (node_id, 'm) smap) smap \<Rightarrow> u64 \<Rightarrow> (node_id, 'm) smap" where
  "view_ledger ledgers view = (case map_of ledgers view of None \<Rightarrow> [] | Some l \<Rightarrow> l)"

definition vote_precheck ::
  "crypto \<Rightarrow> hotstuff_config \<Rightarrow> hotstuff \<Rightarrow> vote \<Rightarrow> consensus_failure option" where
  "vote_precheck cr cfg hs v =
     (if hs_failed hs \<or> \<not> hs_synced hs then Some NotSynced
      else if v_consensus_ruleset v \<noteq> cfg_consensus_ruleset cfg then Some RulesetMismatch
      else if v_network_id v \<noteq> cfg_network_id cfg then Some NetworkMismatch
      else if v_epoch v \<noteq> cfg_epoch cfg then Some EpochMismatch
      else case view_window_failure hs (v_view v) of
             Some f \<Rightarrow> Some f
           | None \<Rightarrow>
               (case map_of (cfg_vote_keys cfg) (v_voter v) of
                  None \<Rightarrow> Some UnknownSigner
                | Some key \<Rightarrow>
                    if verify_digest cr key (vote_digest cr v) (v_signature v) then None
                    else Some InvalidSignature))"

definition certificate_of_votes :: "vote \<Rightarrow> (node_id \<times> vote) list \<Rightarrow> quorum_certificate" where
  "certificate_of_votes v matching =
     \<lparr>qc_format_version = kQcFormatVersion, qc_consensus_ruleset = v_consensus_ruleset v,
      qc_network_id = v_network_id v, qc_epoch = v_epoch v, qc_height = v_height v,
      qc_view = v_view v, qc_proposal_digest = v_proposal_digest v,
      qc_signers = map (\<lambda>(n, e). \<lparr>qs_node_id = v_voter e, qs_signature = v_signature e\<rparr>) matching\<rparr>"

text \<open>The part of \<^verbatim>\<open>receive_vote\<close> after the vote entered its ledger.\<close>

definition count_votes ::
  "hotstuff_config \<Rightarrow> hotstuff \<Rightarrow> vote \<Rightarrow> (node_id, vote) smap \<Rightarrow> quorum_certificate collected \<times> hotstuff" where
  "count_votes cfg hs v ledger =
     (let matching = filter (\<lambda>(n, e). v_proposal_digest e = v_proposal_digest v \<and>
                                       v_height e = v_height v) ledger;
          formed_key = (v_view v, v_height v, v_proposal_digest v)
      in if length matching < cfg_quorum cfg then (Counted, hs)
         else if formed_key \<in> hs_formed_qcs hs then (Counted, hs)
         else let certificate = certificate_of_votes v matching;
                  hs = advance_high_qc certificate
                    (hs\<lparr>hs_formed_qcs := insert formed_key (hs_formed_qcs hs),
                        hs_qc_by_block :=
                          smap_put (qc_proposal_digest certificate) certificate (hs_qc_by_block hs)\<rparr>)
              in (Formed certificate,
                  hs\<lparr>hs_current_view := max (hs_current_view hs) (v_view v + 1)\<rparr>))"

definition receive_vote ::
  "crypto \<Rightarrow> hotstuff_config \<Rightarrow> vote \<Rightarrow> hotstuff \<Rightarrow> quorum_certificate collected \<times> hotstuff" where
  "receive_vote cr cfg v hs =
     (case vote_precheck cr cfg hs v of
        Some f \<Rightarrow> (Refused f, hs)
      | None \<Rightarrow>
          (let ledger = view_ledger (hs_votes_by_view hs) (v_view v)
           in case map_of ledger (v_voter v) of
                Some existing \<Rightarrow>
                  if v_proposal_digest existing = v_proposal_digest v then (Counted, hs)
                  else (Refused DuplicateSigner,
                        hs\<lparr>hs_evidence := hs_evidence hs @
                             [\<lparr>ev_node = v_voter v, ev_view = v_view v,
                               ev_first = v_proposal_digest existing,
                               ev_second = v_proposal_digest v, ev_is_vote = True\<rparr>]\<rparr>)
              | None \<Rightarrow>
                  (let ledger = smap_put (v_voter v) v ledger
                   in count_votes cfg
                        (hs\<lparr>hs_votes_by_view := smap_put (v_view v) ledger (hs_votes_by_view hs)\<rparr>)
                        v ledger)))"

text \<open>\<^verbatim>\<open>synchronize_view\<close>: \<open>highest\<close> is filled in ascending view order.\<close>

definition highest_timeouts :: "hotstuff \<Rightarrow> (node_id, u64) smap" where
  "highest_timeouts hs =
     foldl (\<lambda>h (view, ledger). foldl (\<lambda>h (node, t). smap_put node view h) h ledger) []
       (filter (\<lambda>(view, ledger). view > hs_current_view hs) (hs_timeouts_by_view hs))"

definition synchronize_view :: "hotstuff_config \<Rightarrow> hotstuff \<Rightarrow> hotstuff" where
  "synchronize_view cfg hs =
     (let members = length (cfg_leader_order cfg);
          witnesses = members - cfg_quorum cfg + 1;
          highest = highest_timeouts hs;
          views = rev (sort (map snd highest))
      in if cfg_quorum cfg > members then hs
         else if length highest < witnesses then hs
         else hs\<lparr>hs_current_view := max (hs_current_view hs) (views ! (witnesses - 1))\<rparr>)"

definition timeout_precheck ::
  "crypto \<Rightarrow> hotstuff_config \<Rightarrow> hotstuff \<Rightarrow> timeout_vote \<Rightarrow> consensus_failure option" where
  "timeout_precheck cr cfg hs t =
     (if hs_failed hs \<or> \<not> hs_synced hs then Some NotSynced
      else if t_consensus_ruleset t \<noteq> cfg_consensus_ruleset cfg then Some RulesetMismatch
      else if t_network_id t \<noteq> cfg_network_id cfg then Some NetworkMismatch
      else if t_epoch t \<noteq> cfg_epoch cfg then Some EpochMismatch
      else case view_window_failure hs (t_view t) of
             Some f \<Rightarrow> Some f
           | None \<Rightarrow>
               (case map_of (cfg_vote_keys cfg) (t_voter t) of
                  None \<Rightarrow> Some UnknownSigner
                | Some key \<Rightarrow>
                    if verify_digest cr key (timeout_vote_digest cr t) (t_signature t) then None
                    else Some InvalidSignature))"

definition certificate_of_timeouts ::
  "hotstuff_config \<Rightarrow> u64 \<Rightarrow> (node_id, timeout_vote) smap \<Rightarrow> timeout_certificate" where
  "certificate_of_timeouts cfg view ledger =
     \<lparr>tc_consensus_ruleset = cfg_consensus_ruleset cfg, tc_network_id = cfg_network_id cfg,
      tc_epoch = cfg_epoch cfg, tc_view = view,
      tc_signers = map (\<lambda>(n, e). \<lparr>ts_node_id = n, ts_high_qc_digest = t_high_qc_digest e,
                                   ts_signature = t_signature e\<rparr>) ledger\<rparr>"

definition receive_timeout ::
  "crypto \<Rightarrow> hotstuff_config \<Rightarrow> timeout_vote \<Rightarrow> hotstuff \<Rightarrow> timeout_certificate collected \<times> hotstuff" where
  "receive_timeout cr cfg t hs =
     (case timeout_precheck cr cfg hs t of
        Some f \<Rightarrow> (Refused f, hs)
      | None \<Rightarrow>
          (let ledger = view_ledger (hs_timeouts_by_view hs) (t_view t)
           in if smap_has ledger (t_voter t) then (Counted, hs)
              else let ledger = smap_put (t_voter t) t ledger;
                       hs = synchronize_view cfg
                              (hs\<lparr>hs_timeouts_by_view :=
                                    smap_put (t_view t) ledger (hs_timeouts_by_view hs)\<rparr>)
                   in if length ledger < cfg_quorum cfg then (Counted, hs)
                      else if t_view t \<in> hs_formed_tcs hs then (Counted, hs)
                      else (Formed (certificate_of_timeouts cfg (t_view t) ledger),
                            hs\<lparr>hs_formed_tcs := insert (t_view t) (hs_formed_tcs hs),
                               hs_current_view := max (hs_current_view hs) (t_view t + 1)\<rparr>)))"

section \<open>Proposing and timing out\<close>

definition make_proposal ::
  "crypto \<Rightarrow> hotstuff_config \<Rightarrow> hotstuff \<Rightarrow> digest \<Rightarrow> digest \<Rightarrow> digest \<Rightarrow> consensus_failure + proposal" where
  "make_proposal cr cfg hs previous_state_root proposed_state_root transitions_digest =
     (let parent = qc_proposal_digest (hs_high_qc hs);
          height = (if parent = cfg_genesis_digest cfg then Some 1
                    else map_option (\<lambda>b. p_height (br_proposal b) + 1) (map_of (hs_blocks hs) parent))
      in if hs_failed hs \<or> \<not> hs_synced hs then Inl NotSynced
         else if leader_at (cfg_leader_order cfg) (hs_current_view hs) \<noteq> Some (cfg_self cfg)
           then Inl NotLeader
         else case height of
                None \<Rightarrow> Inl MissingParent
              | Some h \<Rightarrow> Inr
                  \<lparr>p_security_ruleset = cfg_security_ruleset cfg,
                   p_consensus_ruleset = cfg_consensus_ruleset cfg,
                   p_network_id = cfg_network_id cfg, p_epoch = cfg_epoch cfg, p_height = h,
                   p_view = hs_current_view hs, p_leader = cfg_self cfg, p_parent_digest = parent,
                   p_justify_qc_digest = qc_digest cr (hs_high_qc hs),
                   p_previous_state_root = previous_state_root,
                   p_proposed_state_root = proposed_state_root,
                   p_transitions_digest = transitions_digest, p_timestamp_hint = 0\<rparr>)"

definition make_timeout_vote ::
  "crypto \<Rightarrow> hotstuff_config \<Rightarrow> epoch_vote_key \<Rightarrow> hotstuff \<Rightarrow> hs_exception + timeout_vote" where
  "make_timeout_vote cr cfg key hs =
     (if hs_failed hs \<or> \<not> hs_synced hs then Inl NotSyncedError
      else let hq = qc_digest cr (hs_high_qc hs)
           in case sign_digest cr key
                     (timeout_vote_signing_digest cr (cfg_consensus_ruleset cfg)
                       (cfg_network_id cfg) (cfg_epoch cfg) (hs_current_view hs) hq (cfg_self cfg)) of
                None \<Rightarrow> Inl SigningKeyInvalid
              | Some s \<Rightarrow> Inr
                  \<lparr>t_consensus_ruleset = cfg_consensus_ruleset cfg,
                   t_network_id = cfg_network_id cfg, t_epoch = cfg_epoch cfg,
                   t_view = hs_current_view hs, t_high_qc_digest = hq, t_voter = cfg_self cfg,
                   t_signature = s\<rparr>)"

section \<open>Catch-up\<close>

definition adopt_position ::
  "hotstuff_config \<Rightarrow> hotstuff \<Rightarrow> proposal \<Rightarrow> bool \<Rightarrow> consensus_failure option" where
  "adopt_position cfg hs p known =
     (if p_parent_digest p = cfg_genesis_digest cfg
      then (if p_height p \<noteq> 1 then Some ParentQcMismatch else None)
      else case map_of (hs_blocks hs) (p_parent_digest p) of
             Some b \<Rightarrow>
               if p_height p \<noteq> p_height (br_proposal b) + 1 then Some ParentQcMismatch else None
           | None \<Rightarrow>
               if \<not> known \<and> (hs_anchor_adopted hs \<or> hs_blocks hs \<noteq> [] \<and> \<not> hs_restored hs)
               then Some MissingParent else None)"

definition adopt_into_chain ::
  "hotstuff_config \<Rightarrow> digest \<Rightarrow> proposal \<Rightarrow> quorum_certificate \<Rightarrow> quorum_certificate \<Rightarrow> hotstuff \<Rightarrow> hotstuff" where
  "adopt_into_chain cfg d p justify certifying hs =
     (let known = smap_has (hs_blocks hs) d;
          anchor = \<not> known \<and> p_parent_digest p \<noteq> cfg_genesis_digest cfg \<and>
                   \<not> smap_has (hs_blocks hs) (p_parent_digest p);
          kept = (case map_of (hs_blocks hs) d of None \<Rightarrow> None | Some b \<Rightarrow> br_payload b)
      in advance_high_qc certifying (advance_high_qc justify
           (hs\<lparr>hs_anchor_adopted := hs_anchor_adopted hs \<or> anchor,
               hs_blocks := smap_put d \<lparr>br_proposal = p, br_justify = justify, br_digest = d,
                                         br_payload = kept\<rparr> (hs_blocks hs),
               hs_qc_by_block := smap_put d certifying
                 (smap_put (qc_proposal_digest justify) justify (hs_qc_by_block hs)),
               hs_accepted_by_view := smap_put (p_view p) d (hs_accepted_by_view hs)\<rparr>)))"

definition adopt_check ::
  "crypto \<Rightarrow> hotstuff_config \<Rightarrow> hotstuff \<Rightarrow> proposal \<Rightarrow> quorum_certificate \<Rightarrow> quorum_certificate
     \<Rightarrow> consensus_failure option" where
  "adopt_check cr cfg hs p justify certifying =
     (let d = proposal_digest cr p; known = smap_has (hs_blocks hs) d
      in if hs_failed hs then Some NotSynced
         else case certified_block_failure cr cfg p justify certifying of
                Some f \<Rightarrow> Some f
              | None \<Rightarrow>
                  (case adopt_position cfg hs p known of
                     Some f \<Rightarrow> Some f
                   | None \<Rightarrow>
                       if (case map_of (hs_accepted_by_view hs) (p_view p) of
                             None \<Rightarrow> False | Some seen \<Rightarrow> seen \<noteq> d) then Some Equivocation
                       else if \<not> known \<and> pending_count hs \<ge> kMaxPendingProposals
                         then Some PendingLimit
                       else None))"

definition adopt_certified_block ::
  "'st consensus_store_ops \<Rightarrow> crypto \<Rightarrow> hotstuff_config \<Rightarrow> proposal \<Rightarrow> quorum_certificate
     \<Rightarrow> quorum_certificate \<Rightarrow> consensus_commit list \<Rightarrow> hotstuff \<Rightarrow> 'st
     \<Rightarrow> (consensus_failure option \<times> consensus_commit list \<times> hotstuff \<times> 'st) option" where
  "adopt_certified_block ops cr cfg p justify certifying commits_out hs st =
     (case adopt_check cr cfg hs p justify certifying of
        Some f \<Rightarrow> Some (Some f, commits_out, hs, st)
      | None \<Rightarrow>
          (case apply_chain_rules ops cr cfg
                  (adopt_into_chain cfg (proposal_digest cr p) p justify certifying hs) st
                  certifying commits_out of
             None \<Rightarrow> None
           | Some (hs, st, commits) \<Rightarrow> Some (None, commits, hs, st)))"

definition take_linkable_orphan ::
  "hotstuff_config \<Rightarrow> hotstuff \<Rightarrow> orphan_proposal option \<times> hotstuff" where
  "take_linkable_orphan cfg hs =
     (case hs_orphan hs of
        None \<Rightarrow> (None, hs)
      | Some orph \<Rightarrow>
          (let parent = p_parent_digest (or_proposal orph)
           in if parent \<noteq> cfg_genesis_digest cfg \<and> \<not> smap_has (hs_blocks hs) parent then (None, hs)
              else (Some orph, hs\<lparr>hs_orphan := None\<rparr>)))"

text \<open>\<^verbatim>\<open>certified_page_after\<close>: \<open>n\<close> is the room left on the page.\<close>

definition page_linked :: "crypto \<Rightarrow> (proposal \<times> quorum_certificate) list \<Rightarrow> proposal \<Rightarrow> bool" where
  "page_linked cr chain p \<longleftrightarrow>
     chain = [] \<or> p_parent_digest p = proposal_digest cr (fst (last chain))"

fun page_committed ::
  "nat \<Rightarrow> crypto \<Rightarrow> hotstuff \<Rightarrow> u64 \<Rightarrow> (proposal \<times> quorum_certificate) list \<Rightarrow> quorum_certificate
     \<Rightarrow> (proposal \<times> quorum_certificate) list \<times> quorum_certificate" where
  "page_committed 0 cr hs height chain certifying = (chain, certifying)"
| "page_committed (Suc n) cr hs height chain certifying =
     (if height > hs_last_committed_height hs then (chain, certifying)
      else case map_of (hs_committed_by_height hs) height of
             None \<Rightarrow> (chain, certifying)
           | Some d \<Rightarrow>
               (case (map_of (hs_blocks hs) d, map_of (hs_qc_by_block hs) d) of
                  (Some b, Some q) \<Rightarrow>
                    if page_linked cr chain (br_proposal b)
                    then page_committed n cr hs (height + 1)
                           (chain @ [(br_proposal b, br_justify b)]) q
                    else (chain, certifying)
                | _ \<Rightarrow> (chain, certifying)))"

fun page_uncommitted ::
  "crypto \<Rightarrow> hotstuff \<Rightarrow> (proposal \<times> quorum_certificate) list
     \<Rightarrow> (proposal \<times> quorum_certificate) list \<Rightarrow> quorum_certificate
     \<Rightarrow> (proposal \<times> quorum_certificate) list \<times> quorum_certificate" where
  "page_uncommitted cr hs [] chain certifying = (chain, certifying)"
| "page_uncommitted cr hs ((p, justify) # rest) chain certifying =
     (let d = proposal_digest cr p
      in if length chain \<ge> kMaxSyncChainBlocks \<or> \<not> page_linked cr chain p then (chain, certifying)
         else if d = qc_proposal_digest (hs_high_qc hs)
           then page_uncommitted cr hs rest (chain @ [(p, justify)]) (hs_high_qc hs)
         else case map_of (hs_qc_by_block hs) d of
                None \<Rightarrow> (chain, certifying)
              | Some q \<Rightarrow> page_uncommitted cr hs rest (chain @ [(p, justify)]) q)"

definition empty_qc :: quorum_certificate where
  "empty_qc = \<lparr>qc_format_version = 0, qc_consensus_ruleset = 0, qc_network_id = 0, qc_epoch = 0,
     qc_height = 0, qc_view = 0, qc_proposal_digest = 0, qc_signers = []\<rparr>"

definition certified_page_after ::
  "crypto \<Rightarrow> hotstuff_config \<Rightarrow> hotstuff \<Rightarrow> u64 \<Rightarrow> certified_chain option" where
  "certified_page_after cr cfg hs after =
     (let (chain, certifying) = page_committed kMaxSyncChainBlocks cr hs (after + 1) [] empty_qc
      in if chain = [] then None
         else if p_height (fst (last chain)) = hs_last_committed_height hs
         then (case page_uncommitted cr hs (uncommitted_chain cfg hs) chain certifying of
                 (chain, certifying) \<Rightarrow>
                   Some \<lparr>cc_chain = chain, cc_certifying = certifying\<rparr>)
         else Some \<lparr>cc_chain = chain, cc_certifying = certifying\<rparr>)"

definition children_of :: "hotstuff \<Rightarrow> digest \<Rightarrow> block_record list" where
  "children_of hs parent =
     filter (\<lambda>b. p_parent_digest (br_proposal b) = parent \<and> qc_proposal_digest (br_justify b) = parent)
       (map snd (hs_blocks hs))"

text \<open>The first hit of the two nested loops.\<close>

definition commit_proof :: "hotstuff \<Rightarrow> digest \<Rightarrow> commit_proof option" where
  "commit_proof hs d =
     (case map_of (hs_blocks hs) d of
        None \<Rightarrow> None
      | Some b0 \<Rightarrow>
          if d \<notin> hs_committed_digests hs then None
          else let proofs =
                 [\<lparr>cp_chain =
                     [\<lparr>cb_proposal = br_proposal b0, cb_justify = br_justify b0\<rparr>,
                      \<lparr>cb_proposal = br_proposal b1, cb_justify = br_justify b1\<rparr>,
                      \<lparr>cb_proposal = br_proposal b2, cb_justify = br_justify b2\<rparr>],
                   cp_certifying = q\<rparr>.
                  b1 \<leftarrow> children_of hs d, b2 \<leftarrow> children_of hs (br_digest b1),
                  q \<leftarrow> (case map_of (hs_qc_by_block hs) (br_digest b2) of None \<Rightarrow> [] | Some q \<Rightarrow> [q])]
               in case proofs of [] \<Rightarrow> None | pr # _ \<Rightarrow> Some pr)"

end
