(* ===== verification/Hotstuff_Replica.thy ===== *)
theory Hotstuff_Replica
  imports Hotstuff_Service
begin

text \<open>
  One replica over its whole life: the executions of a HotStuff service and its store, with
  restarts, disk failures and validators that change their mind, as an inductive relation with a
  ghost log of the votes that left the node. The locale of the store contract carries the
  invariants: votes move to strictly higher views across restarts, each vote obeys the parent and
  justify rules, and the locks recorded with the votes never fall.
\<close>

section \<open>What the vote log records\<close>

text \<open>A certificate the replica may act on: the genesis anchor or a validated one.\<close>

definition qc_accepted :: "crypto \<Rightarrow> hotstuff_config \<Rightarrow> quorum_certificate \<Rightarrow> bool" where
  "qc_accepted cr cfg q \<longleftrightarrow> is_genesis_justify cfg q \<or> valid_qc cr cfg q"

text \<open>A block with the certificate it ships with.\<close>

definition justified :: "crypto \<Rightarrow> hotstuff_config \<Rightarrow> proposal \<times> quorum_certificate \<Rightarrow> bool" where
  "justified cr cfg = (\<lambda>(p, j).
     p_consensus_ruleset p = cfg_consensus_ruleset cfg \<and> p_network_id p = cfg_network_id cfg \<and>
     p_epoch p = cfg_epoch cfg \<and> qc_digest cr j = p_justify_qc_digest p \<and>
     p_parent_digest p = qc_proposal_digest j \<and> qc_accepted cr cfg j)"

definition known_blocks :: "hotstuff \<Rightarrow> (proposal \<times> quorum_certificate) set" where
  "known_blocks hs = (\<lambda>(d, b). (br_proposal b, br_justify b)) ` set (hs_blocks hs)"

record vote_entry =
  ve_proposal :: proposal
  ve_justify :: quorum_certificate
  ve_locked :: quorum_certificate
  ve_known :: "(proposal \<times> quorum_certificate) set"

text \<open>A walk over parent digests through known blocks.\<close>

inductive parent_path ::
  "crypto \<Rightarrow> (proposal \<times> quorum_certificate) set \<Rightarrow> digest \<Rightarrow> digest \<Rightarrow> bool"
  for cr known where
  path_here: "parent_path cr known d d"
| path_up: "(p, j) \<in> known \<Longrightarrow> proposal_digest cr p = d \<Longrightarrow>
    parent_path cr known (p_parent_digest p) a \<Longrightarrow> parent_path cr known d a"

lemma parent_path_mono: "parent_path cr K d a \<Longrightarrow> K \<subseteq> K' \<Longrightarrow> parent_path cr K' d a"
  by (induction rule: parent_path.induct) (auto intro: parent_path.intros)

text \<open>The law of one vote: the parent is the justified block, at the height below; the lock is at
  least the parent's justify; and the block extends the lock or its justify is newer.\<close>

definition vote_law :: "crypto \<Rightarrow> hotstuff_config \<Rightarrow> vote_entry \<Rightarrow> bool" where
  "vote_law cr cfg e \<longleftrightarrow>
     (\<forall>b \<in> ve_known e. justified cr cfg b) \<and> (ve_proposal e, ve_justify e) \<in> ve_known e \<and>
     (qc_view (ve_justify e) + 1 \<le> p_view (ve_proposal e)) \<and> 0 < p_view (ve_proposal e) \<and>
     qc_accepted cr cfg (ve_locked e) \<and>
     (if p_parent_digest (ve_proposal e) = cfg_genesis_digest cfg
      then p_height (ve_proposal e) = 1
      else (\<exists>(p, j) \<in> ve_known e. proposal_digest cr p = p_parent_digest (ve_proposal e) \<and>
              p_height (ve_proposal e) = p_height p + 1) \<and>
           (\<exists>(p, j) \<in> ve_known e. proposal_digest cr p = p_parent_digest (ve_proposal e) \<and>
              qc_view j \<le> qc_view (ve_locked e))) \<and>
     (qc_proposal_digest (ve_locked e) = cfg_genesis_digest cfg \<or>
      parent_path cr (ve_known e) (p_parent_digest (ve_proposal e)) (qc_proposal_digest (ve_locked e)) \<or>
      qc_view (ve_locked e) < qc_view (ve_justify e))"

definition later_vote :: "vote_entry \<Rightarrow> vote_entry \<Rightarrow> bool" where
  "later_vote e f \<longleftrightarrow>
     p_view (ve_proposal e) < p_view (ve_proposal f) \<and> qc_view (ve_locked e) \<le> qc_view (ve_locked f)"

definition log_law :: "crypto \<Rightarrow> hotstuff_config \<Rightarrow> vote_entry list \<Rightarrow> bool" where
  "log_law cr cfg log \<longleftrightarrow> list_all (vote_law cr cfg) log \<and> sorted_wrt later_vote log"

section \<open>Runs\<close>

text \<open>The validators answer as they like from one call to the next.\<close>

definition with_validators ::
  "(digest \<Rightarrow> bool) option \<Rightarrow> (proposal \<Rightarrow> block_payload \<Rightarrow> bool) option \<Rightarrow> hotstuff_config \<Rightarrow> hotstuff_config" where
  "with_validators tv pv cfg = cfg\<lparr>cfg_transition_validator := tv, cfg_payload_validator := pv\<rparr>"

definition vote_entries ::
  "proposal \<Rightarrow> quorum_certificate \<Rightarrow> hotstuff \<Rightarrow> hotstuff \<Rightarrow> hs_exception + proposal_result \<Rightarrow> vote_entry list" where
  "vote_entries p j hs hs' r =
     (case r of
        Inl _ \<Rightarrow> []
      | Inr res \<Rightarrow>
          (case pr_vote res of
             None \<Rightarrow> []
           | Some v \<Rightarrow> [\<lparr>ve_proposal = p, ve_justify = j, ve_locked = hs_locked_qc hs',
                          ve_known = insert (p, j) (known_blocks hs)\<rparr>]))"

text \<open>A run starts on a store that never held a state of the epoch. The rule \<open>disk\<close> is a crash of the
  machine: what a load gave before it, another possible result, or a damaged record.\<close>

inductive replica_run ::
  "'st consensus_store_ops \<Rightarrow> ('st \<Rightarrow> bool) \<Rightarrow> (u64 \<Rightarrow> 'st \<Rightarrow> hotstuff_state loaded set) \<Rightarrow> crypto
     \<Rightarrow> hotstuff_config \<Rightarrow> epoch_vote_key \<Rightarrow> hotstuff \<Rightarrow> 'st \<Rightarrow> vote_entry list \<Rightarrow> bool"
  for ops store_ok possible cr cfg key where
  start: "store_ok st \<Longrightarrow> possible (cfg_epoch cfg) st = {Absent} \<Longrightarrow>
    hotstuff_service ops cr cfg st = Inr hs \<Longrightarrow> replica_run ops store_ok possible cr cfg key hs st []"
| proposal: "replica_run ops store_ok possible cr cfg key hs st log \<Longrightarrow>
    receive_proposal ops cr (with_validators tv pv cfg) key p j payload hs st = Some (r, hs', st') \<Longrightarrow>
    replica_run ops store_ok possible cr cfg key hs' st' (log @ vote_entries p j hs hs' r)"
| vote: "replica_run ops store_ok possible cr cfg key hs st log \<Longrightarrow>
    receive_vote cr cfg v hs = (c, hs') \<Longrightarrow> replica_run ops store_ok possible cr cfg key hs' st log"
| timeout: "replica_run ops store_ok possible cr cfg key hs st log \<Longrightarrow>
    receive_timeout cr cfg t hs = (tc, hs') \<Longrightarrow> replica_run ops store_ok possible cr cfg key hs' st log"
| adopt: "replica_run ops store_ok possible cr cfg key hs st log \<Longrightarrow>
    adopt_certified_block ops cr cfg p j q commits hs st = Some (f, commits', hs', st') \<Longrightarrow>
    replica_run ops store_ok possible cr cfg key hs' st' log"
| orphan: "replica_run ops store_ok possible cr cfg key hs st log \<Longrightarrow>
    take_linkable_orphan cfg hs = (orph, hs') \<Longrightarrow> replica_run ops store_ok possible cr cfg key hs' st log"
| sync: "replica_run ops store_ok possible cr cfg key hs st log \<Longrightarrow>
    replica_run ops store_ok possible cr cfg key (sync_to_certified floor hs) st log"
| disk: "replica_run ops store_ok possible cr cfg key hs st log \<Longrightarrow> store_ok st' \<Longrightarrow>
    possible (cfg_epoch cfg) st' \<subseteq> possible (cfg_epoch cfg) st \<union> {Corrupt} \<Longrightarrow>
    replica_run ops store_ok possible cr cfg key hs st' log"
| restart: "replica_run ops store_ok possible cr cfg key hs st log \<Longrightarrow>
    hotstuff_service ops cr cfg st = Inr hs' \<Longrightarrow> replica_run ops store_ok possible cr cfg key hs' st log"

section \<open>Frames of the operations\<close>

named_theorems replica_frame

lemma with_validators_simps [simp]:
  "cfg_context (with_validators tv pv cfg) = cfg_context cfg"
  "cfg_vote_keys (with_validators tv pv cfg) = cfg_vote_keys cfg"
  "cfg_epoch (with_validators tv pv cfg) = cfg_epoch cfg"
  "cfg_genesis_digest (with_validators tv pv cfg) = cfg_genesis_digest cfg"
  "cfg_consensus_ruleset (with_validators tv pv cfg) = cfg_consensus_ruleset cfg"
  "cfg_security_ruleset (with_validators tv pv cfg) = cfg_security_ruleset cfg"
  "cfg_network_id (with_validators tv pv cfg) = cfg_network_id cfg"
  "cfg_leader_order (with_validators tv pv cfg) = cfg_leader_order cfg"
  "is_genesis_justify (with_validators tv pv cfg) = is_genesis_justify cfg"
  "qc_accepted cr (with_validators tv pv cfg) = qc_accepted cr cfg"
  "justified cr (with_validators tv pv cfg) = justified cr cfg"
  "vote_law cr (with_validators tv pv cfg) = vote_law cr cfg"
  by (simp_all add: with_validators_def cfg_context_def is_genesis_justify_def qc_accepted_def
      justified_def vote_law_def fun_eq_iff)

text \<open>What a safety argument reads of a replica: the operations below leave all of it alone.\<close>

definition safety_core :: "hotstuff \<Rightarrow> bool \<times> u64 \<times> quorum_certificate \<times> (digest, block_record) smap" where
  "safety_core hs = (hs_failed hs, hs_last_voted_view hs, hs_locked_qc hs, hs_blocks hs)"

lemma advance_high_qc_core [replica_frame]: "safety_core (advance_high_qc q hs) = safety_core hs"
  by (simp add: advance_high_qc_def safety_core_def)

lemma hold_orphan_core [replica_frame]: "safety_core (hold_orphan p j pl hs) = safety_core hs"
  using advance_high_qc_core [of j hs]
  by (auto simp: hold_orphan_def Let_def safety_core_def)

lemma receive_vote_core [replica_frame]:
  "receive_vote cr cfg v hs = (c, hs') \<Longrightarrow> safety_core hs' = safety_core hs"
  by (auto simp: receive_vote_def count_votes_def Let_def safety_core_def advance_high_qc_def
      split: option.splits if_splits)

lemma synchronize_view_core [replica_frame]: "safety_core (synchronize_view cfg hs) = safety_core hs"
  by (simp add: synchronize_view_def Let_def safety_core_def)

lemma receive_timeout_core [replica_frame]:
  "receive_timeout cr cfg t hs = (c, hs') \<Longrightarrow> safety_core hs' = safety_core hs"
proof -
  have sync: "safety_core (synchronize_view cfg (hs\<lparr>hs_timeouts_by_view := l\<rparr>)) = safety_core hs" for l
    using synchronize_view_core [of cfg "hs\<lparr>hs_timeouts_by_view := l\<rparr>"]
    by (simp add: safety_core_def)
  assume "receive_timeout cr cfg t hs = (c, hs')"
  then show ?thesis
    using sync by (auto simp: receive_timeout_def Let_def safety_core_def split: option.splits if_splits)
qed

lemma take_linkable_orphan_core [replica_frame]:
  "take_linkable_orphan cfg hs = (orph, hs') \<Longrightarrow> safety_core hs' = safety_core hs"
  by (auto simp: take_linkable_orphan_def Let_def safety_core_def split: option.splits if_splits)

lemma commit_loop_core [replica_frame]:
  "commit_loop cr cfg hs commits chain = (hs', commits', b) \<Longrightarrow> safety_core hs' = safety_core hs"
  by (induction cr cfg hs commits chain rule: commit_loop.induct)
    (auto simp: safety_core_def split: option.splits)

section \<open>Blocks of a replica\<close>

definition blocks_ok :: "crypto \<Rightarrow> hotstuff_config \<Rightarrow> (digest, block_record) smap \<Rightarrow> bool" where
  "blocks_ok cr cfg blocks \<longleftrightarrow>
     (\<forall>(d, b) \<in> set blocks. br_digest b = d \<and> proposal_digest cr (br_proposal b) = d \<and>
        justified cr cfg (br_proposal b, br_justify b))"

lemma blocks_ok_subset: "blocks_ok cr cfg B \<Longrightarrow> set B' \<subseteq> set B \<Longrightarrow> blocks_ok cr cfg B'"
  by (auto simp: blocks_ok_def)

lemma blocks_ok_put:
  assumes "blocks_ok cr cfg B" and "justified cr cfg (p, j)"
  shows "blocks_ok cr cfg (smap_put (proposal_digest cr p)
    \<lparr>br_proposal = p, br_justify = j, br_digest = proposal_digest cr p, br_payload = pl\<rparr> B)"
  using assms set_smap_put_subset [of "proposal_digest cr p" _ B]
  by (fastforce simp: blocks_ok_def)

lemma blocks_ok_lookup:
  "blocks_ok cr cfg B \<Longrightarrow> map_of B d = Some b \<Longrightarrow>
     br_digest b = d \<and> proposal_digest cr (br_proposal b) = d \<and> justified cr cfg (br_proposal b, br_justify b)"
  by (drule map_of_SomeD) (auto simp: blocks_ok_def)

lemma extends_walk_sound:
  assumes "blocks_ok cr cfg B" and "extends_walk n locked genesis B d = Some True"
  shows "parent_path cr ((\<lambda>(d, b). (br_proposal b, br_justify b)) ` set B) d locked"
  using assms(2)
proof (induction n arbitrary: d)
  case (Suc n)
  show ?case
  proof (cases "d = locked")
    case False
    with Suc.prems obtain b where b: "map_of B d = Some b"
      and walk: "extends_walk n locked genesis B (p_parent_digest (br_proposal b)) = Some True"
      by (auto split: if_splits option.splits)
    have "(br_proposal b, br_justify b) \<in> (\<lambda>(d, b). (br_proposal b, br_justify b)) ` set B"
      using map_of_SomeD [OF b] by force
    then show ?thesis
      using blocks_ok_lookup [OF assms(1) b] Suc.IH [OF walk] by (auto intro: path_up)
  qed (simp add: path_here)
qed simp

lemma extends_locked_sound:
  assumes "blocks_ok cr cfg (hs_blocks hs)" and "extends_locked cfg' hs p = Some True"
  shows "qc_proposal_digest (hs_locked_qc hs) = cfg_genesis_digest cfg' \<or>
    parent_path cr (known_blocks hs) (p_parent_digest p) (qc_proposal_digest (hs_locked_qc hs))"
  using assms extends_walk_sound [OF assms(1)]
  by (auto simp: extends_locked_def known_blocks_def Let_def simp del: extends_walk.simps
      split: if_splits)

section \<open>Lock and commit rules\<close>

definition commit_effect :: "'st consensus_store_ops \<Rightarrow> 'st \<Rightarrow> 'st \<Rightarrow> bool" where
  "commit_effect ops st st' \<longleftrightarrow> st' = st \<or> (\<exists>c. st' = snd (store_commit ops c st))"

lemma commit_chain_cases:
  assumes "commit_chain ops cr cfg hs st b0 commits = Some (hs', st', commits')"
  obtains (known) "p_height (br_proposal b0) \<le> hs_last_committed_height hs" "hs' = hs" "st' = st"
      "commits' = commits"
  | (stopped) chain where "\<not> p_height (br_proposal b0) \<le> hs_last_committed_height hs"
      "ancestor_walk (Suc (length (hs_blocks hs))) (cfg_genesis_digest cfg)
         (hs_last_committed_height hs) (hs_blocks hs) b0 [] = Some chain"
      "commit_loop cr cfg hs commits chain = (hs', commits', False)" "st' = st"
  | (committed) chain hs1 where "\<not> p_height (br_proposal b0) \<le> hs_last_committed_height hs"
      "ancestor_walk (Suc (length (hs_blocks hs))) (cfg_genesis_digest cfg)
         (hs_last_committed_height hs) (hs_blocks hs) b0 [] = Some chain"
      "commit_loop cr cfg hs commits chain = (hs1, commits', True)" "hs' = prune_committed hs1"
      "st' = snd (store_commit ops (last commits') st)"
  using assms that
  by (auto simp: commit_chain_def simp del: ancestor_walk.simps
      split: if_splits option.splits prod.splits bool.splits)

lemma commit_chain_frame:
  assumes "commit_chain ops cr cfg hs st b0 commits = Some (hs', st', commits')"
  shows "hs_failed hs' = hs_failed hs" "hs_last_voted_view hs' = hs_last_voted_view hs"
    "hs_locked_qc hs' = hs_locked_qc hs" "set (hs_blocks hs') \<subseteq> set (hs_blocks hs)"
    "commit_effect ops st st'"
proof -
  have "hs_failed hs' = hs_failed hs \<and> hs_last_voted_view hs' = hs_last_voted_view hs \<and>
    hs_locked_qc hs' = hs_locked_qc hs \<and> set (hs_blocks hs') \<subseteq> set (hs_blocks hs) \<and>
    commit_effect ops st st'"
    using assms
    by (cases rule: commit_chain_cases)
      (auto simp: commit_effect_def prune_committed_def Let_def safety_core_def
        dest!: commit_loop_core)
  then show "hs_failed hs' = hs_failed hs" "hs_last_voted_view hs' = hs_last_voted_view hs"
    "hs_locked_qc hs' = hs_locked_qc hs" "set (hs_blocks hs') \<subseteq> set (hs_blocks hs)"
    "commit_effect ops st st'" by auto
qed

lemma raise_lock_simps [simp]:
  "hs_failed (raise_lock q hs) = hs_failed hs" "hs_last_voted_view (raise_lock q hs) = hs_last_voted_view hs"
  "hs_blocks (raise_lock q hs) = hs_blocks hs"
  by (simp_all add: raise_lock_def)

lemma raise_lock_view:
  "qc_view (hs_locked_qc hs) \<le> qc_view (hs_locked_qc (raise_lock q hs))"
  "qc_view q \<le> qc_view (hs_locked_qc (raise_lock q hs))"
  "hs_locked_qc (raise_lock q hs) \<in> {q, hs_locked_qc hs}"
  by (auto simp: raise_lock_def)

lemma apply_chain_rules_cases:
  assumes "apply_chain_rules ops cr cfg hs st j commits = Some (hs', st', commits')"
  obtains (no_parent) "map_of (hs_blocks hs) (qc_proposal_digest j) = None" "hs' = hs" "st' = st"
    "commits' = commits"
  | (lock) b2 where "map_of (hs_blocks hs) (qc_proposal_digest j) = Some b2"
      "hs' = raise_lock (br_justify b2) hs" "st' = st" "commits' = commits"
  | (commit) b2 b1 b0 where "map_of (hs_blocks hs) (qc_proposal_digest j) = Some b2"
      "map_of (hs_blocks hs) (qc_proposal_digest (br_justify b2)) = Some b1"
      "map_of (hs_blocks hs) (qc_proposal_digest (br_justify b1)) = Some b0"
      "commit_chain ops cr cfg (raise_lock (br_justify b2) hs) st b0 commits = Some (hs', st', commits')"
  using assms that by (auto simp: apply_chain_rules_def Let_def split: option.splits)

lemma apply_chain_rules_frame:
  assumes "apply_chain_rules ops cr cfg hs st j commits = Some (hs', st', commits')"
  shows "hs_failed hs' = hs_failed hs" "hs_last_voted_view hs' = hs_last_voted_view hs"
    "set (hs_blocks hs') \<subseteq> set (hs_blocks hs)" "commit_effect ops st st'"
    "qc_view (hs_locked_qc hs) \<le> qc_view (hs_locked_qc hs')"
proof -
  have "hs_failed hs' = hs_failed hs \<and> hs_last_voted_view hs' = hs_last_voted_view hs \<and>
    set (hs_blocks hs') \<subseteq> set (hs_blocks hs) \<and> commit_effect ops st st' \<and>
    qc_view (hs_locked_qc hs) \<le> qc_view (hs_locked_qc hs')"
    using assms
  proof (cases rule: apply_chain_rules_cases)
    case (commit b2 b1 b0)
    show ?thesis using commit_chain_frame [OF commit(4)] by (simp add: raise_lock_view)
  qed (simp_all add: commit_effect_def raise_lock_view)
  then show "hs_failed hs' = hs_failed hs" "hs_last_voted_view hs' = hs_last_voted_view hs"
    "set (hs_blocks hs') \<subseteq> set (hs_blocks hs)" "commit_effect ops st st'"
    "qc_view (hs_locked_qc hs) \<le> qc_view (hs_locked_qc hs')" by auto
qed

lemma apply_chain_rules_lock:
  assumes "apply_chain_rules ops cr cfg hs st j commits = Some (hs', st', commits')"
    and "blocks_ok cr cfg' (hs_blocks hs)" and "qc_accepted cr cfg' (hs_locked_qc hs)"
  shows "qc_accepted cr cfg' (hs_locked_qc hs')"
proof -
  have "qc_accepted cr cfg' (hs_locked_qc (raise_lock (br_justify b) hs))"
    if "map_of (hs_blocks hs) d = Some b" for d b
    using blocks_ok_lookup [OF assms(2) that] assms(3) raise_lock_view(3) [of "br_justify b" hs]
    by (auto simp: justified_def)
  with assms(1,3) show ?thesis
    by (cases rule: apply_chain_rules_cases) (simp_all add: commit_chain_frame(3))
qed

lemma apply_chain_rules_parent_lock:
  assumes "apply_chain_rules ops cr cfg hs st j commits = Some (hs', st', commits')"
    and "map_of (hs_blocks hs) (qc_proposal_digest j) = Some b"
  shows "qc_view (br_justify b) \<le> qc_view (hs_locked_qc hs')"
  using assms
  by (cases rule: apply_chain_rules_cases) (auto simp: raise_lock_view dest!: commit_chain_frame(3))

section \<open>Voting\<close>

definition chain_effect :: "'st consensus_store_ops \<Rightarrow> 'st \<Rightarrow> 'st \<Rightarrow> bool" where
  "chain_effect ops st st' \<longleftrightarrow> st' = st \<or> (\<exists>e ch. st' = snd (store_chain ops e ch st))"

lemma store_certified_chain_frame:
  assumes "store_certified_chain ops cr cfg hs st = (b, hs', st')"
  shows "safety_core hs' = safety_core hs" "chain_effect ops st st'" "hs_high_qc hs' = hs_high_qc hs"
proof -
  have "safety_core hs' = safety_core hs \<and> chain_effect ops st st' \<and> hs_high_qc hs' = hs_high_qc hs"
    using assms
    by (auto simp: store_certified_chain_def Let_def safety_core_def chain_effect_def
        split: if_splits prod.splits bool.splits intro: sym [OF snd_conv])
      (metis snd_conv)+
  then show "safety_core hs' = safety_core hs" "chain_effect ops st st'" "hs_high_qc hs' = hs_high_qc hs"
    by auto
qed

text \<open>The state a vote puts on disk.\<close>

definition pending_state :: "hotstuff_config \<Rightarrow> hotstuff \<Rightarrow> proposal \<Rightarrow> hotstuff_state" where
  "pending_state cfg hs p = (hotstuff_state_of cfg hs)\<lparr>s_last_voted_view := p_view p\<rparr>"

lemma pending_state_simps [simp]:
  "s_epoch (pending_state cfg hs p) = cfg_epoch cfg"
  "s_last_voted_view (pending_state cfg hs p) = p_view p"
  "s_locked_qc (pending_state cfg hs p) = hs_locked_qc hs"
  "s_high_qc (pending_state cfg hs p) = hs_high_qc hs"
  "s_consensus_ruleset (pending_state cfg hs p) = cfg_consensus_ruleset cfg"
  by (simp_all add: pending_state_def hotstuff_state_of_def)

lemma emit_vote_cases:
  assumes "emit_vote ops cr cfg key p d commits hs st = (r, hs', st')"
  obtains (chain_refused) "vote_entries p j hs0 hs' r = []" "safety_core hs' = safety_core hs"
      "chain_effect ops st st'"
  | (state_refused) st1 where "vote_entries p j hs0 hs' r = []" "safety_core hs' = safety_core hs"
      "chain_effect ops st st1" "store_before_vote ops (pending_state cfg hs p) st1 = (False, st')"
  | (voted) st1 where
      "vote_entries p j hs0 hs' r = [] \<or> vote_entries p j hs0 hs' r =
         [\<lparr>ve_proposal = p, ve_justify = j, ve_locked = hs_locked_qc hs,
           ve_known = insert (p, j) (known_blocks hs0)\<rparr>]"
      "safety_core hs' = safety_core (hs\<lparr>hs_last_voted_view := p_view p\<rparr>)"
      "chain_effect ops st st1" "store_before_vote ops (pending_state cfg hs p) st1 = (True, st')"
proof -
  obtain b hs1 st1 where s1: "store_certified_chain ops cr cfg hs st = (b, hs1, st1)"
    by (metis prod_cases3)
  note frame = store_certified_chain_frame [OF s1]
  have pend: "(hotstuff_state_of cfg hs1)\<lparr>s_last_voted_view := p_view p\<rparr> = pending_state cfg hs p"
    using frame by (simp add: pending_state_def hotstuff_state_of_def safety_core_def)
  obtain b2 st2 where s2: "store_before_vote ops (pending_state cfg hs p) st1 = (b2, st2)"
    by fastforce
  show thesis
  proof (cases b)
    case False
    with assms s1 frame show thesis
      by (intro chain_refused) (auto simp: emit_vote_def Let_def vote_entries_def)
  next
    case True
    show thesis
    proof (cases b2)
      case False
      with assms s1 s2 frame True pend show thesis
        by (intro state_refused [of st1]) (auto simp: emit_vote_def Let_def vote_entries_def)
    next
      case b2: True
      with assms s1 s2 frame True pend show thesis
        by (intro voted [of st1])
          (auto simp: emit_vote_def Let_def vote_entries_def safety_core_def split: option.splits)
    qed
  qed
qed

lemma vote_stage_cases:
  assumes "vote_stage ops cr cfg key p j d refused commits hs st = Some (r, hs', st')"
  obtains (withheld) "vote_entries p j hs0 hs' r = []" "hs' = hs" "st' = st"
  | (safe) "safe_node cfg hs p j = Some True"
      "emit_vote ops cr cfg key p d commits hs st = (r, hs', st')"
  using assms that
  by (auto simp: vote_stage_def Let_def vote_entries_def split: if_splits option.splits bool.splits)

lemma safe_node_sound:
  assumes "safe_node cfg' hs p j = Some True" and "blocks_ok cr cfg (hs_blocks hs)"
  shows "hs_last_voted_view hs < p_view p"
    and "qc_proposal_digest (hs_locked_qc hs) = cfg_genesis_digest cfg' \<or>
      parent_path cr (known_blocks hs) (p_parent_digest p) (qc_proposal_digest (hs_locked_qc hs)) \<or>
      qc_view (hs_locked_qc hs) < qc_view j"
  using assms extends_locked_sound [OF assms(2), of cfg' p]
  by (auto simp: safe_node_def split: if_splits option.splits bool.splits)

text \<open>A proposal either stops at a check, with the safety state untouched, or enters the chain.\<close>

lemma receive_proposal_cases:
  assumes "receive_proposal ops cr cfg key p j payload hs st = Some (r, hs', st')"
  obtains (stopped) "vote_entries p j hs0 hs' r = []" "safety_core hs' = safety_core hs" "st' = st"
  | (accepted) matched refused hs1 st1 commits hsv where
      "proposal_precheck cr cfg hs p j = None" "proposal_view_check cfg hsv p = None"
      "hsv = hs\<lparr>hs_current_view := max (hs_current_view hs) (qc_view j + 1)\<rparr>"
      "chain_position cfg hs p = Linked"
      "apply_chain_rules ops cr cfg (accept_block (proposal_digest cr p) p j matched hsv) st j [] =
         Some (hs1, st1, commits)"
      "vote_stage ops cr cfg key p j (proposal_digest cr p) refused commits hs1 st1 =
         Some (r, hs', st')"
proof -
  define hsv where "hsv = hs\<lparr>hs_current_view := max (hs_current_view hs) (qc_view j + 1)\<rparr>"
  have core: "safety_core hsv = safety_core hs" by (simp add: hsv_def safety_core_def)
  have pos: "chain_position cfg hsv p = chain_position cfg hs p"
    by (simp add: hsv_def chain_position_def)
  have rej: "vote_entries p j hs0 h (Inr (rejected f b)) = []" for h f b
    by (simp add: vote_entries_def rejected_def)
  have ev: "safety_core (hsv\<lparr>hs_evidence := x\<rparr>) = safety_core hs" for x
    using core by (simp add: safety_core_def)
  have place: thesis
    if ok: "proposal_precheck cr cfg hs p j = None" "proposal_view_check cfg hsv p = None"
      and run: "place_proposal ops cr cfg key p j payload (proposal_digest cr p) refused hsv st = Some (r, hs', st')"
    for refused
  proof (cases "chain_position cfg hs p")
    case Linked
    show thesis
    proof (cases "\<not> smap_has (hs_blocks hsv) (proposal_digest cr p) \<and> pending_count hsv \<ge> kMaxPendingProposals")
      case True
      then show thesis
        using run core Linked pos by (intro stopped) (auto simp: place_proposal_def rej)
    next
      case False
      then have acc: "accept_proposal ops cr cfg key p j payload (proposal_digest cr p) refused hsv st
          = Some (r, hs', st')"
        using run Linked pos by (auto simp: place_proposal_def)
      obtain matched pr where "judge_payload cr cfg p payload = (matched, pr)" by fastforce
      with acc show thesis
        using accepted [OF ok hsv_def Linked, of matched]
        by (auto simp: accept_proposal_def split: option.splits)
    qed
  next
    case WrongHeight
    then show thesis using run core pos by (intro stopped) (auto simp: place_proposal_def rej)
  next
    case ParentUnknown
    then show thesis
      using run core pos by (intro stopped) (auto simp: place_proposal_def rej hold_orphan_core)
  qed
  show thesis
  proof (cases "proposal_precheck cr cfg hs p j")
    case None
    show thesis
    proof (cases "proposal_view_check cfg hsv p")
      case None': None
      show thesis
        using assms None None' place ev core
        by (auto simp: receive_proposal_def Let_def rej hsv_def [symmetric]
            split: option.splits if_splits intro: stopped)
    next
      case (Some f)
      then show thesis
        using assms None core
        by (intro stopped) (auto simp: receive_proposal_def Let_def rej hsv_def [symmetric])
    qed
  next
    case (Some f)
    then show thesis using assms by (intro stopped) (auto simp: receive_proposal_def rej)
  qed
qed

lemma precheck_justified:
  "proposal_precheck cr cfg hs p j = None \<Longrightarrow> justified cr cfg (p, j)"
  by (auto simp: proposal_precheck_def justified_def qc_accepted_def split: if_splits)

lemma precheck_not_failed: "proposal_precheck cr cfg hs p j = None \<Longrightarrow> \<not> hs_failed hs"
  by (auto simp: proposal_precheck_def split: if_splits)

lemma view_check_bounds:
  "proposal_view_check cfg hs p = None \<Longrightarrow> hs_current_view hs \<le> p_view p"
  by (auto simp: proposal_view_check_def split: if_splits)

lemma accept_block_core:
  "hs_failed (accept_block d p j pl hs) = hs_failed hs"
  "hs_last_voted_view (accept_block d p j pl hs) = hs_last_voted_view hs"
  "hs_locked_qc (accept_block d p j pl hs) = hs_locked_qc hs"
  "\<exists>pl'. hs_blocks (accept_block d p j pl hs) =
     smap_put d \<lparr>br_proposal = p, br_justify = j, br_digest = d, br_payload = pl'\<rparr> (hs_blocks hs)"
  using advance_high_qc_core
  by (auto simp: accept_block_def Let_def advance_high_qc_def)

lemma accept_block_ok:
  assumes "blocks_ok cr cfg (hs_blocks hs)" and "justified cr cfg (p, j)"
  shows "blocks_ok cr cfg (hs_blocks (accept_block (proposal_digest cr p) p j pl hs))"
  using accept_block_core(4) [of "proposal_digest cr p" p j pl hs] blocks_ok_put [OF assms] by auto

lemma known_blocks_mono: "set (hs_blocks hs') \<subseteq> set (hs_blocks hs) \<Longrightarrow> known_blocks hs' \<subseteq> known_blocks hs"
  by (auto simp: known_blocks_def)

lemma known_blocks_accept:
  "known_blocks (accept_block d p j pl hs) \<subseteq> insert (p, j) (known_blocks hs)"
proof -
  obtain pl' where "hs_blocks (accept_block d p j pl hs) =
      smap_put d \<lparr>br_proposal = p, br_justify = j, br_digest = d, br_payload = pl'\<rparr> (hs_blocks hs)"
    using accept_block_core(4) by blast
  then show ?thesis
    using set_smap_put_subset [of d _ "hs_blocks hs"] by (fastforce simp: known_blocks_def)
qed

lemma known_blocks_lookup:
  assumes "map_of (hs_blocks hs) d = Some b"
  shows "(br_proposal b, br_justify b) \<in> known_blocks hs"
  unfolding known_blocks_def by (rule rev_image_eqI [OF map_of_SomeD [OF assms]]) simp

text \<open>The vote of an accepted proposal obeys the law.\<close>

lemma accepted_vote_law:
  assumes blocks: "blocks_ok cr cfg (hs_blocks hs)" and lock: "qc_accepted cr cfg (hs_locked_qc hs)"
    and pre: "proposal_precheck cr cfg' hs p j = None" and cfg': "cfg' = with_validators tv pv cfg"
    and view: "proposal_view_check cfg' hsv p = None"
    and hsv: "hsv = hs\<lparr>hs_current_view := max (hs_current_view hs) (qc_view j + 1)\<rparr>"
    and pos: "chain_position cfg' hs p = Linked"
    and rules: "apply_chain_rules ops cr cfg' (accept_block (proposal_digest cr p) p j pl hsv) st j [] =
      Some (hs1, st1, commits)"
    and safe: "safe_node cfg' hs1 p j = Some True"
  shows "vote_law cr cfg \<lparr>ve_proposal = p, ve_justify = j, ve_locked = hs_locked_qc hs1,
    ve_known = insert (p, j) (known_blocks hs)\<rparr>"
proof -
  let ?hsa = "accept_block (proposal_digest cr p) p j pl hsv"
  let ?K = "insert (p, j) (known_blocks hs)"
  have just: "justified cr cfg (p, j)" using precheck_justified [OF pre] cfg' by simp
  have hsv_blocks [simp]: "hs_blocks hsv = hs_blocks hs" "known_blocks hsv = known_blocks hs"
    "hs_locked_qc hsv = hs_locked_qc hs"
    by (simp_all add: hsv known_blocks_def)
  have oka: "blocks_ok cr cfg (hs_blocks ?hsa)" using accept_block_ok [of cr cfg hsv p j pl] blocks just by simp
  have ok1: "blocks_ok cr cfg (hs_blocks hs1)"
    using blocks_ok_subset [OF oka] apply_chain_rules_frame(3) [OF rules] by blast
  have known: "\<forall>b \<in> ?K. justified cr cfg b"
    using blocks just by (auto simp: known_blocks_def blocks_ok_def)
  have lock1: "qc_accepted cr cfg (hs_locked_qc hs1)"
    using apply_chain_rules_lock [OF rules oka] lock accept_block_core(3) by simp
  have sub: "known_blocks hs1 \<subseteq> ?K"
    using known_blocks_mono [OF apply_chain_rules_frame(3) [OF rules]]
      known_blocks_accept [of "proposal_digest cr p" p j pl hsv] by simp
  have ge: "qc_view j + 1 \<le> p_view p"
    using view_check_bounds [OF view] by (simp add: hsv)
  have pos_view: "0 < p_view p"
    using safe_node_sound(1) [OF safe ok1] by (rule le_less_trans [OF word_zero_le])
  have parent: "p_parent_digest p = qc_proposal_digest j" using just by (simp add: justified_def)
  have height: "if p_parent_digest p = cfg_genesis_digest cfg then p_height p = 1
    else (\<exists>(q, k) \<in> ?K. proposal_digest cr q = p_parent_digest p \<and> p_height p = p_height q + 1) \<and>
         (\<exists>(q, k) \<in> ?K. proposal_digest cr q = p_parent_digest p \<and> qc_view k \<le> qc_view (hs_locked_qc hs1))"
  proof (cases "p_parent_digest p = cfg_genesis_digest cfg")
    case False
    with pos cfg' obtain b where b: "map_of (hs_blocks hs) (p_parent_digest p) = Some b"
        "p_height p = p_height (br_proposal b) + 1"
      by (auto simp: chain_position_def split: if_splits option.splits)
    have "\<exists>b'. map_of (hs_blocks ?hsa) (p_parent_digest p) = Some b'"
      using accept_block_core(4) [of "proposal_digest cr p" p j pl hsv] b(1) by (auto simp: smap_get_put)
    then obtain b' where b': "map_of (hs_blocks ?hsa) (p_parent_digest p) = Some b'" by blast
    have "(br_proposal b', br_justify b') \<in> ?K"
      using known_blocks_lookup [OF b'] known_blocks_accept [of "proposal_digest cr p" p j pl hsv]
      by (auto simp del: insert_iff)
    moreover have "proposal_digest cr (br_proposal b') = p_parent_digest p \<and>
        qc_view (br_justify b') \<le> qc_view (hs_locked_qc hs1)"
      using apply_chain_rules_parent_lock [OF rules] b' parent blocks_ok_lookup [OF oka b'] by simp
    ultimately have "\<exists>(q, k) \<in> ?K. proposal_digest cr q = p_parent_digest p \<and>
        qc_view k \<le> qc_view (hs_locked_qc hs1)"
      by (intro rev_bexI [of "(br_proposal b', br_justify b')"]) simp_all
    moreover have "(br_proposal b, br_justify b) \<in> ?K" using known_blocks_lookup [OF b(1)] by simp
    then have "\<exists>(q, k) \<in> ?K. proposal_digest cr q = p_parent_digest p \<and> p_height p = p_height q + 1"
      by (rule rev_bexI) (use b blocks_ok_lookup [OF blocks b(1)] in simp)
    ultimately show ?thesis using False by (simp only: if_False simp_thms)
  qed (use pos cfg' in \<open>auto simp: chain_position_def split: if_splits\<close>)
  have "qc_proposal_digest (hs_locked_qc hs1) = cfg_genesis_digest cfg \<or>
      parent_path cr ?K (p_parent_digest p) (qc_proposal_digest (hs_locked_qc hs1)) \<or>
      qc_view (hs_locked_qc hs1) < qc_view j"
    using safe_node_sound(2) [OF safe ok1] parent_path_mono [OF _ sub] cfg' by auto
  with known lock1 ge pos_view height show ?thesis
    unfolding vote_law_def vote_entry.select_convs by (intro conjI insertI1)
qed

section \<open>Construction and catch-up\<close>

lemma certified_block_justified:
  "certified_block_failure cr cfg p j q = None \<Longrightarrow> justified cr cfg (p, j)"
  by (auto simp: certified_block_failure_def justified_def qc_accepted_def split: if_splits)

lemma restore_entry_frame:
  "hs_failed (restore_entry cr hs p j q) = hs_failed hs"
  "hs_last_voted_view (restore_entry cr hs p j q) = hs_last_voted_view hs"
  "hs_locked_qc (restore_entry cr hs p j q) = hs_locked_qc hs"
  "hs_blocks (restore_entry cr hs p j q) =
     smap_put (proposal_digest cr p) \<lparr>br_proposal = p, br_justify = j,
       br_digest = proposal_digest cr p, br_payload = None\<rparr> (hs_blocks hs)"
  by (simp_all add: restore_entry_def advance_high_qc_def Let_def)

lemma restore_loop_step:
  obtains (stop) "restore_loop cr cfg q prev hs ((p, j) # es) = hs"
  | (step) prev' q' where "certified_block_failure cr cfg p j q' = None"
      "restore_loop cr cfg q prev hs ((p, j) # es) =
         restore_loop cr cfg q prev' (restore_entry cr hs p j q') es"
proof -
  let ?q' = "case es of [] \<Rightarrow> q | (_, k) # _ \<Rightarrow> k"
  have "restore_loop cr cfg q prev hs ((p, j) # es) = hs \<or>
    certified_block_failure cr cfg p j ?q' = None \<and>
    restore_loop cr cfg q prev hs ((p, j) # es) =
      restore_loop cr cfg q (Some (proposal_digest cr p, p_height p)) (restore_entry cr hs p j ?q') es"
    unfolding restore_loop.simps Let_def by presburger
  then show thesis using that by blast
qed

lemma restore_loop_frame:
  "hs_failed (restore_loop cr cfg q prev hs es) = hs_failed hs \<and>
   hs_last_voted_view (restore_loop cr cfg q prev hs es) = hs_last_voted_view hs \<and>
   hs_locked_qc (restore_loop cr cfg q prev hs es) = hs_locked_qc hs \<and>
   (blocks_ok cr cfg (hs_blocks hs) \<longrightarrow> blocks_ok cr cfg (hs_blocks (restore_loop cr cfg q prev hs es)))"
proof (induction es arbitrary: prev hs)
  case (Cons e es)
  obtain p j where e: "e = (p, j)" by (cases e)
  show ?case
  proof (cases rule: restore_loop_step [of cr cfg q prev hs p j es])
    case stop
    then show ?thesis unfolding e by simp
  next
    case (step prev' q')
    have "blocks_ok cr cfg (hs_blocks hs) \<longrightarrow> blocks_ok cr cfg (hs_blocks (restore_entry cr hs p j q'))"
      using blocks_ok_put [OF _ certified_block_justified [OF step(1)]] by (simp add: restore_entry_frame(4))
    with Cons.IH [of prev' "restore_entry cr hs p j q'"] show ?thesis
      unfolding e step(2) by (simp add: restore_entry_frame(1-3))
  qed
qed simp

lemma hotstuff_service_cases:
  assumes "hotstuff_service ops cr cfg st = Inr hs"
  obtains (failed) "hs_failed hs" "hs_blocks hs = []"
  | (fresh) "load_state ops (cfg_epoch cfg) st = Absent" "hs = (hotstuff_fresh cfg)\<lparr>hs_synced := True\<rparr>"
  | (restored) s where "load_state ops (cfg_epoch cfg) st = Loaded s"
      "\<not> hs_failed hs" "hs_last_voted_view hs = s_last_voted_view s" "hs_locked_qc hs = s_locked_qc s"
      "blocks_ok cr cfg (hs_blocks hs)" "\<not> hs_synced hs"
proof (cases "load_state ops (cfg_epoch cfg) st")
  case (Loaded s)
  show thesis
  proof (cases "hs_failed hs")
    case True
    with assms Loaded show thesis
      by (intro failed)
        (auto simp: hotstuff_service_def hotstuff_fresh_def Let_def restart_views_def
          restore_stored_chain_def restore_loop_frame split: if_splits loaded.splits)
  next
    case False
    have "blocks_ok cr cfg []" by (simp add: blocks_ok_def)
    with assms Loaded False show thesis
      by (intro restored [of s])
        (auto simp: hotstuff_service_def hotstuff_fresh_def Let_def restart_views_def
          restore_stored_chain_def restore_loop_frame split: if_splits loaded.splits)
  qed
next
  case Absent
  with assms show thesis
    by (intro fresh) (auto simp: hotstuff_service_def Let_def split: if_splits)
next
  case Corrupt
  with assms show thesis
    by (intro failed) (auto simp: hotstuff_service_def hotstuff_fresh_def Let_def split: if_splits)
qed

lemma adopt_into_chain_frame:
  "hs_failed (adopt_into_chain cfg d p j q hs) = hs_failed hs"
  "hs_last_voted_view (adopt_into_chain cfg d p j q hs) = hs_last_voted_view hs"
  "hs_locked_qc (adopt_into_chain cfg d p j q hs) = hs_locked_qc hs"
  "\<exists>pl. hs_blocks (adopt_into_chain cfg d p j q hs) =
     smap_put d \<lparr>br_proposal = p, br_justify = j, br_digest = d, br_payload = pl\<rparr> (hs_blocks hs)"
  by (auto simp: adopt_into_chain_def advance_high_qc_def Let_def)

lemma adopt_certified_block_cases:
  assumes "adopt_certified_block ops cr cfg p j q commits hs st = Some (f, commits', hs', st')"
  obtains (refused) "hs' = hs" "st' = st" "f \<noteq> None" "commits' = commits"
  | (adopted) "certified_block_failure cr cfg p j q = None" "\<not> hs_failed hs" "f = None"
      "apply_chain_rules ops cr cfg (adopt_into_chain cfg (proposal_digest cr p) p j q hs) st q commits
         = Some (hs', st', commits')"
  using assms that
  by (auto simp: adopt_certified_block_def adopt_check_def Let_def split: option.splits if_splits)

section \<open>The run invariant\<close>

definition log_floor :: "u64 \<Rightarrow> quorum_certificate \<Rightarrow> vote_entry list \<Rightarrow> bool" where
  "log_floor v q log \<longleftrightarrow>
     (\<forall>e \<in> set log. p_view (ve_proposal e) \<le> v \<and> qc_view (ve_locked e) \<le> qc_view q)"

definition replica_inv :: "crypto \<Rightarrow> hotstuff_config \<Rightarrow> hotstuff \<Rightarrow> vote_entry list \<Rightarrow> bool" where
  "replica_inv cr cfg hs log \<longleftrightarrow>
     blocks_ok cr cfg (hs_blocks hs) \<and> log_law cr cfg log \<and>
     (\<not> hs_failed hs \<longrightarrow> qc_accepted cr cfg (hs_locked_qc hs) \<and>
        log_floor (hs_last_voted_view hs) (hs_locked_qc hs) log)"

definition stored_inv :: "crypto \<Rightarrow> hotstuff_config \<Rightarrow> hotstuff_state loaded \<Rightarrow> vote_entry list \<Rightarrow> bool" where
  "stored_inv cr cfg stored log \<longleftrightarrow>
     (case stored of
        Absent \<Rightarrow> log = []
      | Corrupt \<Rightarrow> True
      | Loaded s \<Rightarrow> qc_accepted cr cfg (s_locked_qc s) \<and>
          log_floor (s_last_voted_view s) (s_locked_qc s) log)"

lemma stored_inv_Corrupt [simp]: "stored_inv cr cfg Corrupt log"
  by (simp add: stored_inv_def)

lemma log_floor_mono:
  "log_floor v q log \<Longrightarrow> v \<le> v' \<Longrightarrow> qc_view q \<le> qc_view q' \<Longrightarrow> log_floor v' q' log"
  by (auto simp: log_floor_def intro: order_trans)

lemma log_law_snoc:
  assumes "log_law cr cfg log" and "vote_law cr cfg e" and "log_floor v q log"
    and "v < p_view (ve_proposal e)" and "qc_view q \<le> qc_view (ve_locked e)"
  shows "log_law cr cfg (log @ [e])"
  using assms
  by (auto simp: log_law_def sorted_wrt_append log_floor_def later_vote_def
      intro: le_less_trans order_trans)

lemma replica_inv_core:
  "safety_core hs' = safety_core hs \<Longrightarrow> replica_inv cr cfg hs log \<Longrightarrow> replica_inv cr cfg hs' log"
  by (auto simp: replica_inv_def safety_core_def)

lemma replica_inv_rules:
  assumes rules: "apply_chain_rules ops cr cfg' hs st j commits = Some (hs', st', commits')"
    and inv: "replica_inv cr cfg hs log"
  shows "replica_inv cr cfg hs' log"
proof -
  note frame = apply_chain_rules_frame [OF rules]
  have blocks: "blocks_ok cr cfg (hs_blocks hs')"
    using inv frame(3) by (auto simp: replica_inv_def intro: blocks_ok_subset)
  have "qc_accepted cr cfg (hs_locked_qc hs') \<and> log_floor (hs_last_voted_view hs') (hs_locked_qc hs') log"
    if "\<not> hs_failed hs'"
    using that inv frame apply_chain_rules_lock [OF rules]
    by (auto simp: replica_inv_def intro: log_floor_mono)
  with blocks inv show ?thesis by (simp add: replica_inv_def)
qed

lemma replica_inv_blocks:
  assumes "replica_inv cr cfg hs log" and "blocks_ok cr cfg (hs_blocks hs')"
    and "hs_failed hs' = hs_failed hs" "hs_last_voted_view hs' = hs_last_voted_view hs"
    "hs_locked_qc hs' = hs_locked_qc hs"
  shows "replica_inv cr cfg hs' log"
  using assms by (simp add: replica_inv_def)

lemma replica_inv_service:
  assumes "hotstuff_service ops cr cfg st = Inr hs"
    and "stored_inv cr cfg (load_state ops (cfg_epoch cfg) st) log" and "log_law cr cfg log"
  shows "replica_inv cr cfg hs log"
  using assms(1)
proof (cases rule: hotstuff_service_cases)
  case failed
  with assms(3) show ?thesis by (simp add: replica_inv_def blocks_ok_def)
next
  case fresh
  with assms(2,3) show ?thesis
    by (simp add: stored_inv_def replica_inv_def blocks_ok_def hotstuff_fresh_def log_floor_def
        qc_accepted_def is_genesis_justify_def genesis_qc_def)
next
  case (restored s)
  with assms(2,3) show ?thesis by (simp add: stored_inv_def replica_inv_def)
qed

context consensus_store
begin

lemma commit_effect_load:
  assumes "store_ok st" and "commit_effect ops st st'"
  shows "store_ok st' \<and> possible e st' \<subseteq> possible e st"
  using assms by (auto simp: commit_effect_def ok_commit dest: subsetD [OF commit_frame])

lemma chain_effect_load:
  assumes "store_ok st" and "chain_effect ops st st'"
  shows "store_ok st' \<and> possible e st' \<subseteq> possible e st"
  using assms by (auto simp: chain_effect_def ok_chain dest: subsetD [OF chain_frame])

text \<open>Emitting a vote keeps both invariants: the safety state is on disk before the vote exists.\<close>

lemma emit_vote_inv:
  assumes run: "emit_vote ops cr cfg' key p d commits hs st = (r, hs', st')"
    and cfg': "cfg_epoch cfg' = cfg_epoch cfg"
    and inv: "replica_inv cr cfg hs log" "\<not> hs_failed hs"
    and st: "store_ok st" "\<forall>l \<in> possible (cfg_epoch cfg) st. stored_inv cr cfg l log"
    and newer: "hs_last_voted_view hs < p_view p"
    and law: "vote_law cr cfg \<lparr>ve_proposal = p, ve_justify = j, ve_locked = hs_locked_qc hs,
      ve_known = insert (p, j) (known_blocks hs0)\<rparr>"
  shows "store_ok st' \<and> replica_inv cr cfg hs' (log @ vote_entries p j hs0 hs' r) \<and>
    (\<forall>l \<in> possible (cfg_epoch cfg) st'. stored_inv cr cfg l (log @ vote_entries p j hs0 hs' r))"
  using run
proof (cases rule: emit_vote_cases [where j = j and ?hs0.0 = hs0])
  case chain_refused
  with inv st show ?thesis
    using chain_effect_load [OF st(1), of st' "cfg_epoch cfg"] by (auto intro: replica_inv_core)
next
  case (state_refused st1)
  have st1: "store_ok st1" "possible (cfg_epoch cfg) st1 \<subseteq> possible (cfg_epoch cfg) st"
    using chain_effect_load [OF st(1) state_refused(3)] by auto
  have floor: "log_floor (p_view p) (hs_locked_qc hs) log"
    using inv newer by (auto simp: replica_inv_def intro: log_floor_mono)
  have "possible (cfg_epoch cfg) st' \<subseteq>
      possible (cfg_epoch cfg) st \<union> {Loaded (pending_state cfg' hs p), Corrupt}"
    using refused [OF st1(1) state_refused(4)] cfg' st1(2) by auto
  moreover have "stored_inv cr cfg (Loaded (pending_state cfg' hs p)) log"
    using floor inv by (simp add: stored_inv_def replica_inv_def)
  moreover have "store_ok st'" using ok_before_vote [OF st1(1)] state_refused(4) by (metis snd_conv)
  ultimately show ?thesis
    using st(2) replica_inv_core [OF state_refused(2) inv(1)] state_refused(1) by auto
next
  case (voted st1)
  let ?log = "log @ vote_entries p j hs0 hs' r"
  have st1: "store_ok st1" using chain_effect_load [OF st(1) voted(3)] by auto
  have loaded: "possible (cfg_epoch cfg) st' \<subseteq> {Loaded (pending_state cfg' hs p), Corrupt}"
    using stored [OF st1 voted(4)] cfg' by simp
  have ok: "store_ok st'" using ok_before_vote [OF st1] voted(4) by (metis snd_conv)
  have floor: "log_floor (hs_last_voted_view hs) (hs_locked_qc hs) log"
    using inv by (simp add: replica_inv_def)
  have law': "log_law cr cfg ?log"
    using voted(1) log_law_snoc [OF _ law floor] newer inv by (auto simp: replica_inv_def)
  have floor': "log_floor (p_view p) (hs_locked_qc hs) ?log"
    using voted(1) log_floor_mono [OF floor, of "p_view p" "hs_locked_qc hs"] newer
    by (auto simp: log_floor_def)
  have "replica_inv cr cfg hs' ?log"
    using inv law' floor' voted(2) by (auto simp: replica_inv_def safety_core_def)
  moreover have "stored_inv cr cfg (Loaded (pending_state cfg' hs p)) ?log"
    using floor' inv by (simp add: stored_inv_def replica_inv_def)
  ultimately show ?thesis using loaded ok by auto
qed

lemma proposal_inv:
  assumes run: "receive_proposal ops cr (with_validators tv pv cfg) key p j payload hs st = Some (r, hs', st')"
    and inv: "replica_inv cr cfg hs log"
    and st: "store_ok st" "\<forall>l \<in> possible (cfg_epoch cfg) st. stored_inv cr cfg l log"
  shows "store_ok st' \<and> replica_inv cr cfg hs' (log @ vote_entries p j hs hs' r) \<and>
    (\<forall>l \<in> possible (cfg_epoch cfg) st'. stored_inv cr cfg l (log @ vote_entries p j hs hs' r))"
  using run
proof (cases rule: receive_proposal_cases [where ?hs0.0 = hs])
  case stopped
  with inv st show ?thesis by (auto intro: replica_inv_core)
next
  case (accepted matched refused hs1 st1 commits hsv)
  let ?hsa = "accept_block (proposal_digest cr p) p j matched hsv"
  have just: "justified cr cfg (p, j)" using precheck_justified [OF accepted(1)] by simp
  have "replica_inv cr cfg hsv log"
    using inv accepted(3) by (auto intro: replica_inv_core simp: safety_core_def)
  then have "replica_inv cr cfg ?hsa log"
    using accept_block_ok [of cr cfg hsv p j matched] just accept_block_core(1-3)
    by (auto intro: replica_inv_blocks simp: replica_inv_def)
  then have inv1: "replica_inv cr cfg hs1 log" by (rule replica_inv_rules [OF accepted(5)])
  have nf: "\<not> hs_failed hs1"
    using precheck_not_failed [OF accepted(1)] apply_chain_rules_frame(1) [OF accepted(5)] accepted(3)
    by (simp add: accept_block_core)
  have st1: "store_ok st1" "\<forall>l \<in> possible (cfg_epoch cfg) st1. stored_inv cr cfg l log"
    using commit_effect_load [OF st(1) apply_chain_rules_frame(4) [OF accepted(5)]] st(2) by blast+
  from accepted(6) show ?thesis
  proof (cases rule: vote_stage_cases [where ?hs0.0 = hs])
    case withheld
    with inv1 st1 show ?thesis by simp
  next
    case safe
    have inv0: "blocks_ok cr cfg (hs_blocks hs)" "qc_accepted cr cfg (hs_locked_qc hs)"
      using inv precheck_not_failed [OF accepted(1)] by (auto simp: replica_inv_def)
    have law: "vote_law cr cfg \<lparr>ve_proposal = p, ve_justify = j, ve_locked = hs_locked_qc hs1,
        ve_known = insert (p, j) (known_blocks hs)\<rparr>"
      by (rule accepted_vote_law [OF inv0 accepted(1) refl accepted(2-5) safe(1)])
    have newer: "hs_last_voted_view hs1 < p_view p"
      using safe_node_sound(1) [OF safe(1)] inv1 by (auto simp: replica_inv_def)
    show ?thesis
      using emit_vote_inv [OF safe(2) _ inv1 nf st1 newer law] by simp
  qed
qed

lemma run_inv:
  assumes "replica_run ops store_ok possible cr cfg key hs st log"
  shows "store_ok st \<and> replica_inv cr cfg hs log \<and>
    (\<forall>l \<in> possible (cfg_epoch cfg) st. stored_inv cr cfg l log)"
  using assms
proof (induction rule: replica_run.induct)
  case (start st hs)
  then have "load_state ops (cfg_epoch cfg) st = Absent" using load_possible by fastforce
  with start show ?case
    using replica_inv_service [OF start(3), of "[]"] by (simp add: stored_inv_def log_law_def)
next
  case (proposal hs st log tv pv p j payload r hs' st')
  then show ?case using proposal_inv [OF proposal(2)] by blast
next
  case (vote hs st log v c hs')
  then show ?case using replica_inv_core [OF receive_vote_core] by blast
next
  case (timeout hs st log t tc hs')
  then show ?case using replica_inv_core [OF receive_timeout_core] by blast
next
  case (adopt hs st log p j q commits f commits' hs' st')
  from adopt(2) show ?case
  proof (cases rule: adopt_certified_block_cases)
    case refused
    with adopt show ?thesis by simp
  next
    case adopted
    have "replica_inv cr cfg (adopt_into_chain cfg (proposal_digest cr p) p j q hs) log"
      using adopt(3) adopt_into_chain_frame [of cfg "proposal_digest cr p" p j q hs]
        blocks_ok_put [OF _ certified_block_justified [OF adopted(1)]]
      by (auto intro!: replica_inv_blocks simp: replica_inv_def)
    with adopt show ?thesis
      using replica_inv_rules [OF adopted(4)]
        commit_effect_load [OF _ apply_chain_rules_frame(4) [OF adopted(4)], of "cfg_epoch cfg"]
      by blast
  qed
next
  case (orphan hs st log orph hs')
  then show ?case using replica_inv_core [OF take_linkable_orphan_core] by blast
next
  case (sync hs st log floor)
  then show ?case
    by (auto simp: replica_inv_def sync_to_certified_def intro: log_floor_mono)
next
  case (disk hs st log st')
  then show ?case by auto
next
  case (restart hs st log hs')
  then have "stored_inv cr cfg (load_state ops (cfg_epoch cfg) st) log" using load_possible by blast
  with restart show ?case using replica_inv_service [OF restart(2)] by (auto simp: replica_inv_def)
qed

lemma run_log_law: "replica_run ops store_ok possible cr cfg key hs st log \<Longrightarrow> log_law cr cfg log"
  using run_inv by (auto simp: replica_inv_def)

end

end
