(* ===== verification/Consensus_Store.thy ===== *)
theory Consensus_Store
  imports Hotstuff_Json Hotstuff_Replica
begin

text \<open>
  \<^verbatim>\<open>Security/DurableWrite.cpp\<close> (the POSIX branch) and \<^verbatim>\<open>FileConsensusStore\<close> of
  \<^verbatim>\<open>Security/Consensus/ConsensusStore.cpp\<close>. A disk has what the system shows and what a crash leaves;
  the outcome of every system call is an input. The lemmas show that a durable write is atomic at
  every point of a crash, and the interpretation at the end discharges the store contract.
\<close>

section \<open>Durable writes\<close>

text \<open>A file with its data and whether the data was flushed to the device.\<close>

datatype disk_file = NoFile | StatFails | ReadFails | Content string bool

record disk =
  dk_visible :: "string \<Rightarrow> disk_file"
  dk_durable :: "string \<Rightarrow> disk_file"

text \<open>The results of the system calls of one write, in the order of the calls.\<close>

record os_calls =
  oc_open :: bool
  oc_stat :: bool
  oc_fchown :: bool
  oc_fchmod :: bool
  oc_writes :: "int list"
  oc_fsync :: bool
  oc_close :: bool
  oc_rename :: bool
  oc_open_dir :: bool
  oc_fsync_dir :: bool

definition show_file :: "string \<Rightarrow> disk_file \<Rightarrow> disk \<Rightarrow> disk" where
  "show_file path f dk = dk\<lparr>dk_visible := (dk_visible dk)(path := f)\<rparr>"

definition rename_file :: "string \<Rightarrow> string \<Rightarrow> disk \<Rightarrow> disk" where
  "rename_file src dst dk = show_file src NoFile (show_file dst (dk_visible dk src) dk)"

definition flush_entry :: "string \<Rightarrow> disk \<Rightarrow> disk" where
  "flush_entry path dk = dk\<lparr>dk_durable := (dk_durable dk)(path := dk_visible dk path)\<rparr>"

text \<open>The write loop: how much was written and whether it was all. A call writes at most what is left.\<close>

fun write_loop :: "nat \<Rightarrow> nat \<Rightarrow> int list \<Rightarrow> nat \<times> bool" where
  "write_loop written payload_size [] = (written, \<not> written < payload_size)"
| "write_loop written payload_size (c # counts) =
     (if \<not> written < payload_size then (written, True)
      else if c \<le> 0 then (written, False)
      else write_loop (written + min (nat c) (payload_size - written)) payload_size counts)"

text \<open>The result and the states of the disk along the way, first to last.\<close>

definition write_durable_impl ::
  "os_calls \<Rightarrow> string \<Rightarrow> string \<Rightarrow> bool \<Rightarrow> disk \<Rightarrow> bool \<times> disk list" where
  "write_durable_impl oc final_path payload preserve_metadata dk =
     (let temp_path = final_path @ ''.tmp''
      in if \<not> oc_open oc then (False, [dk])
         else let dk1 = show_file temp_path (Content [] False) dk
              in if preserve_metadata \<and> oc_stat oc \<and> \<not> (oc_fchown oc \<and> oc_fchmod oc)
                 then (False, [dk, dk1, show_file temp_path NoFile dk1])
                 else let (n, complete) = write_loop 0 (length payload) (oc_writes oc);
                          dk2 = show_file temp_path (Content (take n payload) False) dk1
                      in if \<not> complete \<or> \<not> oc_fsync oc then (False, [dk, dk1, dk2])
                         else let dk3 = show_file temp_path (Content (take n payload) True) dk2
                              in if \<not> oc_close oc \<or> \<not> oc_rename oc then (False, [dk, dk1, dk2, dk3])
                                 else let dk4 = rename_file temp_path final_path dk3
                                      in if \<not> oc_open_dir oc \<or> \<not> oc_fsync_dir oc
                                         then (False, [dk, dk1, dk2, dk3, dk4])
                                         else (True, [dk, dk1, dk2, dk3, dk4, flush_entry final_path dk4]))"

definition write_durable :: "os_calls \<Rightarrow> string \<Rightarrow> string \<Rightarrow> disk \<Rightarrow> bool \<times> disk" where
  "write_durable oc final_path payload dk =
     (case write_durable_impl oc final_path payload False dk of (b, states) \<Rightarrow> (b, last states))"

definition write_durable_preserving :: "os_calls \<Rightarrow> string \<Rightarrow> string \<Rightarrow> disk \<Rightarrow> bool \<times> disk" where
  "write_durable_preserving oc final_path payload dk =
     (case write_durable_impl oc final_path payload True dk of (b, states) \<Rightarrow> (b, last states))"

section \<open>The file store\<close>

definition safety_path :: "u64 \<Rightarrow> string" where
  "safety_path epoch = ''hotstuff-safety-'' @ decimal (unat epoch) @ ''.json''"

definition commit_path :: "u64 \<Rightarrow> string" where
  "commit_path epoch = ''hotstuff-commit-'' @ decimal (unat epoch) @ ''.json''"

definition chain_path :: "u64 \<Rightarrow> string" where
  "chain_path epoch = ''hotstuff-chain-'' @ decimal (unat epoch) @ ''.json''"

text \<open>The disk and the outcomes of the writes to come; a store with no outcome left cannot open.\<close>

record file_store =
  fs_disk :: disk
  fs_calls :: "os_calls list"

definition fs_write :: "string \<Rightarrow> string \<Rightarrow> file_store \<Rightarrow> bool \<times> file_store" where
  "fs_write path payload st =
     (case fs_calls st of
        [] \<Rightarrow> (False, st)
      | oc # rest \<Rightarrow>
          (case write_durable oc path payload (fs_disk st) of
             (b, dk) \<Rightarrow> (b, \<lparr>fs_disk = dk, fs_calls = rest\<rparr>)))"

definition parse_file :: "codec \<Rightarrow> disk_file \<Rightarrow> json option" where
  "parse_file cd f = (case f of Content s synced \<Rightarrow> json_parse cd s | _ \<Rightarrow> None)"

definition file_load :: "crypto \<Rightarrow> codec \<Rightarrow> u64 \<Rightarrow> disk_file \<Rightarrow> hotstuff_state loaded" where
  "file_load cr cd epoch f =
     (case f of
        StatFails \<Rightarrow> Corrupt
      | NoFile \<Rightarrow> Absent
      | _ \<Rightarrow>
          (case parse_file cd f of
             None \<Rightarrow> Corrupt
           | Some document \<Rightarrow>
               (case hotstuff_state_from_json cr cd document of
                  None \<Rightarrow> Corrupt
                | Some s \<Rightarrow> if s_epoch s \<noteq> epoch then Corrupt else Loaded s)))"

definition fs_load :: "crypto \<Rightarrow> codec \<Rightarrow> u64 \<Rightarrow> file_store \<Rightarrow> hotstuff_state loaded" where
  "fs_load cr cd epoch st = file_load cr cd epoch (dk_visible (fs_disk st) (safety_path epoch))"

definition fs_store_before_vote ::
  "crypto \<Rightarrow> codec \<Rightarrow> hotstuff_state \<Rightarrow> file_store \<Rightarrow> bool \<times> file_store" where
  "fs_store_before_vote cr cd s st =
     (let write = fs_write (safety_path (s_epoch s)) (json_dump cd (hotstuff_state_to_json cr cd s)) st
      in case fs_load cr cd (s_epoch s) st of
           Corrupt \<Rightarrow> (False, st)
         | Absent \<Rightarrow> write
         | Loaded prior \<Rightarrow>
             if s_epoch s \<noteq> s_epoch prior then (False, st)
             else if s_last_voted_view s < s_last_voted_view prior then (False, st)
             else if qc_view (s_high_qc s) < qc_view (s_high_qc prior) then (False, st)
             else if qc_view (s_locked_qc s) < qc_view (s_locked_qc prior) then (False, st)
             else write)"

definition fs_store_commit :: "crypto \<Rightarrow> codec \<Rightarrow> consensus_commit \<Rightarrow> file_store \<Rightarrow> bool \<times> file_store" where
  "fs_store_commit cr cd c st =
     fs_write (commit_path (c_epoch c)) (json_dump cd (commit_to_json cr cd c)) st"

definition fs_latest_commit :: "crypto \<Rightarrow> codec \<Rightarrow> u64 \<Rightarrow> file_store \<Rightarrow> consensus_commit option" where
  "fs_latest_commit cr cd epoch st =
     (case parse_file cd (dk_visible (fs_disk st) (commit_path epoch)) of
        None \<Rightarrow> None
      | Some document \<Rightarrow>
          (case commit_from_json cr cd document of
             None \<Rightarrow> None
           | Some c \<Rightarrow> if c_epoch c \<noteq> epoch then None else Some c))"

definition fs_store_chain ::
  "crypto \<Rightarrow> codec \<Rightarrow> u64 \<Rightarrow> certified_chain \<Rightarrow> file_store \<Rightarrow> bool \<times> file_store" where
  "fs_store_chain cr cd epoch ch st =
     (if cc_chain ch = [] \<or> length (cc_chain ch) > kMaxSyncChainBlocks then (False, st)
      else fs_write (chain_path epoch) (json_dump cd (chain_to_json cr cd epoch ch)) st)"

definition fs_load_chain :: "crypto \<Rightarrow> codec \<Rightarrow> u64 \<Rightarrow> file_store \<Rightarrow> certified_chain loaded" where
  "fs_load_chain cr cd epoch st =
     (let f = dk_visible (fs_disk st) (chain_path epoch)
      in case f of
           StatFails \<Rightarrow> Corrupt
         | NoFile \<Rightarrow> Absent
         | _ \<Rightarrow>
             (case parse_file cd f of
                None \<Rightarrow> Corrupt
              | Some document \<Rightarrow>
                  (case chain_from_json cr cd document epoch of None \<Rightarrow> Corrupt | Some ch \<Rightarrow> Loaded ch)))"

definition file_store_ops :: "crypto \<Rightarrow> codec \<Rightarrow> file_store consensus_store_ops" where
  "file_store_ops cr cd =
     \<lparr>store_before_vote = fs_store_before_vote cr cd, load_state = fs_load cr cd,
      store_commit = fs_store_commit cr cd, latest_commit = fs_latest_commit cr cd,
      store_chain = fs_store_chain cr cd, load_chain = fs_load_chain cr cd\<rparr>"

text \<open>What a load can give now or after a crash: the visible record, the durable one, and anything
  at all if the visible data never reached the device.\<close>

definition fs_possible :: "crypto \<Rightarrow> codec \<Rightarrow> u64 \<Rightarrow> file_store \<Rightarrow> hotstuff_state loaded set" where
  "fs_possible cr cd epoch st =
     {file_load cr cd epoch (dk_visible (fs_disk st) (safety_path epoch)),
      file_load cr cd epoch (dk_durable (fs_disk st) (safety_path epoch))} \<union>
     (case dk_visible (fs_disk st) (safety_path epoch) of Content s False \<Rightarrow> UNIV | _ \<Rightarrow> {})"

section \<open>Atomicity of the durable write\<close>

lemma write_loop_complete:
  "write_loop written payload_size counts = (n, True) \<Longrightarrow> written \<le> payload_size \<Longrightarrow> n = payload_size"
  by (induction written payload_size counts rule: write_loop.induct) (auto split: if_splits)

lemma temp_path_fresh: "path @ ''.tmp'' \<noteq> path" "path \<noteq> path @ ''.tmp''"
  by simp_all

text \<open>At every moment of the write the final name holds its old content or the whole new one, in
  what the system shows and in what a crash leaves; success means the new one in both.\<close>

lemma write_durable_impl_states:
  assumes "write_durable_impl oc path payload pm dk = (b, states)"
  shows "states \<noteq> []"
    and "\<forall>dk' \<in> set states. dk_visible dk' path \<in> {dk_visible dk path, Content payload True} \<and>
      dk_durable dk' path \<in> {dk_durable dk path, Content payload True}"
    and "b \<Longrightarrow> dk_visible (last states) path = Content payload True \<and>
      dk_durable (last states) path = Content payload True"
    and "\<not> b \<Longrightarrow> dk_durable (last states) = dk_durable dk"
    and "\<forall>dk' \<in> set states. \<forall>q. q \<noteq> path \<longrightarrow> q \<noteq> path @ ''.tmp'' \<longrightarrow>
      dk_visible dk' q = dk_visible dk q \<and> dk_durable dk' q = dk_durable dk q"
proof -
  obtain n d where loop: "write_loop 0 (length payload) (oc_writes oc) = (n, d)" by fastforce
  have full: "take n payload = payload" if d
    using write_loop_complete [of 0 "length payload" "oc_writes oc" n] loop that by simp
  note defs = write_durable_impl_def Let_def loop show_file_def rename_file_def flush_entry_def
    temp_path_fresh
  show "states \<noteq> []"
    using assms by (auto simp: defs split: if_splits)
  show "\<forall>dk' \<in> set states. dk_visible dk' path \<in> {dk_visible dk path, Content payload True} \<and>
      dk_durable dk' path \<in> {dk_durable dk path, Content payload True}"
    using assms full by (auto simp: defs split: if_splits)
  show "b \<Longrightarrow> dk_visible (last states) path = Content payload True \<and>
      dk_durable (last states) path = Content payload True"
    using assms full by (auto simp: defs split: if_splits)
  show "\<not> b \<Longrightarrow> dk_durable (last states) = dk_durable dk"
    using assms by (auto simp: defs split: if_splits)
  show "\<forall>dk' \<in> set states. \<forall>q. q \<noteq> path \<longrightarrow> q \<noteq> path @ ''.tmp'' \<longrightarrow>
      dk_visible dk' q = dk_visible dk q \<and> dk_durable dk' q = dk_durable dk q"
    using assms by (auto simp: defs split: if_splits)
qed

lemma write_durable_cases:
  assumes "write_durable oc path payload dk = (b, dk')"
  obtains (written) "b" "dk_visible dk' path = Content payload True" "dk_durable dk' path = Content payload True"
  | (kept) "\<not> b" "dk_visible dk' path = dk_visible dk path" "dk_durable dk' = dk_durable dk"
  | (shown) "\<not> b" "dk_visible dk' path = Content payload True" "dk_durable dk' = dk_durable dk"
proof -
  obtain states where impl: "write_durable_impl oc path payload False dk = (b, states)"
      and dk': "dk' = last states"
    using assms by (auto simp: write_durable_def split: prod.splits)
  note facts = write_durable_impl_states [OF impl]
  have "last states \<in> set states" using facts(1) by simp
  then have "dk_visible dk' path \<in> {dk_visible dk path, Content payload True}" using facts(2) dk' by blast
  then show thesis using facts(3,4) that dk' by blast
qed

lemma write_durable_frame:
  assumes "write_durable oc path payload dk = (b, dk')" and "q \<noteq> path" "q \<noteq> path @ ''.tmp''"
  shows "dk_visible dk' q = dk_visible dk q" "dk_durable dk' q = dk_durable dk q"
proof -
  obtain states where impl: "write_durable_impl oc path payload False dk = (b, states)"
      and dk': "dk' = last states"
    using assms(1) by (auto simp: write_durable_def split: prod.splits)
  note facts = write_durable_impl_states [OF impl]
  have "dk' \<in> set states" using facts(1) dk' by simp
  then show "dk_visible dk' q = dk_visible dk q" "dk_durable dk' q = dk_durable dk q"
    using facts(5) assms(2,3) by auto
qed

text \<open>If the directory can be synced, then a write that fails leaves the file as it was.\<close>

lemma write_durable_synced:
  assumes "write_durable oc path payload dk = (False, dk')" and "oc_open_dir oc" and "oc_fsync_dir oc"
  shows "dk_visible dk' path = dk_visible dk path" "dk_durable dk' = dk_durable dk"
proof -
  obtain n complete where loop: "write_loop 0 (length payload) (oc_writes oc) = (n, complete)" by fastforce
  note defs = write_durable_def write_durable_impl_def Let_def loop show_file_def temp_path_fresh
  show "dk_visible dk' path = dk_visible dk path" "dk_durable dk' = dk_durable dk"
    using assms by (auto simp: defs split: if_splits)
qed

section \<open>Paths\<close>

lemma path_simps [simp]:
  "safety_path e = safety_path e' \<longleftrightarrow> e = e'"
  "safety_path e \<noteq> commit_path e'" "safety_path e \<noteq> chain_path e'"
  "safety_path e \<noteq> safety_path e' @ ''.tmp''" "safety_path e \<noteq> commit_path e' @ ''.tmp''"
  "safety_path e \<noteq> chain_path e' @ ''.tmp''"
proof -
  show "safety_path e = safety_path e' \<longleftrightarrow> e = e'"
    by (simp add: safety_path_def decimal_inj word_unat_eq_iff)
  show "safety_path e \<noteq> commit_path e'" "safety_path e \<noteq> chain_path e'"
    by (simp_all add: safety_path_def commit_path_def chain_path_def)
  have "last (safety_path e) \<noteq> last (p @ ''.tmp'')" for p
    by (simp add: safety_path_def)
  then show "safety_path e \<noteq> safety_path e' @ ''.tmp''" "safety_path e \<noteq> commit_path e' @ ''.tmp''"
    "safety_path e \<noteq> chain_path e' @ ''.tmp''" by metis+
qed

section \<open>The contract of the file store\<close>

lemma qc_unstorable:
  assumes "codec_ok cd" and "\<not> qc_storable q"
  shows "qc_from_json cd (qc_to_json cd q) = None"
  using assms by (simp add: qc_from_json_def qc_to_json_def read_back read_u64_def not_le)

lemma state_read_back:
  assumes "codec_ok cd"
  shows "hotstuff_state_from_json cr cd (hotstuff_state_to_json cr cd s) \<in> {Some s, None}"
proof (cases "qc_storable (s_high_qc s) \<and> qc_storable (s_locked_qc s)")
  case True
  then show ?thesis using hotstuff_state_roundtrip [OF assms] by simp
next
  case False
  then have "qc_from_json cd (qc_to_json cd (s_high_qc s)) = None \<or>
      qc_from_json cd (qc_to_json cd (s_locked_qc s)) = None"
    using qc_unstorable [OF assms, of "s_high_qc s"] qc_unstorable [OF assms, of "s_locked_qc s"]
    by argo
  then have "hotstuff_state_from_json cr cd (hotstuff_state_to_json cr cd s) = None"
    by (elim disjE;
        simp add: hotstuff_state_from_json_def hotstuff_state_to_json_def hotstuff_state_keys_def
          read_back assms read_u64_def)
  then show ?thesis by simp
qed

definition state_payload :: "crypto \<Rightarrow> codec \<Rightarrow> hotstuff_state \<Rightarrow> string" where
  "state_payload cr cd s = json_dump cd (hotstuff_state_to_json cr cd s)"

lemma file_load_payload:
  assumes "codec_ok cd"
  shows "file_load cr cd (s_epoch s) (Content (state_payload cr cd s) b) \<in> {Loaded s, Corrupt}"
proof -
  have "json_parse cd (state_payload cr cd s) = Some (hotstuff_state_to_json cr cd s)"
    using assms json_ok_records(1) [OF assms] by (simp add: codec_ok_def state_payload_def)
  then show ?thesis
    using state_read_back [OF assms, of cr s]
    by (auto simp: file_load_def parse_file_def split: option.splits)
qed

lemma fs_write_possible:
  assumes "fs_write path payload st = (b, st')" and "safety_path e \<noteq> path" "safety_path e \<noteq> path @ ''.tmp''"
  shows "fs_possible cr cd e st' = fs_possible cr cd e st"
  using assms write_durable_frame
  by (auto simp: fs_write_def fs_possible_def split: list.splits prod.splits)

lemma fs_write_state:
  assumes ok: "codec_ok cd" and run: "fs_write (safety_path (s_epoch s)) (state_payload cr cd s) st = (b, st')"
  shows "fs_possible cr cd (s_epoch s) st' \<subseteq>
    (if b then {Loaded s, Corrupt} else fs_possible cr cd (s_epoch s) st \<union> {Loaded s, Corrupt})"
proof (cases "fs_calls st")
  case Nil
  then show ?thesis using run by (auto simp: fs_write_def)
next
  case (Cons oc rest)
  obtain dk where w: "write_durable oc (safety_path (s_epoch s)) (state_payload cr cd s) (fs_disk st) = (b, dk)"
      and st': "fs_disk st' = dk"
    using run Cons by (auto simp: fs_write_def split: prod.splits)
  note load = file_load_payload [OF ok, of cr s True]
  from w show ?thesis
    by (cases rule: write_durable_cases) (use load st' in \<open>auto simp: fs_possible_def\<close>)
qed

text \<open>The laws hold under the laws of the codec.\<close>

definition file_store_ok :: "codec \<Rightarrow> file_store \<Rightarrow> bool" where
  "file_store_ok cd st \<longleftrightarrow> codec_ok cd"

lemma fs_store_before_vote_cases:
  assumes "fs_store_before_vote cr cd s st = (b, st')"
  obtains (unchanged) "\<not> b" "st' = st"
  | (first) "fs_write (safety_path (s_epoch s)) (state_payload cr cd s) st = (b, st')"
      "fs_load cr cd (s_epoch s) st = Absent"
  | (update) prior where "fs_write (safety_path (s_epoch s)) (state_payload cr cd s) st = (b, st')"
      "fs_load cr cd (s_epoch s) st = Loaded prior" "state_le prior s"
proof (cases "fs_load cr cd (s_epoch s) st")
  case (Loaded prior)
  show thesis
  proof (cases "state_le prior s")
    case True
    with assms Loaded show thesis
      by (intro update) (auto simp: fs_store_before_vote_def state_payload_def state_le_def split: if_splits)
  next
    case False
    with assms Loaded show thesis
      by (intro unchanged) (auto simp: fs_store_before_vote_def state_le_def not_less split: if_splits)
  qed
next
  case Absent
  with assms show thesis by (intro first) (auto simp: fs_store_before_vote_def state_payload_def)
next
  case Corrupt
  with assms show thesis by (intro unchanged) (auto simp: fs_store_before_vote_def)
qed

interpretation fs: consensus_store "file_store_ops cr cd" "file_store_ok cd" "fs_possible cr cd" for cr cd
proof
  fix st st' s e e' c ch prior
  assume "file_store_ok cd st"
  then have ok: "codec_ok cd" by (simp add: file_store_ok_def)
  show "load_state (file_store_ops cr cd) e st \<in> fs_possible cr cd e st"
    by (simp add: file_store_ops_def fs_load_def fs_possible_def)
  show "store_before_vote (file_store_ops cr cd) s st = (True, st') \<Longrightarrow>
      fs_possible cr cd (s_epoch s) st' \<subseteq> {Loaded s, Corrupt}"
    using fs_write_state [OF ok, of s cr st True st']
    by (auto simp: file_store_ops_def elim!: fs_store_before_vote_cases)
  show "store_before_vote (file_store_ops cr cd) s st = (False, st') \<Longrightarrow>
      fs_possible cr cd (s_epoch s) st' \<subseteq> fs_possible cr cd (s_epoch s) st \<union> {Loaded s, Corrupt}"
    using fs_write_state [OF ok, of s cr st False st']
    by (auto simp: file_store_ops_def elim!: fs_store_before_vote_cases)
  show "e \<noteq> s_epoch s \<Longrightarrow>
      fs_possible cr cd e (snd (store_before_vote (file_store_ops cr cd) s st)) \<subseteq> fs_possible cr cd e st"
  proof -
    assume "e \<noteq> s_epoch s"
    obtain b st2 where r: "fs_store_before_vote cr cd s st = (b, st2)" by fastforce
    then show ?thesis
      using fs_write_possible [of "safety_path (s_epoch s)" "state_payload cr cd s" st b st2 e cr cd] \<open>e \<noteq> s_epoch s\<close>
      by (auto simp: file_store_ops_def elim!: fs_store_before_vote_cases)
  qed
  show "load_state (file_store_ops cr cd) (s_epoch s) st = Loaded prior \<Longrightarrow>
      snd (store_before_vote (file_store_ops cr cd) s st) \<noteq> st \<or>
      fst (store_before_vote (file_store_ops cr cd) s st) \<Longrightarrow> state_le prior s"
    by (cases "fs_store_before_vote cr cd s st")
      (auto simp: file_store_ops_def elim!: fs_store_before_vote_cases)
  show "load_state (file_store_ops cr cd) (s_epoch s) st = Corrupt \<Longrightarrow>
      store_before_vote (file_store_ops cr cd) s st = (False, st)"
    by (simp add: file_store_ops_def fs_store_before_vote_def)
  show "fs_possible cr cd e (snd (store_commit (file_store_ops cr cd) c st)) \<subseteq> fs_possible cr cd e st"
    using fs_write_possible [of "commit_path (c_epoch c)" _ st _ _ e cr cd]
    by (cases "fs_store_commit cr cd c st") (auto simp: file_store_ops_def fs_store_commit_def)
  show "fs_possible cr cd e (snd (store_chain (file_store_ops cr cd) e' ch st)) \<subseteq> fs_possible cr cd e st"
    using fs_write_possible [of "chain_path e'" _ st _ _ e cr cd]
    by (cases "fs_store_chain cr cd e' ch st")
      (auto simp: file_store_ops_def fs_store_chain_def split: if_splits)
qed (simp_all add: file_store_ok_def)

section \<open>A disk without failures\<close>

definition ok_calls :: "nat \<Rightarrow> os_calls" where
  "ok_calls n = \<lparr>oc_open = True, oc_stat = True, oc_fchown = True, oc_fchmod = True, oc_writes = [int n],
     oc_fsync = True, oc_close = True, oc_rename = True, oc_open_dir = True, oc_fsync_dir = True\<rparr>"

lemma write_durable_ok: "length payload \<le> n \<Longrightarrow> fst (write_durable (ok_calls n) path payload dk)"
  by (auto simp: write_durable_def write_durable_impl_def ok_calls_def Let_def)

lemma fs_write_ok:
  assumes "length payload \<le> n"
  shows "\<exists>dk'. fs_write path payload \<lparr>fs_disk = dk, fs_calls = ok_calls n # rest\<rparr> =
      (True, \<lparr>fs_disk = dk', fs_calls = rest\<rparr>) \<and> dk_visible dk' path = Content payload True \<and>
    (\<forall>q. q \<noteq> path \<longrightarrow> q \<noteq> path @ ''.tmp'' \<longrightarrow> dk_visible dk' q = dk_visible dk q)"
proof -
  obtain b dk' where w: "write_durable (ok_calls n) path payload dk = (b, dk')" by fastforce
  then have b using write_durable_ok [OF assms, of path dk] by simp
  moreover have "dk_visible dk' path = Content payload True"
    using w \<open>b\<close> by (cases rule: write_durable_cases) simp_all
  ultimately show ?thesis
    using w write_durable_frame [OF w] by (simp add: fs_write_def)
qed

lemma store_before_vote_ok:
  assumes "codec_ok cd" and "qc_storable (s_high_qc s)" and "qc_storable (s_locked_qc s)"
    and "fs_load cr cd (s_epoch s) \<lparr>fs_disk = dk, fs_calls = cs\<rparr> = Absent \<or>
      (\<exists>prior. fs_load cr cd (s_epoch s) \<lparr>fs_disk = dk, fs_calls = cs\<rparr> = Loaded prior \<and> state_le prior s)"
  shows "\<exists>st'. fs_store_before_vote cr cd s
      \<lparr>fs_disk = dk, fs_calls = ok_calls (length (state_payload cr cd s)) # rest\<rparr> = (True, st') \<and>
    fs_load cr cd (s_epoch s) st' = Loaded s"
proof -
  obtain dk' where dk': "fs_write (safety_path (s_epoch s)) (state_payload cr cd s)
      \<lparr>fs_disk = dk, fs_calls = ok_calls (length (state_payload cr cd s)) # rest\<rparr> =
      (True, \<lparr>fs_disk = dk', fs_calls = rest\<rparr>)"
    "dk_visible dk' (safety_path (s_epoch s)) = Content (state_payload cr cd s) True"
    using fs_write_ok [OF order.refl] by blast
  have "json_parse cd (state_payload cr cd s) = Some (hotstuff_state_to_json cr cd s)"
    using assms(1) json_ok_records(1) [OF assms(1)] by (simp add: codec_ok_def state_payload_def)
  then have "fs_load cr cd (s_epoch s) \<lparr>fs_disk = dk', fs_calls = rest\<rparr> = Loaded s"
    using hotstuff_state_roundtrip [OF assms(1-3), of cr] dk'(2)
    by (simp add: fs_load_def file_load_def parse_file_def)
  moreover have "fs_load cr cd (s_epoch s) \<lparr>fs_disk = dk, fs_calls = cs\<rparr> =
      fs_load cr cd (s_epoch s) \<lparr>fs_disk = dk, fs_calls = ok_calls (length (state_payload cr cd s)) # rest\<rparr>"
    by (simp add: fs_load_def)
  ultimately show ?thesis
    using assms(4) dk'(1)
    by (auto simp: fs_store_before_vote_def state_payload_def [symmetric] state_le_def not_less Let_def)
qed

section \<open>Stores after an acknowledged one\<close>

fun store_all :: "crypto \<Rightarrow> codec \<Rightarrow> hotstuff_state list \<Rightarrow> file_store \<Rightarrow> file_store" where
  "store_all cr cd [] st = st"
| "store_all cr cd (s # ss) st = store_all cr cd ss (snd (fs_store_before_vote cr cd s st))"

lemma store_keeps_floor:
  assumes "codec_ok cd" and "s_epoch s = e" and "s_epoch s0 = e"
    and "\<forall>l \<in> fs_possible cr cd e st. l = Corrupt \<or> (\<exists>s'. l = Loaded s' \<and> state_le s0 s')"
  shows "\<forall>l \<in> fs_possible cr cd e (snd (fs_store_before_vote cr cd s st)). l = Corrupt \<or> (\<exists>s'. l = Loaded s' \<and> state_le s0 s')"
proof -
  obtain b st' where r: "fs_store_before_vote cr cd s st = (b, st')" by fastforce
  have load: "fs_load cr cd e st \<in> fs_possible cr cd e st" by (simp add: fs_load_def fs_possible_def)
  from r show ?thesis
  proof (cases rule: fs_store_before_vote_cases)
    case unchanged
    then show ?thesis using r assms(4) by simp
  next
    case first
    then show ?thesis using load assms(2,4) by auto
  next
    case (update prior)
    then have "state_le s0 s" using load assms(2,4) by (auto intro: state_le_trans)
    then show ?thesis
      using fs_write_state [OF assms(1) update(1)] r assms(2,4) by (auto split: if_splits)
  qed
qed

lemma store_all_keeps_floor:
  assumes "codec_ok cd" and "s_epoch s0 = e"
  shows "\<forall>s \<in> set ss. s_epoch s = e \<Longrightarrow>
    \<forall>l \<in> fs_possible cr cd e st. l = Corrupt \<or> (\<exists>s'. l = Loaded s' \<and> state_le s0 s') \<Longrightarrow>
    \<forall>l \<in> fs_possible cr cd e (store_all cr cd ss st). l = Corrupt \<or> (\<exists>s'. l = Loaded s' \<and> state_le s0 s')"
proof (induction ss arbitrary: st)
  case (Cons s ss)
  have "\<forall>l \<in> fs_possible cr cd e (snd (fs_store_before_vote cr cd s st)). l = Corrupt \<or> (\<exists>s'. l = Loaded s' \<and> state_le s0 s')"
    by (rule store_keeps_floor [OF assms(1) _ assms(2) Cons.prems(2)]) (use Cons.prems(1) in simp)
  then show ?case using Cons.IH Cons.prems(1) by simp
qed simp

section \<open>Properties\<close>

text \<open>C6. A durable write is atomic: whatever system call fails and wherever the machine stops, the final name
  holds either its old content or the whole flushed new content, in what the system shows and in what
  survives a crash; a reported success means the new content in both, and no other file changes but the
  temporary one.\<close>

theorem durable_write_atomic:
  assumes "write_durable_impl oc path payload preserve dk = (ok, states)" and "dk' \<in> set states"
  shows "dk_visible dk' path \<in> {dk_visible dk path, Content payload True} \<and>
    dk_durable dk' path \<in> {dk_durable dk path, Content payload True} \<and>
    (ok \<longrightarrow> dk_visible (last states) path = Content payload True \<and> dk_durable (last states) path = Content payload True) \<and>
    (\<forall>q. q \<noteq> path \<longrightarrow> q \<noteq> path @ ''.tmp'' \<longrightarrow> dk_visible dk' q = dk_visible dk q \<and> dk_durable dk' q = dk_durable dk q)"
  using write_durable_impl_states [OF assms(1)] assms(2) by blast

definition example_disk :: disk where
  "example_disk = \<lparr>dk_visible = (\<lambda>path. Content ''old'' True), dk_durable = (\<lambda>path. Content ''old'' True)\<rparr>"

theorem durable_write_atomic_witness:
  "\<exists>states. write_durable_impl (ok_calls 3) ''state'' ''new'' False example_disk = (True, states) \<and>
     dk_durable (last states) ''state'' = Content ''new'' True \<and>
     dk_durable (hd states) ''state'' = Content ''old'' True"
proof -
  obtain ok states where w: "write_durable_impl (ok_calls 3) ''state'' ''new'' False example_disk = (ok, states)"
    by fastforce
  then have "ok" "states \<noteq> []" "hd states = example_disk"
    by (auto simp: write_durable_impl_def ok_calls_def Let_def)
  moreover from this(2) have "hd states \<in> set states" by (rule hd_in_set)
  ultimately show ?thesis
    using w durable_write_atomic [OF w, of "hd states"] by (simp add: example_disk_def)
qed

text \<open>C5. An acknowledged safety state is never lost or rolled back: once a store of the state has reported
  success, then after any further stores for the epoch, accepted or not, and a crash at any moment, a load
  gives a state at or above the acknowledged one, or reports corruption.\<close>

theorem acknowledged_state_survives:
  assumes "codec_ok cd" and "fs_store_before_vote cr cd s st = (True, st')"
    and "\<forall>s' \<in> set ss. s_epoch s' = s_epoch s" and "l \<in> fs_possible cr cd (s_epoch s) (store_all cr cd ss st')"
  shows "l = Corrupt \<or> (\<exists>s'. l = Loaded s' \<and> state_le s s')"
proof -
  have "fs_possible cr cd (s_epoch s) st' \<subseteq> {Loaded s, Corrupt}"
    using fs.stored [of cd st cr s st'] assms(1,2) by (simp add: file_store_ok_def file_store_ops_def)
  then have "\<forall>l \<in> fs_possible cr cd (s_epoch s) st'. l = Corrupt \<or> (\<exists>s'. l = Loaded s' \<and> state_le s s')" by auto
  then show ?thesis using store_all_keeps_floor [OF assms(1) refl assms(3), of cr st'] assms(4) by blast
qed

definition example_stored :: "u64 \<Rightarrow> hotstuff_state" where
  "example_stored view =
     \<lparr>s_epoch = 3, s_consensus_ruleset = 1, s_last_voted_view = view, s_high_qc = example_qc, s_locked_qc = example_qc\<rparr>"

definition empty_disk :: file_store where
  "empty_disk = \<lparr>fs_disk = \<lparr>dk_visible = (\<lambda>path. NoFile), dk_durable = (\<lambda>path. NoFile)\<rparr>, fs_calls = []\<rparr>"

theorem acknowledged_state_survives_witness:
  "\<exists>calls st'. fs_store_before_vote (example_crypto []) example_codec (example_stored 6) (empty_disk\<lparr>fs_calls := calls\<rparr>) = (True, st') \<and>
     fs_load (example_crypto []) example_codec 3 (store_all (example_crypto []) example_codec [example_stored 5] st') \<noteq> Absent"
proof -
  let ?cr = "example_crypto []"
  have storable: "qc_storable (s_high_qc (example_stored 6))" "qc_storable (s_locked_qc (example_stored 6))"
    by (simp_all add: example_stored_def example_qc_def kMaxQcSignatures_def kMaxActiveTier1_def)
  obtain calls st' where st': "fs_store_before_vote ?cr example_codec (example_stored 6) (empty_disk\<lparr>fs_calls := calls\<rparr>) = (True, st')"
    using store_before_vote_ok [OF example_codec_ok storable, of ?cr "fs_disk empty_disk" "[]" "[]"]
    by (auto simp: empty_disk_def fs_load_def file_load_def)
  let ?after = "store_all ?cr example_codec [example_stored 5] st'"
  have "fs_load ?cr example_codec 3 ?after \<in> fs_possible ?cr example_codec (s_epoch (example_stored 6)) ?after"
    by (simp add: fs_load_def fs_possible_def example_stored_def)
  then have "fs_load ?cr example_codec 3 ?after = Corrupt \<or>
      (\<exists>s'. fs_load ?cr example_codec 3 ?after = Loaded s' \<and> state_le (example_stored 6) s')"
    by (rule acknowledged_state_survives [OF example_codec_ok st', rotated]) (simp add: example_stored_def)
  then have "fs_load ?cr example_codec 3 ?after \<noteq> Absent" by auto
  with st' show ?thesis by blast
qed

text \<open>C22. The file store implements the contract the replica relies on: loads give one of the possible
  results, an acknowledged store is the only possible one, states never regress, a corrupt record is
  never overwritten, and commits and chains do not touch the safety record.\<close>

theorem file_store_refines_contract:
  "consensus_store (file_store_ops cr cd) (file_store_ok cd) (fs_possible cr cd)"
  by (rule fs.consensus_store_axioms)

end
