(* ===== verification/Hotstuff_Agreement.thy ===== *)
theory Hotstuff_Agreement
  imports Consensus_Store
begin

text \<open>
  Agreement of commit proofs. The members of one epoch run the replica of \<open>Hotstuff_Replica\<close> on
  file stores; at most a third of them is faulty. Over the logs of the correct members the lemmas
  show that a view certifies one block only, and that every block certified at or above the view
  of a committed block extends it, provided the three blocks of the commit proof have consecutive
  views. The code does not check the views of a commit proof; the theory \<open>Hotstuff_World\<close> shows that
  without consecutive views agreement fails.
\<close>

section \<open>The setting\<close>

definition epoch_members :: "hotstuff_config \<Rightarrow> node_id set" where
  "epoch_members cfg = dom (map_of (cfg_vote_keys cfg))"

text \<open>The correct members: all but the tolerated number of faults, and the quorum of the policy.\<close>

definition correct_members :: "hotstuff_config \<Rightarrow> node_id set \<Rightarrow> bool" where
  "correct_members cfg H \<longleftrightarrow>
     epoch_members cfg \<noteq> {} \<and> H \<subseteq> epoch_members cfg \<and>
     card (epoch_members cfg - H) \<le> max_byzantine_faults (card (epoch_members cfg)) \<and>
     cfg_quorum cfg = consensus_quorum (card (epoch_members cfg))"

text \<open>The signature scheme: a verified vote of a correct member is a vote in its log.\<close>

definition unforgeable ::
  "crypto \<Rightarrow> hotstuff_config \<Rightarrow> node_id set \<Rightarrow> (node_id \<Rightarrow> vote_entry list) \<Rightarrow> bool" where
  "unforgeable cr cfg H log \<longleftrightarrow>
     (\<forall>n \<in> H. \<forall>key height view d s.
        map_of (cfg_vote_keys cfg) n = Some key \<longrightarrow>
        verify_digest cr key (vote_signing_digest cr (cfg_consensus_ruleset cfg) (cfg_network_id cfg)
          (cfg_epoch cfg) height view d n) s \<longrightarrow>
        (\<exists>e \<in> set (log n). p_height (ve_proposal e) = height \<and> p_view (ve_proposal e) = view \<and>
           proposal_digest cr (ve_proposal e) = d))"

definition seen_proposals :: "node_id set \<Rightarrow> (node_id \<Rightarrow> vote_entry list) \<Rightarrow> proposal set" where
  "seen_proposals H log = (\<Union>n \<in> H. \<Union>e \<in> set (log n). fst ` ve_known e)"

text \<open>The hash has no collision among the proposals that exist, none of them hashes to the epoch's
  anchor, and no vote reached the last view a 64-bit counter can hold.\<close>

definition no_collision ::
  "crypto \<Rightarrow> hotstuff_config \<Rightarrow> node_id set \<Rightarrow> (node_id \<Rightarrow> vote_entry list) \<Rightarrow> proposal set \<Rightarrow> bool" where
  "no_collision cr cfg H log P \<longleftrightarrow>
     seen_proposals H log \<subseteq> P \<and> collision_free cr (proposal_stream ` P) \<and>
     cfg_genesis_digest cfg \<notin> proposal_digest cr ` P"

definition views_in_range :: "node_id set \<Rightarrow> (node_id \<Rightarrow> vote_entry list) \<Rightarrow> bool" where
  "views_in_range H log \<longleftrightarrow> (\<forall>n \<in> H. \<forall>e \<in> set (log n). p_view (ve_proposal e) \<noteq> -1)"

definition voting_history ::
  "crypto \<Rightarrow> hotstuff_config \<Rightarrow> node_id set \<Rightarrow> (node_id \<Rightarrow> vote_entry list) \<Rightarrow> proposal set \<Rightarrow> bool" where
  "voting_history cr cfg H log P \<longleftrightarrow>
     correct_members cfg H \<and> (\<forall>n \<in> H. log_law cr cfg (log n)) \<and> unforgeable cr cfg H log \<and>
     no_collision cr cfg H log P \<and> views_in_range H log"

text \<open>\<open>b\<close> is \<open>n\<close> blocks above \<open>a\<close>, each block one higher and in a later view than its parent.\<close>

inductive extends_by :: "crypto \<Rightarrow> proposal set \<Rightarrow> proposal \<Rightarrow> proposal \<Rightarrow> nat \<Rightarrow> bool"
  for cr P where
  same_block: "extends_by cr P a a 0"
| child_block: "extends_by cr P c a n \<Longrightarrow> c \<in> P \<Longrightarrow> p_parent_digest b = proposal_digest cr c \<Longrightarrow>
    p_height b = p_height c + 1 \<Longrightarrow> p_view c < p_view b \<Longrightarrow> extends_by cr P b a (Suc n)"

lemma extends_by_bounds:
  "extends_by cr P b a n \<Longrightarrow>
     p_height b = p_height a + of_nat n \<and> unat (p_view a) + n \<le> unat (p_view b)"
proof (induction rule: extends_by.induct)
  case (child_block c a n b)
  then have "unat (p_view c) < unat (p_view b)" by (simp add: word_less_nat_alt)
  with child_block show ?case by simp
qed simp

lemma extends_by_same_height:
  assumes "extends_by cr P b a n" and "p_height b = p_height a"
  shows "b = a"
proof -
  have "of_nat n = (0 :: u64)" using extends_by_bounds [OF assms(1)] assms(2) by simp
  moreover have "n < 2 ^ 64"
    using extends_by_bounds [OF assms(1)] unsigned_less [where 'a = nat, of "p_view b"] by simp
  then have "unat (of_nat n :: u64) = n" by (simp add: unat_of_nat take_bit_eq_mod)
  ultimately have "n = 0" by simp
  with assms(1) show ?thesis by (auto elim: extends_by.cases)
qed

section \<open>Certificates and correct votes\<close>

lemma finite_members [simp]: "finite (epoch_members cfg)"
  by (simp add: epoch_members_def finite_dom_map_of)

lemma history_log: "voting_history cr cfg H log P \<Longrightarrow> n \<in> H \<Longrightarrow> log_law cr cfg (log n)"
  by (simp add: voting_history_def)

lemma history_vote:
  "voting_history cr cfg H log P \<Longrightarrow> n \<in> H \<Longrightarrow> e \<in> set (log n) \<Longrightarrow> vote_law cr cfg e"
  using history_log by (fastforce simp: log_law_def list_all_iff)

lemma history_seen:
  assumes "voting_history cr cfg H log P" and "n \<in> H" and "e \<in> set (log n)" and "(p, j) \<in> ve_known e"
  shows "p \<in> P"
proof -
  have "p \<in> seen_proposals H log"
    unfolding seen_proposals_def using assms(2-4) by (intro UN_I) (auto intro: image_eqI [where x = "(p, j)"])
  then show ?thesis using assms(1) by (auto simp: voting_history_def no_collision_def)
qed

lemma history_voted:
  "voting_history cr cfg H log P \<Longrightarrow> n \<in> H \<Longrightarrow> e \<in> set (log n) \<Longrightarrow> ve_proposal e \<in> P"
  using history_seen history_vote by (fastforce simp: vote_law_def)

lemma history_inj:
  assumes "voting_history cr cfg H log P" and "p \<in> P" and "q \<in> P" and "proposal_digest cr p = proposal_digest cr q"
  shows "p = q"
  using assms proposal_digest_inj [of cr "proposal_stream ` P" p q]
  by (auto simp: voting_history_def no_collision_def)

lemma history_genesis:
  "voting_history cr cfg H log P \<Longrightarrow> p \<in> P \<Longrightarrow> proposal_digest cr p \<noteq> cfg_genesis_digest cfg"
  unfolding voting_history_def no_collision_def by (metis image_eqI)

text \<open>Two certificates have a correct voter in common.\<close>

lemma common_voter:
  assumes hist: "voting_history cr cfg H log P" and q: "valid_qc cr cfg q" and r: "valid_qc cr cfg r"
  obtains n e f where "n \<in> H" "e \<in> set (log n)" "f \<in> set (log n)"
    "proposal_digest cr (ve_proposal e) = qc_proposal_digest q" "p_view (ve_proposal e) = qc_view q"
    "p_height (ve_proposal e) = qc_height q"
    "proposal_digest cr (ve_proposal f) = qc_proposal_digest r" "p_view (ve_proposal f) = qc_view r"
    "p_height (ve_proposal f) = qc_height r"
proof -
  have cm: "correct_members cfg H" and uf: "unforgeable cr cfg H log"
    using hist by (auto simp: voting_history_def)
  have voters: "certifiers c \<subseteq> epoch_members cfg \<and> consensus_quorum (card (epoch_members cfg)) \<le> card (certifiers c)"
    if "valid_qc cr cfg c" for c
    using that cm by (auto simp: qc_valid_iff epoch_members_def correct_members_def cfg_context_def)
  obtain n where n: "n \<in> certifiers q" "n \<in> certifiers r" "n \<in> H"
    using cq.correct_in_common [OF finite_members, of "certifiers q" cfg "certifiers r" H]
      voters [OF q] voters [OF r] cm by (auto simp: correct_members_def)
  have vote: "\<exists>e \<in> set (log n). proposal_digest cr (ve_proposal e) = qc_proposal_digest c \<and>
      p_view (ve_proposal e) = qc_view c \<and> p_height (ve_proposal e) = qc_height c"
    if c: "valid_qc cr cfg c" and n': "n \<in> certifiers c" for c
  proof -
    obtain key s where "map_of (cfg_vote_keys cfg) n = Some key"
      "verify_digest cr key (vote_signing_digest cr (cfg_consensus_ruleset cfg) (cfg_network_id cfg)
         (cfg_epoch cfg) (qc_height c) (qc_view c) (qc_proposal_digest c) n) s"
      using qc_valid_signature [OF c n'] by (auto simp: cfg_context_def)
    with uf n(3) show ?thesis unfolding unforgeable_def by blast
  qed
  from vote [OF q n(1)] vote [OF r n(2)] n(3) show thesis using that by blast
qed

lemma certified_view:
  assumes "voting_history cr cfg H log P" and "valid_qc cr cfg q" and "qc_proposal_digest q = proposal_digest cr p"
    and "p \<in> P"
  shows "qc_view q = p_view p"
  using common_voter [OF assms(1,2,2)] history_inj [OF assms(1)] history_voted [OF assms(1)] assms(3,4)
  by metis

lemma certified_block:
  assumes "voting_history cr cfg H log P" and "valid_qc cr cfg q"
  obtains n e where "n \<in> H" "e \<in> set (log n)" "ve_proposal e \<in> P"
    "proposal_digest cr (ve_proposal e) = qc_proposal_digest q" "p_view (ve_proposal e) = qc_view q"
  using common_voter [OF assms(1,2,2)] history_voted [OF assms(1)] by metis

text \<open>A view certifies one block only.\<close>

lemma log_view_unique:
  assumes "log_law cr cfg lg" and "e \<in> set lg" "f \<in> set lg" and "p_view (ve_proposal e) = p_view (ve_proposal f)"
  shows "e = f"
proof -
  from assms(2,3) obtain i k where i: "i < length lg" "lg ! i = e" and k: "k < length lg" "lg ! k = f"
    by (auto simp: in_set_conv_nth)
  have sorted: "sorted_wrt later_vote lg" using assms(1) by (simp add: log_law_def)
  have "\<not> i < k" "\<not> k < i"
    using sorted_wrt_nth_less [OF sorted, of i k] sorted_wrt_nth_less [OF sorted, of k i] i k assms(4)
    by (auto simp: later_vote_def)
  with i k show ?thesis by (auto simp: linorder_neq_iff)
qed

lemma certified_view_unique:
  assumes "voting_history cr cfg H log P" and "valid_qc cr cfg q" and "valid_qc cr cfg r"
    and "qc_view q = qc_view r"
  shows "qc_proposal_digest q = qc_proposal_digest r" "qc_height q = qc_height r"
proof -
  obtain n e f where v: "n \<in> H" "e \<in> set (log n)" "f \<in> set (log n)"
    "proposal_digest cr (ve_proposal e) = qc_proposal_digest q" "p_view (ve_proposal e) = qc_view q"
    "p_height (ve_proposal e) = qc_height q"
    "proposal_digest cr (ve_proposal f) = qc_proposal_digest r" "p_view (ve_proposal f) = qc_view r"
    "p_height (ve_proposal f) = qc_height r"
    using common_voter [OF assms(1-3)] by metis
  have "e = f"
    using log_view_unique [OF history_log [OF assms(1) v(1)] v(2,3)] v(5,8) assms(4) by simp
  with v show "qc_proposal_digest q = qc_proposal_digest r" "qc_height q = qc_height r" by auto
qed

section \<open>A vote and the parent it extends\<close>

lemma view_succ:
  fixes v :: u64
  assumes "v \<noteq> -1"
  shows "v < v + 1"
proof -
  have "unat v \<noteq> 2 ^ 64 - 1"
    using assms word_unat_eq_iff [of v "-1"] by (simp add: unsigned_minus_1_eq_mask mask_eq_exp_minus_1)
  then have "unat v + 1 < 2 ^ 64" using unsigned_less [where 'a = nat, of v] by simp
  then show ?thesis by (simp add: word_less_nat_alt unat_word_ariths(1))
qed

lemma accepted_cases:
  assumes "qc_accepted cr cfg q"
  obtains (anchor) "qc_view q = 0" "qc_proposal_digest q = cfg_genesis_digest cfg" | (valid) "valid_qc cr cfg q"
  using assms by (auto simp: qc_accepted_def is_genesis_justify_def)

lemma valid_not_genesis:
  assumes "voting_history cr cfg H log P" and "valid_qc cr cfg q"
  shows "qc_proposal_digest q \<noteq> cfg_genesis_digest cfg"
  using certified_block [OF assms] history_genesis [OF assms(1)] by metis

lemma vote_justify:
  assumes "voting_history cr cfg H log P" and "n \<in> H" and "e \<in> set (log n)"
  shows "p_parent_digest (ve_proposal e) = qc_proposal_digest (ve_justify e)"
    and "qc_accepted cr cfg (ve_justify e)"
  using history_vote [OF assms] by (auto simp: vote_law_def justified_def)

lemma vote_justify_older:
  assumes "voting_history cr cfg H log P" and "n \<in> H" and "e \<in> set (log n)"
  shows "qc_view (ve_justify e) < p_view (ve_proposal e)"
proof -
  have law: "qc_view (ve_justify e) + 1 \<le> p_view (ve_proposal e)" "0 < p_view (ve_proposal e)"
    using history_vote [OF assms] by (auto simp: vote_law_def)
  from vote_justify(2) [OF assms] show ?thesis
  proof (cases rule: accepted_cases)
    case anchor
    with law show ?thesis by simp
  next
    case valid
    obtain m f where "m \<in> H" "f \<in> set (log m)" "p_view (ve_proposal f) = qc_view (ve_justify e)"
      using certified_block [OF assms(1) valid] by metis
    then have "qc_view (ve_justify e) \<noteq> -1"
      using assms(1) by (auto simp: voting_history_def views_in_range_def)
    then have "qc_view (ve_justify e) < qc_view (ve_justify e) + 1" by (rule view_succ)
    with law(1) show ?thesis by simp
  qed
qed

text \<open>The block of a correct vote is one above its parent.\<close>

lemma vote_extends:
  assumes hist: "voting_history cr cfg H log P" and e: "n \<in> H" "e \<in> set (log n)"
    and c: "c \<in> P" "proposal_digest cr c = p_parent_digest (ve_proposal e)"
    and ext: "extends_by cr P c a m"
  shows "extends_by cr P (ve_proposal e) a (Suc m)"
proof -
  have ng: "p_parent_digest (ve_proposal e) \<noteq> cfg_genesis_digest cfg"
    using history_genesis [OF hist c(1)] c(2) by simp
  then obtain p j where p: "(p, j) \<in> ve_known e" "proposal_digest cr p = p_parent_digest (ve_proposal e)"
      "p_height (ve_proposal e) = p_height p + 1"
    using history_vote [OF hist e] by (auto simp: vote_law_def)
  have "p = c" using history_inj [OF hist history_seen [OF hist e p(1)] c(1)] p(2) c(2) by simp
  have "valid_qc cr cfg (ve_justify e)"
    using vote_justify [OF hist e] ng by (auto elim: accepted_cases)
  then have "qc_view (ve_justify e) = p_view c"
    using certified_view [OF hist _ _ c(1)] vote_justify(1) [OF hist e] c(2) by simp
  with vote_justify_older [OF hist e] have "p_view c < p_view (ve_proposal e)" by simp
  with ext c p(3) \<open>p = c\<close> show ?thesis by (auto intro: child_block)
qed

section \<open>Committed blocks\<close>

text \<open>A certified three-chain in consecutive views.\<close>

definition three_chain ::
  "crypto \<Rightarrow> hotstuff_config \<Rightarrow> proposal set \<Rightarrow> proposal \<Rightarrow> proposal \<Rightarrow> proposal \<Rightarrow> bool" where
  "three_chain cr cfg P b0 b1 b2 \<longleftrightarrow>
     {b0, b1, b2} \<subseteq> P \<and>
     p_parent_digest b1 = proposal_digest cr b0 \<and> p_parent_digest b2 = proposal_digest cr b1 \<and>
     unat (p_view b1) = unat (p_view b0) + 1 \<and> unat (p_view b2) = unat (p_view b0) + 2 \<and>
     (\<forall>b \<in> {b0, b1, b2}. \<exists>q. valid_qc cr cfg q \<and> qc_proposal_digest q = proposal_digest cr b)"

lemma three_chain_voter:
  assumes hist: "voting_history cr cfg H log P" and chain: "three_chain cr cfg P b0 b1 b2"
    and b: "b \<in> {b0, b1, b2}"
  obtains q where "valid_qc cr cfg q" "qc_proposal_digest q = proposal_digest cr b" "qc_view q = p_view b"
proof -
  obtain q where q: "valid_qc cr cfg q" "qc_proposal_digest q = proposal_digest cr b"
    using chain b by (auto simp: three_chain_def)
  moreover have "qc_view q = p_view b"
    using certified_view [OF hist q] chain b by (auto simp: three_chain_def)
  ultimately show thesis using that by blast
qed

text \<open>The correct members that voted for \<open>b2\<close> were locked on \<open>b0\<close> or later from then on.\<close>

lemma three_chain_lock:
  assumes hist: "voting_history cr cfg H log P" and chain: "three_chain cr cfg P b0 b1 b2"
    and n: "n \<in> H" and e: "e \<in> set (log n)" "proposal_digest cr (ve_proposal e) = proposal_digest cr b2"
  shows "p_view b0 \<le> qc_view (ve_locked e)"
proof -
  have "ve_proposal e = b2"
    using history_inj [OF hist history_voted [OF hist n e(1)]] chain e(2) by (auto simp: three_chain_def)
  then have parent: "p_parent_digest (ve_proposal e) = proposal_digest cr b1" "b1 \<in> P" "b0 \<in> P"
    using chain by (auto simp: three_chain_def)
  then have "p_parent_digest (ve_proposal e) \<noteq> cfg_genesis_digest cfg" using history_genesis [OF hist] by metis
  then obtain p j where p: "(p, j) \<in> ve_known e" "proposal_digest cr p = p_parent_digest (ve_proposal e)"
      "qc_view j \<le> qc_view (ve_locked e)" "justified cr cfg (p, j)"
    using history_vote [OF hist n e(1)] by (auto simp: vote_law_def)
  have "p = b1" using history_inj [OF hist history_seen [OF hist n e(1) p(1)]] parent p(2) by simp
  then have j: "qc_proposal_digest j = proposal_digest cr b0" "qc_accepted cr cfg j"
    using p(4) chain by (auto simp: justified_def three_chain_def)
  then have "valid_qc cr cfg j"
    using history_genesis [OF hist parent(3)] by (auto elim: accepted_cases)
  then have "qc_view j = p_view b0" using certified_view [OF hist _ j(1) parent(3)] by simp
  with p(3) show ?thesis by simp
qed

text \<open>Along a path of known parents, from a certified block down to the locked one, every block is
  certified: if the locked block extends \<open>a\<close>, so does the block at the top.\<close>

lemma path_extends:
  assumes hist: "voting_history cr cfg H log P" and n: "n \<in> H" and e: "e \<in> set (log n)"
    and path: "parent_path cr (ve_known e) d l" and l: "l \<noteq> cfg_genesis_digest cfg"
    and q: "valid_qc cr cfg q" "qc_proposal_digest q = d" "qc_view q < v"
    and base: "\<And>r. valid_qc cr cfg r \<Longrightarrow> qc_proposal_digest r = l \<Longrightarrow> qc_view r < v \<Longrightarrow>
      \<exists>w \<in> P. proposal_digest cr w = l \<and> (\<exists>m. extends_by cr P w a m)"
  shows "\<exists>w \<in> P. proposal_digest cr w = d \<and> (\<exists>m. extends_by cr P w a m)"
  using path l q base
proof (induction arbitrary: q rule: parent_path.induct)
  case (path_here d)
  then show ?case by blast
next
  case (path_up p j d l)
  obtain k f where f: "k \<in> H" "f \<in> set (log k)" "ve_proposal f \<in> P"
      "proposal_digest cr (ve_proposal f) = d" "p_view (ve_proposal f) = qc_view q"
    using certified_block [OF hist path_up.prems(2)] path_up.prems(3) by metis
  have p: "p \<in> P" using history_seen [OF hist n e path_up.hyps(1)] .
  have pf: "ve_proposal f = p" using history_inj [OF hist f(3) p] f(4) path_up.hyps(2) by simp
  have just: "p_parent_digest p = qc_proposal_digest (ve_justify f)"
    using vote_justify(1) [OF hist f(1,2)] pf by simp
  have "qc_proposal_digest (ve_justify f) \<noteq> cfg_genesis_digest cfg"
    using path_up.hyps(3) path_up.prems(1) history_genesis [OF hist history_seen [OF hist n e]] just
    by (metis parent_path.cases)
  then have valid: "valid_qc cr cfg (ve_justify f)"
    using vote_justify(2) [OF hist f(1,2)] by (auto elim: accepted_cases)
  have "qc_view (ve_justify f) < v"
    using vote_justify_older [OF hist f(1,2)] f(5) path_up.prems(4) by simp
  then have "\<exists>w \<in> P. proposal_digest cr w = p_parent_digest p \<and> (\<exists>m. extends_by cr P w a m)"
    by (rule path_up.IH [OF path_up.prems(1) valid just [symmetric]]) (rule path_up.prems(5))
  then obtain w m where w: "w \<in> P" "proposal_digest cr w = p_parent_digest p" "extends_by cr P w a m"
    by blast
  have "extends_by cr P p a (Suc m)"
    using vote_extends [OF hist f(1,2) w(1) _ w(3)] w(2) pf by simp
  with p path_up.hyps(2) show ?case by blast
qed

text \<open>Of two votes in a log, the one in the later view has the later lock.\<close>

lemma log_locks:
  assumes "log_law cr cfg lg" and "f \<in> set lg" "e \<in> set lg" and "p_view (ve_proposal f) < p_view (ve_proposal e)"
  shows "qc_view (ve_locked f) \<le> qc_view (ve_locked e)"
proof -
  from assms(2,3) obtain i k where i: "i < length lg" "lg ! i = f" and k: "k < length lg" "lg ! k = e"
    by (auto simp: in_set_conv_nth)
  have sorted: "sorted_wrt later_vote lg" using assms(1) by (simp add: log_law_def)
  have "\<not> k < i" "i \<noteq> k"
    using sorted_wrt_nth_less [OF sorted, of k i] i k assms(4) by (auto simp: later_vote_def)
  then show ?thesis
    using sorted_wrt_nth_less [OF sorted, of i k] i k by (auto simp: later_vote_def)
qed

text \<open>A vote under a lock at or above the view of a block: its parent extends the block, if every
  older certificate at or above that view does.\<close>

lemma locked_extends:
  assumes hist: "voting_history cr cfg H log P" and n: "n \<in> H" and e: "e \<in> set (log n)"
    and lock: "v \<le> qc_view (ve_locked e)" and v: "0 < v"
    and older: "\<And>r. valid_qc cr cfg r \<Longrightarrow> v \<le> qc_view r \<Longrightarrow> qc_view r < p_view (ve_proposal e) \<Longrightarrow>
      \<exists>w \<in> P. proposal_digest cr w = qc_proposal_digest r \<and> (\<exists>m. extends_by cr P w a m)"
  shows "\<exists>w \<in> P. proposal_digest cr w = p_parent_digest (ve_proposal e) \<and> (\<exists>m. extends_by cr P w a m)"
proof -
  have law: "vote_law cr cfg e" by (rule history_vote [OF hist n e])
  have locked: "valid_qc cr cfg (ve_locked e)"
    using law lock v by (auto simp: vote_law_def elim: accepted_cases)
  note just = vote_justify [OF hist n e] vote_justify_older [OF hist n e]
  consider "parent_path cr (ve_known e) (p_parent_digest (ve_proposal e)) (qc_proposal_digest (ve_locked e))"
    | "qc_view (ve_locked e) < qc_view (ve_justify e)"
    using law valid_not_genesis [OF hist locked] by (auto simp: vote_law_def)
  then show ?thesis
  proof cases
    case 1
    show ?thesis
    proof (cases "valid_qc cr cfg (ve_justify e)")
      case True
      show ?thesis
      proof (rule path_extends [OF hist n e 1 valid_not_genesis [OF hist locked] True just(1) [symmetric] just(3)])
        fix r
        assume r: "valid_qc cr cfg r" "qc_proposal_digest r = qc_proposal_digest (ve_locked e)"
          "qc_view r < p_view (ve_proposal e)"
        have "qc_view r = qc_view (ve_locked e)"
          using certified_block [OF hist r(1)] certified_view [OF hist] r locked by metis
        then show "\<exists>w \<in> P. proposal_digest cr w = qc_proposal_digest (ve_locked e) \<and>
            (\<exists>m. extends_by cr P w a m)"
          using older [OF r(1) _ r(3)] r(2) lock by simp
      qed
    next
      case False
      then have "p_parent_digest (ve_proposal e) = cfg_genesis_digest cfg"
        using just by (auto elim: accepted_cases)
      with 1 show ?thesis
        using history_genesis [OF hist history_seen [OF hist n e]] valid_not_genesis [OF hist locked]
        by (metis parent_path.cases)
    qed
  next
    case 2
    then have "valid_qc cr cfg (ve_justify e)" using just(2) by (auto elim: accepted_cases)
    then show ?thesis using older [of "ve_justify e"] 2 lock just by auto
  qed
qed

text \<open>Every block certified at or above the view of the committed one extends it.\<close>

lemma committed_extended:
  assumes hist: "voting_history cr cfg H log P" and chain: "three_chain cr cfg P b0 b1 b2"
    and q: "valid_qc cr cfg q" "p_view b0 \<le> qc_view q"
  shows "\<exists>w \<in> P. proposal_digest cr w = qc_proposal_digest q \<and> (\<exists>m. extends_by cr P w b0 m)"
  using q
proof (induction "unat (qc_view q)" arbitrary: q rule: less_induct)
  case less
  have P: "b0 \<in> P" "b1 \<in> P" "b2 \<in> P" using chain by (auto simp: three_chain_def)
  obtain q0 where q0: "valid_qc cr cfg q0" "qc_proposal_digest q0 = proposal_digest cr b0" "qc_view q0 = p_view b0"
    using three_chain_voter [OF hist chain, of b0] by auto
  obtain q1 where q1: "valid_qc cr cfg q1" "qc_proposal_digest q1 = proposal_digest cr b1" "qc_view q1 = p_view b1"
    using three_chain_voter [OF hist chain, of b1] by auto
  obtain q2 where q2: "valid_qc cr cfg q2" "qc_proposal_digest q2 = proposal_digest cr b2" "qc_view q2 = p_view b2"
    using three_chain_voter [OF hist chain, of b2] by auto
  obtain n f e where v: "n \<in> H" "f \<in> set (log n)" "e \<in> set (log n)"
      "proposal_digest cr (ve_proposal f) = proposal_digest cr b2" "p_view (ve_proposal f) = p_view b2"
      "proposal_digest cr (ve_proposal e) = qc_proposal_digest q" "p_view (ve_proposal e) = qc_view q"
    using common_voter [OF hist q2(1) less.prems(1)] q2 by metis
  note eP = history_voted [OF hist v(1,3)]
  text \<open>It is enough that the parent of the block extends \<open>b0\<close>.\<close>
  have parent: ?case
    if "\<exists>w \<in> P. proposal_digest cr w = p_parent_digest (ve_proposal e) \<and> (\<exists>m. extends_by cr P w b0 m)"
    using that vote_extends [OF hist v(1,3)] eP v(6) by blast
  have older: "\<exists>w \<in> P. proposal_digest cr w = qc_proposal_digest r \<and> (\<exists>m. extends_by cr P w b0 m)"
    if "valid_qc cr cfg r" "p_view b0 \<le> qc_view r" "qc_view r < qc_view q" for r
    using less.hyps [of r] that by (simp add: word_less_nat_alt)
  have pos: "0 < p_view b0"
    using certified_block [OF hist q0(1)] history_vote [OF hist] q0(3) by (metis vote_law_def)
  have views: "unat (p_view b1) = unat (p_view b0) + 1" "unat (p_view b2) = unat (p_view b0) + 2"
    using chain by (auto simp: three_chain_def)
  consider "qc_view q = p_view b0" | "qc_view q = p_view b1" | "qc_view q = p_view b2" | "p_view b2 < qc_view q"
    using less.prems(2) views unfolding word_le_nat_alt word_less_nat_alt word_unat_eq_iff by linarith
  then show ?case
  proof cases
    case 1
    then show ?thesis
      using certified_view_unique(1) [OF hist less.prems(1) q0(1)] q0 P same_block by metis
  next
    case 2
    then have "qc_proposal_digest q = proposal_digest cr b1"
      using certified_view_unique(1) [OF hist less.prems(1) q1(1)] q1 by simp
    then have "ve_proposal e = b1" using history_inj [OF hist eP P(2)] v(6) by simp
    then have "p_parent_digest (ve_proposal e) = proposal_digest cr b0"
      using chain by (simp add: three_chain_def)
    then show ?thesis using parent P(1) same_block by metis
  next
    case 3
    then have "qc_proposal_digest q = proposal_digest cr b2"
      using certified_view_unique(1) [OF hist less.prems(1) q2(1)] q2 by simp
    then have "ve_proposal e = b2" using history_inj [OF hist eP P(3)] v(6) by simp
    moreover have "\<exists>w \<in> P. proposal_digest cr w = proposal_digest cr b1 \<and> (\<exists>m. extends_by cr P w b0 m)"
      using older [OF q1(1)] q1 3 views by (simp add: word_le_nat_alt word_less_nat_alt)
    moreover have "p_parent_digest b2 = proposal_digest cr b1" using chain by (simp add: three_chain_def)
    ultimately show ?thesis using parent by simp
  next
    case 4
    have lock: "p_view b0 \<le> qc_view (ve_locked e)"
      using three_chain_lock [OF hist chain v(1,2,4)] log_locks [OF history_log [OF hist v(1)] v(2,3)] v(5,7) 4
      by simp
    show ?thesis
      by (rule parent) (rule locked_extends [OF hist v(1,3) lock], use older v(7) pos in auto)
  qed
qed

section \<open>Commit proofs\<close>

definition proof_proposals :: "commit_proof \<Rightarrow> proposal set" where
  "proof_proposals pr = cb_proposal ` set (cp_chain pr)"

definition committed_proposal :: "commit_proof \<Rightarrow> proposal" where
  "committed_proposal pr = cb_proposal (hd (cp_chain pr))"

definition consecutive_views :: "commit_proof \<Rightarrow> bool" where
  "consecutive_views pr \<longleftrightarrow>
     (case map (unat \<circ> p_view \<circ> cb_proposal) (cp_chain pr) of
        [v0, v1, v2] \<Rightarrow> v1 = v0 + 1 \<and> v2 = v0 + 2
      | _ \<Rightarrow> False)"

text \<open>The correct members run the replica on their file stores; each has its own name and key.\<close>

definition correct_runs ::
  "crypto \<Rightarrow> codec \<Rightarrow> hotstuff_config \<Rightarrow> node_id set \<Rightarrow> (node_id \<Rightarrow> epoch_vote_key)
     \<Rightarrow> (node_id \<Rightarrow> vote_entry list) \<Rightarrow> bool" where
  "correct_runs cr cd cfg H keys log \<longleftrightarrow>
     (\<forall>n \<in> H. \<exists>hs st. replica_run (file_store_ops cr cd) (file_store_ok cd) (fs_possible cr cd) cr
        (cfg\<lparr>cfg_self := n\<rparr>) (keys n) hs st (log n))"

lemma log_law_self [simp]: "log_law cr (cfg\<lparr>cfg_self := n\<rparr>) = log_law cr cfg"
proof -
  have "vote_law cr (cfg\<lparr>cfg_self := n\<rparr>) = vote_law cr cfg"
    by (simp add: vote_law_def justified_def qc_accepted_def is_genesis_justify_def cfg_context_def
        fun_eq_iff)
  then show ?thesis by (intro ext) (simp add: log_law_def)
qed

lemma runs_history:
  assumes "correct_members cfg H" and "correct_runs cr cd cfg H keys log" and "unforgeable cr cfg H log"
    and "no_collision cr cfg H log P" and "views_in_range H log"
  shows "voting_history cr cfg H log P"
proof -
  have "log_law cr cfg (log n)" if n: "n \<in> H" for n
  proof -
    obtain hs st where "replica_run (file_store_ops cr cd) (file_store_ok cd) (fs_possible cr cd) cr
        (cfg\<lparr>cfg_self := n\<rparr>) (keys n) hs st (log n)"
      using assms(2) n unfolding correct_runs_def by blast
    then show ?thesis using fs.run_log_law by fastforce
  qed
  with assms show ?thesis by (simp add: voting_history_def)
qed

lemma verified_three_chain:
  assumes "verify_commit_proof cr td pr (cfg_context cfg) (cfg_vote_keys cfg) = CpNone"
    and "consecutive_views pr" and "proof_proposals pr \<subseteq> P"
  obtains b1 b2 q where "three_chain cr cfg P (committed_proposal pr) b1 b2"
    "valid_qc cr cfg q" "qc_proposal_digest q = proposal_digest cr (committed_proposal pr)"
  using assms(1)
proof (cases rule: verify_commit_proof_none)
  case (1 b0 b1 b2)
  have "three_chain cr cfg P (cb_proposal b0) (cb_proposal b1) (cb_proposal b2)"
    using 1 assms(2,3)
    by (auto simp: three_chain_def proof_link_def Let_def consecutive_views_def proof_proposals_def)
  with 1 that show thesis
    by (auto simp: committed_proposal_def proof_link_def Let_def)
qed

lemma committed_ordered:
  assumes hist: "voting_history cr cfg H log P"
    and pr: "verify_commit_proof cr td pr (cfg_context cfg) (cfg_vote_keys cfg) = CpNone"
      "consecutive_views pr" "proof_proposals pr \<subseteq> P"
    and pr': "verify_commit_proof cr td' pr' (cfg_context cfg) (cfg_vote_keys cfg) = CpNone"
      "consecutive_views pr'" "proof_proposals pr' \<subseteq> P"
    and le: "p_view (committed_proposal pr) \<le> p_view (committed_proposal pr')"
  shows "\<exists>n. extends_by cr P (committed_proposal pr') (committed_proposal pr) n"
proof -
  obtain b1 b2 q where chain: "three_chain cr cfg P (committed_proposal pr) b1 b2"
    using verified_three_chain [OF pr] by blast
  obtain c1 c2 r where chain': "three_chain cr cfg P (committed_proposal pr') c1 c2"
      and r: "valid_qc cr cfg r" "qc_proposal_digest r = proposal_digest cr (committed_proposal pr')"
    using verified_three_chain [OF pr'] by blast
  have P': "committed_proposal pr' \<in> P" using chain' by (auto simp: three_chain_def)
  have "qc_view r = p_view (committed_proposal pr')" using certified_view [OF hist r P'] .
  then obtain w m where "w \<in> P" "proposal_digest cr w = proposal_digest cr (committed_proposal pr')"
      "extends_by cr P w (committed_proposal pr) m"
    using committed_extended [OF hist chain r(1)] le r(2) by auto
  then show ?thesis using history_inj [OF hist _ P'] by blast
qed

end
