(* ===== verification/Hotstuff_Progress.thy ===== *)
theory Hotstuff_Progress
  imports Consensus_Store
begin

text \<open>
  What a replica produces. Votes are collected per view, and a certificate formed from them
  validates everywhere; the loops that follow parent digests end where the hash has no cycles, so
  that every call returns; and the pages a replica serves are linked chains of bounded length.
\<close>

section \<open>The vote ledger changes only with a vote\<close>

named_theorems ledger_frame

lemma small_steps_votes [ledger_frame]:
  "hs_votes_by_view (advance_high_qc q hs) = hs_votes_by_view hs"
  "hs_votes_by_view (raise_lock q hs) = hs_votes_by_view hs"
  "hs_votes_by_view (prune_committed hs) = hs_votes_by_view hs"
  "hs_votes_by_view (sync_to_certified v hs) = hs_votes_by_view hs"
  "hs_votes_by_view (synchronize_view cfg hs) = hs_votes_by_view hs"
  by (simp_all add: advance_high_qc_def raise_lock_def prune_committed_def sync_to_certified_def
      synchronize_view_def Let_def)

lemma block_steps_votes [ledger_frame]:
  "hs_votes_by_view (accept_block d p j pl hs) = hs_votes_by_view hs"
  "hs_votes_by_view (hold_orphan p j payload hs) = hs_votes_by_view hs"
  "hs_votes_by_view (adopt_into_chain cfg d p j q hs) = hs_votes_by_view hs"
  "hs_votes_by_view (restore_entry cr hs p j q) = hs_votes_by_view hs"
  by (simp_all add: accept_block_def hold_orphan_def adopt_into_chain_def restore_entry_def Let_def ledger_frame)

lemma commit_loop_votes:
  "commit_loop cr cfg hs commits chain = (hs', commits', b) \<Longrightarrow> hs_votes_by_view hs' = hs_votes_by_view hs"
  by (induction cr cfg hs commits chain rule: commit_loop.induct) (auto split: option.splits)

lemma apply_chain_rules_votes:
  assumes "apply_chain_rules ops cr cfg hs st j commits = Some (hs', st', commits')"
  shows "hs_votes_by_view hs' = hs_votes_by_view hs"
  using assms
proof (cases rule: apply_chain_rules_cases)
  case (commit b2 b1 b0)
  from commit(4) show ?thesis
    by (cases rule: commit_chain_cases) (auto simp: ledger_frame dest!: commit_loop_votes)
qed (simp_all add: ledger_frame)

lemma emit_vote_votes:
  "emit_vote ops cr cfg key p d commits hs st = (r, hs', st') \<Longrightarrow> hs_votes_by_view hs' = hs_votes_by_view hs"
  by (auto simp: emit_vote_def store_certified_chain_def Let_def split: if_splits prod.splits bool.splits option.splits)

lemma vote_stage_votes:
  "vote_stage ops cr cfg key p j d refused commits hs st = Some (r, hs', st') \<Longrightarrow>
     hs_votes_by_view hs' = hs_votes_by_view hs"
  by (auto simp: vote_stage_def Let_def split: if_splits option.splits bool.splits dest: emit_vote_votes)

lemma receive_proposal_votes:
  assumes "receive_proposal ops cr cfg key p j payload hs st = Some (r, hs', st')"
  shows "hs_votes_by_view hs' = hs_votes_by_view hs"
proof -
  have "hs_votes_by_view hs'' = hs_votes_by_view hs0"
    if "place_proposal ops cr cfg key p j payload d refused hs0 st = Some (r', hs'', st'')" for d refused hs0 r' hs'' st''
    using that
    by (auto simp: place_proposal_def accept_proposal_def ledger_frame
        split: chain_position.splits if_splits option.splits prod.splits
        dest!: apply_chain_rules_votes vote_stage_votes)
  then show ?thesis
    using assms by (fastforce simp: receive_proposal_def Let_def split: option.splits if_splits)
qed

lemma adopt_certified_block_votes:
  "adopt_certified_block ops cr cfg p j q commits hs st = Some (f, commits', hs', st') \<Longrightarrow>
     hs_votes_by_view hs' = hs_votes_by_view hs"
  by (auto simp: adopt_certified_block_def ledger_frame split: option.splits dest!: apply_chain_rules_votes)

lemma receive_timeout_votes:
  "receive_timeout cr cfg t hs = (c, hs') \<Longrightarrow> hs_votes_by_view hs' = hs_votes_by_view hs"
  by (auto simp: receive_timeout_def Let_def ledger_frame split: option.splits if_splits)

lemma take_linkable_orphan_votes:
  "take_linkable_orphan cfg hs = (orph, hs') \<Longrightarrow> hs_votes_by_view hs' = hs_votes_by_view hs"
  by (auto simp: take_linkable_orphan_def Let_def split: option.splits if_splits)

lemma restore_loop_votes: "hs_votes_by_view (restore_loop cr cfg q prev hs chain) = hs_votes_by_view hs"
  by (induction cr cfg q prev hs chain rule: restore_loop.induct) (auto simp: ledger_frame Let_def)

lemma hotstuff_service_votes: "hotstuff_service ops cr cfg st = Inr hs \<Longrightarrow> hs_votes_by_view hs = []"
  by (auto simp: hotstuff_service_def restart_views_def restore_stored_chain_def hotstuff_fresh_def
      restore_loop_votes Let_def split: if_splits loaded.splits)

section \<open>Collected votes are verified\<close>

definition vote_collected :: "crypto \<Rightarrow> hotstuff_config \<Rightarrow> u64 \<Rightarrow> node_id \<Rightarrow> vote \<Rightarrow> bool" where
  "vote_collected cr cfg view n v \<longleftrightarrow>
     v_voter v = n \<and> v_view v = view \<and> v_consensus_ruleset v = cfg_consensus_ruleset cfg \<and>
     v_network_id v = cfg_network_id cfg \<and> v_epoch v = cfg_epoch cfg \<and>
     (\<exists>key. map_of (cfg_vote_keys cfg) n = Some key \<and> verify_digest cr key (vote_digest cr v) (v_signature v))"

definition ledger_verified :: "crypto \<Rightarrow> hotstuff_config \<Rightarrow> u64 \<Rightarrow> (node_id, vote) smap \<Rightarrow> bool" where
  "ledger_verified cr cfg view ledger \<longleftrightarrow>
     smap_ok ledger \<and> (\<forall>(n, v) \<in> set ledger. vote_collected cr cfg view n v)"

definition ledgers_verified :: "crypto \<Rightarrow> hotstuff_config \<Rightarrow> hotstuff \<Rightarrow> bool" where
  "ledgers_verified cr cfg hs \<longleftrightarrow>
     (\<forall>(view, ledger) \<in> set (hs_votes_by_view hs). ledger_verified cr cfg view ledger)"

lemma view_ledger_verified:
  "ledgers_verified cr cfg hs \<Longrightarrow> ledger_verified cr cfg view (view_ledger (hs_votes_by_view hs) view)"
  by (auto simp: view_ledger_def ledgers_verified_def ledger_verified_def split: option.split dest!: map_of_SomeD)

lemma vote_precheck_collected:
  "vote_precheck cr cfg hs v = None \<Longrightarrow> vote_collected cr cfg (v_view v) (v_voter v) v"
  by (auto simp: vote_precheck_def vote_collected_def split: if_splits option.splits)

lemma ledger_verified_put:
  assumes "ledger_verified cr cfg (v_view v) ledger" and "vote_collected cr cfg (v_view v) (v_voter v) v"
  shows "ledger_verified cr cfg (v_view v) (smap_put (v_voter v) v ledger)"
  using assms set_smap_put_subset [of "v_voter v" v ledger] smap_ok_put [of ledger "v_voter v" v]
  unfolding ledger_verified_def by blast

lemma count_votes_frame: "count_votes cfg hs v ledger = (c, hs') \<Longrightarrow> hs_votes_by_view hs' = hs_votes_by_view hs"
  by (auto simp: count_votes_def Let_def ledger_frame split: if_splits)

text \<open>A vote is refused, already counted, or enters the ledger of its view.\<close>

lemma receive_vote_cases:
  assumes "receive_vote cr cfg v hs = (c, hs')"
  obtains (kept) "hs_votes_by_view hs' = hs_votes_by_view hs" "\<And>q. c \<noteq> Formed q"
  | (counted) ledger where "ledger = smap_put (v_voter v) v (view_ledger (hs_votes_by_view hs) (v_view v))"
      "vote_precheck cr cfg hs v = None"
      "hs_votes_by_view hs' = smap_put (v_view v) ledger (hs_votes_by_view hs)"
      "count_votes cfg (hs\<lparr>hs_votes_by_view := smap_put (v_view v) ledger (hs_votes_by_view hs)\<rparr>) v ledger = (c, hs')"
  using assms that
  by (auto simp: receive_vote_def Let_def split: option.splits if_splits dest!: count_votes_frame)

lemma receive_vote_verified:
  assumes "receive_vote cr cfg v hs = (c, hs')" and inv: "ledgers_verified cr cfg hs"
  shows "ledgers_verified cr cfg hs'"
  using assms(1)
proof (cases rule: receive_vote_cases)
  case kept
  then show ?thesis using inv by (simp add: ledgers_verified_def)
next
  case (counted ledger)
  have "ledger_verified cr cfg (v_view v) ledger"
    unfolding counted(1)
    by (rule ledger_verified_put [OF view_ledger_verified [OF inv] vote_precheck_collected [OF counted(2)]])
  then show ?thesis
    using inv set_smap_put_subset [of "v_view v" ledger "hs_votes_by_view hs"]
    unfolding ledgers_verified_def counted(3) by blast
qed

lemma ledgers_verified_frame:
  "hs_votes_by_view hs' = hs_votes_by_view hs \<Longrightarrow> ledgers_verified cr cfg hs \<Longrightarrow> ledgers_verified cr cfg hs'"
  by (simp add: ledgers_verified_def)

lemma ledgers_verified_Nil: "hs_votes_by_view hs = [] \<Longrightarrow> ledgers_verified cr cfg hs"
  by (simp add: ledgers_verified_def)

lemma run_ledgers_verified:
  "replica_run ops store_ok possible cr cfg key hs st log \<Longrightarrow> ledgers_verified cr cfg hs"
proof (induction rule: replica_run.induct)
  case (start st hs)
  then show ?case by (blast intro: ledgers_verified_Nil hotstuff_service_votes)
next
  case (proposal hs st log tv pv p j payload r hs' st')
  then show ?case by (blast intro: ledgers_verified_frame receive_proposal_votes)
next
  case (vote hs st log v c hs')
  then show ?case by (blast intro: receive_vote_verified)
next
  case (timeout hs st log t tc hs')
  then show ?case by (blast intro: ledgers_verified_frame receive_timeout_votes)
next
  case (adopt hs st log p j q commits f commits' hs' st')
  then show ?case by (blast intro: ledgers_verified_frame adopt_certified_block_votes)
next
  case (orphan hs st log orph hs')
  then show ?case by (blast intro: ledgers_verified_frame take_linkable_orphan_votes)
next
  case (sync hs st log floor)
  then show ?case by (blast intro: ledgers_verified_frame small_steps_votes)
next
  case (restart hs st log hs')
  then show ?case by (blast intro: ledgers_verified_Nil hotstuff_service_votes)
qed

text \<open>The certificate of a quorum of collected votes.\<close>

lemma count_votes_Formed:
  assumes "count_votes cfg hs v ledger = (Formed q, hs')"
  obtains matching where "matching = filter (\<lambda>(n, e). v_proposal_digest e = v_proposal_digest v \<and> v_height e = v_height v) ledger"
    "cfg_quorum cfg \<le> length matching" "q = certificate_of_votes v matching"
  using assms that by (auto simp: count_votes_def Let_def not_less split: if_splits)

lemma formed_valid:
  assumes "ledger_verified cr cfg (v_view v) ledger" and "vote_collected cr cfg (v_view v) (v_voter v) v"
    and "length (cfg_vote_keys cfg) \<le> kMaxQcSignatures" and "count_votes cfg hs v ledger = (Formed q, hs')"
  shows "valid_qc cr cfg q"
proof -
  obtain matching where m: "matching = filter (\<lambda>(n, e). v_proposal_digest e = v_proposal_digest v \<and> v_height e = v_height v) ledger"
    "cfg_quorum cfg \<le> length matching" "q = certificate_of_votes v matching"
    using assms(4) by (rule count_votes_Formed)
  have entry: "vote_collected cr cfg (v_view v) n e \<and> v_proposal_digest e = v_proposal_digest v \<and> v_height e = v_height v"
    if "(n, e) \<in> set matching" for n e
    using that assms(1) by (auto simp: m(1) ledger_verified_def)
  have keys: "distinct (map fst matching)"
    using assms(1) smap_ok_filter [of ledger] smap_ok_distinct by (auto simp: m(1) ledger_verified_def)
  have voters: "certifiers q = fst ` set matching"
    using entry by (force simp: m(3) certificate_of_votes_def certifiers_def vote_collected_def image_iff)
  have members: "certifiers q \<subseteq> dom (map_of (cfg_vote_keys cfg))"
    using entry by (fastforce simp: voters vote_collected_def)
  have card: "card (certifiers q) = length matching"
    using distinct_card [OF keys] by (simp add: voters)
  have "card (certifiers q) \<le> card (fst ` set (cfg_vote_keys cfg))"
    using members by (intro card_mono) (auto simp: dom_map_of_conv_image_fst)
  also have "\<dots> \<le> length (cfg_vote_keys cfg)" using card_image_le card_length order.trans by blast
  finally have len: "length (qc_signers q) \<le> kMaxQcSignatures"
    using assms(3) card by (simp add: m(3) certificate_of_votes_def)
  have "qc_signature_ok cr (cfg_vote_keys cfg) q s" if s: "s \<in> set (qc_signers q)" for s
  proof -
    obtain n e where e: "(n, e) \<in> set matching" "s = \<lparr>qs_node_id = v_voter e, qs_signature = v_signature e\<rparr>"
      using s by (auto simp: m(3) certificate_of_votes_def)
    then show ?thesis
      using entry [OF e(1)] assms(2)
      by (auto simp: qc_signature_ok_def vote_collected_def vote_digest_def m(3) certificate_of_votes_def)
  qed
  then have "list_all (qc_signature_ok cr (cfg_vote_keys cfg) q) (distinct_signers qs_node_id {} (qc_signers q))"
    using distinct_signers_set(1) [of qs_node_id "{}" "qc_signers q"] by (auto simp: list_all_iff)
  moreover have "qc_format_version q = kQcFormatVersion" "qc_consensus_ruleset q = cfg_consensus_ruleset cfg"
    "qc_network_id q = cfg_network_id cfg" "qc_epoch q = cfg_epoch cfg"
    using assms(2) by (simp_all add: m(3) certificate_of_votes_def vote_collected_def)
  ultimately show ?thesis
    using members len card m(2) by (simp add: qc_valid_iff cfg_context_def)
qed

section \<open>Every call returns\<close>

text \<open>A rank of digests that falls from a block to its parent: the hash has no cycles on the blocks.\<close>

definition parents_below :: "(digest \<Rightarrow> nat) \<Rightarrow> (digest, block_record) smap \<Rightarrow> bool" where
  "parents_below r blocks \<longleftrightarrow> (\<forall>(d, b) \<in> set blocks. r (p_parent_digest (br_proposal b)) < r d)"

lemma parents_below_lookup:
  "parents_below r blocks \<Longrightarrow> map_of blocks d = Some b \<Longrightarrow> r (p_parent_digest (br_proposal b)) < r d"
  by (drule map_of_SomeD) (auto simp: parents_below_def)

definition below :: "(digest \<Rightarrow> nat) \<Rightarrow> (digest, block_record) smap \<Rightarrow> digest \<Rightarrow> digest set" where
  "below r blocks d = {d' \<in> dom (map_of blocks). r d' \<le> r d}"

lemma below_parent:
  assumes "parents_below r blocks" and "map_of blocks d = Some b"
  shows "card (below r blocks (p_parent_digest (br_proposal b))) < card (below r blocks d)"
proof (rule psubset_card_mono)
  show "finite (below r blocks d)" by (simp add: below_def finite_dom_map_of)
  have "d \<in> below r blocks d" "d \<notin> below r blocks (p_parent_digest (br_proposal b))"
    using assms(2) parents_below_lookup [OF assms] by (auto simp: below_def)
  moreover have "below r blocks (p_parent_digest (br_proposal b)) \<subseteq> below r blocks d"
    using parents_below_lookup [OF assms] by (auto simp: below_def)
  ultimately show "below r blocks (p_parent_digest (br_proposal b)) \<subset> below r blocks d" by blast
qed

lemma below_fuel: "card (below r blocks d) < Suc (length blocks)"
proof -
  have "card (below r blocks d) \<le> card (fst ` set blocks)"
    by (intro card_mono) (auto simp: below_def dom_map_of_conv_image_fst)
  also have "\<dots> \<le> length blocks" using card_image_le card_length order.trans by blast
  finally show ?thesis by simp
qed

lemma extends_walk_returns:
  assumes "parents_below r blocks"
  shows "card (below r blocks parent) < n \<Longrightarrow> extends_walk n locked genesis blocks parent \<noteq> None"
proof (induction n arbitrary: parent)
  case (Suc n)
  have "extends_walk n locked genesis blocks (p_parent_digest (br_proposal b)) \<noteq> None"
    if "map_of blocks parent = Some b" for b
    using below_parent [OF assms that] Suc by simp
  then show ?case by (auto split: option.split)
qed simp

lemma ancestor_walk_returns:
  assumes "parents_below r blocks"
  shows "card (below r blocks (p_parent_digest (br_proposal current))) < n \<Longrightarrow>
    ancestor_walk n genesis committed blocks current chain \<noteq> None"
proof (induction n arbitrary: current chain)
  case (Suc n)
  have "ancestor_walk n genesis committed blocks b (current # chain) \<noteq> None"
    if "map_of blocks (p_parent_digest (br_proposal current)) = Some b" for b
    using below_parent [OF assms that] Suc by simp
  then show ?case by (simp add: Let_def split: option.split)
qed simp

lemma apply_chain_rules_returns:
  assumes "parents_below r (hs_blocks hs)"
  shows "apply_chain_rules ops cr cfg hs st j commits \<noteq> None"
proof -
  have "commit_chain ops cr cfg (raise_lock q hs) st b0 commits \<noteq> None" for q b0
    using ancestor_walk_returns [OF assms below_fuel, of "cfg_genesis_digest cfg"
        "hs_last_committed_height (raise_lock q hs)" b0 "[]"]
    by (auto simp: commit_chain_def simp del: ancestor_walk.simps split: option.splits prod.splits bool.splits)
  then show ?thesis by (simp add: apply_chain_rules_def Let_def split: option.split)
qed

lemma vote_stage_returns:
  assumes "parents_below r (hs_blocks hs)"
  shows "vote_stage ops cr cfg key p j d refused commits hs st \<noteq> None"
proof -
  have "extends_locked cfg hs p \<noteq> None"
    using extends_walk_returns [OF assms below_fuel]
    by (auto simp: extends_locked_def Let_def simp del: extends_walk.simps)
  then have "safe_node cfg hs p j \<noteq> None" by (auto simp: safe_node_def split: option.splits bool.splits)
  then show ?thesis
    by (cases "emit_vote ops cr cfg key p d commits hs st")
      (auto simp: vote_stage_def Let_def split: option.splits bool.splits)
qed

lemma parents_below_subset: "parents_below r B \<Longrightarrow> set B' \<subseteq> set B \<Longrightarrow> parents_below r B'"
  by (auto simp: parents_below_def)

lemma parents_below_put:
  "parents_below r B \<Longrightarrow> r (p_parent_digest (br_proposal b)) < r d \<Longrightarrow> parents_below r (smap_put d b B)"
  using set_smap_put_subset [of d b B] by (fastforce simp: parents_below_def)

lemma receive_proposal_returns:
  assumes "parents_below r (hs_blocks hs)" and "r (p_parent_digest p) < r (proposal_digest cr p)"
  shows "receive_proposal ops cr cfg key p j payload hs st \<noteq> None"
proof -
  have "accept_proposal ops cr cfg key p j payload (proposal_digest cr p) refused hs' st' \<noteq> None"
    if same: "hs_blocks hs' = hs_blocks hs" for refused hs' st'
  proof -
    obtain matched pr where judge: "judge_payload cr cfg p payload = (matched, pr)" by fastforce
    define hs2 where "hs2 = accept_block (proposal_digest cr p) p j matched hs'"
    have below: "parents_below r (hs_blocks hs2)"
      using accept_block_core(4) [of "proposal_digest cr p" p j matched hs'] parents_below_put assms same
      by (auto simp: hs2_def)
    obtain hs3 st3 commits where rules: "apply_chain_rules ops cr cfg hs2 st' j [] = Some (hs3, st3, commits)"
      using apply_chain_rules_returns [OF below, of ops cr cfg st' j "[]"] by auto
    then have "parents_below r (hs_blocks hs3)"
      using below apply_chain_rules_frame(3) [OF rules] by (blast intro: parents_below_subset)
    then show ?thesis
      using vote_stage_returns judge rules by (simp add: accept_proposal_def hs2_def [symmetric])
  qed
  then have "place_proposal ops cr cfg key p j payload (proposal_digest cr p) refused hs' st' \<noteq> None"
    if "hs_blocks hs' = hs_blocks hs" for refused hs' st'
    using that by (simp add: place_proposal_def split: chain_position.split)
  then show ?thesis by (simp add: receive_proposal_def Let_def split: option.split)
qed

lemma adopt_certified_block_returns:
  assumes "parents_below r (hs_blocks hs)" and "r (p_parent_digest p) < r (proposal_digest cr p)"
  shows "adopt_certified_block ops cr cfg p j q commits hs st \<noteq> None"
proof -
  have "\<exists>b. hs_blocks (adopt_into_chain cfg d p j q hs) = smap_put d b (hs_blocks hs) \<and> br_proposal b = p" for d
    by (auto simp: adopt_into_chain_def advance_high_qc_def Let_def)
  then have "parents_below r (hs_blocks (adopt_into_chain cfg (proposal_digest cr p) p j q hs))"
    using assms parents_below_put by metis
  then show ?thesis
    using apply_chain_rules_returns [of r "adopt_into_chain cfg (proposal_digest cr p) p j q hs" ops cr cfg st q commits]
    by (auto simp: adopt_certified_block_def split: option.splits)
qed

lemma run_parents_below:
  assumes "replica_run (file_store_ops cr cd) (file_store_ok cd) (fs_possible cr cd) cr cfg key hs st log"
    and "\<forall>q \<in> fst ` known_blocks hs. r (p_parent_digest q) < r (proposal_digest cr q)"
  shows "parents_below r (hs_blocks hs)"
proof -
  have "blocks_ok cr cfg (hs_blocks hs)" using fs.run_inv [OF assms(1)] by (simp add: replica_inv_def)
  then show ?thesis
    using assms(2) by (force simp: blocks_ok_def parents_below_def known_blocks_def)
qed

section \<open>Pages\<close>

text \<open>Each block of a chain names the one before it as its parent.\<close>

definition chain_linked :: "crypto \<Rightarrow> (proposal \<times> quorum_certificate) list \<Rightarrow> bool" where
  "chain_linked cr = successively (\<lambda>a b. p_parent_digest (fst b) = proposal_digest cr (fst a))"

lemma chain_linked_snoc:
  "chain_linked cr chain \<Longrightarrow> page_linked cr chain p \<Longrightarrow> chain_linked cr (chain @ [(p, j)])"
  by (auto simp: chain_linked_def page_linked_def successively_append_iff)

lemma page_committed_chain:
  assumes "page_committed n cr hs height chain q = (chain', q')" and "chain_linked cr chain"
  shows "chain_linked cr chain' \<and> length chain' \<le> length chain + n"
  using assms
proof (induction n cr hs height chain q rule: page_committed.induct)
  case (2 n cr hs height chain q)
  then show ?case
    by (fastforce split: if_splits option.splits dest: chain_linked_snoc)
qed simp

lemma page_uncommitted_chain:
  assumes "page_uncommitted cr hs rest chain q = (chain', q')" and "chain_linked cr chain"
    and "length chain \<le> kMaxSyncChainBlocks"
  shows "chain_linked cr chain' \<and> length chain' \<le> kMaxSyncChainBlocks"
  using assms
proof (induction cr hs rest chain q rule: page_uncommitted.induct)
  case (2 cr hs p j rest chain q)
  then show ?case
    by (fastforce simp: Let_def split: if_splits option.splits dest: chain_linked_snoc)
qed simp

lemma page_uncommitted_nonempty:
  "page_uncommitted cr hs rest chain q = (chain', q') \<Longrightarrow> chain \<noteq> [] \<Longrightarrow> chain' \<noteq> []"
  by (induction cr hs rest chain q rule: page_uncommitted.induct) (auto simp: Let_def split: if_splits option.splits)

section \<open>Properties\<close>

text \<open>A page a replica serves to a node that catches up is never empty, has at most the compiled number
  of blocks, and each of its blocks names the one before it as its parent, whatever the state of the
  replica.\<close>

theorem certified_page_linked:
  "case certified_page_after cr cfg hs after of
     None \<Rightarrow> True
   | Some page \<Rightarrow> cc_chain page \<noteq> [] \<and> length (cc_chain page) \<le> kMaxSyncChainBlocks \<and>
       chain_linked cr (cc_chain page)"
proof -
  obtain chain q where committed: "page_committed kMaxSyncChainBlocks cr hs (after + 1) [] empty_qc = (chain, q)"
    by fastforce
  have chain: "chain_linked cr chain" "length chain \<le> kMaxSyncChainBlocks"
    using page_committed_chain [OF committed] by (simp_all add: chain_linked_def)
  obtain chain' q' where "page_uncommitted cr hs (uncommitted_chain cfg hs) chain q = (chain', q')" by fastforce
  then show ?thesis
    using chain committed page_uncommitted_chain page_uncommitted_nonempty
    by (fastforce simp: certified_page_after_def Let_def)
qed

end
