(* ===== verification/Hotstuff_World.thy ===== *)
theory Hotstuff_World
  imports Hotstuff_Agreement Hotstuff_Progress
begin

text \<open>
  Concrete executions of the replica. On a disk whose calls succeed a vote that passes the safe-node
  rule is stored and leaves the node. Five correct members then run the service on a scripted
  sequence of proposals, either one chain in consecutive views or two chains in alternating views,
  and vote for every block. The first run satisfies the hypotheses of agreement; the second is the
  one that breaks it.
\<close>

section \<open>A vote leaves the node\<close>

lemma uncommitted_walk_length: "length (uncommitted_walk n cfg hs cursor chain) \<le> n + length chain"
proof (induction n arbitrary: cursor chain)
  case (Suc n)
  have "length (uncommitted_walk n cfg hs cursor' (b # chain)) \<le> Suc n + length chain" for cursor' b
    using Suc [of cursor' "b # chain"] by simp
  then show ?case by (simp split: option.split)
qed simp

lemma store_certified_chain_ok:
  "\<exists>calls. \<forall>rest. \<exists>dk' q. store_certified_chain (file_store_ops cr cd) cr cfg hs
      \<lparr>fs_disk = dk, fs_calls = calls @ rest\<rparr> =
      (True, hs\<lparr>hs_stored_chain_qc := q\<rparr>, \<lparr>fs_disk = dk', fs_calls = rest\<rparr>) \<and>
    dk_visible dk' (safety_path e) = dk_visible dk (safety_path e)"
proof -
  define chain where "chain = uncommitted_chain cfg hs"
  define payload where "payload = json_dump cd (chain_to_json cr cd (cfg_epoch cfg)
    \<lparr>cc_chain = chain, cc_certifying = hs_high_qc hs\<rparr>)"
  have len: "length chain \<le> kMaxSyncChainBlocks"
    using uncommitted_walk_length [of kMaxSyncChainBlocks cfg hs _ "[]"]
    by (simp add: chain_def uncommitted_chain_def)
  show ?thesis
  proof (cases "hs_stored_chain_qc hs = Some (qc_digest cr (hs_high_qc hs)) \<or> chain = [] \<or>
      proposal_digest cr (fst (last chain)) \<noteq> qc_proposal_digest (hs_high_qc hs)")
    case True
    have same: "hs\<lparr>hs_stored_chain_qc := hs_stored_chain_qc hs\<rparr> = hs" by simp
    show ?thesis
      by (rule exI [of _ "[]"], intro allI, rule exI [of _ dk], rule exI [of _ "hs_stored_chain_qc hs"])
        (use True same in \<open>auto simp: store_certified_chain_def chain_def [symmetric] Let_def\<close>)
  next
    case False
    have "\<exists>dk' q. store_certified_chain (file_store_ops cr cd) cr cfg hs
        \<lparr>fs_disk = dk, fs_calls = [ok_calls (length payload)] @ rest\<rparr> =
        (True, hs\<lparr>hs_stored_chain_qc := q\<rparr>, \<lparr>fs_disk = dk', fs_calls = rest\<rparr>) \<and>
      dk_visible dk' (safety_path e) = dk_visible dk (safety_path e)" for rest
    proof -
      obtain dk' where dk': "fs_write (chain_path (cfg_epoch cfg)) payload
          \<lparr>fs_disk = dk, fs_calls = ok_calls (length payload) # rest\<rparr> = (True, \<lparr>fs_disk = dk', fs_calls = rest\<rparr>)"
        "\<forall>q. q \<noteq> chain_path (cfg_epoch cfg) \<longrightarrow> q \<noteq> chain_path (cfg_epoch cfg) @ ''.tmp'' \<longrightarrow>
          dk_visible dk' q = dk_visible dk q"
        using fs_write_ok [of payload "length payload" "chain_path (cfg_epoch cfg)" dk rest] by blast
      have "dk_visible dk' (safety_path e) = dk_visible dk (safety_path e)" using dk'(2) by simp
      moreover have "store_certified_chain (file_store_ops cr cd) cr cfg hs
          \<lparr>fs_disk = dk, fs_calls = [ok_calls (length payload)] @ rest\<rparr> =
          (True, hs\<lparr>hs_stored_chain_qc := Some (qc_digest cr (hs_high_qc hs))\<rparr>, \<lparr>fs_disk = dk', fs_calls = rest\<rparr>)"
        using False len dk'(1)
        by (simp add: store_certified_chain_def chain_def [symmetric] Let_def file_store_ops_def
            fs_store_chain_def payload_def)
      ultimately show ?thesis by blast
    qed
    then show ?thesis by blast
  qed
qed

text \<open>Whatever the state of the disk, if its calls succeed from now on and the stored state is not ahead,
  the vote is stored and returned.\<close>

lemma emit_vote_ok:
  assumes "codec_ok cd" and "qc_storable (hs_high_qc hs)" and "qc_storable (hs_locked_qc hs)"
    and "length (vk_private_key key) = 64"
    and "fs_load cr cd (cfg_epoch cfg) st = Absent \<or>
      (\<exists>prior. fs_load cr cd (cfg_epoch cfg) st = Loaded prior \<and> state_le prior (pending_state cfg hs p))"
  shows "\<exists>calls res q st'. emit_vote (file_store_ops cr cd) cr cfg key p d commits hs (st\<lparr>fs_calls := calls\<rparr>) =
      (Inr res, hs\<lparr>hs_last_voted_view := p_view p, hs_stored_chain_qc := q\<rparr>, st') \<and> pr_vote res \<noteq> None \<and>
    fs_load cr cd (cfg_epoch cfg) st' = Loaded (pending_state cfg hs p)"
proof -
  obtain dk cs where st: "st = \<lparr>fs_disk = dk, fs_calls = cs\<rparr>" by (cases st)
  define s where "s = pending_state cfg hs p"
  obtain calls where calls: "\<forall>rest. \<exists>dk' q. store_certified_chain (file_store_ops cr cd) cr cfg hs
      \<lparr>fs_disk = dk, fs_calls = calls @ rest\<rparr> =
      (True, hs\<lparr>hs_stored_chain_qc := q\<rparr>, \<lparr>fs_disk = dk', fs_calls = rest\<rparr>) \<and>
    dk_visible dk' (safety_path (cfg_epoch cfg)) = dk_visible dk (safety_path (cfg_epoch cfg))"
    using store_certified_chain_ok by blast
  let ?rest = "[ok_calls (length (state_payload cr cd s))]"
  obtain dk' q where chain: "store_certified_chain (file_store_ops cr cd) cr cfg hs
      \<lparr>fs_disk = dk, fs_calls = calls @ ?rest\<rparr> =
      (True, hs\<lparr>hs_stored_chain_qc := q\<rparr>, \<lparr>fs_disk = dk', fs_calls = ?rest\<rparr>)"
    "dk_visible dk' (safety_path (cfg_epoch cfg)) = dk_visible dk (safety_path (cfg_epoch cfg))"
    using calls by blast
  have load: "fs_load cr cd (cfg_epoch cfg) \<lparr>fs_disk = dk', fs_calls = ?rest\<rparr> = fs_load cr cd (cfg_epoch cfg) st"
    using chain(2) by (simp add: fs_load_def st)
  obtain st' where st': "fs_store_before_vote cr cd s \<lparr>fs_disk = dk', fs_calls = ?rest\<rparr> = (True, st')"
    "fs_load cr cd (cfg_epoch cfg) st' = Loaded s"
    using store_before_vote_ok [OF assms(1), of s cr dk' ?rest "[]"] assms(2,3,5) load by (auto simp: s_def)
  obtain sg where "sign_digest cr key (vote_signing_digest cr (cfg_consensus_ruleset cfg) (cfg_network_id cfg)
      (cfg_epoch cfg) (p_height p) (p_view p) d (cfg_self cfg)) = Some sg"
    using assms(4) by (simp add: sign_digest_def)
  moreover have "hotstuff_state_of cfg (hs\<lparr>hs_stored_chain_qc := q\<rparr>) = hotstuff_state_of cfg hs"
    by (simp add: hotstuff_state_of_def)
  ultimately have "\<exists>res. emit_vote (file_store_ops cr cd) cr cfg key p d commits hs
      (st\<lparr>fs_calls := calls @ ?rest\<rparr>) =
      (Inr res, hs\<lparr>hs_last_voted_view := p_view p, hs_stored_chain_qc := q\<rparr>, st') \<and> pr_vote res \<noteq> None"
    using chain(1) st'(1)
    by (simp add: emit_vote_def st make_vote_def Let_def s_def pending_state_def file_store_ops_def)
  then show ?thesis using st'(2) unfolding s_def by blast
qed

section \<open>The world\<close>

text \<open>Five members, of which four are a quorum. Block \<open>k\<close> is proposed in view \<open>k\<close> on top of block
  \<open>k - gap\<close>, where block zero is the genesis anchor: one chain for gap one, two for gap two. Digests are
  numbered: blocks from 1, certificates from 10, votes from 100.\<close>

definition world_members :: "node_id list" where
  "world_members = map NodeId [1, 2, 3, 4, 5]"

definition vote_number :: "nat \<Rightarrow> node_id \<Rightarrow> digest" where
  "vote_number k n = of_nat (100 + 8 * k + unat (node_bytes n))"

definition world_height :: "nat \<Rightarrow> nat \<Rightarrow> u64" where
  "world_height gap k = of_nat ((k + gap - 1) div gap)"

definition block_number :: "nat \<Rightarrow> digest" where
  "block_number k = (if k = 0 then 99 else of_nat k)"

definition world_qc :: "nat \<Rightarrow> nat \<Rightarrow> quorum_certificate" where
  "world_qc gap k =
     \<lparr>qc_format_version = kQcFormatVersion, qc_consensus_ruleset = kConsensusRulesetVersion, qc_network_id = 7,
      qc_epoch = 3, qc_height = (if k = 0 then 0 else world_height gap k), qc_view = of_nat k,
      qc_proposal_digest = block_number k,
      qc_signers = (if k = 0 then []
        else map (\<lambda>n. \<lparr>qs_node_id = n, qs_signature = ucast (vote_number k n)\<rparr>) world_members)\<rparr>"

definition world_block :: "nat \<Rightarrow> nat \<Rightarrow> proposal" where
  "world_block gap k =
     \<lparr>p_security_ruleset = kSecurityRulesetVersion, p_consensus_ruleset = kConsensusRulesetVersion,
      p_network_id = 7, p_epoch = 3, p_height = world_height gap k, p_view = of_nat k,
      p_leader = world_members ! (k mod 5), p_parent_digest = block_number (k - gap),
      p_justify_qc_digest = of_nat (10 + (k - gap)), p_previous_state_root = 0, p_proposed_state_root = 0,
      p_transitions_digest = 0, p_timestamp_hint = 0\<rparr>"

definition world_vote_stream :: "nat \<Rightarrow> nat \<times> node_id \<Rightarrow> byte list" where
  "world_vote_stream gap = (\<lambda>(k, n).
     vote_stream kConsensusRulesetVersion 7 3 (world_height gap k) (of_nat k) (block_number k) n)"

definition world_votes :: "nat \<Rightarrow> (nat \<times> node_id) list" where
  "world_votes gap = List.product [1..<3 * gap + 1] world_members"

definition qc_number :: "nat \<Rightarrow> digest" where
  "qc_number k = of_nat (10 + k)"

definition block_table :: "nat \<Rightarrow> (byte list \<times> digest) list" where
  "block_table gap = map (\<lambda>k. (proposal_stream (world_block gap k), block_number k)) [1..<3 * gap + 1]"

definition qc_table :: "nat \<Rightarrow> (byte list \<times> digest) list" where
  "qc_table gap = map (\<lambda>k. (qc_stream (world_qc gap k), qc_number k)) [0..<3 * gap + 1]"

definition vote_table :: "nat \<Rightarrow> (byte list \<times> digest) list" where
  "vote_table gap = map (\<lambda>v. (world_vote_stream gap v, vote_number (fst v) (snd v))) (world_votes gap)"

text \<open>Streams outside the table hash to zero, and no signature of the digest zero verifies.\<close>

definition world_crypto :: "nat \<Rightarrow> crypto" where
  "world_crypto gap =
     \<lparr>sha256 = (\<lambda>s. case map_of (block_table gap @ qc_table gap @ vote_table gap) s of None \<Rightarrow> 0 | Some d \<Rightarrow> d),
      sign_detached = (\<lambda>key d. ucast d),
      verify_detached = (\<lambda>key d s. d \<noteq> 0 \<and> s = ucast d)\<rparr>"

definition world_config :: hotstuff_config where
  "world_config =
     \<lparr>cfg_security_ruleset = kSecurityRulesetVersion, cfg_consensus_ruleset = kConsensusRulesetVersion,
      cfg_network_id = 7, cfg_epoch = 3, cfg_genesis_digest = 99, cfg_leader_order = world_members,
      cfg_vote_keys = map (\<lambda>n. (n, node_bytes n)) world_members, cfg_quorum = 4, cfg_self = NodeId 1,
      cfg_transition_validator = None, cfg_payload_validator = None\<rparr>"

definition world_key :: "node_id \<Rightarrow> epoch_vote_key" where
  "world_key n = \<lparr>vk_epoch = 3, vk_node_id = n, vk_public_key = node_bytes n, vk_private_key = replicate 64 0\<rparr>"

definition world_record :: "nat \<Rightarrow> nat \<Rightarrow> block_record" where
  "world_record gap k =
     \<lparr>br_proposal = world_block gap k, br_justify = world_qc gap (k - gap), br_digest = block_number k,
      br_payload = None\<rparr>"

definition world_entry :: "nat \<Rightarrow> nat \<Rightarrow> vote_entry" where
  "world_entry gap k =
     \<lparr>ve_proposal = world_block gap k, ve_justify = world_qc gap (k - gap),
      ve_locked = world_qc gap (k - 2 * gap),
      ve_known = (\<lambda>j. (world_block gap j, world_qc gap (j - gap))) ` {1..k}\<rparr>"

definition world_log :: "nat \<Rightarrow> nat \<Rightarrow> vote_entry list" where
  "world_log gap k = map (world_entry gap) [1..<k + 1]"

section \<open>Digests of the world\<close>

lemma map_of_mapped:
  "map_of (map (\<lambda>x. (f x, g x)) xs) (f x) = Some (g x)" if "inj_on f (set xs)" "x \<in> set xs"
  using that by (induction xs) (auto simp: inj_on_def)

lemma map_of_mapped_None: "map_of (map (\<lambda>x. (f x, g x)) xs) s = None \<longleftrightarrow> s \<notin> f ` set xs"
  by (induction xs) auto

lemma small_unat: "k < 2 ^ 64 \<Longrightarrow> unat (of_nat k :: u64) = k"
  by (simp add: unat_of_nat take_bit_eq_mod)

lemma small_view:
  assumes "j \<le> 6" and "k \<le> 6"
  shows "(of_nat j :: u64) = of_nat k \<longleftrightarrow> j = k"
proof -
  have "unat (of_nat j :: u64) = j" "unat (of_nat k :: u64) = k" using assms by (auto intro: small_unat)
  then show ?thesis by metis
qed

definition gap_ok :: "nat \<Rightarrow> bool" where
  "gap_ok gap \<longleftrightarrow> gap = 1 \<or> gap = 2"

lemma gap_bounds: "gap_ok gap \<Longrightarrow> 1 \<le> gap \<and> 3 * gap \<le> 6"
  by (auto simp: gap_ok_def)

lemma world_block_inj: "j \<le> 6 \<Longrightarrow> k \<le> 6 \<Longrightarrow> world_block gap j = world_block gap k \<longleftrightarrow> j = k"
  using small_view [of j k] by (auto simp: world_block_def)

lemma world_qc_inj: "j \<le> 6 \<Longrightarrow> k \<le> 6 \<Longrightarrow> qc_stream (world_qc gap j) = qc_stream (world_qc gap k) \<longleftrightarrow> j = k"
  using small_view [of j k] by (auto simp: stream_simps qc_header_def world_qc_def)

lemma world_vote_inj:
  "fst v \<le> 6 \<Longrightarrow> fst w \<le> 6 \<Longrightarrow> world_vote_stream gap v = world_vote_stream gap w \<longleftrightarrow> v = w"
  using small_view [of "fst v" "fst w"]
  by (cases v; cases w) (auto simp: world_vote_stream_def stream_simps)

lemma table_misses:
  "map_of (block_table gap) (qc_stream q) = None"
  "map_of (block_table gap) (vote_stream rs nw ep ht vw pd vt) = None"
  "map_of (qc_table gap) (vote_stream rs nw ep ht vw pd vt) = None"
  by (auto simp: block_table_def qc_table_def map_of_mapped_None stream_simps simp del: upt_Suc)

lemma world_sha256:
  "sha256 (world_crypto gap) s = (case map_of (block_table gap) s of Some d \<Rightarrow> d
     | None \<Rightarrow> (case map_of (qc_table gap) s of Some d \<Rightarrow> d
       | None \<Rightarrow> (case map_of (vote_table gap) s of Some d \<Rightarrow> d | None \<Rightarrow> 0)))"
  by (simp add: world_crypto_def map_add_def split: option.split)

lemma world_proposal_digest:
  assumes "gap_ok gap" and "1 \<le> k" and "k \<le> 3 * gap"
  shows "proposal_digest (world_crypto gap) (world_block gap k) = block_number k"
proof -
  have "inj_on (\<lambda>k. proposal_stream (world_block gap k)) (set [1..<3 * gap + 1])"
    using gap_bounds [OF assms(1)] by (intro inj_onI) (auto simp: stream_simps world_block_inj simp del: upt_Suc)
  then have "map_of (block_table gap) (proposal_stream (world_block gap k)) = Some (block_number k)"
    using assms unfolding block_table_def by (intro map_of_mapped) (auto simp del: upt_Suc)
  then show ?thesis by (simp add: proposal_digest_def encoder_digest_def world_sha256)
qed

lemma world_qc_digest:
  assumes "gap_ok gap" and "k \<le> 3 * gap"
  shows "qc_digest (world_crypto gap) (world_qc gap k) = qc_number k"
proof -
  have "inj_on (\<lambda>k. qc_stream (world_qc gap k)) (set [0..<3 * gap + 1])"
    using gap_bounds [OF assms(1)] by (intro inj_onI) (auto simp: world_qc_inj simp del: upt_Suc)
  then have "map_of (qc_table gap) (qc_stream (world_qc gap k)) = Some (qc_number k)"
    using assms unfolding qc_table_def by (intro map_of_mapped) (auto simp del: upt_Suc)
  then show ?thesis by (simp add: qc_digest_def encoder_digest_def world_sha256 table_misses)
qed

text \<open>A vote digest is not zero exactly for the votes of the world.\<close>

lemma world_vote_digest:
  assumes "gap_ok gap"
  shows "vote_signing_digest (world_crypto gap) kConsensusRulesetVersion 7 3 height view d n =
    (if \<exists>k \<in> {1..3 * gap}. n \<in> set world_members \<and> height = world_height gap k \<and> view = of_nat k \<and>
        d = block_number k
     then vote_number (unat view) n else 0)"
proof -
  let ?s = "vote_stream kConsensusRulesetVersion 7 3 height view d n"
  have votes: "set (world_votes gap) = {1..3 * gap} \<times> set world_members"
    by (auto simp: world_votes_def)
  have inj: "inj_on (world_vote_stream gap) (set (world_votes gap))"
    using gap_bounds [OF assms] by (intro inj_onI) (auto simp: votes world_vote_inj)
  have hash: "vote_signing_digest (world_crypto gap) kConsensusRulesetVersion 7 3 height view d n =
      (case map_of (vote_table gap) ?s of Some d \<Rightarrow> d | None \<Rightarrow> 0)"
    by (simp add: vote_signing_digest_def encoder_digest_def world_sha256 table_misses)
  show ?thesis
  proof (cases "\<exists>k \<in> {1..3 * gap}. n \<in> set world_members \<and> height = world_height gap k \<and> view = of_nat k \<and>
        d = block_number k")
    case True
    then obtain k where k: "k \<in> {1..3 * gap}" "n \<in> set world_members" "?s = world_vote_stream gap (k, n)"
      "view = of_nat k"
      by (auto simp: world_vote_stream_def)
    then have "map_of (vote_table gap) ?s = Some (vote_number k n)"
      using map_of_mapped [OF inj, of "(k, n)" "\<lambda>v. vote_number (fst v) (snd v)"] votes
      by (simp add: vote_table_def)
    moreover have "unat view = k" using k(1,4) gap_bounds [OF assms] by (simp add: small_unat)
    ultimately show ?thesis using True hash by simp
  next
    case False
    then have "?s \<notin> world_vote_stream gap ` set (world_votes gap)"
      by (auto simp: world_vote_stream_def votes stream_simps)
    then have "map_of (vote_table gap) ?s = None" by (simp add: map_of_mapped_None vote_table_def)
    then show ?thesis using hash by (simp only: False if_False option.case)
  qed
qed

lemma world_vote_digest_known:
  assumes "gap_ok gap" and "1 \<le> k" and "k \<le> 3 * gap" and "n \<in> set world_members"
  shows "vote_signing_digest (world_crypto gap) kConsensusRulesetVersion 7 3 (world_height gap k) (of_nat k)
    (block_number k) n = vote_number k n"
proof -
  have "\<exists>k' \<in> {1..3 * gap}. n \<in> set world_members \<and> world_height gap k = world_height gap k' \<and>
      (of_nat k :: u64) = of_nat k' \<and> block_number k = block_number k'"
    using assms by (intro bexI [of _ k]) simp_all
  moreover have "unat (of_nat k :: u64) = k" using gap_bounds [OF assms(1)] assms(3) by (simp add: small_unat)
  ultimately show ?thesis unfolding world_vote_digest [OF assms(1)] by simp
qed

lemma vote_number_nonzero:
  assumes "k \<le> 6" and "n \<in> set world_members"
  shows "vote_number k n \<noteq> 0"
proof
  have small: "unat (of_nat m :: digest) = m" if "m < 2 ^ 256" for m
    using that by (simp add: unat_of_nat take_bit_eq_mod)
  have "unat (node_bytes n) \<le> 5" using assms(2) by (auto simp: world_members_def)
  then have "unat (vote_number k n) = 100 + 8 * k + unat (node_bytes n)"
    using assms(1) small [of "100 + 8 * k + unat (node_bytes n)"] unfolding vote_number_def by simp
  moreover assume "vote_number k n = 0"
  ultimately show False by simp
qed

text \<open>Every certificate of the world is accepted.\<close>

lemma world_config_simps [simp]:
  "cfg_consensus_ruleset world_config = kConsensusRulesetVersion" "cfg_network_id world_config = 7"
  "cfg_epoch world_config = 3" "cfg_genesis_digest world_config = 99" "cfg_quorum world_config = 4"
  "cfg_security_ruleset world_config = kSecurityRulesetVersion" "cfg_leader_order world_config = world_members"
  "cfg_vote_keys world_config = map (\<lambda>n. (n, node_bytes n)) world_members"
  by (simp_all add: world_config_def)

lemma world_keys: "map_of (map (\<lambda>n. (n, node_bytes n)) world_members) n =
    (if n \<in> set world_members then Some (node_bytes n) else None)"
  using map_of_mapped [of "\<lambda>n. n" world_members n node_bytes] map_of_mapped_None [of "\<lambda>n. n" node_bytes world_members n]
  by auto

lemma world_qc_valid:
  assumes "gap_ok gap" and "1 \<le> k" and "k \<le> 3 * gap"
  shows "valid_qc (world_crypto gap) world_config (world_qc gap k)"
proof -
  note b = gap_bounds [OF assms(1)]
  have "certifiers (world_qc gap k) = set world_members"
    using assms(2) by (simp add: certifiers_def world_qc_def image_image)
  moreover have "card (set world_members) = 5" by (simp add: world_members_def)
  moreover have "qc_signature_ok (world_crypto gap) (map (\<lambda>n. (n, node_bytes n)) world_members) (world_qc gap k) s"
    if "s \<in> set (qc_signers (world_qc gap k))" for s
  proof -
    obtain n where n: "n \<in> set world_members" "s = \<lparr>qs_node_id = n, qs_signature = ucast (vote_number k n)\<rparr>"
      using \<open>s \<in> set (qc_signers (world_qc gap k))\<close> assms(2) by (auto simp: world_qc_def)
    then have "vote_signing_digest (world_crypto gap) kConsensusRulesetVersion 7 3 (world_height gap k) (of_nat k)
        (block_number k) n = vote_number k n"
      using world_vote_digest_known [OF assms(1-3)] by simp
    then show ?thesis
      using n vote_number_nonzero [of k n] b assms(2,3)
      by (simp add: qc_signature_ok_def world_keys world_qc_def verify_digest_def world_crypto_def)
  qed
  ultimately show ?thesis
    using assms(2) distinct_signers_set(1) [of qs_node_id "{}" "qc_signers (world_qc gap k)"]
    unfolding qc_valid_iff
    by (auto simp: cfg_context_def world_qc_def world_keys dom_def list_all_iff
        kMaxQcSignatures_def kMaxActiveTier1_def world_members_def)
qed

lemma world_qc_accepted:
  assumes "gap_ok gap" and "k \<le> 3 * gap"
  shows "is_genesis_justify world_config (world_qc gap k) \<or> valid_qc (world_crypto gap) world_config (world_qc gap k)"
proof (cases "k = 0")
  case True
  then show ?thesis by (simp add: is_genesis_justify_def world_qc_def block_number_def)
next
  case False
  then show ?thesis using world_qc_valid [OF assms(1), of k] assms(2) by simp
qed

section \<open>The replica in the world\<close>

abbreviation world_replica :: "node_id \<Rightarrow> hotstuff_config" where
  "world_replica n \<equiv> world_config\<lparr>cfg_self := n\<rparr>"

lemma world_replica_simps [simp]:
  "cfg_context (world_replica n) = cfg_context world_config"
  "is_genesis_justify (world_replica n) = is_genesis_justify world_config"
  "with_validators None None (world_replica n) = world_replica n"
  by (simp_all add: cfg_context_def is_genesis_justify_def fun_eq_iff with_validators_def world_config_def)

text \<open>The state after the votes for the blocks up to \<open>k\<close>; \<open>lock\<close> is the block the replica is locked on.\<close>

definition world_blocks :: "nat \<Rightarrow> nat \<Rightarrow> (digest, block_record) smap" where
  "world_blocks gap k = map (\<lambda>j. (block_number j, world_record gap j)) [1..<k + 1]"

definition world_hs :: "nat \<Rightarrow> nat \<Rightarrow> nat \<Rightarrow> nat \<Rightarrow> hotstuff \<Rightarrow> bool" where
  "world_hs gap k voted lock hs \<longleftrightarrow>
     \<not> hs_failed hs \<and> hs_synced hs \<and> unat (hs_current_view hs) \<le> k + 1 \<and>
     hs_last_voted_view hs = of_nat voted \<and> hs_high_qc hs = world_qc gap (k - gap) \<and>
     hs_locked_qc hs = world_qc gap lock \<and> hs_last_committed_height hs = 0 \<and>
     hs_blocks hs = world_blocks gap k \<and>
     hs_accepted_by_view hs = map (\<lambda>j. (of_nat j, block_number j)) [1..<k + 1]"

lemma smap_put_append: "\<forall>e \<in> set m. fst e < k \<Longrightarrow> smap_put k v m = m @ [(k, v)]"
  by (induction m) auto

lemma unat_block_number: "k \<le> 6 \<Longrightarrow> unat (block_number k) = (if k = 0 then 99 else k)"
  by (simp add: block_number_def unat_of_nat take_bit_eq_mod)

lemma block_number_inj:
  assumes "i \<le> 6" and "j \<le> 6"
  shows "block_number i = block_number j \<longleftrightarrow> i = j"
proof
  assume "block_number i = block_number j"
  then have "(if i = 0 then 99 else i) = (if j = 0 then 99 else j)"
    using unat_block_number [OF assms(1)] unat_block_number [OF assms(2)] by argo
  then show "i = j" using assms by (auto split: if_splits)
qed simp

lemma world_blocks_get:
  assumes "k \<le> 6" and "i \<le> 6"
  shows "map_of (world_blocks gap k) (block_number i) = (if 1 \<le> i \<and> i \<le> k then Some (world_record gap i) else None)"
proof (cases "1 \<le> i \<and> i \<le> k")
  case True
  have "inj_on block_number (set [1..<k + 1])"
    using assms(1) by (intro inj_onI) (auto simp: block_number_inj simp del: upt_Suc)
  then show ?thesis
    using True unfolding world_blocks_def by (simp add: map_of_mapped del: upt_Suc)
next
  case False
  then have "block_number i \<notin> block_number ` set [1..<k + 1]"
    using assms by (auto simp: block_number_inj simp del: upt_Suc)
  then have "map_of (world_blocks gap k) (block_number i) = None"
    unfolding world_blocks_def by (simp only: map_of_mapped_None not_False_eq_True)
  then show ?thesis using False by auto
qed

lemma world_blocks_put:
  assumes "k < 6"
  shows "smap_put (block_number (k + 1)) (world_record gap (k + 1)) (world_blocks gap k) = world_blocks gap (k + 1)"
proof -
  have "\<forall>e \<in> set (world_blocks gap k). fst e < block_number (k + 1)"
    using assms by (auto simp: world_blocks_def word_less_nat_alt unat_block_number simp del: upt_Suc)
  then show ?thesis by (simp add: smap_put_append world_blocks_def)
qed

lemma world_accepted_put:
  assumes "k < 6"
  shows "smap_put (of_nat (k + 1) :: u64) (block_number (k + 1)) (map (\<lambda>j. (of_nat j, block_number j)) [1..<k + 1]) =
      map (\<lambda>j. (of_nat j, block_number j)) [1..<k + 1 + 1]"
    and "map_of (map (\<lambda>j. (of_nat j :: u64, block_number j)) [1..<k + 1]) (of_nat (k + 1)) = None"
proof -
  have "\<forall>e \<in> set (map (\<lambda>j. (of_nat j :: u64, block_number j)) [1..<k + 1]). fst e < of_nat (k + 1)"
    using assms small_unat [of "k + 1"] by (auto simp: word_less_nat_alt small_unat simp del: upt_Suc)
  then show "smap_put (of_nat (k + 1) :: u64) (block_number (k + 1)) (map (\<lambda>j. (of_nat j, block_number j)) [1..<k + 1]) =
      map (\<lambda>j. (of_nat j, block_number j)) [1..<k + 1 + 1]"
    by (subst smap_put_append) simp_all
  have "(of_nat (k + 1) :: u64) \<noteq> of_nat j" if "j < k + 1" for j
    using that assms small_view [of "k + 1" j] by simp
  then show "map_of (map (\<lambda>j. (of_nat j :: u64, block_number j)) [1..<k + 1]) (of_nat (k + 1)) = None"
    unfolding map_of_mapped_None by (metis imageE atLeastLessThan_iff set_upt)
qed

lemma world_precheck:
  assumes "gap_ok gap" and "k < 3 * gap" and "world_hs gap k voted lock hs"
  shows "proposal_precheck (world_crypto gap) (world_replica n) hs (world_block gap (k + 1)) (world_qc gap (k + 1 - gap)) = None"
  using world_qc_digest [OF assms(1), of "k + 1 - gap"] world_qc_accepted [OF assms(1), of "k + 1 - gap"]
    gap_bounds [OF assms(1)] assms(2,3)
  by (auto simp: proposal_precheck_def world_hs_def world_block_def world_qc_def qc_number_def)

lemma world_view_check:
  assumes "gap_ok gap" and "k < 3 * gap" and "unat (hs_current_view hs) \<le> k + 1"
  shows "proposal_view_check (world_replica n) hs (world_block gap (k + 1)) = None"
proof -
  have k: "unat (of_nat (k + 1) :: u64) = k + 1"
    using gap_bounds [OF assms(1)] assms(2) by (intro small_unat) simp
  have "unat (hs_current_view hs + kMaxFutureViewDistance) = unat (hs_current_view hs) + 64"
    using gap_bounds [OF assms(1)] assms(2,3) by (simp add: kMaxFutureViewDistance_def unat_word_ariths)
  then have "\<not> of_nat (k + 1) > hs_current_view hs + kMaxFutureViewDistance"
    using k gap_bounds [OF assms(1)] assms(2) by (simp add: word_less_nat_alt del: of_nat_Suc)
  moreover have "\<not> of_nat (k + 1) < hs_current_view hs"
    using k assms(3) by (simp add: word_less_nat_alt del: of_nat_Suc)
  moreover have "leader_at world_members (of_nat (k + 1)) = Some (world_members ! ((k + 1) mod 5))"
    unfolding leader_at_def k by (simp add: world_members_def)
  ultimately show ?thesis by (simp add: proposal_view_check_def world_block_def)
qed

lemma world_height_succ: "gap_ok gap \<Longrightarrow> gap < k \<Longrightarrow> world_height gap k = world_height gap (k - gap) + 1"
  by (auto simp: gap_ok_def world_height_def elim: less_natE)

lemma world_position:
  assumes "gap_ok gap" and "k < 3 * gap" and "hs_blocks hs = world_blocks gap k"
  shows "chain_position (world_replica n) hs (world_block gap (k + 1)) = Linked"
proof (cases "k + 1 \<le> gap")
  case True
  then show ?thesis
    using assms(1) by (auto simp: chain_position_def world_block_def block_number_def world_height_def gap_ok_def)
next
  case False
  then have "map_of (world_blocks gap k) (block_number (k + 1 - gap)) = Some (world_record gap (k + 1 - gap))"
    using gap_bounds [OF assms(1)] assms(2) by (subst world_blocks_get) auto
  moreover have "block_number (k + 1 - gap) \<noteq> 99"
    using block_number_inj [of "k + 1 - gap" 0] gap_bounds [OF assms(1)] assms(2) False
    by (simp add: block_number_def)
  ultimately show ?thesis
    using world_height_succ [OF assms(1), of "k + 1"] False assms(3)
    by (simp add: chain_position_def world_block_def world_record_def)
qed

lemma qc_view_world [simp]: "qc_view (world_qc gap k) = of_nat k" "qc_proposal_digest (world_qc gap k) = block_number k"
  by (simp_all add: world_qc_def)

lemma world_block_simps [simp]:
  "p_view (world_block gap k) = of_nat k" "p_parent_digest (world_block gap k) = block_number (k - gap)"
  "p_height (world_block gap k) = world_height gap k"
  by (simp_all add: world_block_def)

lemma world_record_fold:
  "\<lparr>br_proposal = world_block gap k, br_justify = world_qc gap (k - gap), br_digest = block_number k,
    br_payload = None\<rparr> = world_record gap k"
  by (simp add: world_record_def)

lemma view_order: "i \<le> 6 \<Longrightarrow> j \<le> 6 \<Longrightarrow> (of_nat i :: u64) < of_nat j \<longleftrightarrow> i < j"
  using small_unat [of i] small_unat [of j] by (simp add: word_less_nat_alt)

lemma world_accept_block:
  assumes "gap_ok gap" and "k < 3 * gap" and "world_hs gap k k (k - 2 * gap) hs"
  shows "world_hs gap (k + 1) k (k - 2 * gap)
    (accept_block (block_number (k + 1)) (world_block gap (k + 1)) (world_qc gap (k + 1 - gap)) None hs)"
proof -
  note b = gap_bounds [OF assms(1)]
  have k: "k < 6" using b assms(2) by simp
  have none: "map_of (world_blocks gap k) (block_number (k + 1)) = None"
    using world_blocks_get [of k "k + 1" gap] k by simp
  have qc: "(if qc_view (world_qc gap (k + 1 - gap)) > qc_view (world_qc gap (k - gap))
      then world_qc gap (k + 1 - gap) else world_qc gap (k - gap)) = world_qc gap (k + 1 - gap)"
    using view_order [of "k - gap" "k + 1 - gap"] k b by (cases "k < gap") auto
  show ?thesis
    using assms(3) none qc world_blocks_put [OF k, of gap] world_accepted_put(1) [OF k]
    by (auto simp: world_hs_def accept_block_def advance_high_qc_def world_record_fold Let_def
        simp del: upt_Suc split: if_splits)
qed

lemma world_chain_rules:
  assumes "gap_ok gap" and "1 \<le> k" and "k \<le> 3 * gap" and "world_hs gap k voted (k - 1 - 2 * gap) hs"
  shows "\<exists>hs'. (\<forall>st. apply_chain_rules ops cr (world_replica n) hs st (world_qc gap (k - gap)) [] = Some (hs', st, [])) \<and>
    world_hs gap k voted (k - 2 * gap) hs'"
proof -
  note b = gap_bounds [OF assms(1)]
  have get: "map_of (world_blocks gap k) (block_number i) = (if 1 \<le> i then Some (world_record gap i) else None)"
    if "i \<le> k" for i
    using world_blocks_get [of k i gap] b assms(3) that by simp
  have lock: "hs_locked_qc hs = world_qc gap (k - 1 - 2 * gap)" "hs_blocks hs = world_blocks gap k"
    using assms(4) by (simp_all add: world_hs_def)
  show ?thesis
  proof (cases "gap < k")
    case False
    then show ?thesis
      using assms(4) get [of "k - gap"] lock by (auto simp: apply_chain_rules_def)
  next
    case True
    define q1 where "q1 = world_qc gap (k - 2 * gap)"
    define hs' where "hs' = raise_lock q1 hs"
    have hs': "world_hs gap k voted (k - 2 * gap) hs'"
      using assms(3,4) view_order [of "k - 1 - 2 * gap" "k - 2 * gap"] b
      by (cases "2 * gap < k") (auto simp: hs'_def q1_def raise_lock_def world_hs_def)
    then have blocks: "hs_blocks hs' = world_blocks gap k" by (simp add: world_hs_def)
    have "br_justify (world_record gap (k - gap)) = q1" "qc_proposal_digest q1 = block_number (k - 2 * gap)"
      "br_justify (world_record gap (k - 2 * gap)) = world_qc gap 0"
      using assms(3) by (simp_all add: world_record_def q1_def numeral_eq_Suc)
    then have "apply_chain_rules ops cr (world_replica n) hs st (world_qc gap (k - gap)) [] = Some (hs', st, [])" for st
      using True get [of "k - gap"] get [of "k - 2 * gap"] get [of 0] lock(2) blocks
      by (simp add: apply_chain_rules_def Let_def hs'_def [symmetric])
    then show ?thesis using hs' by blast
  qed
qed

lemma world_safe:
  assumes "gap_ok gap" and "1 \<le> k" and "k \<le> 3 * gap" and "world_hs gap k (k - 1) (k - 2 * gap) hs"
  shows "safe_node (world_replica n) hs (world_block gap k) j = Some True"
proof -
  note b = gap_bounds [OF assms(1)]
  have fields: "hs_last_voted_view hs = of_nat (k - 1)" "hs_locked_qc hs = world_qc gap (k - 2 * gap)"
    "hs_blocks hs = world_blocks gap k" using assms(4) by (simp_all add: world_hs_def)
  have "of_nat (k - 1) < (of_nat k :: u64)" using view_order [of "k - 1" k] b assms(2,3) by simp
  moreover have "extends_locked (world_replica n) hs (world_block gap k) = Some True"
  proof (cases "2 * gap < k")
    case False
    then show ?thesis using fields by (simp add: extends_locked_def block_number_def)
  next
    case True
    have "map_of (world_blocks gap k) (block_number (k - gap)) = Some (world_record gap (k - gap))"
      using world_blocks_get [of k "k - gap" gap] b assms(3) True by simp
    moreover have "block_number (k - gap) \<noteq> block_number 0"
      using block_number_inj [of "k - gap" 0] b assms(3) True by simp
    moreover have "length (world_blocks gap k) = Suc (k - 1)" using assms(2) by (simp add: world_blocks_def)
    moreover have "k - gap - gap = k - 2 * gap" by simp
    ultimately show ?thesis
      using fields by (simp add: extends_locked_def Let_def world_record_def block_number_def)
  qed
  ultimately show ?thesis by (simp add: safe_node_def fields)
qed

definition world_state :: "nat \<Rightarrow> nat \<Rightarrow> hotstuff_state" where
  "world_state gap k =
     \<lparr>s_epoch = 3, s_consensus_ruleset = kConsensusRulesetVersion, s_last_voted_view = of_nat k,
      s_high_qc = world_qc gap (k - gap), s_locked_qc = world_qc gap (k - 2 * gap)\<rparr>"

definition world_at :: "nat \<Rightarrow> nat \<Rightarrow> hotstuff \<Rightarrow> file_store \<Rightarrow> bool" where
  "world_at gap k hs st \<longleftrightarrow> world_hs gap k k (k - 2 * gap) hs \<and>
     fs_load (world_crypto gap) example_codec 3 st = (if k = 0 then Absent else Loaded (world_state gap k))"

lemma world_qc_storable [simp]: "qc_storable (world_qc gap k)"
  by (simp add: world_qc_def world_members_def kMaxQcSignatures_def kMaxActiveTier1_def)

lemma view_le: "i \<le> j \<Longrightarrow> j \<le> 6 \<Longrightarrow> (of_nat i :: u64) \<le> of_nat j"
  using small_unat [of i] small_unat [of j] by (simp add: word_le_nat_alt)

lemma world_emit:
  assumes "gap_ok gap" and "k < 3 * gap" and "world_hs gap (k + 1) k (k + 1 - 2 * gap) hs"
    and "fs_load (world_crypto gap) example_codec 3 st = (if k = 0 then Absent else Loaded (world_state gap k))"
  shows "\<exists>calls res hs' st'. emit_vote (file_store_ops (world_crypto gap) example_codec) (world_crypto gap)
      (world_replica n) (world_key n) (world_block gap (k + 1)) d [] hs (st\<lparr>fs_calls := calls\<rparr>) = (Inr res, hs', st') \<and>
    pr_vote res \<noteq> None \<and> world_at gap (k + 1) hs' st' \<and> hs_locked_qc hs' = hs_locked_qc hs"
proof -
  let ?cr = "world_crypto gap"
  have state: "pending_state (world_replica n) hs (world_block gap (k + 1)) = world_state gap (k + 1)"
    using assms(3) by (simp add: pending_state_def hotstuff_state_of_def world_state_def world_hs_def)
  have "state_le (world_state gap k) (world_state gap (k + 1))"
    using gap_bounds [OF assms(1)] assms(2) view_le [of k "k + 1"] view_le [of "k - gap" "k + 1 - gap"]
      view_le [of "k - 2 * gap" "k + 1 - 2 * gap"]
    by (simp add: state_le_def world_state_def)
  then have "fs_load ?cr example_codec (cfg_epoch (world_replica n)) st = Absent \<or>
      (\<exists>prior. fs_load ?cr example_codec (cfg_epoch (world_replica n)) st = Loaded prior \<and>
        state_le prior (pending_state (world_replica n) hs (world_block gap (k + 1))))"
    using assms(4) unfolding state by auto
  moreover have "qc_storable (hs_high_qc hs)" "qc_storable (hs_locked_qc hs)"
    using assms(3) by (simp_all add: world_hs_def)
  ultimately obtain calls res q st' where r: "emit_vote (file_store_ops ?cr example_codec) ?cr
      (world_replica n) (world_key n) (world_block gap (k + 1)) d [] hs (st\<lparr>fs_calls := calls\<rparr>) =
      (Inr res, hs\<lparr>hs_last_voted_view := p_view (world_block gap (k + 1)), hs_stored_chain_qc := q\<rparr>, st')"
    "pr_vote res \<noteq> None" "fs_load ?cr example_codec 3 st' = Loaded (world_state gap (k + 1))"
    using emit_vote_ok [OF example_codec_ok, of hs "world_key n" ?cr "world_replica n" st "world_block gap (k + 1)" d "[]"]
    unfolding state by (auto simp: world_key_def)
  have "world_at gap (k + 1) (hs\<lparr>hs_last_voted_view := p_view (world_block gap (k + 1)), hs_stored_chain_qc := q\<rparr>) st'"
    using r(3) assms(3) by (simp add: world_at_def world_hs_def)
  then show ?thesis using r(1,2) by (intro exI conjI) (assumption | simp)+
qed

lemma world_step:
  assumes "gap_ok gap" and "k < 3 * gap" and "world_at gap k hs st"
  shows "\<exists>calls res hs' st'. receive_proposal (file_store_ops (world_crypto gap) example_codec) (world_crypto gap)
      (world_replica n) (world_key n) (world_block gap (k + 1)) (world_qc gap (k + 1 - gap)) None hs
      (st\<lparr>fs_calls := calls\<rparr>) = Some (Inr res, hs', st') \<and> pr_vote res \<noteq> None \<and> world_at gap (k + 1) hs' st'"
proof -
  let ?p = "world_block gap (k + 1)" and ?j = "world_qc gap (k + 1 - gap)" and ?d = "block_number (k + 1)"
  note b = gap_bounds [OF assms(1)]
  have at: "world_hs gap k k (k - 2 * gap) hs" using assms(3) by (simp add: world_at_def)
  define hs1 where "hs1 = hs\<lparr>hs_current_view := max (hs_current_view hs) (qc_view ?j + 1)\<rparr>"
  have "unat (qc_view ?j + 1) \<le> k + 1"
    using b assms(2) small_unat [of "k + 1 - gap + 1"] by (simp add: add.commute)
  then have hs1: "world_hs gap k k (k - 2 * gap) hs1"
    using at by (auto simp: hs1_def world_hs_def max_def)
  define hs2 where "hs2 = accept_block ?d ?p ?j None hs1"
  have "world_hs gap (k + 1) k (k + 1 - 1 - 2 * gap) hs2"
    using world_accept_block [OF assms(1,2) hs1] by (simp add: hs2_def)
  then obtain hs3 where hs3: "\<And>st. apply_chain_rules (file_store_ops (world_crypto gap) example_codec) (world_crypto gap)
      (world_replica n) hs2 st ?j [] = Some (hs3, st, [])" "world_hs gap (k + 1) k (k + 1 - 2 * gap) hs3"
    using world_chain_rules [OF assms(1), of "k + 1" k hs2 "file_store_ops (world_crypto gap) example_codec"
        "world_crypto gap" n] assms(2) by auto
  obtain calls res hs' st' where r: "emit_vote (file_store_ops (world_crypto gap) example_codec) (world_crypto gap)
      (world_replica n) (world_key n) ?p ?d [] hs3 (st\<lparr>fs_calls := calls\<rparr>) = (Inr res, hs', st')"
    "pr_vote res \<noteq> None" "world_at gap (k + 1) hs' st'"
    using world_emit [OF assms(1,2) hs3(2), of st n ?d] assms(3) by (auto simp: world_at_def)
  have safe: "safe_node (world_replica n) hs3 ?p ?j = Some True"
    using world_safe [OF assms(1), of "k + 1" hs3] hs3(2) assms(2) by simp
  have "pending_count hs1 \<le> length (hs_blocks hs1)" by (simp add: pending_count_def)
  also have "length (hs_blocks hs1) = k" using hs1 by (simp add: world_hs_def world_blocks_def)
  finally have pending: "\<not> kMaxPendingProposals \<le> pending_count hs1"
    using b assms(2) by (simp add: kMaxPendingProposals_def)
  have place: "place_proposal (file_store_ops (world_crypto gap) example_codec) (world_crypto gap) (world_replica n)
      (world_key n) ?p ?j None ?d False hs1 (st\<lparr>fs_calls := calls\<rparr>) = Some (Inr res, hs', st')"
    using world_position [OF assms(1,2), of hs1 n] hs1 pending hs3(1) safe r(1)
    unfolding place_proposal_def accept_proposal_def judge_payload_def Let_def option.case prod.case
      hs2_def [symmetric] vote_stage_def
    by (simp add: world_hs_def)
  have "map_of (hs_accepted_by_view hs1) (p_view ?p) = None"
    using hs1 world_accepted_put(2) [of k] b assms(2) by (simp add: world_hs_def del: upt_Suc)
  moreover have "\<not> transition_refused (world_replica n) ?p None"
    by (simp add: transition_refused_def world_block_def)
  ultimately have "receive_proposal (file_store_ops (world_crypto gap) example_codec) (world_crypto gap)
      (world_replica n) (world_key n) ?p ?j None hs (st\<lparr>fs_calls := calls\<rparr>) = Some (Inr res, hs', st')"
    using world_precheck [OF assms(1,2) at, of n] world_view_check [OF assms(1,2), of hs1 n] hs1 place
      world_proposal_digest [OF assms(1), of "k + 1"] assms(2)
    unfolding receive_proposal_def Let_def hs1_def [symmetric] by (simp add: world_hs_def)
  then show ?thesis using r(2,3) by blast
qed

lemma world_entries:
  assumes "world_at gap k hs st" and "world_at gap (k + 1) hs' st'" and "pr_vote res \<noteq> None"
  shows "vote_entries (world_block gap (k + 1)) (world_qc gap (k + 1 - gap)) hs hs' (Inr res) = [world_entry gap (k + 1)]"
proof -
  have "known_blocks hs = (\<lambda>j. (world_block gap j, world_qc gap (j - gap))) ` {1..k}"
    using assms(1)
    by (auto simp: world_at_def world_hs_def world_blocks_def known_blocks_def world_record_def image_image
        less_Suc_eq_le simp del: upt_Suc)
  moreover have "{1..k + 1} = insert (k + 1) {1..k}" by auto
  ultimately show ?thesis
    using assms(2,3) by (auto simp: vote_entries_def world_entry_def world_at_def world_hs_def)
qed

lemma fs_possible_calls: "fs_possible cr cd e (st\<lparr>fs_calls := calls\<rparr>) = fs_possible cr cd e st"
  by (simp add: fs_possible_def)

text \<open>Every member runs the service through all blocks and votes for each of them.\<close>

lemma world_run:
  assumes "gap_ok gap"
  shows "k \<le> 3 * gap \<Longrightarrow> \<exists>hs st. replica_run (file_store_ops (world_crypto gap) example_codec)
      (file_store_ok example_codec) (fs_possible (world_crypto gap) example_codec) (world_crypto gap)
      (world_replica n) (world_key n) hs st (world_log gap k) \<and> world_at gap k hs st"
proof (induction k)
  case 0
  let ?hs = "(hotstuff_fresh (world_replica n))\<lparr>hs_synced := True\<rparr>"
  have load: "fs_load (world_crypto gap) example_codec 3 empty_disk = Absent"
    "fs_possible (world_crypto gap) example_codec 3 empty_disk = {Absent}"
    by (simp_all add: fs_load_def file_load_def fs_possible_def empty_disk_def)
  have "hotstuff_service (file_store_ops (world_crypto gap) example_codec) (world_crypto gap) (world_replica n)
      empty_disk = Inr ?hs"
    using load by (simp add: hotstuff_service_def file_store_ops_def world_members_def)
  then have "replica_run (file_store_ops (world_crypto gap) example_codec)
      (file_store_ok example_codec) (fs_possible (world_crypto gap) example_codec) (world_crypto gap)
      (world_replica n) (world_key n) ?hs empty_disk []"
    using load by (intro replica_run.start) (simp_all add: file_store_ok_def)
  moreover have "genesis_qc (world_replica n) = world_qc gap 0"
    by (simp add: genesis_qc_def world_qc_def block_number_def)
  then have "world_at gap 0 ?hs empty_disk"
    using load by (simp add: world_at_def world_hs_def hotstuff_fresh_def world_blocks_def)
  ultimately show ?case by (auto simp: world_log_def)
next
  case (Suc k)
  let ?ops = "file_store_ops (world_crypto gap) example_codec"
  obtain hs st where run: "replica_run ?ops (file_store_ok example_codec)
      (fs_possible (world_crypto gap) example_codec) (world_crypto gap)
      (world_replica n) (world_key n) hs st (world_log gap k)" and at: "world_at gap k hs st"
    using Suc by auto
  obtain calls res hs' st' where step: "receive_proposal ?ops (world_crypto gap)
      (world_replica n) (world_key n) (world_block gap (k + 1)) (world_qc gap (k + 1 - gap)) None hs
      (st\<lparr>fs_calls := calls\<rparr>) = Some (Inr res, hs', st')" "pr_vote res \<noteq> None" "world_at gap (k + 1) hs' st'"
    using world_step [OF assms _ at, of n] Suc.prems by (metis Suc_le_eq)
  have "replica_run ?ops (file_store_ok example_codec) (fs_possible (world_crypto gap) example_codec)
      (world_crypto gap) (world_replica n) (world_key n) hs (st\<lparr>fs_calls := calls\<rparr>) (world_log gap k)"
    using run by (rule replica_run.disk) (simp_all add: fs_possible_calls file_store_ok_def subset_insertI)
  then have "replica_run ?ops (file_store_ok example_codec) (fs_possible (world_crypto gap) example_codec)
      (world_crypto gap) (world_replica n) (world_key n) hs' st' (world_log gap k @ [world_entry gap (k + 1)])"
    using replica_run.proposal [where tv = None and pv = None] step world_entries [OF at step(3,2)] by fastforce
  moreover have "world_log gap k @ [world_entry gap (k + 1)] = world_log gap (Suc k)" by (simp add: world_log_def)
  ultimately show ?case using step(3) by auto
qed

section \<open>The hypotheses of agreement in the world\<close>

definition world_committed :: "nat \<Rightarrow> nat \<Rightarrow> committed_block" where
  "world_committed gap k = \<lparr>cb_proposal = world_block gap k, cb_justify = world_qc gap (k - gap)\<rparr>"

text \<open>The commit proof of the first block of the chain that starts with block \<open>k\<close>.\<close>

definition world_proof :: "nat \<Rightarrow> nat \<Rightarrow> commit_proof" where
  "world_proof gap k =
     \<lparr>cp_chain = [world_committed gap k, world_committed gap (k + gap), world_committed gap (k + 2 * gap)],
      cp_certifying = world_qc gap (k + 2 * gap)\<rparr>"

lemma world_members_facts: "epoch_members world_config = set world_members" "card (set world_members) = 5"
  by (auto simp: epoch_members_def world_keys world_members_def split: if_splits)

lemma world_correct_members: "correct_members world_config (set world_members)"
  by (simp add: correct_members_def world_members_facts max_byzantine_faults_def consensus_quorum_def)
    (simp add: world_members_def)

lemma world_correct_runs:
  "gap_ok gap \<Longrightarrow> correct_runs (world_crypto gap) example_codec world_config (set world_members) world_key
     (\<lambda>n. world_log gap (3 * gap))"
  using world_run [of gap "3 * gap"] unfolding correct_runs_def by blast

lemma world_log_set: "set (world_log gap k) = world_entry gap ` {1..k}"
  by (auto simp: world_log_def less_Suc_eq_le simp del: upt_Suc)

lemma world_unforgeable:
  assumes "gap_ok gap"
  shows "unforgeable (world_crypto gap) world_config (set world_members) (\<lambda>n. world_log gap (3 * gap))"
  unfolding unforgeable_def
proof (intro ballI allI impI)
  fix n key height view d s
  assume "verify_digest (world_crypto gap) key (vote_signing_digest (world_crypto gap)
      (cfg_consensus_ruleset world_config) (cfg_network_id world_config) (cfg_epoch world_config) height view d n) s"
  then have "vote_signing_digest (world_crypto gap) kConsensusRulesetVersion 7 3 height view d n \<noteq> 0"
    by (simp add: verify_digest_def world_crypto_def)
  then obtain k where k: "k \<in> {1..3 * gap}" "height = world_height gap k" "view = of_nat k" "d = block_number k"
    unfolding world_vote_digest [OF assms] by (metis (no_types, lifting))
  then have "world_entry gap k \<in> set (world_log gap (3 * gap))" by (simp add: world_log_set)
  moreover have "proposal_digest (world_crypto gap) (world_block gap k) = block_number k"
    using world_proposal_digest [OF assms, of k] k(1) by simp
  ultimately show "\<exists>e \<in> set (world_log gap (3 * gap)). p_height (ve_proposal e) = height \<and>
      p_view (ve_proposal e) = view \<and> proposal_digest (world_crypto gap) (ve_proposal e) = d"
    using k by (intro bexI [of _ "world_entry gap k"]) (simp_all add: world_entry_def)
qed

abbreviation world_proposals :: "nat \<Rightarrow> proposal set" where
  "world_proposals gap \<equiv> world_block gap ` {1..3 * gap}"

lemma world_no_collision:
  assumes "gap_ok gap"
  shows "no_collision (world_crypto gap) world_config (set world_members) (\<lambda>n. world_log gap (3 * gap)) (world_proposals gap)"
proof -
  note b = gap_bounds [OF assms]
  have digest: "sha256 (world_crypto gap) (proposal_stream (world_block gap k)) = block_number k" if "k \<in> {1..3 * gap}" for k
    using world_proposal_digest [OF assms, of k] that by (simp add: proposal_digest_def encoder_digest_def)
  have "collision_free (world_crypto gap) (proposal_stream ` world_proposals gap)"
    unfolding collision_free_def
    by (rule inj_onI) (use digest b in \<open>auto simp: block_number_inj\<close>)
  moreover have "seen_proposals (set world_members) (\<lambda>n. world_log gap (3 * gap)) \<subseteq> world_proposals gap"
    by (auto simp: seen_proposals_def world_log_set world_entry_def)
  moreover have "99 \<noteq> block_number k" if "k \<in> {1..3 * gap}" for k
    using block_number_inj [of 0 k] b that by (simp add: block_number_def split: if_splits)
  then have "99 \<notin> proposal_digest (world_crypto gap) ` world_proposals gap"
    using world_proposal_digest [OF assms] by auto
  ultimately show ?thesis by (simp add: no_collision_def)
qed

lemma world_views_in_range:
  assumes "gap_ok gap"
  shows "views_in_range (set world_members) (\<lambda>n. world_log gap (3 * gap))"
proof -
  have "(of_nat k :: u64) \<noteq> -1" if "k \<le> 6" for k
  proof
    assume "(of_nat k :: u64) = -1"
    then have "unat (of_nat (k + 1) :: u64) = 0" by simp
    moreover have "unat (of_nat (k + 1) :: u64) = k + 1" using that by (intro small_unat) simp
    ultimately show False by simp
  qed
  then show ?thesis
    using gap_bounds [OF assms] by (auto simp: views_in_range_def world_log_set world_entry_def)
qed

lemma world_proof_verifies:
  assumes "gap_ok gap" and "1 \<le> k" and "k \<le> gap"
  shows "verify_commit_proof (world_crypto gap) 0 (world_proof gap k) (cfg_context world_config) (cfg_vote_keys world_config) = CpNone"
    and "proof_proposals (world_proof gap k) \<subseteq> world_proposals gap"
    and "committed_proposal (world_proof gap k) = world_block gap k"
proof -
  have "context_matches (cfg_context world_config) (world_committed gap i)" for i
    by (simp add: context_matches_def world_committed_def cfg_context_def world_block_def)
  moreover have "proof_link (world_crypto gap) (world_committed gap i) (world_committed gap (i + gap))"
    if "1 \<le> i" "i \<le> 2 * gap" for i
    using world_proposal_digest [OF assms(1), of i] world_height_succ [OF assms(1), of "i + gap"] that
    by (simp add: proof_link_def world_committed_def)
  moreover have "valid_qc (world_crypto gap) world_config (world_qc gap i)" if "1 \<le> i" "i \<le> 3 * gap" for i
    using world_qc_valid [OF assms(1) that] .
  moreover have "cb_justify (world_committed gap (k + gap)) = world_qc gap k"
    "cb_justify (world_committed gap (k + 2 * gap)) = world_qc gap (k + gap)" "k + gap + gap = k + 2 * gap"
    by (simp_all add: world_committed_def add.commute)
  moreover have "p_transitions_digest (cb_proposal (world_committed gap k)) = 0"
    "cb_proposal (world_committed gap (k + 2 * gap)) = world_block gap (k + 2 * gap)"
    by (simp_all add: world_committed_def world_block_def)
  moreover have "proof_link (world_crypto gap) (world_committed gap (k + gap)) (world_committed gap (k + 2 * gap))"
    using calculation(2) [of "k + gap"] calculation(6) assms(2,3) by simp
  ultimately show "verify_commit_proof (world_crypto gap) 0 (world_proof gap k) (cfg_context world_config)
      (cfg_vote_keys world_config) = CpNone"
    using assms world_proposal_digest [OF assms(1), of "k + 2 * gap"]
    by (simp add: verify_commit_proof_def world_proof_def) 
  show "proof_proposals (world_proof gap k) \<subseteq> world_proposals gap"
    "committed_proposal (world_proof gap k) = world_block gap k"
    using assms by (auto simp: proof_proposals_def world_proof_def world_committed_def committed_proposal_def)
qed

section \<open>Properties\<close>

text \<open>C1. Agreement: let all but the tolerated number of members run the replica on their file stores, through
  restarts and crashes, and let signatures be unforgeable and hashes free of collisions. Of any two commit
  proofs that verify and whose three blocks have consecutive views, the block committed in the later view
  extends the other, and two blocks committed at the same height are the same block.\<close>

theorem committed_blocks_agree:
  assumes "correct_members cfg H" and "correct_runs cr cd cfg H keys log" and "unforgeable cr cfg H log"
    and "no_collision cr cfg H log P" and "views_in_range H log"
    and "verify_commit_proof cr td pr (cfg_context cfg) (cfg_vote_keys cfg) = CpNone"
    and "consecutive_views pr" and "proof_proposals pr \<subseteq> P"
    and "verify_commit_proof cr td' pr' (cfg_context cfg) (cfg_vote_keys cfg) = CpNone"
    and "consecutive_views pr'" and "proof_proposals pr' \<subseteq> P"
    and "p_view (committed_proposal pr) \<le> p_view (committed_proposal pr')"
  shows "(\<exists>n. extends_by cr P (committed_proposal pr') (committed_proposal pr) n) \<and>
    (p_height (committed_proposal pr) = p_height (committed_proposal pr') \<longrightarrow>
      committed_proposal pr = committed_proposal pr')"
proof -
  note hist = runs_history [OF assms(1-5)]
  obtain n where n: "extends_by cr P (committed_proposal pr') (committed_proposal pr) n"
    using committed_ordered [OF hist assms(6-12)] by blast
  then show ?thesis using extends_by_same_height [OF n] by auto
qed

theorem committed_blocks_agree_witness:
  "correct_runs (world_crypto 1) example_codec world_config (set world_members) world_key (\<lambda>n. world_log 1 3) \<and>
   verify_commit_proof (world_crypto 1) 0 (world_proof 1 1) (cfg_context world_config) (cfg_vote_keys world_config) = CpNone \<and>
   (\<exists>n. extends_by (world_crypto 1) (world_proposals 1) (committed_proposal (world_proof 1 1))
      (committed_proposal (world_proof 1 1)) n)"
proof -
  have gap: "gap_ok 1" by (simp add: gap_ok_def)
  have "consecutive_views (world_proof 1 1)"
    by (simp add: consecutive_views_def world_proof_def world_committed_def)
  then show ?thesis
    using committed_blocks_agree [OF world_correct_members world_correct_runs [OF gap] world_unforgeable [OF gap]
        world_no_collision [OF gap] world_views_in_range [OF gap] world_proof_verifies(1) [OF gap]  _
        world_proof_verifies(2) [OF gap] world_proof_verifies(1) [OF gap] _ world_proof_verifies(2) [OF gap]]
      world_proof_verifies(1) [OF gap, of 1] world_correct_runs [OF gap]
    by simp
qed

text \<open>C7. Without consecutive views agreement fails: five correct members, none faulty, run the replica on
  two chains proposed in alternating views and vote for all six blocks. Both chains then have a commit
  proof that verifies, and the two proofs commit different blocks at the same height.\<close>

theorem alternating_views_fork:
  "correct_members world_config (set world_members) \<and> epoch_members world_config = set world_members \<and>
   correct_runs (world_crypto 2) example_codec world_config (set world_members) world_key (\<lambda>n. world_log 2 6) \<and>
   unforgeable (world_crypto 2) world_config (set world_members) (\<lambda>n. world_log 2 6) \<and>
   no_collision (world_crypto 2) world_config (set world_members) (\<lambda>n. world_log 2 6) (world_proposals 2) \<and>
   views_in_range (set world_members) (\<lambda>n. world_log 2 6) \<and>
   verify_commit_proof (world_crypto 2) 0 (world_proof 2 1) (cfg_context world_config) (cfg_vote_keys world_config) = CpNone \<and>
   verify_commit_proof (world_crypto 2) 0 (world_proof 2 2) (cfg_context world_config) (cfg_vote_keys world_config) = CpNone \<and>
   proof_proposals (world_proof 2 1) \<union> proof_proposals (world_proof 2 2) \<subseteq> world_proposals 2 \<and>
   p_height (committed_proposal (world_proof 2 1)) = p_height (committed_proposal (world_proof 2 2)) \<and>
   committed_proposal (world_proof 2 1) \<noteq> committed_proposal (world_proof 2 2)"
proof -
  have gap: "gap_ok 2" by (simp add: gap_ok_def)
  show ?thesis
    using world_correct_members world_members_facts(1) world_correct_runs [OF gap] world_unforgeable [OF gap]
      world_no_collision [OF gap] world_views_in_range [OF gap] world_proof_verifies [OF gap, of 1]
      world_proof_verifies [OF gap, of 2] world_block_inj [of 1 2 2]
    by (simp add: world_height_def)
qed

text \<open>C2. A node never votes twice in a view and never lowers its lock: over the whole life of a replica on
  its file store, across restarts and crashes at any moment, the views of the votes that leave the node
  strictly increase and the locks recorded with them never fall.\<close>

theorem votes_never_regress:
  assumes "replica_run (file_store_ops cr cd) (file_store_ok cd) (fs_possible cr cd) cr cfg key hs st log"
    and "i < j" and "j < length log"
  shows "p_view (ve_proposal (log ! i)) < p_view (ve_proposal (log ! j)) \<and>
    qc_view (ve_locked (log ! i)) \<le> qc_view (ve_locked (log ! j))"
  using fs.run_log_law [OF assms(1)] assms(2,3)
  by (auto simp: log_law_def later_vote_def dest: sorted_wrt_nth_less)

theorem votes_never_regress_witness:
  "\<exists>hs st. replica_run (file_store_ops (world_crypto 2) example_codec) (file_store_ok example_codec)
      (fs_possible (world_crypto 2) example_codec) (world_crypto 2) (world_replica (NodeId 4)) (world_key (NodeId 4))
      hs st (world_log 2 6) \<and>
    p_view (ve_proposal (world_log 2 6 ! 1)) < p_view (ve_proposal (world_log 2 6 ! 4))"
proof -
  have gap: "gap_ok 2" by (simp add: gap_ok_def)
  obtain hs st where run: "replica_run (file_store_ops (world_crypto 2) example_codec) (file_store_ok example_codec)
      (fs_possible (world_crypto 2) example_codec) (world_crypto 2) (world_replica (NodeId 4)) (world_key (NodeId 4))
      hs st (world_log 2 6)"
    using world_run [OF gap, of 6 "NodeId 4"] by auto
  have "length (world_log 2 6) = 6" by (simp add: world_log_def)
  then show ?thesis using run votes_never_regress [OF run, of 1 4] by auto
qed

text \<open>C20. A certificate a replica forms is accepted by every member: whenever a vote completes a quorum in a
  run of the replica, the certificate it forms has the vote's header and validates, as long as the
  members fit the compiled signature bound.\<close>

theorem formed_certificate_valid:
  assumes "replica_run ops store_ok possible cr cfg key hs st log"
    and "receive_vote cr cfg v hs = (Formed q, hs')" and "length (cfg_vote_keys cfg) \<le> kMaxQcSignatures"
  shows "validate_quorum_certificate cr q (cfg_context cfg) (cfg_vote_keys cfg) = None \<and>
    qc_height q = v_height v \<and> qc_view q = v_view v \<and> qc_proposal_digest q = v_proposal_digest v"
  using assms(2)
proof (cases rule: receive_vote_cases)
  case (counted ledger)
  note vote = vote_precheck_collected [OF counted(2)]
  have "ledger_verified cr cfg (v_view v) ledger"
    unfolding counted(1)
    by (rule ledger_verified_put [OF view_ledger_verified [OF run_ledgers_verified [OF assms(1)]] vote])
  then have "valid_qc cr cfg q" using formed_valid [OF _ vote assms(3)] counted(4) by blast
  moreover from counted(4) have "qc_height q = v_height v \<and> qc_view q = v_view v \<and> qc_proposal_digest q = v_proposal_digest v"
    by (rule count_votes_Formed) (simp add: certificate_of_votes_def)
  ultimately show ?thesis by blast
qed auto

theorem formed_certificate_valid_witness:
  "let cfg = world_config\<lparr>cfg_quorum := 1\<rparr>; cr = world_crypto 1;
       hs = (hotstuff_fresh cfg)\<lparr>hs_synced := True\<rparr>;
       v = \<lparr>v_consensus_ruleset = kConsensusRulesetVersion, v_network_id = 7, v_epoch = 3, v_height = world_height 1 1,
            v_view = of_nat 1, v_proposal_digest = block_number 1, v_voter = NodeId 2,
            v_signature = ucast (vote_number 1 (NodeId 2))\<rparr>
   in \<exists>q hs'. receive_vote cr cfg v hs = (Formed q, hs') \<and>
        validate_quorum_certificate cr q (cfg_context cfg) (cfg_vote_keys cfg) = None"
proof -
  let ?cfg = "world_config\<lparr>cfg_quorum := 1\<rparr>" and ?cr = "world_crypto 1"
  let ?hs = "(hotstuff_fresh ?cfg)\<lparr>hs_synced := True\<rparr>"
  define v where "v = \<lparr>v_consensus_ruleset = kConsensusRulesetVersion, v_network_id = 7, v_epoch = 3,
    v_height = world_height 1 1, v_view = of_nat 1, v_proposal_digest = block_number 1, v_voter = NodeId 2,
    v_signature = ucast (vote_number 1 (NodeId 2))\<rparr>"
  have load: "fs_load ?cr example_codec 3 empty_disk = Absent" "fs_possible ?cr example_codec 3 empty_disk = {Absent}"
    by (simp_all add: fs_load_def file_load_def fs_possible_def empty_disk_def)
  have "hotstuff_service (file_store_ops ?cr example_codec) ?cr ?cfg empty_disk = Inr ?hs"
    using load by (simp add: hotstuff_service_def file_store_ops_def world_members_def)
  then have run: "replica_run (file_store_ops ?cr example_codec) (file_store_ok example_codec)
      (fs_possible ?cr example_codec) ?cr ?cfg (world_key (NodeId 1)) ?hs empty_disk []"
    using load by (intro replica_run.start) (simp_all add: file_store_ok_def)
  have gap: "gap_ok 1" by (simp add: gap_ok_def)
  have member: "NodeId 2 \<in> set world_members" by (simp add: world_members_def)
  have "vote_digest ?cr v = vote_number 1 (NodeId 2)"
    using world_vote_digest_known [OF gap _ _ member, of 1] by (simp add: vote_digest_def v_def)
  then have "vote_precheck ?cr ?cfg ?hs v = None"
    using member vote_number_nonzero [of 1 "NodeId 2"]
    by (simp add: vote_precheck_def hotstuff_fresh_def v_def view_window_failure_def kMaxFutureViewDistance_def
        world_keys verify_digest_def world_crypto_def)
  then have "\<exists>q hs'. receive_vote ?cr ?cfg v ?hs = (Formed q, hs')"
    by (simp add: receive_vote_def hotstuff_fresh_def view_ledger_def count_votes_def Let_def)
  then obtain q hs' where formed: "receive_vote ?cr ?cfg v ?hs = (Formed q, hs')" by blast
  have "length (cfg_vote_keys ?cfg) \<le> kMaxQcSignatures"
    by (simp add: world_members_def kMaxQcSignatures_def kMaxActiveTier1_def)
  then show ?thesis
    using formed_certificate_valid [OF run formed] formed unfolding v_def Let_def by blast
qed

text \<open>C21. A call never loops: for a replica on its file store, if the hash has no cycles on the blocks it
  knows and the block it receives, that is if some rank falls from each of them to its parent, then
  receiving a proposal and adopting a certified block return, whatever the arguments.\<close>

theorem calls_return:
  fixes r :: "digest \<Rightarrow> nat"
  assumes "replica_run (file_store_ops cr cd) (file_store_ok cd) (fs_possible cr cd) cr cfg key hs st log"
    and "\<forall>q \<in> insert p (fst ` known_blocks hs). r (p_parent_digest q) < r (proposal_digest cr q)"
  shows "(\<exists>res. receive_proposal ops cr cfg' key p j payload hs st' = Some res) \<and>
    (\<exists>res. adopt_certified_block ops cr cfg' p j certifying commits hs st' = Some res)"
proof -
  have "parents_below r (hs_blocks hs)" using run_parents_below [OF assms(1)] assms(2) by blast
  then show ?thesis
    using receive_proposal_returns adopt_certified_block_returns assms(2)
    by (metis insertI1 not_None_eq)
qed

theorem calls_return_witness:
  "\<exists>hs st res. replica_run (file_store_ops (world_crypto 1) example_codec) (file_store_ok example_codec)
      (fs_possible (world_crypto 1) example_codec) (world_crypto 1) (world_replica (NodeId 4)) (world_key (NodeId 4))
      hs st (world_log 1 1) \<and>
    receive_proposal (file_store_ops (world_crypto 1) example_codec) (world_crypto 1) (world_replica (NodeId 4))
      (world_key (NodeId 4)) (world_block 1 2) (world_qc 1 1) None hs st = Some res"
proof -
  have gap: "gap_ok 1" by (simp add: gap_ok_def)
  obtain hs st where run: "replica_run (file_store_ops (world_crypto 1) example_codec) (file_store_ok example_codec)
      (fs_possible (world_crypto 1) example_codec) (world_crypto 1) (world_replica (NodeId 4)) (world_key (NodeId 4))
      hs st (world_log 1 1)" "world_at 1 1 hs st"
    using world_run [OF gap, of 1 "NodeId 4"] by auto
  define r :: "digest \<Rightarrow> nat" where "r d = (if d = 99 then 0 else unat d)" for d
  have "fst ` known_blocks hs = {world_block 1 1}"
    using run(2) by (simp add: world_at_def world_hs_def world_blocks_def known_blocks_def world_record_def)
  moreover have less: "r (p_parent_digest (world_block 1 k)) < r (proposal_digest (world_crypto 1) (world_block 1 k))"
    if "k \<in> {1, 2}" for k
    using that world_proposal_digest [OF gap, of k] by (auto simp: r_def block_number_def)
  ultimately have "\<forall>q \<in> insert (world_block 1 2) (fst ` known_blocks hs).
      r (p_parent_digest q) < r (proposal_digest (world_crypto 1) q)"
    using less [of 1] less [of 2] by auto
  then have "\<exists>res. receive_proposal (file_store_ops (world_crypto 1) example_codec) (world_crypto 1)
      (world_replica (NodeId 4)) (world_key (NodeId 4)) (world_block 1 2) (world_qc 1 1) None hs st = Some res"
    by (rule conjunct1 [OF calls_return [OF run(1)]])
  then show ?thesis using run(1) by meson
qed

end
