(* ===== verification/Platform_Claims.thy ===== *)
theory Platform_Claims
  imports Canonical_Encoding Security_Policy
begin

text \<open>
  \<^verbatim>\<open>Security/Attestation/VerifiedPlatformClaims.cpp\<close>, \<^verbatim>\<open>AttestationProfileId.cpp\<close>,
  \<^verbatim>\<open>Policy/Tier1Eligibility.cpp\<close> and \<^verbatim>\<open>Policy/Tier1Evidence.cpp\<close>: what a platform provider proved about
  a candidate, the bit mask it travels as, and the one policy that turns claims and mesh facts into a
  Tier 1 decision. The lemmas show that the bit mask loses nothing, and that the decision is exactly
  the conjunction of the required claims, their consistency and the mesh facts.
\<close>

section \<open>Claims\<close>

datatype attestation_profile_id = UnknownProfile | AzureSnpVtpm | SnpSvsmVtpm | SnpDirectBoot | Tdx

fun profile_code :: "attestation_profile_id \<Rightarrow> u16" where
  "profile_code UnknownProfile = 0"
| "profile_code AzureSnpVtpm = 1"
| "profile_code SnpSvsmVtpm = 2"
| "profile_code SnpDirectBoot = 3"
| "profile_code Tdx = 4"

fun is_known_attestation_profile_id :: "attestation_profile_id \<Rightarrow> bool" where
  "is_known_attestation_profile_id UnknownProfile = False"
| "is_known_attestation_profile_id _ = True"

datatype platform_claim =
    HardwareConfidentiality | PlatformIdentity | EvidenceFreshness | NodeIdentityBinding
  | IncarnationBinding | EpochBinding | SecurityRulesetBinding | BootIntegrity | RuntimeIntegrity
  | Tcb | AttestationProfile

record verified_platform_claims =
  cl_profile_id :: attestation_profile_id
  cl_profile_ruleset :: u16
  cl_hardware_confidentiality :: bool
  cl_platform_identity :: bool
  cl_evidence_freshness :: bool
  cl_node_identity_binding :: bool
  cl_incarnation_binding :: bool
  cl_epoch_binding :: bool
  cl_security_ruleset_binding :: bool
  cl_boot_integrity :: bool
  cl_runtime_integrity :: bool
  cl_tcb :: bool
  cl_attestation_profile :: bool
  cl_ima_anchored :: bool
  cl_binary_approved :: bool
  cl_runtime_profile_enforced :: bool

definition no_claims :: verified_platform_claims where
  "no_claims =
     \<lparr>cl_profile_id = UnknownProfile, cl_profile_ruleset = 0, cl_hardware_confidentiality = False,
      cl_platform_identity = False, cl_evidence_freshness = False, cl_node_identity_binding = False,
      cl_incarnation_binding = False, cl_epoch_binding = False, cl_security_ruleset_binding = False,
      cl_boot_integrity = False, cl_runtime_integrity = False, cl_tcb = False,
      cl_attestation_profile = False, cl_ima_anchored = False, cl_binary_approved = False,
      cl_runtime_profile_enforced = False\<rparr>"

text \<open>The required claims with their fields, and every claim field; a pointer to a member is the
  pair of its reader and its writer.\<close>

definition kRequired :: "(platform_claim \<times> (verified_platform_claims \<Rightarrow> bool)) list" where
  "kRequired =
     [(HardwareConfidentiality, cl_hardware_confidentiality), (PlatformIdentity, cl_platform_identity),
      (EvidenceFreshness, cl_evidence_freshness), (NodeIdentityBinding, cl_node_identity_binding),
      (IncarnationBinding, cl_incarnation_binding), (EpochBinding, cl_epoch_binding),
      (SecurityRulesetBinding, cl_security_ruleset_binding), (BootIntegrity, cl_boot_integrity),
      (RuntimeIntegrity, cl_runtime_integrity), (Tcb, cl_tcb),
      (AttestationProfile, cl_attestation_profile)]"

type_synonym claim_field =
  "(verified_platform_claims \<Rightarrow> bool) \<times>
   ((bool \<Rightarrow> bool) \<Rightarrow> verified_platform_claims \<Rightarrow> verified_platform_claims)"

definition kAllClaims :: "claim_field list" where
  "kAllClaims =
     [(cl_hardware_confidentiality, cl_hardware_confidentiality_update),
      (cl_platform_identity, cl_platform_identity_update),
      (cl_evidence_freshness, cl_evidence_freshness_update),
      (cl_node_identity_binding, cl_node_identity_binding_update),
      (cl_incarnation_binding, cl_incarnation_binding_update),
      (cl_epoch_binding, cl_epoch_binding_update),
      (cl_security_ruleset_binding, cl_security_ruleset_binding_update),
      (cl_boot_integrity, cl_boot_integrity_update),
      (cl_runtime_integrity, cl_runtime_integrity_update),
      (cl_tcb, cl_tcb_update),
      (cl_attestation_profile, cl_attestation_profile_update),
      (cl_ima_anchored, cl_ima_anchored_update),
      (cl_binary_approved, cl_binary_approved_update),
      (cl_runtime_profile_enforced, cl_runtime_profile_enforced_update)]"

definition add_flag :: "encoder \<Rightarrow> bool \<Rightarrow> encoder" where
  "add_flag e b = add_u16 e (if b then 1 else 0)"

definition encode_platform_claims :: "encoder \<Rightarrow> verified_platform_claims \<Rightarrow> encoder" where
  "encode_platform_claims e claims =
     (let e = add_u16 e (profile_code (cl_profile_id claims));
          e = add_u16 e (cl_profile_ruleset claims)
      in foldl (\<lambda>e field. add_u16 e (if fst field claims then 1 else 0)) e kAllClaims)"

fun claim_bits_loop :: "verified_platform_claims \<Rightarrow> claim_field list \<Rightarrow> nat \<Rightarrow> u16 \<Rightarrow> u16" where
  "claim_bits_loop claims [] position bits = bits"
| "claim_bits_loop claims (field # rest) position bits =
     claim_bits_loop claims rest (position + 1)
       (if fst field claims then bits OR push_bit position 1 else bits)"

definition platform_claim_bits :: "verified_platform_claims \<Rightarrow> u16" where
  "platform_claim_bits claims = claim_bits_loop claims kAllClaims 0 0"

fun claims_from_bits_loop ::
  "u16 \<Rightarrow> claim_field list \<Rightarrow> nat \<Rightarrow> verified_platform_claims \<Rightarrow> verified_platform_claims" where
  "claims_from_bits_loop bits [] position claims = claims"
| "claims_from_bits_loop bits (field # rest) position claims =
     claims_from_bits_loop bits rest (position + 1)
       (snd field (\<lambda>_. bits AND push_bit position 1 \<noteq> 0) claims)"

definition platform_claims_from_bits ::
  "attestation_profile_id \<Rightarrow> u16 \<Rightarrow> u16 \<Rightarrow> verified_platform_claims" where
  "platform_claims_from_bits pid ruleset bits =
     claims_from_bits_loop bits kAllClaims 0
       (no_claims\<lparr>cl_profile_id := pid, cl_profile_ruleset := ruleset\<rparr>)"

definition kPlatformClaimBitMask :: u16 where "kPlatformClaimBitMask = 0x3FFF"

definition missing_platform_claims :: "verified_platform_claims \<Rightarrow> platform_claim list" where
  "missing_platform_claims claims = map fst (filter (\<lambda>entry. \<not> snd entry claims) kRequired)"

definition all_platform_claims_proved :: "verified_platform_claims \<Rightarrow> bool" where
  "all_platform_claims_proved claims = list_all (\<lambda>entry. snd entry claims) kRequired"

definition platform_claims_are_consistent :: "verified_platform_claims \<Rightarrow> bool" where
  "platform_claims_are_consistent claims =
     (let anonymous = cl_profile_id claims = UnknownProfile \<or> cl_profile_ruleset claims = 0
      in if anonymous
         then if list_ex (\<lambda>entry. snd entry claims) kRequired then False
              else \<not> cl_ima_anchored claims \<and> \<not> cl_binary_approved claims \<and>
                   \<not> cl_runtime_profile_enforced claims
         else let runtime_steps =
                cl_ima_anchored claims \<and> cl_binary_approved claims \<and> cl_runtime_profile_enforced claims
              in cl_runtime_integrity claims = runtime_steps)"

section \<open>The eligibility policy\<close>

datatype tier1_prerequisite =
    PlatformProfile | NodeIdentity | Certificate | ConfidentialCompute | PlatformTcb | Vtpm
  | AttestationFreshness | BootState | NexusBinary | RuntimeMeasurements | RuntimeSecurityProfile
  | Uptime | MeshHealth | Incarnation | EpochCurrent

record tier1_evidence =
  ev_platform_profile_valid :: bool
  ev_node_identity_valid :: bool
  ev_certificate_valid :: bool
  ev_snp_valid :: bool
  ev_tcb_valid :: bool
  ev_vtpm_valid :: bool
  ev_quote_fresh :: bool
  ev_boot_state_valid :: bool
  ev_binary_valid :: bool
  ev_ima_valid :: bool
  ev_runtime_profile_valid :: bool
  ev_uptime_valid :: bool
  ev_mesh_health_valid :: bool
  ev_incarnation_current :: bool
  ev_epoch_current :: bool

datatype tier1_decision = Eligible | Ineligible

definition kChecks :: "(tier1_prerequisite \<times> (tier1_evidence \<Rightarrow> bool)) list" where
  "kChecks =
     [(PlatformProfile, ev_platform_profile_valid), (NodeIdentity, ev_node_identity_valid),
      (Certificate, ev_certificate_valid), (ConfidentialCompute, ev_snp_valid),
      (PlatformTcb, ev_tcb_valid), (Vtpm, ev_vtpm_valid), (AttestationFreshness, ev_quote_fresh),
      (BootState, ev_boot_state_valid), (NexusBinary, ev_binary_valid),
      (RuntimeMeasurements, ev_ima_valid), (RuntimeSecurityProfile, ev_runtime_profile_valid),
      (Uptime, ev_uptime_valid), (MeshHealth, ev_mesh_health_valid),
      (Incarnation, ev_incarnation_current), (EpochCurrent, ev_epoch_current)]"

fun policy_loop ::
  "(tier1_prerequisite \<times> (tier1_evidence \<Rightarrow> bool)) list \<Rightarrow> tier1_evidence \<Rightarrow> tier1_decision"
where
  "policy_loop [] state = Eligible"
| "policy_loop (check # checks) state =
     (if \<not> snd check state then Ineligible else policy_loop checks state)"

definition policy_evaluate :: "tier1_evidence \<Rightarrow> tier1_decision" where
  "policy_evaluate state = policy_loop kChecks state"

definition failed_prerequisites :: "tier1_evidence \<Rightarrow> tier1_prerequisite list" where
  "failed_prerequisites state = map fst (filter (\<lambda>check. \<not> snd check state) kChecks)"

section \<open>From a verdict to the evidence\<close>

datatype attestation_purpose =
  EligibilityPurpose | FinalEpochReadiness | PlatformEnrollment | StorageUnlock | UpgradeHealth

text \<open>The fields of \<^verbatim>\<open>AttestationVerdict\<close> the modelled code reads.\<close>

record attestation_verdict =
  av_node_id :: node_id
  av_epoch :: u64
  av_incarnation :: u64
  av_purpose :: attestation_purpose
  av_context_digest :: digest
  av_evidence_digest :: digest
  av_passed :: bool
  av_claims :: verified_platform_claims

record tier1_mesh_facts =
  mf_certificate_valid :: bool
  mf_uptime_valid :: bool
  mf_mesh_health_valid :: bool
  mf_current_epoch :: "u64 option"
  mf_current_incarnation :: "u64 option"

definition no_evidence :: tier1_evidence where
  "no_evidence =
     \<lparr>ev_platform_profile_valid = False, ev_node_identity_valid = False, ev_certificate_valid = False,
      ev_snp_valid = False, ev_tcb_valid = False, ev_vtpm_valid = False, ev_quote_fresh = False,
      ev_boot_state_valid = False, ev_binary_valid = False, ev_ima_valid = False,
      ev_runtime_profile_valid = False, ev_uptime_valid = False, ev_mesh_health_valid = False,
      ev_incarnation_current = False, ev_epoch_current = False\<rparr>"

definition tier1_evidence_state :: "attestation_verdict \<Rightarrow> tier1_mesh_facts \<Rightarrow> tier1_evidence" where
  "tier1_evidence_state verdict facts =
     (let claims = av_claims verdict
      in if \<not> platform_claims_are_consistent claims then no_evidence
         else
           \<lparr>ev_platform_profile_valid = cl_attestation_profile claims \<and> cl_security_ruleset_binding claims,
            ev_node_identity_valid = cl_node_identity_binding claims,
            ev_certificate_valid = mf_certificate_valid facts,
            ev_snp_valid = cl_hardware_confidentiality claims,
            ev_tcb_valid = cl_tcb claims,
            ev_vtpm_valid = cl_platform_identity claims,
            ev_quote_fresh = cl_evidence_freshness claims,
            ev_boot_state_valid = cl_boot_integrity claims,
            ev_binary_valid = cl_binary_approved claims,
            ev_ima_valid = cl_ima_anchored claims,
            ev_runtime_profile_valid = cl_runtime_profile_enforced claims,
            ev_uptime_valid = mf_uptime_valid facts,
            ev_mesh_health_valid = mf_mesh_health_valid facts,
            ev_incarnation_current = cl_incarnation_binding claims \<and>
              mf_current_incarnation facts = Some (av_incarnation verdict),
            ev_epoch_current = cl_epoch_binding claims \<and>
              mf_current_epoch facts = Some (av_epoch verdict)\<rparr>)"

definition tier1_eligibility :: "attestation_verdict \<Rightarrow> tier1_mesh_facts \<Rightarrow> tier1_decision" where
  "tier1_eligibility verdict facts = policy_evaluate (tier1_evidence_state verdict facts)"

section \<open>The bit mask\<close>

lemma bit_kAllClaims:
  "bit (platform_claim_bits c) k \<longleftrightarrow> k < length kAllClaims \<and> fst (kAllClaims ! k) c"
proof -
  have loop: "bit (claim_bits_loop c fs p w) k \<longleftrightarrow>
      bit w k \<or> (p \<le> k \<and> k < p + length fs \<and> k < 16 \<and> fst (fs ! (k - p)) c)" for fs p w
  proof (induction c fs p w rule: claim_bits_loop.induct)
    case (2 claims field rest position bits)
    then show ?case
      by (cases "k = position") (auto simp: bit_simps nth_Cons' dest: bit_imp_le_length)
  qed auto
  have "length kAllClaims = 14" by (simp add: kAllClaims_def)
  then show ?thesis by (auto simp: platform_claim_bits_def loop)
qed

lemma and_bit_nonzero: "(w AND push_bit k 1 \<noteq> 0) = bit w k" for w :: u16
  by (simp add: bit_iff_and_push_bit_not_eq_0)

lemma claims_from_bits_eq:
  "platform_claims_from_bits pid rs w =
     \<lparr>cl_profile_id = pid, cl_profile_ruleset = rs, cl_hardware_confidentiality = bit w 0,
      cl_platform_identity = bit w 1, cl_evidence_freshness = bit w 2, cl_node_identity_binding = bit w 3,
      cl_incarnation_binding = bit w 4, cl_epoch_binding = bit w 5, cl_security_ruleset_binding = bit w 6,
      cl_boot_integrity = bit w 7, cl_runtime_integrity = bit w 8, cl_tcb = bit w 9,
      cl_attestation_profile = bit w 10, cl_ima_anchored = bit w 11, cl_binary_approved = bit w 12,
      cl_runtime_profile_enforced = bit w 13\<rparr>"
  unfolding platform_claims_from_bits_def kAllClaims_def no_claims_def
  by (simp only: claims_from_bits_loop.simps and_bit_nonzero fst_conv snd_conv) (simp add: eval_nat_numeral)

lemma claims_from_bits_roundtrip:
  "platform_claims_from_bits (cl_profile_id c) (cl_profile_ruleset c) (platform_claim_bits c) = c"
  by (simp add: claims_from_bits_eq bit_kAllClaims) (simp add: kAllClaims_def)

lemma claim_bits_masked:
  "platform_claim_bits (platform_claims_from_bits pid rs w) = w AND kPlatformClaimBitMask"
proof (rule bit_word_eqI)
  fix k
  assume "k < LENGTH(16)"
  have mask: "kPlatformClaimBitMask = mask 14" by (simp add: kPlatformClaimBitMask_def mask_eq_exp_minus_1)
  have "fst (kAllClaims ! k) (platform_claims_from_bits pid rs w) = bit w k" if "k < 14"
    using that by (auto simp: claims_from_bits_eq kAllClaims_def numeral_eq_Suc less_Suc_eq)
  moreover have "length kAllClaims = 14" by (simp add: kAllClaims_def)
  ultimately show "bit (platform_claim_bits (platform_claims_from_bits pid rs w)) k = bit (w AND kPlatformClaimBitMask) k"
    by (auto simp: bit_kAllClaims mask bit_simps)
qed

section \<open>The decision\<close>

lemma policy_loop_iff: "policy_loop checks state = Eligible \<longleftrightarrow> (\<forall>c \<in> set checks. snd c state)"
  by (induction checks state rule: policy_loop.induct) auto

lemma policy_evaluate_iff: "policy_evaluate state = Eligible \<longleftrightarrow> failed_prerequisites state = []"
  by (auto simp: policy_evaluate_def failed_prerequisites_def policy_loop_iff filter_empty_conv)

lemma all_proved_iff: "all_platform_claims_proved claims \<longleftrightarrow> missing_platform_claims claims = []"
  by (auto simp: all_platform_claims_proved_def missing_platform_claims_def list_all_iff filter_empty_conv)

lemma consistent_profile:
  assumes "platform_claims_are_consistent c" and "all_platform_claims_proved c"
  shows "cl_profile_id c \<noteq> UnknownProfile \<and> cl_profile_ruleset c \<noteq> 0 \<and>
    cl_ima_anchored c \<and> cl_binary_approved c \<and> cl_runtime_profile_enforced c"
  using assms
  by (auto simp: platform_claims_are_consistent_def all_platform_claims_proved_def kRequired_def Let_def
      split: if_splits)

lemma eligible_iff:
  "tier1_eligibility v f = Eligible \<longleftrightarrow>
     platform_claims_are_consistent (av_claims v) \<and> all_platform_claims_proved (av_claims v) \<and>
     mf_certificate_valid f \<and> mf_uptime_valid f \<and> mf_mesh_health_valid f \<and>
     mf_current_epoch f = Some (av_epoch v) \<and> mf_current_incarnation f = Some (av_incarnation v)"
proof (cases "platform_claims_are_consistent (av_claims v)")
  case True
  then have runtime: "cl_runtime_integrity (av_claims v) \<longleftrightarrow> cl_ima_anchored (av_claims v) \<and>
      cl_binary_approved (av_claims v) \<and> cl_runtime_profile_enforced (av_claims v)"
    by (auto simp: platform_claims_are_consistent_def kRequired_def Let_def split: if_splits)
  show ?thesis
    using True runtime
    by (simp add: tier1_eligibility_def policy_evaluate_def policy_loop_iff kChecks_def
        tier1_evidence_state_def all_platform_claims_proved_def kRequired_def Let_def)
next
  case False
  then show ?thesis
    by (simp add: tier1_eligibility_def policy_evaluate_def policy_loop_iff kChecks_def
        tier1_evidence_state_def no_evidence_def Let_def)
qed

section \<open>The encoded claims\<close>

abbreviation flag_bytes :: "bool \<Rightarrow> byte list" where
  "flag_bytes b \<equiv> le_bytes 2 (if b then 1 else 0 :: u16)"

lemma encode_platform_claims_fields:
  "encode_platform_claims (field_stream fs) c =
     field_stream (fs @ le_bytes 2 (profile_code (cl_profile_id c)) # le_bytes 2 (cl_profile_ruleset c) #
       map (\<lambda>field. flag_bytes (fst field c)) kAllClaims)"
proof -
  have "foldl (\<lambda>e field. add_u16 e (if fst field c then 1 else 0)) (field_stream gs) xs =
      field_stream (gs @ map (\<lambda>field. flag_bytes (fst field c)) xs)" for gs and xs :: "claim_field list"
    by (induction xs arbitrary: gs) (simp_all add: encoder_fields del: field_stream_simps)
  then show ?thesis
    by (simp add: encode_platform_claims_def encoder_fields del: field_stream_simps)
qed

lemma profile_code_eq_iff [simp]: "profile_code a = profile_code b \<longleftrightarrow> a = b"
  by (cases a; cases b) simp_all

lemma claim_fields_inj:
  "le_bytes 2 (profile_code (cl_profile_id c)) # le_bytes 2 (cl_profile_ruleset c) #
      map (\<lambda>field. flag_bytes (fst field c)) kAllClaims =
    le_bytes 2 (profile_code (cl_profile_id d)) # le_bytes 2 (cl_profile_ruleset d) #
      map (\<lambda>field. flag_bytes (fst field d)) kAllClaims \<longleftrightarrow> c = d"
  (is "?l = ?r \<longleftrightarrow> _")
proof
  assume eq: "?l = ?r"
  then have pid: "cl_profile_id c = cl_profile_id d" "cl_profile_ruleset c = cl_profile_ruleset d"
    by (simp_all add: le_bytes_eq_iff)
  have "flag_bytes a = flag_bytes b \<longleftrightarrow> a = b" for a b by (simp add: le_bytes_eq_iff)
  with eq have "fst f c = fst f d" if "f \<in> set kAllClaims" for f
    using that by simp
  then have "fst (kAllClaims ! k) c = fst (kAllClaims ! k) d" if "k < length kAllClaims" for k
    using that nth_mem by blast
  then have "platform_claim_bits c = platform_claim_bits d"
    by (intro bit_word_eqI) (auto simp: bit_kAllClaims)
  then show "c = d"
    by (metis claims_from_bits_roundtrip pid)
qed simp

section \<open>Properties\<close>

text \<open>Tier 1 eligibility is one conjunction: a verdict and the mesh facts make a node eligible
  exactly if the claims are structurally consistent, every required claim was proved, the certificate,
  the continuity and the mesh health hold, and the verdict is for the epoch and the incarnation the
  mesh considers live. Nothing else, in particular no \<^verbatim>\<open>passed\<close> flag, enters, and no prerequisite can be
  traded for another.\<close>

theorem tier1_eligibility_is_conjunction:
  "(tier1_eligibility v f = Eligible \<longleftrightarrow>
     platform_claims_are_consistent (av_claims v) \<and> missing_platform_claims (av_claims v) = [] \<and>
     mf_certificate_valid f \<and> mf_uptime_valid f \<and> mf_mesh_health_valid f \<and>
     mf_current_epoch f = Some (av_epoch v) \<and> mf_current_incarnation f = Some (av_incarnation v)) \<and>
   (policy_evaluate (tier1_evidence_state v f) = Eligible \<longleftrightarrow>
     failed_prerequisites (tier1_evidence_state v f) = [])"
  using eligible_iff [of v f] all_proved_iff [of "av_claims v"] policy_evaluate_iff by simp

text \<open>The bit mask of a claim set loses nothing and invents nothing: decoding the mask with the
  profile identity gives the claims back, re-encoding a decoded mask keeps exactly the fourteen named
  bits, and a mask within the compiled bound survives unchanged.\<close>

theorem claim_bits_roundtrip:
  "platform_claims_from_bits (cl_profile_id c) (cl_profile_ruleset c) (platform_claim_bits c) = c \<and>
   platform_claim_bits (platform_claims_from_bits pid rs w) = w AND kPlatformClaimBitMask \<and>
   platform_claim_bits c AND NOT kPlatformClaimBitMask = 0"
proof -
  have "platform_claim_bits c = platform_claim_bits c AND kPlatformClaimBitMask"
    using claim_bits_masked [of "cl_profile_id c" "cl_profile_ruleset c" "platform_claim_bits c"]
    by (simp add: claims_from_bits_roundtrip)
  then have "platform_claim_bits c AND NOT kPlatformClaimBitMask = 0"
    by (metis bit.conj_cancel_right bit.conj_zero_right and.assoc)
  then show ?thesis using claims_from_bits_roundtrip claim_bits_masked by blast
qed

end
