(* ===== verification/Epoch_Types.thy ===== *)
theory Epoch_Types
  imports Consensus_Types Platform_Claims
begin

text \<open>
  \<^verbatim>\<open>Security/Epoch/Tier1Set.cpp\<close>, \<^verbatim>\<open>EpochState.cpp\<close>, \<^verbatim>\<open>Tier1Selector.cpp\<close> and \<^verbatim>\<open>NextEpochPlan.cpp\<close>: the
  frozen membership of an epoch, the deterministic ranking of candidates, and the objects a handoff
  between epochs commits to. The lemmas show that sets are sorted and without duplicates, that the
  ranking is a permutation of the pool, and that a handoff digest determines the handoff.
\<close>

section \<open>Tier 1 sets\<close>

text \<open>The members in ascending order; \<open>from_nodes\<close> is the only constructor. On a sorted vector
  \<^verbatim>\<open>std::binary_search\<close> is membership.\<close>

type_synonym tier1_set = "node_id list"

definition kParticipantSetDomain :: string where
  "kParticipantSetDomain = ''lemonade-nexus/participant-set:v1''"

fun adjacent_equal :: "'a list \<Rightarrow> bool" where
  "adjacent_equal (x # y # zs) = (x = y \<or> adjacent_equal (y # zs))"
| "adjacent_equal _ = False"

definition from_nodes :: "node_id list \<Rightarrow> tier1_set option" where
  "from_nodes nodes = (let nodes = sort nodes in if adjacent_equal nodes then None else Some nodes)"

definition tier1_contains :: "tier1_set \<Rightarrow> node_id \<Rightarrow> bool" where
  "tier1_contains ts node \<longleftrightarrow> node \<in> set ts"

definition tier1_set_stream :: "tier1_set \<Rightarrow> byte list" where
  "tier1_set_stream ts =
     (let e = canonical_encoder kParticipantSetDomain;
          e = add_u64 e (of_nat (length ts))
      in foldl add_node e ts)"

definition tier1_set_digest :: "crypto \<Rightarrow> tier1_set \<Rightarrow> digest" where
  "tier1_set_digest cr ts = encoder_digest cr (tier1_set_stream ts)"

section \<open>Epoch states\<close>

record epoch_state =
  ep_id :: u64
  ep_network_id :: digest
  ep_tier1_members :: tier1_set
  ep_consensus_quorum :: nat
  ep_authority_threshold :: nat
  ep_authority_public_key :: pubkey
  ep_attestation_root :: digest
  ep_participant_set_digest :: digest
  ep_security_ruleset :: u16
  ep_consensus_ruleset :: u16

definition make_epoch_state ::
  "crypto \<Rightarrow> u64 \<Rightarrow> digest \<Rightarrow> tier1_set \<Rightarrow> pubkey \<Rightarrow> digest \<Rightarrow> epoch_state" where
  "make_epoch_state cr epoch network members authority_key root =
     \<lparr>ep_id = epoch, ep_network_id = network, ep_tier1_members = members,
      ep_consensus_quorum = consensus_quorum (length members),
      ep_authority_threshold = authority_threshold (length members),
      ep_authority_public_key = authority_key, ep_attestation_root = root,
      ep_participant_set_digest = tier1_set_digest cr members,
      ep_security_ruleset = kSecurityRulesetVersion, ep_consensus_ruleset = kConsensusRulesetVersion\<rparr>"

section \<open>Selection\<close>

definition selection_seed :: "crypto \<Rightarrow> pubkey \<Rightarrow> u64 \<Rightarrow> digest" where
  "selection_seed cr group_key next_epoch =
     (let e = canonical_encoder kTier1SelectDomain;
          e = add_string e ''seed'';
          e = add_digest e group_key;
          e = add_u64 e next_epoch
      in encoder_digest cr e)"

definition selection_score :: "crypto \<Rightarrow> digest \<Rightarrow> node_id \<Rightarrow> digest" where
  "selection_score cr seed node =
     (let e = canonical_encoder kTier1SelectDomain;
          e = add_string e ''score'';
          e = add_digest e seed;
          e = add_node e node
      in encoder_digest cr e)"

definition tier1_rank :: "crypto \<Rightarrow> tier1_set \<Rightarrow> pubkey \<Rightarrow> u64 \<Rightarrow> node_id list" where
  "tier1_rank cr pool group_key next_epoch =
     (let seed = selection_seed cr group_key next_epoch;
          scored = map (\<lambda>node. (selection_score cr seed node, node)) pool
      in map snd (sort scored))"

definition tier1_select :: "crypto \<Rightarrow> tier1_set \<Rightarrow> pubkey \<Rightarrow> u64 \<Rightarrow> nat \<Rightarrow> node_id list" where
  "tier1_select cr pool group_key next_epoch n =
     (let ranked = tier1_rank cr pool group_key next_epoch
      in if n < length ranked then take n ranked else ranked)"

section \<open>Plans and handoffs\<close>

definition kPlanDomain :: string where "kPlanDomain = ''lemonade-nexus/next-epoch-plan:v1''"
definition kReadinessDomain :: string where "kReadinessDomain = ''lemonade-nexus/candidate-readiness:v1''"
definition kHandoffDomain :: string where "kHandoffDomain = ''lemonade-nexus/epoch-handoff:v3''"
definition kVoteKeySetDomain :: string where "kVoteKeySetDomain = ''lemonade-nexus/vote-key-set:v1''"

record next_epoch_plan =
  np_network_id :: digest
  np_current_epoch :: u64
  np_next_epoch :: u64
  np_attempt :: u32
  np_checkpoint_height :: u64
  np_checkpoint_state_root :: digest
  np_eligibility_commitment :: digest
  np_selection_seed :: pubkey
  np_selected :: "node_id list"
  np_incarnations :: "(node_id, u64) smap"
  np_security_ruleset :: u16
  np_consensus_ruleset :: u16
  np_profile_id :: attestation_profile_id
  np_profile_ruleset :: u16

text \<open>A listed node with its incarnation, zero where none is given.\<close>

definition add_incarnation :: "(node_id, u64) smap \<Rightarrow> encoder \<Rightarrow> node_id \<Rightarrow> encoder" where
  "add_incarnation incarnations e node =
     add_u64 (add_node e node) (case map_of incarnations node of None \<Rightarrow> 0 | Some i \<Rightarrow> i)"

definition next_epoch_plan_stream :: "next_epoch_plan \<Rightarrow> byte list" where
  "next_epoch_plan_stream plan =
     (let e = canonical_encoder kPlanDomain;
          e = add_digest e (np_network_id plan);
          e = add_u64 e (np_current_epoch plan);
          e = add_u64 e (np_next_epoch plan);
          e = add_u32 e (np_attempt plan);
          e = add_u64 e (np_checkpoint_height plan);
          e = add_digest e (np_checkpoint_state_root plan);
          e = add_digest e (np_eligibility_commitment plan);
          e = add_digest e (np_selection_seed plan);
          e = add_u64 e (of_nat (length (np_selected plan)));
          e = foldl (add_incarnation (np_incarnations plan)) e (np_selected plan);
          e = add_u16 e (np_security_ruleset plan);
          e = add_u16 e (np_consensus_ruleset plan);
          e = add_u16 e (profile_code (np_profile_id plan))
      in add_u16 e (np_profile_ruleset plan))"

definition next_epoch_plan_digest :: "crypto \<Rightarrow> next_epoch_plan \<Rightarrow> digest" where
  "next_epoch_plan_digest cr plan = encoder_digest cr (next_epoch_plan_stream plan)"

record readiness_entry =
  re_node :: node_id
  re_incarnation :: u64
  re_attestation_context :: digest
  re_vote_key :: pubkey

record candidate_readiness =
  cn_network_id :: digest
  cn_plan_digest :: digest
  cn_next_epoch :: u64
  cn_entries :: "readiness_entry list"

definition add_readiness_entry :: "encoder \<Rightarrow> readiness_entry \<Rightarrow> encoder" where
  "add_readiness_entry e entry =
     add_digest (add_digest (add_u64 (add_node e (re_node entry)) (re_incarnation entry))
       (re_attestation_context entry)) (re_vote_key entry)"

definition candidate_readiness_digest :: "crypto \<Rightarrow> candidate_readiness \<Rightarrow> digest" where
  "candidate_readiness_digest cr readiness =
     (let e = canonical_encoder kReadinessDomain;
          e = add_digest e (cn_network_id readiness);
          e = add_digest e (cn_plan_digest readiness);
          e = add_u64 e (cn_next_epoch readiness);
          e = add_u64 e (of_nat (length (cn_entries readiness)))
      in encoder_digest cr (foldl add_readiness_entry e (cn_entries readiness)))"

record epoch_handoff =
  ho_network_id :: digest
  ho_from_epoch :: u64
  ho_to_epoch :: u64
  ho_plan_digest :: digest
  ho_previous_anchor :: digest
  ho_members :: "node_id list"
  ho_incarnations :: "(node_id, u64) smap"
  ho_vote_keys :: "(node_id, pubkey) smap"
  ho_group_public_key :: pubkey
  ho_dkg_transcript_digest :: digest
  ho_key_generation :: u64
  ho_attestation_root :: digest
  ho_security_ruleset :: u16
  ho_consensus_ruleset :: u16

fun add_vote_key :: "encoder \<Rightarrow> node_id \<times> pubkey \<Rightarrow> encoder" where
  "add_vote_key e (node, key) = add_digest (add_node e node) key"

definition vote_key_set_stream :: "(node_id, pubkey) smap \<Rightarrow> byte list" where
  "vote_key_set_stream keys =
     (let e = canonical_encoder kVoteKeySetDomain;
          e = add_u64 e (of_nat (length keys))
      in foldl add_vote_key e keys)"

definition vote_key_set_digest :: "crypto \<Rightarrow> (node_id, pubkey) smap \<Rightarrow> digest" where
  "vote_key_set_digest cr keys = encoder_digest cr (vote_key_set_stream keys)"

definition epoch_handoff_stream :: "crypto \<Rightarrow> epoch_handoff \<Rightarrow> byte list" where
  "epoch_handoff_stream cr h =
     (let e = canonical_encoder kHandoffDomain;
          e = add_digest e (ho_network_id h);
          e = add_u64 e (ho_from_epoch h);
          e = add_u64 e (ho_to_epoch h);
          e = add_digest e (ho_plan_digest h);
          e = add_digest e (ho_previous_anchor h);
          e = add_u64 e (of_nat (length (ho_members h)));
          e = foldl (add_incarnation (ho_incarnations h)) e (ho_members h);
          e = add_digest e (vote_key_set_digest cr (ho_vote_keys h));
          e = add_digest e (ho_group_public_key h);
          e = add_digest e (ho_dkg_transcript_digest h);
          e = add_u64 e (ho_key_generation h);
          e = add_digest e (ho_attestation_root h);
          e = add_u16 e (ho_security_ruleset h)
      in add_u16 e (ho_consensus_ruleset h))"

definition epoch_handoff_digest :: "crypto \<Rightarrow> epoch_handoff \<Rightarrow> digest" where
  "epoch_handoff_digest cr h = encoder_digest cr (epoch_handoff_stream cr h)"

section \<open>Sets are sorted and without duplicates\<close>

lemma adjacent_equal_sorted: "sorted xs \<Longrightarrow> adjacent_equal xs \<longleftrightarrow> \<not> distinct xs"
proof (induction xs rule: adjacent_equal.induct)
  case (1 x y zs)
  then show ?case by (auto simp: order.antisym)
qed simp_all

lemma from_nodes_eq: "from_nodes nodes = (if distinct nodes then Some (sort nodes) else None)"
  by (simp add: from_nodes_def Let_def adjacent_equal_sorted)

lemma from_nodes_Some:
  assumes "from_nodes nodes = Some ts"
  shows "sorted ts" "distinct ts" "set ts = set nodes" "length ts = length nodes" "mset ts = mset nodes"
  using assms by (auto simp: from_nodes_eq split: if_splits)

lemma from_nodes_perm:
  assumes "distinct xs" and "distinct ys" and "set xs = set ys"
  shows "from_nodes xs = from_nodes ys"
proof -
  have "mset xs = mset ys" using assms by (simp add: set_eq_iff_mset_eq_distinct)
  then show ?thesis using assms by (simp add: from_nodes_eq sort_eq_iff_mset)
qed

section \<open>The ranking\<close>

lemma mset_tier1_rank: "mset (tier1_rank cr pool key ep) = mset pool"
proof -
  have "image_mset snd (mset (map (\<lambda>m. (score m, m)) pool)) = mset pool" for score :: "node_id \<Rightarrow> digest"
    by (simp add: multiset.map_comp comp_def)
  then show ?thesis by (simp only: tier1_rank_def Let_def mset_map [of snd] mset_sort)
qed

lemma set_tier1_rank [simp]: "set (tier1_rank cr pool key ep) = set pool"
  using arg_cong [OF mset_tier1_rank, of set_mset] by simp

lemma length_tier1_rank [simp]: "length (tier1_rank cr pool key ep) = length pool"
  by (simp add: tier1_rank_def Let_def)

lemma distinct_tier1_rank [simp]: "distinct (tier1_rank cr pool key ep) = distinct pool"
  using mset_tier1_rank by (metis mset_eq_imp_distinct_iff)

lemma tier1_select_take: "tier1_select cr pool key ep n = take n (tier1_rank cr pool key ep)"
  by (simp add: tier1_select_def Let_def)

section \<open>A handoff digest determines the handoff\<close>

definition incarnation_of :: "(node_id, u64) smap \<Rightarrow> node_id \<Rightarrow> u64" where
  "incarnation_of m node = (case map_of m node of None \<Rightarrow> 0 | Some i \<Rightarrow> i)"

definition member_fields :: "(node_id, u64) smap \<Rightarrow> node_id list \<Rightarrow> byte list list" where
  "member_fields m nodes = concat (map (\<lambda>n. [bnode n, le_bytes 8 (incarnation_of m n)]) nodes)"

lemma foldl_add_incarnation:
  "foldl (add_incarnation m) (field_stream fs) nodes = field_stream (fs @ member_fields m nodes)"
  by (induction nodes arbitrary: fs)
    (simp_all add: add_incarnation_def incarnation_of_def member_fields_def encoder_fields
      del: field_stream_simps)

lemma member_fields_facts:
  "length (member_fields m nodes) = 2 * length nodes" "short_fields (member_fields m nodes)"
  by (induction nodes) (simp_all add: member_fields_def)

lemma member_fields_inj:
  "member_fields m nodes = member_fields m' nodes' \<longleftrightarrow>
     nodes = nodes' \<and> (\<forall>n \<in> set nodes. incarnation_of m n = incarnation_of m' n)"
proof (induction nodes arbitrary: nodes')
  case Nil
  show ?case by (cases nodes') (simp_all add: member_fields_def)
next
  case (Cons n nodes)
  show ?case
  proof (cases nodes')
    case Nil
    then show ?thesis by (simp add: member_fields_def)
  next
    case (Cons n' nodes'')
    then show ?thesis
      using Cons.IH [of nodes''] by (auto simp: member_fields_def stream_simps)
  qed
qed

definition key_fields :: "(node_id, pubkey) smap \<Rightarrow> byte list list" where
  "key_fields keys = concat (map (\<lambda>(n, k). [bnode n, b32 k]) keys)"

lemma foldl_add_vote_key: "foldl add_vote_key (field_stream fs) keys = field_stream (fs @ key_fields keys)"
  by (induction keys arbitrary: fs) (auto simp: key_fields_def encoder_fields simp del: field_stream_simps)

lemma key_fields_short: "short_fields (key_fields keys)"
  by (induction keys) (auto simp: key_fields_def)

lemma key_fields_inj: "key_fields keys = key_fields keys' \<longleftrightarrow> keys = keys'"
proof (induction keys arbitrary: keys')
  case Nil
  show ?case by (cases keys') (auto simp: key_fields_def)
next
  case (Cons e keys)
  show ?case
  proof (cases keys')
    case Nil
    then show ?thesis by (cases e) (simp add: key_fields_def)
  next
    case (Cons e' keys'')
    then show ?thesis
      using Cons.IH [of keys''] by (cases e; cases e') (auto simp: key_fields_def stream_simps)
  qed
qed

lemma vote_key_set_stream_fields:
  "vote_key_set_stream keys = field_stream ([string_bytes kVoteKeySetDomain,
     le_bytes 8 (of_nat (length keys) :: u64)] @ key_fields keys)"
  by (simp add: vote_key_set_stream_def encoder_fields foldl_add_vote_key del: field_stream_simps)

lemma vote_key_set_stream_eq_iff [stream_simps]: "vote_key_set_stream a = vote_key_set_stream b \<longleftrightarrow> a = b"
  unfolding vote_key_set_stream_fields
  by (subst field_stream_eq_iff)
    (auto simp: short_fields_append key_fields_short key_fields_inj kVoteKeySetDomain_def)

lemma epoch_handoff_stream_fields:
  "epoch_handoff_stream cr h = field_stream
     ([string_bytes kHandoffDomain, b32 (ho_network_id h), le_bytes 8 (ho_from_epoch h),
       le_bytes 8 (ho_to_epoch h), b32 (ho_plan_digest h), b32 (ho_previous_anchor h),
       le_bytes 8 (of_nat (length (ho_members h)) :: u64)]
      @ member_fields (ho_incarnations h) (ho_members h)
      @ [b32 (vote_key_set_digest cr (ho_vote_keys h)), b32 (ho_group_public_key h),
         b32 (ho_dkg_transcript_digest h), le_bytes 8 (ho_key_generation h), b32 (ho_attestation_root h),
         le_bytes 2 (ho_security_ruleset h), le_bytes 2 (ho_consensus_ruleset h)])"
  by (simp add: epoch_handoff_stream_def encoder_fields foldl_add_incarnation del: field_stream_simps)

text \<open>The listings of a handoff cover its members exactly.\<close>

definition handoff_listed :: "epoch_handoff \<Rightarrow> bool" where
  "handoff_listed h \<longleftrightarrow> smap_ok (ho_incarnations h) \<and> dom (map_of (ho_incarnations h)) = set (ho_members h)"

lemma listed_incarnations_eq:
  assumes "handoff_listed h" and "handoff_listed h'" and "ho_members h = ho_members h'"
    and "\<forall>n \<in> set (ho_members h). incarnation_of (ho_incarnations h) n = incarnation_of (ho_incarnations h') n"
  shows "ho_incarnations h = ho_incarnations h'"
proof (rule smap_ext)
  show "map_of (ho_incarnations h) = map_of (ho_incarnations h')"
  proof
    fix n
    show "map_of (ho_incarnations h) n = map_of (ho_incarnations h') n"
    proof (cases "n \<in> set (ho_members h)")
      case True
      then have "n \<in> dom (map_of (ho_incarnations h))" "n \<in> dom (map_of (ho_incarnations h'))"
        using assms(1-3) by (simp_all add: handoff_listed_def)
      then show ?thesis using assms(4) True by (auto simp: incarnation_of_def)
    next
      case False
      then have "n \<notin> dom (map_of (ho_incarnations h))" "n \<notin> dom (map_of (ho_incarnations h'))"
        using assms(1-3) by (simp_all add: handoff_listed_def)
      then show ?thesis by (metis domIff)
    qed
  qed
qed (use assms in \<open>simp_all add: handoff_listed_def\<close>)

lemma epoch_handoff_stream_inj:
  assumes "epoch_handoff_stream cr h = epoch_handoff_stream cr h'"
    and "handoff_listed h" and "handoff_listed h'"
    and "vote_key_set_digest cr (ho_vote_keys h) = vote_key_set_digest cr (ho_vote_keys h') \<Longrightarrow>
      ho_vote_keys h = ho_vote_keys h'"
  shows "h = h'"
proof -
  have "length (member_fields m xs) = length (member_fields m' ys) \<longleftrightarrow> length xs = length ys" for m m' xs ys
    by (simp add: member_fields_facts)
  with assms(1) have fields: "ho_network_id h = ho_network_id h'" "ho_from_epoch h = ho_from_epoch h'"
    "ho_to_epoch h = ho_to_epoch h'" "ho_plan_digest h = ho_plan_digest h'"
    "ho_previous_anchor h = ho_previous_anchor h'"
    "member_fields (ho_incarnations h) (ho_members h) = member_fields (ho_incarnations h') (ho_members h')"
    "vote_key_set_digest cr (ho_vote_keys h) = vote_key_set_digest cr (ho_vote_keys h')"
    "ho_group_public_key h = ho_group_public_key h'"
    "ho_dkg_transcript_digest h = ho_dkg_transcript_digest h'" "ho_key_generation h = ho_key_generation h'"
    "ho_attestation_root h = ho_attestation_root h'" "ho_security_ruleset h = ho_security_ruleset h'"
    "ho_consensus_ruleset h = ho_consensus_ruleset h'"
    unfolding epoch_handoff_stream_fields
    by (subst (asm) field_stream_eq_iff;
        simp add: short_fields_append member_fields_facts kHandoffDomain_def stream_simps)+
  have "ho_members h = ho_members h'" using fields(6) by (simp add: member_fields_inj)
  moreover have "ho_incarnations h = ho_incarnations h'"
    using fields(6) assms(2,3) by (intro listed_incarnations_eq) (simp_all add: member_fields_inj)
  ultimately show ?thesis using fields assms(4) by (intro epoch_handoff.equality) simp_all
qed

text \<open>The byte streams behind a handoff digest.\<close>

definition handoff_streams :: "crypto \<Rightarrow> epoch_handoff \<Rightarrow> byte list set" where
  "handoff_streams cr h = {epoch_handoff_stream cr h, vote_key_set_stream (ho_vote_keys h)}"

lemma epoch_handoff_digest_inj:
  assumes "collision_free cr (handoff_streams cr h \<union> handoff_streams cr h')"
    and "handoff_listed h" and "handoff_listed h'"
    and "epoch_handoff_digest cr h = epoch_handoff_digest cr h'"
  shows "h = h'"
proof (rule epoch_handoff_stream_inj [OF _ assms(2,3)])
  show "epoch_handoff_stream cr h = epoch_handoff_stream cr h'"
    using collision_freeD [OF assms(1), of "epoch_handoff_stream cr h" "epoch_handoff_stream cr h'"] assms(4)
    by (simp add: epoch_handoff_digest_def encoder_digest_def handoff_streams_def)
next
  assume "vote_key_set_digest cr (ho_vote_keys h) = vote_key_set_digest cr (ho_vote_keys h')"
  then show "ho_vote_keys h = ho_vote_keys h'"
    using collision_freeD [OF assms(1), of "vote_key_set_stream (ho_vote_keys h)"
        "vote_key_set_stream (ho_vote_keys h')"]
    by (simp add: vote_key_set_digest_def encoder_digest_def handoff_streams_def stream_simps)
qed

section \<open>Properties\<close>

text \<open>C34. Selection is deterministic and stable: two nodes that froze the same pool, in whatever order
  they collected it, select the same candidates; the selection has the requested size or exhausts the
  pool, without duplicates and from the pool only; and a smaller selection is the beginning of a larger
  one, so that growing the target never drops a candidate.\<close>

theorem selection_deterministic:
  assumes "from_nodes pool = Some ts" and "from_nodes pool' = Some ts'" and "set pool = set pool'" and "m \<le> n"
  shows "tier1_select cr ts key ep n = tier1_select cr ts' key ep n \<and>
    distinct (tier1_select cr ts key ep n) \<and> set (tier1_select cr ts key ep n) \<subseteq> set pool \<and>
    length (tier1_select cr ts key ep n) = min n (length pool) \<and>
    take m (tier1_select cr ts key ep n) = tier1_select cr ts key ep m"
proof -
  have "distinct pool" "distinct pool'"
    using assms(1,2) by (auto simp: from_nodes_eq split: if_splits)
  then have "ts = ts'" using from_nodes_perm [of pool pool'] assms(1-3) by simp
  moreover have "distinct ts" "set ts = set pool" "length ts = length pool"
    using from_nodes_Some [OF assms(1)] by simp_all
  ultimately show ?thesis
    using assms(4) set_take_subset [of n "tier1_rank cr ts key ep"]
    by (simp add: tier1_select_take min_def)
qed

theorem selection_deterministic_witness:
  "tier1_select (example_crypto []) (sort (map NodeId [3, 1, 2])) 9 4 2 =
     tier1_select (example_crypto []) (sort (map NodeId [2, 3, 1])) 9 4 2 \<and>
   length (tier1_select (example_crypto []) (sort (map NodeId [3, 1, 2])) 9 4 2) = 2"
proof -
  have "from_nodes (map NodeId [3, 1, 2]) = Some (sort (map NodeId [3, 1, 2]))"
    "from_nodes (map NodeId [2, 3, 1]) = Some (sort (map NodeId [2, 3, 1]))"
    by (simp_all add: from_nodes_eq)
  moreover have "set (map NodeId [3, 1, 2]) = set (map NodeId [2, 3, 1])" by auto
  ultimately have "tier1_select (example_crypto []) (sort (map NodeId [3, 1, 2])) 9 4 2 =
      tier1_select (example_crypto []) (sort (map NodeId [2, 3, 1])) 9 4 2 \<and>
      length (tier1_select (example_crypto []) (sort (map NodeId [3, 1, 2])) 9 4 2) =
        min 2 (length (map NodeId [3, 1, 2]))"
    using selection_deterministic [of "map NodeId [3, 1, 2]" _ "map NodeId [2, 3, 1]" _ 2 2] by blast
  moreover have "min 2 (length (map NodeId [3, 1, 2])) = 2" by simp
  ultimately show ?thesis by argo
qed

text \<open>A handoff digest binds the whole handoff: where the hash does not collide on the streams behind
  two handoffs whose incarnation listings cover their members exactly, equal digests mean the same
  members, incarnations, vote keys, group key, generation, roots, anchors and rulesets.\<close>

theorem handoff_digest_binding:
  assumes "collision_free cr (handoff_streams cr h \<union> handoff_streams cr h')"
    and "handoff_listed h" and "handoff_listed h'"
  shows "epoch_handoff_digest cr h = epoch_handoff_digest cr h' \<longleftrightarrow> h = h'"
  using epoch_handoff_digest_inj [OF assms] by auto

definition example_handoff :: "pubkey \<Rightarrow> epoch_handoff" where
  "example_handoff key =
     \<lparr>ho_network_id = 1, ho_from_epoch = 2, ho_to_epoch = 3, ho_plan_digest = 4, ho_previous_anchor = 5,
      ho_members = [NodeId 6], ho_incarnations = [(NodeId 6, 1)], ho_vote_keys = [(NodeId 6, key)],
      ho_group_public_key = 8, ho_dkg_transcript_digest = 9, ho_key_generation = 3,
      ho_attestation_root = 10, ho_security_ruleset = 1, ho_consensus_ruleset = 1\<rparr>"

definition handoff_stream_with :: "digest \<Rightarrow> byte list" where
  "handoff_stream_with d = field_stream
     [string_bytes kHandoffDomain, b32 1, le_bytes 8 (2 :: u64), le_bytes 8 (3 :: u64), b32 4, b32 5,
      le_bytes 8 (1 :: u64), bnode (NodeId 6), le_bytes 8 (1 :: u64), b32 d, b32 8, b32 9,
      le_bytes 8 (3 :: u64), b32 10, le_bytes 2 (1 :: u16), le_bytes 2 (1 :: u16)]"

definition example_handoffs :: crypto where
  "example_handoffs = example_crypto [handoff_stream_with 2, handoff_stream_with 1,
     vote_key_set_stream [(NodeId 6, 7)], vote_key_set_stream [(NodeId 6, 70)]]"

lemma example_handoff_streams:
  "handoff_streams example_handoffs (example_handoff 7) =
     {handoff_stream_with 2, vote_key_set_stream [(NodeId 6, 7)]}"
  "handoff_streams example_handoffs (example_handoff 70) =
     {handoff_stream_with 1, vote_key_set_stream [(NodeId 6, 70)]}"
proof -
  have "vote_key_set_stream keys \<noteq> handoff_stream_with d" for keys d
    unfolding vote_key_set_stream_fields handoff_stream_with_def
    by (subst field_stream_eq_iff)
      (simp_all add: short_fields_append key_fields_short kVoteKeySetDomain_def kHandoffDomain_def stream_simps)
  then have "vote_key_set_digest example_handoffs [(NodeId 6, 7)] = 2"
    "vote_key_set_digest example_handoffs [(NodeId 6, 70)] = 1"
    by (simp_all add: vote_key_set_digest_def encoder_digest_def example_handoffs_def example_simps stream_simps)
  then show "handoff_streams example_handoffs (example_handoff 7) =
     {handoff_stream_with 2, vote_key_set_stream [(NodeId 6, 7)]}"
  "handoff_streams example_handoffs (example_handoff 70) =
     {handoff_stream_with 1, vote_key_set_stream [(NodeId 6, 70)]}"
    by (simp_all add: handoff_streams_def epoch_handoff_stream_fields handoff_stream_with_def
        example_handoff_def member_fields_def incarnation_of_def del: field_stream_simps)
qed

theorem handoff_digest_binding_witness:
  "epoch_handoff_digest example_handoffs (example_handoff 7) \<noteq>
   epoch_handoff_digest example_handoffs (example_handoff 70)"
proof -
  have "collision_free example_handoffs (handoff_streams example_handoffs (example_handoff 7) \<union>
      handoff_streams example_handoffs (example_handoff 70))"
    unfolding example_handoff_streams unfolding example_handoffs_def
    by (rule example_collision_free) auto
  moreover have "handoff_listed (example_handoff k)" for k
    by (simp add: handoff_listed_def example_handoff_def smap_ok_def)
  ultimately have "epoch_handoff_digest example_handoffs (example_handoff 7) =
      epoch_handoff_digest example_handoffs (example_handoff 70) \<longleftrightarrow> example_handoff 7 = example_handoff 70"
    by (intro handoff_digest_binding)
  then show ?thesis by (simp add: example_handoff_def)
qed

end
