(* ===== verification/Epoch_Manager.thy ===== *)
theory Epoch_Manager
  imports Epoch_Types
begin

text \<open>
  \<^verbatim>\<open>Security/Epoch/EpochManager.cpp\<close> and \<^verbatim>\<open>EpochTransition.hpp\<close>: the handoff from one epoch to the next
  as a state machine. Candidates are selected from a frozen pool, attested for the next epoch, register
  vote keys, generate the authority key, and the current epoch authorizes the switch. The lemmas show
  the invariant of the transition over every sequence of calls, and from it what an activated epoch is.
\<close>

section \<open>The transition\<close>

datatype epoch_transition_phase =
  Selecting | Attesting | GeneratingVoteKeys | GeneratingAuthorityKey | Ready | Finalizing | Aborted

datatype epoch_transition_failure =
    TfNone | EligiblePoolBelowMinimum | FinalAttestationFailed | VoteKeyMissing | DkgFailed
  | ThresholdUnreachable | HandoffTimeout | AuthorizationMissing

record epoch_transition =
  tr_from_epoch :: u64
  tr_to_epoch :: u64
  tr_phase :: epoch_transition_phase
  tr_selected_members :: "node_id list"
  tr_participant_set_digest :: digest
  tr_attestation_root :: digest
  tr_dkg_transcript_digest :: digest
  tr_next_authority_key :: pubkey
  tr_next_consensus_quorum :: nat
  tr_next_authority_threshold :: nat
  tr_failure :: epoch_transition_failure

definition ready_for_activation :: "epoch_transition \<Rightarrow> bool" where
  "ready_for_activation t \<longleftrightarrow>
     tr_phase t = Ready \<and> tr_failure t = TfNone \<and> length (tr_selected_members t) \<ge> kMinActiveTier1 \<and>
     tr_next_authority_key t \<noteq> 0 \<and> tr_dkg_transcript_digest t \<noteq> 0 \<and> tr_participant_set_digest t \<noteq> 0"

section \<open>The manager\<close>

record epoch_manager =
  em_current :: epoch_state
  em_current_vote_keys :: "(node_id, pubkey) smap"
  em_transition :: "epoch_transition option"
  em_rank :: "node_id list"
  em_removed_candidates :: "node_id set"
  em_final_verdicts :: "(node_id, attestation_verdict) smap"
  em_next_vote_keys :: "(node_id, pubkey) smap"
  em_authorized :: bool
  em_authorization_certificate_digest :: digest
  em_target_shortfall :: bool
  em_reserve_shortfall :: bool

definition epoch_manager_init :: "epoch_state \<Rightarrow> (node_id, pubkey) smap \<Rightarrow> epoch_manager" where
  "epoch_manager_init initial keys =
     \<lparr>em_current = initial, em_current_vote_keys = keys, em_transition = None, em_rank = [],
      em_removed_candidates = {}, em_final_verdicts = [], em_next_vote_keys = [], em_authorized = False,
      em_authorization_certificate_digest = 0, em_target_shortfall = False, em_reserve_shortfall = False\<rparr>"

definition transition_active :: "epoch_manager \<Rightarrow> bool" where
  "transition_active m = (case em_transition m of None \<Rightarrow> False | Some t \<Rightarrow> tr_phase t \<noteq> Aborted)"

text \<open>The transition \<^verbatim>\<open>prepare_next_epoch\<close> and \<^verbatim>\<open>prepare_planned_epoch\<close> start with, and the state they
  reset. \<^const>\<open>None\<close> is the dereference of an empty \<^verbatim>\<open>std::optional<Tier1Set>\<close>.\<close>

definition start_transition :: "crypto \<Rightarrow> epoch_manager \<Rightarrow> node_id list \<Rightarrow> epoch_manager option" where
  "start_transition cr m selected =
     (case from_nodes selected of
        None \<Rightarrow> None
      | Some selected_set \<Rightarrow>
          Some (m\<lparr>em_transition := Some
                   \<lparr>tr_from_epoch = ep_id (em_current m), tr_to_epoch = ep_id (em_current m) + 1,
                    tr_phase = Attesting, tr_selected_members = selected,
                    tr_participant_set_digest = tier1_set_digest cr selected_set,
                    tr_attestation_root = 0, tr_dkg_transcript_digest = 0, tr_next_authority_key = 0,
                    tr_next_consensus_quorum = consensus_quorum (length selected),
                    tr_next_authority_threshold = authority_threshold (length selected),
                    tr_failure = TfNone\<rparr>,
                  em_removed_candidates := {}, em_final_verdicts := [], em_next_vote_keys := [],
                  em_authorized := False, em_authorization_certificate_digest := 0\<rparr>))"

text \<open>Each operation gives its result and the new state; \<^const>\<open>None\<close> stands for undefined behaviour.\<close>

definition prepare_next_epoch ::
  "crypto \<Rightarrow> epoch_manager \<Rightarrow> tier1_set \<Rightarrow> nat \<Rightarrow> (bool \<times> epoch_manager) option" where
  "prepare_next_epoch cr m frozen_eligible admitted =
     (if transition_active m then Some (False, m)
      else let outcome = tier1_target_outcome admitted (length frozen_eligible)
           in if active_target outcome < kMinActiveTier1 then Some (False, m)
              else let m = m\<lparr>em_target_shortfall := target_shortfall outcome,
                             em_reserve_shortfall := reserve_shortfall outcome,
                             em_rank := tier1_rank cr frozen_eligible
                               (ep_authority_public_key (em_current m)) (ep_id (em_current m) + 1)\<rparr>
                   in map_option (Pair True)
                        (start_transition cr m (take (active_target outcome) (em_rank m))))"

fun preview_loop :: "node_id list \<Rightarrow> node_id set \<Rightarrow> nat \<Rightarrow> node_id list \<Rightarrow> node_id list" where
  "preview_loop [] excluded target selected = selected"
| "preview_loop (node # ranked) excluded target selected =
     (if length selected = target then selected
      else preview_loop ranked excluded target
             (if node \<notin> excluded then selected @ [node] else selected))"

definition preview_selection ::
  "crypto \<Rightarrow> epoch_manager \<Rightarrow> tier1_set \<Rightarrow> nat \<Rightarrow> node_id set \<Rightarrow> node_id list" where
  "preview_selection cr m frozen_eligible admitted excluded =
     (let outcome = tier1_target_outcome admitted (length frozen_eligible)
      in if active_target outcome < kMinActiveTier1 then []
         else let ranked = tier1_rank cr frozen_eligible (ep_authority_public_key (em_current m))
                             (ep_id (em_current m) + 1);
                  selected = preview_loop ranked excluded (active_target outcome) []
              in if length selected < kMinActiveTier1 then [] else selected)"

definition prepare_planned_epoch ::
  "crypto \<Rightarrow> epoch_manager \<Rightarrow> tier1_set \<Rightarrow> node_id list \<Rightarrow> (bool \<times> epoch_manager) option" where
  "prepare_planned_epoch cr m frozen_eligible planned =
     (if transition_active m \<or> length planned < kMinActiveTier1 then Some (False, m)
      else if \<not> list_all (tier1_contains frozen_eligible) planned then Some (False, m)
      else if from_nodes planned = None then Some (False, m)
      else let m = m\<lparr>em_rank := tier1_rank cr frozen_eligible (ep_authority_public_key (em_current m))
                       (ep_id (em_current m) + 1)\<rparr>
           in map_option (Pair True) (start_transition cr m planned))"

definition drop_participant_state :: "node_id \<Rightarrow> epoch_transition \<Rightarrow> epoch_manager \<Rightarrow> epoch_manager" where
  "drop_participant_state node t m =
     m\<lparr>em_transition := Some (t\<lparr>tr_dkg_transcript_digest := 0, tr_next_authority_key := 0\<rparr>),
       em_final_verdicts := smap_erase node (em_final_verdicts m),
       em_next_vote_keys := smap_erase node (em_next_vote_keys m),
       em_authorized := False\<rparr>"

fun replacement_of :: "node_id list \<Rightarrow> node_id set \<Rightarrow> node_id list \<Rightarrow> node_id option" where
  "replacement_of selected removed [] = None"
| "replacement_of selected removed (candidate # ranked) =
     (if candidate \<in> set selected \<or> candidate \<in> removed then replacement_of selected removed ranked
      else Some candidate)"

definition computed_attestation_root :: "crypto \<Rightarrow> node_id list \<Rightarrow> (node_id, attestation_verdict) smap \<Rightarrow> digest"
where
  "computed_attestation_root cr selected verdicts =
     (let e = canonical_encoder ''lemonade-nexus/handoff-attestation-root:v1'';
          e = add_u64 e (of_nat (length selected))
      in encoder_digest cr
           (foldl (\<lambda>e node. add_digest (add_node e node) (av_context_digest (the (map_of verdicts node))))
              e (sort selected)))"

definition attested :: "(node_id, attestation_verdict) smap \<Rightarrow> node_id \<Rightarrow> bool" where
  "attested verdicts node = (case map_of verdicts node of None \<Rightarrow> False | Some v \<Rightarrow> av_passed v)"

definition recomputed :: "crypto \<Rightarrow> epoch_manager \<Rightarrow> epoch_transition \<Rightarrow> tier1_set \<Rightarrow> epoch_transition" where
  "recomputed cr m t selected_set =
     (let selected = tr_selected_members t;
          t = t\<lparr>tr_participant_set_digest := tier1_set_digest cr selected_set,
                tr_next_consensus_quorum := consensus_quorum (length selected),
                tr_next_authority_threshold := authority_threshold (length selected)\<rparr>
      in if \<not> list_all (attested (em_final_verdicts m)) selected
         then t\<lparr>tr_phase := Attesting, tr_attestation_root := 0\<rparr>
         else let t = t\<lparr>tr_attestation_root := computed_attestation_root cr selected (em_final_verdicts m)\<rparr>
              in if \<not> list_all (\<lambda>node. smap_has (em_next_vote_keys m) node) selected
                 then t\<lparr>tr_phase := GeneratingVoteKeys\<rparr>
                 else if tr_next_authority_key t = 0 then t\<lparr>tr_phase := GeneratingAuthorityKey\<rparr>
                 else t\<lparr>tr_phase := Ready\<rparr>)"

definition recompute_phase :: "crypto \<Rightarrow> epoch_transition \<Rightarrow> epoch_manager \<Rightarrow> epoch_manager option" where
  "recompute_phase cr t m =
     (case from_nodes (tr_selected_members t) of
        None \<Rightarrow> None
      | Some selected_set \<Rightarrow> Some (m\<lparr>em_transition := Some (recomputed cr m t selected_set)\<rparr>))"

definition abort_transition :: "epoch_transition_failure \<Rightarrow> epoch_manager \<Rightarrow> epoch_manager" where
  "abort_transition reason m =
     (case em_transition m of
        None \<Rightarrow> m
      | Some t \<Rightarrow> m\<lparr>em_transition := Some (t\<lparr>tr_phase := Aborted, tr_failure := reason\<rparr>), em_authorized := False\<rparr>)"

text \<open>A member leaves: its state is dropped and the next candidate of the ranking takes its place.
  \<^const>\<open>None\<close> in the second component is the exit of \<^verbatim>\<open>pull_replacement\<close> with too few members left.\<close>

definition remove_member ::
  "node_id \<Rightarrow> node_id list \<Rightarrow> epoch_transition \<Rightarrow> epoch_manager \<Rightarrow> epoch_manager \<times> epoch_transition option"
where
  "remove_member node remaining t m =
     (let m = m\<lparr>em_removed_candidates := insert node (em_removed_candidates m)\<rparr>;
          t = t\<lparr>tr_selected_members := remaining\<rparr>;
          m = drop_participant_state node t m;
          t = t\<lparr>tr_dkg_transcript_digest := 0, tr_next_authority_key := 0\<rparr>
      in case replacement_of (tr_selected_members t) (em_removed_candidates m) (em_rank m) of
           Some candidate \<Rightarrow>
             (let t = t\<lparr>tr_selected_members := tr_selected_members t @ [candidate]\<rparr>
              in (m\<lparr>em_transition := Some t\<rparr>, Some t))
         | None \<Rightarrow>
             if length (tr_selected_members t) < kMinActiveTier1 then (m, None) else (m, Some t))"

definition record_final_attestation ::
  "crypto \<Rightarrow> epoch_manager \<Rightarrow> attestation_verdict \<Rightarrow> (bool \<times> epoch_manager) option" where
  "record_final_attestation cr m verdict =
     (case em_transition m of
        None \<Rightarrow> Some (False, m)
      | Some t \<Rightarrow>
          if \<not> transition_active m then Some (False, m)
          else if tr_phase t \<noteq> Attesting \<and> tr_phase t \<noteq> GeneratingVoteKeys \<and>
                  tr_phase t \<noteq> GeneratingAuthorityKey then Some (False, m)
          else if av_epoch verdict \<noteq> tr_to_epoch t then Some (False, m)
          else if av_purpose verdict \<noteq> FinalEpochReadiness then Some (False, m)
          else if av_node_id verdict \<notin> set (tr_selected_members t) then Some (False, m)
          else if av_passed verdict
          then map_option (Pair True) (recompute_phase cr t
                 (m\<lparr>em_final_verdicts := smap_put (av_node_id verdict) verdict (em_final_verdicts m)\<rparr>))
          else (case remove_member (av_node_id verdict)
                     (removeAll (av_node_id verdict) (tr_selected_members t)) t m of
                  (m, None) \<Rightarrow> Some (True, abort_transition EligiblePoolBelowMinimum m)
                | (m, Some t) \<Rightarrow>
                    map_option (Pair True) (recompute_phase cr t
                      (m\<lparr>em_target_shortfall := (em_target_shortfall m \<or>
                           length (tr_selected_members t) < length (em_rank m))\<rparr>))))"

definition replace_participant ::
  "crypto \<Rightarrow> epoch_manager \<Rightarrow> node_id \<Rightarrow> epoch_transition_failure \<Rightarrow> (bool \<times> epoch_manager) option" where
  "replace_participant cr m node reason =
     (case em_transition m of
        None \<Rightarrow> Some (False, m)
      | Some t \<Rightarrow>
          if \<not> transition_active m then Some (False, m)
          else if node \<notin> set (tr_selected_members t) then Some (False, m)
          else (case remove_member node (remove1 node (tr_selected_members t)) t m of
                  (m, None) \<Rightarrow> Some (True, abort_transition reason m)
                | (m, Some t) \<Rightarrow> map_option (Pair True) (recompute_phase cr t m)))"

definition record_vote_key ::
  "crypto \<Rightarrow> epoch_manager \<Rightarrow> node_id \<Rightarrow> pubkey \<Rightarrow> (bool \<times> epoch_manager) option" where
  "record_vote_key cr m node key =
     (case em_transition m of
        None \<Rightarrow> Some (False, m)
      | Some t \<Rightarrow>
          if \<not> transition_active m \<or> tr_phase t = Ready then Some (False, m)
          else if key = 0 then Some (False, m)
          else if node \<notin> set (tr_selected_members t) then Some (False, m)
          else (case map_of (em_next_vote_keys m) node of
                  Some existing \<Rightarrow> Some (existing = key, m)
                | None \<Rightarrow>
                    if list_ex (\<lambda>(other, other_key). other_key = key) (em_next_vote_keys m)
                    then Some (False, m)
                    else if list_ex (\<lambda>(other, other_key). other_key = key) (em_current_vote_keys m)
                    then Some (False, m)
                    else map_option (Pair True) (recompute_phase cr t
                           (m\<lparr>em_next_vote_keys := smap_put node key (em_next_vote_keys m)\<rparr>))))"

definition record_dkg_result ::
  "crypto \<Rightarrow> epoch_manager \<Rightarrow> pubkey \<Rightarrow> digest \<Rightarrow> (bool \<times> epoch_manager) option" where
  "record_dkg_result cr m group_key transcript =
     (case em_transition m of
        None \<Rightarrow> Some (False, m)
      | Some t \<Rightarrow>
          if \<not> transition_active m \<or> tr_phase t \<noteq> GeneratingAuthorityKey then Some (False, m)
          else if group_key = 0 \<or> transcript = 0 then Some (False, m)
          else map_option (Pair True) (recompute_phase cr
                 (t\<lparr>tr_next_authority_key := group_key, tr_dkg_transcript_digest := transcript\<rparr>) m))"

definition record_handoff_authorization :: "epoch_manager \<Rightarrow> digest \<Rightarrow> bool \<times> epoch_manager" where
  "record_handoff_authorization m certificate =
     (case em_transition m of
        None \<Rightarrow> (False, m)
      | Some t \<Rightarrow>
          if \<not> transition_active m \<or> tr_phase t \<noteq> Ready then (False, m)
          else if certificate = 0 then (False, m)
          else (True, m\<lparr>em_authorized := True, em_authorization_certificate_digest := certificate\<rparr>))"

text \<open>The inner \<^const>\<open>None\<close> is \<^verbatim>\<open>std::nullopt\<close>.\<close>

definition activate_next_epoch ::
  "crypto \<Rightarrow> epoch_manager \<Rightarrow> (epoch_state option \<times> epoch_manager) option" where
  "activate_next_epoch cr m =
     (case em_transition m of
        None \<Rightarrow> Some (None, m)
      | Some t \<Rightarrow>
          if \<not> ready_for_activation t \<or> \<not> em_authorized m then Some (None, m)
          else (case from_nodes (tr_selected_members t) of
                  None \<Rightarrow> None
                | Some selected_set \<Rightarrow>
                    let next = make_epoch_state cr (tr_to_epoch t) (ep_network_id (em_current m)) selected_set
                                 (tr_next_authority_key t) (tr_attestation_root t)
                    in Some (Some next,
                         m\<lparr>em_current := next, em_current_vote_keys := em_next_vote_keys m,
                           em_next_vote_keys := [], em_transition := None, em_rank := [],
                           em_removed_candidates := {}, em_final_verdicts := [], em_authorized := False\<rparr>)))"

section \<open>The invariant\<close>

definition verdicts_ok :: "epoch_transition \<Rightarrow> (node_id, attestation_verdict) smap \<Rightarrow> bool" where
  "verdicts_ok t verdicts \<longleftrightarrow>
     (\<forall>n v. map_of verdicts n = Some v \<longrightarrow> n \<in> set (tr_selected_members t) \<and> av_node_id v = n \<and> av_passed v \<and>
        av_epoch v = tr_to_epoch t \<and> av_purpose v = FinalEpochReadiness)"

definition keys_ok :: "epoch_transition \<Rightarrow> (node_id, pubkey) smap \<Rightarrow> (node_id, pubkey) smap \<Rightarrow> bool" where
  "keys_ok t current keys \<longleftrightarrow> smap_ok keys \<and>
     (\<forall>n k. map_of keys n = Some k \<longrightarrow> n \<in> set (tr_selected_members t) \<and> k \<noteq> 0 \<and> k \<notin> snd ` set current) \<and>
     (\<forall>n n' k. map_of keys n = Some k \<longrightarrow> map_of keys n' = Some k \<longrightarrow> n = n')"

text \<open>What holds of a running transition before its phase is recomputed.\<close>

definition members_ok :: "epoch_manager \<Rightarrow> epoch_transition \<Rightarrow> bool" where
  "members_ok m t \<longleftrightarrow>
     distinct (tr_selected_members t) \<and> kMinActiveTier1 \<le> length (tr_selected_members t) \<and>
     set (tr_selected_members t) \<subseteq> set (em_rank m) \<and>
     set (tr_selected_members t) \<inter> em_removed_candidates m = {} \<and>
     tr_from_epoch t = ep_id (em_current m) \<and> tr_to_epoch t = ep_id (em_current m) + 1 \<and>
     tr_failure t = TfNone \<and> (tr_next_authority_key t = 0 \<longleftrightarrow> tr_dkg_transcript_digest t = 0) \<and>
     verdicts_ok t (em_final_verdicts m) \<and> keys_ok t (em_current_vote_keys m) (em_next_vote_keys m)"

definition manager_ok :: "crypto \<Rightarrow> epoch_manager \<Rightarrow> bool" where
  "manager_ok cr m \<longleftrightarrow>
     (case em_transition m of
        None \<Rightarrow> \<not> em_authorized m
      | Some t \<Rightarrow>
          if tr_phase t = Aborted then \<not> em_authorized m
          else members_ok m t \<and> recomputed cr m t (sort (tr_selected_members t)) = t \<and>
               (em_authorized m \<longrightarrow> tr_phase t = Ready))"

lemma recomputed_simps [simp]:
  "tr_selected_members (recomputed cr m t ts) = tr_selected_members t"
  "tr_from_epoch (recomputed cr m t ts) = tr_from_epoch t" "tr_to_epoch (recomputed cr m t ts) = tr_to_epoch t"
  "tr_failure (recomputed cr m t ts) = tr_failure t"
  "tr_next_authority_key (recomputed cr m t ts) = tr_next_authority_key t"
  "tr_dkg_transcript_digest (recomputed cr m t ts) = tr_dkg_transcript_digest t"
  "tr_phase (recomputed cr m t ts) \<noteq> Aborted"
  by (simp_all add: recomputed_def Let_def)

lemma recomputed_idem: "recomputed cr m' (recomputed cr m t ts) ts = recomputed cr m t ts"
  if "em_final_verdicts m' = em_final_verdicts m" "em_next_vote_keys m' = em_next_vote_keys m"
  using that by (auto simp: recomputed_def Let_def)

lemma members_ok_recomputed: "members_ok m t \<Longrightarrow> members_ok (m\<lparr>em_transition := x\<rparr>) (recomputed cr m t ts)"
  by (simp add: members_ok_def verdicts_ok_def keys_ok_def)

lemma recompute_phase_ok:
  assumes "members_ok m t" and "\<not> em_authorized m"
  shows "\<exists>m'. recompute_phase cr t m = Some m' \<and> manager_ok cr m'"
proof -
  let ?ts = "sort (tr_selected_members t)"
  have "from_nodes (tr_selected_members t) = Some ?ts"
    using assms(1) by (simp add: members_ok_def from_nodes_eq)
  moreover have "manager_ok cr (m\<lparr>em_transition := Some (recomputed cr m t ?ts)\<rparr>)"
    using assms members_ok_recomputed [OF assms(1)] recomputed_idem [of _ m cr t ?ts]
    by (simp add: manager_ok_def)
  ultimately show ?thesis by (simp add: recompute_phase_def)
qed

lemma members_ok_frame:
  assumes "members_ok m t" and "em_rank m' = em_rank m" and "em_removed_candidates m' = em_removed_candidates m"
    and "em_current m' = em_current m" and "em_current_vote_keys m' = em_current_vote_keys m"
    and "verdicts_ok t (em_final_verdicts m')" and "keys_ok t (em_current_vote_keys m) (em_next_vote_keys m')"
  shows "members_ok m' t"
  using assms by (simp add: members_ok_def)

lemma manager_ok_active:
  assumes "manager_ok cr m" and "em_transition m = Some t" and "transition_active m"
  shows "members_ok m t" and "em_authorized m \<longrightarrow> tr_phase t = Ready"
  using assms by (auto simp: manager_ok_def transition_active_def split: if_splits)

text \<open>The replacement is a ranked candidate that is neither selected nor removed.\<close>

lemma replacement_of_Some:
  "replacement_of selected removed ranked = Some c \<Longrightarrow> c \<in> set ranked \<and> c \<notin> set selected \<and> c \<notin> removed"
  by (induction selected removed ranked rule: replacement_of.induct) (auto split: if_splits)

lemma replacement_of_None:
  "replacement_of selected removed ranked = None \<Longrightarrow> set ranked \<subseteq> set selected \<union> removed"
  by (induction selected removed ranked rule: replacement_of.induct) (auto split: if_splits)

lemma smap_erase_get: "map_of (smap_erase k m) n = Some v \<longleftrightarrow> n \<noteq> k \<and> map_of m n = Some v"
  by (simp add: smap_get_erase)

lemma verdicts_ok_erase:
  assumes "verdicts_ok t vs" and "set (tr_selected_members t) - {node} \<subseteq> set (tr_selected_members u)"
    and "tr_to_epoch u = tr_to_epoch t"
  shows "verdicts_ok u (smap_erase node vs)"
  using assms unfolding verdicts_ok_def smap_erase_get by auto

lemma keys_ok_erase:
  assumes "keys_ok t current keys" and "set (tr_selected_members t) - {node} \<subseteq> set (tr_selected_members u)"
  shows "keys_ok u current (smap_erase node keys)"
proof -
  have get: "map_of keys n = Some k \<longrightarrow> n \<in> set (tr_selected_members t) \<and> k \<noteq> 0 \<and> k \<notin> snd ` set current"
    and inj: "map_of keys n = Some k \<longrightarrow> map_of keys n' = Some k \<longrightarrow> n = n'" for n n' k
    using assms(1) unfolding keys_ok_def by blast+
  have "n \<noteq> node \<and> map_of keys n = Some k \<longrightarrow>
      n \<in> set (tr_selected_members u) \<and> k \<noteq> 0 \<and> k \<notin> snd ` set current" for n k
    using get [of n k] assms(2) by blast
  moreover have "n \<noteq> node \<and> map_of keys n = Some k \<longrightarrow> n' \<noteq> node \<and> map_of keys n' = Some k \<longrightarrow> n = n'"
    for n n' k using inj [of n k n'] by blast
  moreover have "smap_ok (smap_erase node keys)" using assms(1) by (simp add: keys_ok_def smap_ok_erase)
  ultimately show ?thesis by (simp only: keys_ok_def smap_erase_get) blast
qed

text \<open>Removing a member keeps the invariant, or leaves too few members.\<close>

lemma remove_member_ok:
  assumes ok: "members_ok m t" and node: "node \<in> set (tr_selected_members t)"
    and rem: "remaining = remove1 node (tr_selected_members t)"
    and step: "remove_member node remaining t m = (m', r)"
  shows "\<not> em_authorized m'" and "r = Some t' \<Longrightarrow> members_ok m' t'"
    and "r = None \<Longrightarrow> length remaining < kMinActiveTier1"
    and "\<exists>t''. em_transition m' = Some t''"
proof -
  let ?removed = "insert node (em_removed_candidates m)"
  have dist: "distinct (tr_selected_members t)" using ok by (simp add: members_ok_def)
  have set_rem: "set remaining = set (tr_selected_members t) - {node}" "distinct remaining"
    "length remaining = length (tr_selected_members t) - 1"
    using dist node by (simp_all add: rem set_remove1_eq distinct_remove1 length_remove1)
  have vk: "verdicts_ok t (em_final_verdicts m)" "keys_ok t (em_current_vote_keys m) (em_next_vote_keys m)"
    using ok by (simp_all add: members_ok_def)
  have verdicts: "verdicts_ok u (smap_erase node (em_final_verdicts m))"
    and keys: "keys_ok u (em_current_vote_keys m) (smap_erase node (em_next_vote_keys m))"
    if "set (tr_selected_members t) - {node} \<subseteq> set (tr_selected_members u)" "tr_to_epoch u = tr_to_epoch t" for u
    using verdicts_ok_erase [OF vk(1)] keys_ok_erase [OF vk(2)] that by auto
  show "\<not> em_authorized m'" "\<exists>t''. em_transition m' = Some t''"
    using step by (auto simp: remove_member_def drop_participant_state_def Let_def split: option.splits if_splits)
  show "r = None \<Longrightarrow> length remaining < kMinActiveTier1"
    using step by (auto simp: remove_member_def Let_def split: option.splits if_splits)
  show "members_ok m' t'" if r: "r = Some t'"
  proof (cases "replacement_of remaining ?removed (em_rank m)")
    case None
    then have "t' = t\<lparr>tr_selected_members := remaining, tr_dkg_transcript_digest := 0, tr_next_authority_key := 0\<rparr>"
      and "kMinActiveTier1 \<le> length remaining"
      and "m' = drop_participant_state node (t\<lparr>tr_selected_members := remaining\<rparr>)
        (m\<lparr>em_removed_candidates := ?removed\<rparr>)"
      using step r by (auto simp: remove_member_def drop_participant_state_def Let_def split: if_splits)
    then show ?thesis
      using ok set_rem verdicts [of t'] keys [of t']
      by (auto simp: members_ok_def drop_participant_state_def)
  next
    case (Some c)
    have c: "c \<in> set (em_rank m)" "c \<notin> set remaining" "c \<notin> ?removed"
      using replacement_of_Some [OF Some] by simp_all
    have t': "t' = t\<lparr>tr_selected_members := remaining @ [c], tr_dkg_transcript_digest := 0,
        tr_next_authority_key := 0\<rparr>"
      and m': "m' = (drop_participant_state node (t\<lparr>tr_selected_members := remaining\<rparr>)
        (m\<lparr>em_removed_candidates := ?removed\<rparr>))\<lparr>em_transition := Some t'\<rparr>"
      using step r Some by (auto simp: remove_member_def drop_participant_state_def Let_def)
    show ?thesis
      using ok set_rem c node verdicts [of t'] keys [of t']
      by (auto simp: members_ok_def drop_participant_state_def m' t')
  qed
qed

section \<open>Every call keeps the invariant\<close>

lemma start_transition_ok:
  assumes "distinct selected" and "kMinActiveTier1 \<le> length selected" and "set selected \<subseteq> set (em_rank m)"
  shows "\<exists>m'. start_transition cr m selected = Some m' \<and> manager_ok cr m'"
proof -
  have "\<not> list_all (attested []) selected"
    using assms(2) by (cases selected) (simp_all add: kMinActiveTier1_def attested_def)
  then show ?thesis
    using assms
    by (auto simp: start_transition_def from_nodes_eq manager_ok_def members_ok_def verdicts_ok_def keys_ok_def
        recomputed_def Let_def)
qed

lemma prepare_next_epoch_ok:
  assumes "manager_ok cr m" and "distinct pool"
  shows "\<exists>b m'. prepare_next_epoch cr m pool admitted = Some (b, m') \<and> manager_ok cr m'"
proof (cases "transition_active m \<or> active_target (tier1_target_outcome admitted (length pool)) < kMinActiveTier1")
  case True
  then show ?thesis using assms(1) by (auto simp: prepare_next_epoch_def Let_def)
next
  case False
  define o' where "o' = tier1_target_outcome admitted (length pool)"
  let ?rank = "tier1_rank cr pool (ep_authority_public_key (em_current m)) (ep_id (em_current m) + 1)"
  let ?m = "m\<lparr>em_target_shortfall := target_shortfall o', em_reserve_shortfall := reserve_shortfall o',
    em_rank := ?rank\<rparr>"
  have "active_target o' \<le> length pool" by (simp add: o'_def tier1_target_outcome_def Let_def)
  then have "\<exists>m'. start_transition cr ?m (take (active_target o') ?rank) = Some m' \<and> manager_ok cr m'"
    using False assms(2)
    by (intro start_transition_ok) (auto simp: o'_def dest: in_set_takeD)
  then show ?thesis using False by (auto simp: prepare_next_epoch_def Let_def o'_def)
qed

lemma prepare_planned_epoch_ok:
  assumes "manager_ok cr m"
  shows "\<exists>b m'. prepare_planned_epoch cr m pool planned = Some (b, m') \<and> manager_ok cr m'"
proof (cases "transition_active m \<or> length planned < kMinActiveTier1 \<or>
    \<not> list_all (tier1_contains pool) planned \<or> from_nodes planned = None")
  case True
  then show ?thesis using assms by (auto simp: prepare_planned_epoch_def)
next
  case False
  let ?m = "m\<lparr>em_rank := tier1_rank cr pool (ep_authority_public_key (em_current m)) (ep_id (em_current m) + 1)\<rparr>"
  have "\<exists>m'. start_transition cr ?m planned = Some m' \<and> manager_ok cr m'"
    using False
    by (intro start_transition_ok) (auto simp: from_nodes_eq list_all_iff tier1_contains_def split: if_splits)
  then show ?thesis using False by (auto simp: prepare_planned_epoch_def)
qed

lemma abort_transition_ok: "manager_ok cr m \<Longrightarrow> manager_ok cr (abort_transition reason m)"
  by (auto simp: abort_transition_def manager_ok_def split: option.splits)

lemma abort_any_ok: "em_transition m = Some t \<Longrightarrow> manager_ok cr (abort_transition reason m)"
  by (auto simp: abort_transition_def manager_ok_def)

lemma removed_ok:
  assumes "members_ok m t" and "node \<in> set (tr_selected_members t)"
    and "remaining = remove1 node (tr_selected_members t)"
    and "remove_member node remaining t m = (m1, r)"
  shows "manager_ok cr (abort_transition reason m1)"
    and "r = Some t1 \<Longrightarrow> \<exists>m'. recompute_phase cr t1 m1 = Some m' \<and> manager_ok cr m'"
    and "r = Some t1 \<Longrightarrow> \<exists>m'. recompute_phase cr t1 (m1\<lparr>em_target_shortfall := b\<rparr>) = Some m' \<and> manager_ok cr m'"
proof -
  note rok = remove_member_ok [OF assms]
  show "manager_ok cr (abort_transition reason m1)" using rok(4) abort_any_ok by blast
  assume r: "r = Some t1"
  show "\<exists>m'. recompute_phase cr t1 m1 = Some m' \<and> manager_ok cr m'"
    using recompute_phase_ok [OF rok(2) [OF r] rok(1)] .
  have "members_ok (m1\<lparr>em_target_shortfall := b\<rparr>) t1"
    by (rule members_ok_frame [OF rok(2) [OF r]]) (use rok(2) [OF r] in \<open>simp_all add: members_ok_def\<close>)
  then show "\<exists>m'. recompute_phase cr t1 (m1\<lparr>em_target_shortfall := b\<rparr>) = Some m' \<and> manager_ok cr m'"
    using recompute_phase_ok rok(1) by simp
qed

lemma record_final_attestation_ok:
  assumes "manager_ok cr m"
  shows "\<exists>b m'. record_final_attestation cr m v = Some (b, m') \<and> manager_ok cr m'"
proof (cases "em_transition m")
  case None
  then show ?thesis using assms by (auto simp: record_final_attestation_def)
next
  case (Some t)
  show ?thesis
  proof (cases "transition_active m \<and> tr_phase t \<in> {Attesting, GeneratingVoteKeys, GeneratingAuthorityKey} \<and>
      av_epoch v = tr_to_epoch t \<and> av_purpose v = FinalEpochReadiness \<and> av_node_id v \<in> set (tr_selected_members t)")
    case False
    then show ?thesis using assms Some by (auto simp: record_final_attestation_def)
  next
    case True
    have mok: "members_ok m t" and "\<not> em_authorized m"
      using manager_ok_active [OF assms Some] True by auto
    have "removeAll (av_node_id v) (tr_selected_members t) = remove1 (av_node_id v) (tr_selected_members t)"
      using mok by (simp add: members_ok_def distinct_remove1_removeAll)
    show ?thesis
    proof (cases "av_passed v")
      case pass: True
      let ?m = "m\<lparr>em_final_verdicts := smap_put (av_node_id v) v (em_final_verdicts m)\<rparr>"
      have "members_ok ?m t"
        by (rule members_ok_frame [OF mok])
          (use mok True pass in \<open>auto simp: members_ok_def verdicts_ok_def smap_get_put\<close>)
      from recompute_phase_ok [OF this, of cr] \<open>\<not> em_authorized m\<close> show ?thesis
        using Some True pass by (auto simp: record_final_attestation_def)
    next
      case fail: False
      obtain m1 r where r: "remove_member (av_node_id v) (removeAll (av_node_id v) (tr_selected_members t)) t m = (m1, r)"
        by fastforce
      have node: "av_node_id v \<in> set (tr_selected_members t)" using True by simp
      note rok = removed_ok [OF mok node \<open>removeAll _ _ = _\<close> r]
      show ?thesis
      proof (cases r)
        case None
        then show ?thesis using Some True fail r rok(1) by (auto simp: record_final_attestation_def)
      next
        case (Some t1)
        then show ?thesis
          using \<open>em_transition m = Some t\<close> True fail r
            rok(3) [OF Some, of cr "em_target_shortfall m1 \<or> length (tr_selected_members t1) < length (em_rank m1)"]
          by (auto simp: record_final_attestation_def)
      qed
    qed
  qed
qed

lemma replace_participant_ok:
  assumes "manager_ok cr m"
  shows "\<exists>b m'. replace_participant cr m node reason = Some (b, m') \<and> manager_ok cr m'"
proof (cases "em_transition m")
  case None
  then show ?thesis using assms by (auto simp: replace_participant_def)
next
  case (Some t)
  show ?thesis
  proof (cases "transition_active m \<and> node \<in> set (tr_selected_members t)")
    case False
    then show ?thesis using assms Some by (auto simp: replace_participant_def)
  next
    case True
    obtain m1 r where r: "remove_member node (remove1 node (tr_selected_members t)) t m = (m1, r)" by fastforce
    have node: "node \<in> set (tr_selected_members t)" using True by simp
    note rok = removed_ok [OF manager_ok_active(1) [OF assms Some] node refl r]
    show ?thesis
    proof (cases r)
      case None
      then show ?thesis using Some True r rok(1) by (auto simp: replace_participant_def)
    next
      case (Some t1)
      then show ?thesis
        using \<open>em_transition m = Some t\<close> True r rok(2) [of t1 cr] by (auto simp: replace_participant_def)
    qed
  qed
qed

lemma key_registered_iff: "list_ex (\<lambda>(other, other_key). other_key = key) ks \<longleftrightarrow> key \<in> snd ` set ks"
  by (induction ks) auto

lemma record_vote_key_cases:
  assumes "em_transition m = Some t"
  obtains (same) b where "record_vote_key cr m node key = Some (b, m)"
  | (new) "transition_active m" "tr_phase t \<noteq> Ready" "key \<noteq> 0" "node \<in> set (tr_selected_members t)"
      "map_of (em_next_vote_keys m) node = None" "key \<notin> snd ` set (em_next_vote_keys m)"
      "key \<notin> snd ` set (em_current_vote_keys m)"
      "record_vote_key cr m node key = map_option (Pair True) (recompute_phase cr t
         (m\<lparr>em_next_vote_keys := smap_put node key (em_next_vote_keys m)\<rparr>))"
proof -
  note def = record_vote_key_def [of cr m node key, unfolded key_registered_iff assms option.case]
  show thesis
  proof (cases "map_of (em_next_vote_keys m) node")
    case None
    with new same [of False] def show thesis by (auto split: if_splits)
  next
    case (Some existing)
    with same [of False] same [of "existing = key"] def show thesis by (auto split: if_splits)
  qed
qed

lemma keys_ok_put:
  assumes "keys_ok t current keys" and "key \<noteq> 0" and "node \<in> set (tr_selected_members t)"
    and "key \<notin> snd ` set keys" and "key \<notin> snd ` set current"
  shows "keys_ok t current (smap_put node key keys)"
proof -
  have fresh: "map_of keys n \<noteq> Some key" for n
    using assms(4) by (metis map_of_SomeD image_eqI snd_conv)
  have get: "map_of keys n = Some k \<longrightarrow> n \<in> set (tr_selected_members t) \<and> k \<noteq> 0 \<and> k \<notin> snd ` set current"
    and inj: "map_of keys n = Some k \<longrightarrow> map_of keys n' = Some k \<longrightarrow> n = n'" for n n' k
    using assms(1) unfolding keys_ok_def by blast+
  have "map_of (smap_put node key keys) n = Some k \<longrightarrow>
      n \<in> set (tr_selected_members t) \<and> k \<noteq> 0 \<and> k \<notin> snd ` set current" for n k
    using get [of n k] assms(2,3,5) by (cases "n = node") (auto simp: smap_get_put)
  moreover have "map_of (smap_put node key keys) n = Some k \<longrightarrow>
      map_of (smap_put node key keys) n' = Some k \<longrightarrow> n = n'" for n n' k
    using inj [of n k n'] fresh [of n] fresh [of n']
    by (cases "n = node"; cases "n' = node") (auto simp: smap_get_put)
  moreover have "smap_ok (smap_put node key keys)" using assms(1) by (simp add: keys_ok_def smap_ok_put)
  ultimately show ?thesis unfolding keys_ok_def by blast
qed

lemma record_vote_key_ok:
  assumes "manager_ok cr m"
  shows "\<exists>b m'. record_vote_key cr m node key = Some (b, m') \<and> manager_ok cr m'"
proof (cases "em_transition m")
  case None
  then show ?thesis using assms by (auto simp: record_vote_key_def)
next
  case (Some t)
  then show ?thesis
  proof (cases rule: record_vote_key_cases [where cr = cr and node = node and key = key])
    case (same b)
    then show ?thesis using assms by blast
  next
    case new
    have mok: "members_ok m t" and auth: "\<not> em_authorized m"
      using manager_ok_active [OF assms Some new(1)] new(2) by auto
    let ?m = "m\<lparr>em_next_vote_keys := smap_put node key (em_next_vote_keys m)\<rparr>"
    have "keys_ok t (em_current_vote_keys m) (em_next_vote_keys ?m)"
      using keys_ok_put [OF _ new(3,4,6,7)] mok by (simp add: members_ok_def)
    then have "members_ok ?m t"
      by (intro members_ok_frame [OF mok]) (use mok in \<open>simp_all add: members_ok_def\<close>)
    from recompute_phase_ok [OF this, of cr] auth show ?thesis using new(8) by auto
  qed
qed

lemma record_dkg_result_ok:
  assumes "manager_ok cr m"
  shows "\<exists>b m'. record_dkg_result cr m key transcript = Some (b, m') \<and> manager_ok cr m'"
proof (cases "em_transition m")
  case None
  then show ?thesis using assms by (auto simp: record_dkg_result_def)
next
  case (Some t)
  show ?thesis
  proof (cases "transition_active m \<and> tr_phase t = GeneratingAuthorityKey \<and> key \<noteq> 0 \<and> transcript \<noteq> 0")
    case False
    then show ?thesis using assms Some by (auto simp: record_dkg_result_def)
  next
    case True
    have "members_ok m (t\<lparr>tr_next_authority_key := key, tr_dkg_transcript_digest := transcript\<rparr>)"
      and "\<not> em_authorized m"
      using manager_ok_active [OF assms Some] True
      by (auto simp: members_ok_def verdicts_ok_def keys_ok_def)
    from recompute_phase_ok [OF this, of cr] show ?thesis
      using Some True by (auto simp: record_dkg_result_def)
  qed
qed

lemma record_handoff_authorization_ok:
  assumes "manager_ok cr m"
  shows "manager_ok cr (snd (record_handoff_authorization m certificate))"
proof (cases "\<exists>t. em_transition m = Some t \<and> transition_active m \<and> tr_phase t = Ready \<and> certificate \<noteq> 0")
  case False
  then have "snd (record_handoff_authorization m certificate) = m"
    by (auto simp: record_handoff_authorization_def split: option.splits)
  then show ?thesis using assms by simp
next
  case True
  then obtain t where t: "em_transition m = Some t" "transition_active m" "tr_phase t = Ready" "certificate \<noteq> 0"
    by blast
  let ?m = "m\<lparr>em_authorized := True, em_authorization_certificate_digest := certificate\<rparr>"
  have "recomputed cr ?m u ts = recomputed cr m u ts" for u ts by (simp add: recomputed_def Let_def)
  moreover have "members_ok ?m u \<longleftrightarrow> members_ok m u" for u by (simp add: members_ok_def)
  ultimately have "manager_ok cr ?m" using assms t by (simp add: manager_ok_def)
  then show ?thesis using t by (simp add: record_handoff_authorization_def)
qed

lemma activate_next_epoch_ok:
  assumes "manager_ok cr m"
  shows "\<exists>r m'. activate_next_epoch cr m = Some (r, m') \<and> manager_ok cr m'"
proof (cases "em_transition m")
  case None
  then show ?thesis using assms by (auto simp: activate_next_epoch_def)
next
  case (Some t)
  show ?thesis
  proof (cases "ready_for_activation t \<and> em_authorized m")
    case False
    then show ?thesis using assms Some by (auto simp: activate_next_epoch_def)
  next
    case True
    then have "transition_active m" using Some by (simp add: transition_active_def ready_for_activation_def)
    then have "distinct (tr_selected_members t)"
      using manager_ok_active(1) [OF assms Some] by (simp add: members_ok_def)
    then show ?thesis
      using Some True by (auto simp: activate_next_epoch_def from_nodes_eq Let_def manager_ok_def)
  qed
qed

section \<open>Runs\<close>

text \<open>The calls on a manager. A pool is a node list from which a \<^verbatim>\<open>Tier1Set\<close> was built.\<close>

datatype epoch_event =
    PrepareNext "node_id list" nat | PreparePlanned "node_id list" "node_id list"
  | FinalAttestation attestation_verdict | ReplaceParticipant node_id epoch_transition_failure
  | VoteKey node_id pubkey | DkgResult pubkey digest | Authorization digest | Activate
  | Abort epoch_transition_failure

fun epoch_step :: "crypto \<Rightarrow> epoch_manager \<Rightarrow> epoch_event \<Rightarrow> epoch_manager option" where
  "epoch_step cr m (PrepareNext nodes admitted) =
     (case from_nodes nodes of None \<Rightarrow> Some m | Some pool \<Rightarrow> map_option snd (prepare_next_epoch cr m pool admitted))"
| "epoch_step cr m (PreparePlanned nodes planned) =
     (case from_nodes nodes of None \<Rightarrow> Some m | Some pool \<Rightarrow> map_option snd (prepare_planned_epoch cr m pool planned))"
| "epoch_step cr m (FinalAttestation v) = map_option snd (record_final_attestation cr m v)"
| "epoch_step cr m (ReplaceParticipant node reason) = map_option snd (replace_participant cr m node reason)"
| "epoch_step cr m (VoteKey node key) = map_option snd (record_vote_key cr m node key)"
| "epoch_step cr m (DkgResult key transcript) = map_option snd (record_dkg_result cr m key transcript)"
| "epoch_step cr m (Authorization certificate) = Some (snd (record_handoff_authorization m certificate))"
| "epoch_step cr m Activate = map_option snd (activate_next_epoch cr m)"
| "epoch_step cr m (Abort reason) = Some (abort_transition reason m)"

fun epoch_steps :: "crypto \<Rightarrow> epoch_manager \<Rightarrow> epoch_event list \<Rightarrow> epoch_manager option" where
  "epoch_steps cr m [] = Some m"
| "epoch_steps cr m (e # es) = (case epoch_step cr m e of None \<Rightarrow> None | Some m' \<Rightarrow> epoch_steps cr m' es)"

lemma epoch_step_ok:
  assumes "manager_ok cr m"
  shows "\<exists>m'. epoch_step cr m e = Some m' \<and> manager_ok cr m'"
proof (cases e)
  case (PrepareNext nodes admitted)
  then show ?thesis
    using assms prepare_next_epoch_ok [OF assms] from_nodes_Some(2) [of nodes]
    by (cases "from_nodes nodes") fastforce+
next
  case (PreparePlanned nodes planned)
  then show ?thesis
    using assms prepare_planned_epoch_ok [OF assms] by (cases "from_nodes nodes") fastforce+
next
  case (FinalAttestation v)
  then show ?thesis using record_final_attestation_ok [OF assms, of v] by auto
next
  case (ReplaceParticipant n r)
  then show ?thesis using replace_participant_ok [OF assms, of n r] by auto
next
  case (VoteKey n k)
  then show ?thesis using record_vote_key_ok [OF assms, of n k] by auto
next
  case (DkgResult k d)
  then show ?thesis using record_dkg_result_ok [OF assms, of k d] by auto
next
  case (Authorization d)
  then show ?thesis using record_handoff_authorization_ok [OF assms, of d] by simp
next
  case Activate
  then show ?thesis using activate_next_epoch_ok [OF assms] by auto
next
  case (Abort r)
  then show ?thesis using abort_transition_ok [OF assms, of r] by simp
qed

lemma epoch_steps_ok:
  "manager_ok cr m \<Longrightarrow> \<exists>m'. epoch_steps cr m es = Some m' \<and> manager_ok cr m'"
proof (induction es arbitrary: m)
  case (Cons e es)
  obtain m1 where "epoch_step cr m e = Some m1" "manager_ok cr m1" using epoch_step_ok [OF Cons.prems, of e] by blast
  then show ?case using Cons.IH by simp
qed simp

lemma manager_ok_init: "manager_ok cr (epoch_manager_init initial keys)"
  by (simp add: manager_ok_def epoch_manager_init_def)

text \<open>What the fixed point says of a ready transition.\<close>

lemma ready_complete:
  assumes "manager_ok cr m" and "em_transition m = Some t" and "tr_phase t = Ready"
  shows "\<forall>n \<in> set (tr_selected_members t). attested (em_final_verdicts m) n \<and> map_of (em_next_vote_keys m) n \<noteq> None"
    and "tr_next_authority_key t \<noteq> 0"
    and "tr_attestation_root t = computed_attestation_root cr (tr_selected_members t) (em_final_verdicts m)"
proof -
  have fixed: "recomputed cr m t (sort (tr_selected_members t)) = t"
    using assms by (simp add: manager_ok_def)
  then have "tr_phase (recomputed cr m t (sort (tr_selected_members t))) = Ready" using assms(3) by simp
  then show "\<forall>n \<in> set (tr_selected_members t). attested (em_final_verdicts m) n \<and> map_of (em_next_vote_keys m) n \<noteq> None"
    and "tr_next_authority_key t \<noteq> 0"
    by (auto simp: recomputed_def Let_def list_all_iff split: if_splits)
  from fixed have "tr_attestation_root t = tr_attestation_root (recomputed cr m t (sort (tr_selected_members t)))" by simp
  with \<open>tr_phase (recomputed _ _ _ _) = Ready\<close>
  show "tr_attestation_root t = computed_attestation_root cr (tr_selected_members t) (em_final_verdicts m)"
    by (auto simp: recomputed_def Let_def split: if_splits)
qed

section \<open>A handoff that nobody disturbs completes\<close>

text \<open>A running transition before key generation: who is selected, attested and registered.\<close>

definition under_way ::
  "crypto \<Rightarrow> epoch_manager \<Rightarrow> node_id list \<Rightarrow> node_id set \<Rightarrow> (node_id \<Rightarrow> pubkey) \<Rightarrow> node_id set \<Rightarrow> bool" where
  "under_way cr m selected V key K \<longleftrightarrow> manager_ok cr m \<and>
     (\<exists>t. em_transition m = Some t \<and> tr_selected_members t = selected \<and> tr_phase t \<noteq> Aborted \<and>
        tr_next_authority_key t = 0) \<and>
     dom (map_of (em_final_verdicts m)) = V \<and>
     map_of (em_next_vote_keys m) = (\<lambda>n. if n \<in> K then Some (key n) else None)"

lemma under_way_phase:
  assumes "under_way cr m selected V key K" and "em_transition m = Some t"
  shows "tr_phase t = (if \<not> set selected \<subseteq> V then Attesting else if \<not> set selected \<subseteq> K then GeneratingVoteKeys
     else GeneratingAuthorityKey)"
    and "tr_to_epoch t = ep_id (em_current m) + 1" and "transition_active m"
    and "members_ok m t" and "\<not> em_authorized m" and "tr_selected_members t = selected"
    and "tr_next_authority_key t = 0"
proof -
  have ok: "manager_ok cr m" and t: "tr_selected_members t = selected" "tr_phase t \<noteq> Aborted" "tr_next_authority_key t = 0"
    using assms by (auto simp: under_way_def)
  then have mok: "members_ok m t" and fixed: "recomputed cr m t (sort selected) = t"
    and auth: "em_authorized m \<longrightarrow> tr_phase t = Ready"
    using assms(2) by (auto simp: manager_ok_def)
  have "attested (em_final_verdicts m) n \<longleftrightarrow> n \<in> V" for n
    using mok assms(1)
    by (auto simp: attested_def under_way_def members_ok_def verdicts_ok_def dom_def split: option.splits)
  moreover have "map_of (em_next_vote_keys m) n \<noteq> None \<longleftrightarrow> n \<in> K" for n
    using assms(1) by (simp add: under_way_def)
  ultimately have "tr_phase (recomputed cr m t (sort selected)) = (if \<not> set selected \<subseteq> V then Attesting
      else if \<not> set selected \<subseteq> K then GeneratingVoteKeys else GeneratingAuthorityKey)"
    using t by (auto simp: recomputed_def Let_def list_all_iff subset_iff)
  then show phase: "tr_phase t = (if \<not> set selected \<subseteq> V then Attesting else if \<not> set selected \<subseteq> K
      then GeneratingVoteKeys else GeneratingAuthorityKey)" by (simp add: fixed)
  then show "\<not> em_authorized m" using auth by (auto split: if_splits)
  show "tr_to_epoch t = ep_id (em_current m) + 1" using mok by (simp add: members_ok_def)
  show "transition_active m" using assms(2) t(2) by (simp add: transition_active_def)
qed (use assms in \<open>auto simp: under_way_def manager_ok_def\<close>)

lemma recompute_under_way:
  assumes "members_ok m t" and "\<not> em_authorized m" and "tr_next_authority_key t = 0"
    and "dom (map_of (em_final_verdicts m)) = V"
    and "map_of (em_next_vote_keys m) = (\<lambda>n. if n \<in> K then Some (key n) else None)"
  shows "\<exists>m'. recompute_phase cr t m = Some m' \<and> under_way cr m' (tr_selected_members t) V key K \<and>
    em_current m' = em_current m \<and> em_current_vote_keys m' = em_current_vote_keys m"
proof -
  obtain m' where m': "recompute_phase cr t m = Some m'" "manager_ok cr m'"
    using recompute_phase_ok [OF assms(1,2)] by blast
  then obtain ts where "m' = m\<lparr>em_transition := Some (recomputed cr m t ts)\<rparr>"
    by (auto simp: recompute_phase_def split: option.splits)
  then show ?thesis using m' assms(3-5) by (auto simp: under_way_def)
qed

lemma attest_step:
  assumes "under_way cr m selected V key K" and "n \<in> set selected"
    and v: "av_node_id v = n" "av_passed v" "av_epoch v = ep_id (em_current m) + 1" "av_purpose v = FinalEpochReadiness"
  shows "\<exists>m'. epoch_step cr m (FinalAttestation v) = Some m' \<and> under_way cr m' selected (insert n V) key K \<and>
    em_current m' = em_current m \<and> em_current_vote_keys m' = em_current_vote_keys m"
proof -
  obtain t where t: "em_transition m = Some t" using assms(1) by (auto simp: under_way_def)
  note uw = under_way_phase [OF assms(1) t]
  let ?m = "m\<lparr>em_final_verdicts := smap_put n v (em_final_verdicts m)\<rparr>"
  have "members_ok ?m t"
    by (rule members_ok_frame [OF uw(4)])
      (use uw(2,4,6) assms(2) v in \<open>auto simp: members_ok_def verdicts_ok_def smap_get_put\<close>)
  then obtain m' where m': "recompute_phase cr t ?m = Some m'" "under_way cr m' selected (insert n V) key K"
    "em_current m' = em_current m" "em_current_vote_keys m' = em_current_vote_keys m"
    using recompute_under_way [of ?m t "insert n V" K key cr] uw(5-7) assms(1)
    by (auto simp: under_way_def smap_get_put)
  have "tr_phase t = Attesting \<or> tr_phase t = GeneratingVoteKeys \<or> tr_phase t = GeneratingAuthorityKey"
    using uw(1) by (auto split: if_splits)
  then have "record_final_attestation cr m v = Some (True, m')"
    using t uw(2,3,6) assms(2) v m'(1) by (auto simp: record_final_attestation_def)
  then show ?thesis using m' by simp
qed

lemma key_step:
  assumes "under_way cr m selected V key K" and "n \<in> set selected" and "n \<notin> K"
    and "inj_on key (insert n K)" and "key n \<noteq> 0" and "key n \<notin> snd ` set (em_current_vote_keys m)"
  shows "\<exists>m'. epoch_step cr m (VoteKey n (key n)) = Some m' \<and> under_way cr m' selected V key (insert n K) \<and>
    em_current m' = em_current m \<and> em_current_vote_keys m' = em_current_vote_keys m"
proof -
  obtain t where t: "em_transition m = Some t" using assms(1) by (auto simp: under_way_def)
  note uw = under_way_phase [OF assms(1) t]
  have keys: "keys_ok t (em_current_vote_keys m) (em_next_vote_keys m)" using uw(4) by (simp add: members_ok_def)
  have get: "map_of (em_next_vote_keys m) = (\<lambda>n. if n \<in> K then Some (key n) else None)"
    using assms(1) by (simp add: under_way_def)
  have sorted: "smap_ok (em_next_vote_keys m)" using keys by (simp add: keys_ok_def)
  have fresh: "key n \<notin> snd ` set (em_next_vote_keys m)"
  proof
    assume "key n \<in> snd ` set (em_next_vote_keys m)"
    then obtain n' where "(n', key n) \<in> set (em_next_vote_keys m)" by auto
    then have "map_of (em_next_vote_keys m) n' = Some (key n)" using sorted by (simp add: smap_mem_iff)
    then have "n' \<in> K" "key n' = key n" by (auto simp: get split: if_splits)
    then show False using assms(3,4) by (auto simp: inj_on_def)
  qed
  let ?m = "m\<lparr>em_next_vote_keys := smap_put n (key n) (em_next_vote_keys m)\<rparr>"
  have "members_ok ?m t"
    by (rule members_ok_frame [OF uw(4)])
      (use uw(4,6) keys_ok_put [OF keys assms(5) _ fresh assms(6)] assms(2) in \<open>simp_all add: members_ok_def\<close>)
  moreover have "map_of (em_next_vote_keys ?m) = (\<lambda>x. if x \<in> insert n K then Some (key x) else None)"
    by (simp add: smap_get_put get fun_eq_iff)
  ultimately obtain m' where m': "recompute_phase cr t ?m = Some m'" "under_way cr m' selected V key (insert n K)"
    "em_current m' = em_current m" "em_current_vote_keys m' = em_current_vote_keys m"
    using recompute_under_way [of ?m t V "insert n K" key cr] uw(5-7) assms(1)
    by (auto simp: under_way_def)
  have "tr_phase t \<noteq> Ready" using uw(1) by (auto split: if_splits)
  moreover have "map_of (em_next_vote_keys m) n = None" using assms(3) by (simp add: get)
  ultimately have "record_vote_key cr m n (key n) = Some (True, m')"
    using t uw(3,6) assms(2,5,6) fresh m'(1) by (simp add: record_vote_key_def key_registered_iff)
  then show ?thesis using m' by simp
qed

lemma attest_all:
  assumes "under_way cr m selected V key K" and "set ns \<subseteq> set selected"
    and "\<And>n. av_node_id (verdict n) = n \<and> av_passed (verdict n) \<and> av_epoch (verdict n) = ep_id (em_current m) + 1 \<and>
      av_purpose (verdict n) = FinalEpochReadiness"
  shows "\<exists>m'. epoch_steps cr m (map (\<lambda>n. FinalAttestation (verdict n)) ns) = Some m' \<and>
    under_way cr m' selected (V \<union> set ns) key K \<and> em_current m' = em_current m \<and>
    em_current_vote_keys m' = em_current_vote_keys m"
  using assms
proof (induction ns arbitrary: m V)
  case (Cons n ns)
  obtain m1 where m1: "epoch_step cr m (FinalAttestation (verdict n)) = Some m1"
    "under_way cr m1 selected (insert n V) key K" "em_current m1 = em_current m"
    "em_current_vote_keys m1 = em_current_vote_keys m"
    using attest_step [OF Cons.prems(1), of n "verdict n"] Cons.prems(2,3) by auto
  then show ?case using Cons.IH [OF m1(2)] Cons.prems(2,3) by auto
qed auto

lemma key_all:
  assumes "under_way cr m selected V key K" and "set ns \<subseteq> set selected" and "distinct ns" and "set ns \<inter> K = {}"
    and "inj_on key (K \<union> set ns)" and "\<forall>n \<in> set ns. key n \<noteq> 0 \<and> key n \<notin> snd ` set (em_current_vote_keys m)"
  shows "\<exists>m'. epoch_steps cr m (map (\<lambda>n. VoteKey n (key n)) ns) = Some m' \<and>
    under_way cr m' selected V key (K \<union> set ns) \<and> em_current m' = em_current m"
  using assms
proof (induction ns arbitrary: m K)
  case (Cons n ns)
  have "inj_on key (insert n K)" using Cons.prems(5) by (rule inj_on_subset) auto
  then obtain m1 where m1: "epoch_step cr m (VoteKey n (key n)) = Some m1"
    "under_way cr m1 selected V key (insert n K)" "em_current m1 = em_current m"
    "em_current_vote_keys m1 = em_current_vote_keys m"
    using key_step [OF Cons.prems(1), of n] Cons.prems(2,4,6) by auto
  then show ?case using Cons.IH [OF m1(2)] Cons.prems(2-6) by auto
qed auto

lemma finish:
  assumes "under_way cr m selected V key K" and "set selected \<subseteq> V" and "set selected \<subseteq> K"
    and "group_key \<noteq> 0" and "transcript \<noteq> 0" and "certificate \<noteq> 0" and "tier1_set_digest cr (sort selected) \<noteq> 0"
  shows "\<exists>m' next m''. epoch_steps cr m [DkgResult group_key transcript, Authorization certificate] = Some m' \<and>
    activate_next_epoch cr m' = Some (Some next, m'') \<and> em_current m'' = next \<and>
    ep_id next = ep_id (em_current m) + 1 \<and> ep_tier1_members next = sort selected \<and>
    ep_authority_public_key next = group_key"
proof -
  obtain t where t: "em_transition m = Some t" using assms(1) by (auto simp: under_way_def)
  note uw = under_way_phase [OF assms(1) t]
  have phase: "tr_phase t = GeneratingAuthorityKey" using uw(1) assms(2,3) by simp
  let ?t = "t\<lparr>tr_next_authority_key := group_key, tr_dkg_transcript_digest := transcript\<rparr>"
  have dist: "from_nodes selected = Some (sort selected)" and size: "kMinActiveTier1 \<le> length selected"
    using uw(4,6) by (simp_all add: members_ok_def from_nodes_eq)
  define m1 where "m1 = m\<lparr>em_transition := Some (recomputed cr m ?t (sort selected))\<rparr>"
  have m1: "record_dkg_result cr m group_key transcript = Some (True, m1)"
    using t uw(3,6) phase assms(4,5) dist by (simp add: record_dkg_result_def recompute_phase_def m1_def)
  have "attested (em_final_verdicts m) n" if n: "n \<in> set selected" for n
  proof -
    obtain v where "map_of (em_final_verdicts m) n = Some v"
      using n assms(1,2) by (auto simp: under_way_def)
    moreover have "verdicts_ok t (em_final_verdicts m)" using uw(4) by (simp add: members_ok_def)
    ultimately show ?thesis by (simp add: attested_def verdicts_ok_def)
  qed
  moreover have "map_of (em_next_vote_keys m) n \<noteq> None" if "n \<in> set selected" for n
    using that assms(1,3) by (auto simp: under_way_def)
  ultimately have ready: "ready_for_activation (recomputed cr m ?t (sort selected))"
    using uw(4,6) assms(4,5,7) size
    by (auto simp: ready_for_activation_def recomputed_def Let_def list_all_iff members_ok_def)
  define m2 where "m2 = m1\<lparr>em_authorized := True, em_authorization_certificate_digest := certificate\<rparr>"
  have m2: "snd (record_handoff_authorization m1 certificate) = m2"
    using ready assms(6)
    by (simp add: record_handoff_authorization_def m1_def m2_def transition_active_def ready_for_activation_def)
  have "\<exists>m3. activate_next_epoch cr m2 = Some (Some (make_epoch_state cr (tr_to_epoch t) (ep_network_id (em_current m))
      (sort selected) group_key (tr_attestation_root (recomputed cr m ?t (sort selected)))), m3) \<and>
      em_current m3 = make_epoch_state cr (tr_to_epoch t) (ep_network_id (em_current m))
      (sort selected) group_key (tr_attestation_root (recomputed cr m ?t (sort selected)))"
    using ready uw(6) dist by (simp add: activate_next_epoch_def m2_def m1_def Let_def)
  then show ?thesis using m1 m2 uw(2) by (auto simp: make_epoch_state_def)
qed

lemma epoch_steps_append:
  "epoch_steps cr m (es @ fs) = (case epoch_steps cr m es of None \<Rightarrow> None | Some m' \<Rightarrow> epoch_steps cr m' fs)"
  by (induction cr m es rule: epoch_steps.induct) (auto split: option.splits)

text \<open>The calls of an undisturbed handoff.\<close>

definition handoff_calls ::
  "node_id list \<Rightarrow> nat \<Rightarrow> node_id list \<Rightarrow> (node_id \<Rightarrow> attestation_verdict) \<Rightarrow> (node_id \<Rightarrow> pubkey) \<Rightarrow>
   pubkey \<Rightarrow> digest \<Rightarrow> digest \<Rightarrow> epoch_event list" where
  "handoff_calls nodes admitted selected verdict key group_key transcript certificate =
     PrepareNext nodes admitted # map (\<lambda>n. FinalAttestation (verdict n)) selected @
     map (\<lambda>n. VoteKey n (key n)) selected @ [DkgResult group_key transcript, Authorization certificate]"

lemma prepared_under_way:
  assumes "manager_ok cr m" and "\<not> transition_active m" and "from_nodes nodes = Some pool"
    and "kMinActiveTier1 \<le> active_target (tier1_target_outcome admitted (length pool))"
    and "selected = take (active_target (tier1_target_outcome admitted (length pool)))
      (tier1_rank cr pool (ep_authority_public_key (em_current m)) (ep_id (em_current m) + 1))"
  shows "\<exists>m'. epoch_step cr m (PrepareNext nodes admitted) = Some m' \<and> under_way cr m' selected {} key {} \<and>
    em_current m' = em_current m \<and> em_current_vote_keys m' = em_current_vote_keys m"
proof -
  obtain b m' where m': "prepare_next_epoch cr m pool admitted = Some (b, m')" "manager_ok cr m'"
    using prepare_next_epoch_ok [OF assms(1) from_nodes_Some(2) [OF assms(3)]] by blast
  then have "under_way cr m' selected {} key {} \<and> em_current m' = em_current m \<and>
      em_current_vote_keys m' = em_current_vote_keys m"
    using assms(2,4) unfolding assms(5)
    by (auto simp: prepare_next_epoch_def start_transition_def under_way_def Let_def split: option.splits)
  then show ?thesis using m'(1) assms(3) by simp
qed

lemma handoff_calls_complete:
  assumes pool: "from_nodes nodes = Some pool"
    and target: "kMinActiveTier1 \<le> active_target (tier1_target_outcome admitted (length pool))"
    and selected: "selected = tier1_select cr pool (ep_authority_public_key initial) (ep_id initial + 1)
      (active_target (tier1_target_outcome admitted (length pool)))"
    and verdicts: "\<And>n. av_node_id (verdict n) = n \<and> av_passed (verdict n) \<and> av_epoch (verdict n) = ep_id initial + 1 \<and>
      av_purpose (verdict n) = FinalEpochReadiness"
    and keys: "inj_on key (set selected)" "\<forall>n \<in> set selected. key n \<noteq> 0 \<and> key n \<notin> snd ` set current_keys"
    and nonzero: "group_key \<noteq> 0" "transcript \<noteq> 0" "certificate \<noteq> 0" "tier1_set_digest cr (sort selected) \<noteq> 0"
  shows "\<exists>m next m'. epoch_steps cr (epoch_manager_init initial current_keys)
      (handoff_calls nodes admitted selected verdict key group_key transcript certificate) = Some m \<and>
    activate_next_epoch cr m = Some (Some next, m') \<and> em_current m' = next \<and>
    ep_id next = ep_id initial + 1 \<and> ep_tier1_members next = sort selected \<and>
    ep_authority_public_key next = group_key"
proof -
  let ?m0 = "epoch_manager_init initial current_keys"
  have init: "em_current ?m0 = initial" "em_current_vote_keys ?m0 = current_keys" "\<not> transition_active ?m0"
    by (simp_all add: epoch_manager_init_def transition_active_def)
  obtain m1 where m1: "epoch_step cr ?m0 (PrepareNext nodes admitted) = Some m1" "under_way cr m1 selected {} key {}"
    "em_current m1 = initial" "em_current_vote_keys m1 = current_keys"
    using prepared_under_way [OF manager_ok_init init(3) pool target, of selected cr key] selected init
    by (auto simp: tier1_select_take)
  obtain m2 where m2: "epoch_steps cr m1 (map (\<lambda>n. FinalAttestation (verdict n)) selected) = Some m2"
    "under_way cr m2 selected (set selected) key {}" "em_current m2 = initial" "em_current_vote_keys m2 = current_keys"
    using attest_all [OF m1(2), of selected verdict] verdicts m1(3,4) by auto
  have "distinct selected"
    using from_nodes_Some(2) [OF pool] by (simp add: selected tier1_select_take)
  then obtain m3 where m3: "epoch_steps cr m2 (map (\<lambda>n. VoteKey n (key n)) selected) = Some m3"
    "under_way cr m3 selected (set selected) key (set selected)" "em_current m3 = initial"
    using key_all [OF m2(2), of selected] keys m2(3,4) by auto
  have "\<exists>m next m'. epoch_steps cr m3 [DkgResult group_key transcript, Authorization certificate] = Some m \<and>
    activate_next_epoch cr m = Some (Some next, m') \<and> em_current m' = next \<and>
    ep_id next = ep_id initial + 1 \<and> ep_tier1_members next = sort selected \<and>
    ep_authority_public_key next = group_key"
    using finish [OF m3(2) subset_refl subset_refl nonzero] m3(3) by simp
  then show ?thesis
    using m1(1) m2(1) m3(1) unfolding handoff_calls_def
    by (simp only: epoch_steps.simps epoch_steps_append option.case)
qed

lemma preview_loop_take:
  "length selected \<le> target \<Longrightarrow> preview_loop ranked excluded target selected =
     selected @ take (target - length selected) (filter (\<lambda>n. n \<notin> excluded) ranked)"
  by (induction ranked excluded target selected rule: preview_loop.induct)
    (auto simp: Suc_diff_le take_Cons')

lemma preview_selection_nonempty:
  assumes "preview_selection cr m pool admitted excluded \<noteq> []"
  shows "kMinActiveTier1 \<le> length (preview_selection cr m pool admitted excluded)"
    and "set (preview_selection cr m pool admitted excluded) \<subseteq> set pool - excluded"
    and "distinct pool \<Longrightarrow> distinct (preview_selection cr m pool admitted excluded)"
proof -
  obtain n ranked where sel: "preview_selection cr m pool admitted excluded = take n (filter (\<lambda>n. n \<notin> excluded) ranked)"
    "kMinActiveTier1 \<le> length (preview_selection cr m pool admitted excluded)"
    "set ranked = set pool" "distinct ranked = distinct pool"
  proof
    let ?rank = "tier1_rank cr pool (ep_authority_public_key (em_current m)) (ep_id (em_current m) + 1)"
    let ?n = "active_target (tier1_target_outcome admitted (length pool))"
    show "preview_selection cr m pool admitted excluded = take ?n (filter (\<lambda>n. n \<notin> excluded) ?rank)"
      "kMinActiveTier1 \<le> length (preview_selection cr m pool admitted excluded)"
      using assms by (auto simp: preview_selection_def preview_loop_take Let_def split: if_splits)
  qed simp_all
  then show "kMinActiveTier1 \<le> length (preview_selection cr m pool admitted excluded)"
    "distinct pool \<Longrightarrow> distinct (preview_selection cr m pool admitted excluded)" by simp_all
  show "set (preview_selection cr m pool admitted excluded) \<subseteq> set pool - excluded"
    using set_take_subset [of n "filter (\<lambda>n. n \<notin> excluded) ranked"] sel(3) unfolding sel(1) by auto
qed

lemma replacement_of_find:
  "replacement_of selected removed ranked = find (\<lambda>c. c \<notin> set selected \<and> c \<notin> removed) ranked"
  by (induction ranked) auto

text \<open>A concrete handoff: five servers, each with its number as vote key, in an epoch whose member set
  has a digest other than zero.\<close>

definition example_pool :: "node_id list" where
  "example_pool = map NodeId [1, 2, 3, 4, 5]"

definition example_epoch_crypto :: crypto where
  "example_epoch_crypto = example_crypto [tier1_set_stream example_pool]"

definition example_initial :: epoch_state where
  "example_initial = make_epoch_state example_epoch_crypto 6 11 example_pool 12 0"

definition example_verdict :: "bool \<Rightarrow> node_id \<Rightarrow> attestation_verdict" where
  "example_verdict passed n =
     \<lparr>av_node_id = n, av_epoch = 7, av_incarnation = 1, av_purpose = FinalEpochReadiness,
      av_context_digest = 0, av_evidence_digest = 0, av_passed = passed, av_claims = no_claims\<rparr>"

definition example_key :: "node_id \<Rightarrow> pubkey" where
  "example_key n = (case n of NodeId w \<Rightarrow> w)"

definition example_selected :: "node_id list" where
  "example_selected = tier1_select example_epoch_crypto example_pool 12 7 5"

definition example_handoff_calls :: "epoch_event list" where
  "example_handoff_calls =
     handoff_calls example_pool 5 example_selected (example_verdict True) example_key 21 22 23"

lemma example_pool_facts:
  "from_nodes example_pool = Some example_pool" "length example_pool = 5" "distinct example_pool"
  "sorted example_pool" "active_target (tier1_target_outcome 5 5) = 5" "sort example_pool = example_pool"
  by (simp_all add: from_nodes_eq example_pool_def less_eq_node_id_def tier1_target_outcome_def
      tier1_target_count_def kTier1TargetSteps_def)

lemma example_selected_facts: "set example_selected = set example_pool" "sort example_selected = example_pool"
proof -
  have "mset example_selected = mset example_pool"
    by (simp add: example_selected_def tier1_select_take example_pool_facts mset_tier1_rank)
  then show "set example_selected = set example_pool" "sort example_selected = example_pool"
    using properties_for_sort [of example_pool example_selected] example_pool_facts(4) mset_eq_setD by simp_all
qed

lemma example_initial_facts:
  "ep_id example_initial = 6" "ep_authority_public_key example_initial = 12" "ep_network_id example_initial = 11"
  by (simp_all add: example_initial_def make_epoch_state_def)

lemma example_keys:
  "inj_on example_key (set example_selected)"
  "\<forall>n \<in> set example_selected. example_key n \<noteq> 0 \<and> example_key n \<notin> snd ` set [(NodeId 1, 31 :: pubkey)]"
  unfolding example_selected_facts by (auto simp: example_pool_def example_key_def inj_on_def)

lemma example_set_digest: "tier1_set_digest example_epoch_crypto (sort example_selected) \<noteq> 0"
  by (simp add: tier1_set_digest_def encoder_digest_def example_selected_facts example_epoch_crypto_def example_simps)

lemmas example_facts = example_pool_facts example_initial_facts

section \<open>A failed attestation\<close>

text \<open>A selected member that fails leaves the selection for good and the first unused candidate replaces it; unless
  too few are left, the manager then reports a shortfall, as the selection cannot be the whole ranking any more.\<close>

lemma replaced_selection_short:
  assumes "members_ok m t" and "node \<in> set (tr_selected_members t)"
  shows "length (removeAll node (tr_selected_members t) @
      (case find (\<lambda>c. c \<notin> set (tr_selected_members t) \<and> c \<notin> em_removed_candidates m) (em_rank m) of
         Some c \<Rightarrow> [c] | None \<Rightarrow> [])) < length (em_rank m)"
proof -
  define found where "found = find (\<lambda>c. c \<notin> set (tr_selected_members t) \<and> c \<notin> em_removed_candidates m) (em_rank m)"
  let ?now = "removeAll node (tr_selected_members t) @ (case found of Some c \<Rightarrow> [c] | None \<Rightarrow> [])"
  have "c \<in> set (em_rank m) \<and> c \<notin> set (tr_selected_members t)" if "found = Some c" for c
    using that unfolding found_def find_Some_iff by auto
  then have "distinct ?now" "set ?now \<subseteq> set (em_rank m) - {node}"
    using assms by (auto simp: members_ok_def distinct_removeAll split: option.split)
  then have "length ?now \<le> card (set (em_rank m) - {node})" by (metis card_mono distinct_card finite_Diff finite_set)
  also have "\<dots> < card (set (em_rank m))" using assms by (intro card_Diff1_less) (auto simp: members_ok_def)
  finally show ?thesis using card_length [of "em_rank m"] by (simp flip: found_def)
qed

lemma failed_attestation:
  assumes "epoch_steps cr (epoch_manager_init initial keys) es = Some m"
    and "em_transition m = Some t" and "tr_phase t \<in> {Attesting, GeneratingVoteKeys, GeneratingAuthorityKey}"
    and "av_epoch verdict = tr_to_epoch t" and "av_purpose verdict = FinalEpochReadiness"
    and "av_node_id verdict \<in> set (tr_selected_members t)" and "\<not> av_passed verdict"
  shows "\<exists>m' t'. record_final_attestation cr m verdict = Some (True, m') \<and> em_transition m' = Some t' \<and>
    manager_ok cr m' \<and> \<not> em_authorized m' \<and> tr_next_authority_key t' = 0 \<and>
    em_removed_candidates m' = insert (av_node_id verdict) (em_removed_candidates m) \<and>
    tr_selected_members t' = removeAll (av_node_id verdict) (tr_selected_members t) @
      (case find (\<lambda>c. c \<notin> set (tr_selected_members t) \<and> c \<notin> em_removed_candidates m) (em_rank m) of
         Some c \<Rightarrow> [c] | None \<Rightarrow> []) \<and>
    (tr_phase t' = Aborted \<longleftrightarrow> length (tr_selected_members t') < kMinActiveTier1) \<and>
    (tr_phase t' \<noteq> Aborted \<longrightarrow> em_target_shortfall m')"
proof -
  have ok: "manager_ok cr m"
    using epoch_steps_ok [OF manager_ok_init, of cr initial keys es] assms(1) by simp
  have active: "transition_active m" using assms(2,3) by (auto simp: transition_active_def)
  then have mok: "members_ok m t" using manager_ok_active(1) [OF ok assms(2)] by simp
  have size: "length (removeAll (av_node_id verdict) (tr_selected_members t)) = length (tr_selected_members t) - 1"
    using mok assms(6) by (simp add: members_ok_def distinct_remove1_removeAll [symmetric] length_remove1)
  obtain b m' where m': "record_final_attestation cr m verdict = Some (b, m')" "manager_ok cr m'"
    using record_final_attestation_ok [OF ok] by blast
  have same: "replacement_of (removeAll (av_node_id verdict) (tr_selected_members t))
      (insert (av_node_id verdict) (em_removed_candidates m)) (em_rank m) =
    find (\<lambda>c. c \<notin> set (tr_selected_members t) \<and> c \<notin> em_removed_candidates m) (em_rank m)"
    unfolding replacement_of_find using assms(6) by (intro find_cong) auto
  define rest where "rest = removeAll (av_node_id verdict) (tr_selected_members t)"
  define found where "found = find (\<lambda>c. c \<notin> set (tr_selected_members t) \<and> c \<notin> em_removed_candidates m) (em_rank m)"
  have run: "record_final_attestation cr m verdict =
    (case remove_member (av_node_id verdict) rest t m of
       (m, None) \<Rightarrow> Some (True, abort_transition EligiblePoolBelowMinimum m)
     | (m, Some t) \<Rightarrow>
         map_option (Pair True) (recompute_phase cr t
           (m\<lparr>em_target_shortfall := (em_target_shortfall m \<or>
                length (tr_selected_members t) < length (em_rank m))\<rparr>)))"
    using assms(2-7) active by (auto simp: record_final_attestation_def rest_def)
  have same': "replacement_of rest (insert (av_node_id verdict) (em_removed_candidates m)) (em_rank m) = found"
    using same by (simp add: rest_def found_def)
  have rest: "length rest \<ge> 4"
    using size mok by (auto simp: rest_def members_ok_def kMinActiveTier1_def)
  have phase: "tr_phase t \<noteq> Aborted" using assms(3) by auto
  have short: "length (rest @ (case found of Some c \<Rightarrow> [c] | None \<Rightarrow> [])) < length (em_rank m)"
    unfolding rest_def found_def by (rule replaced_selection_short [OF mok assms(6)])
  have shape: "\<exists>t'. b \<and> em_transition m' = Some t' \<and> \<not> em_authorized m' \<and> tr_next_authority_key t' = 0 \<and>
    em_removed_candidates m' = insert (av_node_id verdict) (em_removed_candidates m) \<and>
    tr_selected_members t' = rest @ (case found of Some c \<Rightarrow> [c] | None \<Rightarrow> []) \<and>
    (tr_phase t' = Aborted \<longleftrightarrow> length (tr_selected_members t') < kMinActiveTier1) \<and>
    (tr_phase t' \<noteq> Aborted \<longrightarrow> em_target_shortfall m')"
  proof (cases found)
    case None
    then show ?thesis
      using m'(1) phase short unfolding run remove_member_def Let_def
      by (auto simp: same' drop_participant_state_def abort_transition_def recompute_phase_def
          split: option.splits if_splits)
  next
    case (Some c)
    then show ?thesis
      using m'(1) phase rest short unfolding run remove_member_def Let_def
      by (auto simp: same' drop_participant_state_def recompute_phase_def kMinActiveTier1_def
          split: option.splits)
  qed
  then obtain t' where "b" and t': "em_transition m' = Some t'" "\<not> em_authorized m'" "tr_next_authority_key t' = 0"
    "em_removed_candidates m' = insert (av_node_id verdict) (em_removed_candidates m)"
    "tr_selected_members t' = rest @ (case found of Some c \<Rightarrow> [c] | None \<Rightarrow> [])"
    "tr_phase t' = Aborted \<longleftrightarrow> length (tr_selected_members t') < kMinActiveTier1"
    "tr_phase t' \<noteq> Aborted \<longrightarrow> em_target_shortfall m'" by blast
  then show ?thesis using m' by (intro exI [of _ m'] exI [of _ t']) (simp add: rest_def found_def)
qed

section \<open>Properties\<close>

text \<open>C9. The epoch manager is always in a consistent state: after every sequence of calls from a fresh
  manager, in any order and with any arguments, no call has run into an empty set, and a running
  transition has at least the minimum of distinct selected members, all ranked and none removed, holds
  verdicts and pairwise distinct fresh vote keys of selected members only, is in exactly the phase its
  evidence justifies, and is authorized only when ready.\<close>

theorem epoch_manager_invariant:
  "\<exists>m. epoch_steps cr (epoch_manager_init initial keys) es = Some m \<and> manager_ok cr m"
  by (rule epoch_steps_ok) (rule manager_ok_init)

text \<open>C8. An activated epoch is complete and authorized: whenever activation succeeds after any sequence
  of calls, the new epoch is the successor of the current one on the same network, has at least the
  minimum number of members, each with a passed final attestation for exactly that epoch, its vote keys
  are non-zero, pairwise distinct and none of them a key of the old epoch, the quorum and the threshold are
  those of its population, and the current epoch had authorized the handoff.\<close>

theorem activated_epoch_complete:
  assumes "epoch_steps cr (epoch_manager_init initial keys) es = Some m"
    and "activate_next_epoch cr m = Some (Some next, m')"
  shows "ep_id next = ep_id (em_current m) + 1 \<and> ep_network_id next = ep_network_id (em_current m) \<and>
    sorted (ep_tier1_members next) \<and> distinct (ep_tier1_members next) \<and>
    kMinActiveTier1 \<le> length (ep_tier1_members next) \<and>
    (\<forall>n \<in> set (ep_tier1_members next). \<exists>v. map_of (em_final_verdicts m) n = Some v \<and> av_node_id v = n \<and>
       av_passed v \<and> av_epoch v = ep_id next \<and> av_purpose v = FinalEpochReadiness) \<and>
    dom (map_of (em_current_vote_keys m')) = set (ep_tier1_members next) \<and>
    (\<forall>n k. map_of (em_current_vote_keys m') n = Some k \<longrightarrow> k \<noteq> 0 \<and> k \<notin> snd ` set (em_current_vote_keys m)) \<and>
    (\<forall>n n' k. map_of (em_current_vote_keys m') n = Some k \<longrightarrow> map_of (em_current_vote_keys m') n' = Some k \<longrightarrow> n = n') \<and>
    ep_consensus_quorum next = consensus_quorum (length (ep_tier1_members next)) \<and>
    ep_authority_public_key next \<noteq> 0 \<and> em_authorized m \<and> em_current m' = next"
proof -
  have ok: "manager_ok cr m"
    using epoch_steps_ok [OF manager_ok_init, of cr initial keys es] assms(1) by simp
  obtain t where t: "em_transition m = Some t" "ready_for_activation t" "em_authorized m"
    using assms(2) by (auto simp: activate_next_epoch_def split: option.splits if_splits)
  then have phase: "tr_phase t = Ready" by (simp add: ready_for_activation_def)
  then have mok: "members_ok m t"
    using manager_ok_active(1) [OF ok t(1)] t(1) by (simp add: transition_active_def)
  let ?ts = "sort (tr_selected_members t)"
  have nxt: "next = make_epoch_state cr (tr_to_epoch t) (ep_network_id (em_current m)) ?ts
      (tr_next_authority_key t) (tr_attestation_root t)"
    and m': "em_current m' = next" "em_current_vote_keys m' = em_next_vote_keys m"
    using assms(2) t mok by (auto simp: activate_next_epoch_def from_nodes_eq members_ok_def Let_def)
  note ready = ready_complete [OF ok t(1) phase]
  have verdicts: "\<exists>v. map_of (em_final_verdicts m) n = Some v \<and> av_node_id v = n \<and> av_passed v \<and>
      av_epoch v = tr_to_epoch t \<and> av_purpose v = FinalEpochReadiness" if "n \<in> set ?ts" for n
    using ready(1) mok that
    by (auto simp: attested_def members_ok_def verdicts_ok_def split: option.splits)
  have keys: "keys_ok t (em_current_vote_keys m) (em_next_vote_keys m)" using mok by (simp add: members_ok_def)
  then have dom: "dom (map_of (em_next_vote_keys m)) = set ?ts"
    using ready(1) by (auto simp: keys_ok_def)
  show ?thesis
    using mok t(3) ready(2) verdicts dom keys
    unfolding m' nxt make_epoch_state_def keys_ok_def members_ok_def by simp
qed

theorem activated_epoch_complete_witness:
  "\<exists>m next m'. epoch_steps example_epoch_crypto (epoch_manager_init example_initial [(NodeId 1, 31)])
      example_handoff_calls = Some m \<and>
    activate_next_epoch example_epoch_crypto m = Some (Some next, m') \<and>
    kMinActiveTier1 \<le> length (ep_tier1_members next) \<and> em_authorized m"
proof -
  obtain m "next" m' where m:
    "epoch_steps example_epoch_crypto (epoch_manager_init example_initial [(NodeId 1, 31)]) example_handoff_calls = Some m"
    "activate_next_epoch example_epoch_crypto m = Some (Some next, m')"
    using handoff_calls_complete [of example_pool example_pool 5 example_selected example_epoch_crypto
        example_initial "example_verdict True" example_key "[(NodeId 1, 31)]" 21 22 23]
      example_keys example_set_digest
    by (auto simp: example_facts example_selected_def example_verdict_def kMinActiveTier1_def
        example_handoff_calls_def)
  then show ?thesis using activated_epoch_complete [OF m] by blast
qed

text \<open>C11. A handoff completes: from a fresh manager with an eligible pool that can fill the minimum, once
  every selected member has passed its final attestation and registered a fresh key, key generation has
  given a group key and the old epoch has authorized the handoff, activation succeeds and the manager is
  in the next epoch, with exactly the selected members and the generated group key.\<close>

theorem handoff_completes:
  assumes "from_nodes nodes = Some pool"
    and "kMinActiveTier1 \<le> active_target (tier1_target_outcome admitted (length pool))"
    and "selected = tier1_select cr pool (ep_authority_public_key initial) (ep_id initial + 1)
      (active_target (tier1_target_outcome admitted (length pool)))"
    and "\<And>n. av_node_id (verdict n) = n \<and> av_passed (verdict n) \<and> av_epoch (verdict n) = ep_id initial + 1 \<and>
      av_purpose (verdict n) = FinalEpochReadiness"
    and "inj_on key (set selected)" and "\<forall>n \<in> set selected. key n \<noteq> 0 \<and> key n \<notin> snd ` set current_keys"
    and "group_key \<noteq> 0" and "transcript \<noteq> 0" and "certificate \<noteq> 0"
    and "tier1_set_digest cr (sort selected) \<noteq> 0"
  shows "\<exists>m. epoch_steps cr (epoch_manager_init initial current_keys)
      (handoff_calls nodes admitted selected verdict key group_key transcript certificate @ [Activate]) = Some m \<and>
    ep_id (em_current m) = ep_id initial + 1 \<and> ep_tier1_members (em_current m) = sort selected \<and>
    ep_authority_public_key (em_current m) = group_key"
  using handoff_calls_complete [OF assms] by (auto simp: epoch_steps_append)

theorem handoff_completes_witness:
  "\<exists>m. epoch_steps example_epoch_crypto (epoch_manager_init example_initial [(NodeId 1, 31)])
      (handoff_calls example_pool 5 example_selected (example_verdict True) example_key 21 22 23 @ [Activate]) = Some m \<and>
    ep_id (em_current m) = 7 \<and> ep_tier1_members (em_current m) = example_pool"
  using handoff_completes [of example_pool example_pool 5 example_selected example_epoch_crypto
      example_initial "example_verdict True" example_key "[(NodeId 1, 31)]" 21 22 23]
    example_keys example_set_digest
  by (auto simp: example_facts example_selected_facts example_selected_def [symmetric] example_verdict_def
      kMinActiveTier1_def)

text \<open>C33. A member that fails its final attestation leaves for good: after any sequence of calls, a failed
  verdict for a selected member of the epoch being prepared removes it, discards the group key and any
  authorization, and puts the best ranked candidate that is neither selected nor removed in its place;
  without such a candidate the selection shrinks, and below the minimum the transition is aborted.\<close>

theorem failed_member_leaves:
  assumes "epoch_steps cr (epoch_manager_init initial keys) es = Some m"
    and "em_transition m = Some t" and "tr_phase t \<in> {Attesting, GeneratingVoteKeys, GeneratingAuthorityKey}"
    and "av_epoch verdict = tr_to_epoch t" and "av_purpose verdict = FinalEpochReadiness"
    and "av_node_id verdict \<in> set (tr_selected_members t)" and "\<not> av_passed verdict"
  shows "\<exists>m' t'. record_final_attestation cr m verdict = Some (True, m') \<and> em_transition m' = Some t' \<and>
    manager_ok cr m' \<and> \<not> em_authorized m' \<and> tr_next_authority_key t' = 0 \<and>
    em_removed_candidates m' = insert (av_node_id verdict) (em_removed_candidates m) \<and>
    tr_selected_members t' = removeAll (av_node_id verdict) (tr_selected_members t) @
      (case find (\<lambda>c. c \<notin> set (tr_selected_members t) \<and> c \<notin> em_removed_candidates m) (em_rank m) of
         Some c \<Rightarrow> [c] | None \<Rightarrow> []) \<and>
    (tr_phase t' = Aborted \<longleftrightarrow> length (tr_selected_members t') < kMinActiveTier1)"
  using failed_attestation [OF assms] by blast

lemma example_failure:
  defines "m0 \<equiv> epoch_manager_init example_initial []"
  shows "\<exists>m t. epoch_steps example_epoch_crypto m0 [PrepareNext example_pool 5] = Some m \<and>
    em_transition m = Some t \<and> tr_phase t = Attesting \<and> tr_to_epoch t = 7 \<and>
    tr_selected_members t = example_selected \<and> em_rank m = example_selected"
proof -
  have "distinct example_selected"
    by (simp add: example_selected_def tier1_select_take example_facts)
  moreover have "take 5 (tier1_rank example_epoch_crypto example_pool 12 7) = example_selected"
    "tier1_rank example_epoch_crypto example_pool 12 7 = example_selected"
    by (simp_all add: example_selected_def tier1_select_take example_facts)
  ultimately show ?thesis
    by (simp add: m0_def epoch_manager_init_def prepare_next_epoch_def start_transition_def transition_active_def
        example_facts kMinActiveTier1_def from_nodes_eq Let_def)
qed

theorem failed_member_leaves_witness:
  "\<exists>m m' t'. epoch_steps example_epoch_crypto (epoch_manager_init example_initial []) [PrepareNext example_pool 5] = Some m \<and>
    record_final_attestation example_epoch_crypto m (example_verdict False (NodeId 3)) = Some (True, m') \<and>
    em_transition m' = Some t' \<and> tr_phase t' = Aborted"
proof -
  obtain m t where m: "epoch_steps example_epoch_crypto (epoch_manager_init example_initial []) [PrepareNext example_pool 5] = Some m"
    "em_transition m = Some t" "tr_phase t = Attesting" "tr_to_epoch t = 7"
    "tr_selected_members t = example_selected" "em_rank m = example_selected"
    using example_failure by blast
  have member: "NodeId 3 \<in> set example_selected" by (simp add: example_selected_facts example_pool_def)
  have none: "find (\<lambda>c. c \<notin> set example_selected \<and> c \<notin> em_removed_candidates m) example_selected = None"
    by (simp add: find_None_iff)
  have "length (removeAll (NodeId 3) example_selected) < kMinActiveTier1"
    using length_removeAll_less [OF member]
    by (simp add: example_selected_def tier1_select_take example_facts kMinActiveTier1_def)
  then show ?thesis
    using failed_member_leaves [OF m(1,2), of "example_verdict False (NodeId 3)"] m member none
    by (auto simp: example_verdict_def)
qed

text \<open>Planning and preparing agree: on an idle manager the selection previewed for a pool is exactly
  the selection preparation starts a transition with, an empty preview is a refusal that changes nothing,
  and every non-empty preview, whatever it excludes, is accepted as a committed plan and selected as is.\<close>

theorem preview_matches_preparation:
  assumes "\<not> transition_active m" and "from_nodes nodes = Some pool"
  shows "(case preview_selection cr m pool admitted {} of
      [] \<Rightarrow> prepare_next_epoch cr m pool admitted = Some (False, m)
    | selected \<Rightarrow> \<exists>m' t. prepare_next_epoch cr m pool admitted = Some (True, m') \<and>
        em_transition m' = Some t \<and> tr_selected_members t = selected) \<and>
    (preview_selection cr m pool admitted excluded \<noteq> [] \<longrightarrow>
      set (preview_selection cr m pool admitted excluded) \<inter> excluded = {} \<and>
      (\<exists>m' t. prepare_planned_epoch cr m pool (preview_selection cr m pool admitted excluded) = Some (True, m') \<and>
        em_transition m' = Some t \<and> tr_selected_members t = preview_selection cr m pool admitted excluded))"
proof -
  let ?sel = "preview_selection cr m pool admitted excluded"
  have pool: "distinct pool" using from_nodes_Some(2) [OF assms(2)] .
  have plain: "preview_selection cr m pool admitted {} =
      (if active_target (tier1_target_outcome admitted (length pool)) < kMinActiveTier1 then []
       else take (active_target (tier1_target_outcome admitted (length pool)))
         (tier1_rank cr pool (ep_authority_public_key (em_current m)) (ep_id (em_current m) + 1)))"
    by (auto simp: preview_selection_def preview_loop_take tier1_target_outcome_def Let_def)
  have "(case preview_selection cr m pool admitted {} of
      [] \<Rightarrow> prepare_next_epoch cr m pool admitted = Some (False, m)
    | selected \<Rightarrow> \<exists>m' t. prepare_next_epoch cr m pool admitted = Some (True, m') \<and>
        em_transition m' = Some t \<and> tr_selected_members t = selected)"
  proof (cases "active_target (tier1_target_outcome admitted (length pool)) < kMinActiveTier1")
    case True
    then show ?thesis using assms(1) by (simp add: plain prepare_next_epoch_def Let_def)
  next
    case False
    define selected where "selected = take (active_target (tier1_target_outcome admitted (length pool)))
      (tier1_rank cr pool (ep_authority_public_key (em_current m)) (ep_id (em_current m) + 1))"
    have "length selected = active_target (tier1_target_outcome admitted (length pool))"
      by (simp add: selected_def tier1_target_outcome_def Let_def)
    then have "selected \<noteq> []" using False by (auto simp: kMinActiveTier1_def)
    moreover have "distinct selected" using pool by (simp add: selected_def)
    ultimately have "\<exists>m' t. prepare_next_epoch cr m pool admitted = Some (True, m') \<and>
        em_transition m' = Some t \<and> tr_selected_members t = selected"
      using assms(1) False
      by (simp add: prepare_next_epoch_def start_transition_def from_nodes_eq Let_def selected_def)
    then show ?thesis using False \<open>selected \<noteq> []\<close> by (cases selected) (simp_all add: plain selected_def [symmetric])
  qed
  moreover have "set ?sel \<inter> excluded = {} \<and> (\<exists>m' t. prepare_planned_epoch cr m pool ?sel = Some (True, m') \<and>
      em_transition m' = Some t \<and> tr_selected_members t = ?sel)" if "?sel \<noteq> []"
  proof -
    note sel = preview_selection_nonempty [OF that]
    have "list_all (tier1_contains pool) ?sel"
      using sel(2) from_nodes_Some(1) [OF assms(2)] by (auto simp: list_all_iff tier1_contains_def)
    then show ?thesis
      using assms(1) sel pool
      by (auto simp: prepare_planned_epoch_def start_transition_def from_nodes_eq Let_def)
  qed
  ultimately show ?thesis by blast
qed

theorem preview_matches_preparation_witness:
  "length (preview_selection example_epoch_crypto (epoch_manager_init example_initial []) example_pool 5 {}) = 5 \<and>
   (\<exists>m' t. prepare_next_epoch example_epoch_crypto (epoch_manager_init example_initial []) example_pool 5 = Some (True, m') \<and>
     em_transition m' = Some t \<and> tr_selected_members t =
       preview_selection example_epoch_crypto (epoch_manager_init example_initial []) example_pool 5 {})"
proof -
  let ?m = "epoch_manager_init example_initial []"
  have len: "length (preview_selection example_epoch_crypto ?m example_pool 5 {}) = 5"
    by (simp add: preview_selection_def preview_loop_take Let_def example_facts kMinActiveTier1_def)
  have "\<not> transition_active ?m" by (simp add: transition_active_def epoch_manager_init_def)
  then show ?thesis
    using preview_matches_preparation [OF _ example_pool_facts(1), of ?m example_epoch_crypto 5 "{}"] len
    by (cases "preview_selection example_epoch_crypto ?m example_pool 5 {}") simp_all
qed

text \<open>C39. A shortfall is reported although the target is met. Whenever a manager, after any calls from a fresh
  one, has a selection of the target's size and one of its members fails the final attestation, the call
  reports success and, unless fewer members than the compiled minimum are left, marks a shortfall. Yet the
  selection has the target's size again exactly if a ranked candidate was left that was neither selected nor
  removed. The flag compares the selection with the whole ranking, which holds the member just removed, and
  not with the target.\<close>

theorem shortfall_reported_at_full_target:
  assumes "epoch_steps cr (epoch_manager_init initial keys) es = Some m"
    and "em_transition m = Some t" and "tr_phase t \<in> {Attesting, GeneratingVoteKeys, GeneratingAuthorityKey}"
    and "av_epoch verdict = tr_to_epoch t" and "av_purpose verdict = FinalEpochReadiness"
    and "av_node_id verdict \<in> set (tr_selected_members t)" and "\<not> av_passed verdict"
    and "length (tr_selected_members t) = desired (tier1_target_outcome admitted (length (em_rank m)))"
  shows "\<exists>m' t'. record_final_attestation cr m verdict = Some (True, m') \<and> em_transition m' = Some t' \<and>
    (kMinActiveTier1 \<le> length (tr_selected_members t') \<longrightarrow> em_target_shortfall m') \<and>
    (length (tr_selected_members t') = desired (tier1_target_outcome admitted (length (em_rank m))) \<longleftrightarrow>
       \<not> set (em_rank m) \<subseteq> set (tr_selected_members t) \<union> em_removed_candidates m)"
proof -
  let ?found = "find (\<lambda>c. c \<notin> set (tr_selected_members t) \<and> c \<notin> em_removed_candidates m) (em_rank m)"
  obtain m' t' where m': "record_final_attestation cr m verdict = Some (True, m')" "em_transition m' = Some t'"
    "tr_selected_members t' = removeAll (av_node_id verdict) (tr_selected_members t) @ (case ?found of Some c \<Rightarrow> [c] | None \<Rightarrow> [])"
    "kMinActiveTier1 \<le> length (tr_selected_members t') \<longrightarrow> em_target_shortfall m'"
    using failed_attestation [OF assms(1-7)] by (metis not_le)
  have "manager_ok cr m" using epoch_steps_ok [OF manager_ok_init, of cr initial keys es] assms(1) by simp
  then have "members_ok m t" using manager_ok_active(1) [OF _ assms(2)] assms(2,3) by (auto simp: transition_active_def)
  then have "Suc (length (removeAll (av_node_id verdict) (tr_selected_members t))) = length (tr_selected_members t)"
    using assms(6) length_pos_if_in_set [OF assms(6)]
    by (simp add: members_ok_def distinct_remove1_removeAll [symmetric] length_remove1)
  moreover have "?found = None \<longleftrightarrow> set (em_rank m) \<subseteq> set (tr_selected_members t) \<union> em_removed_candidates m"
    by (auto simp: find_None_iff)
  ultimately show ?thesis
    using m' assms(8) by (intro exI [of _ m'] exI [of _ t']) (cases ?found; auto)
qed

theorem shortfall_reported_at_full_target_witness:
  "\<exists>m m' t'. epoch_steps (example_crypto []) (epoch_manager_init example_initial []) [PrepareNext (map NodeId [1, 2, 3, 4, 5, 6]) 5] = Some m \<and>
     \<not> em_target_shortfall m \<and>
     record_final_attestation (example_crypto []) m (example_verdict False (NodeId 1)) = Some (True, m') \<and>
     em_transition m' = Some t' \<and> length (tr_selected_members t') = desired (tier1_target_outcome 5 6) \<and>
     em_target_shortfall m'"
proof -
  obtain m t where m: "epoch_steps (example_crypto []) (epoch_manager_init example_initial [])
      [PrepareNext (map NodeId [1, 2, 3, 4, 5, 6]) 5] = Some m" "\<not> em_target_shortfall m" "em_transition m = Some t"
    "tr_phase t = Attesting" "tr_to_epoch t = 7" "tr_selected_members t = map NodeId [1, 2, 3, 4, 5]"
    "em_rank m = map NodeId [1, 2, 3, 4, 5, 6]" "em_removed_candidates m = {}"
    by (simp add: epoch_manager_init_def prepare_next_epoch_def start_transition_def transition_active_def
      from_nodes_eq tier1_target_outcome_def tier1_target_count_def kTier1TargetSteps_def kMinActiveTier1_def
      Let_def tier1_rank_def example_initial_facts less_eq_node_id_def less_node_id_def example_simps
      selection_score_def encoder_digest_def)
  have target: "desired (tier1_target_outcome 5 6) = 5"
    by (simp add: tier1_target_outcome_def tier1_target_count_def kTier1TargetSteps_def Let_def)
  have ranked: "length (em_rank m) = 6" "\<not> set (em_rank m) \<subseteq> set (tr_selected_members t) \<union> em_removed_candidates m"
    and verdict: "av_epoch (example_verdict False (NodeId 1)) = tr_to_epoch t"
      "av_purpose (example_verdict False (NodeId 1)) = FinalEpochReadiness"
      "av_node_id (example_verdict False (NodeId 1)) \<in> set (tr_selected_members t)"
      "\<not> av_passed (example_verdict False (NodeId 1))"
    and five: "length (tr_selected_members t) = 5"
    and phase: "tr_phase t \<in> {Attesting, GeneratingVoteKeys, GeneratingAuthorityKey}"
    using m(4-8) by (simp_all add: example_verdict_def)
  have full: "length (tr_selected_members t) = desired (tier1_target_outcome 5 (length (em_rank m)))"
    unfolding ranked(1) five target ..
  show ?thesis
    using shortfall_reported_at_full_target [OF m(1,3) phase verdict full] m(1,2) ranked target
    unfolding kMinActiveTier1_def by force
qed

end
