(* ===== verification/Eligibility_Types.thy ===== *)
theory Eligibility_Types
  imports Platform_Claims "HOL-Library.Product_Lexorder"
begin

text \<open>
  \<^verbatim>\<open>Security/Eligibility/EligibilityObservation.cpp\<close>, \<^verbatim>\<open>ParticipationProof.cpp\<close> and
  \<^verbatim>\<open>EligibilityState.cpp\<close>: the signed statements members make about candidates, the challenge and
  response behind a participation statement, and the eligibility state consensus commits. The lemmas
  show that each digest determines the object it was computed from.
\<close>

section \<open>Observations\<close>

datatype observation_kind = Attestation | Participation

fun kind_code :: "observation_kind \<Rightarrow> u16" where
  "kind_code Attestation = 0"
| "kind_code Participation = 1"

lemma kind_code_eq_iff [simp]: "kind_code a = kind_code b \<longleftrightarrow> a = b"
  by (cases a; cases b) simp_all

instantiation observation_kind :: linorder
begin

definition less_eq_observation_kind :: "observation_kind \<Rightarrow> observation_kind \<Rightarrow> bool" where
  "less_eq_observation_kind a b \<longleftrightarrow> kind_code a \<le> kind_code b"

definition less_observation_kind :: "observation_kind \<Rightarrow> observation_kind \<Rightarrow> bool" where
  "less_observation_kind a b \<longleftrightarrow> kind_code a < kind_code b"

instance
  by standard (auto simp: less_eq_observation_kind_def less_observation_kind_def order.strict_iff_order)

end

lemma kind_less [simp]: "Attestation < Participation" "\<not> Participation < Attestation" "\<not> k < (k :: observation_kind)"
  by (simp_all add: less_observation_kind_def)

datatype objective_fault = DuplicateIncarnation | EquivocationFault | InvalidConsensusBehavior

fun fault_code :: "objective_fault \<Rightarrow> u16" where
  "fault_code DuplicateIncarnation = 0"
| "fault_code EquivocationFault = 1"
| "fault_code InvalidConsensusBehavior = 2"

lemma fault_code_eq_iff [simp]: "fault_code a = fault_code b \<longleftrightarrow> a = b"
  by (cases a; cases b) simp_all

instantiation objective_fault :: linorder
begin

definition less_eq_objective_fault :: "objective_fault \<Rightarrow> objective_fault \<Rightarrow> bool" where
  "less_eq_objective_fault a b \<longleftrightarrow> fault_code a \<le> fault_code b"

definition less_objective_fault :: "objective_fault \<Rightarrow> objective_fault \<Rightarrow> bool" where
  "less_objective_fault a b \<longleftrightarrow> fault_code a < fault_code b"

instance
  by standard (auto simp: less_eq_objective_fault_def less_objective_fault_def order.strict_iff_order)

end

record eligibility_observation =
  ob_network_id :: digest
  ob_epoch :: u64
  ob_subject :: node_id
  ob_subject_incarnation :: u64
  ob_kind :: observation_kind
  ob_attestation_digest :: digest
  ob_claims :: verified_platform_claims
  ob_height :: u64
  ob_state_reference :: digest
  ob_observer :: node_id
  ob_signature :: sig

definition kObservationDomain :: string where
  "kObservationDomain = ''LEMONADE-NEXUS-T1-OBSERVATION-V1''"

definition observation_stream :: "eligibility_observation \<Rightarrow> byte list" where
  "observation_stream ob =
     (let e = canonical_encoder kObservationDomain;
          e = add_digest e (ob_network_id ob);
          e = add_u64 e (ob_epoch ob);
          e = add_node e (ob_subject ob);
          e = add_u64 e (ob_subject_incarnation ob);
          e = add_u16 e (kind_code (ob_kind ob));
          e = add_digest e (ob_attestation_digest ob);
          e = encode_platform_claims e (ob_claims ob);
          e = add_u64 e (ob_height ob);
          e = add_digest e (ob_state_reference ob)
      in add_node e (ob_observer ob))"

definition observation_signing_digest :: "crypto \<Rightarrow> eligibility_observation \<Rightarrow> digest" where
  "observation_signing_digest cr ob = encoder_digest cr (observation_stream ob)"

definition observation_signature_valid :: "crypto \<Rightarrow> eligibility_observation \<Rightarrow> bool" where
  "observation_signature_valid cr ob =
     verify_detached cr (node_bytes (ob_observer ob)) (observation_signing_digest cr ob) (ob_signature ob)"

text \<open>\<^verbatim>\<open>crypto::Ed25519Keypair\<close>: the public half is the node identity.\<close>

record keypair =
  kp_public_key :: pubkey
  kp_private_key :: "byte list"

definition sign_observation :: "crypto \<Rightarrow> eligibility_observation \<Rightarrow> keypair \<Rightarrow> eligibility_observation" where
  "sign_observation cr ob identity =
     (let ob = ob\<lparr>ob_observer := NodeId (kp_public_key identity)\<rparr>
      in ob\<lparr>ob_signature := sign_detached cr (kp_private_key identity) (observation_signing_digest cr ob)\<rparr>)"

section \<open>Participation challenges\<close>

record participation_challenge =
  pc_network_id :: digest
  pc_epoch :: u64
  pc_security_ruleset :: u16
  pc_consensus_ruleset :: u16
  pc_node_id :: node_id
  pc_incarnation :: u64
  pc_nonce :: digest
  pc_anchor_height :: u64
  pc_anchor_state :: digest
  pc_observer :: node_id

record participation_response =
  rs_challenge_digest :: digest
  rs_network_id :: digest
  rs_epoch :: u64
  rs_security_ruleset :: u16
  rs_consensus_ruleset :: u16
  rs_node_id :: node_id
  rs_incarnation :: u64
  rs_anchor_height :: u64
  rs_anchor_state :: digest
  rs_identity_signature :: sig

definition kChallengeDomain :: string where
  "kChallengeDomain = ''LEMONADE-NEXUS-T1-PARTICIPATION-CHALLENGE-V1''"
definition kResponseDomain :: string where
  "kResponseDomain = ''LEMONADE-NEXUS-T1-PARTICIPATION-RESPONSE-V1''"

definition challenge_stream :: "participation_challenge \<Rightarrow> byte list" where
  "challenge_stream c =
     (let e = canonical_encoder kChallengeDomain;
          e = add_digest e (pc_network_id c);
          e = add_u64 e (pc_epoch c);
          e = add_u16 e (pc_security_ruleset c);
          e = add_u16 e (pc_consensus_ruleset c);
          e = add_node e (pc_node_id c);
          e = add_u64 e (pc_incarnation c);
          e = add_digest e (pc_nonce c);
          e = add_u64 e (pc_anchor_height c);
          e = add_digest e (pc_anchor_state c)
      in add_node e (pc_observer c))"

definition participation_challenge_digest :: "crypto \<Rightarrow> participation_challenge \<Rightarrow> digest" where
  "participation_challenge_digest cr c = encoder_digest cr (challenge_stream c)"

definition participation_response_signing_digest :: "crypto \<Rightarrow> participation_response \<Rightarrow> digest" where
  "participation_response_signing_digest cr r =
     (let e = canonical_encoder kResponseDomain;
          e = add_digest e (rs_challenge_digest r);
          e = add_digest e (rs_network_id r);
          e = add_u64 e (rs_epoch r);
          e = add_u16 e (rs_security_ruleset r);
          e = add_u16 e (rs_consensus_ruleset r);
          e = add_node e (rs_node_id r);
          e = add_u64 e (rs_incarnation r);
          e = add_u64 e (rs_anchor_height r);
          e = add_digest e (rs_anchor_state r)
      in encoder_digest cr e)"

definition answer_participation_challenge ::
  "crypto \<Rightarrow> participation_challenge \<Rightarrow> keypair \<Rightarrow> participation_response" where
  "answer_participation_challenge cr c identity =
     (let r = \<lparr>rs_challenge_digest = participation_challenge_digest cr c,
               rs_network_id = pc_network_id c, rs_epoch = pc_epoch c,
               rs_security_ruleset = pc_security_ruleset c, rs_consensus_ruleset = pc_consensus_ruleset c,
               rs_node_id = NodeId (kp_public_key identity), rs_incarnation = pc_incarnation c,
               rs_anchor_height = pc_anchor_height c, rs_anchor_state = pc_anchor_state c,
               rs_identity_signature = 0\<rparr>
      in r\<lparr>rs_identity_signature :=
             sign_detached cr (kp_private_key identity) (participation_response_signing_digest cr r)\<rparr>)"

datatype participation_failure =
    PfNone | PfChallengeMismatch | PfNetworkMismatch | PfEpochMismatch | PfRulesetMismatch
  | PfIdentityMismatch | PfIncarnationMismatch | PfAnchorMismatch | PfSignatureInvalid

definition verify_participation_response ::
  "crypto \<Rightarrow> participation_response \<Rightarrow> participation_challenge \<Rightarrow> participation_failure" where
  "verify_participation_response cr r c =
     (if rs_challenge_digest r \<noteq> participation_challenge_digest cr c then PfChallengeMismatch
      else if rs_network_id r \<noteq> pc_network_id c then PfNetworkMismatch
      else if rs_epoch r \<noteq> pc_epoch c then PfEpochMismatch
      else if rs_security_ruleset r \<noteq> pc_security_ruleset c \<or>
              rs_consensus_ruleset r \<noteq> pc_consensus_ruleset c then PfRulesetMismatch
      else if rs_node_id r \<noteq> pc_node_id c then PfIdentityMismatch
      else if rs_incarnation r \<noteq> pc_incarnation c then PfIncarnationMismatch
      else if rs_anchor_height r \<noteq> pc_anchor_height c \<or> rs_anchor_state r \<noteq> pc_anchor_state c
        then PfAnchorMismatch
      else if \<not> verify_detached cr (node_bytes (rs_node_id r)) (participation_response_signing_digest cr r)
                 (rs_identity_signature r) then PfSignatureInvalid
      else PfNone)"

section \<open>The committed state\<close>

record eligibility_record =
  er_subject :: node_id
  er_incarnation :: u64
  er_uptime_valid :: bool
  er_mesh_health_valid :: bool
  er_certificate_valid :: bool
  er_platform_claims :: digest
  er_faults :: u32
  er_eligible :: bool

record eligibility_state =
  es_network_id :: digest
  es_epoch :: u64
  es_next_epoch :: u64
  es_security_ruleset :: u16
  es_consensus_ruleset :: u16
  es_observer_set :: digest
  es_quorum :: nat
  es_records :: "eligibility_record list"

definition kClaimsDomain :: string where
  "kClaimsDomain = ''lemonade-nexus/platform-claims:v1''"
definition kStateDomain :: string where
  "kStateDomain = ''lemonade-nexus/eligibility-state:v1''"
definition kCommitmentDomain :: string where
  "kCommitmentDomain = ''lemonade-nexus/eligibility-commit:v1''"

definition objective_fault_bit :: "objective_fault \<Rightarrow> u32" where
  "objective_fault_bit fault = push_bit (unat (fault_code fault)) 1"

definition platform_claims_digest :: "crypto \<Rightarrow> verified_platform_claims \<Rightarrow> digest" where
  "platform_claims_digest cr claims =
     (if \<not> platform_claims_are_consistent claims \<or> \<not> all_platform_claims_proved claims then 0
      else encoder_digest cr (encode_platform_claims (canonical_encoder kClaimsDomain) claims))"

definition add_eligibility_record :: "encoder \<Rightarrow> eligibility_record \<Rightarrow> encoder" where
  "add_eligibility_record e r =
     (let e = add_node e (er_subject r);
          e = add_u64 e (er_incarnation r);
          e = add_flag e (er_uptime_valid r);
          e = add_flag e (er_mesh_health_valid r);
          e = add_flag e (er_certificate_valid r);
          e = add_digest e (er_platform_claims r);
          e = add_u32 e (er_faults r)
      in add_flag e (er_eligible r))"

definition eligibility_state_stream :: "eligibility_state \<Rightarrow> byte list" where
  "eligibility_state_stream s =
     (let e = canonical_encoder kStateDomain;
          e = add_digest e (es_network_id s);
          e = add_u64 e (es_epoch s);
          e = add_u64 e (es_next_epoch s);
          e = add_u16 e (es_security_ruleset s);
          e = add_u16 e (es_consensus_ruleset s);
          e = add_digest e (es_observer_set s);
          e = add_u64 e (of_nat (es_quorum s));
          e = add_u64 e (of_nat (length (es_records s)))
      in foldl add_eligibility_record e (es_records s))"

definition eligibility_state_digest :: "crypto \<Rightarrow> eligibility_state \<Rightarrow> digest" where
  "eligibility_state_digest cr s = encoder_digest cr (eligibility_state_stream s)"

definition eligibility_commitment_stream :: "crypto \<Rightarrow> eligibility_state \<Rightarrow> byte list" where
  "eligibility_commitment_stream cr s =
     (let e = canonical_encoder kCommitmentDomain;
          e = add_digest e (es_network_id s);
          e = add_u64 e (es_epoch s);
          e = add_u64 e (es_next_epoch s)
      in add_digest e (eligibility_state_digest cr s))"

definition eligibility_commitment_digest :: "crypto \<Rightarrow> eligibility_state \<Rightarrow> digest" where
  "eligibility_commitment_digest cr s = encoder_digest cr (eligibility_commitment_stream cr s)"

definition eligible_nodes :: "eligibility_state \<Rightarrow> node_id list" where
  "eligible_nodes s = sort (map er_subject (filter er_eligible (es_records s)))"

section \<open>Streams determine their objects\<close>

lemma short_claim_fields:
  "short_fields (map (\<lambda>field. flag_bytes (fst field c)) fs)"
  by (induction fs) simp_all

text \<open>The field list of a claim set, as one block of a larger stream.\<close>

definition claim_block :: "verified_platform_claims \<Rightarrow> byte list list" where
  "claim_block c = le_bytes 2 (profile_code (cl_profile_id c)) # le_bytes 2 (cl_profile_ruleset c) #
     map (\<lambda>field. flag_bytes (fst field c)) kAllClaims"

lemma claim_block_facts [simp]:
  "length (claim_block c) = 16" "short_fields (claim_block c)" "claim_block c = claim_block d \<longleftrightarrow> c = d"
  by (simp_all only: claim_block_def claim_fields_inj short_fields_simps)
    (simp_all add: kAllClaims_def)

lemma observation_stream_fields:
  "observation_stream ob = field_stream
     ([string_bytes kObservationDomain, be_bytes 32 (ob_network_id ob), le_bytes 8 (ob_epoch ob),
       be_bytes 32 (node_bytes (ob_subject ob)), le_bytes 8 (ob_subject_incarnation ob),
       le_bytes 2 (kind_code (ob_kind ob)), be_bytes 32 (ob_attestation_digest ob)]
      @ claim_block (ob_claims ob)
      @ [le_bytes 8 (ob_height ob), be_bytes 32 (ob_state_reference ob),
         be_bytes 32 (node_bytes (ob_observer ob))])"
  by (simp add: observation_stream_def encoder_fields encode_platform_claims_fields
      flip: claim_block_def del: field_stream_simps)

lemma short_append: "short_fields (fs @ gs) \<longleftrightarrow> short_fields fs \<and> short_fields gs"
  by (auto simp: short_fields_def)

lemma observation_stream_eq_iff [stream_simps]:
  "observation_stream a = observation_stream b \<longleftrightarrow> a\<lparr>ob_signature := ob_signature b\<rparr> = b"
  unfolding observation_stream_fields
  by (cases a; cases b; subst field_stream_eq_iff)
    (simp_all add: short_append kObservationDomain_def stream_simps)

lemma challenge_stream_fields:
  "challenge_stream c = field_stream
     [string_bytes kChallengeDomain, be_bytes 32 (pc_network_id c), le_bytes 8 (pc_epoch c),
      le_bytes 2 (pc_security_ruleset c), le_bytes 2 (pc_consensus_ruleset c),
      be_bytes 32 (node_bytes (pc_node_id c)), le_bytes 8 (pc_incarnation c), be_bytes 32 (pc_nonce c),
      le_bytes 8 (pc_anchor_height c), be_bytes 32 (pc_anchor_state c),
      be_bytes 32 (node_bytes (pc_observer c))]"
  by (simp add: challenge_stream_def encoder_fields del: field_stream_simps)

lemma challenge_stream_eq_iff [stream_simps]: "challenge_stream a = challenge_stream b \<longleftrightarrow> a = b"
  unfolding challenge_stream_fields
  by (cases a; cases b; subst field_stream_eq_iff)
    (simp_all add: kChallengeDomain_def stream_simps conj_ac)

definition record_fields :: "eligibility_record \<Rightarrow> byte list list" where
  "record_fields r =
     [be_bytes 32 (node_bytes (er_subject r)), le_bytes 8 (er_incarnation r),
      flag_bytes (er_uptime_valid r), flag_bytes (er_mesh_health_valid r),
      flag_bytes (er_certificate_valid r), be_bytes 32 (er_platform_claims r),
      le_bytes 4 (er_faults r), flag_bytes (er_eligible r)]"

lemma add_eligibility_record_fields:
  "foldl add_eligibility_record (field_stream fs) rs = field_stream (fs @ concat (map record_fields rs))"
  by (induction rs arbitrary: fs)
    (simp_all add: add_eligibility_record_def add_flag_def record_fields_def encoder_fields
      del: field_stream_simps)

lemma record_fields_inj: "record_fields a @ xs = record_fields b @ ys \<longleftrightarrow> a = b \<and> xs = ys"
  by (cases a; cases b) (simp add: record_fields_def stream_simps)

lemma concat_record_fields_inj:
  "concat (map record_fields rs) = concat (map record_fields rs') \<longleftrightarrow> rs = rs'"
proof (induction rs arbitrary: rs')
  case Nil
  show ?case by (cases rs') (simp_all add: record_fields_def)
next
  case (Cons r rs)
  show ?case
  proof (cases rs')
    case Nil
    then show ?thesis by (simp add: record_fields_def)
  next
    case (Cons r' rs'')
    then show ?thesis using Cons.IH [of rs''] by (simp add: record_fields_inj)
  qed
qed

lemma short_record_fields: "short_fields (concat (map record_fields rs))"
  by (induction rs) (simp_all add: record_fields_def short_append)

lemma eligibility_state_stream_fields:
  "eligibility_state_stream s = field_stream
     ([string_bytes kStateDomain, be_bytes 32 (es_network_id s), le_bytes 8 (es_epoch s),
       le_bytes 8 (es_next_epoch s), le_bytes 2 (es_security_ruleset s), le_bytes 2 (es_consensus_ruleset s),
       be_bytes 32 (es_observer_set s), le_bytes 8 (of_nat (es_quorum s) :: u64),
       le_bytes 8 (of_nat (length (es_records s)) :: u64)]
      @ concat (map record_fields (es_records s)))"
  by (simp add: eligibility_state_stream_def encoder_fields add_eligibility_record_fields
      del: field_stream_simps)

lemma eligibility_state_stream_eq_iff:
  assumes "es_quorum a < 2 ^ 64" and "es_quorum b < 2 ^ 64"
  shows "eligibility_state_stream a = eligibility_state_stream b \<longleftrightarrow> a = b"
proof -
  have "unat (of_nat n :: u64) = n" if "n < 2 ^ 64" for n
    using that by (simp add: unat_of_nat take_bit_eq_mod)
  then have q: "(of_nat (es_quorum a) :: u64) = of_nat (es_quorum b) \<longleftrightarrow> es_quorum a = es_quorum b"
    using assms by metis
  show ?thesis
    unfolding eligibility_state_stream_fields using q
    by (cases a; cases b; subst field_stream_eq_iff)
      (auto simp: short_append short_record_fields concat_record_fields_inj kStateDomain_def stream_simps)
qed

lemma eligibility_commitment_stream_fields:
  "eligibility_commitment_stream cr s = field_stream
     [string_bytes kCommitmentDomain, be_bytes 32 (es_network_id s), le_bytes 8 (es_epoch s),
      le_bytes 8 (es_next_epoch s), be_bytes 32 (eligibility_state_digest cr s)]"
  by (simp add: eligibility_commitment_stream_def encoder_fields del: field_stream_simps)

lemma eligibility_commitment_stream_eq_iff:
  "eligibility_commitment_stream cr a = eligibility_commitment_stream cr b \<longleftrightarrow>
     es_network_id a = es_network_id b \<and> es_epoch a = es_epoch b \<and> es_next_epoch a = es_next_epoch b \<and>
     eligibility_state_digest cr a = eligibility_state_digest cr b"
  unfolding eligibility_commitment_stream_fields
  by (subst field_stream_eq_iff) (simp_all add: kCommitmentDomain_def stream_simps)

text \<open>The byte streams behind one commitment.\<close>

definition commitment_streams :: "crypto \<Rightarrow> eligibility_state \<Rightarrow> byte list set" where
  "commitment_streams cr s = {eligibility_state_stream s, eligibility_commitment_stream cr s}"

lemma commitment_determines_state:
  assumes "collision_free cr (commitment_streams cr a \<union> commitment_streams cr b)"
    and "es_quorum a < 2 ^ 64" and "es_quorum b < 2 ^ 64"
    and "eligibility_commitment_digest cr a = eligibility_commitment_digest cr b"
  shows "a = b"
proof -
  have "eligibility_commitment_stream cr a = eligibility_commitment_stream cr b"
    using collision_freeD [OF assms(1), of "eligibility_commitment_stream cr a" "eligibility_commitment_stream cr b"]
      assms(4)
    by (simp add: eligibility_commitment_digest_def encoder_digest_def commitment_streams_def)
  then have "eligibility_state_digest cr a = eligibility_state_digest cr b"
    by (simp add: eligibility_commitment_stream_eq_iff)
  then have "eligibility_state_stream a = eligibility_state_stream b"
    using collision_freeD [OF assms(1), of "eligibility_state_stream a" "eligibility_state_stream b"]
    by (simp add: eligibility_state_digest_def encoder_digest_def commitment_streams_def)
  then show ?thesis using assms(2,3) by (simp add: eligibility_state_stream_eq_iff)
qed

lemma sign_observation_valid:
  assumes "signs_for cr (kp_private_key identity) (kp_public_key identity)"
  shows "observation_signature_valid cr (sign_observation cr ob identity)"
proof -
  have "observation_signing_digest cr (o'\<lparr>ob_signature := s\<rparr>) = observation_signing_digest cr o'" for o' s
    by (simp add: observation_signing_digest_def observation_stream_def)
  then show ?thesis
    using assms by (simp add: observation_signature_valid_def sign_observation_def signs_for_def Let_def)
qed

section \<open>Properties\<close>

text \<open>A participation answer fits its challenge and no other: the answer a node gives to a challenge
  that names it verifies against exactly that challenge, so an answer harvested for one nonce, anchor,
  observer, epoch or network proves nothing to any other.\<close>

theorem participation_answer_binding:
  assumes "signs_for cr (kp_private_key identity) (kp_public_key identity)"
    and "pc_node_id c = NodeId (kp_public_key identity)"
    and "collision_free cr {challenge_stream c, challenge_stream c'}"
  shows "verify_participation_response cr (answer_participation_challenge cr c identity) c' = PfNone \<longleftrightarrow>
    c' = c"
proof -
  let ?r = "answer_participation_challenge cr c identity"
  have "verify_participation_response cr ?r c = PfNone"
    using assms(1,2)
    by (simp add: verify_participation_response_def answer_participation_challenge_def Let_def signs_for_def
        participation_response_signing_digest_def)
  moreover have "c' = c" if "verify_participation_response cr ?r c' = PfNone"
  proof -
    from that have "participation_challenge_digest cr c = participation_challenge_digest cr c'"
      by (auto simp: verify_participation_response_def answer_participation_challenge_def Let_def
          split: if_splits)
    then show ?thesis
      using collision_freeD [OF assms(3), of "challenge_stream c'" "challenge_stream c"]
      by (simp add: participation_challenge_digest_def encoder_digest_def challenge_stream_eq_iff)
  qed
  ultimately show ?thesis by blast
qed

definition example_challenge :: "digest \<Rightarrow> participation_challenge" where
  "example_challenge nonce =
     \<lparr>pc_network_id = 1, pc_epoch = 2, pc_security_ruleset = 1, pc_consensus_ruleset = 1,
      pc_node_id = NodeId 7, pc_incarnation = 1, pc_nonce = nonce, pc_anchor_height = 4,
      pc_anchor_state = 5, pc_observer = NodeId 8\<rparr>"

definition example_challenges :: crypto where
  "example_challenges = example_crypto (map challenge_stream [example_challenge 3, example_challenge 6])"

theorem participation_answer_binding_witness:
  "verify_participation_response example_challenges
     (answer_participation_challenge example_challenges (example_challenge 3)
        \<lparr>kp_public_key = 7, kp_private_key = []\<rparr>) (example_challenge 6) \<noteq> PfNone"
proof -
  have "collision_free example_challenges
      {challenge_stream (example_challenge 3), challenge_stream (example_challenge 6)}"
    unfolding example_challenges_def by (rule example_collision_free) simp_all
  moreover have "signs_for example_challenges [] 7" by (simp add: example_challenges_def)
  moreover have "example_challenge 6 \<noteq> example_challenge 3" by (simp add: example_challenge_def)
  ultimately show ?thesis
    using participation_answer_binding [of example_challenges "\<lparr>kp_public_key = 7, kp_private_key = []\<rparr>"
        "example_challenge 3" "example_challenge 6"]
    by (simp add: example_challenge_def)
qed

text \<open>C35. The eligibility commitment binds the whole state: where the hash does not collide on the
  streams behind two commitments, equal commitments mean equal states, hence the same facts about every
  candidate and the same eligible nodes.\<close>

theorem eligibility_commitment_binding:
  assumes "collision_free cr (commitment_streams cr a \<union> commitment_streams cr b)"
    and "es_quorum a < 2 ^ 64" and "es_quorum b < 2 ^ 64"
  shows "(eligibility_commitment_digest cr a = eligibility_commitment_digest cr b \<longleftrightarrow> a = b) \<and>
    (eligibility_commitment_digest cr a = eligibility_commitment_digest cr b \<longrightarrow>
       eligible_nodes a = eligible_nodes b)"
  using commitment_determines_state [OF assms] by auto

definition example_state :: "bool \<Rightarrow> eligibility_state" where
  "example_state b =
     \<lparr>es_network_id = 1, es_epoch = 2, es_next_epoch = 3, es_security_ruleset = 1,
      es_consensus_ruleset = 1, es_observer_set = 9, es_quorum = 4,
      es_records = [\<lparr>er_subject = NodeId 7, er_incarnation = 1, er_uptime_valid = b,
        er_mesh_health_valid = True, er_certificate_valid = True, er_platform_claims = 5,
        er_faults = 0, er_eligible = b\<rparr>]\<rparr>"

definition commitment_fields :: "digest \<Rightarrow> byte list" where
  "commitment_fields d = field_stream [string_bytes kCommitmentDomain, be_bytes 32 (1 :: digest),
     le_bytes 8 (2 :: u64), le_bytes 8 (3 :: u64), be_bytes 32 d]"

definition example_commitments :: crypto where
  "example_commitments = example_crypto [commitment_fields 2, commitment_fields 1,
     eligibility_state_stream (example_state True), eligibility_state_stream (example_state False)]"

lemma example_commitment_facts:
  shows "eligibility_commitment_stream example_commitments (example_state True) = commitment_fields 2"
    and "eligibility_commitment_stream example_commitments (example_state False) = commitment_fields 1"
proof -
  have states: "eligibility_state_stream (example_state b) \<noteq> commitment_fields d" for b d
    unfolding commitment_fields_def eligibility_state_stream_fields
    by (subst field_stream_eq_iff)
      (simp_all add: short_append short_record_fields kStateDomain_def kCommitmentDomain_def stream_simps)
  have ne: "eligibility_state_stream (example_state False) \<noteq> eligibility_state_stream (example_state True)"
    by (subst eligibility_state_stream_eq_iff) (simp_all add: example_state_def)
  have "eligibility_state_digest example_commitments (example_state True) = 2"
    and "eligibility_state_digest example_commitments (example_state False) = 1"
    using states ne
    by (simp_all add: eligibility_state_digest_def encoder_digest_def example_commitments_def example_simps)
  then show "eligibility_commitment_stream example_commitments (example_state True) = commitment_fields 2"
    and "eligibility_commitment_stream example_commitments (example_state False) = commitment_fields 1"
    by (simp_all add: eligibility_commitment_stream_fields commitment_fields_def example_state_def
        del: field_stream_simps)
qed

theorem eligibility_commitment_binding_witness:
  "eligibility_commitment_digest example_commitments (example_state True) \<noteq>
   eligibility_commitment_digest example_commitments (example_state False)"
proof -
  have "collision_free example_commitments (commitment_streams example_commitments (example_state True) \<union>
      commitment_streams example_commitments (example_state False))"
    unfolding commitment_streams_def example_commitment_facts
    unfolding example_commitments_def by (rule example_collision_free) auto
  moreover have "example_state True \<noteq> example_state False" by (simp add: example_state_def)
  moreover have "es_quorum (example_state b) < 2 ^ 64" for b by (simp add: example_state_def)
  ultimately show ?thesis
    using eligibility_commitment_binding [of example_commitments "example_state True" "example_state False"]
    by blast
qed

end
