(* ===== verification/Authority_Chain.thy ===== *)
theory Authority_Chain
  imports Quorum_Validation Eligibility_Types Epoch_Types
begin

text \<open>
  \<^verbatim>\<open>Security/Genesis/BootstrapCertificate.cpp\<close>, \<^verbatim>\<open>Security/Epoch/AuthorityChain.cpp\<close> and
  \<^verbatim>\<open>Tier1Membership.cpp\<close>: the line of trust from the pinned Genesis key through one finalized handoff
  per epoch, the walker a client or a joining server runs over pages of candidate data, and the
  endpoint proof by which a member shows where it answers. The lemmas show that every authority a
  walker holds is well formed and reached link by link, and that two walkers of one Genesis key agree
  on every epoch as long as no epoch committed two handoffs.
\<close>

section \<open>The bootstrap certificate\<close>

definition kNetworkIdDomain :: string where "kNetworkIdDomain = ''lemonade-nexus/network-id:v1''"
definition kBootstrapDomain :: string where
  "kBootstrapDomain = ''lemonade-nexus/bootstrap-certificate:v2''"

definition derive_network_id :: "crypto \<Rightarrow> pubkey \<Rightarrow> u16 \<Rightarrow> u16 \<Rightarrow> digest" where
  "derive_network_id cr genesis_public_key security_ruleset consensus_ruleset =
     (let e = canonical_encoder kNetworkIdDomain;
          e = add_digest e genesis_public_key;
          e = add_u16 e security_ruleset;
          e = add_u16 e consensus_ruleset
      in encoder_digest cr e)"

record bootstrap_certificate =
  bc_network_id :: digest
  bc_epoch :: u64
  bc_tier1_set_digest :: digest
  bc_authority_threshold :: nat
  bc_authority_public_key :: pubkey
  bc_dkg_transcript_digest :: digest
  bc_attestation_root :: digest
  bc_founding_eligibility_digest :: digest
  bc_vote_key_set_digest :: digest
  bc_release_approval_digest :: digest
  bc_security_ruleset :: u16
  bc_consensus_ruleset :: u16
  bc_genesis_signature :: sig

definition bootstrap_certificate_stream :: "bootstrap_certificate \<Rightarrow> byte list" where
  "bootstrap_certificate_stream c =
     (let e = canonical_encoder kBootstrapDomain;
          e = add_digest e (bc_network_id c);
          e = add_u64 e (bc_epoch c);
          e = add_digest e (bc_tier1_set_digest c);
          e = add_u64 e (of_nat (bc_authority_threshold c));
          e = add_digest e (bc_authority_public_key c);
          e = add_digest e (bc_dkg_transcript_digest c);
          e = add_digest e (bc_attestation_root c);
          e = add_digest e (bc_founding_eligibility_digest c);
          e = add_digest e (bc_vote_key_set_digest c);
          e = add_digest e (bc_release_approval_digest c);
          e = add_u16 e (bc_security_ruleset c)
      in add_u16 e (bc_consensus_ruleset c))"

definition bootstrap_certificate_signing_digest :: "crypto \<Rightarrow> bootstrap_certificate \<Rightarrow> digest" where
  "bootstrap_certificate_signing_digest cr c = encoder_digest cr (bootstrap_certificate_stream c)"

definition verify_bootstrap_certificate :: "crypto \<Rightarrow> bootstrap_certificate \<Rightarrow> pubkey \<Rightarrow> bool" where
  "verify_bootstrap_certificate cr c genesis_public_key =
     (let d = bootstrap_certificate_signing_digest cr c
      in verify_detached cr genesis_public_key d (bc_genesis_signature c))"

section \<open>Verified epoch authorities\<close>

record verified_epoch_authority =
  au_network_id :: digest
  au_epoch :: u64
  au_members :: "node_id list"
  au_incarnations :: "(node_id, u64) smap"
  au_vote_keys :: "(node_id, pubkey) smap"
  au_consensus_quorum :: nat
  au_authority_threshold :: nat
  au_security_ruleset :: u16
  au_consensus_ruleset :: u16
  au_group_public_key :: pubkey
  au_key_generation :: u64
  au_attestation_root :: digest
  au_checkpoint :: digest
  au_previous_anchor :: digest
  au_anchor_digest :: digest

definition kVerifiedAuthorityDomain :: string where
  "kVerifiedAuthorityDomain = ''lemonade-nexus/verified-epoch-authority:v1''"

definition verified_epoch_authority_digest :: "crypto \<Rightarrow> verified_epoch_authority \<Rightarrow> digest" where
  "verified_epoch_authority_digest cr a =
     (let e = canonical_encoder kVerifiedAuthorityDomain;
          e = add_digest e (au_network_id a);
          e = add_u64 e (au_epoch a);
          e = add_u64 e (of_nat (length (au_members a)));
          e = foldl (add_incarnation (au_incarnations a)) e (au_members a);
          e = add_digest e (vote_key_set_digest cr (au_vote_keys a));
          e = add_u64 e (of_nat (au_consensus_quorum a));
          e = add_u64 e (of_nat (au_authority_threshold a));
          e = add_u16 e (au_security_ruleset a);
          e = add_u16 e (au_consensus_ruleset a);
          e = add_digest e (au_group_public_key a);
          e = add_u64 e (au_key_generation a);
          e = add_digest e (au_attestation_root a);
          e = add_digest e (au_checkpoint a);
          e = add_digest e (au_previous_anchor a);
          e = add_digest e (au_anchor_digest a)
      in encoder_digest cr e)"

text \<open>Epoch 1: the pinned signature, then the listing by its digests. The map keeps the last key given
  for a node; a listing that repeats a node is refused by \<open>from_nodes\<close>.\<close>

definition listed_keys :: "(node_id \<times> pubkey) list \<Rightarrow> (node_id, pubkey) smap" where
  "listed_keys listing = foldl (\<lambda>keys (node, key). smap_put node key keys) [] listing"

definition epoch_one_authority ::
  "crypto \<Rightarrow> bootstrap_certificate \<Rightarrow> tier1_set \<Rightarrow> (node_id, pubkey) smap \<Rightarrow> verified_epoch_authority" where
  "epoch_one_authority cr c founders keys =
     \<lparr>au_network_id = bc_network_id c, au_epoch = 1, au_members = founders,
      au_incarnations = foldl (\<lambda>m node. smap_put node 1 m) [] founders,
      au_vote_keys = keys,
      au_consensus_quorum = consensus_quorum (length founders),
      au_authority_threshold = bc_authority_threshold c,
      au_security_ruleset = bc_security_ruleset c,
      au_consensus_ruleset = bc_consensus_ruleset c,
      au_group_public_key = bc_authority_public_key c, au_key_generation = 1,
      au_attestation_root = bc_attestation_root c,
      au_checkpoint = bootstrap_certificate_signing_digest cr c,
      au_previous_anchor = 0,
      au_anchor_digest = bootstrap_certificate_signing_digest cr c\<rparr>"

definition verify_epoch_one_authority ::
  "crypto \<Rightarrow> bootstrap_certificate \<Rightarrow> pubkey \<Rightarrow> (node_id \<times> pubkey) list \<Rightarrow> verified_epoch_authority option" where
  "verify_epoch_one_authority cr c genesis_public_key founder_vote_keys =
     (if \<not> verify_bootstrap_certificate cr c genesis_public_key then None
      else if bc_epoch c \<noteq> 1 \<or> bc_security_ruleset c \<noteq> kSecurityRulesetVersion \<or>
              bc_consensus_ruleset c \<noteq> kConsensusRulesetVersion then None
      else let keys = listed_keys founder_vote_keys
           in case from_nodes (map fst founder_vote_keys) of
                None \<Rightarrow> None
              | Some founders \<Rightarrow>
                  if length keys \<noteq> length founders \<or>
                     tier1_set_digest cr founders \<noteq> bc_tier1_set_digest c \<or>
                     vote_key_set_digest cr keys \<noteq> bc_vote_key_set_digest c then None
                  else if bc_authority_threshold c \<noteq> authority_threshold (length founders) then None
                  else Some (epoch_one_authority cr c founders keys))"

datatype handoff_chain_failure =
    HcNone | HcWrongNetwork | HcRulesetMismatch | WrongEpochs | LinkageBroken | MembershipInvalid
  | KeyReuse | KeyGenerationInvalid | ProofInvalid

definition vote_key_repeated :: "(node_id, pubkey) smap \<Rightarrow> (node_id, pubkey) smap \<Rightarrow> bool" where
  "vote_key_repeated keys previous \<longleftrightarrow>
     list_ex (\<lambda>(node, key). list_ex (\<lambda>(previous_node, previous_key). key = previous_key) previous) keys"

definition authority_context :: "verified_epoch_authority \<Rightarrow> qc_validation_context" where
  "authority_context a =
     \<lparr>vc_consensus_ruleset = kConsensusRulesetVersion, vc_network_id = au_network_id a,
      vc_epoch = au_epoch a, vc_quorum = au_consensus_quorum a\<rparr>"

definition successor_authority ::
  "crypto \<Rightarrow> verified_epoch_authority \<Rightarrow> epoch_handoff \<Rightarrow> commit_proof \<Rightarrow> tier1_set
     \<Rightarrow> verified_epoch_authority" where
  "successor_authority cr previous h pr members =
     \<lparr>au_network_id = au_network_id previous, au_epoch = ho_to_epoch h, au_members = members,
      au_incarnations = ho_incarnations h, au_vote_keys = ho_vote_keys h,
      au_consensus_quorum = consensus_quorum (length members),
      au_authority_threshold = authority_threshold (length members),
      au_security_ruleset = ho_security_ruleset h,
      au_consensus_ruleset = ho_consensus_ruleset h,
      au_group_public_key = ho_group_public_key h, au_key_generation = ho_key_generation h,
      au_attestation_root = ho_attestation_root h,
      au_checkpoint = qc_digest cr (cb_justify (cp_chain pr ! 1)),
      au_previous_anchor = au_anchor_digest previous,
      au_anchor_digest = epoch_handoff_digest cr h\<rparr>"

definition advance_epoch_authority ::
  "crypto \<Rightarrow> verified_epoch_authority \<Rightarrow> epoch_handoff \<Rightarrow> commit_proof
     \<Rightarrow> handoff_chain_failure + verified_epoch_authority" where
  "advance_epoch_authority cr previous h pr =
     (if ho_network_id h \<noteq> au_network_id previous then Inl HcWrongNetwork
      else if ho_security_ruleset h \<noteq> kSecurityRulesetVersion \<or>
              ho_consensus_ruleset h \<noteq> kConsensusRulesetVersion then Inl HcRulesetMismatch
      else if ho_from_epoch h \<noteq> au_epoch previous \<or> ho_to_epoch h \<noteq> au_epoch previous + 1
        then Inl WrongEpochs
      else if ho_previous_anchor h \<noteq> au_anchor_digest previous then Inl LinkageBroken
      else case from_nodes (ho_members h) of
             None \<Rightarrow> Inl MembershipInvalid
           | Some members \<Rightarrow>
               if length members < kMinActiveTier1 \<or> length (ho_vote_keys h) \<noteq> length members \<or>
                  length (ho_incarnations h) \<noteq> length members then Inl MembershipInvalid
               else if list_ex (\<lambda>node. \<not> smap_has (ho_vote_keys h) node \<or>
                                       \<not> smap_has (ho_incarnations h) node) members
                 then Inl MembershipInvalid
               else if ho_group_public_key h = au_group_public_key previous then Inl KeyReuse
               else if vote_key_repeated (ho_vote_keys h) (au_vote_keys previous) then Inl KeyReuse
               else if ho_key_generation h \<noteq> ho_to_epoch h then Inl KeyGenerationInvalid
               else if verify_commit_proof cr (epoch_handoff_digest cr h) pr
                         (authority_context previous) (au_vote_keys previous) \<noteq> CpNone
                 then Inl ProofInvalid
               else Inr (successor_authority cr previous h pr members))"

section \<open>The walker\<close>

record handoff_proof_msg =
  hp_handoff :: epoch_handoff
  hp_proof :: commit_proof

record authority_chain_page =
  pg_has_base :: bool
  pg_base_certificate :: bootstrap_certificate
  pg_base_vote_keys :: "(node_id \<times> pubkey) list"
  pg_links :: "handoff_proof_msg list"

datatype chain_page_result = Advanced | NoProgress | Refused

record authority_chain_walker =
  wk_genesis_public_key :: pubkey
  wk_network_id :: digest
  wk_epoch_one_anchor :: digest
  wk_authority :: "verified_epoch_authority option"

definition walker_init :: "crypto \<Rightarrow> pubkey \<Rightarrow> authority_chain_walker" where
  "walker_init cr genesis_public_key =
     \<lparr>wk_genesis_public_key = genesis_public_key,
      wk_network_id = derive_network_id cr genesis_public_key kSecurityRulesetVersion kConsensusRulesetVersion,
      wk_epoch_one_anchor = 0, wk_authority = None\<rparr>"

definition walker_epoch :: "authority_chain_walker \<Rightarrow> u64" where
  "walker_epoch w = (case wk_authority w of None \<Rightarrow> 0 | Some a \<Rightarrow> au_epoch a)"

text \<open>The loop over the links: whether it ran to the end, and the authority it left.\<close>

fun walk_links ::
  "crypto \<Rightarrow> verified_epoch_authority \<Rightarrow> handoff_proof_msg list \<Rightarrow> bool \<times> verified_epoch_authority" where
  "walk_links cr a [] = (True, a)"
| "walk_links cr a (link # links) =
     (if ho_from_epoch (hp_handoff link) < au_epoch a then walk_links cr a links
      else if ho_from_epoch (hp_handoff link) \<noteq> au_epoch a then (False, a)
      else case advance_epoch_authority cr a (hp_handoff link) (hp_proof link) of
             Inl _ \<Rightarrow> (False, a)
           | Inr advanced \<Rightarrow> walk_links cr advanced links)"

text \<open>The base of a page: \<open>None\<close> is the refusal.\<close>

definition apply_base ::
  "crypto \<Rightarrow> authority_chain_walker \<Rightarrow> authority_chain_page \<Rightarrow> authority_chain_walker option" where
  "apply_base cr w page =
     (let base_anchor = bootstrap_certificate_signing_digest cr (pg_base_certificate page)
      in case wk_authority w of
           Some _ \<Rightarrow> if base_anchor \<noteq> wk_epoch_one_anchor w then None else Some w
         | None \<Rightarrow>
             if bc_network_id (pg_base_certificate page) \<noteq> wk_network_id w then None
             else (case verify_epoch_one_authority cr (pg_base_certificate page)
                          (wk_genesis_public_key w) (pg_base_vote_keys page) of
                     None \<Rightarrow> None
                   | Some base \<Rightarrow>
                       Some (w\<lparr>wk_epoch_one_anchor := base_anchor, wk_authority := Some base\<rparr>)))"

definition apply_page ::
  "crypto \<Rightarrow> authority_chain_walker \<Rightarrow> authority_chain_page \<Rightarrow> chain_page_result \<times> authority_chain_walker" where
  "apply_page cr w page =
     (let before = walker_epoch w
      in case (if pg_has_base page then apply_base cr w page else Some w) of
           None \<Rightarrow> (Refused, w)
         | Some w \<Rightarrow>
             (case wk_authority w of
                None \<Rightarrow> (Refused, w)
              | Some a \<Rightarrow>
                  (case walk_links cr a (pg_links page) of
                     (complete, a) \<Rightarrow>
                       let w = w\<lparr>wk_authority := Some a\<rparr>
                       in (if \<not> complete then Refused
                           else if walker_epoch w > before then Advanced else NoProgress, w))))"

definition walk_pages ::
  "crypto \<Rightarrow> authority_chain_walker \<Rightarrow> authority_chain_page list \<Rightarrow> authority_chain_walker" where
  "walk_pages cr w pages = foldl (\<lambda>w page. snd (apply_page cr w page)) w pages"

section \<open>Endpoint proofs\<close>

definition kTier1EndpointProofDomain :: string where
  "kTier1EndpointProofDomain = ''lemonade-nexus/tier1-endpoint-proof:v1''"

definition kTier1EndpointNonceBytes :: nat where "kTier1EndpointNonceBytes = 32"

text \<open>\<^verbatim>\<open>std::tolower\<close> in the C locale, which the program does not change.\<close>

definition tolower :: "char \<Rightarrow> char" where
  "tolower c = (if 65 \<le> (of_char c :: nat) \<and> (of_char c :: nat) \<le> 90 then char_of ((of_char c :: nat) + 32) else c)"

definition same_host :: "string \<Rightarrow> string \<Rightarrow> bool" where
  "same_host a b \<longleftrightarrow> length a = length b \<and> list_all2 (\<lambda>x y. tolower x = tolower y) a b"

record tier1_endpoint_proof =
  tp_node :: node_id
  tp_epoch :: u64
  tp_host :: string
  tp_port :: u16
  tp_signature :: sig

definition tier1_endpoint_proof_stream ::
  "digest \<Rightarrow> u64 \<Rightarrow> node_id \<Rightarrow> string \<Rightarrow> u16 \<Rightarrow> byte list \<Rightarrow> byte list" where
  "tier1_endpoint_proof_stream network epoch node host port nonce =
     (let e = canonical_encoder kTier1EndpointProofDomain;
          e = add_digest e network;
          e = add_u64 e epoch;
          e = add_node e node;
          e = add_string e (map tolower host);
          e = add_u16 e port
      in add_bytes e nonce)"

definition tier1_endpoint_proof_digest ::
  "crypto \<Rightarrow> digest \<Rightarrow> u64 \<Rightarrow> node_id \<Rightarrow> string \<Rightarrow> u16 \<Rightarrow> byte list \<Rightarrow> digest" where
  "tier1_endpoint_proof_digest cr network epoch node host port nonce =
     encoder_digest cr (tier1_endpoint_proof_stream network epoch node host port nonce)"

definition sign_tier1_endpoint_proof ::
  "crypto \<Rightarrow> digest \<Rightarrow> u64 \<Rightarrow> string \<Rightarrow> u16 \<Rightarrow> byte list \<Rightarrow> keypair \<Rightarrow> tier1_endpoint_proof" where
  "sign_tier1_endpoint_proof cr network epoch host port nonce identity =
     (let node = NodeId (kp_public_key identity);
          d = tier1_endpoint_proof_digest cr network epoch node host port nonce
      in \<lparr>tp_node = node, tp_epoch = epoch, tp_host = host, tp_port = port,
          tp_signature = sign_detached cr (kp_private_key identity) d\<rparr>)"

datatype endpoint_proof_check =
  EpValid | BadNonce | NotMember | OlderEpoch | NewerEpoch | WrongEndpoint | BadSignature

definition check_tier1_endpoint_proof ::
  "crypto \<Rightarrow> verified_epoch_authority \<Rightarrow> tier1_endpoint_proof \<Rightarrow> string \<Rightarrow> u16 \<Rightarrow> byte list
     \<Rightarrow> endpoint_proof_check" where
  "check_tier1_endpoint_proof cr a pr host port nonce =
     (if length nonce \<noteq> kTier1EndpointNonceBytes then BadNonce
      else if tp_node pr \<notin> set (au_members a) then NotMember
      else let d = tier1_endpoint_proof_digest cr (au_network_id a) (tp_epoch pr) (tp_node pr) (tp_host pr)
                     (tp_port pr) nonce
           in if \<not> verify_detached cr (node_bytes (tp_node pr)) d (tp_signature pr) then BadSignature
              else if tp_epoch pr < au_epoch a then OlderEpoch
              else if tp_epoch pr > au_epoch a then NewerEpoch
              else if tp_port pr \<noteq> port \<or> \<not> same_host (tp_host pr) host then WrongEndpoint
              else EpValid)"

section \<open>What one link gives\<close>

text \<open>A listing covers the members: one entry per member and no other.\<close>

lemma covering_map_dom:
  assumes "smap_ok m" and "length m = length xs" and "distinct xs" and "\<forall>x \<in> set xs. smap_has m x"
  shows "fst ` set m = set xs"
proof -
  have "distinct (map fst m)" using assms(1) by (rule smap_ok_distinct)
  then have "card (fst ` set m) = length m"
    using distinct_card [of "map fst m"] by simp
  moreover have "card (set xs) = length xs" using assms(3) by (rule distinct_card)
  moreover have "set xs \<subseteq> fst ` set m"
    using assms(4) by (auto simp: map_of_eq_None_iff)
  ultimately show ?thesis using assms(2) by (intro card_subset_eq [symmetric]) simp_all
qed

lemma advance_epoch_authority_Inr:
  assumes "advance_epoch_authority cr a h pr = Inr n"
  obtains members where "from_nodes (ho_members h) = Some members"
    and "n = successor_authority cr a h pr members"
    and "ho_network_id h = au_network_id a" and "ho_from_epoch h = au_epoch a"
    and "ho_to_epoch h = au_epoch a + 1" and "ho_previous_anchor h = au_anchor_digest a"
    and "ho_security_ruleset h = kSecurityRulesetVersion" "ho_consensus_ruleset h = kConsensusRulesetVersion"
    and "kMinActiveTier1 \<le> length members" and "length (ho_vote_keys h) = length members"
    and "length (ho_incarnations h) = length members"
    and "\<forall>n \<in> set members. smap_has (ho_vote_keys h) n" "\<forall>n \<in> set members. smap_has (ho_incarnations h) n"
    and "ho_group_public_key h \<noteq> au_group_public_key a"
    and "\<not> vote_key_repeated (ho_vote_keys h) (au_vote_keys a)"
    and "ho_key_generation h = ho_to_epoch h"
    and "verify_commit_proof cr (epoch_handoff_digest cr h) pr (authority_context a) (au_vote_keys a) = CpNone"
  using assms unfolding advance_epoch_authority_def
  by (auto simp: list_ex_iff not_less split: if_splits option.splits)

text \<open>Well-formed authorities: the membership is a Tier 1 set, the listings cover exactly the members,
  quorum and threshold are the compiled formulas, and the rules are the binary's own.\<close>

definition authority_ok :: "verified_epoch_authority \<Rightarrow> bool" where
  "authority_ok a \<longleftrightarrow>
     sorted (au_members a) \<and> distinct (au_members a) \<and>
     smap_ok (au_vote_keys a) \<and> fst ` set (au_vote_keys a) = set (au_members a) \<and>
     smap_ok (au_incarnations a) \<and> fst ` set (au_incarnations a) = set (au_members a) \<and>
     au_consensus_quorum a = consensus_quorum (length (au_members a)) \<and>
     au_authority_threshold a = authority_threshold (length (au_members a)) \<and>
     au_security_ruleset a = kSecurityRulesetVersion \<and> au_consensus_ruleset a = kConsensusRulesetVersion \<and>
     au_key_generation a = au_epoch a"

definition handoff_maps_ok :: "epoch_handoff \<Rightarrow> bool" where
  "handoff_maps_ok h \<longleftrightarrow> smap_ok (ho_vote_keys h) \<and> smap_ok (ho_incarnations h)"

lemma listed_keys_ok: "smap_ok (listed_keys listing)" "fst ` set (listed_keys listing) = fst ` set listing"
  using foldl_smap_put [of "[]" fst snd listing] by (simp_all add: listed_keys_def case_prod_unfold)

lemma unit_incarnations_ok:
  "smap_ok (foldl (\<lambda>m node. smap_put node v m) [] nodes)"
  "fst ` set (foldl (\<lambda>m node. smap_put node v m) [] nodes) = set nodes"
  using foldl_smap_put [of "[]" "\<lambda>x. x" "\<lambda>_. v" nodes] by simp_all

lemma verify_epoch_one_authority_Some:
  assumes "verify_epoch_one_authority cr c g listing = Some a"
  obtains founders where "from_nodes (map fst listing) = Some founders"
    and "verify_bootstrap_certificate cr c g"
    and "tier1_set_digest cr founders = bc_tier1_set_digest c"
    and "vote_key_set_digest cr (listed_keys listing) = bc_vote_key_set_digest c"
    and "bc_authority_threshold c = authority_threshold (length founders)"
    and "bc_security_ruleset c = kSecurityRulesetVersion" and "bc_consensus_ruleset c = kConsensusRulesetVersion"
    and "a = epoch_one_authority cr c founders (listed_keys listing)"
  using assms unfolding verify_epoch_one_authority_def Let_def
  by (auto split: if_splits option.splits)

lemma epoch_one_authority_ok:
  assumes "verify_epoch_one_authority cr c g listing = Some a"
  shows "authority_ok a"
  using assms
proof (rule verify_epoch_one_authority_Some)
  fix founders
  assume founders: "from_nodes (map fst listing) = Some founders"
    and rules: "bc_authority_threshold c = authority_threshold (length founders)"
      "bc_security_ruleset c = kSecurityRulesetVersion" "bc_consensus_ruleset c = kConsensusRulesetVersion"
    and a: "a = epoch_one_authority cr c founders (listed_keys listing)"
  show ?thesis
    unfolding a epoch_one_authority_def authority_ok_def
    using rules from_nodes_Some [OF founders] by (simp add: listed_keys_ok unit_incarnations_ok)
qed

lemma advance_epoch_authority_ok:
  assumes "advance_epoch_authority cr a h pr = Inr n" and "handoff_maps_ok h"
  shows "authority_ok n"
  using assms(1)
proof (rule advance_epoch_authority_Inr)
  fix members
  assume m: "from_nodes (ho_members h) = Some members"
    and n: "n = successor_authority cr a h pr members"
    and facts: "ho_security_ruleset h = kSecurityRulesetVersion" "ho_consensus_ruleset h = kConsensusRulesetVersion"
      "length (ho_vote_keys h) = length members" "length (ho_incarnations h) = length members"
      "\<forall>n \<in> set members. smap_has (ho_vote_keys h) n" "\<forall>n \<in> set members. smap_has (ho_incarnations h) n"
      "ho_key_generation h = ho_to_epoch h"
  have "fst ` set (ho_vote_keys h) = set members" "fst ` set (ho_incarnations h) = set members"
    using covering_map_dom [of "ho_vote_keys h" members] covering_map_dom [of "ho_incarnations h" members]
      facts assms(2) from_nodes_Some(2) [OF m] by (simp_all add: handoff_maps_ok_def)
  then show ?thesis
    using facts assms(2) from_nodes_Some [OF m] by (simp add: n successor_authority_def authority_ok_def handoff_maps_ok_def)
qed

section \<open>The chain behind a walker\<close>

text \<open>The evidence of a run: the base listings and the links of its pages.\<close>

definition page_bases :: "authority_chain_page list \<Rightarrow> (bootstrap_certificate \<times> (node_id \<times> pubkey) list) set" where
  "page_bases pages = (\<lambda>p. (pg_base_certificate p, pg_base_vote_keys p)) ` {p \<in> set pages. pg_has_base p}"

definition page_links :: "authority_chain_page list \<Rightarrow> (epoch_handoff \<times> commit_proof) set" where
  "page_links pages = (\<Union>p \<in> set pages. (\<lambda>l. (hp_handoff l, hp_proof l)) ` set (pg_links p))"

definition link_total :: "authority_chain_page list \<Rightarrow> nat" where
  "link_total pages = sum_list (map (\<lambda>p. length (pg_links p)) pages)"

text \<open>An authority reached from the Genesis key over \<open>k\<close> links of the evidence.\<close>

inductive authority_chain ::
  "crypto \<Rightarrow> pubkey \<Rightarrow> (bootstrap_certificate \<times> (node_id \<times> pubkey) list) set \<Rightarrow>
   (epoch_handoff \<times> commit_proof) set \<Rightarrow> nat \<Rightarrow> verified_epoch_authority \<Rightarrow> bool"
  for cr g B L where
  base: "(c, listing) \<in> B \<Longrightarrow>
    bc_network_id c = derive_network_id cr g kSecurityRulesetVersion kConsensusRulesetVersion \<Longrightarrow>
    verify_epoch_one_authority cr c g listing = Some a \<Longrightarrow> authority_chain cr g B L 0 a"
| link: "authority_chain cr g B L k a \<Longrightarrow> (h, pr) \<in> L \<Longrightarrow> advance_epoch_authority cr a h pr = Inr n \<Longrightarrow>
    authority_chain cr g B L (Suc k) n"

inductive_cases authority_chain_0E: "authority_chain cr g B L 0 a"
inductive_cases authority_chain_SucE: "authority_chain cr g B L (Suc k) a"

lemma authority_chain_mono:
  "authority_chain cr g B L k a \<Longrightarrow> B \<subseteq> B' \<Longrightarrow> L \<subseteq> L' \<Longrightarrow> authority_chain cr g B' L' k a"
  by (induction rule: authority_chain.induct) (blast intro: authority_chain.intros)+

lemma authority_chain_epoch: "authority_chain cr g B L k a \<Longrightarrow> au_epoch a = of_nat (Suc k)"
  by (induction rule: authority_chain.induct)
    (auto elim!: verify_epoch_one_authority_Some advance_epoch_authority_Inr
      simp: epoch_one_authority_def successor_authority_def)

lemma authority_chain_ok:
  "authority_chain cr g B L k a \<Longrightarrow> \<forall>(h, pr) \<in> L. handoff_maps_ok h \<Longrightarrow> authority_ok a"
  by (induction rule: authority_chain.induct)
    (auto intro: epoch_one_authority_ok advance_epoch_authority_ok)

lemma authority_chain_network:
  "authority_chain cr g B L k a \<Longrightarrow>
     au_network_id a = derive_network_id cr g kSecurityRulesetVersion kConsensusRulesetVersion"
  by (induction rule: authority_chain.induct)
    (auto elim!: verify_epoch_one_authority_Some advance_epoch_authority_Inr
      simp: epoch_one_authority_def successor_authority_def)

lemma authority_chain_minimum: "authority_chain cr g B L (Suc k) a \<Longrightarrow> kMinActiveTier1 \<le> length (au_members a)"
  by (elim authority_chain_SucE advance_epoch_authority_Inr) (simp add: successor_authority_def)

lemma walk_links_chain:
  assumes "authority_chain cr g B L k a" and "(\<lambda>l. (hp_handoff l, hp_proof l)) ` set links \<subseteq> L"
  shows "\<exists>k'. k \<le> k' \<and> k' \<le> k + length links \<and> (k' = k \<longrightarrow> snd (walk_links cr a links) = a) \<and>
    authority_chain cr g B L k' (snd (walk_links cr a links))"
  using assms
proof (induction links arbitrary: a k)
  case Nil
  then show ?case by auto
next
  case (Cons link links)
  consider "walk_links cr a (link # links) = (False, a)"
    | "walk_links cr a (link # links) = walk_links cr a links"
    | n where "advance_epoch_authority cr a (hp_handoff link) (hp_proof link) = Inr n"
      "walk_links cr a (link # links) = walk_links cr n links"
    by (cases "ho_from_epoch (hp_handoff link) < au_epoch a"; cases "ho_from_epoch (hp_handoff link) = au_epoch a";
        cases "advance_epoch_authority cr a (hp_handoff link) (hp_proof link)") auto
  then show ?case
  proof cases
    case 1
    then show ?thesis using Cons.prems(1) by auto
  next
    case 2
    obtain k' where "k \<le> k'" "k' \<le> k + length links" "k' = k \<longrightarrow> snd (walk_links cr a links) = a"
      "authority_chain cr g B L k' (snd (walk_links cr a links))"
      using Cons.IH [OF Cons.prems(1)] Cons.prems(2) by auto
    then show ?thesis unfolding 2 by (intro exI [of _ k']) simp
  next
    case 3
    have "authority_chain cr g B L (Suc k) n"
      using Cons.prems 3(1) by (intro authority_chain.link [of cr g B L k a "hp_handoff link" "hp_proof link"]) auto
    then obtain k' where "Suc k \<le> k'" "k' \<le> Suc k + length links"
      "authority_chain cr g B L k' (snd (walk_links cr n links))"
      using Cons.IH [of "Suc k" n] Cons.prems(2) by auto
    then show ?thesis unfolding 3(2) by (intro exI [of _ k']) simp
  qed
qed

text \<open>What holds of a walker after a run: its identity, and the chain behind its authority.\<close>

definition walker_ok :: "crypto \<Rightarrow> pubkey \<Rightarrow> authority_chain_page list \<Rightarrow> authority_chain_walker \<Rightarrow> bool" where
  "walker_ok cr g pages w \<longleftrightarrow>
     wk_genesis_public_key w = g \<and>
     wk_network_id w = derive_network_id cr g kSecurityRulesetVersion kConsensusRulesetVersion \<and>
     (\<forall>a. wk_authority w = Some a \<longrightarrow>
        (\<exists>k. k \<le> link_total pages \<and> authority_chain cr g (page_bases pages) (page_links pages) k a))"

lemma walker_ok_init: "walker_ok cr g [] (walker_init cr g)"
  by (simp add: walker_ok_def walker_init_def)

lemma evidence_snoc:
  "page_bases pages \<subseteq> page_bases (pages @ [p])" "page_links pages \<subseteq> page_links (pages @ [p])"
  "link_total (pages @ [p]) = link_total pages + length (pg_links p)"
  "(\<lambda>l. (hp_handoff l, hp_proof l)) ` set (pg_links p) \<subseteq> page_links (pages @ [p])"
  "pg_has_base p \<Longrightarrow> (pg_base_certificate p, pg_base_vote_keys p) \<in> page_bases (pages @ [p])"
  by (auto simp: page_bases_def page_links_def link_total_def)

lemma apply_base_chain:
  assumes "walker_ok cr g pages w" and "pg_has_base p" and "apply_base cr w p = Some w'"
  shows "wk_genesis_public_key w' = g" "wk_network_id w' = wk_network_id w"
    "\<exists>a k. wk_authority w' = Some a \<and> k \<le> link_total pages \<and>
       authority_chain cr g (page_bases (pages @ [p])) (page_links (pages @ [p])) k a"
    "wk_authority w \<noteq> None \<longrightarrow> w' = w"
proof -
  consider a where "wk_authority w = Some a" "w' = w"
    | a where "wk_authority w = None"
      "bc_network_id (pg_base_certificate p) = derive_network_id cr g kSecurityRulesetVersion kConsensusRulesetVersion"
      "verify_epoch_one_authority cr (pg_base_certificate p) g (pg_base_vote_keys p) = Some a"
      "w' = w\<lparr>wk_epoch_one_anchor := bootstrap_certificate_signing_digest cr (pg_base_certificate p),
            wk_authority := Some a\<rparr>"
    using assms(1,3) unfolding apply_base_def walker_ok_def Let_def
    by (auto split: option.splits if_splits)
  then show "wk_genesis_public_key w' = g" "wk_network_id w' = wk_network_id w"
    "\<exists>a k. wk_authority w' = Some a \<and> k \<le> link_total pages \<and>
       authority_chain cr g (page_bases (pages @ [p])) (page_links (pages @ [p])) k a"
    "wk_authority w \<noteq> None \<longrightarrow> w' = w"
    using assms(1) evidence_snoc(1,2) [of pages p] evidence_snoc(5) [OF assms(2), of pages]
    by (cases; force simp: walker_ok_def intro: authority_chain.base authority_chain_mono)+
qed

text \<open>A page is refused without effect, or its links are walked from the authority the walker has or
  takes from the base.\<close>

lemma apply_page_cases:
  assumes "walker_ok cr g pages w"
  obtains (stay) "apply_page cr w p = (Refused, w)"
  | (walk) w' a k k' where
      "wk_genesis_public_key w' = g" "wk_network_id w' = wk_network_id w" "wk_authority w' = Some a"
      "wk_authority w \<noteq> None \<longrightarrow> w' = w"
      "k \<le> link_total pages" "authority_chain cr g (page_bases (pages @ [p])) (page_links (pages @ [p])) k a"
      "k \<le> k'" "k' \<le> k + length (pg_links p)" "k' = k \<longrightarrow> snd (walk_links cr a (pg_links p)) = a"
      "authority_chain cr g (page_bases (pages @ [p])) (page_links (pages @ [p])) k'
         (snd (walk_links cr a (pg_links p)))"
      "apply_page cr w p =
         (if \<not> fst (walk_links cr a (pg_links p)) then Refused
          else if au_epoch (snd (walk_links cr a (pg_links p))) > walker_epoch w then Advanced else NoProgress,
          w'\<lparr>wk_authority := Some (snd (walk_links cr a (pg_links p)))\<rparr>)"
proof (cases "if pg_has_base p then apply_base cr w p else Some w")
  case None
  then have "apply_page cr w p = (Refused, w)" by (simp add: apply_page_def)
  then show ?thesis by (rule stay)
next
  case (Some w')
  show ?thesis
  proof (cases "wk_authority w'")
    case None
    then have "\<not> pg_has_base p" using Some apply_base_chain(3) [OF assms, of p w'] by auto
    then have "apply_page cr w p = (Refused, w)" using Some None by (simp add: apply_page_def)
    then show ?thesis by (rule stay)
  next
    case (Some a)
    note w' = \<open>(if pg_has_base p then apply_base cr w p else Some w) = Some w'\<close>
    have ident: "wk_genesis_public_key w' = g" "wk_network_id w' = wk_network_id w"
      "wk_authority w \<noteq> None \<longrightarrow> w' = w"
      using w' assms apply_base_chain [OF assms, of p w'] by (auto simp: walker_ok_def split: if_splits)
    obtain k where k: "k \<le> link_total pages"
      "authority_chain cr g (page_bases (pages @ [p])) (page_links (pages @ [p])) k a"
      using w' Some assms apply_base_chain(3) [OF assms, of p w']
        authority_chain_mono [OF _ evidence_snoc(1,2) [of pages p]]
      by (cases "pg_has_base p") (auto simp: walker_ok_def)
    have "apply_page cr w p =
         (if \<not> fst (walk_links cr a (pg_links p)) then Refused
          else if au_epoch (snd (walk_links cr a (pg_links p))) > walker_epoch w then Advanced else NoProgress,
          w'\<lparr>wk_authority := Some (snd (walk_links cr a (pg_links p)))\<rparr>)"
      using w' Some by (simp add: apply_page_def Let_def case_prod_unfold walker_epoch_def [of "w'\<lparr>wk_authority := _\<rparr>"])
    then show ?thesis
      using walk_links_chain [OF k(2) evidence_snoc(4)] ident Some k by (metis walk)
  qed
qed

lemma walker_ok_apply:
  assumes "walker_ok cr g pages w"
  shows "walker_ok cr g (pages @ [p]) (snd (apply_page cr w p))"
  using assms
proof (cases rule: apply_page_cases [of cr g pages w p])
  case stay
  then show ?thesis
    using assms authority_chain_mono [OF _ evidence_snoc(1,2) [of pages p]]
    unfolding walker_ok_def evidence_snoc(3) stay snd_conv by (meson le_add1 le_trans)
next
  case (walk w' a k k')
  then show ?thesis
    using assms unfolding walker_ok_def evidence_snoc(3) by (auto intro!: exI [of _ k'])
qed

lemma walk_pages_snoc: "walk_pages cr w (pages @ [p]) = snd (apply_page cr (walk_pages cr w pages) p)"
  by (simp add: walk_pages_def)

lemma walker_ok_walk: "walker_ok cr g pages (walk_pages cr (walker_init cr g) pages)"
proof (induction pages rule: rev_induct)
  case Nil
  then show ?case using walker_ok_init by (simp add: walk_pages_def)
next
  case (snoc p pages)
  then show ?case using walker_ok_apply by (simp add: walk_pages_snoc)
qed

section \<open>One chain per Genesis key\<close>

lemma bootstrap_certificate_stream_fields:
  "bootstrap_certificate_stream c = field_stream
     [string_bytes kBootstrapDomain, b32 (bc_network_id c), le_bytes 8 (bc_epoch c), b32 (bc_tier1_set_digest c),
      le_bytes 8 (of_nat (bc_authority_threshold c) :: u64), b32 (bc_authority_public_key c),
      b32 (bc_dkg_transcript_digest c), b32 (bc_attestation_root c), b32 (bc_founding_eligibility_digest c),
      b32 (bc_vote_key_set_digest c), b32 (bc_release_approval_digest c), le_bytes 2 (bc_security_ruleset c),
      le_bytes 2 (bc_consensus_ruleset c)]"
  by (simp add: bootstrap_certificate_stream_def encoder_fields del: field_stream_simps)

lemma bootstrap_certificate_stream_inj:
  assumes "bootstrap_certificate_stream c = bootstrap_certificate_stream c'"
  shows "bc_network_id c = bc_network_id c'" "bc_tier1_set_digest c = bc_tier1_set_digest c'"
    "bc_authority_public_key c = bc_authority_public_key c'" "bc_attestation_root c = bc_attestation_root c'"
    "bc_vote_key_set_digest c = bc_vote_key_set_digest c'"
  using assms unfolding bootstrap_certificate_stream_fields
  by (subst (asm) field_stream_eq_iff; simp add: kBootstrapDomain_def stream_simps)+

lemma foldl_add_node: "foldl add_node (field_stream fs) nodes = field_stream (fs @ map bnode nodes)"
  by (induction nodes arbitrary: fs) (simp_all add: encoder_fields del: field_stream_simps)

lemma tier1_set_stream_fields:
  "tier1_set_stream ts = field_stream ([string_bytes kParticipantSetDomain,
     le_bytes 8 (of_nat (length ts) :: u64)] @ map bnode ts)"
  by (simp add: tier1_set_stream_def encoder_fields foldl_add_node del: field_stream_simps)

lemma map_bnode_inj: "map bnode xs = map bnode ys \<longleftrightarrow> xs = ys"
proof -
  have "inj bnode" by (auto simp: inj_def stream_simps)
  then show ?thesis by (rule inj_map_eq_map)
qed

lemma short_map_bnode: "short_fields (map bnode xs)"
  by (auto simp: short_fields_def)

lemma tier1_set_stream_eq_iff [stream_simps]: "tier1_set_stream a = tier1_set_stream b \<longleftrightarrow> a = b"
  unfolding tier1_set_stream_fields
  by (subst field_stream_eq_iff)
    (auto simp: short_fields_append short_map_bnode map_bnode_inj kParticipantSetDomain_def)

text \<open>The byte streams behind the evidence of a run.\<close>

definition base_streams :: "bootstrap_certificate \<times> (node_id \<times> pubkey) list \<Rightarrow> byte list set" where
  "base_streams b = {bootstrap_certificate_stream (fst b), tier1_set_stream (sort (map fst (snd b))),
     vote_key_set_stream (listed_keys (snd b))}"

definition evidence_streams :: "crypto \<Rightarrow> authority_chain_page list \<Rightarrow> byte list set" where
  "evidence_streams cr pages =
     (\<Union>b \<in> page_bases pages. base_streams b) \<union> (\<Union>(h, pr) \<in> page_links pages. handoff_streams cr h)"

text \<open>Genesis signs one certificate: among the certificates offered, those its key verifies have one
  digest. An epoch commits one handoff: no two proofs offered verify under the same keys and quorum for
  different handoffs of an epoch.\<close>

definition one_certificate :: "crypto \<Rightarrow> pubkey \<Rightarrow> bootstrap_certificate set \<Rightarrow> bool" where
  "one_certificate cr g C \<longleftrightarrow>
     (\<forall>c \<in> C. \<forall>c' \<in> C. verify_bootstrap_certificate cr c g \<longrightarrow> verify_bootstrap_certificate cr c' g \<longrightarrow>
        bootstrap_certificate_signing_digest cr c = bootstrap_certificate_signing_digest cr c')"

definition one_handoff_per_epoch :: "crypto \<Rightarrow> (epoch_handoff \<times> commit_proof) set \<Rightarrow> bool" where
  "one_handoff_per_epoch cr L \<longleftrightarrow>
     (\<forall>(h, pr) \<in> L. \<forall>(h', pr') \<in> L. \<forall>ctx keys.
        verify_commit_proof cr (epoch_handoff_digest cr h) pr ctx keys = CpNone \<longrightarrow>
        verify_commit_proof cr (epoch_handoff_digest cr h') pr' ctx keys = CpNone \<longrightarrow>
        epoch_handoff_digest cr h = epoch_handoff_digest cr h')"

text \<open>Authorities that agree on everything but the certificate their checkpoint names: a block has as
  many certificates as there are quorums that signed it.\<close>

definition same_authority :: "verified_epoch_authority \<Rightarrow> verified_epoch_authority \<Rightarrow> bool" where
  "same_authority a b \<longleftrightarrow> a\<lparr>au_checkpoint := 0\<rparr> = b\<lparr>au_checkpoint := 0\<rparr>"

lemma same_authorityD:
  assumes "same_authority a b"
  shows "authority_context a = authority_context b" "au_vote_keys a = au_vote_keys b"
    "au_anchor_digest a = au_anchor_digest b" "au_network_id a = au_network_id b" "au_epoch a = au_epoch b"
  using assms by (cases a; cases b; simp add: same_authority_def authority_context_def)+

lemma epoch_one_unique:
  assumes "verify_epoch_one_authority cr c g l = Some a" and "verify_epoch_one_authority cr c' g l' = Some a'"
    and "one_certificate cr g C" and "c \<in> C" and "c' \<in> C"
    and "collision_free cr (base_streams (c, l) \<union> base_streams (c', l'))"
  shows "a = a'"
proof -
  note cf = collision_freeD [OF assms(6)]
  obtain f where f: "from_nodes (map fst l) = Some f" "tier1_set_digest cr f = bc_tier1_set_digest c"
    "vote_key_set_digest cr (listed_keys l) = bc_vote_key_set_digest c" "verify_bootstrap_certificate cr c g"
    "bc_authority_threshold c = authority_threshold (length f)"
    "bc_security_ruleset c = kSecurityRulesetVersion" "bc_consensus_ruleset c = kConsensusRulesetVersion"
    and a: "a = epoch_one_authority cr c f (listed_keys l)"
    using assms(1) by (elim verify_epoch_one_authority_Some) (rule that)
  obtain f' where f': "from_nodes (map fst l') = Some f'" "tier1_set_digest cr f' = bc_tier1_set_digest c'"
    "vote_key_set_digest cr (listed_keys l') = bc_vote_key_set_digest c'" "verify_bootstrap_certificate cr c' g"
    "bc_authority_threshold c' = authority_threshold (length f')"
    "bc_security_ruleset c' = kSecurityRulesetVersion" "bc_consensus_ruleset c' = kConsensusRulesetVersion"
    and a': "a' = epoch_one_authority cr c' f' (listed_keys l')"
    using assms(2) by (elim verify_epoch_one_authority_Some) (rule that)
  have sorted: "f = sort (map fst l)" "f' = sort (map fst l')"
    using f(1) f'(1) by (auto simp: from_nodes_eq split: if_splits)
  have d: "bootstrap_certificate_signing_digest cr c = bootstrap_certificate_signing_digest cr c'"
    using assms(3-5) f(4) f'(4) unfolding one_certificate_def by blast
  then have "bootstrap_certificate_stream c = bootstrap_certificate_stream c'"
    using cf [of "bootstrap_certificate_stream c" "bootstrap_certificate_stream c'"]
    by (simp add: bootstrap_certificate_signing_digest_def encoder_digest_def base_streams_def)
  note bc = bootstrap_certificate_stream_inj [OF this]
  have "f = f'"
    using cf [of "tier1_set_stream f" "tier1_set_stream f'"] f(2) f'(2) bc(2)
    by (simp add: tier1_set_digest_def encoder_digest_def base_streams_def sorted stream_simps)
  moreover have "listed_keys l = listed_keys l'"
    using cf [of "vote_key_set_stream (listed_keys l)" "vote_key_set_stream (listed_keys l')"] f(3) f'(3) bc(5)
    by (simp add: vote_key_set_digest_def encoder_digest_def base_streams_def stream_simps)
  ultimately show ?thesis using bc d f f' by (simp add: a a' epoch_one_authority_def)
qed

lemma successor_unique:
  assumes "advance_epoch_authority cr a h pr = Inr n" and "advance_epoch_authority cr b h' pr' = Inr n'"
    and "same_authority a b" and "one_handoff_per_epoch cr L" and "(h, pr) \<in> L" and "(h', pr') \<in> L"
    and "handoff_maps_ok h" and "handoff_maps_ok h'"
    and "collision_free cr (handoff_streams cr h \<union> handoff_streams cr h')"
  shows "same_authority n n'"
proof -
  obtain m where m: "from_nodes (ho_members h) = Some m" "n = successor_authority cr a h pr m"
    "length (ho_incarnations h) = length m" "\<forall>n \<in> set m. smap_has (ho_incarnations h) n"
    "verify_commit_proof cr (epoch_handoff_digest cr h) pr (authority_context a) (au_vote_keys a) = CpNone"
    using assms(1) by (elim advance_epoch_authority_Inr) (rule that)
  obtain m' where m': "from_nodes (ho_members h') = Some m'" "n' = successor_authority cr b h' pr' m'"
    "length (ho_incarnations h') = length m'" "\<forall>n \<in> set m'. smap_has (ho_incarnations h') n"
    "verify_commit_proof cr (epoch_handoff_digest cr h') pr' (authority_context b) (au_vote_keys b) = CpNone"
    using assms(2) by (elim advance_epoch_authority_Inr) (rule that)
  have "epoch_handoff_digest cr h = epoch_handoff_digest cr h'"
    using assms(4-6) m(5) m'(5) unfolding one_handoff_per_epoch_def same_authorityD(1,2) [OF assms(3)] by blast
  moreover have "handoff_listed h"
    using covering_map_dom [of "ho_incarnations h" m] assms(7) m from_nodes_Some [OF m(1)]
    by (simp add: handoff_listed_def handoff_maps_ok_def dom_map_of_conv_image_fst)
  moreover have "handoff_listed h'"
    using covering_map_dom [of "ho_incarnations h'" m'] assms(8) m' from_nodes_Some [OF m'(1)]
    by (simp add: handoff_listed_def handoff_maps_ok_def dom_map_of_conv_image_fst)
  ultimately have "h = h'" using epoch_handoff_digest_inj [OF assms(9)] by simp
  then show ?thesis
    using m m' same_authorityD [OF assms(3)] by (simp add: same_authority_def successor_authority_def)
qed

lemma authority_chain_unique:
  assumes "authority_chain cr g B L k a" and "authority_chain cr g B L k b"
    and "one_certificate cr g (fst ` B)" and "one_handoff_per_epoch cr L"
    and "\<forall>(h, pr) \<in> L. handoff_maps_ok h"
    and "collision_free cr ((\<Union>x \<in> B. base_streams x) \<union> (\<Union>(h, pr) \<in> L. handoff_streams cr h))"
  shows "same_authority a b"
  using assms(1,2)
proof (induction k arbitrary: a b)
  case 0
  obtain c l where c: "(c, l) \<in> B" "verify_epoch_one_authority cr c g l = Some a"
    using 0(1) by (elim authority_chain_0E)
  obtain c' l' where c': "(c', l') \<in> B" "verify_epoch_one_authority cr c' g l' = Some b"
    using 0(2) by (elim authority_chain_0E)
  have "c \<in> fst ` B" "c' \<in> fst ` B" using c(1) c'(1) by force+
  moreover have "collision_free cr (base_streams (c, l) \<union> base_streams (c', l'))"
    using c(1) c'(1) by (intro collision_free_mono [OF assms(6)]) blast
  ultimately have "a = b" using epoch_one_unique [OF c(2) c'(2) assms(3)] by blast
  then show ?case by (simp add: same_authority_def)
next
  case (Suc k)
  obtain x h pr where x: "authority_chain cr g B L k x" "(h, pr) \<in> L" "advance_epoch_authority cr x h pr = Inr a"
    using Suc.prems(1) by (elim authority_chain_SucE)
  obtain y h' pr' where y: "authority_chain cr g B L k y" "(h', pr') \<in> L"
    "advance_epoch_authority cr y h' pr' = Inr b"
    using Suc.prems(2) by (elim authority_chain_SucE)
  have "collision_free cr (handoff_streams cr h \<union> handoff_streams cr h')"
    using x(2) y(2) by (intro collision_free_mono [OF assms(6)]) blast
  then show ?case
    using successor_unique [OF x(3) y(3) Suc.IH [OF x(1) y(1)] assms(4) x(2) y(2)] assms(5) x(2) y(2) by blast
qed

lemma chain_epoch_unat:
  assumes "authority_chain cr g B L k a" and "Suc k < 2 ^ 64"
  shows "unat (au_epoch a) = Suc k"
  using assms authority_chain_epoch [OF assms(1)]
  by (simp add: unat_of_nat take_bit_eq_mod del: of_nat_Suc)

section \<open>A concrete chain\<close>

text \<open>One founder, and five members in the second epoch. The digests of the streams in the table are
  \<open>1\<close> to \<open>5\<close>; every other stream has digest zero, and a signature is its digest.\<close>

definition example_founders :: "(node_id \<times> pubkey) list" where "example_founders = [(NodeId 1, 11)]"

definition example_next_keys :: "(node_id, pubkey) smap" where
  "example_next_keys = [(NodeId 1, 31), (NodeId 2, 32), (NodeId 3, 33), (NodeId 4, 34), (NodeId 5, 35)]"

definition example_base :: bootstrap_certificate where
  "example_base =
     \<lparr>bc_network_id = 0, bc_epoch = 1, bc_tier1_set_digest = 3, bc_authority_threshold = 5,
      bc_authority_public_key = 21, bc_dkg_transcript_digest = 6, bc_attestation_root = 7,
      bc_founding_eligibility_digest = 8, bc_vote_key_set_digest = 2, bc_release_approval_digest = 9,
      bc_security_ruleset = 1, bc_consensus_ruleset = 1, bc_genesis_signature = 4\<rparr>"

definition example_link_handoff :: epoch_handoff where
  "example_link_handoff =
     \<lparr>ho_network_id = 0, ho_from_epoch = 1, ho_to_epoch = 2, ho_plan_digest = 10, ho_previous_anchor = 4,
      ho_members = [NodeId 5, NodeId 4, NodeId 3, NodeId 2, NodeId 1],
      ho_incarnations = [(NodeId 1, 2), (NodeId 2, 1), (NodeId 3, 1), (NodeId 4, 1), (NodeId 5, 1)],
      ho_vote_keys = example_next_keys, ho_group_public_key = 22, ho_dkg_transcript_digest = 11,
      ho_key_generation = 2, ho_attestation_root = 12, ho_security_ruleset = 1, ho_consensus_ruleset = 1\<rparr>"

definition example_chain_qc :: "u64 \<Rightarrow> quorum_certificate" where
  "example_chain_qc v =
     \<lparr>qc_format_version = 1, qc_consensus_ruleset = 1, qc_network_id = 0, qc_epoch = 1, qc_height = v,
      qc_view = v, qc_proposal_digest = 0, qc_signers = [\<lparr>qs_node_id = NodeId 1, qs_signature = 0\<rparr>]\<rparr>"

definition example_chain_block :: "u64 \<Rightarrow> committed_block" where
  "example_chain_block v =
     \<lparr>cb_proposal = \<lparr>p_security_ruleset = 1, p_consensus_ruleset = 1, p_network_id = 0, p_epoch = 1,
        p_height = v, p_view = v, p_leader = NodeId 1, p_parent_digest = 0, p_justify_qc_digest = 0,
        p_previous_state_root = 0, p_proposed_state_root = 0, p_transitions_digest = 5, p_timestamp_hint = 0\<rparr>,
      cb_justify = example_chain_qc v\<rparr>"

definition example_link :: handoff_proof_msg where
  "example_link =
     \<lparr>hp_handoff = example_link_handoff,
      hp_proof = \<lparr>cp_chain = [example_chain_block 1, example_chain_block 2, example_chain_block 3],
                  cp_certifying = example_chain_qc 4\<rparr>\<rparr>"

definition example_chain_crypto :: crypto where
  "example_chain_crypto = example_crypto
     [epoch_handoff_stream (example_crypto [vote_key_set_stream example_next_keys]) example_link_handoff,
      bootstrap_certificate_stream example_base, tier1_set_stream [NodeId 1],
      vote_key_set_stream example_founders, vote_key_set_stream example_next_keys]"

lemmas chain_domains =
  kBftProtocolDomain_def kNetworkIdDomain_def kBootstrapDomain_def kParticipantSetDomain_def
  kVoteKeySetDomain_def kHandoffDomain_def kTier1EndpointProofDomain_def

lemmas chain_streams =
  epoch_handoff_stream_fields bootstrap_certificate_stream_fields tier1_set_stream_fields
  vote_key_set_stream_fields proposal_stream_fields vote_stream_fields

lemma example_chain_digest:
  assumes "length d < 2 ^ 32" and "d \<notin> {kHandoffDomain, kBootstrapDomain, kParticipantSetDomain, kVoteKeySetDomain}"
  shows "sha256 example_chain_crypto (field_stream (string_bytes d # fs)) = 0"
  using assms unfolding example_chain_crypto_def example_sha256 chain_streams
  by (simp add: field_stream_domain chain_domains del: field_stream_simps)

lemma example_key_digests:
  "vote_key_set_digest example_chain_crypto example_next_keys = 1"
  "vote_key_set_digest example_chain_crypto example_founders = 2"
  "tier1_set_digest example_chain_crypto [NodeId 1] = 3"
  "bootstrap_certificate_signing_digest example_chain_crypto example_base = 4"
proof -
  have ne: "example_next_keys \<noteq> example_founders" by (simp add: example_next_keys_def example_founders_def)
  have other: "vote_key_set_stream k \<noteq> epoch_handoff_stream cr h" "vote_key_set_stream k \<noteq> tier1_set_stream ts"
    "vote_key_set_stream k \<noteq> bootstrap_certificate_stream c"
    "tier1_set_stream ts \<noteq> epoch_handoff_stream cr h" "tier1_set_stream ts \<noteq> bootstrap_certificate_stream c"
    "bootstrap_certificate_stream c \<noteq> epoch_handoff_stream cr h" for k cr h ts c
    by (simp_all add: chain_streams field_stream_domain chain_domains del: field_stream_simps)
  show "vote_key_set_digest example_chain_crypto example_next_keys = 1"
    "vote_key_set_digest example_chain_crypto example_founders = 2"
    "tier1_set_digest example_chain_crypto [NodeId 1] = 3"
    "bootstrap_certificate_signing_digest example_chain_crypto example_base = 4"
    using ne ne [symmetric] other
    by (simp_all add: vote_key_set_digest_def tier1_set_digest_def bootstrap_certificate_signing_digest_def
        encoder_digest_def example_chain_crypto_def example_sha256 stream_simps)
qed

lemma example_handoff_stream_fixed:
  "epoch_handoff_stream example_chain_crypto example_link_handoff =
     epoch_handoff_stream (example_crypto [vote_key_set_stream example_next_keys]) example_link_handoff"
proof -
  have "vote_key_set_digest (example_crypto [vote_key_set_stream example_next_keys]) example_next_keys = 1"
    by (simp add: vote_key_set_digest_def encoder_digest_def example_sha256)
  then show ?thesis
    using example_key_digests(1) by (simp add: epoch_handoff_stream_fields example_link_handoff_def del: field_stream_simps)
qed

lemma example_handoff_digest: "epoch_handoff_digest example_chain_crypto example_link_handoff = 5"
  unfolding epoch_handoff_digest_def encoder_digest_def example_handoff_stream_fixed
  by (simp add: example_chain_crypto_def example_sha256)

lemma example_zero_digests:
  "proposal_digest example_chain_crypto p = 0"
  "vote_signing_digest example_chain_crypto rs nw ep ht vw pd vt = 0"
  "derive_network_id example_chain_crypto g sr rs = 0"
  unfolding proposal_digest_def vote_signing_digest_def derive_network_id_def encoder_digest_def
    chain_streams Let_def encoder_fields append.simps
  by (rule example_chain_digest; simp add: chain_domains)+

text \<open>Two ways to the second epoch: everything in one page, or the base first and then a page that
  repeats it.\<close>

definition example_page :: "bool \<Rightarrow> handoff_proof_msg list \<Rightarrow> authority_chain_page" where
  "example_page base links =
     \<lparr>pg_has_base = base, pg_base_certificate = example_base, pg_base_vote_keys = example_founders,
      pg_links = links\<rparr>"

lemma example_epoch_one:
  "verify_epoch_one_authority example_chain_crypto example_base 99 example_founders =
     Some (epoch_one_authority example_chain_crypto example_base [NodeId 1] example_founders)"
proof -
  have "listed_keys example_founders = example_founders" "from_nodes (map fst example_founders) = Some [NodeId 1]"
    by (simp_all add: listed_keys_def example_founders_def from_nodes_eq)
  moreover have "verify_bootstrap_certificate example_chain_crypto example_base 99"
    by (simp add: verify_bootstrap_certificate_def example_key_digests)
      (simp add: example_chain_crypto_def example_simps example_base_def)
  ultimately show ?thesis
    using example_key_digests
    by (simp add: verify_epoch_one_authority_def example_base_def kSecurityRulesetVersion_def
        kConsensusRulesetVersion_def authority_threshold_def consensus_quorum_def max_byzantine_faults_def
        kBootstrapThreshold_def) (simp add: example_founders_def)
qed

definition example_epoch_two :: verified_epoch_authority where
  "example_epoch_two = successor_authority example_chain_crypto
     (epoch_one_authority example_chain_crypto example_base [NodeId 1] example_founders)
     example_link_handoff (hp_proof example_link) [NodeId 1, NodeId 2, NodeId 3, NodeId 4, NodeId 5]"

lemma example_proof_verifies:
  "verify_commit_proof example_chain_crypto 5 (hp_proof example_link)
     (authority_context (epoch_one_authority example_chain_crypto example_base [NodeId 1] example_founders))
     example_founders = CpNone"
proof -
  have "verify_detached example_chain_crypto key 0 0" for key
    by (simp add: example_chain_crypto_def example_verify)
  then show ?thesis
    by (simp add: verify_commit_proof_def example_link_def example_chain_block_def example_chain_qc_def
        authority_context_def epoch_one_authority_def example_base_def context_matches_def proof_link_def
        example_zero_digests validate_quorum_certificate_def qc_signature_ok_def verify_digest_def
        example_founders_def kConsensusRulesetVersion_def kQcFormatVersion_def kMaxQcSignatures_def
        kMaxActiveTier1_def consensus_quorum_def max_byzantine_faults_def)
qed

lemma example_advance:
  "advance_epoch_authority example_chain_crypto
     (epoch_one_authority example_chain_crypto example_base [NodeId 1] example_founders)
     example_link_handoff (hp_proof example_link) = Inr example_epoch_two"
proof -
  let ?one = "epoch_one_authority example_chain_crypto example_base [NodeId 1] example_founders"
  have one: "au_network_id ?one = 0" "au_epoch ?one = 1" "au_anchor_digest ?one = 4"
    "au_group_public_key ?one = 21" "au_vote_keys ?one = example_founders"
    by (simp_all add: epoch_one_authority_def example_key_digests) (simp_all add: example_base_def)
  have h: "from_nodes (ho_members example_link_handoff) = Some [NodeId 1, NodeId 2, NodeId 3, NodeId 4, NodeId 5]"
    by (simp add: from_nodes_eq example_link_handoff_def word_le_nat_alt)
  have "\<not> vote_key_repeated (ho_vote_keys example_link_handoff) example_founders"
    by (simp add: vote_key_repeated_def example_link_handoff_def example_next_keys_def example_founders_def)
  then show ?thesis
    using example_proof_verifies h unfolding advance_epoch_authority_def one example_handoff_digest
    by (simp add: example_epoch_two_def)
      (simp add: example_link_handoff_def example_next_keys_def kSecurityRulesetVersion_def
        kConsensusRulesetVersion_def kMinActiveTier1_def)
qed

lemma example_walks:
  "wk_authority (walk_pages example_chain_crypto (walker_init example_chain_crypto 99)
     [example_page True [example_link]]) = Some example_epoch_two"
  "wk_authority (walk_pages example_chain_crypto (walker_init example_chain_crypto 99)
     [example_page True [], example_page True [example_link]]) = Some example_epoch_two"
proof -
  have net: "bc_network_id example_base = 0" by (simp add: example_base_def)
  have start: "ho_from_epoch example_link_handoff = 1" by (simp add: example_link_handoff_def)
  have one: "au_epoch (epoch_one_authority cr c f k) = 1" for cr c f k by (simp add: epoch_one_authority_def)
  have link: "hp_handoff example_link = example_link_handoff" by (simp add: example_link_def)
  show "wk_authority (walk_pages example_chain_crypto (walker_init example_chain_crypto 99)
     [example_page True [example_link]]) = Some example_epoch_two"
  "wk_authority (walk_pages example_chain_crypto (walker_init example_chain_crypto 99)
     [example_page True [], example_page True [example_link]]) = Some example_epoch_two"
    by (simp_all add: walk_pages_def apply_page_def apply_base_def walker_init_def walker_epoch_def example_page_def
        example_zero_digests example_epoch_one example_advance net start one link Let_def)
qed

section \<open>Properties\<close>

text \<open>C32. Every authority a walker holds after any sequence of pages is well formed: the members are a
  sorted set without duplicates, vote keys and incarnations list exactly the members, quorum and
  threshold are the compiled formulas of the size, rulesets are the compiled ones, the key generation is
  the epoch, the network is the one the pinned Genesis key derives, and every epoch after the first has
  at least the minimum of members.\<close>

theorem walker_authority_wellformed:
  assumes "\<forall>(h, pr) \<in> page_links pages. handoff_maps_ok h"
    and "wk_authority (walk_pages cr (walker_init cr g) pages) = Some a"
  shows "authority_ok a \<and>
    au_network_id a = derive_network_id cr g kSecurityRulesetVersion kConsensusRulesetVersion \<and>
    (au_epoch a \<noteq> 1 \<longrightarrow> kMinActiveTier1 \<le> length (au_members a))"
proof -
  obtain k where k: "authority_chain cr g (page_bases pages) (page_links pages) k a"
    using walker_ok_walk [of cr g pages] assms(2) by (auto simp: walker_ok_def)
  have "kMinActiveTier1 \<le> length (au_members a)" if "au_epoch a \<noteq> 1"
    using k that authority_chain_epoch [OF k] by (cases k) (auto dest: authority_chain_minimum)
  then show ?thesis using authority_chain_ok [OF k assms(1)] authority_chain_network [OF k] by blast
qed

lemma example_links_ok:
  "\<forall>(h, pr) \<in> page_links [example_page True [], example_page True [example_link]]. handoff_maps_ok h"
  by (simp add: page_links_def example_page_def example_link_def handoff_maps_ok_def example_link_handoff_def
      example_next_keys_def smap_ok_def)

theorem walker_authority_wellformed_witness:
  "authority_ok example_epoch_two \<and> kMinActiveTier1 \<le> length (au_members example_epoch_two)"
proof -
  have "au_epoch example_epoch_two \<noteq> 1"
    by (simp add: example_epoch_two_def successor_authority_def example_link_handoff_def)
  then show ?thesis using walker_authority_wellformed [OF example_links_ok example_walks(2)] by blast
qed

text \<open>The verified epoch never decreases and never moves without a verified link: applying a page
  leaves an epoch at least as high, an advanced page one that is strictly higher, a page without
  progress leaves the walker as it was, and the epoch is at most one more than the links supplied.\<close>

theorem walker_never_regresses:
  assumes "link_total (pages @ [p]) < 2 ^ 64 - 1"
    and "w = walk_pages cr (walker_init cr g) pages" and "apply_page cr w p = (r, w')"
  shows "walker_epoch w \<le> walker_epoch w' \<and> (r = Advanced \<longrightarrow> walker_epoch w < walker_epoch w') \<and>
    (r = NoProgress \<longrightarrow> w' = w) \<and> unat (walker_epoch w') \<le> link_total (pages @ [p]) + 1"
proof -
  have ok: "walker_ok cr g pages w" using walker_ok_walk assms(2) by simp
  have total: "link_total (pages @ [p]) = link_total pages + length (pg_links p)" by (rule evidence_snoc(3))
  have known: "unat (walker_epoch w) = Suc k \<and> k \<le> link_total pages"
    if "wk_authority w = Some a" "authority_chain cr g B L k a" "k \<le> link_total pages" for a B L k
    using chain_epoch_unat [OF that(2)] that assms(1) total by (simp add: walker_epoch_def)
  show ?thesis
    using ok
  proof (cases rule: apply_page_cases [of cr g pages w p])
    case stay
    have "unat (walker_epoch w) \<le> link_total pages + 1"
    proof (cases "wk_authority w")
      case (Some a)
      then show ?thesis using ok known by (auto simp: walker_ok_def)
    qed (simp add: walker_epoch_def)
    then show ?thesis using stay assms(3) total by simp
  next
    case (walk v a k k')
    let ?b = "snd (walk_links cr a (pg_links p))"
    have b: "unat (au_epoch ?b) = Suc k'"
      using chain_epoch_unat [OF walk(10)] walk(5,8) assms(1) total by simp
    have w': "w' = v\<lparr>wk_authority := Some ?b\<rparr>" "walker_epoch w' = au_epoch ?b"
      and r: "r = Advanced \<Longrightarrow> au_epoch ?b > walker_epoch w" "r = NoProgress \<Longrightarrow> \<not> au_epoch ?b > walker_epoch w"
      using assms(3) walk(11) by (auto simp: walker_epoch_def split: if_splits)
    have before: "unat (walker_epoch w) = (if wk_authority w = None then 0 else Suc k)"
      using walk(3,4) known [OF _ walk(6,5)] by (auto simp: walker_epoch_def)
    have same: "w' = w" if "unat (walker_epoch w) = Suc k'"
    proof -
      have some: "wk_authority w \<noteq> None" and "k' = k" using that before by (auto split: if_splits)
      then have "?b = a" "v = w" using walk(4,9) by simp_all
      then show ?thesis using walk(3) w'(1) by simp
    qed
    have le: "walker_epoch w \<le> walker_epoch w'"
      using before b w'(2) walk(7) by (simp add: word_le_nat_alt split: if_splits)
    moreover have "w' = w" if "r = NoProgress"
    proof -
      have "walker_epoch w = walker_epoch w'" using r(2) [OF that] le w'(2) by simp
      then show ?thesis using same b w'(2) by simp
    qed
    moreover have "unat (walker_epoch w') \<le> link_total (pages @ [p]) + 1"
      using b w'(2) walk(5,8) total by simp
    ultimately show ?thesis using r(1) w'(2) by auto
  qed
qed

theorem walker_never_regresses_witness:
  "walker_epoch (walk_pages example_chain_crypto (walker_init example_chain_crypto 99) [example_page True []])
     \<le> walker_epoch (walk_pages example_chain_crypto (walker_init example_chain_crypto 99)
          [example_page True [], example_page True [example_link]])"
proof -
  let ?w = "walk_pages example_chain_crypto (walker_init example_chain_crypto 99) [example_page True []]"
  obtain r w' where rw: "apply_page example_chain_crypto ?w (example_page True [example_link]) = (r, w')" by fastforce
  moreover have "link_total ([example_page True []] @ [example_page True [example_link]]) < 2 ^ 64 - 1"
    by (simp add: link_total_def example_page_def)
  ultimately have "walker_epoch ?w \<le> walker_epoch w'" using walker_never_regresses by blast
  moreover have "walk_pages example_chain_crypto (walker_init example_chain_crypto 99)
          [example_page True [], example_page True [example_link]] = w'"
    using rw by (simp add: walk_pages_def)
  ultimately show ?thesis by simp
qed

text \<open>C15. There is one chain per Genesis key: two walkers that start from the same Genesis key and hold
  the same epoch agree on its members, incarnations, vote keys, quorum, threshold, rules, group key,
  roots and anchors, whatever pages they were given, as long as Genesis signed one certificate, no epoch
  committed two handoffs, the hash does not collide on the streams offered, and fewer than
  \<open>2 ^ 64 - 1\<close> links were offered.\<close>

theorem verified_authority_unique:
  assumes "wk_authority (walk_pages cr (walker_init cr g) ps) = Some a"
    and "wk_authority (walk_pages cr (walker_init cr g) qs) = Some b"
    and "au_epoch a = au_epoch b"
    and "one_certificate cr g (fst ` page_bases (ps @ qs))"
    and "one_handoff_per_epoch cr (page_links (ps @ qs))"
    and "\<forall>(h, pr) \<in> page_links (ps @ qs). handoff_maps_ok h"
    and "collision_free cr (evidence_streams cr (ps @ qs))"
    and "link_total (ps @ qs) < 2 ^ 64 - 1"
  shows "same_authority a b"
proof -
  let ?chain = "authority_chain cr g (page_bases (ps @ qs)) (page_links (ps @ qs))"
  have sub: "page_bases ps \<subseteq> page_bases (ps @ qs)" "page_links ps \<subseteq> page_links (ps @ qs)"
    "page_bases qs \<subseteq> page_bases (ps @ qs)" "page_links qs \<subseteq> page_links (ps @ qs)"
    "link_total ps \<le> link_total (ps @ qs)" "link_total qs \<le> link_total (ps @ qs)"
    by (auto simp: page_bases_def page_links_def link_total_def)
  obtain k where k: "k \<le> link_total ps" "?chain k a"
    using walker_ok_walk [of cr g ps] assms(1) authority_chain_mono [OF _ sub(1,2)]
    by (auto simp: walker_ok_def)
  obtain l where l: "l \<le> link_total qs" "?chain l b"
    using walker_ok_walk [of cr g qs] assms(2) authority_chain_mono [OF _ sub(3,4)]
    by (auto simp: walker_ok_def)
  have "Suc k = Suc l"
    using chain_epoch_unat [OF k(2)] chain_epoch_unat [OF l(2)] k(1) l(1) sub(5,6) assms(3,8) by simp
  then show ?thesis
    using authority_chain_unique [OF k(2)] l(2) assms(4-7) by (simp add: evidence_streams_def)
qed

lemma page_evidence_simps:
  "page_bases [] = {}"
  "page_bases (p # ps) =
     (if pg_has_base p then insert (pg_base_certificate p, pg_base_vote_keys p) (page_bases ps) else page_bases ps)"
  "page_links [] = {}"
  "page_links (p # ps) = (\<lambda>l. (hp_handoff l, hp_proof l)) ` set (pg_links p) \<union> page_links ps"
  by (auto simp: page_bases_def page_links_def)

lemma example_page_evidence:
  "page_bases ([example_page True [example_link]] @ [example_page True [], example_page True [example_link]]) =
     {(example_base, example_founders)}"
  "page_links ([example_page True [example_link]] @ [example_page True [], example_page True [example_link]]) =
     {(example_link_handoff, hp_proof example_link)}"
  by (simp_all add: page_evidence_simps example_page_def) (simp add: example_link_def)

lemma example_chain_collision_free:
  "collision_free example_chain_crypto (evidence_streams example_chain_crypto
     ([example_page True [example_link]] @ [example_page True [], example_page True [example_link]]))"
proof -
  have "listed_keys example_founders = example_founders" "map fst example_founders = [NodeId 1]"
    by (simp_all add: listed_keys_def example_founders_def)
  moreover have "ho_vote_keys example_link_handoff = example_next_keys" by (simp add: example_link_handoff_def)
  ultimately have "evidence_streams example_chain_crypto
     ([example_page True [example_link]] @ [example_page True [], example_page True [example_link]]) \<subseteq>
   {epoch_handoff_stream (example_crypto [vote_key_set_stream example_next_keys]) example_link_handoff,
    bootstrap_certificate_stream example_base, tier1_set_stream [NodeId 1],
    vote_key_set_stream example_founders, vote_key_set_stream example_next_keys}"
    unfolding evidence_streams_def example_page_evidence
    by (simp add: base_streams_def handoff_streams_def example_handoff_stream_fixed)
  then show ?thesis
    by (rule collision_free_mono [rotated]) (unfold example_chain_crypto_def, rule example_collision_free, simp_all)
qed

theorem verified_authority_unique_witness:
  "wk_authority (walk_pages example_chain_crypto (walker_init example_chain_crypto 99)
     [example_page True [example_link]]) = Some example_epoch_two \<and>
   same_authority example_epoch_two example_epoch_two"
proof -
  let ?ps = "[example_page True [example_link]]" and ?qs = "[example_page True [], example_page True [example_link]]"
  have "one_certificate example_chain_crypto 99 (fst ` page_bases (?ps @ ?qs))"
    unfolding example_page_evidence by (simp add: one_certificate_def)
  moreover have "one_handoff_per_epoch example_chain_crypto (page_links (?ps @ ?qs))"
    unfolding example_page_evidence by (simp add: one_handoff_per_epoch_def)
  moreover have "\<forall>(h, pr) \<in> page_links (?ps @ ?qs). handoff_maps_ok h"
    unfolding example_page_evidence
    by (simp add: handoff_maps_ok_def example_link_handoff_def example_next_keys_def smap_ok_def)
  moreover have "link_total (?ps @ ?qs) < 2 ^ 64 - 1" by (simp add: link_total_def example_page_def)
  ultimately show ?thesis
    using verified_authority_unique [OF example_walks refl] example_walks(1) example_chain_collision_free by blast
qed

lemma same_host_lower: "same_host a b \<longleftrightarrow> map tolower a = map tolower b"
  unfolding same_host_def list_all2_map1 [symmetric] list_all2_map2 [symmetric] list.rel_eq
  by (auto simp: list.rel_eq list_all2_conv_all_nth list_eq_iff_nth_eq)

text \<open>An endpoint proof is accepted exactly if the nonce has its fixed size, the signer is a member of
  the verified epoch, the proof names the verified epoch, the port and, up to case, the host the client
  reached, and the member's key verifies the signature over the digest of the verified network, epoch,
  member and of the host, port and nonce the client itself used; and the proof a member signs for a
  client that reached it is accepted.\<close>

theorem endpoint_proof_valid_iff:
  assumes "signs_for cr (kp_private_key identity) (kp_public_key identity)"
    and "NodeId (kp_public_key identity) \<in> set (au_members a)" and "length nonce = kTier1EndpointNonceBytes"
  shows "(check_tier1_endpoint_proof cr a pr host port nonce' = EpValid \<longleftrightarrow>
      length nonce' = kTier1EndpointNonceBytes \<and> tp_node pr \<in> set (au_members a) \<and>
      tp_epoch pr = au_epoch a \<and> tp_port pr = port \<and> map tolower (tp_host pr) = map tolower host \<and>
      verify_detached cr (node_bytes (tp_node pr))
        (tier1_endpoint_proof_digest cr (au_network_id a) (au_epoch a) (tp_node pr) host port nonce')
        (tp_signature pr)) \<and>
    check_tier1_endpoint_proof cr a
      (sign_tier1_endpoint_proof cr (au_network_id a) (au_epoch a) host port nonce identity) host port nonce = EpValid"
proof
  have lower: "tier1_endpoint_proof_digest cr nw ep n h p nc = tier1_endpoint_proof_digest cr nw ep n h' p nc"
    if "map tolower h = map tolower h'" for nw ep n h h' p nc
    using that by (simp add: tier1_endpoint_proof_digest_def tier1_endpoint_proof_stream_def)
  show "check_tier1_endpoint_proof cr a pr host port nonce' = EpValid \<longleftrightarrow>
      length nonce' = kTier1EndpointNonceBytes \<and> tp_node pr \<in> set (au_members a) \<and>
      tp_epoch pr = au_epoch a \<and> tp_port pr = port \<and> map tolower (tp_host pr) = map tolower host \<and>
      verify_detached cr (node_bytes (tp_node pr))
        (tier1_endpoint_proof_digest cr (au_network_id a) (au_epoch a) (tp_node pr) host port nonce')
        (tp_signature pr)"
    using lower [of "tp_host pr" host]
    by (auto simp: check_tier1_endpoint_proof_def Let_def same_host_lower not_less)
  show "check_tier1_endpoint_proof cr a
      (sign_tier1_endpoint_proof cr (au_network_id a) (au_epoch a) host port nonce identity) host port nonce = EpValid"
    using assms by (simp add: check_tier1_endpoint_proof_def sign_tier1_endpoint_proof_def Let_def same_host_lower
        signs_for_def)
qed

theorem endpoint_proof_valid_iff_witness:
  "check_tier1_endpoint_proof (example_crypto []) example_epoch_two
     (sign_tier1_endpoint_proof (example_crypto []) (au_network_id example_epoch_two) (au_epoch example_epoch_two)
        ''Node.Example'' 443 (replicate 32 7) \<lparr>kp_public_key = 3, kp_private_key = []\<rparr>)
     ''Node.Example'' 443 (replicate 32 7) = EpValid"
  using endpoint_proof_valid_iff [of "example_crypto []" "\<lparr>kp_public_key = 3, kp_private_key = []\<rparr>"
      example_epoch_two "replicate 32 7" _ "''Node.Example''" 443]
  by (simp add: kTier1EndpointNonceBytes_def)
    (simp add: example_epoch_two_def successor_authority_def)

end
