(* ===== verification/Eligibility_Ledger.thy ===== *)
theory Eligibility_Ledger
  imports Eligibility_Types
begin

text \<open>
  \<^verbatim>\<open>Security/Eligibility/EligibilityLedger.cpp\<close>: where signed observations become the two mesh facts
  and the agreed platform claims. The ledger is a pure function of its records; \<open>records_\<close> is an ordered
  map by epoch, subject, observer and kind. The lemmas relate the counting loops to sets of observers,
  show that no fact is made without a correct witness, that at most one claim set can win, and that a
  snapshot restores to the ledger it was taken from.
\<close>

section \<open>Contexts\<close>

datatype observation_outcome =
    Accepted | WrongNetwork | WrongEpoch | ObserverNotInTier1 | SignatureInvalid | SelfObservation
  | NotNewerThanHeld | MalformedForKind

record mesh_fact_context =
  fc_network_id :: digest
  fc_epoch :: u64
  fc_observers :: "node_id list"
  fc_quorum :: nat

definition established_fact_context :: "digest \<Rightarrow> u64 \<Rightarrow> node_id list \<Rightarrow> mesh_fact_context" where
  "established_fact_context network epoch members =
     \<lparr>fc_network_id = network, fc_epoch = epoch, fc_observers = members,
      fc_quorum = consensus_quorum (length members)\<rparr>"

definition genesis_fact_context :: "digest \<Rightarrow> node_id list \<Rightarrow> mesh_fact_context" where
  "genesis_fact_context network founders =
     \<lparr>fc_network_id = network, fc_epoch = 0, fc_observers = founders, fc_quorum = length founders\<rparr>"

definition witness_threshold :: "mesh_fact_context \<Rightarrow> node_id \<Rightarrow> nat" where
  "witness_threshold ctx subject =
     (let in_committee = subject \<in> set (fc_observers ctx)
      in if \<not> in_committee then fc_quorum ctx
         else let bar = max_byzantine_faults (length (fc_observers ctx)) + 1
              in max (if fc_quorum ctx > 0 then fc_quorum ctx - 1 else 0) bar)"

section \<open>The ledger\<close>

type_synonym ledger_key = "u64 \<times> node_id \<times> node_id \<times> observation_kind"

record ledger_record =
  lr_latest :: eligibility_observation
  lr_attestations :: "digest set"
  lr_incarnation :: u64

record eligibility_ledger =
  el_records :: "(ledger_key, ledger_record) smap"
  el_faults :: "(node_id, objective_fault set) smap"

definition empty_ledger :: eligibility_ledger where
  "empty_ledger = \<lparr>el_records = [], el_faults = []\<rparr>"

definition observation_key :: "eligibility_observation \<Rightarrow> ledger_key" where
  "observation_key ob = (ob_epoch ob, ob_subject ob, ob_observer ob, ob_kind ob)"

text \<open>The checks of \<^verbatim>\<open>record\<close> that do not look at the ledger.\<close>

definition observation_check ::
  "crypto \<Rightarrow> eligibility_observation \<Rightarrow> mesh_fact_context \<Rightarrow> observation_outcome" where
  "observation_check cr ob ctx =
     (if ob_network_id ob \<noteq> fc_network_id ctx then WrongNetwork
      else if ob_epoch ob \<noteq> fc_epoch ctx then WrongEpoch
      else if ob_observer ob = ob_subject ob then SelfObservation
      else if ob_observer ob \<notin> set (fc_observers ctx) then ObserverNotInTier1
      else if (case ob_kind ob of
                 Attestation \<Rightarrow>
                   ob_attestation_digest ob = 0 \<or> \<not> platform_claims_are_consistent (ob_claims ob)
               | Participation \<Rightarrow>
                   ob_attestation_digest ob \<noteq> 0 \<or> platform_claim_bits (ob_claims ob) \<noteq> 0 \<or>
                   cl_profile_id (ob_claims ob) \<noteq> UnknownProfile) then MalformedForKind
      else if \<not> observation_signature_valid cr ob then SignatureInvalid
      else Accepted)"

text \<open>The record of a first statement, and a held record after a newer one: a subject that changed
  incarnation starts its count again.\<close>

definition first_record :: "eligibility_observation \<Rightarrow> ledger_record" where
  "first_record ob =
     \<lparr>lr_latest = ob,
      lr_attestations = (if ob_kind ob = Attestation then {ob_attestation_digest ob} else {}),
      lr_incarnation = ob_subject_incarnation ob\<rparr>"

definition renewed_record :: "eligibility_observation \<Rightarrow> ledger_record \<Rightarrow> ledger_record" where
  "renewed_record ob held =
     (let r = (if ob_subject_incarnation ob \<noteq> lr_incarnation held
               then held\<lparr>lr_attestations := {}, lr_incarnation := ob_subject_incarnation ob\<rparr>
               else held);
          r = r\<lparr>lr_latest := ob\<rparr>
      in if ob_kind ob = Attestation \<and> card (lr_attestations r) < kMaxContinuityAttestations
         then r\<lparr>lr_attestations := insert (ob_attestation_digest ob) (lr_attestations r)\<rparr>
         else r)"

definition record_observation ::
  "crypto \<Rightarrow> eligibility_observation \<Rightarrow> mesh_fact_context \<Rightarrow> eligibility_ledger \<Rightarrow>
   observation_outcome \<times> eligibility_ledger" where
  "record_observation cr ob ctx l =
     (if observation_check cr ob ctx \<noteq> Accepted then (observation_check cr ob ctx, l)
      else let key = observation_key ob
           in case map_of (el_records l) key of
                None \<Rightarrow> (Accepted, l\<lparr>el_records := smap_put key (first_record ob) (el_records l)\<rparr>)
              | Some held \<Rightarrow>
                  if ob_height ob \<le> ob_height (lr_latest held) then (NotNewerThanHeld, l)
                  else (Accepted, l\<lparr>el_records := smap_put key (renewed_record ob held) (el_records l)\<rparr>))"

definition faults_of :: "(node_id, objective_fault set) smap \<Rightarrow> node_id \<Rightarrow> objective_fault set" where
  "faults_of m subject = (case map_of m subject of None \<Rightarrow> {} | Some fs \<Rightarrow> fs)"

definition record_fault :: "node_id \<Rightarrow> objective_fault \<Rightarrow> eligibility_ledger \<Rightarrow> eligibility_ledger" where
  "record_fault subject fault l =
     l\<lparr>el_faults := smap_put subject (insert fault (faults_of (el_faults l) subject)) (el_faults l)\<rparr>"

definition merge_faults ::
  "(node_id, objective_fault set) smap \<Rightarrow> eligibility_ledger \<Rightarrow> eligibility_ledger" where
  "merge_faults faults l =
     fold (\<lambda>(subject, kinds) l.
         l\<lparr>el_faults := smap_put subject (faults_of (el_faults l) subject \<union> kinds) (el_faults l)\<rparr>) faults l"

section \<open>Facts\<close>

record mesh_fact_evidence =
  me_uptime_valid :: bool
  me_mesh_health_valid :: bool
  me_continuity_observers :: nat
  me_participation_observers :: nat
  me_quorum_required :: nat
  me_fault_recorded :: bool
  me_platform_claims :: verified_platform_claims
  me_claim_observers :: nat

type_synonym claim_counts = "(digest, nat \<times> verified_platform_claims) smap"

definition entry_counts ::
  "node_id \<Rightarrow> u64 \<Rightarrow> mesh_fact_context \<Rightarrow> ledger_key \<times> ledger_record \<Rightarrow> bool" where
  "entry_counts subject incarnation ctx entry =
     (case entry of ((epoch, subj, observer, kind), r) \<Rightarrow>
        \<not> (epoch \<noteq> fc_epoch ctx \<or> subj \<noteq> subject) \<and> lr_incarnation r = incarnation \<and>
        observer \<in> set (fc_observers ctx))"

definition evaluate_entry ::
  "crypto \<Rightarrow> node_id \<Rightarrow> u64 \<Rightarrow> mesh_fact_context \<Rightarrow> ledger_key \<times> ledger_record \<Rightarrow>
   nat \<times> nat \<times> claim_counts \<Rightarrow> nat \<times> nat \<times> claim_counts" where
  "evaluate_entry cr subject incarnation ctx entry counts =
     (case counts of (continuity, participation, claims) \<Rightarrow>
        if \<not> entry_counts subject incarnation ctx entry then counts
        else case entry of ((epoch, subj, observer, kind), r) \<Rightarrow>
          (case kind of
             Attestation \<Rightarrow>
               let continuity = (if card (lr_attestations r) \<ge> kMinContinuityObservations
                                 then continuity + 1 else continuity);
                   d = platform_claims_digest cr (ob_claims (lr_latest r));
                   seen = (case map_of claims d of None \<Rightarrow> 0 | Some (n, c) \<Rightarrow> n)
               in (continuity, participation, smap_put d (seen + 1, ob_claims (lr_latest r)) claims)
           | Participation \<Rightarrow> (continuity, participation + 1, claims)))"

definition evaluate ::
  "crypto \<Rightarrow> eligibility_ledger \<Rightarrow> node_id \<Rightarrow> u64 \<Rightarrow> mesh_fact_context \<Rightarrow> mesh_fact_evidence" where
  "evaluate cr l subject incarnation ctx =
     (let required = witness_threshold ctx subject;
          fault = smap_has (el_faults l) subject;
          none = \<lparr>me_uptime_valid = False, me_mesh_health_valid = False, me_continuity_observers = 0,
                  me_participation_observers = 0, me_quorum_required = required,
                  me_fault_recorded = fault, me_platform_claims = no_claims, me_claim_observers = 0\<rparr>
      in if required = 0 then none
         else case fold (evaluate_entry cr subject incarnation ctx) (el_records l) (0, 0, []) of
                (continuity, participation, claims) \<Rightarrow>
                  let winner = List.find (\<lambda>(d, n, c). n \<ge> required) claims
                  in none\<lparr>me_continuity_observers := continuity,
                          me_participation_observers := participation,
                          me_platform_claims := (case winner of None \<Rightarrow> no_claims | Some (d, n, c) \<Rightarrow> c),
                          me_claim_observers := (case winner of None \<Rightarrow> 0 | Some (d, n, c) \<Rightarrow> n),
                          me_uptime_valid := continuity \<ge> required,
                          me_mesh_health_valid := \<not> fault \<and> participation \<ge> required\<rparr>)"

definition max_height :: "eligibility_ledger \<Rightarrow> u64 \<Rightarrow> u64" where
  "max_height l epoch =
     fold (\<lambda>(key, r) m. if fst key = epoch then max m (ob_height (lr_latest r)) else m) (el_records l) 0"

text \<open>The two loops below collect observers into \<^verbatim>\<open>std::map<K, std::set<NodeId>>\<close>.\<close>

definition add_observer :: "'k::linorder \<Rightarrow> node_id \<Rightarrow> ('k, node_id set) smap \<Rightarrow> ('k, node_id set) smap" where
  "add_observer k observer m =
     smap_put k (insert observer (case map_of m k of None \<Rightarrow> {} | Some s \<Rightarrow> s)) m"

definition quorum_incarnation ::
  "eligibility_ledger \<Rightarrow> node_id \<Rightarrow> mesh_fact_context \<Rightarrow> u64 option" where
  "quorum_incarnation l subject ctx =
     (let required = witness_threshold ctx subject
      in if required = 0 then None
         else let observers =
                fold (\<lambda>((epoch, subj, observer, kind), r) m.
                    if epoch \<noteq> fc_epoch ctx \<or> subj \<noteq> subject then m
                    else if observer \<notin> set (fc_observers ctx) then m
                    else add_observer (lr_incarnation r) observer m) (el_records l) []
              in map_option fst (List.find (\<lambda>(incarnation, seen). card seen \<ge> required) observers))"

definition fill_facts ::
  "crypto \<Rightarrow> eligibility_ledger \<Rightarrow> tier1_mesh_facts \<Rightarrow> node_id \<Rightarrow> u64 \<Rightarrow> mesh_fact_context \<Rightarrow> tier1_mesh_facts"
where
  "fill_facts cr l facts subject incarnation ctx =
     (let evidence = evaluate cr l subject incarnation ctx
      in facts\<lparr>mf_uptime_valid := me_uptime_valid evidence,
               mf_mesh_health_valid := me_mesh_health_valid evidence\<rparr>)"

definition subjects :: "eligibility_ledger \<Rightarrow> u64 \<Rightarrow> nat \<Rightarrow> node_id list" where
  "subjects l epoch min_observers =
     (let observers =
        fold (\<lambda>((ep, subj, observer, kind), r) m.
            if ep = epoch then add_observer subj observer m else m) (el_records l) []
      in map fst (filter (\<lambda>(subject, seen). card seen \<ge> min_observers) observers))"

definition expire_before :: "u64 \<Rightarrow> eligibility_ledger \<Rightarrow> eligibility_ledger" where
  "expire_before epoch l = l\<lparr>el_records := filter (\<lambda>(key, r). \<not> fst key < epoch) (el_records l)\<rparr>"

section \<open>Snapshots\<close>

record persisted_record =
  ps_latest :: eligibility_observation
  ps_attestations :: "digest list"
  ps_incarnation :: u64

definition snapshot :: "eligibility_ledger \<Rightarrow> persisted_record list" where
  "snapshot l =
     map (\<lambda>(key, r). \<lparr>ps_latest = lr_latest r,
         ps_attestations = sorted_list_of_set (lr_attestations r),
         ps_incarnation = lr_incarnation r\<rparr>) (el_records l)"

text \<open>\<^const>\<open>None\<close> is the exit that clears the records and returns \<^verbatim>\<open>false\<close>.\<close>

fun restore_records ::
  "crypto \<Rightarrow> mesh_fact_context \<Rightarrow> persisted_record list \<Rightarrow> (ledger_key, ledger_record) smap \<Rightarrow>
   (ledger_key, ledger_record) smap option" where
  "restore_records cr ctx [] acc = Some acc"
| "restore_records cr ctx (p # ps) acc =
     (let key = observation_key (ps_latest p);
          r = \<lparr>lr_latest = ps_latest p,
               lr_attestations = (if ob_kind (ps_latest p) = Attestation then set (ps_attestations p) else {}),
               lr_incarnation = ps_incarnation p\<rparr>
      in if fst (record_observation cr (ps_latest p) ctx empty_ledger) \<noteq> Accepted then None
         else if length (ps_attestations p) > kMaxContinuityAttestations then None
         else if ps_incarnation p \<noteq> ob_subject_incarnation (ps_latest p) then None
         else if smap_has acc key then None
         else if ob_kind (ps_latest p) = Attestation \<and> lr_attestations r = {} then None
         else if ob_kind (ps_latest p) \<noteq> Attestation \<and> ps_attestations p \<noteq> [] then None
         else restore_records cr ctx ps (smap_put key r acc))"

definition restore_ledger ::
  "crypto \<Rightarrow> persisted_record list \<Rightarrow> mesh_fact_context \<Rightarrow> eligibility_ledger \<Rightarrow> bool \<times> eligibility_ledger"
where
  "restore_ledger cr persisted ctx l =
     (case restore_records cr ctx persisted [] of
        None \<Rightarrow> (False, l\<lparr>el_records := []\<rparr>)
      | Some rs \<Rightarrow> (True, l\<lparr>el_records := rs\<rparr>))"

section \<open>The ledger invariant\<close>

definition entry_ok :: "crypto \<Rightarrow> mesh_fact_context \<Rightarrow> ledger_key \<Rightarrow> ledger_record \<Rightarrow> bool" where
  "entry_ok cr ctx key r \<longleftrightarrow>
     key = observation_key (lr_latest r) \<and> observation_check cr (lr_latest r) ctx = Accepted \<and>
     lr_incarnation r = ob_subject_incarnation (lr_latest r) \<and>
     finite (lr_attestations r) \<and> card (lr_attestations r) \<le> kMaxContinuityAttestations \<and>
     (lr_attestations r \<noteq> {} \<longleftrightarrow> ob_kind (lr_latest r) = Attestation)"

definition ledger_ok :: "crypto \<Rightarrow> mesh_fact_context \<Rightarrow> eligibility_ledger \<Rightarrow> bool" where
  "ledger_ok cr ctx l \<longleftrightarrow>
     smap_ok (el_records l) \<and> (\<forall>e \<in> set (el_records l). entry_ok cr ctx (fst e) (snd e))"

lemma observation_check_accepted:
  assumes "observation_check cr ob ctx = Accepted"
  shows "ob_network_id ob = fc_network_id ctx" and "ob_epoch ob = fc_epoch ctx"
    and "ob_observer ob \<noteq> ob_subject ob" and "ob_observer ob \<in> set (fc_observers ctx)"
    and "observation_signature_valid cr ob"
  using assms by (auto simp: observation_check_def split: if_splits)

lemma record_observation_refused:
  "fst (record_observation cr ob ctx l) \<noteq> Accepted \<Longrightarrow> snd (record_observation cr ob ctx l) = l"
  by (auto simp: record_observation_def Let_def split: option.splits if_splits)

lemma renewed_record_simps [simp]:
  "lr_latest (first_record ob) = ob" "lr_incarnation (first_record ob) = ob_subject_incarnation ob"
  "lr_latest (renewed_record ob held) = ob"
  "lr_incarnation (renewed_record ob held) = ob_subject_incarnation ob"
  by (simp_all add: first_record_def renewed_record_def Let_def)

lemma record_observation_cases:
  obtains (refused) out where "out \<noteq> Accepted" "record_observation cr ob ctx l = (out, l)"
  | (accepted) r where "observation_check cr ob ctx = Accepted"
      "record_observation cr ob ctx l =
        (Accepted, l\<lparr>el_records := smap_put (observation_key ob) r (el_records l)\<rparr>)"
      "lr_latest r = ob" "lr_incarnation r = ob_subject_incarnation ob"
      "(map_of (el_records l) (observation_key ob) = None \<and> r = first_record ob) \<or>
       (\<exists>held. map_of (el_records l) (observation_key ob) = Some held \<and> r = renewed_record ob held \<and>
          ob_height (lr_latest held) < ob_height ob)"
proof (cases "observation_check cr ob ctx = Accepted")
  case False
  then show ?thesis using refused [of "observation_check cr ob ctx"] by (simp add: record_observation_def)
next
  case True
  show ?thesis
  proof (cases "map_of (el_records l) (observation_key ob)")
    case None
    then show ?thesis using True accepted [of "first_record ob"] by (simp add: record_observation_def Let_def)
  next
    case (Some held)
    then show ?thesis
      using True accepted [of "renewed_record ob held"] refused [of NotNewerThanHeld]
      by (cases "ob_height ob \<le> ob_height (lr_latest held)") (simp_all add: record_observation_def Let_def)
  qed
qed

lemma renewed_record_ok:
  assumes "entry_ok cr ctx (observation_key ob) held" and "observation_check cr ob ctx = Accepted"
  shows "entry_ok cr ctx (observation_key ob) (renewed_record ob held)"
proof -
  have "ob_kind (lr_latest held) = ob_kind ob" using assms(1) by (simp add: entry_ok_def observation_key_def)
  then show ?thesis
    using assms
    by (auto simp: entry_ok_def renewed_record_def Let_def kMaxContinuityAttestations_def card_insert_if
        split: if_splits)
qed

lemma record_observation_ok:
  assumes "ledger_ok cr ctx l"
  shows "ledger_ok cr ctx (snd (record_observation cr ob ctx l))"
proof (cases cr ob ctx l rule: record_observation_cases)
  case refused
  then show ?thesis using assms by simp
next
  case (accepted r)
  have sorted: "smap_ok (el_records l)" using assms by (simp add: ledger_ok_def)
  have "entry_ok cr ctx (observation_key ob) r"
    using accepted(5)
  proof (elim disjE conjE exE)
    assume "r = first_record ob"
    then show ?thesis
      using accepted(1) by (simp add: entry_ok_def first_record_def kMaxContinuityAttestations_def)
  next
    fix h
    assume h: "map_of (el_records l) (observation_key ob) = Some h" "r = renewed_record ob h"
    then have "(observation_key ob, h) \<in> set (el_records l)" using sorted by (simp add: smap_mem_iff)
    then have "entry_ok cr ctx (observation_key ob) h" using assms by (auto simp: ledger_ok_def)
    then show ?thesis using renewed_record_ok accepted(1) h(2) by blast
  qed
  then have "\<forall>e \<in> set (smap_put (observation_key ob) r (el_records l)). entry_ok cr ctx (fst e) (snd e)"
    using assms set_smap_put_subset [of "observation_key ob" r "el_records l"]
    by (auto simp: ledger_ok_def)
  then show ?thesis using sorted accepted(2) by (simp add: ledger_ok_def smap_ok_put)
qed

section \<open>Counting observers\<close>

definition counted ::
  "node_id \<Rightarrow> u64 \<Rightarrow> mesh_fact_context \<Rightarrow> observation_kind \<Rightarrow> (ledger_record \<Rightarrow> bool) \<Rightarrow>
   ledger_key \<times> ledger_record \<Rightarrow> bool" where
  "counted subject inc ctx kind P e \<longleftrightarrow>
     entry_counts subject inc ctx e \<and> snd (snd (snd (fst e))) = kind \<and> P (snd e)"

definition witnesses ::
  "eligibility_ledger \<Rightarrow> node_id \<Rightarrow> u64 \<Rightarrow> mesh_fact_context \<Rightarrow> observation_kind \<Rightarrow>
   (ledger_record \<Rightarrow> bool) \<Rightarrow> node_id set" where
  "witnesses l subject inc ctx kind P =
     {ob \<in> set (fc_observers ctx). \<exists>r. map_of (el_records l) (fc_epoch ctx, subject, ob, kind) = Some r \<and>
        lr_incarnation r = inc \<and> P r}"

abbreviation continuous :: "ledger_record \<Rightarrow> bool" where
  "continuous r \<equiv> kMinContinuityObservations \<le> card (lr_attestations r)"

abbreviation claims_are :: "crypto \<Rightarrow> digest \<Rightarrow> ledger_record \<Rightarrow> bool" where
  "claims_are cr d r \<equiv> platform_claims_digest cr (ob_claims (lr_latest r)) = d"

lemma finite_witnesses [simp]: "finite (witnesses l subject inc ctx kind P)"
  by (simp add: witnesses_def)

lemma length_counted:
  assumes "smap_ok (el_records l)"
  shows "length (filter (counted subject inc ctx kind P) (el_records l)) =
    card (witnesses l subject inc ctx kind P)"
proof -
  let ?F = "filter (counted subject inc ctx kind P) (el_records l)"
  let ?observer = "\<lambda>e :: ledger_key \<times> ledger_record. fst (snd (snd (fst e)))"
  have dist: "distinct (map fst (el_records l))" using assms by (rule smap_ok_distinct)
  have key: "fst e = (fc_epoch ctx, subject, ?observer e, kind)" if "e \<in> set ?F" for e
    by (cases e) (use that in \<open>auto simp: counted_def entry_counts_def\<close>)
  have inj: "inj_on ?observer (set ?F)"
  proof (rule inj_onI)
    fix e f assume ef: "e \<in> set ?F" "f \<in> set ?F" "?observer e = ?observer f"
    then have "fst e = fst f" using key by metis
    then show "e = f"
      using ef dist by (auto simp: distinct_map inj_on_def)
  qed
  have "?observer ` set ?F = witnesses l subject inc ctx kind P"
  proof (intro equalityI subsetI)
    fix ob assume "ob \<in> ?observer ` set ?F"
    then obtain e where e: "e \<in> set ?F" "ob = ?observer e" by blast
    then have "map_of (el_records l) (fst e) = Some (snd e)"
      using smap_mem_iff [OF assms, of "fst e" "snd e"] by simp
    then show "ob \<in> witnesses l subject inc ctx kind P"
      using e key [OF e(1)] by (auto simp: witnesses_def counted_def entry_counts_def)
  next
    fix ob assume "ob \<in> witnesses l subject inc ctx kind P"
    then obtain r where r: "ob \<in> set (fc_observers ctx)" "lr_incarnation r = inc" "P r"
      "map_of (el_records l) (fc_epoch ctx, subject, ob, kind) = Some r" by (auto simp: witnesses_def)
    then have "((fc_epoch ctx, subject, ob, kind), r) \<in> set ?F"
      using assms by (auto simp: smap_mem_iff counted_def entry_counts_def)
    then show "ob \<in> ?observer ` set ?F" by force
  qed
  then have "card (witnesses l subject inc ctx kind P) = card (set ?F)"
    using card_image [OF inj] by simp
  also have "\<dots> = length ?F" using dist by (intro distinct_card distinct_filter) (simp add: distinct_map)
  finally show ?thesis by simp
qed

text \<open>What the loop of \<^verbatim>\<open>evaluate\<close> has counted.\<close>

definition seen_claims :: "claim_counts \<Rightarrow> digest \<Rightarrow> nat" where
  "seen_claims m d = (case map_of m d of None \<Rightarrow> 0 | Some (n, c) \<Rightarrow> n)"

definition claim_counts_ok :: "crypto \<Rightarrow> claim_counts \<Rightarrow> bool" where
  "claim_counts_ok cr m \<longleftrightarrow> smap_ok m \<and>
     (\<forall>d n c. map_of m d = Some (n, c) \<longrightarrow> 0 < n \<and> platform_claims_digest cr c = d)"

lemma claim_counts_put:
  assumes "claim_counts_ok cr m"
  shows "claim_counts_ok cr (smap_put (platform_claims_digest cr c) (Suc n, c) m)"
  using assms by (auto simp: claim_counts_ok_def smap_get_put smap_ok_put)

lemma fold_evaluate_entry:
  assumes "claim_counts_ok cr m"
    and "fold (evaluate_entry cr subject inc ctx) xs (a, b, m) = (a', b', m')"
  shows "a' = a + length (filter (counted subject inc ctx Attestation continuous) xs) \<and>
    b' = b + length (filter (counted subject inc ctx Participation (\<lambda>_. True)) xs) \<and>
    claim_counts_ok cr m' \<and>
    (\<forall>d. seen_claims m' d =
       seen_claims m d + length (filter (counted subject inc ctx Attestation (claims_are cr d)) xs))"
  using assms
proof (induction xs arbitrary: a b m)
  case (Cons x xs)
  obtain ep sj ob k r where x: "x = ((ep, sj, ob, k), r)" by (cases x) auto
  show ?case
  proof (cases "entry_counts subject inc ctx x")
    case False
    then show ?thesis
      using Cons.IH [of m a b] Cons.prems by (simp add: evaluate_entry_def counted_def)
  next
    case True
    show ?thesis
    proof (cases k)
      case Participation
      with True show ?thesis
        using Cons.IH [of m a "Suc b"] Cons.prems by (simp add: evaluate_entry_def counted_def x)
    next
      case Attestation
      let ?d = "platform_claims_digest cr (ob_claims (lr_latest r))"
      let ?m = "smap_put ?d (Suc (seen_claims m ?d), ob_claims (lr_latest r)) m"
      have "claim_counts_ok cr ?m" using Cons.prems(1) by (rule claim_counts_put)
      moreover have "seen_claims ?m d = seen_claims m d + (if d = ?d then 1 else 0)" for d
        by (simp add: seen_claims_def smap_get_put)
      moreover have "evaluate_entry cr subject inc ctx x (a, b, m) = (if continuous r then Suc a else a, b, ?m)"
        using True Attestation by (simp add: evaluate_entry_def x seen_claims_def Let_def)
      moreover have "counted subject inc ctx Attestation P x \<longleftrightarrow> P r"
        "\<not> counted subject inc ctx Participation (\<lambda>_. True) x" for P
        using True Attestation by (simp_all add: counted_def x)
      ultimately show ?thesis
        using Cons.IH [of ?m "if continuous r then Suc a else a" b] Cons.prems(2) by auto
    qed
  qed
qed simp

lemma evaluate_counts:
  assumes "smap_ok (el_records l)" and "witness_threshold ctx subject \<noteq> 0"
  shows "me_continuity_observers (evaluate cr l subject inc ctx) =
      card (witnesses l subject inc ctx Attestation continuous)"
    and "me_participation_observers (evaluate cr l subject inc ctx) =
      card (witnesses l subject inc ctx Participation (\<lambda>_. True))"
    and "me_uptime_valid (evaluate cr l subject inc ctx) \<longleftrightarrow> witness_threshold ctx subject \<le>
      card (witnesses l subject inc ctx Attestation continuous)"
    and "me_mesh_health_valid (evaluate cr l subject inc ctx) \<longleftrightarrow> map_of (el_faults l) subject = None \<and>
      witness_threshold ctx subject \<le> card (witnesses l subject inc ctx Participation (\<lambda>_. True))"
    and "(me_platform_claims (evaluate cr l subject inc ctx), me_claim_observers (evaluate cr l subject inc ctx))
      \<in> {(c, n). \<exists>d. n = card (witnesses l subject inc ctx Attestation (claims_are cr d)) \<and>
            witness_threshold ctx subject \<le> n \<and> platform_claims_digest cr c = d} \<union>
        {(no_claims, 0) | d :: digest. \<forall>d.
            card (witnesses l subject inc ctx Attestation (claims_are cr d)) < witness_threshold ctx subject}"
proof -
  obtain a b m where f: "fold (evaluate_entry cr subject inc ctx) (el_records l) (0, 0, []) = (a, b, m)"
    by (cases "fold (evaluate_entry cr subject inc ctx) (el_records l) (0, 0, [])")
  have ok0: "claim_counts_ok cr []" by (simp add: claim_counts_ok_def)
  note counts = fold_evaluate_entry [OF ok0 f, unfolded length_counted [OF assms(1)]]
  have seen: "seen_claims m d = card (witnesses l subject inc ctx Attestation (claims_are cr d))" for d
    using counts by (simp add: seen_claims_def)
  have ok: "claim_counts_ok cr m" using counts by simp
  note ev = evaluate_def Let_def f assms(2)
  show "me_continuity_observers (evaluate cr l subject inc ctx) =
      card (witnesses l subject inc ctx Attestation continuous)"
    and "me_participation_observers (evaluate cr l subject inc ctx) =
      card (witnesses l subject inc ctx Participation (\<lambda>_. True))"
    and "me_uptime_valid (evaluate cr l subject inc ctx) \<longleftrightarrow> witness_threshold ctx subject \<le>
      card (witnesses l subject inc ctx Attestation continuous)"
    and "me_mesh_health_valid (evaluate cr l subject inc ctx) \<longleftrightarrow> map_of (el_faults l) subject = None \<and>
      witness_threshold ctx subject \<le> card (witnesses l subject inc ctx Participation (\<lambda>_. True))"
    using counts by (simp_all add: ev)
  show "(me_platform_claims (evaluate cr l subject inc ctx), me_claim_observers (evaluate cr l subject inc ctx))
      \<in> {(c, n). \<exists>d. n = card (witnesses l subject inc ctx Attestation (claims_are cr d)) \<and>
            witness_threshold ctx subject \<le> n \<and> platform_claims_digest cr c = d} \<union>
        {(no_claims, 0) | d :: digest. \<forall>d.
            card (witnesses l subject inc ctx Attestation (claims_are cr d)) < witness_threshold ctx subject}"
  proof (cases "List.find (\<lambda>(d, n, c). witness_threshold ctx subject \<le> n) m")
    case None
    have "seen_claims m d < witness_threshold ctx subject" for d
    proof (cases "map_of m d")
      case None
      then show ?thesis using assms(2) by (simp add: seen_claims_def)
    next
      case (Some nc)
      then have "(d, nc) \<in> set m" by (rule map_of_SomeD)
      then have "\<not> witness_threshold ctx subject \<le> fst nc"
        using \<open>List.find _ m = None\<close> by (cases nc) (auto simp: find_None_iff)
      with Some show ?thesis by (simp add: seen_claims_def split_beta)
    qed
    with None show ?thesis by (simp add: ev seen)
  next
    case (Some w)
    obtain d n c where w: "w = (d, n, c)" by (cases w)
    with Some have "w \<in> set m" and le: "witness_threshold ctx subject \<le> n"
      by (auto simp: find_Some_iff in_set_conv_nth)
    then have "map_of m d = Some (n, c)"
      using ok w by (simp add: claim_counts_ok_def smap_mem_iff)
    then have "platform_claims_digest cr c = d" and "n = seen_claims m d"
      using ok by (auto simp: claim_counts_ok_def seen_claims_def)
    with Some w le show ?thesis by (simp add: ev seen)
  qed
qed

section \<open>Witness thresholds\<close>

text \<open>What the safety arguments need of a context; both kinds of context provide it.\<close>

definition context_ok :: "mesh_fact_context \<Rightarrow> bool" where
  "context_ok ctx \<longleftrightarrow> distinct (fc_observers ctx) \<and>
     consensus_quorum (length (fc_observers ctx)) \<le> fc_quorum ctx \<and>
     fc_quorum ctx \<le> length (fc_observers ctx)"

lemma context_ok_established: "distinct members \<Longrightarrow> context_ok (established_fact_context nw ep members)"
  by (simp add: context_ok_def established_fact_context_def consensus_quorum_le)

lemma context_ok_genesis: "distinct founders \<Longrightarrow> context_ok (genesis_fact_context nw founders)"
  by (simp add: context_ok_def genesis_fact_context_def consensus_quorum_le)

lemma threshold_above_faults:
  assumes "context_ok ctx" and "witness_threshold ctx subject \<noteq> 0"
  shows "max_byzantine_faults (length (fc_observers ctx)) < witness_threshold ctx subject"
proof (cases "subject \<in> set (fc_observers ctx)")
  case True
  then show ?thesis by (simp add: witness_threshold_def Let_def less_max_iff_disj)
next
  case False
  let ?n = "length (fc_observers ctx)"
  have "0 < ?n" using assms False by (cases ?n) (auto simp: context_ok_def witness_threshold_def Let_def)
  then have "max_byzantine_faults ?n < consensus_quorum ?n"
    using max_byzantine_faults_bound [of ?n] by (simp add: consensus_quorum_def)
  then show ?thesis using assms(1) False by (simp add: witness_threshold_def context_ok_def Let_def)
qed

lemma threshold_majority:
  assumes "context_ok ctx" and "witness_threshold ctx subject \<noteq> 0"
  shows "card (set (fc_observers ctx) - {subject}) < 2 * witness_threshold ctx subject"
proof -
  let ?n = "length (fc_observers ctx)" and ?f = "max_byzantine_faults (length (fc_observers ctx))"
  have n: "card (set (fc_observers ctx)) = ?n" using assms(1) by (simp add: context_ok_def distinct_card)
  show ?thesis
  proof (cases "subject \<in> set (fc_observers ctx)")
    case True
    then have pos: "0 < ?n" by (cases "fc_observers ctx") auto
    have "card (set (fc_observers ctx) - {subject}) = ?n - 1" using True n by simp
    moreover have "?n - ?f - 1 \<le> witness_threshold ctx subject" "?f + 1 \<le> witness_threshold ctx subject"
      using assms(1) True
      by (auto simp: witness_threshold_def context_ok_def consensus_quorum_def Let_def le_max_iff_disj)
    ultimately show ?thesis using max_byzantine_faults_bound [OF pos] pos by linarith
  next
    case False
    then have "card (set (fc_observers ctx) - {subject}) = ?n" using n by simp
    moreover have "?n - ?f \<le> witness_threshold ctx subject" "0 < witness_threshold ctx subject"
      using assms False by (auto simp: witness_threshold_def context_ok_def consensus_quorum_def)
    ultimately show ?thesis
      using max_byzantine_faults_bound [of ?n] by (cases "0 < ?n") (linarith, simp)
  qed
qed

lemma threshold_correct_witness:
  assumes "context_ok ctx" and "witness_threshold ctx subject \<noteq> 0"
    and "card (set (fc_observers ctx) - H) \<le> max_byzantine_faults (length (fc_observers ctx))"
    and "W \<subseteq> set (fc_observers ctx)" and "witness_threshold ctx subject \<le> card W"
  shows "W \<inter> H \<noteq> {}"
proof
  assume "W \<inter> H = {}"
  then have "W \<subseteq> set (fc_observers ctx) - H" using assms(4) by blast
  then have "card W \<le> card (set (fc_observers ctx) - H)" by (intro card_mono) auto
  then show False using threshold_above_faults [OF assms(1,2)] assms(3,5) by linarith
qed

lemma witnesses_observers:
  assumes "ledger_ok cr ctx l"
  shows "witnesses l subject inc ctx kind P \<subseteq> set (fc_observers ctx) - {subject}"
proof
  fix ob assume "ob \<in> witnesses l subject inc ctx kind P"
  then obtain r where ob: "ob \<in> set (fc_observers ctx)"
    and "map_of (el_records l) (fc_epoch ctx, subject, ob, kind) = Some r" by (auto simp: witnesses_def)
  then have "((fc_epoch ctx, subject, ob, kind), r) \<in> set (el_records l)" by (auto dest: map_of_SomeD)
  then have "entry_ok cr ctx (fc_epoch ctx, subject, ob, kind) r" using assms by (auto simp: ledger_ok_def)
  then have "ob \<noteq> subject"
    using observation_check_accepted(3) by (auto simp: entry_ok_def observation_key_def)
  with ob show "ob \<in> set (fc_observers ctx) - {subject}" by simp
qed

text \<open>A witness counted for a fact signed the statement the ledger holds.\<close>

lemma witness_statement:
  assumes "ledger_ok cr ctx l" and "h \<in> witnesses l subject inc ctx kind P"
  obtains r where "map_of (el_records l) (fc_epoch ctx, subject, h, kind) = Some r" and "P r"
    and "ob_observer (lr_latest r) = h" "ob_subject (lr_latest r) = subject" "ob_kind (lr_latest r) = kind"
    and "ob_subject_incarnation (lr_latest r) = inc" "ob_epoch (lr_latest r) = fc_epoch ctx"
    and "observation_signature_valid cr (lr_latest r)"
proof -
  from assms(2) obtain r where r: "map_of (el_records l) (fc_epoch ctx, subject, h, kind) = Some r"
    "lr_incarnation r = inc" "P r" by (auto simp: witnesses_def)
  then have "((fc_epoch ctx, subject, h, kind), r) \<in> set (el_records l)" by (auto dest: map_of_SomeD)
  then have ok: "entry_ok cr ctx (fc_epoch ctx, subject, h, kind) r" using assms by (auto simp: ledger_ok_def)
  show thesis
    by (rule that [OF r(1,3)])
      (use ok r(2) observation_check_accepted(5) in \<open>auto simp: entry_ok_def observation_key_def\<close>)
qed

lemma claim_set_unique:
  assumes "context_ok ctx" and "ledger_ok cr ctx l" and "witness_threshold ctx subject \<noteq> 0"
    and "witness_threshold ctx subject \<le> card (witnesses l subject inc ctx Attestation (claims_are cr d))"
    and "witness_threshold ctx subject \<le> card (witnesses l subject inc ctx Attestation (claims_are cr d'))"
  shows "d = d'"
proof (rule ccontr)
  assume ne: "d \<noteq> d'"
  let ?W = "witnesses l subject inc ctx Attestation (claims_are cr d)"
    and ?W' = "witnesses l subject inc ctx Attestation (claims_are cr d')"
  have "?W \<inter> ?W' = {}" using ne by (auto simp: witnesses_def)
  then have "card ?W + card ?W' = card (?W \<union> ?W')" by (simp add: card_Un_disjoint)
  also have "\<dots> \<le> card (set (fc_observers ctx) - {subject})"
    using witnesses_observers [OF assms(2)] by (intro card_mono) auto
  also have "\<dots> < 2 * witness_threshold ctx subject" using assms(1,3) by (rule threshold_majority)
  finally show False using assms(4,5) by linarith
qed

section \<open>Snapshots restore\<close>

lemma smap_put_last: "\<forall>e \<in> set m. fst e < k \<Longrightarrow> smap_put k v m = m @ [(k, v)]"
  by (induction m) auto

lemma restore_snapshot_records:
  assumes "sorted_wrt (<) (map fst (acc @ rs))" and "\<forall>e \<in> set rs. entry_ok cr ctx (fst e) (snd e)"
  shows "restore_records cr ctx (snapshot \<lparr>el_records = rs, el_faults = fs\<rparr>) acc = Some (acc @ rs)"
  using assms
proof (induction rs arbitrary: acc)
  case (Cons e rs)
  obtain key r where e: "e = (key, r)" by (cases e)
  obtain lat att inc where r: "r = \<lparr>lr_latest = lat, lr_attestations = att, lr_incarnation = inc\<rparr>" by (cases r)
  have ok: "entry_ok cr ctx key r" using Cons.prems(2) e by simp
  have less: "\<forall>x \<in> set acc. fst x < key" using Cons.prems(1) by (auto simp: e sorted_wrt_append)
  have fresh: "map_of acc key = None" using less by (force simp: map_of_eq_None_iff)
  have chk: "observation_check cr (lr_latest r) ctx = Accepted" using ok by (simp add: entry_ok_def)
  have "restore_records cr ctx (snapshot \<lparr>el_records = rs, el_faults = fs\<rparr>) (acc @ [(key, r)]) =
      Some ((acc @ [(key, r)]) @ rs)"
    using Cons.prems by (intro Cons.IH) (simp_all add: e)
  then show ?case
    using ok less fresh chk
    by (auto simp: snapshot_def e r entry_ok_def record_observation_def empty_ledger_def Let_def
        smap_put_last)
qed (simp add: snapshot_def)

lemma restore_snapshot:
  assumes "ledger_ok cr ctx l"
  shows "restore_ledger cr (snapshot l) ctx l0 = (True, l0\<lparr>el_records := el_records l\<rparr>)"
proof -
  have "snapshot l = snapshot \<lparr>el_records = el_records l, el_faults = []\<rparr>" by (simp add: snapshot_def)
  then show ?thesis
    using assms restore_snapshot_records [of "[]" "el_records l" cr ctx "[]"]
    by (simp add: restore_ledger_def ledger_ok_def smap_ok_def)
qed

text \<open>The ledger of a sequence of observations under one context.\<close>

definition observe_all :: "crypto \<Rightarrow> mesh_fact_context \<Rightarrow> eligibility_observation list \<Rightarrow> eligibility_ledger" where
  "observe_all cr ctx obs = fold (\<lambda>ob l. snd (record_observation cr ob ctx l)) obs empty_ledger"

lemma observe_all_ok: "ledger_ok cr ctx (observe_all cr ctx obs)"
proof -
  have "ledger_ok cr ctx l \<Longrightarrow> ledger_ok cr ctx (fold (\<lambda>ob l. snd (record_observation cr ob ctx l)) obs l)" for l
    by (induction obs arbitrary: l) (simp_all add: record_observation_ok)
  moreover have "ledger_ok cr ctx empty_ledger" by (simp add: ledger_ok_def empty_ledger_def)
  ultimately show ?thesis by (simp add: observe_all_def)
qed

lemma record_observation_faults: "el_faults (snd (record_observation cr ob ctx l)) = el_faults l"
  by (cases cr ob ctx l rule: record_observation_cases) auto

text \<open>The facts of a well-formed ledger have correct witnesses: whatever reaches the bar was said by a
  correct member other than the subject.\<close>

lemma bar_correct_statement:
  assumes "context_ok ctx" and "witness_threshold ctx subject \<noteq> 0"
    and "card (set (fc_observers ctx) - H) \<le> max_byzantine_faults (length (fc_observers ctx))"
    and ok: "ledger_ok cr ctx l"
    and bar: "witness_threshold ctx subject \<le> card (witnesses l subject inc ctx kind P)"
  shows "\<exists>h \<in> H - {subject}. \<exists>r. map_of (el_records l) (fc_epoch ctx, subject, h, kind) = Some r \<and>
      ob_subject_incarnation (lr_latest r) = inc \<and> ob_observer (lr_latest r) = h \<and>
      observation_signature_valid cr (lr_latest r) \<and> P r"
proof -
  have sub: "witnesses l subject inc ctx kind P \<subseteq> set (fc_observers ctx) - {subject}"
    using witnesses_observers [OF ok] .
  obtain h where h: "h \<in> H - {subject}" "h \<in> witnesses l subject inc ctx kind P"
    using threshold_correct_witness [OF assms(1-3) _ bar] sub by blast
  then show ?thesis using witness_statement [OF ok h(2)] by metis
qed

lemma ledger_fact_witness:
  assumes "context_ok ctx"
    and "card (set (fc_observers ctx) - H) \<le> max_byzantine_faults (length (fc_observers ctx))"
    and ok: "ledger_ok cr ctx l"
  shows "(me_uptime_valid (evaluate cr l subject inc ctx) \<longrightarrow>
      (\<exists>h \<in> H - {subject}. \<exists>r. map_of (el_records l) (fc_epoch ctx, subject, h, Attestation) = Some r \<and>
         ob_subject_incarnation (lr_latest r) = inc \<and> ob_observer (lr_latest r) = h \<and>
         observation_signature_valid cr (lr_latest r) \<and> 2 \<le> card (lr_attestations r))) \<and>
    (me_mesh_health_valid (evaluate cr l subject inc ctx) \<longrightarrow> map_of (el_faults l) subject = None \<and>
      (\<exists>h \<in> H - {subject}. \<exists>r. map_of (el_records l) (fc_epoch ctx, subject, h, Participation) = Some r \<and>
         ob_subject_incarnation (lr_latest r) = inc \<and> ob_observer (lr_latest r) = h \<and>
         observation_signature_valid cr (lr_latest r)))"
proof (cases "witness_threshold ctx subject = 0")
  case True
  then show ?thesis by (simp add: evaluate_def Let_def)
next
  case False
  note counts = evaluate_counts(3,4) [of l ctx subject cr inc, OF _ False]
  note correct = bar_correct_statement [OF assms(1) False assms(2) ok, of inc]
  have sorted: "smap_ok (el_records l)" using ok by (simp add: ledger_ok_def)
  show ?thesis
    using correct [of Attestation continuous] correct [of Participation "\<lambda>_. True"]
    unfolding counts [OF sorted] by (simp add: kMinContinuityObservations_def)
qed

text \<open>Claims that are not empty were signed by a correct member, up to their digest.\<close>

lemma ledger_claims_witness:
  assumes "context_ok ctx"
    and "card (set (fc_observers ctx) - H) \<le> max_byzantine_faults (length (fc_observers ctx))"
    and ok: "ledger_ok cr ctx l"
    and "me_platform_claims (evaluate cr l subject inc ctx) \<noteq> no_claims"
  shows "\<exists>h \<in> H - {subject}. \<exists>r. map_of (el_records l) (fc_epoch ctx, subject, h, Attestation) = Some r \<and>
      ob_subject_incarnation (lr_latest r) = inc \<and> ob_observer (lr_latest r) = h \<and>
      observation_signature_valid cr (lr_latest r) \<and>
      platform_claims_digest cr (ob_claims (lr_latest r)) =
        platform_claims_digest cr (me_platform_claims (evaluate cr l subject inc ctx))"
proof -
  have bar: "witness_threshold ctx subject \<noteq> 0"
    using assms(4) unfolding evaluate_def Let_def by (rule contrapos_nn) simp
  have sorted: "smap_ok (el_records l)" using ok by (simp add: ledger_ok_def)
  show ?thesis
    using evaluate_counts(5) [of l ctx subject cr inc, OF sorted bar] assms(4)
      bar_correct_statement [OF assms(1) bar assms(2) ok, of inc Attestation]
    by auto
qed

section \<open>Statements that are new to the ledger\<close>

text \<open>A statement as a record of the store, with digests beside it.\<close>

definition stored_beside :: "digest list \<Rightarrow> eligibility_observation \<Rightarrow> persisted_record" where
  "stored_beside ds ob = \<lparr>ps_latest = ob, ps_attestations = ds, ps_incarnation = ob_subject_incarnation ob\<rparr>"

lemma record_fresh:
  assumes "observation_check cr ob ctx = Accepted" and "map_of (el_records l) (observation_key ob) = None"
  shows "snd (record_observation cr ob ctx l) = l\<lparr>el_records := smap_put (observation_key ob) (first_record ob) (el_records l)\<rparr>"
  using assms by (simp add: record_observation_def Let_def)

lemma observe_fresh:
  assumes "\<forall>ob \<in> set obs. observation_check cr ob ctx = Accepted" and "distinct (map observation_key obs)"
    and "\<forall>ob \<in> set obs. map_of (el_records l) (observation_key ob) = None"
  shows "map_of (el_records (fold (\<lambda>ob l. snd (record_observation cr ob ctx l)) obs l)) =
    map_of (el_records l) ++ (map_of (map (\<lambda>ob. (observation_key ob, first_record ob)) obs))"
  using assms
proof (induction obs arbitrary: l)
  case (Cons ob obs)
  let ?l = "snd (record_observation cr ob ctx l)" and ?F = "\<lambda>ob. (observation_key ob, first_record ob)"
  have l: "map_of (el_records ?l) = (map_of (el_records l))(observation_key ob \<mapsto> first_record ob)"
    using Cons.prems(1,3) by (simp add: record_fresh smap_get_put fun_eq_iff)
  have other: "observation_key ob \<notin> observation_key ` set obs" using Cons.prems(2) by simp
  have "map_of (el_records ?l) (observation_key x) = None" if "x \<in> set obs" for x
  proof -
    have "observation_key x \<noteq> observation_key ob" using other imageI [OF that, of observation_key] by metis
    then show ?thesis using Cons.prems(3) that by (simp add: l)
  qed
  then have "map_of (el_records (fold (\<lambda>ob l. snd (record_observation cr ob ctx l)) obs ?l)) =
      map_of (el_records ?l) ++ map_of (map ?F obs)"
    using Cons.prems(1,2) by (intro Cons.IH) simp_all
  moreover have "observation_key ob \<notin> dom (map_of (map ?F obs))" using other by (simp add: dom_map_of_conv_image_fst image_image)
  ultimately show ?case by (auto simp: l fun_eq_iff map_add_def dom_def split: option.split)
qed simp

lemma restore_fresh:
  assumes "\<forall>ob \<in> set obs. observation_check cr ob ctx = Accepted \<and> ob_kind ob = Attestation"
    and "distinct (map observation_key obs)" and "\<forall>ob \<in> set obs. map_of acc (observation_key ob) = None"
    and "ds \<noteq> []" and "length ds \<le> kMaxContinuityAttestations" and "smap_ok acc"
  shows "\<exists>rs. restore_records cr ctx (map (stored_beside ds) obs) acc = Some rs \<and> smap_ok rs \<and> map_of rs = map_of acc ++
    map_of (map (\<lambda>ob. (observation_key ob, \<lparr>lr_latest = ob, lr_attestations = set ds,
      lr_incarnation = ob_subject_incarnation ob\<rparr>)) obs)"
  using assms(1-3,6)
proof (induction obs arbitrary: acc)
  case (Cons ob obs)
  let ?entry = "\<lambda>ob. (observation_key ob, \<lparr>lr_latest = ob, lr_attestations = set ds, lr_incarnation = ob_subject_incarnation ob\<rparr>)"
  let ?acc = "smap_put (observation_key ob) (snd (?entry ob)) acc"
  have acc: "map_of ?acc = (map_of acc)(observation_key ob \<mapsto> snd (?entry ob))" "smap_ok ?acc"
    using Cons.prems(4) by (simp_all add: smap_get_put fun_eq_iff smap_ok_put)
  have other: "observation_key ob \<notin> observation_key ` set obs" using Cons.prems(2) by simp
  have "map_of ?acc (observation_key x) = None" if "x \<in> set obs" for x
  proof -
    have "observation_key x \<noteq> observation_key ob" using other imageI [OF that, of observation_key] by metis
    then show ?thesis using Cons.prems(3) that by (simp add: smap_get_put)
  qed
  then obtain rs where "restore_records cr ctx (map (stored_beside ds) obs) ?acc = Some rs" "smap_ok rs"
    "map_of rs = map_of ?acc ++ map_of (map ?entry obs)"
    using Cons.IH [of ?acc] Cons.prems(1,2) acc(2) by auto
  moreover have step: "restore_records cr ctx (map (stored_beside ds) (ob # obs)) acc =
      restore_records cr ctx (map (stored_beside ds) obs) ?acc"
    using Cons.prems(1,3) assms(4,5) by (simp add: stored_beside_def record_observation_def Let_def empty_ledger_def)
  have "observation_key ob \<notin> dom (map_of (map ?entry obs))" using other by (simp add: dom_map_of_conv_image_fst image_image)
  then have sum: "map_of acc ++ map_of (map ?entry (ob # obs)) = map_of ?acc ++ map_of (map ?entry obs)"
    by (auto simp: fun_eq_iff map_add_def dom_def smap_get_put split: option.split)
  ultimately show ?case unfolding step sum by blast
qed simp

text \<open>Attestations of one subject and one incarnation, one from each observer: each is a record of its own. Recorded,
  they show no continuity; stored beside two digests, they do.\<close>

definition single_attestations ::
  "crypto \<Rightarrow> mesh_fact_context \<Rightarrow> node_id \<Rightarrow> u64 \<Rightarrow> eligibility_observation list \<Rightarrow> bool" where
  "single_attestations cr ctx subject inc obs \<longleftrightarrow>
     (\<forall>ob \<in> set obs. observation_check cr ob ctx = Accepted \<and> ob_kind ob = Attestation \<and> ob_subject ob = subject \<and>
        ob_subject_incarnation ob = inc) \<and> distinct (map ob_observer obs)"

lemma single_attestation_keys:
  assumes "single_attestations cr ctx subject inc obs"
  shows "ob \<in> set obs \<Longrightarrow> observation_key ob = (fc_epoch ctx, subject, ob_observer ob, Attestation)"
    and "ob \<in> set obs \<Longrightarrow> ob_observer ob \<in> set (fc_observers ctx)" and "distinct (map observation_key obs)"
proof -
  have key: "observation_key ob = (fc_epoch ctx, subject, ob_observer ob, Attestation) \<and>
      ob_observer ob \<in> set (fc_observers ctx)" if "ob \<in> set obs" for ob
    using that assms observation_check_accepted [of cr ob ctx] by (auto simp: observation_key_def single_attestations_def)
  then show "ob \<in> set obs \<Longrightarrow> observation_key ob = (fc_epoch ctx, subject, ob_observer ob, Attestation)"
    and "ob \<in> set obs \<Longrightarrow> ob_observer ob \<in> set (fc_observers ctx)" by simp_all
  from key have keys: "map observation_key obs = map (\<lambda>ob. (fc_epoch ctx, subject, ob_observer ob, Attestation)) obs" by simp
  show "distinct (map observation_key obs)"
    unfolding keys using assms by (auto simp: distinct_map inj_on_def single_attestations_def)
qed

lemma single_attestations_no_uptime:
  assumes "single_attestations cr ctx subject inc obs" and "0 < witness_threshold ctx subject"
  shows "\<not> me_uptime_valid (evaluate cr (observe_all cr ctx obs) subject inc ctx)"
proof -
  have "map_of (el_records (observe_all cr ctx obs)) = map_of (map (\<lambda>ob. (observation_key ob, first_record ob)) obs)"
    using observe_fresh [of obs cr ctx empty_ledger] assms(1) single_attestation_keys(3) [OF assms(1)]
    by (simp add: observe_all_def empty_ledger_def single_attestations_def)
  then have "witnesses (observe_all cr ctx obs) subject inc ctx Attestation continuous = {}"
    unfolding witnesses_def
    by (auto dest!: map_of_SomeD simp: first_record_def kMinContinuityObservations_def split: if_splits)
  moreover have "smap_ok (el_records (observe_all cr ctx obs))" using observe_all_ok by (simp add: ledger_ok_def)
  ultimately show ?thesis using evaluate_counts(3) assms(2) by fastforce
qed

lemma stored_beside_uptime:
  assumes "single_attestations cr ctx subject inc obs" and "witness_threshold ctx subject \<le> length obs"
    and "0 < witness_threshold ctx subject" and "d1 \<noteq> d2"
  shows "\<exists>l. restore_ledger cr (map (stored_beside [d1, d2]) obs) ctx empty_ledger = (True, l) \<and>
    me_uptime_valid (evaluate cr l subject inc ctx)"
proof -
  note keys = single_attestation_keys [OF assms(1)]
  let ?G = "\<lambda>ob. (observation_key ob, \<lparr>lr_latest = ob, lr_attestations = set [d1, d2], lr_incarnation = ob_subject_incarnation ob\<rparr>)"
  obtain rs where rs: "restore_records cr ctx (map (stored_beside [d1, d2]) obs) [] = Some rs" "smap_ok rs"
    "map_of rs = map_of (map ?G obs)"
    using restore_fresh [of obs cr ctx "[]" "[d1, d2]"] assms(1) keys(3)
    by (auto simp: kMaxContinuityAttestations_def single_attestations_def)
  let ?l = "\<lparr>el_records = rs, el_faults = []\<rparr>"
  have "set (map ob_observer obs) \<subseteq> witnesses ?l subject inc ctx Attestation continuous"
  proof
    fix w
    assume "w \<in> set (map ob_observer obs)"
    then obtain ob where ob: "ob \<in> set obs" "w = ob_observer ob" by auto
    have "map_of (map ?G obs) (observation_key ob) = Some (snd (?G ob))"
      using ob(1) keys(3) by (intro map_of_is_SomeI) (auto simp: comp_def)
    then show "w \<in> witnesses ?l subject inc ctx Attestation continuous"
      using keys(1,2) [OF ob(1)] ob assms(1,4)
      by (auto simp: witnesses_def rs(3) kMinContinuityObservations_def single_attestations_def)
  qed
  then have "length obs \<le> card (witnesses ?l subject inc ctx Attestation continuous)"
    using assms(1) card_mono [OF finite_witnesses] unfolding single_attestations_def by (metis distinct_card length_map)
  then have "me_uptime_valid (evaluate cr ?l subject inc ctx)"
    using evaluate_counts(3) [of ?l] rs(2) assms(2,3) by fastforce
  then show ?thesis using rs(1) by (simp add: restore_ledger_def empty_ledger_def)
qed

section \<open>Properties\<close>

text \<open>C12. No mesh fact without a correct witness: in a ledger built from any sequence of observations,
  with at most the tolerated number of faulty observers, a continuity fact means that a correct member
  other than the subject signed an attestation statement about that incarnation and saw at least two
  distinct attestations, and a mesh-health fact means that a correct member signed a participation
  statement about it and no fault is recorded.\<close>

theorem mesh_fact_needs_correct_witness:
  assumes "context_ok ctx"
    and "card (set (fc_observers ctx) - H) \<le> max_byzantine_faults (length (fc_observers ctx))"
    and "l = observe_all cr ctx obs"
  shows "(me_uptime_valid (evaluate cr l subject inc ctx) \<longrightarrow>
      (\<exists>h \<in> H - {subject}. \<exists>r. map_of (el_records l) (fc_epoch ctx, subject, h, Attestation) = Some r \<and>
         ob_subject_incarnation (lr_latest r) = inc \<and> ob_observer (lr_latest r) = h \<and>
         observation_signature_valid cr (lr_latest r) \<and> 2 \<le> card (lr_attestations r))) \<and>
    (me_mesh_health_valid (evaluate cr l subject inc ctx) \<longrightarrow> map_of (el_faults l) subject = None \<and>
      (\<exists>h \<in> H - {subject}. \<exists>r. map_of (el_records l) (fc_epoch ctx, subject, h, Participation) = Some r \<and>
         ob_subject_incarnation (lr_latest r) = inc \<and> ob_observer (lr_latest r) = h \<and>
         observation_signature_valid cr (lr_latest r)))"
  unfolding assms(3) by (rule ledger_fact_witness [OF assms(1,2) observe_all_ok])

text \<open>Five members; three of them saw the first one attest twice and participate.\<close>

definition example_context :: mesh_fact_context where
  "example_context = established_fact_context 1 2 (map NodeId [1, 2, 3, 4, 5])"

definition example_observation :: "node_id \<Rightarrow> observation_kind \<Rightarrow> digest \<Rightarrow> u64 \<Rightarrow> eligibility_observation" where
  "example_observation observer kind d height =
     \<lparr>ob_network_id = 1, ob_epoch = 2, ob_subject = NodeId 1, ob_subject_incarnation = 1, ob_kind = kind,
      ob_attestation_digest = d, ob_claims = no_claims, ob_height = height, ob_state_reference = 0,
      ob_observer = observer, ob_signature = 0\<rparr>"

definition example_observations :: "eligibility_observation list" where
  "example_observations =
     concat (map (\<lambda>n. [example_observation n Attestation 7 3, example_observation n Attestation 8 4,
       example_observation n Participation 0 3]) [NodeId 2, NodeId 3, NodeId 4])"

lemma example_context_simps [simp]:
  "fc_network_id example_context = 1" "fc_epoch example_context = 2" "fc_quorum example_context = 4"
  "fc_observers example_context = map NodeId [1, 2, 3, 4, 5]"
  by (simp_all add: example_context_def established_fact_context_def consensus_quorum_def
      max_byzantine_faults_def)

lemma example_observation_simps [simp]:
  "ob_kind (example_observation n k d h) = k" "ob_attestation_digest (example_observation n k d h) = d"
  "ob_height (example_observation n k d h) = h" "ob_subject_incarnation (example_observation n k d h) = 1"
  "observation_key (example_observation n k d h) = (2, NodeId 1, n, k)"
  "ob_claims (example_observation n k d h) = no_claims" "ob_subject (example_observation n k d h) = NodeId 1"
  by (simp_all add: example_observation_def observation_key_def)

lemma example_context_ok: "context_ok example_context"
  unfolding example_context_def by (rule context_ok_established) simp

lemma no_claims_facts [simp]:
  "platform_claims_are_consistent no_claims" "platform_claim_bits no_claims = 0"
  "cl_profile_id no_claims = UnknownProfile" "\<not> all_platform_claims_proved no_claims"
  by (simp_all add: platform_claims_are_consistent_def no_claims_def kRequired_def platform_claim_bits_def
      kAllClaims_def all_platform_claims_proved_def)

lemma example_observation_check [simp]:
  "n \<in> {NodeId 2, NodeId 3, NodeId 4, NodeId 5} \<Longrightarrow>
    observation_check (example_crypto []) (example_observation n Attestation d h) example_context =
      (if d = 0 then MalformedForKind else Accepted)"
  "n \<in> {NodeId 2, NodeId 3, NodeId 4, NodeId 5} \<Longrightarrow>
    observation_check (example_crypto []) (example_observation n Participation 0 h) example_context = Accepted"
  by (auto simp: observation_check_def example_observation_def observation_signature_valid_def
      observation_signing_digest_def encoder_digest_def example_simps)

text \<open>One observer's three statements, recorded after those of smaller observers.\<close>

definition example_entries :: "node_id \<Rightarrow> (ledger_key \<times> ledger_record) list" where
  "example_entries n =
     [((2, NodeId 1, n, Attestation), \<lparr>lr_latest = example_observation n Attestation 8 4,
         lr_attestations = {7, 8}, lr_incarnation = 1\<rparr>),
      ((2, NodeId 1, n, Participation), \<lparr>lr_latest = example_observation n Participation 0 3,
         lr_attestations = {}, lr_incarnation = 1\<rparr>)]"

lemma example_statements:
  assumes "n \<in> {NodeId 2, NodeId 3, NodeId 4, NodeId 5}"
    and "\<forall>e \<in> set rs. fst e < (2, NodeId 1, n, Attestation)"
  shows "fold (\<lambda>ob l. snd (record_observation (example_crypto []) ob example_context l))
      [example_observation n Attestation 7 3, example_observation n Attestation 8 4,
       example_observation n Participation 0 3] \<lparr>el_records = rs, el_faults = []\<rparr> =
    \<lparr>el_records = rs @ example_entries n, el_faults = []\<rparr>"
proof -
  have less: "(2, NodeId 1, n, Attestation) < (2 :: u64, NodeId 1, n, Participation)"
    by simp
  have below: "\<forall>e \<in> set rs. fst e < (2, NodeId 1, n, Participation)"
    using assms(2) less order.strict_trans by blast
  have none: "map_of rs (2, NodeId 1, n, k) = None" for k
    using assms(2) below by (cases k) (auto simp: map_of_eq_None_iff)
  have put: "smap_put (2, NodeId 1, n, Attestation) r (rs @ [((2, NodeId 1, n, Attestation), r')]) =
      rs @ [((2, NodeId 1, n, Attestation), r)]" for r r' :: ledger_record
    using assms(2) by (induction rs) auto
  show ?thesis
    using assms none below
    by (simp add: record_observation_def first_record_def renewed_record_def Let_def smap_put_last put
        map_add_def kMaxContinuityAttestations_def example_entries_def insert_commute)
qed

lemma example_ledger:
  "observe_all (example_crypto []) example_context example_observations =
     \<lparr>el_records = concat (map example_entries [NodeId 2, NodeId 3, NodeId 4]), el_faults = []\<rparr>"
proof -
  note step = example_statements [simplified fold_simps]
  show ?thesis
    unfolding observe_all_def example_observations_def empty_ledger_def
    by (simp add: step) (simp add: step example_entries_def)
qed

lemma example_evidence:
  "evaluate (example_crypto []) (observe_all (example_crypto []) example_context example_observations)
     (NodeId 1) 1 example_context =
   \<lparr>me_uptime_valid = True, me_mesh_health_valid = True, me_continuity_observers = 3,
    me_participation_observers = 3, me_quorum_required = 3, me_fault_recorded = False,
    me_platform_claims = no_claims, me_claim_observers = 3\<rparr>"
proof -
  have bar: "witness_threshold example_context (NodeId 1) = 3"
    by (simp add: witness_threshold_def max_byzantine_faults_def)
  show ?thesis
    unfolding evaluate_def bar example_ledger
    by (simp add: example_entries_def evaluate_entry_def entry_counts_def Let_def
        kMinContinuityObservations_def platform_claims_digest_def)
qed

theorem mesh_fact_needs_correct_witness_witness:
  "\<exists>h \<in> {NodeId 1, NodeId 2, NodeId 3, NodeId 4} - {NodeId 1}. \<exists>r.
     map_of (el_records (observe_all (example_crypto []) example_context example_observations))
       (2, NodeId 1, h, Attestation) = Some r \<and> ob_observer (lr_latest r) = h \<and>
     observation_signature_valid (example_crypto []) (lr_latest r) \<and> 2 \<le> card (lr_attestations r)"
proof -
  have "card (set (fc_observers example_context) - {NodeId 1, NodeId 2, NodeId 3, NodeId 4}) \<le>
      max_byzantine_faults (length (fc_observers example_context))"
    by (simp add: max_byzantine_faults_def insert_Diff_if)
  from mesh_fact_needs_correct_witness [OF example_context_ok this refl,
      of "example_crypto []" example_observations "NodeId 1" 1]
  show ?thesis unfolding example_evidence by auto
qed

text \<open>At most one claim set wins: if the observers of a ledger reach the witness bar with claims of
  one digest, the evaluation reports claims of exactly that digest and their number, and no other digest
  reaches the bar; below the bar it reports no claims at all.\<close>

theorem agreed_claims_unique:
  assumes "context_ok ctx" and "l = observe_all cr ctx obs" and "witness_threshold ctx subject \<noteq> 0"
  shows "(\<forall>d. witness_threshold ctx subject \<le> card (witnesses l subject inc ctx Attestation (claims_are cr d)) \<longrightarrow>
      platform_claims_digest cr (me_platform_claims (evaluate cr l subject inc ctx)) = d \<and>
      me_claim_observers (evaluate cr l subject inc ctx) =
        card (witnesses l subject inc ctx Attestation (claims_are cr d))) \<and>
    ((\<forall>d. card (witnesses l subject inc ctx Attestation (claims_are cr d)) < witness_threshold ctx subject) \<longrightarrow>
      me_platform_claims (evaluate cr l subject inc ctx) = no_claims \<and>
      me_claim_observers (evaluate cr l subject inc ctx) = 0)"
    (is "(\<forall>d. ?t \<le> ?n d \<longrightarrow> ?won d) \<and> (?low \<longrightarrow> ?none)")
proof -
  have ok: "ledger_ok cr ctx l" using observe_all_ok assms(2) by blast
  then have sorted: "smap_ok (el_records l)" by (simp add: ledger_ok_def)
  note counts = evaluate_counts(5) [OF sorted assms(3), of cr inc]
  note unique = claim_set_unique [OF assms(1) ok assms(3)]
  have "?won d" if "?t \<le> ?n d" for d
  proof -
    from that have "\<not> (\<forall>d. ?n d < ?t)" by (metis not_less)
    with counts obtain d' where d': "?t \<le> ?n d'" "?won d'" by auto
    with unique [OF that d'(1)] show ?thesis by simp
  qed
  moreover have ?none if low: ?low
    using counts low by auto (metis not_less)+
  ultimately show ?thesis by blast
qed

theorem agreed_claims_unique_witness:
  "me_claim_observers (evaluate (example_crypto [])
     (observe_all (example_crypto []) example_context example_observations) (NodeId 1) 1 example_context) =
   card (witnesses (observe_all (example_crypto []) example_context example_observations) (NodeId 1) 1
     example_context Attestation (claims_are (example_crypto []) 0))"
proof -
  have bar: "witness_threshold example_context (NodeId 1) = 3"
    by (simp add: witness_threshold_def max_byzantine_faults_def)
  have "{NodeId 2, NodeId 3, NodeId 4} \<subseteq> witnesses (observe_all (example_crypto []) example_context
      example_observations) (NodeId 1) 1 example_context Attestation (claims_are (example_crypto []) 0)"
    by (simp add: witnesses_def example_ledger example_entries_def platform_claims_digest_def)
  then have "card {NodeId 2, NodeId 3, NodeId 4} \<le> card (witnesses (observe_all (example_crypto [])
      example_context example_observations) (NodeId 1) 1 example_context Attestation
      (claims_are (example_crypto []) 0))"
    by (intro card_mono) simp_all
  then show ?thesis
    using agreed_claims_unique [OF example_context_ok refl, of "NodeId 1" "example_crypto []"
        example_observations 1] bar
    by simp
qed

text \<open>C36. A snapshot restores to the ledger it was taken from: for every sequence of observations under
  a context, restoring the snapshot of the resulting ledger succeeds and yields the same records, so a
  restart loses no continuity.\<close>

theorem snapshot_restore_roundtrip:
  "restore_ledger cr (snapshot (observe_all cr ctx obs)) ctx empty_ledger =
     (True, observe_all cr ctx obs)"
proof -
  have "el_faults (observe_all cr ctx obs) = []"
  proof -
    have "el_faults (fold (\<lambda>ob l. snd (record_observation cr ob ctx l)) obs l) = el_faults l" for l
      by (induction obs arbitrary: l) (simp_all add: record_observation_faults)
    then show ?thesis by (simp add: observe_all_def empty_ledger_def)
  qed
  then have "empty_ledger\<lparr>el_records := el_records (observe_all cr ctx obs)\<rparr> = observe_all cr ctx obs"
    by (simp add: empty_ledger_def)
  then show ?thesis using restore_snapshot [OF observe_all_ok] by simp
qed

text \<open>C37. The digests of a stored attestation record are taken on trust: whoever can edit the store can turn
  single attestations into uptime. Take acceptable attestation statements about one incarnation of one
  subject, one from each of at least as many observers as the threshold asks for, a threshold that is not
  zero. Recorded as they arrive they do not make the subject's uptime valid, as every observer attested
  once. Stored beside any two distinct digests, which need not be signed by anybody, the same statements
  restore, and the uptime is valid.\<close>

theorem restore_trusts_attestation_digests:
  assumes "\<forall>ob \<in> set obs. observation_check cr ob ctx = Accepted \<and> ob_kind ob = Attestation \<and> ob_subject ob = subject \<and>
      ob_subject_incarnation ob = inc"
    and "distinct (map ob_observer obs)" and "witness_threshold ctx subject \<le> length obs"
    and "0 < witness_threshold ctx subject" and "d1 \<noteq> d2"
  shows "\<not> me_uptime_valid (evaluate cr (observe_all cr ctx obs) subject inc ctx) \<and>
    fst (restore_ledger cr (map (stored_beside [d1, d2]) obs) ctx empty_ledger) \<and>
    me_uptime_valid (evaluate cr (snd (restore_ledger cr (map (stored_beside [d1, d2]) obs) ctx empty_ledger)) subject inc ctx)"
proof -
  have single: "single_attestations cr ctx subject inc obs" using assms(1,2) by (simp add: single_attestations_def)
  show ?thesis
    using single_attestations_no_uptime [OF single assms(4)] stored_beside_uptime [OF single assms(3-5)] by auto
qed

theorem restore_trusts_attestation_digests_witness:
  "let obs = map (\<lambda>n. example_observation n Attestation 7 3) [NodeId 2, NodeId 3, NodeId 4]
   in \<not> me_uptime_valid (evaluate (example_crypto []) (observe_all (example_crypto []) example_context obs) (NodeId 1) 1 example_context) \<and>
     me_uptime_valid (evaluate (example_crypto []) (snd (restore_ledger (example_crypto []) (map (stored_beside [100, 200]) obs)
       example_context empty_ledger)) (NodeId 1) 1 example_context)"
proof -
  have "observation_check (example_crypto []) (example_observation n Attestation 7 3) example_context = Accepted"
    if "n \<in> {NodeId 2, NodeId 3, NodeId 4}" for n
    using that by auto
  then show ?thesis
    unfolding Let_def
    using restore_trusts_attestation_digests [of "map (\<lambda>n. example_observation n Attestation 7 3) [NodeId 2, NodeId 3, NodeId 4]"
        "example_crypto []" example_context "NodeId 1" 1 100 200]
    by (simp add: witness_threshold_def max_byzantine_faults_def) (simp add: example_observation_def)
qed

end
