(* ===== verification/Eligibility_Store.thy ===== *)
theory Eligibility_Store
  imports Consensus_Store Eligibility_Ledger
begin

text \<open>
  \<^verbatim>\<open>Security/Eligibility/EligibilityStore.cpp\<close>: the observation file of an epoch and the fault file, as
  JSON documents on the disk of \<open>Consensus_Store\<close>. The hexadecimal form of byte arrays belongs to
  sodium and is a parameter. The lemmas are the round trips of records and faults through their
  documents, and that a successful store is what the next load gives.
\<close>

section \<open>Hexadecimal fields\<close>

definition hex_of :: "hex_codec \<Rightarrow> nat \<Rightarrow> 'a::len word \<Rightarrow> json" where
  "hex_of hx n w = JString (to_hex hx (be_bytes n w))"

definition read_hex :: "hex_codec \<Rightarrow> nat \<Rightarrow> json \<Rightarrow> 'a::len word option" where
  "read_hex hx n v =
     (case v of
        JString s \<Rightarrow>
          (case from_hex hx s of
             None \<Rightarrow> None
           | Some bs \<Rightarrow> if length bs \<noteq> n then None else Some (of_be_bytes bs))
      | _ \<Rightarrow> None)"

text \<open>\<^verbatim>\<open>j.contains(key) && read_hex(j[key], out)\<close>.\<close>

definition read_hex_key :: "hex_codec \<Rightarrow> nat \<Rightarrow> json \<Rightarrow> string \<Rightarrow> 'a::len word option" where
  "read_hex_key hx n j key = Option.bind (json_find j key) (read_hex hx n)"

section \<open>Records\<close>

definition kFormatVersion :: u32 where "kFormatVersion = 1"
definition kMaxStoredRecords :: nat where "kMaxStoredRecords = 64 * 1024"

definition encode :: "hex_codec \<Rightarrow> persisted_record \<Rightarrow> json" where
  "encode hx record =
     (let ob = ps_latest record
      in json_object
        [(''network_id'', hex_of hx 32 (ob_network_id ob)),
         (''epoch'', JUnsigned (ob_epoch ob)),
         (''subject'', hex_of hx 32 (node_bytes (ob_subject ob))),
         (''subject_incarnation'', JUnsigned (ob_subject_incarnation ob)),
         (''kind'', JUnsigned (ucast (kind_code (ob_kind ob)))),
         (''attestation_digest'', hex_of hx 32 (ob_attestation_digest ob)),
         (''profile_id'', JUnsigned (ucast (profile_code (cl_profile_id (ob_claims ob))))),
         (''profile_ruleset'', JUnsigned (ucast (cl_profile_ruleset (ob_claims ob)))),
         (''claim_bits'', JUnsigned (ucast (platform_claim_bits (ob_claims ob)))),
         (''height'', JUnsigned (ob_height ob)),
         (''state_reference'', hex_of hx 32 (ob_state_reference ob)),
         (''observer'', hex_of hx 32 (node_bytes (ob_observer ob))),
         (''signature'', hex_of hx 64 (ob_signature ob)),
         (''incarnation'', JUnsigned (ps_incarnation record)),
         (''attestations'', JArray (map (hex_of hx 32) (ps_attestations record)))])"

definition kind_of_code :: "u64 \<Rightarrow> observation_kind option" where
  "kind_of_code n = List.find (\<lambda>k. ucast (kind_code k) = n) [Attestation, Participation]"

text \<open>The named profiles; the unknown one is stored as zero.\<close>

definition profile_of_code :: "u64 \<Rightarrow> attestation_profile_id option" where
  "profile_of_code n =
     List.find (\<lambda>p. ucast (profile_code p) = n) [UnknownProfile, AzureSnpVtpm, SnpSvsmVtpm, SnpDirectBoot, Tdx]"

definition decode :: "hex_codec \<Rightarrow> json \<Rightarrow> persisted_record option" where
  "decode hx j =
     (if \<not> is_object j then None
      else do {
        nw \<leftarrow> read_hex_key hx 32 j ''network_id'';
        ep \<leftarrow> read_u64 j ''epoch'';
        sb \<leftarrow> read_hex_key hx 32 j ''subject'';
        si \<leftarrow> read_u64 j ''subject_incarnation'';
        kind \<leftarrow> read_u64 j ''kind'';
        ad \<leftarrow> read_hex_key hx 32 j ''attestation_digest'';
        ht \<leftarrow> read_u64 j ''height'';
        sr \<leftarrow> read_hex_key hx 32 j ''state_reference'';
        obs \<leftarrow> read_hex_key hx 32 j ''observer'';
        sg \<leftarrow> read_hex_key hx 64 j ''signature'';
        inc \<leftarrow> read_u64 j ''incarnation'';
        kd \<leftarrow> kind_of_code kind;
        profile_id \<leftarrow> read_u64 j ''profile_id'';
        profile_ruleset \<leftarrow> read_u64 j ''profile_ruleset'';
        claim_bits \<leftarrow> read_u64 j ''claim_bits'';
        if profile_id > 0xFFFF \<or> profile_ruleset > 0xFFFF \<or>
           claim_bits AND NOT (ucast kPlatformClaimBitMask) \<noteq> 0 then None
        else do {
          named \<leftarrow> profile_of_code profile_id;
          es \<leftarrow> (case json_find j ''attestations'' of Some (JArray es) \<Rightarrow> Some es | _ \<Rightarrow> None);
          if length es > kMaxContinuityAttestations then None
          else do {
            ds \<leftarrow> those (map (read_hex hx 32) es);
            Some \<lparr>ps_latest =
                \<lparr>ob_network_id = nw, ob_epoch = ep, ob_subject = NodeId sb, ob_subject_incarnation = si,
                 ob_kind = kd, ob_attestation_digest = ad,
                 ob_claims = platform_claims_from_bits named (ucast profile_ruleset) (ucast claim_bits),
                 ob_height = ht, ob_state_reference = sr, ob_observer = NodeId obs, ob_signature = sg\<rparr>,
              ps_attestations = ds, ps_incarnation = inc\<rparr> } } })"

section \<open>The store\<close>

text \<open>The disk seen from the store's directory, and the outcomes of the writes to come: whether the
  directory could be created, and the calls of the durable write.\<close>

record eligibility_store =
  est_disk :: disk
  est_calls :: "(bool \<times> os_calls) list"

definition write_atomic :: "string \<Rightarrow> string \<Rightarrow> eligibility_store \<Rightarrow> bool \<times> eligibility_store" where
  "write_atomic path content st =
     (case est_calls st of
        [] \<Rightarrow> (False, st)
      | (created, oc) # rest \<Rightarrow>
          if \<not> created then (False, st\<lparr>est_calls := rest\<rparr>)
          else (case write_durable oc path content (est_disk st) of
                  (b, dk) \<Rightarrow> (b, \<lparr>est_disk = dk, est_calls = rest\<rparr>)))"

definition path_for :: "u64 \<Rightarrow> string" where
  "path_for epoch = ''observations-'' @ decimal (unat epoch) @ ''.json''"

definition faults_path :: string where "faults_path = ''faults.json''"

definition observations_document :: "hex_codec \<Rightarrow> u64 \<Rightarrow> persisted_record list \<Rightarrow> json" where
  "observations_document hx epoch records =
     json_object [(''format'', JUnsigned (ucast kFormatVersion)), (''epoch'', JUnsigned epoch),
       (''records'', JArray (map (encode hx) records))]"

definition store_observations ::
  "hex_codec \<Rightarrow> u64 \<Rightarrow> persisted_record list \<Rightarrow> eligibility_store \<Rightarrow> bool \<times> eligibility_store" where
  "store_observations hx epoch records st =
     (if length records > kMaxStoredRecords then (False, st)
      else write_atomic (path_for epoch) (json_dump (hx_json hx) (observations_document hx epoch records)) st)"

text \<open>What \<^verbatim>\<open>std::ifstream\<close> gives: nothing if the file cannot be opened, and else a text, which parses or
  not.\<close>

definition opened :: "disk_file \<Rightarrow> bool" where
  "opened f = (case f of NoFile \<Rightarrow> False | StatFails \<Rightarrow> False | ReadFails \<Rightarrow> True | Content s synced \<Rightarrow> True)"

definition format_ok :: "json \<Rightarrow> bool" where
  "format_ok document =
     (case json_find document ''format'' of Some (JUnsigned n) \<Rightarrow> (ucast n :: u32) = kFormatVersion | _ \<Rightarrow> False)"

definition decode_observations :: "hex_codec \<Rightarrow> u64 \<Rightarrow> json \<Rightarrow> persisted_record list option" where
  "decode_observations hx epoch document =
     (case json_find document ''records'' of
        Some (JArray es) \<Rightarrow>
          if \<not> format_ok document then None
          else if read_u64 document ''epoch'' \<noteq> Some epoch then None
          else if length es > kMaxStoredRecords then None
          else those (map (decode hx) es)
      | _ \<Rightarrow> None)"

definition load_observations ::
  "crypto \<Rightarrow> hex_codec \<Rightarrow> u64 \<Rightarrow> mesh_fact_context \<Rightarrow> eligibility_ledger \<Rightarrow> eligibility_store
     \<Rightarrow> unit loaded \<times> eligibility_ledger" where
  "load_observations cr hx epoch ctx l st =
     (let f = dk_visible (est_disk st) (path_for epoch)
      in if \<not> opened f then (Absent, l)
         else case Option.bind (parse_file (hx_json hx) f) (decode_observations hx epoch) of
                None \<Rightarrow> (Corrupt, l)
              | Some records \<Rightarrow>
                  (case restore_ledger cr records ctx l of
                     (restored, l) \<Rightarrow> (if restored then Loaded () else Corrupt, l)))"

type_synonym fault_map = "(node_id, objective_fault set) smap"

definition encode_faults :: "hex_codec \<Rightarrow> node_id \<times> objective_fault set \<Rightarrow> json" where
  "encode_faults hx entry =
     json_object [(''node'', hex_of hx 32 (node_bytes (fst entry))),
       (''faults'', JArray (map (\<lambda>f. JUnsigned (ucast (fault_code f))) (sorted_list_of_set (snd entry))))]"

definition faults_document :: "hex_codec \<Rightarrow> fault_map \<Rightarrow> json" where
  "faults_document hx faults =
     json_object [(''format'', JUnsigned (ucast kFormatVersion)), (''faults'', JArray (map (encode_faults hx) faults))]"

definition store_faults :: "hex_codec \<Rightarrow> fault_map \<Rightarrow> eligibility_store \<Rightarrow> bool \<times> eligibility_store" where
  "store_faults hx faults st =
     (if length faults > kMaxStoredRecords then (False, st)
      else write_atomic faults_path (json_dump (hx_json hx) (faults_document hx faults)) st)"

definition fault_of_value :: "json \<Rightarrow> objective_fault option" where
  "fault_of_value v =
     (case v of
        JUnsigned n \<Rightarrow>
          List.find (\<lambda>f. ucast (fault_code f) = n) [DuplicateIncarnation, EquivocationFault, InvalidConsensusBehavior]
      | _ \<Rightarrow> None)"

definition decode_faults :: "hex_codec \<Rightarrow> json \<Rightarrow> (node_id \<times> objective_fault set) option" where
  "decode_faults hx j =
     (if \<not> is_object j then None
      else do {
        node \<leftarrow> read_hex_key hx 32 j ''node'';
        vs \<leftarrow> (case json_find j ''faults'' of Some (JArray vs) \<Rightarrow> Some vs | _ \<Rightarrow> None);
        kinds \<leftarrow> those (map fault_of_value vs);
        Some (NodeId node, set kinds) })"

fun collect_faults :: "hex_codec \<Rightarrow> json list \<Rightarrow> fault_map \<Rightarrow> fault_map option" where
  "collect_faults hx [] faults = Some faults"
| "collect_faults hx (e # es) faults =
     (case decode_faults hx e of
        None \<Rightarrow> None
      | Some (node, kinds) \<Rightarrow>
          if kinds = {} \<or> smap_has faults node then None
          else collect_faults hx es (smap_put node kinds faults))"

definition fault_entries :: "hex_codec \<Rightarrow> json \<Rightarrow> fault_map option" where
  "fault_entries hx document =
     (case json_find document ''faults'' of
        Some (JArray es) \<Rightarrow>
          if \<not> format_ok document \<or> length es > kMaxStoredRecords then None else collect_faults hx es []
      | _ \<Rightarrow> None)"

definition load_faults :: "hex_codec \<Rightarrow> eligibility_store \<Rightarrow> fault_map loaded" where
  "load_faults hx st =
     (let f = dk_visible (est_disk st) faults_path
      in if \<not> opened f then Absent
         else case Option.bind (parse_file (hx_json hx) f) (fault_entries hx) of
                None \<Rightarrow> Corrupt
              | Some faults \<Rightarrow> Loaded faults)"

subsection \<open>Discarding old epochs\<close>

text \<open>\<^verbatim>\<open>std::stoull\<close>: leading white space, an optional sign, and the digits that follow; \<^const>\<open>None\<close> is
  either exception.\<close>

definition is_space :: "char \<Rightarrow> bool" where
  "is_space c \<longleftrightarrow> (of_char c :: nat) \<in> {9, 10, 11, 12, 13, 32}"

definition is_digit :: "char \<Rightarrow> bool" where
  "is_digit c \<longleftrightarrow> 48 \<le> (of_char c :: nat) \<and> (of_char c :: nat) \<le> 57"

definition stoull :: "string \<Rightarrow> u64 option" where
  "stoull s =
     (let s = dropWhile is_space s;
          (negative, s) = (case s of [] \<Rightarrow> (False, s)
             | c # r \<Rightarrow> if c = CHR ''-'' then (True, r) else if c = CHR ''+'' then (False, r) else (False, s));
          digits = takeWhile is_digit s;
          n = undecimal digits
      in if digits = [] \<or> n \<ge> 2 ^ 64 then None
         else Some (if negative then - of_nat n else of_nat n))"

definition discards :: "u64 \<Rightarrow> string \<Rightarrow> bool" where
  "discards epoch name =
     (let pre = ''observations-''; suf = ''.json''
      in take (length pre) name = pre \<and> length suf \<le> length name \<and> drop (length name - length suf) name = suf \<and>
         (case stoull (take (length name - length (pre @ suf)) (drop (length pre) name)) of
            None \<Rightarrow> False
          | Some n \<Rightarrow> n < epoch))"

text \<open>\<open>removable\<close> tells which removals succeed; a failed one is ignored. A removal is not flushed.\<close>

definition discard_before :: "(string \<Rightarrow> bool) \<Rightarrow> u64 \<Rightarrow> eligibility_store \<Rightarrow> eligibility_store" where
  "discard_before removable epoch st =
     (let dk = est_disk st
      in st\<lparr>est_disk := dk\<lparr>dk_visible := (\<lambda>name. if discards epoch name \<and> removable name then NoFile
                                               else dk_visible dk name)\<rparr>\<rparr>)"

section \<open>Round trips\<close>

lemma read_hex_of [json_simps]:
  fixes w :: "'a::len word"
  assumes "hex_codec_ok hx" and "LENGTH('a) = n * 8"
  shows "read_hex hx n (hex_of hx n w) = Some w"
  using assms of_be_bytes_be_bytes [OF assms(2), of w]
  by (simp add: read_hex_def hex_of_def from_hex_def to_hex_def hex_codec_ok_def)

lemma read_hex_key_of [json_simps]:
  fixes w :: "'a::len word"
  assumes "hex_codec_ok hx" and "LENGTH('a) = n * 8" and "json_find j key = Some (hex_of hx n w)"
  shows "read_hex_key hx n j key = Some w"
  using read_hex_of [OF assms(1,2), of w] assms(3) by (simp add: read_hex_key_def)

lemma json_ok_hex [json_simps]: "hex_codec_ok hx \<Longrightarrow> json_ok (hex_of hx n w)"
  by (simp add: hex_of_def to_hex_def hex_codec_ok_def)

lemma ucast_16_64:
  fixes w :: u16
  shows "ucast (ucast w :: u64) = w" "(ucast w :: u64) \<le> 0xFFFF"
proof -
  show "ucast (ucast w :: u64) = w" by (intro bit_word_eqI) (simp add: bit_simps)
  show "(ucast w :: u64) \<le> 0xFFFF"
    using unsigned_less [where 'a = nat, of w] by (simp add: word_le_nat_alt unsigned_ucast_eq take_bit_nat_eq_self)
qed

lemma code_of_code [simp]:
  "kind_of_code (ucast (kind_code k)) = Some k"
  "profile_of_code (ucast (profile_code p)) = Some p"
  "fault_of_value (JUnsigned (ucast (fault_code f))) = Some f"
proof -
  show "kind_of_code (ucast (kind_code k)) = Some k" by (cases k) (simp_all add: kind_of_code_def)
  show "profile_of_code (ucast (profile_code p)) = Some p" by (cases p) (simp_all add: profile_of_code_def)
  show "fault_of_value (JUnsigned (ucast (fault_code f))) = Some f" by (cases f) (simp_all add: fault_of_value_def)
qed

lemma claim_bits_in_mask:
  "(ucast (platform_claim_bits c) :: u64) AND NOT (ucast kPlatformClaimBitMask) = 0"
proof -
  have "platform_claim_bits c = platform_claim_bits c AND kPlatformClaimBitMask"
    using claim_bits_masked [of "cl_profile_id c" "cl_profile_ruleset c" "platform_claim_bits c"]
    by (simp add: claims_from_bits_roundtrip)
  then have "bit (platform_claim_bits c) k \<Longrightarrow> bit kPlatformClaimBitMask k" for k by (metis bit_and_iff)
  then show ?thesis by (auto intro!: bit_word_eqI simp: bit_simps)
qed

lemma decode_encode:
  assumes "hex_codec_ok hx" and "length (ps_attestations p) \<le> kMaxContinuityAttestations"
  shows "decode hx (encode hx p) = Some p"
proof -
  have "those (map (read_hex hx 32 \<circ> hex_of hx 32) (ps_attestations p)) = Some (ps_attestations p)"
    by (intro those_map_Some) (simp add: json_simps assms(1))
  then show ?thesis
    using assms(2) ucast_16_64(2) [of "profile_code (cl_profile_id (ob_claims (ps_latest p)))"]
      ucast_16_64(2) [of "cl_profile_ruleset (ob_claims (ps_latest p))"]
    by (simp add: decode_def encode_def Let_def json_simps assms(1) read_u64_def ucast_16_64(1)
        claim_bits_in_mask claims_from_bits_roundtrip not_less)
qed

lemma format_ok_written: "json_find j ''format'' = Some (JUnsigned (ucast kFormatVersion)) \<Longrightarrow> format_ok j"
  by (simp add: format_ok_def kFormatVersion_def)

lemma decode_observations_document:
  assumes "hex_codec_ok hx" and "\<forall>p \<in> set ps. length (ps_attestations p) \<le> kMaxContinuityAttestations"
    and "length ps \<le> kMaxStoredRecords"
  shows "decode_observations hx ep (observations_document hx ep ps) = Some ps"
proof -
  have "those (map (decode hx \<circ> encode hx) ps) = Some ps"
    using assms(2) by (intro those_map_Some) (simp add: decode_encode assms(1))
  then show ?thesis
    using assms(3)
    by (simp add: decode_observations_def observations_document_def json_simps format_ok_written read_u64_def)
qed

lemma json_ok_documents:
  assumes "hex_codec_ok hx"
  shows "json_ok (observations_document hx ep ps)" "json_ok (faults_document hx faults)"
  by (simp_all add: observations_document_def faults_document_def encode_def encode_faults_def json_simps
      Let_def list_all_iff assms ascii_def)

lemma decode_encode_faults:
  assumes "hex_codec_ok hx"
  shows "decode_faults hx (encode_faults hx (node, kinds)) = Some (node, kinds)"
proof -
  have "those (map (fault_of_value \<circ> (\<lambda>f. JUnsigned (ucast (fault_code f)))) (sorted_list_of_set kinds)) =
      Some (sorted_list_of_set kinds)"
    by (intro those_map_Some) simp
  moreover have "finite kinds" by (rule finite_subset [of _ "{DuplicateIncarnation, EquivocationFault, InvalidConsensusBehavior}"])
    (use objective_fault.exhaust in auto)
  ultimately show ?thesis by (simp add: decode_faults_def encode_faults_def json_simps assms)
qed

lemma collect_faults_snoc:
  assumes "hex_codec_ok hx" and "smap_ok (acc @ faults)" and "\<forall>e \<in> set faults. snd e \<noteq> {}"
  shows "collect_faults hx (map (encode_faults hx) faults) acc = Some (acc @ faults)"
  using assms(2,3)
proof (induction faults arbitrary: acc)
  case (Cons e faults)
  obtain n k where e: "e = (n, k)" by (cases e)
  have above: "\<forall>x \<in> set acc. fst x < n"
    using Cons.prems(1) by (auto simp: smap_ok_def e sorted_wrt_append)
  then have "map_of acc n = None" by (auto simp: map_of_eq_None_iff)
  moreover have "smap_put n k acc = acc @ [(n, k)]" using above by (rule smap_put_last)
  ultimately show ?case
    using Cons.IH [of "acc @ [(n, k)]"] Cons.prems by (simp add: e decode_encode_faults assms(1))
qed simp

lemma fault_entries_document:
  assumes "hex_codec_ok hx" and "smap_ok faults" and "\<forall>e \<in> set faults. snd e \<noteq> {}"
    and "length faults \<le> kMaxStoredRecords"
  shows "fault_entries hx (faults_document hx faults) = Some faults"
  using collect_faults_snoc [OF assms(1), of "[]" faults] assms
  by (simp add: fault_entries_def faults_document_def json_simps format_ok_written)

section \<open>A successful store is what the next load gives\<close>

lemma write_atomic_written:
  assumes "write_atomic path content st = (True, st')"
  shows "dk_visible (est_disk st') path = Content content True"
    "dk_durable (est_disk st') path = Content content True"
    "q \<noteq> path \<Longrightarrow> q \<noteq> path @ ''.tmp'' \<Longrightarrow> dk_visible (est_disk st') q = dk_visible (est_disk st) q"
    "q \<noteq> path \<Longrightarrow> q \<noteq> path @ ''.tmp'' \<Longrightarrow> dk_durable (est_disk st') q = dk_durable (est_disk st) q"
proof -
  obtain oc rest where calls: "est_calls st = (True, oc) # rest"
    and w: "write_durable oc path content (est_disk st) = (True, est_disk st')"
    using assms by (auto simp: write_atomic_def split: list.splits prod.splits if_splits)
  show "dk_visible (est_disk st') path = Content content True"
    "dk_durable (est_disk st') path = Content content True"
    using w by (cases rule: write_durable_cases; simp)+
  show "q \<noteq> path \<Longrightarrow> q \<noteq> path @ ''.tmp'' \<Longrightarrow> dk_visible (est_disk st') q = dk_visible (est_disk st) q"
    "q \<noteq> path \<Longrightarrow> q \<noteq> path @ ''.tmp'' \<Longrightarrow> dk_durable (est_disk st') q = dk_durable (est_disk st) q"
    using write_durable_frame [OF w] by blast+
qed

text \<open>The store as it is after a crash: only what reached the device.\<close>

definition crashed :: "eligibility_store \<Rightarrow> eligibility_store" where
  "crashed st = st\<lparr>est_disk := (est_disk st)\<lparr>dk_visible := dk_durable (est_disk st)\<rparr>\<rparr>"

lemma parse_written:
  assumes "hex_codec_ok hx" and "json_ok j"
  shows "parse_file (hx_json hx) (Content (json_dump (hx_json hx) j) synced) = Some j"
  using assms by (simp add: parse_file_def hex_codec_ok_def codec_ok_def)

lemma load_stored_observations:
  assumes "hex_codec_ok hx" and "dk_visible (est_disk st) (path_for ep) =
      Content (json_dump (hx_json hx) (observations_document hx ep ps)) synced"
    and "\<forall>p \<in> set ps. length (ps_attestations p) \<le> kMaxContinuityAttestations" and "length ps \<le> kMaxStoredRecords"
  shows "load_observations cr hx ep ctx l st =
    (case restore_ledger cr ps ctx l of (restored, l) \<Rightarrow> (if restored then Loaded () else Corrupt, l))"
  using assms(2) parse_written [OF assms(1) json_ok_documents(1) [OF assms(1)]]
    decode_observations_document [OF assms(1,3,4)]
  by (simp add: load_observations_def opened_def)

lemma load_stored_faults:
  assumes "hex_codec_ok hx" and "dk_visible (est_disk st) faults_path =
      Content (json_dump (hx_json hx) (faults_document hx faults)) synced"
    and "smap_ok faults" and "\<forall>e \<in> set faults. snd e \<noteq> {}" and "length faults \<le> kMaxStoredRecords"
  shows "load_faults hx st = Loaded faults"
  using assms(2) parse_written [OF assms(1) json_ok_documents(2) [OF assms(1)]]
    fault_entries_document [OF assms(1,3-5)]
  by (simp add: load_faults_def opened_def)

lemma eligibility_paths:
  "path_for e = path_for e' \<longleftrightarrow> e = e'" "path_for e \<noteq> faults_path" "faults_path \<noteq> path_for e"
  "path_for e \<noteq> q @ ''.tmp''" "faults_path \<noteq> q @ ''.tmp''"
proof -
  show "path_for e = path_for e' \<longleftrightarrow> e = e'" by (simp add: path_for_def decimal_inj word_unat_eq_iff)
  show "path_for e \<noteq> faults_path" "faults_path \<noteq> path_for e" by (simp_all add: path_for_def faults_path_def)
  have "last (path_for e) \<noteq> last (q @ ''.tmp'')" "last faults_path \<noteq> last (q @ ''.tmp'')"
    by (simp_all add: path_for_def faults_path_def)
  then show "path_for e \<noteq> q @ ''.tmp''" "faults_path \<noteq> q @ ''.tmp''" by metis+
qed

end
