(* ===== verification/Eligibility_Service.thy ===== *)
theory Eligibility_Service
  imports Eligibility_Store Epoch_Types
begin

text \<open>
  \<^verbatim>\<open>Security/Eligibility/EligibilityService.cpp\<close>: the service that drives the ledger. It signs what its own
  verifier proved, accepts the observations of others, computes the eligibility state, releases the
  frozen pool of a finalized commitment, and writes observations and faults. The lemmas show what a
  released pool contains, that two nodes with one finalized commitment release one pool, that the node
  signs no claim it did not verify, and what of the state survives a restart.
\<close>

section \<open>The service\<close>

definition kFrozenIncarnation :: u64 where "kFrozenIncarnation = 1"

record participation_proof =
  pp_network_id :: digest
  pp_epoch :: u64
  pp_consensus_ruleset :: u16
  pp_subject :: node_id
  pp_incarnation :: u64
  pp_subject_height :: u64

record finalized_eligibility =
  fe_commitment :: digest
  fe_consensus_reference :: digest
  fe_height :: u64
  fe_state_root :: digest
  fe_next_epoch :: u64

datatype eligibility_restore = Fresh | Restored | CorruptState

text \<open>An unset certificate source is \<^const>\<open>None\<close>.\<close>

record eligibility_service =
  sv_network_id :: digest
  sv_self :: node_id
  sv_identity :: keypair
  sv_store :: eligibility_store
  sv_context :: mesh_fact_context
  sv_ledger :: eligibility_ledger
  sv_verdicts :: "(node_id, attestation_verdict) smap"
  sv_incarnations :: "(node_id, u64) smap"
  sv_certificate_source :: "(node_id \<Rightarrow> bool) option"
  sv_finalized :: "finalized_eligibility option"
  sv_observations_dirty :: bool
  sv_faults_written :: "fault_map option"

definition eligibility_service :: "digest \<Rightarrow> node_id \<Rightarrow> keypair \<Rightarrow> eligibility_store \<Rightarrow> eligibility_service" where
  "eligibility_service network self identity store =
     \<lparr>sv_network_id = network, sv_self = self, sv_identity = identity, sv_store = store,
      sv_context = \<lparr>fc_network_id = 0, fc_epoch = 0, fc_observers = [], fc_quorum = 0\<rparr>,
      sv_ledger = empty_ledger, sv_verdicts = [], sv_incarnations = [], sv_certificate_source = None,
      sv_finalized = None, sv_observations_dirty = False, sv_faults_written = None\<rparr>"

definition flush_observations :: "hex_codec \<Rightarrow> eligibility_service \<Rightarrow> bool \<times> eligibility_service" where
  "flush_observations hx sv =
     (if \<not> sv_observations_dirty sv then (True, sv)
      else case store_observations hx (fc_epoch (sv_context sv)) (snapshot (sv_ledger sv)) (sv_store sv) of
             (written, st) \<Rightarrow>
               (written, sv\<lparr>sv_store := st,
                            sv_observations_dirty := (if written then False else sv_observations_dirty sv)\<rparr>))"

definition flush_faults :: "hex_codec \<Rightarrow> eligibility_service \<Rightarrow> bool \<times> eligibility_service" where
  "flush_faults hx sv =
     (if sv_faults_written sv = Some (el_faults (sv_ledger sv)) then (True, sv)
      else case store_faults hx (el_faults (sv_ledger sv)) (sv_store sv) of
             (written, st) \<Rightarrow>
               (written, sv\<lparr>sv_store := st,
                            sv_faults_written := (if written then Some (el_faults (sv_ledger sv))
                                                  else sv_faults_written sv)\<rparr>))"

definition flush :: "hex_codec \<Rightarrow> eligibility_service \<Rightarrow> bool \<times> eligibility_service" where
  "flush hx sv =
     (case flush_observations hx sv of
        (observations_ok, sv) \<Rightarrow>
          (case flush_faults hx sv of (faults_ok, sv) \<Rightarrow> (observations_ok \<and> faults_ok, sv)))"

text \<open>The context is replaced and everything of the old one dropped, the finality included.\<close>

definition reset_context :: "mesh_fact_context \<Rightarrow> eligibility_service \<Rightarrow> eligibility_service" where
  "reset_context ctx sv =
     sv\<lparr>sv_observations_dirty := False, sv_context := ctx, sv_ledger := empty_ledger, sv_verdicts := [],
        sv_incarnations := [], sv_finalized := None\<rparr>"

definition restore_observations ::
  "crypto \<Rightarrow> hex_codec \<Rightarrow> (string \<Rightarrow> bool) \<Rightarrow> u64 \<Rightarrow> eligibility_service \<Rightarrow> eligibility_restore \<times> eligibility_service"
where
  "restore_observations cr hx removable epoch sv =
     (case load_observations cr hx epoch (sv_context sv) (sv_ledger sv) (sv_store sv) of
        (result, l) \<Rightarrow>
          let sv = sv\<lparr>sv_ledger := l\<rparr>
          in case result of
               Corrupt \<Rightarrow> (CorruptState, sv)
             | Absent \<Rightarrow> (Fresh, sv)
             | Loaded _ \<Rightarrow> (Restored, sv\<lparr>sv_store := discard_before removable epoch (sv_store sv)\<rparr>))"

definition install ::
  "crypto \<Rightarrow> hex_codec \<Rightarrow> (string \<Rightarrow> bool) \<Rightarrow> u64 \<Rightarrow> mesh_fact_context \<Rightarrow> eligibility_service
     \<Rightarrow> eligibility_restore \<times> eligibility_service" where
  "install cr hx removable epoch ctx sv =
     (let sv = (if sv_observations_dirty sv then snd (flush hx sv) else sv);
          sv = reset_context ctx sv
      in case load_faults hx (sv_store sv) of
           Corrupt \<Rightarrow> (CorruptState, sv)
         | Absent \<Rightarrow> restore_observations cr hx removable epoch (sv\<lparr>sv_faults_written := None\<rparr>)
         | Loaded faults \<Rightarrow>
             restore_observations cr hx removable epoch
               (sv\<lparr>sv_ledger := merge_faults faults (sv_ledger sv), sv_faults_written := Some faults\<rparr>))"

definition enter_epoch ::
  "crypto \<Rightarrow> hex_codec \<Rightarrow> (string \<Rightarrow> bool) \<Rightarrow> u64 \<Rightarrow> node_id list \<Rightarrow> eligibility_service
     \<Rightarrow> eligibility_restore \<times> eligibility_service" where
  "enter_epoch cr hx removable epoch members sv =
     install cr hx removable epoch (established_fact_context (sv_network_id sv) epoch members) sv"

definition enter_genesis ::
  "crypto \<Rightarrow> hex_codec \<Rightarrow> (string \<Rightarrow> bool) \<Rightarrow> node_id list \<Rightarrow> eligibility_service
     \<Rightarrow> eligibility_restore \<times> eligibility_service" where
  "enter_genesis cr hx removable founders sv =
     install cr hx removable 0 (genesis_fact_context (sv_network_id sv) founders) sv"

definition set_certificate_source :: "(node_id \<Rightarrow> bool) \<Rightarrow> eligibility_service \<Rightarrow> eligibility_service" where
  "set_certificate_source source sv = sv\<lparr>sv_certificate_source := Some source\<rparr>"

definition observed :: "eligibility_service \<Rightarrow> node_id \<Rightarrow> bool" where
  "observed sv node \<longleftrightarrow> node \<in> set (fc_observers (sv_context sv))"

definition is_observer :: "eligibility_service \<Rightarrow> bool" where
  "is_observer sv = observed sv (sv_self sv)"

section \<open>Evidence\<close>

definition service_record_fault ::
  "hex_codec \<Rightarrow> node_id \<Rightarrow> objective_fault \<Rightarrow> eligibility_service \<Rightarrow> eligibility_service" where
  "service_record_fault hx subject fault sv =
     (let l = record_fault subject fault (sv_ledger sv)
      in case store_faults hx (el_faults l) (sv_store sv) of
           (written, st) \<Rightarrow>
             sv\<lparr>sv_ledger := l, sv_store := st,
                sv_faults_written := (if written then Some (el_faults l) else sv_faults_written sv)\<rparr>)"

definition record_verdict :: "hex_codec \<Rightarrow> attestation_verdict \<Rightarrow> eligibility_service \<Rightarrow> eligibility_service" where
  "record_verdict hx verdict sv =
     (if \<not> av_passed verdict then sv
      else let node = av_node_id verdict;
               sv = (case map_of (sv_incarnations sv) node of
                       Some held \<Rightarrow> if held \<noteq> av_incarnation verdict
                                   then service_record_fault hx node DuplicateIncarnation sv else sv
                     | None \<Rightarrow> sv)
           in sv\<lparr>sv_incarnations := smap_put node (av_incarnation verdict) (sv_incarnations sv),
                 sv_verdicts := smap_put node verdict (sv_verdicts sv)\<rparr>)"

definition accept ::
  "crypto \<Rightarrow> eligibility_observation \<Rightarrow> eligibility_service \<Rightarrow> observation_outcome \<times> eligibility_service" where
  "accept cr ob sv =
     (case record_observation cr ob (sv_context sv) (sv_ledger sv) of
        (outcome, l) \<Rightarrow>
          (outcome, sv\<lparr>sv_ledger := l,
                       sv_observations_dirty := (outcome = Accepted \<or> sv_observations_dirty sv)\<rparr>))"

text \<open>Signing, recording, and handing out what was recorded.\<close>

definition sign_and_accept ::
  "crypto \<Rightarrow> eligibility_observation \<Rightarrow> eligibility_service \<Rightarrow> eligibility_observation option \<times> eligibility_service"
where
  "sign_and_accept cr ob sv =
     (let ob = sign_observation cr ob (sv_identity sv)
      in case accept cr ob sv of
           (outcome, sv) \<Rightarrow> (if outcome \<noteq> Accepted then None else Some ob, sv))"

definition observe_attestation ::
  "crypto \<Rightarrow> node_id \<Rightarrow> u64 \<Rightarrow> digest \<Rightarrow> eligibility_service \<Rightarrow> eligibility_observation option \<times> eligibility_service"
where
  "observe_attestation cr subject height state_reference sv =
     (if \<not> is_observer sv \<or> subject = sv_self sv then (None, sv)
      else case map_of (sv_verdicts sv) subject of
             None \<Rightarrow> (None, sv)
           | Some verdict \<Rightarrow>
               if \<not> av_passed verdict \<or> av_node_id verdict \<noteq> subject then (None, sv)
               else if av_evidence_digest verdict = 0 then (None, sv)
               else sign_and_accept cr
                 \<lparr>ob_network_id = fc_network_id (sv_context sv), ob_epoch = fc_epoch (sv_context sv),
                  ob_subject = av_node_id verdict, ob_subject_incarnation = av_incarnation verdict,
                  ob_kind = Attestation, ob_attestation_digest = av_evidence_digest verdict,
                  ob_claims = av_claims verdict, ob_height = height, ob_state_reference = state_reference,
                  ob_observer = NodeId 0, ob_signature = 0\<rparr> sv)"

definition sign_participation ::
  "crypto \<Rightarrow> node_id \<Rightarrow> u64 \<Rightarrow> u64 \<Rightarrow> digest \<Rightarrow> eligibility_service
     \<Rightarrow> eligibility_observation option \<times> eligibility_service" where
  "sign_participation cr subject incarnation height state_reference sv =
     sign_and_accept cr
       \<lparr>ob_network_id = fc_network_id (sv_context sv), ob_epoch = fc_epoch (sv_context sv),
        ob_subject = subject, ob_subject_incarnation = incarnation, ob_kind = Participation,
        ob_attestation_digest = 0, ob_claims = no_claims, ob_height = height,
        ob_state_reference = state_reference, ob_observer = NodeId 0, ob_signature = 0\<rparr> sv"

definition expected_incarnation :: "eligibility_service \<Rightarrow> node_id \<Rightarrow> u64" where
  "expected_incarnation sv node =
     (case map_of (sv_incarnations sv) node of Some held \<Rightarrow> held | None \<Rightarrow> kFrozenIncarnation)"

definition observe_participation ::
  "crypto \<Rightarrow> participation_proof \<Rightarrow> u64 \<Rightarrow> digest \<Rightarrow> eligibility_service
     \<Rightarrow> eligibility_observation option \<times> eligibility_service" where
  "observe_participation cr pr height state_reference sv =
     (if pp_network_id pr \<noteq> fc_network_id (sv_context sv) \<or> pp_epoch pr \<noteq> fc_epoch (sv_context sv)
        then (None, sv)
      else if pp_consensus_ruleset pr \<noteq> kConsensusRulesetVersion then (None, sv)
      else if \<not> is_observer sv \<or> pp_subject pr = sv_self sv then (None, sv)
      else if pp_incarnation pr \<noteq> expected_incarnation sv (pp_subject pr) then (None, sv)
      else if pp_subject_height pr < height \<or> pp_subject_height pr > height + kMaxFutureViewDistance
        then (None, sv)
      else sign_participation cr (pp_subject pr) (pp_incarnation pr) height state_reference sv)"

definition observe_participation_response ::
  "crypto \<Rightarrow> participation_response \<Rightarrow> participation_challenge \<Rightarrow> u64 \<Rightarrow> digest \<Rightarrow> eligibility_service
     \<Rightarrow> eligibility_observation option \<times> eligibility_service" where
  "observe_participation_response cr r c height state_reference sv =
     (if \<not> is_observer sv \<or> rs_node_id r = sv_self sv then (None, sv)
      else if pc_observer c \<noteq> sv_self sv \<or> pc_network_id c \<noteq> fc_network_id (sv_context sv) \<or>
              pc_epoch c \<noteq> fc_epoch (sv_context sv) then (None, sv)
      else if pc_security_ruleset c \<noteq> kSecurityRulesetVersion \<or>
              pc_consensus_ruleset c \<noteq> kConsensusRulesetVersion then (None, sv)
      else if pc_anchor_height c \<noteq> height \<or> pc_anchor_state c \<noteq> state_reference then (None, sv)
      else if verify_participation_response cr r c \<noteq> PfNone then (None, sv)
      else if rs_incarnation r \<noteq> expected_incarnation sv (rs_node_id r) then (None, sv)
      else sign_participation cr (rs_node_id r) (rs_incarnation r) height state_reference sv)"

section \<open>The state\<close>

definition candidates :: "eligibility_service \<Rightarrow> node_id list" where
  "candidates sv =
     (let ctx = sv_context sv;
          minimum = max_byzantine_faults (length (fc_observers ctx)) + 1
      in sorted_list_of_set
           (set (fc_observers ctx) \<union> set (subjects (sv_ledger sv) (fc_epoch ctx) minimum)))"

definition fault_bits :: "eligibility_ledger \<Rightarrow> node_id \<Rightarrow> u32" where
  "fault_bits l subject =
     (case map_of (el_faults l) subject of
        None \<Rightarrow> 0
      | Some kinds \<Rightarrow> fold (\<lambda>kind bits. bits OR objective_fault_bit kind) (sorted_list_of_set kinds) 0)"

definition compute_record :: "crypto \<Rightarrow> eligibility_service \<Rightarrow> node_id \<Rightarrow> eligibility_record" where
  "compute_record cr sv subject =
     (let ctx = sv_context sv;
          incarnation = (case quorum_incarnation (sv_ledger sv) subject ctx of
                           Some i \<Rightarrow> i | None \<Rightarrow> kFrozenIncarnation);
          evidence = evaluate cr (sv_ledger sv) subject incarnation ctx;
          certified = (case sv_certificate_source sv of None \<Rightarrow> False | Some source \<Rightarrow> source subject);
          facts = \<lparr>mf_certificate_valid = certified, mf_uptime_valid = me_uptime_valid evidence,
                   mf_mesh_health_valid = me_mesh_health_valid evidence,
                   mf_current_epoch = Some (fc_epoch ctx), mf_current_incarnation = Some incarnation\<rparr>;
          attested = \<lparr>av_node_id = subject, av_epoch = fc_epoch ctx, av_incarnation = incarnation,
                      av_purpose = EligibilityPurpose, av_context_digest = 0, av_evidence_digest = 0,
                      av_passed = False, av_claims = me_platform_claims evidence\<rparr>
      in \<lparr>er_subject = subject, er_incarnation = incarnation, er_uptime_valid = me_uptime_valid evidence,
          er_mesh_health_valid = me_mesh_health_valid evidence, er_certificate_valid = certified,
          er_platform_claims = platform_claims_digest cr (me_platform_claims evidence),
          er_faults = fault_bits (sv_ledger sv) subject,
          er_eligible = policy_evaluate (tier1_evidence_state attested facts) = Eligible\<rparr>)"

definition compute_state :: "crypto \<Rightarrow> eligibility_service \<Rightarrow> u64 \<Rightarrow> eligibility_state" where
  "compute_state cr sv next_epoch =
     (let ctx = sv_context sv;
          state = \<lparr>es_network_id = fc_network_id ctx, es_epoch = fc_epoch ctx, es_next_epoch = next_epoch,
                   es_security_ruleset = kSecurityRulesetVersion,
                   es_consensus_ruleset = kConsensusRulesetVersion, es_observer_set = 0,
                   es_quorum = fc_quorum ctx, es_records = []\<rparr>
      in case from_nodes (fc_observers ctx) of
           None \<Rightarrow> state
         | Some observers \<Rightarrow>
             state\<lparr>es_observer_set := tier1_set_digest cr observers,
                   es_records := map (compute_record cr sv) (candidates sv)\<rparr>)"

definition mutual_round_complete :: "crypto \<Rightarrow> eligibility_service \<Rightarrow> bool" where
  "mutual_round_complete cr sv =
     (let ctx = sv_context sv; expected = length (fc_observers ctx) - 1
      in \<not> length (fc_observers ctx) < 2 \<and>
         list_all (\<lambda>subject.
             let incarnation = (case quorum_incarnation (sv_ledger sv) subject ctx of
                                  Some i \<Rightarrow> i | None \<Rightarrow> kFrozenIncarnation);
                 evidence = evaluate cr (sv_ledger sv) subject incarnation ctx
             in \<not> (me_continuity_observers evidence < expected \<or> me_participation_observers evidence < expected))
           (fc_observers ctx))"

definition finalize :: "finalized_eligibility \<Rightarrow> eligibility_service \<Rightarrow> eligibility_service" where
  "finalize finalized sv = sv\<lparr>sv_finalized := Some finalized\<rparr>"

definition clear_finalization :: "eligibility_service \<Rightarrow> eligibility_service" where
  "clear_finalization sv = sv\<lparr>sv_finalized := None\<rparr>"

definition frozen_pool :: "crypto \<Rightarrow> eligibility_service \<Rightarrow> u64 \<Rightarrow> tier1_set option" where
  "frozen_pool cr sv next_epoch =
     (case sv_finalized sv of
        None \<Rightarrow> None
      | Some finalized \<Rightarrow>
          if fe_next_epoch finalized \<noteq> next_epoch then None
          else let state = compute_state cr sv next_epoch
               in if eligibility_commitment_digest cr state \<noteq> fe_commitment finalized then None
                  else from_nodes (eligible_nodes state))"

section \<open>Calls and runs\<close>

datatype service_call =
    EnterEpoch "string \<Rightarrow> bool" u64 "node_id list"
  | EnterGenesis "string \<Rightarrow> bool" "node_id list"
  | SetCertificateSource "node_id \<Rightarrow> bool"
  | RecordVerdict attestation_verdict
  | ObserveAttestation node_id u64 digest
  | ObserveParticipation participation_proof u64 digest
  | ObserveResponse participation_response participation_challenge u64 digest
  | AcceptObservation eligibility_observation
  | RecordFault node_id objective_fault
  | Finalize finalized_eligibility
  | ClearFinalization
  | Flush

text \<open>One call: the observation it hands out for publication, and the service after it.\<close>

fun serve ::
  "crypto \<Rightarrow> hex_codec \<Rightarrow> service_call \<Rightarrow> eligibility_service \<Rightarrow> eligibility_observation option \<times> eligibility_service"
where
  "serve cr hx (EnterEpoch removable epoch members) sv = (None, snd (enter_epoch cr hx removable epoch members sv))"
| "serve cr hx (EnterGenesis removable founders) sv = (None, snd (enter_genesis cr hx removable founders sv))"
| "serve cr hx (SetCertificateSource source) sv = (None, set_certificate_source source sv)"
| "serve cr hx (RecordVerdict verdict) sv = (None, record_verdict hx verdict sv)"
| "serve cr hx (ObserveAttestation subject height ref) sv = observe_attestation cr subject height ref sv"
| "serve cr hx (ObserveParticipation pr height ref) sv = observe_participation cr pr height ref sv"
| "serve cr hx (ObserveResponse r c height ref) sv = observe_participation_response cr r c height ref sv"
| "serve cr hx (AcceptObservation ob) sv = (None, snd (accept cr ob sv))"
| "serve cr hx (RecordFault subject fault) sv = (None, service_record_fault hx subject fault sv)"
| "serve cr hx (Finalize finalized) sv = (None, finalize finalized sv)"
| "serve cr hx ClearFinalization sv = (None, clear_finalization sv)"
| "serve cr hx Flush sv = (None, snd (flush hx sv))"

definition serve_all ::
  "crypto \<Rightarrow> hex_codec \<Rightarrow> service_call list \<Rightarrow> eligibility_service \<Rightarrow> eligibility_service" where
  "serve_all cr hx calls sv = foldl (\<lambda>sv c. snd (serve cr hx c sv)) sv calls"

text \<open>The verdicts recorded since the current context was installed.\<close>

fun held_after :: "attestation_verdict set \<Rightarrow> service_call \<Rightarrow> attestation_verdict set" where
  "held_after vs (EnterEpoch removable epoch members) = {}"
| "held_after vs (EnterGenesis removable founders) = {}"
| "held_after vs (RecordVerdict v) = insert v vs"
| "held_after vs _ = vs"

definition held_verdicts :: "service_call list \<Rightarrow> attestation_verdict set" where
  "held_verdicts calls = foldl held_after {} calls"

text \<open>The invariant: the ledger is well formed for the context, faults are non-empty sets in order, and
  every held verdict was recorded, passed, and is about its node.\<close>

definition fault_map_ok :: "fault_map \<Rightarrow> bool" where
  "fault_map_ok faults \<longleftrightarrow> smap_ok faults \<and> (\<forall>e \<in> set faults. snd e \<noteq> {})"

definition verdicts_ok :: "attestation_verdict set \<Rightarrow> (node_id, attestation_verdict) smap \<Rightarrow> bool" where
  "verdicts_ok vs m \<longleftrightarrow> (\<forall>n v. map_of m n = Some v \<longrightarrow> v \<in> vs \<and> av_passed v \<and> av_node_id v = n)"

definition service_ok :: "crypto \<Rightarrow> keypair \<Rightarrow> attestation_verdict set \<Rightarrow> eligibility_service \<Rightarrow> bool" where
  "service_ok cr identity vs sv \<longleftrightarrow>
     ledger_ok cr (sv_context sv) (sv_ledger sv) \<and> fault_map_ok (el_faults (sv_ledger sv)) \<and>
     verdicts_ok vs (sv_verdicts sv) \<and> sv_identity sv = identity"

lemma fault_map_ok_Nil [simp]: "fault_map_ok []"
  by (simp add: fault_map_ok_def)

lemma fault_map_ok_put: "fault_map_ok m \<Longrightarrow> kinds \<noteq> {} \<Longrightarrow> fault_map_ok (smap_put n kinds m)"
  using set_smap_put_subset [of n kinds m] by (auto simp: fault_map_ok_def smap_ok_put)

lemma fault_map_ok_record: "fault_map_ok (el_faults l) \<Longrightarrow> fault_map_ok (el_faults (record_fault n f l))"
  by (simp add: record_fault_def fault_map_ok_put)

lemma merge_faults_ok:
  assumes "fault_map_ok faults" and "fault_map_ok (el_faults l)"
  shows "fault_map_ok (el_faults (merge_faults faults l))" "el_records (merge_faults faults l) = el_records l"
proof -
  have "fault_map_ok (el_faults (fold (\<lambda>(subject, kinds) l.
         l\<lparr>el_faults := smap_put subject (faults_of (el_faults l) subject \<union> kinds) (el_faults l)\<rparr>) fs l)) \<and>
      el_records (fold (\<lambda>(subject, kinds) l.
         l\<lparr>el_faults := smap_put subject (faults_of (el_faults l) subject \<union> kinds) (el_faults l)\<rparr>) fs l) =
        el_records l"
    if "fault_map_ok (el_faults l)" "\<forall>e \<in> set fs. snd e \<noteq> {}" for fs l
    using that
  proof (induction fs arbitrary: l)
    case (Cons e fs)
    have "fault_map_ok (smap_put (fst e) (faults_of (el_faults l) (fst e) \<union> snd e) (el_faults l))"
      using Cons.prems by (simp add: fault_map_ok_put)
    then show ?case
      using Cons.IH [of "l\<lparr>el_faults := smap_put (fst e) (faults_of (el_faults l) (fst e) \<union> snd e) (el_faults l)\<rparr>"]
        Cons.prems(2) by (simp add: case_prod_unfold)
  qed simp
  then show "fault_map_ok (el_faults (merge_faults faults l))" "el_records (merge_faults faults l) = el_records l"
    using assms unfolding merge_faults_def by (auto simp: fault_map_ok_def)
qed

text \<open>Merging into an empty ledger gives the loaded map.\<close>

lemma merge_faults_empty:
  assumes "smap_ok faults"
  shows "merge_faults faults empty_ledger = \<lparr>el_records = [], el_faults = faults\<rparr>"
proof -
  have "fold (\<lambda>(subject, kinds) l.
         l\<lparr>el_faults := smap_put subject (faults_of (el_faults l) subject \<union> kinds) (el_faults l)\<rparr>) fs
       \<lparr>el_records = [], el_faults = acc\<rparr> = \<lparr>el_records = [], el_faults = acc @ fs\<rparr>"
    if "smap_ok (acc @ fs)" for fs acc
    using that
  proof (induction fs arbitrary: acc)
    case (Cons e fs)
    obtain n k where e: "e = (n, k)" by (cases e)
    have above: "\<forall>x \<in> set acc. fst x < n"
      using Cons.prems by (auto simp: smap_ok_def e sorted_wrt_append)
    then have "map_of acc n = None" by (auto simp: map_of_eq_None_iff)
    then show ?case
      using Cons.IH [of "acc @ [(n, k)]"] Cons.prems smap_put_last [OF above]
      by (simp add: e faults_of_def)
  qed simp
  from this [of "[]" faults] show ?thesis using assms by (simp add: merge_faults_def empty_ledger_def)
qed

lemma collect_faults_ok:
  "collect_faults hx es acc = Some faults \<Longrightarrow> fault_map_ok acc \<Longrightarrow> fault_map_ok faults"
  by (induction hx es acc rule: collect_faults.induct)
    (auto simp: fault_map_ok_put split: option.splits if_splits)

lemma load_faults_ok:
  assumes "load_faults hx st = Loaded faults"
  shows "fault_map_ok faults"
proof -
  obtain document where "fault_entries hx document = Some faults"
    using assms unfolding load_faults_def Let_def
    by (cases "parse_file (hx_json hx) (dk_visible (est_disk st) faults_path)") (auto split: if_splits option.splits)
  then obtain es where "collect_faults hx es [] = Some faults"
    unfolding fault_entries_def
    by (cases "json_find document ''faults''") (auto split: json.splits if_splits)
  then show ?thesis using collect_faults_ok by fastforce
qed

lemma restore_records_ok:
  assumes "restore_records cr ctx ps acc = Some rs" and "ledger_ok cr ctx \<lparr>el_records = acc, el_faults = fs\<rparr>"
  shows "ledger_ok cr ctx \<lparr>el_records = rs, el_faults = fs\<rparr>"
  using assms
proof (induction ps arbitrary: acc)
  case (Cons p ps)
  define r where "r = \<lparr>lr_latest = ps_latest p,
      lr_attestations = (if ob_kind (ps_latest p) = Attestation then set (ps_attestations p) else {}),
      lr_incarnation = ps_incarnation p\<rparr>"
  have acc: "fst (record_observation cr (ps_latest p) ctx empty_ledger) = Accepted"
    and len: "length (ps_attestations p) \<le> kMaxContinuityAttestations"
    and inc: "ps_incarnation p = ob_subject_incarnation (ps_latest p)"
    and att: "ob_kind (ps_latest p) = Attestation \<longrightarrow> ps_attestations p \<noteq> []"
    and rest: "restore_records cr ctx ps (smap_put (observation_key (ps_latest p)) r acc) = Some rs"
    using Cons.prems(1) unfolding r_def by (auto simp: Let_def not_less split: if_splits)
  have "observation_check cr (ps_latest p) ctx = Accepted"
    using acc by (auto simp: record_observation_def split: if_splits)
  moreover have "card (set (ps_attestations p)) \<le> kMaxContinuityAttestations"
    using len card_length [of "ps_attestations p"] by linarith
  ultimately have "entry_ok cr ctx (observation_key (ps_latest p)) r"
    using inc att by (simp add: entry_ok_def r_def)
  then have "ledger_ok cr ctx \<lparr>el_records = smap_put (observation_key (ps_latest p)) r acc, el_faults = fs\<rparr>"
    using Cons.prems(2) set_smap_put_subset [of "observation_key (ps_latest p)" r acc] smap_ok_put
    unfolding ledger_ok_def eligibility_ledger.simps by fastforce
  then show ?case by (rule Cons.IH [OF rest])
qed simp

lemma restore_ledger_ok:
  "ledger_ok cr ctx (snd (restore_ledger cr ps ctx l))" "el_faults (snd (restore_ledger cr ps ctx l)) = el_faults l"
proof -
  have nil: "ledger_ok cr ctx \<lparr>el_records = [], el_faults = fs\<rparr>" for fs by (simp add: ledger_ok_def)
  show "ledger_ok cr ctx (snd (restore_ledger cr ps ctx l))"
    using nil restore_records_ok [OF _ nil] by (cases l) (simp add: restore_ledger_def split: option.split)
  show "el_faults (snd (restore_ledger cr ps ctx l)) = el_faults l"
    by (simp add: restore_ledger_def split: option.split)
qed

lemma load_observations_ok:
  assumes "ledger_ok cr ctx l"
  shows "ledger_ok cr ctx (snd (load_observations cr hx ep ctx l st))"
    "el_faults (snd (load_observations cr hx ep ctx l st)) = el_faults l"
  using assms restore_ledger_ok
  by (simp_all add: load_observations_def Let_def case_prod_unfold split: option.split)

text \<open>What a call leaves alone.\<close>

definition same_facts :: "eligibility_service \<Rightarrow> eligibility_service \<Rightarrow> bool" where
  "same_facts sv sv' \<longleftrightarrow> sv_context sv' = sv_context sv \<and> sv_ledger sv' = sv_ledger sv \<and>
     sv_verdicts sv' = sv_verdicts sv \<and> sv_incarnations sv' = sv_incarnations sv \<and> sv_identity sv' = sv_identity sv"

lemma flush_same_facts: "same_facts sv (snd (flush hx sv))"
  by (simp add: flush_def flush_observations_def flush_faults_def same_facts_def case_prod_unfold)

lemma service_ok_same: "service_ok cr identity vs sv \<Longrightarrow> same_facts sv sv' \<Longrightarrow> service_ok cr identity vs sv'"
  by (simp add: service_ok_def same_facts_def)

lemma service_ok_reset:
  "service_ok cr identity vs sv \<Longrightarrow> service_ok cr identity {} (reset_context ctx sv)"
  by (simp add: service_ok_def reset_context_def verdicts_ok_def ledger_ok_def empty_ledger_def)

lemma service_ok_restore:
  assumes "service_ok cr identity vs sv"
  shows "service_ok cr identity vs (snd (restore_observations cr hx removable ep sv))"
proof -
  let ?load = "load_observations cr hx ep (sv_context sv) (sv_ledger sv) (sv_store sv)"
  have "ledger_ok cr (sv_context sv) (snd ?load)" "el_faults (snd ?load) = el_faults (sv_ledger sv)"
    using assms load_observations_ok by (simp_all add: service_ok_def)
  then have "service_ok cr identity vs (sv\<lparr>sv_ledger := snd ?load\<rparr>)"
    using assms by (simp add: service_ok_def)
  then show ?thesis
    by (simp add: restore_observations_def case_prod_unfold Let_def service_ok_def split: loaded.split)
qed

lemma service_ok_install:
  assumes "service_ok cr identity vs sv"
  shows "service_ok cr identity {} (snd (install cr hx removable ep ctx sv))"
proof -
  define flushed where "flushed = (if sv_observations_dirty sv then snd (flush hx sv) else sv)"
  have "service_ok cr identity vs flushed"
    using assms service_ok_same [OF assms flush_same_facts] by (simp add: flushed_def)
  then have reset: "service_ok cr identity {} (reset_context ctx flushed)" by (rule service_ok_reset)
  have merged: "service_ok cr identity {} ((reset_context ctx flushed)
      \<lparr>sv_ledger := merge_faults faults (sv_ledger (reset_context ctx flushed)), sv_faults_written := w\<rparr>)"
    if "fault_map_ok faults" for faults w
    using reset that merge_faults_ok [OF that, of "sv_ledger (reset_context ctx flushed)"]
    by (simp add: service_ok_def ledger_ok_def)
  have unwritten: "service_ok cr identity {} ((reset_context ctx flushed)\<lparr>sv_faults_written := w\<rparr>)" for w
    using reset by (simp add: service_ok_def)
  show ?thesis
  proof (cases "load_faults hx (sv_store (reset_context ctx flushed))")
    case Absent
    then show ?thesis
      using service_ok_restore [OF unwritten] by (simp add: install_def Let_def flip: flushed_def)
  next
    case Corrupt
    then show ?thesis using reset by (simp add: install_def Let_def flip: flushed_def)
  next
    case (Loaded faults)
    then show ?thesis
      using service_ok_restore [OF merged [OF load_faults_ok [OF Loaded]]]
      by (simp add: install_def Let_def flip: flushed_def)
  qed
qed

lemma accept_ok: "service_ok cr identity vs sv \<Longrightarrow> service_ok cr identity vs (snd (accept cr ob sv))"
  by (simp add: accept_def case_prod_unfold service_ok_def record_observation_ok record_observation_faults)

lemma sign_and_accept_ok:
  "service_ok cr identity vs sv \<Longrightarrow> service_ok cr identity vs (snd (sign_and_accept cr ob sv))"
  by (simp add: sign_and_accept_def Let_def case_prod_unfold accept_ok)

lemma observe_ok:
  assumes "service_ok cr identity vs sv"
  shows "service_ok cr identity vs (snd (observe_attestation cr n h r sv))"
    "service_ok cr identity vs (snd (observe_participation cr pr h r sv))"
    "service_ok cr identity vs (snd (observe_participation_response cr rsp c h r sv))"
  using assms
  by (simp_all add: observe_attestation_def observe_participation_def observe_participation_response_def
      sign_participation_def sign_and_accept_ok split: option.split)

lemma service_record_fault_ok:
  assumes "service_ok cr identity vs sv"
  shows "service_ok cr identity vs (service_record_fault hx n f sv)"
proof -
  have "ledger_ok cr ctx (record_fault n f l) = ledger_ok cr ctx l" for ctx l
    by (simp add: ledger_ok_def record_fault_def)
  then show ?thesis
    using assms by (simp add: service_record_fault_def Let_def case_prod_unfold service_ok_def fault_map_ok_record)
qed

lemma record_verdict_ok:
  assumes "service_ok cr identity vs sv"
  shows "service_ok cr identity (insert v vs) (record_verdict hx v sv)"
proof -
  have grow: "service_ok cr identity vs sv \<Longrightarrow> service_ok cr identity (insert v vs) sv" for sv
    by (auto simp: service_ok_def verdicts_ok_def)
  have put: "service_ok cr identity (insert v vs) (sv'\<lparr>sv_incarnations := i, sv_verdicts := smap_put (av_node_id v) v (sv_verdicts sv')\<rparr>)"
    if "service_ok cr identity vs sv'" "av_passed v" for sv' i
    using that by (auto simp: service_ok_def verdicts_ok_def smap_get_put)
  show ?thesis
    using grow [OF assms] put [OF assms] put [OF service_record_fault_ok [OF assms]]
    by (simp add: record_verdict_def Let_def split: option.split)
qed

lemma serve_ok:
  assumes "service_ok cr identity vs sv"
  shows "service_ok cr identity (held_after vs c) (snd (serve cr hx c sv))"
proof (cases c)
  case Flush
  then show ?thesis using service_ok_same [OF assms flush_same_facts] by simp
qed (use assms in \<open>simp_all add: enter_epoch_def enter_genesis_def service_ok_install record_verdict_ok observe_ok
    accept_ok service_record_fault_ok\<close>,
  simp_all add: set_certificate_source_def finalize_def clear_finalization_def service_ok_def)

lemma serve_all_ok:
  "service_ok cr identity (held_verdicts calls) (serve_all cr hx calls (eligibility_service nw self identity st))"
proof (induction calls rule: rev_induct)
  case Nil
  then show ?case
    by (simp add: serve_all_def held_verdicts_def eligibility_service_def service_ok_def verdicts_ok_def ledger_ok_def
        empty_ledger_def)
next
  case (snoc c calls)
  then show ?case using serve_ok [OF snoc, of c hx] by (simp add: serve_all_def held_verdicts_def)
qed

section \<open>Released pools\<close>

lemma frozen_pool_Some:
  assumes "frozen_pool cr sv ep = Some pool"
  obtains f where "sv_finalized sv = Some f" and "fe_next_epoch f = ep"
    and "eligibility_commitment_digest cr (compute_state cr sv ep) = fe_commitment f"
    and "from_nodes (eligible_nodes (compute_state cr sv ep)) = Some pool"
  using assms by (auto simp: frozen_pool_def Let_def split: option.splits if_splits)

lemma set_eligible_nodes: "set (eligible_nodes s) = er_subject ` {r \<in> set (es_records s). er_eligible r}"
  by (auto simp: eligible_nodes_def)

lemma es_quorum_compute: "es_quorum (compute_state cr sv ep) = fc_quorum (sv_context sv)"
  by (simp add: compute_state_def Let_def split: option.split)

definition judged_incarnation :: "eligibility_service \<Rightarrow> node_id \<Rightarrow> u64" where
  "judged_incarnation sv node =
     (case quorum_incarnation (sv_ledger sv) node (sv_context sv) of Some i \<Rightarrow> i | None \<Rightarrow> kFrozenIncarnation)"

text \<open>An eligible record is one whose mesh facts, certificate and agreed claims all hold.\<close>

lemma compute_record_eligible:
  "er_eligible (compute_record cr sv node) \<longleftrightarrow>
     (let evidence = evaluate cr (sv_ledger sv) node (judged_incarnation sv node) (sv_context sv)
      in platform_claims_are_consistent (me_platform_claims evidence) \<and>
         all_platform_claims_proved (me_platform_claims evidence) \<and>
         (\<exists>source. sv_certificate_source sv = Some source \<and> source node) \<and>
         me_uptime_valid evidence \<and> me_mesh_health_valid evidence)"
proof -
  have "er_eligible (compute_record cr sv node) \<longleftrightarrow> tier1_eligibility
     \<lparr>av_node_id = node, av_epoch = fc_epoch (sv_context sv), av_incarnation = judged_incarnation sv node,
      av_purpose = EligibilityPurpose, av_context_digest = 0, av_evidence_digest = 0, av_passed = False,
      av_claims = me_platform_claims (evaluate cr (sv_ledger sv) node (judged_incarnation sv node) (sv_context sv))\<rparr>
     \<lparr>mf_certificate_valid = (case sv_certificate_source sv of None \<Rightarrow> False | Some source \<Rightarrow> source node),
      mf_uptime_valid = me_uptime_valid (evaluate cr (sv_ledger sv) node (judged_incarnation sv node) (sv_context sv)),
      mf_mesh_health_valid =
        me_mesh_health_valid (evaluate cr (sv_ledger sv) node (judged_incarnation sv node) (sv_context sv)),
      mf_current_epoch = Some (fc_epoch (sv_context sv)),
      mf_current_incarnation = Some (judged_incarnation sv node)\<rparr> = Eligible"
    by (simp only: compute_record_def Let_def eligibility_record.simps tier1_eligibility_def judged_incarnation_def)
  then show ?thesis by (simp add: eligible_iff Let_def split: option.split)
qed

lemma pool_member_eligible:
  assumes "frozen_pool cr sv ep = Some pool" and "node \<in> set pool"
  shows "er_eligible (compute_record cr sv node)" and "node \<in> set (candidates sv)"
proof -
  obtain f where "from_nodes (eligible_nodes (compute_state cr sv ep)) = Some pool"
    using assms(1) by (rule frozen_pool_Some)
  then have "node \<in> set (eligible_nodes (compute_state cr sv ep))"
    using from_nodes_Some(3) assms(2) by blast
  moreover have "er_subject (compute_record cr sv n) = n" for n by (simp add: compute_record_def Let_def)
  ultimately show "er_eligible (compute_record cr sv node)" and "node \<in> set (candidates sv)"
    by (auto simp: set_eligible_nodes compute_state_def Let_def split: option.splits)
qed

section \<open>What survives a restart\<close>

text \<open>The fault set the service believes written is the one a power loss would leave.\<close>

definition faults_on_disk :: "hex_codec \<Rightarrow> eligibility_service \<Rightarrow> bool" where
  "faults_on_disk hx sv \<longleftrightarrow>
     (\<forall>f. sv_faults_written sv = Some f \<longrightarrow> load_faults hx (crashed (sv_store sv)) = Loaded f)"

lemma load_faults_crashed:
  "load_faults hx (crashed st) = load_faults hx (crashed st')"
  if "dk_durable (est_disk st) faults_path = dk_durable (est_disk st') faults_path"
  using that by (simp add: load_faults_def crashed_def)

lemma store_faults_durable:
  assumes "hex_codec_ok hx" and "fault_map_ok faults" and "store_faults hx faults st = (True, st')"
  shows "load_faults hx (crashed st') = Loaded faults"
    "dk_durable (est_disk st') (path_for e) = dk_durable (est_disk st) (path_for e)"
proof -
  have w: "write_atomic faults_path (json_dump (hx_json hx) (faults_document hx faults)) st = (True, st')"
    and len: "length faults \<le> kMaxStoredRecords"
    using assms(3) by (auto simp: store_faults_def split: if_splits)
  show "load_faults hx (crashed st') = Loaded faults"
    using write_atomic_written(2) [OF w] assms(2) len
    by (intro load_stored_faults [OF assms(1)]) (simp_all add: crashed_def fault_map_ok_def)
  show "dk_durable (est_disk st') (path_for e) = dk_durable (est_disk st) (path_for e)"
    by (rule write_atomic_written(4) [OF w]) (simp_all add: eligibility_paths)
qed

lemma store_observations_durable:
  assumes "store_observations hx ep ps st = (True, st')"
  shows "dk_durable (est_disk st') (path_for ep) =
      Content (json_dump (hx_json hx) (observations_document hx ep ps)) True"
    "dk_durable (est_disk st') faults_path = dk_durable (est_disk st) faults_path"
    "length ps \<le> kMaxStoredRecords"
proof -
  have w: "write_atomic (path_for ep) (json_dump (hx_json hx) (observations_document hx ep ps)) st = (True, st')"
    and len: "length ps \<le> kMaxStoredRecords"
    using assms by (auto simp: store_observations_def split: if_splits)
  show "dk_durable (est_disk st') (path_for ep) =
      Content (json_dump (hx_json hx) (observations_document hx ep ps)) True"
    by (rule write_atomic_written(2) [OF w])
  show "dk_durable (est_disk st') faults_path = dk_durable (est_disk st) faults_path"
    by (rule write_atomic_written(4) [OF w]) (simp_all add: eligibility_paths)
  show "length ps \<le> kMaxStoredRecords" by (rule len)
qed

text \<open>The fault file is on the device as it is shown, and the directory is synced after every rename to come.\<close>

definition settled :: "eligibility_store \<Rightarrow> bool" where
  "settled st \<longleftrightarrow> dk_durable (est_disk st) faults_path = dk_visible (est_disk st) faults_path \<and>
     (\<forall>(created, oc) \<in> set (est_calls st). oc_open_dir oc \<and> oc_fsync_dir oc)"

lemma settled_crashed: "settled st \<Longrightarrow> load_faults hx (crashed st) = load_faults hx st"
  by (simp add: settled_def load_faults_def crashed_def)

lemma write_atomic_settled:
  assumes "settled st" and "write_atomic path content st = (written, st')" and "path \<in> insert faults_path (range path_for)"
  shows "settled st'" and "path \<noteq> faults_path \<or> \<not> written \<Longrightarrow> load_faults hx st' = load_faults hx st"
proof -
  have "settled st' \<and> (path \<noteq> faults_path \<or> \<not> written \<longrightarrow>
      dk_visible (est_disk st') faults_path = dk_visible (est_disk st) faults_path)"
  proof (cases "est_calls st")
    case Nil
    then show ?thesis using assms(1,2) by (simp add: write_atomic_def)
  next
    case (Cons c rest)
    obtain created oc where c: "c = (created, oc)" by (cases c)
    have sync: "oc_open_dir oc" "oc_fsync_dir oc" and rest: "settled (st\<lparr>est_calls := rest\<rparr>)"
      using assms(1) Cons c by (auto simp: settled_def)
    show ?thesis
    proof (cases created)
      case False
      then show ?thesis using assms(2) Cons c rest by (auto simp: write_atomic_def)
    next
      case True
      then have w: "write_durable oc path content (est_disk st) = (written, est_disk st')" and calls: "est_calls st' = rest"
        using assms(2) Cons c by (auto simp: write_atomic_def split: prod.splits)
      show ?thesis
      proof (cases "path = faults_path")
        case True
        have "dk_visible (est_disk st') path = dk_visible (est_disk st) path \<and>
            dk_durable (est_disk st') = dk_durable (est_disk st)" if "\<not> written"
          using write_durable_synced [OF _ sync] w that by simp
        moreover have "dk_durable (est_disk st') path = dk_visible (est_disk st') path" if written
          using w that by (cases rule: write_durable_cases) simp_all
        ultimately show ?thesis using rest True by (cases written) (auto simp: settled_def calls)
      next
        case False
        then have "dk_visible (est_disk st') faults_path = dk_visible (est_disk st) faults_path"
            "dk_durable (est_disk st') faults_path = dk_durable (est_disk st) faults_path"
          using write_durable_frame [OF w] by (auto simp: eligibility_paths)
        then show ?thesis using rest by (simp add: settled_def calls)
      qed
    qed
  qed
  then show "settled st'" and "path \<noteq> faults_path \<or> \<not> written \<Longrightarrow> load_faults hx st' = load_faults hx st"
    by (simp_all add: load_faults_def)
qed

lemma store_observations_settled:
  assumes "settled st" and "store_observations hx ep ps st = (written, st')"
  shows "settled st'" "load_faults hx st' = load_faults hx st"
  using assms write_atomic_settled [OF assms(1), of "path_for ep"]
  by (auto simp: store_observations_def eligibility_paths split: if_splits)

lemma store_faults_settled:
  assumes "hex_codec_ok hx" and "fault_map_ok faults" and "settled st" and "store_faults hx faults st = (written, st')"
  shows "settled st'" "load_faults hx st' = (if written then Loaded faults else load_faults hx st)"
proof -
  show "settled st'" using assms write_atomic_settled(1) by (auto simp: store_faults_def split: if_splits)
  then show "load_faults hx st' = (if written then Loaded faults else load_faults hx st)"
    using assms write_atomic_settled(2) [OF assms(3)] settled_crashed [of st' hx]
      store_faults_durable(1) [OF assms(1,2)]
    by (cases written) (auto simp: store_faults_def split: if_splits)
qed

lemma discard_before_settled:
  assumes "settled st"
  shows "settled (discard_before removable ep st)" "load_faults hx (discard_before removable ep st) = load_faults hx st"
proof -
  have "\<not> discards ep faults_path" by (simp add: discards_def faults_path_def)
  then show "settled (discard_before removable ep st)" "load_faults hx (discard_before removable ep st) = load_faults hx st"
    using assms by (simp_all add: settled_def load_faults_def discard_before_def Let_def)
qed

text \<open>The fault set the service believes written is the one in the fault file.\<close>

definition faults_settled :: "hex_codec \<Rightarrow> eligibility_service \<Rightarrow> bool" where
  "faults_settled hx sv \<longleftrightarrow> settled (sv_store sv) \<and>
     (\<forall>f. sv_faults_written sv = Some f \<longrightarrow> load_faults hx (sv_store sv) = Loaded f)"

lemma flush_settled:
  assumes "hex_codec_ok hx" and "fault_map_ok (el_faults (sv_ledger sv))" and "faults_settled hx sv"
  shows "faults_settled hx (snd (flush hx sv))"
proof -
  let ?mid = "snd (flush_observations hx sv)"
  have mid: "faults_settled hx ?mid" "sv_ledger ?mid = sv_ledger sv"
    using assms(3) store_observations_settled
      [of "sv_store sv" hx "fc_epoch (sv_context sv)" "snapshot (sv_ledger sv)", OF _ surjective_pairing]
    by (auto simp: flush_observations_def faults_settled_def case_prod_unfold)
  then have "faults_settled hx (snd (flush_faults hx ?mid))"
    using store_faults_settled [OF assms(1,2), of "sv_store ?mid", OF _ surjective_pairing]
    by (auto simp: flush_faults_def faults_settled_def case_prod_unfold)
  then show ?thesis by (simp add: flush_def case_prod_unfold)
qed

lemma restore_observations_settled:
  "faults_settled hx sv \<Longrightarrow> faults_settled hx (snd (restore_observations cr hx removable ep sv))"
  using discard_before_settled [of "sv_store sv"]
  by (simp add: restore_observations_def faults_settled_def case_prod_unfold Let_def split: loaded.split)

lemma install_settled:
  assumes "hex_codec_ok hx" and "fault_map_ok (el_faults (sv_ledger sv))" and "faults_settled hx sv"
  shows "faults_settled hx (snd (install cr hx removable ep ctx sv))"
proof -
  define flushed where "flushed = (if sv_observations_dirty sv then snd (flush hx sv) else sv)"
  have "faults_settled hx flushed" using flush_settled [OF assms] assms(3) by (simp add: flushed_def)
  then have reset: "faults_settled hx (reset_context ctx flushed)" by (simp add: faults_settled_def reset_context_def)
  show ?thesis
    using reset
    by (cases "load_faults hx (sv_store (reset_context ctx flushed))")
      (auto simp: install_def Let_def flushed_def [symmetric] faults_settled_def
        intro!: restore_observations_settled [unfolded faults_settled_def])
qed

lemma service_record_fault_settled:
  assumes "hex_codec_ok hx" and "fault_map_ok (el_faults (sv_ledger sv))" and "faults_settled hx sv"
  shows "faults_settled hx (service_record_fault hx n f sv)"
  using assms(3) store_faults_settled [OF assms(1) fault_map_ok_record [OF assms(2)], of "sv_store sv", OF _ surjective_pairing]
  by (auto simp: service_record_fault_def faults_settled_def Let_def case_prod_unfold)

lemma sign_and_accept_settled: "faults_settled hx (snd (sign_and_accept cr ob sv)) = faults_settled hx sv"
  by (simp add: sign_and_accept_def accept_def faults_settled_def Let_def case_prod_unfold)

lemma record_verdict_settled:
  assumes "hex_codec_ok hx" and "fault_map_ok (el_faults (sv_ledger sv))" and "faults_settled hx sv"
  shows "faults_settled hx (record_verdict hx v sv)"
proof -
  have "faults_settled hx (sv'\<lparr>sv_incarnations := i, sv_verdicts := vs\<rparr>) = faults_settled hx sv'" for sv' i vs
    by (simp add: faults_settled_def)
  then show ?thesis
    using assms(3) service_record_fault_settled [OF assms] by (simp add: record_verdict_def Let_def split: option.split)
qed

lemma serve_settled:
  assumes "hex_codec_ok hx" and "fault_map_ok (el_faults (sv_ledger sv))" and "faults_settled hx sv"
  shows "faults_settled hx (snd (serve cr hx c sv))"
proof (cases c)
  case (AcceptObservation ob)
  then show ?thesis using assms(3) by (simp add: accept_def faults_settled_def case_prod_unfold)
qed (use assms in \<open>simp_all add: enter_epoch_def enter_genesis_def install_settled record_verdict_settled flush_settled
    service_record_fault_settled observe_attestation_def observe_participation_def observe_participation_response_def
    sign_participation_def sign_and_accept_settled split: option.split\<close>,
  simp_all add: set_certificate_source_def finalize_def clear_finalization_def faults_settled_def)

lemma serve_all_settled:
  assumes "hex_codec_ok hx" and "settled st"
  shows "faults_settled hx (serve_all cr hx calls (eligibility_service nw self identity st))"
proof (induction calls rule: rev_induct)
  case Nil
  then show ?case using assms(2) by (simp add: serve_all_def eligibility_service_def faults_settled_def)
next
  case (snoc c calls)
  then show ?case
    using serve_settled [OF assms(1) _ snoc, of cr c] serve_all_ok [of cr identity calls hx nw self st]
    by (simp add: serve_all_def service_ok_def)
qed

lemma flush_dirty_durable:
  assumes "hex_codec_ok hx" and "fault_map_ok (el_faults (sv_ledger sv))" and "faults_on_disk hx sv"
    and "sv_observations_dirty sv" and "flush hx sv = (True, sv')"
  shows "load_faults hx (crashed (sv_store sv')) = Loaded (el_faults (sv_ledger sv))"
    and "dk_durable (est_disk (sv_store sv')) (path_for (fc_epoch (sv_context sv))) =
      Content (json_dump (hx_json hx) (observations_document hx (fc_epoch (sv_context sv)) (snapshot (sv_ledger sv)))) True"
    and "length (snapshot (sv_ledger sv)) \<le> kMaxStoredRecords"
proof -
  let ?ep = "fc_epoch (sv_context sv)" and ?faults = "el_faults (sv_ledger sv)"
  obtain st where st: "store_observations hx ?ep (snapshot (sv_ledger sv)) (sv_store sv) = (True, st)"
    and rest: "flush_faults hx (sv\<lparr>sv_store := st, sv_observations_dirty := False\<rparr>) = (True, sv')"
    using assms(4,5)
    by (cases "store_observations hx ?ep (snapshot (sv_ledger sv)) (sv_store sv)")
      (auto simp: flush_def flush_observations_def split: if_splits prod.splits)
  note durable = store_observations_durable [OF st]
  show "length (snapshot (sv_ledger sv)) \<le> kMaxStoredRecords" by (rule durable(3))
  have known: "load_faults hx (crashed st) = load_faults hx (crashed (sv_store sv))"
    by (rule load_faults_crashed [OF durable(2)])
  have "load_faults hx (crashed (sv_store sv')) = Loaded ?faults \<and>
      dk_durable (est_disk (sv_store sv')) (path_for ?ep) = dk_durable (est_disk st) (path_for ?ep)"
  proof (cases "sv_faults_written sv = Some ?faults")
    case True
    then show ?thesis using rest known assms(3) by (auto simp: flush_faults_def faults_on_disk_def)
  next
    case False
    then have "store_faults hx ?faults st = (True, sv_store sv')"
      using rest by (cases "store_faults hx ?faults st") (auto simp: flush_faults_def)
    then show ?thesis using store_faults_durable [OF assms(1,2)] by blast
  qed
  then show "load_faults hx (crashed (sv_store sv')) = Loaded ?faults"
    and "dk_durable (est_disk (sv_store sv')) (path_for ?ep) =
      Content (json_dump (hx_json hx) (observations_document hx ?ep (snapshot (sv_ledger sv)))) True"
    using durable(1) by simp_all
qed

lemma snapshot_bounded:
  assumes "ledger_ok cr ctx l"
  shows "\<forall>p \<in> set (snapshot l). length (ps_attestations p) \<le> kMaxContinuityAttestations"
proof
  fix p
  assume "p \<in> set (snapshot l)"
  then obtain key r where "(key, r) \<in> set (el_records l)" and p: "ps_attestations p = sorted_list_of_set (lr_attestations r)"
    by (auto simp: snapshot_def)
  then have "entry_ok cr ctx key r" using assms by (auto simp: ledger_ok_def)
  then show "length (ps_attestations p) \<le> kMaxContinuityAttestations"
    by (simp add: p entry_ok_def)
qed

text \<open>The computed state is a function of the context, the ledger and the certificate source.\<close>

lemma compute_state_cong:
  assumes "sv_context a = sv_context b" and "sv_ledger a = sv_ledger b"
    and "sv_certificate_source a = sv_certificate_source b"
  shows "compute_state cr a n = compute_state cr b n"
proof -
  have "compute_record cr a = compute_record cr b" by (rule ext) (simp add: compute_record_def assms)
  moreover have "candidates a = candidates b" by (simp add: candidates_def assms)
  ultimately show ?thesis by (simp only: compute_state_def assms(1))
qed

text \<open>A crash after a successful flush gives back the ledger.\<close>

lemma install_after_crash:
  assumes "hex_codec_ok hx" and "ledger_ok cr ctx l" and "fault_map_ok (el_faults l)"
    and "load_faults hx st = Loaded (el_faults l)"
    and "dk_visible (est_disk st) (path_for ep) =
      Content (json_dump (hx_json hx) (observations_document hx ep (snapshot l))) synced"
    and "length (snapshot l) \<le> kMaxStoredRecords"
  shows "\<exists>sv. install cr hx removable ep ctx (eligibility_service nw self identity st) = (Restored, sv) \<and>
    sv_ledger sv = l \<and> sv_context sv = ctx \<and> sv_finalized sv = None"
proof -
  have merged: "merge_faults (el_faults l) empty_ledger = \<lparr>el_records = [], el_faults = el_faults l\<rparr>"
    using assms(3) by (intro merge_faults_empty) (simp add: fault_map_ok_def)
  have "load_observations cr hx ep ctx \<lparr>el_records = [], el_faults = el_faults l\<rparr> st = (Loaded (), l)"
    using load_stored_observations [OF assms(1,5) snapshot_bounded [OF assms(2)] assms(6)] restore_snapshot [OF assms(2)]
    by simp
  then show ?thesis
    by (simp add: install_def eligibility_service_def reset_context_def assms(4) merged restore_observations_def Let_def)
qed

section \<open>An example run\<close>

text \<open>A committee of one member attests a second node twice and sees it participate; another node only
  receives the member's statements. The digests are those of the example crypto, whose table holds the
  one state both compute.\<close>

definition example_claims :: verified_platform_claims where
  "example_claims =
     \<lparr>cl_profile_id = AzureSnpVtpm, cl_profile_ruleset = 1, cl_hardware_confidentiality = True,
      cl_platform_identity = True, cl_evidence_freshness = True, cl_node_identity_binding = True,
      cl_incarnation_binding = True, cl_epoch_binding = True, cl_security_ruleset_binding = True,
      cl_boot_integrity = True, cl_runtime_integrity = True, cl_tcb = True, cl_attestation_profile = True,
      cl_ima_anchored = True, cl_binary_approved = True, cl_runtime_profile_enforced = True\<rparr>"

definition example_verdict :: "digest \<Rightarrow> attestation_verdict" where
  "example_verdict d =
     \<lparr>av_node_id = NodeId 2, av_epoch = 1, av_incarnation = 1, av_purpose = EligibilityPurpose,
      av_context_digest = 0, av_evidence_digest = d, av_passed = True, av_claims = example_claims\<rparr>"

definition example_statement :: "observation_kind \<Rightarrow> digest \<Rightarrow> u64 \<Rightarrow> eligibility_observation" where
  "example_statement kind d height =
     \<lparr>ob_network_id = 1, ob_epoch = 1, ob_subject = NodeId 2, ob_subject_incarnation = 1, ob_kind = kind,
      ob_attestation_digest = d, ob_claims = (case kind of Attestation \<Rightarrow> example_claims | Participation \<Rightarrow> no_claims),
      ob_height = height, ob_state_reference = 0, ob_observer = NodeId 1, ob_signature = 0\<rparr>"

definition example_participation :: participation_proof where
  "example_participation =
     \<lparr>pp_network_id = 1, pp_epoch = 1, pp_consensus_ruleset = kConsensusRulesetVersion, pp_subject = NodeId 2,
      pp_incarnation = 1, pp_subject_height = 5\<rparr>"

definition released_state :: eligibility_state where
  "released_state =
     \<lparr>es_network_id = 1, es_epoch = 1, es_next_epoch = 2, es_security_ruleset = kSecurityRulesetVersion,
      es_consensus_ruleset = kConsensusRulesetVersion, es_observer_set = 0, es_quorum = 1,
      es_records =
        [\<lparr>er_subject = NodeId 1, er_incarnation = 1, er_uptime_valid = False, er_mesh_health_valid = False,
          er_certificate_valid = False, er_platform_claims = 0, er_faults = 0, er_eligible = False\<rparr>,
         \<lparr>er_subject = NodeId 2, er_incarnation = 1, er_uptime_valid = True, er_mesh_health_valid = True,
          er_certificate_valid = True, er_platform_claims = 0, er_faults = 0, er_eligible = True\<rparr>]\<rparr>"

definition service_crypto :: crypto where
  "service_crypto = example_crypto [eligibility_state_stream released_state]"

definition example_hex :: hex_codec where
  "example_hex =
     \<lparr>hx_json = example_codec, sodium_bin2hex = sodium_bin2base64 example_codec,
      sodium_hex2bin = sodium_base642bin example_codec\<rparr>"

definition blank_store :: "(bool \<times> os_calls) list \<Rightarrow> eligibility_store" where
  "blank_store calls = \<lparr>est_disk = \<lparr>dk_visible = (\<lambda>_. NoFile), dk_durable = (\<lambda>_. NoFile)\<rparr>, est_calls = calls\<rparr>"

definition example_finality :: finalized_eligibility where
  "example_finality =
     \<lparr>fe_commitment = eligibility_commitment_digest service_crypto released_state, fe_consensus_reference = 0,
      fe_height = 9, fe_state_root = 0, fe_next_epoch = 2\<rparr>"

definition entry_calls :: "service_call list" where
  "entry_calls = [EnterEpoch (\<lambda>_. True) 1 [NodeId 1], SetCertificateSource (\<lambda>n. n = NodeId 2)]"

definition member_calls :: "service_call list" where
  "member_calls = entry_calls @
     [RecordVerdict (example_verdict 11), ObserveAttestation (NodeId 2) 3 0,
      RecordVerdict (example_verdict 12), ObserveAttestation (NodeId 2) 4 0,
      ObserveParticipation example_participation 5 0]"

definition other_calls :: "service_call list" where
  "other_calls = entry_calls @ map AcceptObservation
     [example_statement Attestation 11 3, example_statement Attestation 12 4, example_statement Participation 0 5]"

definition run_of :: "node_id \<Rightarrow> (bool \<times> os_calls) list \<Rightarrow> service_call list \<Rightarrow> eligibility_service" where
  "run_of n disk calls = serve_all service_crypto example_hex calls
     (eligibility_service 1 n \<lparr>kp_public_key = node_bytes n, kp_private_key = []\<rparr> (blank_store disk))"

definition example_records :: "(ledger_key \<times> ledger_record) list" where
  "example_records =
     [((1, NodeId 2, NodeId 1, Attestation), \<lparr>lr_latest = example_statement Attestation 12 4,
         lr_attestations = {11, 12}, lr_incarnation = 1\<rparr>),
      ((1, NodeId 2, NodeId 1, Participation), \<lparr>lr_latest = example_statement Participation 0 5,
         lr_attestations = {}, lr_incarnation = 1\<rparr>)]"

lemma example_hex_ok [simp]: "hex_codec_ok example_hex"
  by (simp add: hex_codec_ok_def example_hex_def example_codec_def codec_ok_def)

lemma service_digest:
  assumes "length d < 2 ^ 32" and "d \<noteq> kStateDomain"
  shows "sha256 service_crypto (field_stream (string_bytes d # fs)) = 0"
  using assms unfolding service_crypto_def example_sha256 eligibility_state_stream_fields
  by (simp add: field_stream_domain kStateDomain_def del: field_stream_simps)

lemma observation_digest_0 [simp]: "observation_signing_digest service_crypto ob = 0"
  unfolding observation_signing_digest_def encoder_digest_def observation_stream_fields append_Cons
  by (rule service_digest) (simp_all add: kObservationDomain_def kStateDomain_def)

lemma service_verify [simp]: "verify_detached service_crypto k 0 s \<longleftrightarrow> s = 0"
    "sign_detached service_crypto sk 0 = 0"
  by (simp_all add: service_crypto_def example_simps)

lemma example_claims_facts [simp]:
  "platform_claims_are_consistent example_claims" "all_platform_claims_proved example_claims"
  by (simp_all add: platform_claims_are_consistent_def all_platform_claims_proved_def example_claims_def kRequired_def)

lemma committee_digest_0: "tier1_set_digest service_crypto [NodeId 1] = 0"
  by (simp add: tier1_set_digest_def encoder_digest_def tier1_set_stream_def encoder_fields service_digest
      kParticipantSetDomain_def kStateDomain_def del: field_stream_simps)

lemma claims_digest_0: "platform_claims_digest service_crypto c = 0"
  by (simp add: platform_claims_digest_def encoder_digest_def encoder_fields encode_platform_claims_fields
      service_digest kClaimsDomain_def kStateDomain_def del: field_stream_simps)

lemmas service_simps =
  enter_epoch_def install_def reset_context_def restore_observations_def load_faults_def load_observations_def
  blank_store_def opened_def eligibility_service_def established_fact_context_def set_certificate_source_def
  record_verdict_def service_record_fault_def is_observer_def observed_def observe_attestation_def
  sign_and_accept_def sign_observation_def accept_def record_observation_def observation_check_def
  observation_signature_valid_def observation_key_def first_record_def renewed_record_def
  observe_participation_def sign_participation_def expected_incarnation_def example_verdict_def
  example_participation_def example_statement_def kMaxFutureViewDistance_def kFrozenIncarnation_def
  kMaxContinuityAttestations_def empty_ledger_def consensus_quorum_def max_byzantine_faults_def

lemma entered:
  "run_of n disk entry_calls = (eligibility_service 1 n \<lparr>kp_public_key = node_bytes n, kp_private_key = []\<rparr> (blank_store disk))
     \<lparr>sv_context := established_fact_context 1 1 [NodeId 1], sv_certificate_source := Some (\<lambda>n. n = NodeId 2)\<rparr>"
  by (simp add: run_of_def entry_calls_def serve_all_def service_simps Let_def)

lemma run_of_append:
  "run_of n disk (a @ b) = serve_all service_crypto example_hex b (run_of n disk a)"
  by (simp add: run_of_def serve_all_def)

lemma member_run:
  "sv_ledger (run_of (NodeId 1) disk member_calls) = \<lparr>el_records = example_records, el_faults = []\<rparr>"
  "sv_context (run_of (NodeId 1) disk member_calls) = established_fact_context 1 1 [NodeId 1]"
  "sv_certificate_source (run_of (NodeId 1) disk member_calls) = Some (\<lambda>n. n = NodeId 2)"
  "sv_observations_dirty (run_of (NodeId 1) disk member_calls)"
  "sv_faults_written (run_of (NodeId 1) disk member_calls) = None"
  "sv_store (run_of (NodeId 1) disk member_calls) = blank_store disk"
  "sv_self (run_of (NodeId 1) disk member_calls) = NodeId 1"
  unfolding member_calls_def run_of_append entered
  by (simp_all add: serve_all_def service_simps example_records_def Let_def insert_commute)

lemma other_run:
  "sv_ledger (run_of (NodeId 3) disk other_calls) = \<lparr>el_records = example_records, el_faults = []\<rparr>"
  "sv_context (run_of (NodeId 3) disk other_calls) = established_fact_context 1 1 [NodeId 1]"
  "sv_certificate_source (run_of (NodeId 3) disk other_calls) = Some (\<lambda>n. n = NodeId 2)"
  "sv_self (run_of (NodeId 3) disk other_calls) = NodeId 3"
  unfolding other_calls_def run_of_append entered
  by (simp_all add: serve_all_def service_simps example_records_def Let_def insert_commute)

lemmas evidence_simps =
  compute_record_def member_run quorum_incarnation_def evaluate_def evaluate_entry_def entry_counts_def
  example_records_def witness_threshold_def established_fact_context_def consensus_quorum_def
  max_byzantine_faults_def kFrozenIncarnation_def claims_digest_0 fault_bits_def released_state_def
  add_observer_def example_statement_def kMinContinuityObservations_def eligible_iff [unfolded tier1_eligibility_def]

lemma example_judged:
  "compute_record service_crypto (run_of (NodeId 1) disk member_calls) (NodeId 1) = es_records released_state ! 0"
  "compute_record service_crypto (run_of (NodeId 1) disk member_calls) (NodeId 2) = es_records released_state ! 1"
  by (simp_all add: evidence_simps Let_def)

lemma member_state: "compute_state service_crypto (run_of (NodeId 1) disk member_calls) 2 = released_state"
proof -
  have "subjects \<lparr>el_records = example_records, el_faults = []\<rparr> 1 1 = [NodeId 2]"
    by (simp add: subjects_def example_records_def add_observer_def)
  then have "candidates (run_of (NodeId 1) disk member_calls) = [NodeId 1, NodeId 2]"
    by (simp add: candidates_def member_run established_fact_context_def max_byzantine_faults_def Let_def
        word_le_nat_alt)
  moreover have "from_nodes [NodeId 1] = Some [NodeId 1]" by (simp add: from_nodes_def)
  ultimately show ?thesis
    by (simp add: compute_state_def member_run established_fact_context_def committee_digest_0 example_judged
        consensus_quorum_def max_byzantine_faults_def Let_def)
      (simp add: released_state_def)
qed

lemma other_state: "compute_state service_crypto (run_of (NodeId 3) disk other_calls) 2 = released_state"
  using compute_state_cong [of "run_of (NodeId 3) disk other_calls" "run_of (NodeId 1) disk member_calls"
      service_crypto 2] by (simp add: member_run other_run member_state)

lemma finalized_run:
  "run_of n disk (calls @ [Finalize f]) = (run_of n disk calls)\<lparr>sv_finalized := Some f\<rparr>"
  by (simp add: run_of_append) (simp add: serve_all_def finalize_def)

lemma finalized_pool:
  assumes "compute_state service_crypto (run_of n disk calls) 2 = released_state"
  shows "frozen_pool service_crypto (run_of n disk (calls @ [Finalize example_finality])) 2 = Some [NodeId 2]"
    "compute_state service_crypto (run_of n disk (calls @ [Finalize example_finality])) 2 = released_state"
proof -
  show state: "compute_state service_crypto (run_of n disk (calls @ [Finalize example_finality])) 2 = released_state"
    using compute_state_cong [of "run_of n disk (calls @ [Finalize example_finality])" "run_of n disk calls"
        service_crypto 2] assms by (simp add: finalized_run)
  have "from_nodes (eligible_nodes released_state) = Some [NodeId 2]"
    by (simp add: from_nodes_def eligible_nodes_def released_state_def)
  then show "frozen_pool service_crypto (run_of n disk (calls @ [Finalize example_finality])) 2 = Some [NodeId 2]"
    unfolding frozen_pool_def state by (simp add: finalized_run example_finality_def Let_def)
qed

lemma released_collision_free:
  "collision_free service_crypto (commitment_streams service_crypto released_state)"
proof -
  obtain fs where fs: "eligibility_commitment_stream service_crypto released_state =
      field_stream (string_bytes kCommitmentDomain # fs)"
    unfolding eligibility_commitment_stream_fields by blast
  have "sha256 service_crypto (field_stream (string_bytes kCommitmentDomain # fs)) = 0"
    by (rule service_digest) (simp_all add: kCommitmentDomain_def kStateDomain_def)
  moreover have "sha256 service_crypto (eligibility_state_stream released_state) = 1"
    by (simp add: service_crypto_def example_simps)
  ultimately show ?thesis by (auto simp: collision_free_def commitment_streams_def fs simp del: field_stream_simps)
qed

text \<open>A disk that takes a payload whole.\<close>

lemma write_atomic_ok:
  "\<exists>st'. write_atomic path content st = (True, st') \<and> est_calls st' = rest"
  if "est_calls st = (True, ok_calls (length content)) # rest"
  using that write_durable_ok [of content "length content" path "est_disk st"]
  by (auto simp: write_atomic_def case_prod_unfold prod_eq_iff)

lemma store_faults_ok:
  assumes "est_calls st = (True, ok_calls (length (json_dump (hx_json hx) (faults_document hx faults)))) # rest"
    and "length faults \<le> kMaxStoredRecords"
  shows "\<exists>st'. store_faults hx faults st = (True, st')"
  using write_atomic_ok [OF assms(1), of faults_path] assms(2) by (auto simp: store_faults_def)

definition working_disk :: "(bool \<times> os_calls) list" where
  "working_disk =
     [(True, ok_calls (length (json_dump example_codec (observations_document example_hex 1
          (snapshot \<lparr>el_records = example_records, el_faults = []\<rparr>))))),
      (True, ok_calls (length (json_dump example_codec (faults_document example_hex []))))]"

definition faulty_store :: eligibility_store where
  "faulty_store =
     \<lparr>est_disk = \<lparr>dk_visible = (\<lambda>name. if name = faults_path
          then Content (json_dump example_codec (faults_document example_hex [(NodeId 2, {EquivocationFault})])) True
          else NoFile), dk_durable = (\<lambda>_. NoFile)\<rparr>,
      est_calls = [(True, ok_calls (length (json_dump example_codec (faults_document example_hex []))))]\<rparr>"

section \<open>Properties\<close>

text \<open>C13. Two nodes never release different pools for one finalized commitment: if both hold a finality for
  the same commitment and next epoch, then the states they compute are equal and so are their pools.\<close>

theorem frozen_pools_agree:
  assumes "frozen_pool cr a ep = Some pa" and "frozen_pool cr b ep = Some pb"
    and "map_option fe_commitment (sv_finalized a) = map_option fe_commitment (sv_finalized b)"
    and "collision_free cr (commitment_streams cr (compute_state cr a ep) \<union> commitment_streams cr (compute_state cr b ep))"
    and "fc_quorum (sv_context a) < 2 ^ 64" and "fc_quorum (sv_context b) < 2 ^ 64"
  shows "compute_state cr a ep = compute_state cr b ep \<and> pa = pb"
proof -
  obtain fa where fa: "sv_finalized a = Some fa"
      "eligibility_commitment_digest cr (compute_state cr a ep) = fe_commitment fa"
      "from_nodes (eligible_nodes (compute_state cr a ep)) = Some pa"
    using assms(1) by (rule frozen_pool_Some)
  obtain fb where fb: "sv_finalized b = Some fb"
      "eligibility_commitment_digest cr (compute_state cr b ep) = fe_commitment fb"
      "from_nodes (eligible_nodes (compute_state cr b ep)) = Some pb"
    using assms(2) by (rule frozen_pool_Some)
  have "compute_state cr a ep = compute_state cr b ep"
    using assms(3,5,6) fa(1,2) fb(1,2)
    by (intro commitment_determines_state [OF assms(4)]) (simp_all add: es_quorum_compute)
  then show ?thesis using fa(3) fb(3) by simp
qed

theorem frozen_pools_agree_witness:
  "frozen_pool service_crypto (run_of (NodeId 1) [] (member_calls @ [Finalize example_finality])) 2 = Some [NodeId 2] \<and>
   frozen_pool service_crypto (run_of (NodeId 3) [] (other_calls @ [Finalize example_finality])) 2 = Some [NodeId 2] \<and>
   compute_state service_crypto (run_of (NodeId 1) [] (member_calls @ [Finalize example_finality])) 2 =
     compute_state service_crypto (run_of (NodeId 3) [] (other_calls @ [Finalize example_finality])) 2"
proof -
  let ?a = "run_of (NodeId 1) [] (member_calls @ [Finalize example_finality])"
  let ?b = "run_of (NodeId 3) [] (other_calls @ [Finalize example_finality])"
  note a = finalized_pool [OF member_state [of "[]"]] and b = finalized_pool [OF other_state [of "[]"]]
  have "collision_free service_crypto (commitment_streams service_crypto released_state)"
    by (rule released_collision_free)
  moreover have "fc_quorum (sv_context ?a) < 2 ^ 64" "fc_quorum (sv_context ?b) < 2 ^ 64"
    by (simp_all add: finalized_run member_run other_run established_fact_context_def consensus_quorum_def
        max_byzantine_faults_def)
  ultimately show ?thesis
    using frozen_pools_agree [OF a(1) b(1)] a b by (simp add: finalized_run)
qed

text \<open>C14. Every member of a released pool is qualified: after any sequence of calls, with at most the
  tolerated number of faulty observers, a node of the pool has a valid server certificate, no recorded
  fault, agreed platform claims that are consistent and all proved, and correct members other than itself
  who signed, about one incarnation, claims of that digest, two distinct attestations, and its
  participation.\<close>

theorem frozen_pool_members_qualified:
  assumes "sv = serve_all cr hx calls (eligibility_service nw self identity st)"
    and "frozen_pool cr sv ep = Some pool" and "node \<in> set pool"
    and "context_ok (sv_context sv)"
    and "card (set (fc_observers (sv_context sv)) - H) \<le> max_byzantine_faults (length (fc_observers (sv_context sv)))"
  shows "(\<exists>source. sv_certificate_source sv = Some source \<and> source node) \<and>
    map_of (el_faults (sv_ledger sv)) node = None \<and>
    (\<exists>inc claims. platform_claims_are_consistent claims \<and> all_platform_claims_proved claims \<and>
      (\<exists>h \<in> H - {node}. \<exists>r. map_of (el_records (sv_ledger sv)) (fc_epoch (sv_context sv), node, h, Attestation) = Some r \<and>
         ob_subject_incarnation (lr_latest r) = inc \<and> ob_observer (lr_latest r) = h \<and>
         observation_signature_valid cr (lr_latest r) \<and>
         platform_claims_digest cr (ob_claims (lr_latest r)) = platform_claims_digest cr claims) \<and>
      (\<exists>h \<in> H - {node}. \<exists>r. map_of (el_records (sv_ledger sv)) (fc_epoch (sv_context sv), node, h, Attestation) = Some r \<and>
         ob_subject_incarnation (lr_latest r) = inc \<and> ob_observer (lr_latest r) = h \<and>
         observation_signature_valid cr (lr_latest r) \<and> 2 \<le> card (lr_attestations r)) \<and>
      (\<exists>h \<in> H - {node}. \<exists>r. map_of (el_records (sv_ledger sv)) (fc_epoch (sv_context sv), node, h, Participation) = Some r \<and>
         ob_subject_incarnation (lr_latest r) = inc \<and> ob_observer (lr_latest r) = h \<and>
         observation_signature_valid cr (lr_latest r)))"
proof -
  let ?inc = "judged_incarnation sv node"
  let ?evidence = "evaluate cr (sv_ledger sv) node ?inc (sv_context sv)"
  have ok: "ledger_ok cr (sv_context sv) (sv_ledger sv)"
    using serve_all_ok [of cr identity calls hx nw self st] by (simp add: assms(1) service_ok_def)
  have judged: "platform_claims_are_consistent (me_platform_claims ?evidence)"
      "all_platform_claims_proved (me_platform_claims ?evidence)"
      "\<exists>source. sv_certificate_source sv = Some source \<and> source node"
      "me_uptime_valid ?evidence" "me_mesh_health_valid ?evidence"
    using pool_member_eligible(1) [OF assms(2,3)] by (simp_all add: compute_record_eligible Let_def)
  have claims: "me_platform_claims ?evidence \<noteq> no_claims"
    using judged(2) no_claims_facts(4) by metis
  show ?thesis
    using judged ledger_fact_witness [OF assms(4,5) ok, of node ?inc] ledger_claims_witness [OF assms(4,5) ok claims]
    by blast
qed

theorem frozen_pool_members_qualified_witness:
  "\<exists>r. map_of (el_records (sv_ledger (run_of (NodeId 1) [] (member_calls @ [Finalize example_finality]))))
       (1, NodeId 2, NodeId 1, Participation) = Some r \<and> observation_signature_valid service_crypto (lr_latest r)"
proof -
  let ?sv = "run_of (NodeId 1) [] (member_calls @ [Finalize example_finality])"
  have ctx: "sv_context ?sv = established_fact_context 1 1 [NodeId 1]" by (simp add: finalized_run member_run)
  then have "context_ok (sv_context ?sv)" using context_ok_established by simp
  moreover have "card (set (fc_observers (sv_context ?sv)) - {NodeId 1}) \<le>
      max_byzantine_faults (length (fc_observers (sv_context ?sv)))"
    by (simp add: ctx established_fact_context_def)
  moreover have "NodeId 2 \<in> set [NodeId 2]" by simp
  ultimately have "\<exists>h \<in> {NodeId 1} - {NodeId 2}. \<exists>r.
      map_of (el_records (sv_ledger ?sv)) (fc_epoch (sv_context ?sv), NodeId 2, h, Participation) = Some r \<and>
      observation_signature_valid service_crypto (lr_latest r)"
    using frozen_pool_members_qualified [OF run_of_def finalized_pool(1) [OF member_state [of "[]"]], of "NodeId 2" "{NodeId 1}"]
    by blast
  then show ?thesis by (simp add: ctx established_fact_context_def)
qed

text \<open>C30. A member signs attestation statements only for platforms it verified: whatever the calls before,
  an attestation statement that a call hands out for publication carries the incarnation, the evidence
  digest and the claims of a verdict that passed and was recorded in the current epoch, is about another
  node, and is signed by this member under the current network and epoch.\<close>

theorem signed_claims_were_verified:
  assumes "sv = serve_all cr hx calls (eligibility_service nw self identity st)"
    and "serve cr hx call sv = (Some ob, sv')" and "ob_kind ob = Attestation"
  shows "(\<exists>v \<in> held_verdicts calls. av_passed v \<and> av_node_id v = ob_subject ob \<and>
      av_incarnation v = ob_subject_incarnation ob \<and> av_evidence_digest v = ob_attestation_digest ob \<and>
      av_claims v = ob_claims ob \<and> av_evidence_digest v \<noteq> 0 \<and> platform_claims_are_consistent (av_claims v)) \<and>
    ob_subject ob \<noteq> ob_observer ob \<and> ob_observer ob = NodeId (kp_public_key identity) \<and>
    ob_observer ob \<in> set (fc_observers (sv_context sv)) \<and> ob_network_id ob = fc_network_id (sv_context sv) \<and>
    ob_epoch ob = fc_epoch (sv_context sv) \<and> observation_signature_valid cr ob"
proof -
  have ok: "service_ok cr identity (held_verdicts calls) sv" using serve_all_ok by (simp add: assms(1))
  have signed: "sign_and_accept cr o1 sv = (Some ob, sv') \<Longrightarrow>
      ob = sign_observation cr o1 identity \<and> observation_check cr ob (sv_context sv) = Accepted" for o1
    using ok record_observation_cases [of cr "sign_observation cr o1 identity" "sv_context sv" "sv_ledger sv"]
    by (auto simp: sign_and_accept_def accept_def service_ok_def Let_def split: prod.splits if_splits)
  obtain subject height ref where obs: "observe_attestation cr subject height ref sv = (Some ob, sv')"
    using assms(2,3)
    by (cases call)
      (auto simp: observe_participation_def observe_participation_response_def sign_participation_def
        sign_observation_def Let_def split: if_splits dest!: signed)
  obtain v where v: "map_of (sv_verdicts sv) subject = Some v" "av_evidence_digest v \<noteq> 0"
      "sign_and_accept cr \<lparr>ob_network_id = fc_network_id (sv_context sv), ob_epoch = fc_epoch (sv_context sv),
         ob_subject = av_node_id v, ob_subject_incarnation = av_incarnation v, ob_kind = Attestation,
         ob_attestation_digest = av_evidence_digest v, ob_claims = av_claims v, ob_height = height,
         ob_state_reference = ref, ob_observer = NodeId 0, ob_signature = 0\<rparr> sv = (Some ob, sv')"
    using obs by (auto simp: observe_attestation_def split: if_splits option.splits)
  note facts = signed [OF v(3)]
  have verdict: "v \<in> held_verdicts calls" "av_passed v" using ok v(1) by (auto simp: service_ok_def verdicts_ok_def)
  have "platform_claims_are_consistent (ob_claims ob)"
    using facts assms(3) by (auto simp: observation_check_def split: if_splits)
  then show ?thesis
    using facts verdict v(2) observation_check_accepted [of cr ob "sv_context sv"]
    by (auto simp: sign_observation_def Let_def intro!: bexI [of _ v])
qed

theorem signed_claims_were_verified_witness:
  "example_verdict 11 \<in> held_verdicts (entry_calls @ [RecordVerdict (example_verdict 11)]) \<and>
   observation_signature_valid service_crypto (example_statement Attestation 11 3)"
proof -
  let ?calls = "entry_calls @ [RecordVerdict (example_verdict 11)]"
  have "\<exists>sv'. serve service_crypto example_hex (ObserveAttestation (NodeId 2) 3 0) (run_of (NodeId 1) [] ?calls) =
      (Some (example_statement Attestation 11 3), sv')"
    unfolding run_of_append entered by (simp add: serve_all_def service_simps Let_def)
  moreover have "ob_kind (example_statement Attestation 11 3) = Attestation" by (simp add: example_statement_def)
  ultimately have "observation_signature_valid service_crypto (example_statement Attestation 11 3)"
    using signed_claims_were_verified [OF run_of_def] by blast
  then show ?thesis by (simp add: held_verdicts_def entry_calls_def)
qed

text \<open>C31. What was flushed survives a crash. The process starts on a store whose fault file is on the device as
  it is shown, and every sync of the directory succeeds when it is reached; any other system call of any
  write may fail, and any calls were made since the start. If the service is in an established epoch, has
  observations it did not write yet, and flushes with success, then a process that starts again on what
  reached the device and enters the same epoch restores the same ledger, faults included, holds no finality,
  and computes the same eligibility state.\<close>

theorem flushed_state_survives:
  assumes "hex_codec_ok hx" and "settled st" and "sv = serve_all cr hx calls (eligibility_service nw self identity st)"
    and "sv_context sv = established_fact_context nw ep members"
    and "sv_observations_dirty sv" and "flush hx sv = (True, sv')"
  shows "\<exists>sv2. enter_epoch cr hx removable ep members
        (eligibility_service nw self identity (crashed (sv_store sv'))) = (Restored, sv2) \<and>
      sv_ledger sv2 = sv_ledger sv \<and> sv_context sv2 = sv_context sv \<and> sv_finalized sv2 = None \<and>
      compute_state cr (set_certificate_source source sv2) n = compute_state cr (set_certificate_source source sv) n"
proof -
  have ok: "ledger_ok cr (sv_context sv) (sv_ledger sv)" "fault_map_ok (el_faults (sv_ledger sv))"
    using serve_all_ok [of cr identity calls hx nw self st] by (simp_all add: assms(3) service_ok_def)
  have "faults_on_disk hx sv"
    using serve_all_settled [OF assms(1,2), of cr calls nw self identity]
    by (simp add: faults_on_disk_def faults_settled_def settled_crashed flip: assms(3))
  note durable = flush_dirty_durable [OF assms(1) ok(2) this assms(5,6)]
  have ep: "fc_epoch (sv_context sv) = ep" by (simp add: assms(4) established_fact_context_def)
  obtain sv2 where sv2: "install cr hx removable ep (sv_context sv)
        (eligibility_service nw self identity (crashed (sv_store sv'))) = (Restored, sv2)"
      "sv_ledger sv2 = sv_ledger sv" "sv_context sv2 = sv_context sv" "sv_finalized sv2 = None"
    using install_after_crash [OF assms(1) ok durable(1) _ durable(3), of ep True removable nw self identity]
      durable(2) ep by (auto simp: crashed_def)
  then have "compute_state cr (set_certificate_source source sv2) n = compute_state cr (set_certificate_source source sv) n"
    by (intro compute_state_cong) (simp_all add: set_certificate_source_def)
  then show ?thesis using sv2 by (simp add: enter_epoch_def eligibility_service_def assms(4))
qed

theorem flushed_state_survives_witness:
  "\<exists>sv' sv2. flush example_hex (run_of (NodeId 1) working_disk member_calls) = (True, sv') \<and>
     enter_epoch service_crypto example_hex (\<lambda>_. True) 1 [NodeId 1] (eligibility_service 1 (NodeId 1)
        \<lparr>kp_public_key = 1, kp_private_key = []\<rparr> (crashed (sv_store sv'))) = (Restored, sv2) \<and>
     el_records (sv_ledger sv2) = example_records"
proof -
  let ?sv = "run_of (NodeId 1) working_disk member_calls" and ?l = "\<lparr>el_records = example_records, el_faults = []\<rparr>"
  have codec: "hx_json example_hex = example_codec" by (simp add: example_hex_def)
  have small: "length (snapshot ?l) \<le> kMaxStoredRecords"
    by (simp add: snapshot_def example_records_def kMaxStoredRecords_def)
  obtain st where st: "store_observations example_hex 1 (snapshot ?l) (blank_store working_disk) = (True, st)"
      "est_calls st = tl working_disk"
    using write_atomic_ok [of "blank_store working_disk" _ "tl working_disk" "path_for 1"] small
    by (auto simp: store_observations_def codec blank_store_def working_disk_def)
  obtain st' where st': "store_faults example_hex [] st = (True, st')"
    using store_faults_ok [of st example_hex "[]"] st(2) by (auto simp: codec working_disk_def)
  obtain sv' where flushed: "flush example_hex ?sv = (True, sv')"
    using st(1) st' by (simp add: flush_def flush_observations_def flush_faults_def member_run established_fact_context_def)
  have "settled (blank_store working_disk)"
    by (simp add: settled_def blank_store_def working_disk_def ok_calls_def)
  then have "\<exists>sv2. enter_epoch service_crypto example_hex (\<lambda>_. True) 1 [NodeId 1] (eligibility_service 1 (NodeId 1)
        \<lparr>kp_public_key = node_bytes (NodeId 1), kp_private_key = []\<rparr> (crashed (sv_store sv'))) = (Restored, sv2) \<and>
      sv_ledger sv2 = sv_ledger ?sv"
    using flushed_state_survives [OF example_hex_ok _ run_of_def member_run(2) member_run(4) flushed] by blast
  then show ?thesis using flushed by (auto simp: member_run)
qed

text \<open>C38. A flush without an installed fault set erases the fault file: a service that never entered an
  epoch, or whose entry reported a corrupt fault file, still writes its empty fault set when it is flushed
  at shutdown, and the next start then loads "no faults".\<close>

theorem fault_file_erased_at_shutdown:
  assumes "hex_codec_ok hx" and "fresh = eligibility_service nw self identity st"
    and "sv = fresh \<or> load_faults hx st = Corrupt \<and> sv = snd (enter_epoch cr hx removable ep members fresh)"
    and "flush hx sv = (True, sv')"
  shows "load_faults hx (sv_store sv') = Loaded [] \<and> load_faults hx (crashed (sv_store sv')) = Loaded []"
proof -
  have sv: "sv_ledger sv = empty_ledger" "sv_faults_written sv = None" "\<not> sv_observations_dirty sv"
    using assms(2,3)
    by (auto simp: eligibility_service_def enter_epoch_def install_def reset_context_def Let_def)
  have w: "store_faults hx [] (sv_store sv) = (True, sv_store sv')"
    using assms(4) sv
    by (cases "store_faults hx [] (sv_store sv)")
      (auto simp: flush_def flush_observations_def flush_faults_def empty_ledger_def)
  then have "dk_visible (est_disk (sv_store sv')) faults_path =
      Content (json_dump (hx_json hx) (faults_document hx [])) True"
    using write_atomic_written(1) by (auto simp: store_faults_def split: if_splits)
  then show ?thesis
    using store_faults_durable(1) [OF assms(1) _ w] load_stored_faults [OF assms(1), of "sv_store sv'" "[]"]
    by (simp add: smap_ok_def)
qed

theorem fault_file_erased_at_shutdown_witness:
  "load_faults example_hex faulty_store = Loaded [(NodeId 2, {EquivocationFault})] \<and>
   (\<exists>sv'. flush example_hex (eligibility_service 1 (NodeId 1) \<lparr>kp_public_key = 1, kp_private_key = []\<rparr> faulty_store) =
       (True, sv') \<and> load_faults example_hex (sv_store sv') = Loaded [])"
proof -
  let ?fresh = "eligibility_service 1 (NodeId 1) \<lparr>kp_public_key = 1, kp_private_key = []\<rparr> faulty_store"
  have codec: "hx_json example_hex = example_codec" by (simp add: example_hex_def)
  have "load_faults example_hex faulty_store = Loaded [(NodeId 2, {EquivocationFault})]"
    by (rule load_stored_faults [OF example_hex_ok])
      (simp_all add: faulty_store_def codec smap_ok_def kMaxStoredRecords_def)
  moreover obtain st' where "store_faults example_hex [] faulty_store = (True, st')"
    using store_faults_ok [of faulty_store example_hex "[]"] by (auto simp: codec faulty_store_def)
  then obtain sv' where "flush example_hex ?fresh = (True, sv')"
    by (simp add: flush_def flush_observations_def flush_faults_def eligibility_service_def empty_ledger_def)
  ultimately show ?thesis
    using fault_file_erased_at_shutdown [OF example_hex_ok refl] by blast
qed

end
