(* ===== verification/Tree_Types.thy ===== *)
theory Tree_Types
  imports Hotstuff_Json
begin

text \<open>
  \<^verbatim>\<open>Tree/TreeTypes.hpp\<close>, \<^verbatim>\<open>Tree/TreeTypes.cpp\<close>, \<^verbatim>\<open>Tree/DeviceLabel.cpp\<close>, \<^verbatim>\<open>ACL/Permission.hpp\<close> and
  \<^verbatim>\<open>Routing/IdentifierDerivation.cpp\<close>: the records of the permission tree, the identity of principals,
  permission flags, device labels and endpoint identifiers.
\<close>

section \<open>Principals\<close>

text \<open>\<^verbatim>\<open>starts_with\<close> and \<^verbatim>\<open>ends_with\<close> of string views.\<close>

definition starts_with :: "string \<Rightarrow> string \<Rightarrow> bool" where
  "starts_with s pfx \<longleftrightarrow> take (length pfx) s = pfx"

definition ends_with :: "string \<Rightarrow> string \<Rightarrow> bool" where
  "ends_with s sfx \<longleftrightarrow> length sfx \<le> length s \<and> drop (length s - length sfx) s = sfx"

definition kEd25519Prefix :: string where "kEd25519Prefix = ''ed25519:''"

definition canonical_key_b64 :: "codec \<Rightarrow> string \<Rightarrow> string" where
  "canonical_key_b64 cd encoded =
     (let encoded = (if starts_with encoded kEd25519Prefix then drop (length kEd25519Prefix) encoded else encoded)
      in if encoded = [] then []
         else case from_base64 cd encoded of None \<Rightarrow> [] | Some bs \<Rightarrow> to_base64 cd bs)"

definition canonical_principal :: "codec \<Rightarrow> string \<Rightarrow> string" where
  "canonical_principal cd s =
     (if \<not> starts_with s kEd25519Prefix then s
      else let canon = canonical_key_b64 cd (drop (length kEd25519Prefix) s)
           in if canon = [] then s else kEd25519Prefix @ canon)"

section \<open>Records\<close>

datatype node_type = Root | Customer | Endpoint | Relay

record assignment =
  as_management_pubkey :: string
  as_permissions :: "string list"

text \<open>\<open>reputation_score\<close> is the bit pattern of the float.\<close>

record tree_node =
  tn_id :: string
  tn_parent_id :: string
  tn_type :: node_type
  tn_hostname :: string
  tn_tunnel_ip :: string
  tn_private_subnet :: string
  tn_private_shared_addresses :: string
  tn_shared_domain :: string
  tn_mgmt_pubkey :: string
  tn_wrapped_mgmt_privkey :: string
  tn_mesh_pubkey :: string
  tn_endpoint_identifier :: string
  tn_cpu_id :: string
  tn_net_mac :: string
  tn_is_inference :: bool
  tn_assignments :: "assignment list"
  tn_signature :: string
  tn_listen_endpoint :: string
  tn_region :: string
  tn_capacity_mbps :: u32
  tn_reputation_score :: u32
  tn_expires_at :: u64
  tn_version :: u64

definition default_node :: tree_node where
  "default_node =
     \<lparr>tn_id = [], tn_parent_id = [], tn_type = Customer, tn_hostname = [], tn_tunnel_ip = [],
      tn_private_subnet = [], tn_private_shared_addresses = [], tn_shared_domain = [], tn_mgmt_pubkey = [],
      tn_wrapped_mgmt_privkey = [], tn_mesh_pubkey = [], tn_endpoint_identifier = [], tn_cpu_id = [],
      tn_net_mac = [], tn_is_inference = False, tn_assignments = [], tn_signature = [],
      tn_listen_endpoint = [], tn_region = [], tn_capacity_mbps = 0, tn_reputation_score = 0x3F800000,
      tn_expires_at = 0, tn_version = 0\<rparr>"

record tree_delta =
  td_operation :: string
  td_target_node_id :: string
  td_node_data :: tree_node
  td_signer_pubkey :: string
  td_signature :: string
  td_timestamp :: u64

definition default_delta :: tree_delta where
  "default_delta =
     \<lparr>td_operation = [], td_target_node_id = [], td_node_data = default_node, td_signer_pubkey = [],
      td_signature = [], td_timestamp = 0\<rparr>"

definition node_type_to_string :: "node_type \<Rightarrow> string" where
  "node_type_to_string type =
     (case type of Root \<Rightarrow> ''root'' | Customer \<Rightarrow> ''customer'' | Endpoint \<Rightarrow> ''endpoint'' | Relay \<Rightarrow> ''relay'')"

text \<open>\<^const>\<open>None\<close> is the exception of an unknown name.\<close>

definition string_to_node_type :: "string \<Rightarrow> node_type option" where
  "string_to_node_type s =
     (if s = ''root'' then Some Root else if s = ''customer'' then Some Customer
      else if s = ''endpoint'' then Some Endpoint else if s = ''relay'' then Some Relay else None)"

lemma node_type_roundtrip [simp]: "string_to_node_type (node_type_to_string t) = Some t"
  by (cases t) (simp_all add: string_to_node_type_def node_type_to_string_def)

lemma node_type_to_string_eq_iff [simp]: "node_type_to_string a = node_type_to_string b \<longleftrightarrow> a = b"
  by (metis node_type_roundtrip option.inject)

section \<open>JSON for signing\<close>

text \<open>The value of a float as a double: the conversion the JSON library applies to store one.\<close>

definition float_to_double :: "u32 \<Rightarrow> u64" where
  "float_to_double f =
     (let sign = push_bit 63 (ucast (drop_bit 31 f) :: u64);
          e = drop_bit 23 f AND 0xFF;
          m = f AND 0x7FFFFF
      in if e = 0xFF then sign OR push_bit 52 0x7FF OR push_bit 29 (ucast m)
         else if e \<noteq> 0 then sign OR push_bit 52 (ucast e + 896) OR push_bit 29 (ucast m)
         else case List.find (bit m) (rev [0..<23]) of
                None \<Rightarrow> sign
              | Some k \<Rightarrow> sign OR push_bit 52 (of_nat k + 874) OR (push_bit (52 - k) (ucast m) AND mask 52))"

definition assignment_to_json :: "assignment \<Rightarrow> json" where
  "assignment_to_json a =
     json_object [(''management_pubkey'', JString (as_management_pubkey a)),
       (''permissions'', JArray (map JString (as_permissions a)))]"

definition node_to_json :: "tree_node \<Rightarrow> json" where
  "node_to_json n =
     json_object ([(''id'', JString (tn_id n)), (''parent_id'', JString (tn_parent_id n)),
       (''type'', JString (node_type_to_string (tn_type n))), (''hostname'', JString (tn_hostname n)),
       (''tunnel_ip'', JString (tn_tunnel_ip n)), (''private_subnet'', JString (tn_private_subnet n)),
       (''private_shared_addresses'', JString (tn_private_shared_addresses n)),
       (''shared_domain'', JString (tn_shared_domain n)), (''mgmt_pubkey'', JString (tn_mgmt_pubkey n)),
       (''wrapped_mgmt_privkey'', JString (tn_wrapped_mgmt_privkey n)),
       (''mesh_pubkey'', JString (tn_mesh_pubkey n)),
       (''endpoint_identifier'', JString (tn_endpoint_identifier n)), (''cpu_id'', JString (tn_cpu_id n)),
       (''net_mac'', JString (tn_net_mac n)), (''is_inference'', JBool (tn_is_inference n)),
       (''assignments'', JArray (map assignment_to_json (tn_assignments n))),
       (''signature'', JString (tn_signature n)), (''listen_endpoint'', JString (tn_listen_endpoint n)),
       (''region'', JString (tn_region n)), (''capacity_mbps'', JUnsigned (ucast (tn_capacity_mbps n))),
       (''reputation_score'', JFloat (float_to_double (tn_reputation_score n))),
       (''expires_at'', JUnsigned (tn_expires_at n))] @
       (if tn_version n \<noteq> 0 then [(''version'', JUnsigned (tn_version n))] else []))"

definition canonical_delta_json :: "codec \<Rightarrow> tree_delta \<Rightarrow> string" where
  "canonical_delta_json cd d =
     json_dump cd (json_object [(''node_data'', node_to_json (td_node_data d)),
       (''operation'', JString (td_operation d)), (''signer_pubkey'', JString (td_signer_pubkey d)),
       (''target_node_id'', JString (td_target_node_id d)), (''timestamp'', JUnsigned (td_timestamp d))])"

section \<open>Permission flags\<close>

type_synonym permission = u32

definition NonePermission :: permission where "NonePermission = 0"
definition ReadPermission :: permission where "ReadPermission = push_bit 0 1"
definition WritePermission :: permission where "WritePermission = push_bit 1 1"
definition AddChild :: permission where "AddChild = push_bit 2 1"
definition EditNode :: permission where "EditNode = push_bit 3 1"
definition DeleteNodePermission :: permission where "DeleteNodePermission = push_bit 4 1"
definition ExpandSubnet :: permission where "ExpandSubnet = push_bit 5 1"
definition ConnectPrivate :: permission where "ConnectPrivate = push_bit 6 1"
definition ConnectShared :: permission where "ConnectShared = push_bit 7 1"
definition RelayForward :: permission where "RelayForward = push_bit 8 1"
definition StunRespond :: permission where "StunRespond = push_bit 9 1"
definition RelayRegister :: permission where "RelayRegister = push_bit 10 1"
definition AllocateIP :: permission where "AllocateIP = push_bit 11 1"
definition RoutingCoordinate :: permission where "RoutingCoordinate = push_bit 12 1"
definition AdminPermission :: permission where "AdminPermission = 0xFFFFFFFF"

definition has_permission :: "permission \<Rightarrow> permission \<Rightarrow> bool" where
  "has_permission granted required \<longleftrightarrow> granted AND required = required"

lemmas permission_defs =
  NonePermission_def ReadPermission_def WritePermission_def AddChild_def EditNode_def DeleteNodePermission_def
  ExpandSubnet_def ConnectPrivate_def ConnectShared_def RelayForward_def StunRespond_def RelayRegister_def
  AllocateIP_def RoutingCoordinate_def AdminPermission_def

section \<open>Device labels\<close>

definition kDeviceLabelMaxLength :: nat where "kDeviceLabelMaxLength = 63"

definition char_between :: "char \<Rightarrow> char \<Rightarrow> char \<Rightarrow> bool" where
  "char_between lo hi c \<longleftrightarrow> lo \<le> c \<and> c \<le> hi"

definition ascii_alnum :: "char \<Rightarrow> bool" where
  "ascii_alnum c \<longleftrightarrow> char_between (CHR ''0'') (CHR ''9'') c \<or> char_between (CHR ''a'') (CHR ''z'') c \<or>
     char_between (CHR ''A'') (CHR ''Z'') c"

definition ascii_lower :: "char \<Rightarrow> char" where
  "ascii_lower c =
     (if char_between (CHR ''A'') (CHR ''Z'') c then char_of ((of_char c :: nat) - of_char (CHR ''A'') + of_char (CHR ''a''))
      else c)"

definition add_label_char :: "string \<Rightarrow> char \<Rightarrow> string" where
  "add_label_char label c =
     (if ascii_alnum c then label @ [ascii_lower c]
      else if label \<noteq> [] \<and> last label \<noteq> CHR ''-'' then label @ ''-'' else label)"

definition strip_hyphens :: "string \<Rightarrow> string" where
  "strip_hyphens label = rev (dropWhile (\<lambda>c. c = CHR ''-'') (rev label))"

definition device_label :: "string \<Rightarrow> string" where
  "device_label device_name =
     strip_hyphens (take kDeviceLabelMaxLength (strip_hyphens (foldl add_label_char [] device_name)))"

section \<open>Endpoint identifiers\<close>

definition kCrockford :: string where "kCrockford = ''0123456789abcdefghjkmnpqrstvwxyz''"

text \<open>\<open>emit\<close> is the inner loop of \<^verbatim>\<open>base32_crockford\<close>: at most two digits per byte.\<close>

fun emit :: "u32 \<Rightarrow> nat \<Rightarrow> string" where
  "emit buffer bits =
     (if bits < 5 then []
      else kCrockford ! unat (drop_bit (bits - 5) buffer AND 0x1F) # emit buffer (bits - 5))"

declare emit.simps [simp del]

fun base32_loop :: "u32 \<Rightarrow> nat \<Rightarrow> byte list \<Rightarrow> string" where
  "base32_loop buffer bits [] =
     (if bits > 0 then [kCrockford ! unat (push_bit (5 - bits) buffer AND 0x1F)] else [])"
| "base32_loop buffer bits (b # bs) =
     (let buffer = push_bit 8 buffer OR ucast b; bits = bits + 8
      in emit buffer bits @ base32_loop buffer (bits mod 5) bs)"

definition base32_crockford :: "byte list \<Rightarrow> string" where
  "base32_crockford data = base32_loop 0 0 data"

fun grouped :: "nat \<Rightarrow> string \<Rightarrow> string" where
  "grouped i [] = []"
| "grouped i (c # cs) = (if 0 < i \<and> i mod 4 = 0 then ''-'' else []) @ c # grouped (Suc i) cs"

definition derive_endpoint_identifier :: "crypto \<Rightarrow> string \<Rightarrow> string \<Rightarrow> string \<Rightarrow> string \<Rightarrow> bool \<Rightarrow> string" where
  "derive_endpoint_identifier cr node_id region cpu_id net_mac is_inference =
     (let input = string_bytes ''ln-endpoint-id:v1'' @ string_bytes node_id @ [0x1F] @ string_bytes region @
            [0x1F] @ string_bytes cpu_id @ [0x1F] @ string_bytes net_mac;
          core = base32_crockford (take 10 (be_bytes 32 (sha256 cr input)))
      in (if is_inference then ''infer'' else ''client'') @ ''-'' @ grouped 0 core)"

end
