(* ===== verification/Tree_Rules.thy ===== *)
theory Tree_Rules
  imports Tree_Types
begin

text \<open>
  \<^verbatim>\<open>Tree/TreeRules.cpp\<close>: who may change what in the permission tree. A node map is an association list
  in the order an unordered map happens to iterate; lookups go through \<^const>\<open>map_of\<close>. Every walk up the parent
  chain carries the visited ids as the code does, and ends because a visited id is a key of the map.
\<close>

type_synonym node_map = "(string \<times> tree_node) list"

section \<open>Permission names\<close>

definition permission_from_string :: "string \<Rightarrow> permission" where
  "permission_from_string s =
     (if s = ''read'' then ReadPermission
      else if s = ''write'' then WritePermission
      else if s = ''add_child'' then AddChild
      else if s = ''edit_node'' then EditNode
      else if s = ''delete_node'' then DeleteNodePermission
      else if s = ''expand_subnet'' then ExpandSubnet
      else if s = ''connect_private'' then ConnectPrivate
      else if s = ''connect_shared'' then ConnectShared
      else if s = ''relay_forward'' then RelayForward
      else if s = ''routing_coordinate'' then RoutingCoordinate
      else if s = ''stun_respond'' then StunRespond
      else if s = ''relay_register'' then RelayRegister
      else if s = ''allocate_ip'' then AllocateIP
      else if s = ''admin'' then AdminPermission
      else NonePermission)"

definition kServicePermissionPrefix :: string where "kServicePermissionPrefix = ''svc:''"
definition kServicePermissionFamilyMax :: nat where "kServicePermissionFamilyMax = 63"

definition lower_alnum :: "char \<Rightarrow> bool" where
  "lower_alnum c \<longleftrightarrow> char_between (CHR ''a'') (CHR ''z'') c \<or> char_between (CHR ''0'') (CHR ''9'') c"

definition is_service_permission :: "string \<Rightarrow> bool" where
  "is_service_permission name =
     (if \<not> starts_with name kServicePermissionPrefix then False
      else let family = drop (length kServicePermissionPrefix) name
           in if family = [] \<or> length family > kServicePermissionFamilyMax then False
              else if \<not> lower_alnum (hd family) then False
              else list_all (\<lambda>c. lower_alnum c \<or> c = CHR ''_'' \<or> c = CHR ''.'' \<or> c = CHR ''-'') family)"

definition permission_name_known :: "string \<Rightarrow> bool" where
  "permission_name_known name \<longleftrightarrow> permission_from_string name \<noteq> NonePermission \<or> is_service_permission name"

definition required_permission_for :: "string \<Rightarrow> permission" where
  "required_permission_for op =
     (if op = ''create_node'' then AddChild
      else if op = ''update_node'' \<or> op = ''allocate_ip'' \<or> op = ''register_relay'' \<or> op = ''update_assignment''
        then EditNode
      else if op = ''delete_node'' then DeleteNodePermission
      else NonePermission)"

definition signer_has_permission :: "codec \<Rightarrow> tree_node \<Rightarrow> string \<Rightarrow> permission \<Rightarrow> bool" where
  "signer_has_permission cd node signer required =
     list_ex (\<lambda>a. canonical_principal cd (as_management_pubkey a) = canonical_principal cd signer \<and>
         list_ex (\<lambda>p. has_permission (permission_from_string p) required) (as_permissions a)) (tn_assignments node)"

section \<open>Walks up the parent chain\<close>

abbreviation unvisited :: "node_map \<Rightarrow> string list \<Rightarrow> nat" where
  "unvisited nodes visited \<equiv> card (fst ` set nodes - set visited)"

lemma unvisited_less:
  assumes "current \<notin> set visited" and "map_of nodes current = Some n"
  shows "unvisited nodes (current # visited) < unvisited nodes visited"
proof -
  have "current \<in> fst ` set nodes" using map_of_SomeD [OF assms(2)] by (rule image_eqI [rotated]) simp
  then have "fst ` set nodes - set (current # visited) \<subset> fst ` set nodes - set visited"
    using assms(1) by auto
  then show ?thesis by (intro psubset_card_mono) auto
qed

function anchor_walk :: "codec \<Rightarrow> node_map \<Rightarrow> string \<Rightarrow> string list \<Rightarrow> string \<Rightarrow> string option" where
  "anchor_walk cd nodes signer visited current =
     (if current = [] \<or> current \<in> set visited then None
      else case map_of nodes current of
             None \<Rightarrow> None
           | Some node \<Rightarrow>
               if signer_has_permission cd node signer AdminPermission then Some current
               else anchor_walk cd nodes signer (current # visited) (tn_parent_id node))"
  by pat_completeness auto
termination
  by (relation "measure (\<lambda>(cd, nodes, signer, visited, current). unvisited nodes visited)")
    (use unvisited_less in force)+

definition admin_anchor :: "codec \<Rightarrow> node_map \<Rightarrow> string \<Rightarrow> string \<Rightarrow> string option" where
  "admin_anchor cd nodes node_id signer = anchor_walk cd nodes signer [] node_id"

function root_walk :: "codec \<Rightarrow> node_map \<Rightarrow> string \<Rightarrow> string list \<Rightarrow> string \<Rightarrow> bool" where
  "root_walk cd nodes signer visited current =
     (if current \<in> set visited then False
      else case map_of nodes current of
             None \<Rightarrow> False
           | Some node \<Rightarrow>
               if tn_parent_id node = [] then signer_has_permission cd node signer AdminPermission
               else root_walk cd nodes signer (current # visited) (tn_parent_id node))"
  by pat_completeness auto
termination
  by (relation "measure (\<lambda>(cd, nodes, signer, visited, current). unvisited nodes visited)")
    (use unvisited_less in force)+

definition administers_root :: "codec \<Rightarrow> node_map \<Rightarrow> string \<Rightarrow> string \<Rightarrow> bool" where
  "administers_root cd nodes node_id signer = root_walk cd nodes signer [] node_id"

text \<open>The inner walk of \<^verbatim>\<open>principal_joined_under\<close> and \<^verbatim>\<open>at_or_under\<close>.\<close>

function under_walk :: "node_map \<Rightarrow> string \<Rightarrow> string list \<Rightarrow> string \<Rightarrow> bool" where
  "under_walk nodes ancestor visited current =
     (if current = [] \<or> current \<in> set visited then False
      else if current = ancestor then True
      else case map_of nodes current of
             None \<Rightarrow> False
           | Some node \<Rightarrow> under_walk nodes ancestor (current # visited) (tn_parent_id node))"
  by pat_completeness auto
termination
  by (relation "measure (\<lambda>(nodes, ancestor, visited, current). unvisited nodes visited)")
    (use unvisited_less in force)+

declare anchor_walk.simps [simp del] root_walk.simps [simp del] under_walk.simps [simp del]

definition at_or_under :: "node_map \<Rightarrow> string \<Rightarrow> string \<Rightarrow> bool" where
  "at_or_under nodes node_id ancestor = under_walk nodes ancestor [] node_id"

definition principal_joined_under :: "codec \<Rightarrow> node_map \<Rightarrow> string \<Rightarrow> string \<Rightarrow> bool" where
  "principal_joined_under cd nodes scope who =
     (if canonical_principal cd who = [] then False
      else list_ex (\<lambda>(id, node). canonical_principal cd (tn_mgmt_pubkey node) = canonical_principal cd who \<and>
             under_walk nodes scope [] id) nodes)"

section \<open>Unique keys and names\<close>

definition mesh_pubkey_taken :: "node_map \<Rightarrow> string \<Rightarrow> string \<Rightarrow> bool" where
  "mesh_pubkey_taken nodes mesh own_id =
     (if mesh = [] then False else list_ex (\<lambda>(id, node). id \<noteq> own_id \<and> tn_mesh_pubkey node = mesh) nodes)"

definition device_label_collides :: "tree_node \<Rightarrow> string \<Rightarrow> string \<Rightarrow> string \<Rightarrow> bool" where
  "device_label_collides node parent label own_id =
     (if label = [] then False
      else tn_type node = Endpoint \<and> tn_parent_id node = parent \<and> tn_id node \<noteq> own_id \<and>
           device_label (tn_hostname node) = label)"

definition device_label_conflicts :: "node_map \<Rightarrow> string \<Rightarrow> string \<Rightarrow> string \<Rightarrow> string list" where
  "device_label_conflicts nodes parent label own_id =
     sort (map fst (filter (\<lambda>(id, node). device_label_collides node parent label own_id) nodes))"

definition device_name_refusal :: "string \<Rightarrow> tree_node option \<Rightarrow> string option" where
  "device_name_refusal hostname conflict =
     (if hostname = [] then None
      else if device_label hostname = []
        then Some (''device name '' @ CHR 0x27 # hostname @ CHR 0x27 # '' has no letter or digit; pick another name'')
      else case conflict of
             Some c \<Rightarrow> Some (''device name '' @ CHR 0x27 # hostname @ CHR 0x27 # '' is the same as device '' @
                 CHR 0x27 # tn_hostname c @ CHR 0x27 # '' ('' @ tn_id c @ '') on the mesh port; pick another name'')
           | None \<Rightarrow> None)"

section \<open>Content of a delta\<close>

text \<open>The permissions of each principal, sorted and without repetition, in the order of the keys.\<close>

definition sorted_names :: "string list \<Rightarrow> string list" where
  "sorted_names names = remdups_adj (sort names)"

definition assignment_map :: "codec \<Rightarrow> assignment list \<Rightarrow> (string, string list) smap" where
  "assignment_map cd assignments =
     map (\<lambda>(key, perms). (key, sorted_names perms))
       (foldl (\<lambda>out a.
          let key = canonical_principal cd (as_management_pubkey a);
              perms = (case map_of out key of None \<Rightarrow> [] | Some perms \<Rightarrow> perms)
          in smap_put key (perms @ as_permissions a) out) [] assignments)"

definition create_refusal :: "codec \<Rightarrow> node_map \<Rightarrow> tree_node \<Rightarrow> string \<Rightarrow> string option" where
  "create_refusal cd nodes data signer =
     (if tn_type data = Root \<or> tn_parent_id data = [] then Some ''a root node cannot be created''
      else if (tn_tunnel_ip data \<noteq> [] \<or> tn_private_subnet data \<noteq> [] \<or> tn_type data = Relay) \<and>
              \<not> administers_root cd nodes (tn_parent_id data) signer
        then Some ''only a root admin may create a relay or set node addresses''
      else let others = filter (\<lambda>a. canonical_principal cd (as_management_pubkey a) \<noteq> canonical_principal cd signer \<and>
                 canonical_principal cd (as_management_pubkey a) \<noteq> canonical_principal cd (tn_mgmt_pubkey data))
               (tn_assignments data)
           in if others = [] then None
              else case admin_anchor cd nodes (tn_parent_id data) signer of
                     None \<Rightarrow> Some ''only an admin of the parent may assign other identities''
                   | Some anchor \<Rightarrow>
                       if list_ex (\<lambda>a. \<not> principal_joined_under cd nodes anchor (as_management_pubkey a)) others
                         then Some ''assignment names an identity that has not joined''
                       else None)"

definition update_refusal :: "codec \<Rightarrow> node_map \<Rightarrow> tree_node \<Rightarrow> tree_node \<Rightarrow> string \<Rightarrow> string option" where
  "update_refusal cd nodes current data signer =
     (if tn_id data \<noteq> tn_id current then Some ''node id cannot change''
      else if tn_parent_id data \<noteq> tn_parent_id current then Some ''node parent cannot change''
      else if tn_type data \<noteq> tn_type current then Some ''node type cannot change''
      else if canonical_principal cd (tn_mgmt_pubkey data) \<noteq> canonical_principal cd (tn_mgmt_pubkey current)
        then Some ''node management key cannot change''
      else if tn_endpoint_identifier data \<noteq> tn_endpoint_identifier current
        then Some ''endpoint identifier cannot change''
      else if (tn_tunnel_ip data \<noteq> tn_tunnel_ip current \<or> tn_private_subnet data \<noteq> tn_private_subnet current) \<and>
              \<not> administers_root cd nodes (tn_id current) signer
        then Some ''only a root admin may change node addresses''
      else let before = assignment_map cd (tn_assignments current);
               after = assignment_map cd (tn_assignments data)
           in if before = after then None
              else case admin_anchor cd nodes (tn_id current) signer of
                     None \<Rightarrow> Some ''only an admin of this node or an ancestor may change assignments''
                   | Some anchor \<Rightarrow>
                       if list_ex (\<lambda>(who, perms). map_of before who \<noteq> Some perms \<and>
                            \<not> principal_joined_under cd nodes anchor who) after
                         then Some ''assignment names an identity that has not joined''
                       else None)"

definition delta_content_refusal :: "codec \<Rightarrow> node_map \<Rightarrow> tree_delta \<Rightarrow> string option" where
  "delta_content_refusal cd nodes delta =
     (let op = td_operation delta; data = td_node_data delta; target = map_of nodes (td_target_node_id delta)
      in if op = ''delete_node'' then
           (case target of
              Some node \<Rightarrow> if tn_parent_id node = [] then Some ''the root node cannot be deleted'' else None
            | None \<Rightarrow> None)
         else if op = ''create_node'' then create_refusal cd nodes data (td_signer_pubkey delta)
         else case target of
                None \<Rightarrow> None
              | Some current \<Rightarrow> update_refusal cd nodes current data (td_signer_pubkey delta))"

section \<open>Assignments\<close>

datatype assignment_refusal = NotFound | Forbidden | Invalid | Conflict

type_synonym assignment_ruling = "assignment_refusal \<times> string"

definition assignment_change_refusal ::
  "codec \<Rightarrow> node_map \<Rightarrow> string \<Rightarrow> string \<Rightarrow> string \<Rightarrow> string list \<Rightarrow> assignment_ruling option" where
  "assignment_change_refusal cd nodes node_id signer who permissions =
     (case map_of nodes node_id of
        None \<Rightarrow> Some (NotFound, ''node not found'')
      | Some node \<Rightarrow>
          if canonical_principal cd who = [] then Some (Invalid, ''invalid principal'')
          else case List.find (\<lambda>p. \<not> permission_name_known p) permissions of
                 Some p \<Rightarrow> Some (Invalid, ''unknown permission '' @ CHR 0x27 # p @ [CHR 0x27])
               | None \<Rightarrow>
                   if permissions = [] \<and> canonical_principal cd signer = canonical_principal cd who \<and>
                      tn_type node = Customer \<and> \<not> signer_has_permission cd node signer AdminPermission \<and>
                      \<not> principal_joined_under cd nodes node_id who then None
                   else case admin_anchor cd nodes node_id signer of
                          None \<Rightarrow> Some (Forbidden,
                            ''only an admin of this node or an ancestor may change assignments'')
                        | Some anchor \<Rightarrow>
                            if anchor = node_id \<and> canonical_principal cd signer = canonical_principal cd who
                              then Some (Forbidden, ''an admin cannot change its own entry on the node that grants it'')
                            else if permissions \<noteq> [] \<and> \<not> principal_joined_under cd nodes anchor who
                              then Some (Forbidden, ''the identity has not joined this group'')
                            else None)"

definition replace_assignment :: "codec \<Rightarrow> string \<Rightarrow> string list \<Rightarrow> assignment list \<Rightarrow> assignment list" where
  "replace_assignment cd who permissions list =
     filter (\<lambda>a. canonical_principal cd (as_management_pubkey a) \<noteq> canonical_principal cd who) list @
     (if permissions = [] then []
      else [\<lparr>as_management_pubkey = who, as_permissions = sorted_names permissions\<rparr>])"

definition link_peer_access_missing :: "codec \<Rightarrow> tree_node \<Rightarrow> string \<Rightarrow> bool" where
  "link_peer_access_missing cd node who \<longleftrightarrow>
     \<not> signer_has_permission cd node who ReadPermission \<or> \<not> signer_has_permission cd node who ConnectPrivate"

definition add_name :: "string \<Rightarrow> string list \<Rightarrow> string list" where
  "add_name name names = (if name \<in> set names then names else names @ [name])"

text \<open>The first entry of the key gains the missing names; without one an entry is appended.\<close>

fun grant_first :: "codec \<Rightarrow> string \<Rightarrow> assignment list \<Rightarrow> assignment list" where
  "grant_first cd who [] = [\<lparr>as_management_pubkey = who, as_permissions = [''read'', ''connect_private'']\<rparr>]"
| "grant_first cd who (a # rest) =
     (if canonical_principal cd (as_management_pubkey a) \<noteq> canonical_principal cd who
        then a # grant_first cd who rest
      else a\<lparr>as_permissions := add_name ''connect_private'' (add_name ''read'' (as_permissions a))\<rparr> # rest)"

definition grant_link_peer_access :: "codec \<Rightarrow> string \<Rightarrow> tree_node \<Rightarrow> tree_node" where
  "grant_link_peer_access cd who node =
     (if \<not> link_peer_access_missing cd node who then node
      else node\<lparr>tn_assignments := grant_first cd who (tn_assignments node)\<rparr>)"

definition holds_or_administers :: "codec \<Rightarrow> node_map \<Rightarrow> string \<Rightarrow> string \<Rightarrow> permission \<Rightarrow> bool" where
  "holds_or_administers cd nodes node_id signer perm =
     (case map_of nodes node_id of
        None \<Rightarrow> False
      | Some node \<Rightarrow> signer_has_permission cd node signer perm \<or> admin_anchor cd nodes node_id signer \<noteq> None)"

definition removes_own_device :: "codec \<Rightarrow> node_map \<Rightarrow> string \<Rightarrow> string \<Rightarrow> string \<Rightarrow> bool" where
  "removes_own_device cd nodes node_id who joined_as =
     (if node_id = [] \<or> node_id \<noteq> joined_as then False
      else case map_of nodes node_id of
             None \<Rightarrow> False
           | Some node \<Rightarrow>
               if tn_type node \<noteq> Endpoint \<or> canonical_principal cd who = [] \<or>
                  canonical_principal cd (tn_mgmt_pubkey node) \<noteq> canonical_principal cd who then False
               else list_all (\<lambda>(id, n). tn_parent_id n \<noteq> node_id) nodes)"

section \<open>Invites\<close>

definition kInvitePermissions :: "string list" where
  "kInvitePermissions = [''read'', ''write'', ''add_child'', ''connect_private'', ''connect_shared'']"

definition invite_permission_allowed :: "string \<Rightarrow> bool" where
  "invite_permission_allowed perm \<longleftrightarrow> is_service_permission perm \<or> perm \<in> set kInvitePermissions"

definition holds_literal_name :: "codec \<Rightarrow> tree_node \<Rightarrow> string \<Rightarrow> string \<Rightarrow> bool" where
  "holds_literal_name cd node who name =
     (if canonical_principal cd who = [] then False
      else list_ex (\<lambda>a. canonical_principal cd (as_management_pubkey a) = canonical_principal cd who \<and>
             name \<in> set (as_permissions a)) (tn_assignments node))"

definition holds_literal_connect :: "codec \<Rightarrow> tree_node \<Rightarrow> string \<Rightarrow> bool" where
  "holds_literal_connect cd node who \<longleftrightarrow>
     holds_literal_name cd node who ''connect_private'' \<or> holds_literal_name cd node who ''connect_shared''"

definition invite_held :: "codec \<Rightarrow> node_map \<Rightarrow> string \<Rightarrow> tree_node \<Rightarrow> string \<Rightarrow> string \<Rightarrow> bool" where
  "invite_held cd nodes target node inviter p =
     (if is_service_permission p
      then holds_literal_name cd node inviter p \<or> admin_anchor cd nodes target inviter \<noteq> None
      else holds_or_administers cd nodes target inviter (permission_from_string p))"

definition invite_refusal :: "codec \<Rightarrow> node_map \<Rightarrow> string \<Rightarrow> string \<Rightarrow> string list \<Rightarrow> assignment_ruling option" where
  "invite_refusal cd nodes target inviter permissions =
     (case map_of nodes target of
        None \<Rightarrow> Some (NotFound, ''invite target not found'')
      | Some node \<Rightarrow>
          if tn_type node \<noteq> Customer then Some (Invalid, ''an invite targets a group'')
          else if canonical_principal cd inviter = [] then Some (Invalid, ''invalid inviter'')
          else case List.find (\<lambda>p. \<not> invite_permission_allowed p) permissions of
                 Some p \<Rightarrow> Some (Invalid, ''an invite cannot grant '' @ CHR 0x27 # p @ [CHR 0x27])
               | None \<Rightarrow>
                   if \<not> holds_or_administers cd nodes target inviter AddChild
                     then Some (Forbidden, ''the inviter needs add_child on the invite target'')
                   else case List.find (\<lambda>p. \<not> invite_held cd nodes target node inviter p) permissions of
                          Some p \<Rightarrow> Some (Forbidden, ''the inviter does not hold '' @ CHR 0x27 # p @ CHR 0x27 #
                            '' on the invite target'')
                        | None \<Rightarrow> None)"

definition invite_acceptance_refusal ::
  "codec \<Rightarrow> node_map \<Rightarrow> string \<Rightarrow> string \<Rightarrow> string \<Rightarrow> string list \<Rightarrow> assignment_ruling option" where
  "invite_acceptance_refusal cd nodes target invitee inviter permissions =
     (case invite_refusal cd nodes target inviter permissions of
        Some ruling \<Rightarrow> Some ruling
      | None \<Rightarrow>
          if ''read'' \<notin> set permissions
            then Some (Invalid, ''the invite grants no membership (read is missing)'')
          else if canonical_principal cd invitee = [] \<or> \<not> starts_with invitee ''ed25519:''
            then Some (Invalid, ''invalid invitee'')
          else if principal_joined_under cd nodes target invitee \<or> admin_anchor cd nodes target invitee \<noteq> None
            then Some (Conflict, ''the identity already belongs to this group'')
          else None)"

section \<open>Membership reach\<close>

function covers_from :: "codec \<Rightarrow> node_map \<Rightarrow> string \<Rightarrow> string list \<Rightarrow> string \<Rightarrow> bool" where
  "covers_from cd nodes member visited current =
     (if current = [] \<or> current \<in> set visited then False
      else case map_of nodes current of
             None \<Rightarrow> False
           | Some node \<Rightarrow>
               if tn_type node = Customer \<and> holds_literal_connect cd node member then True
               else covers_from cd nodes member (current # visited) (tn_parent_id node))"
  by pat_completeness auto
termination
  by (relation "measure (\<lambda>(cd, nodes, member, visited, current). unvisited nodes visited)")
    (use unvisited_less in force)+

definition membership_reaches :: "codec \<Rightarrow> node_map \<Rightarrow> string \<Rightarrow> tree_node \<Rightarrow> bool" where
  "membership_reaches cd nodes member node = covers_from cd nodes member [tn_id node] (tn_parent_id node)"

definition membership_covers :: "codec \<Rightarrow> node_map \<Rightarrow> string \<Rightarrow> string \<Rightarrow> bool" where
  "membership_covers cd nodes member group_id = covers_from cd nodes member [] group_id"

definition endpoint_may_connect :: "codec \<Rightarrow> node_map \<Rightarrow> string \<Rightarrow> tree_node \<Rightarrow> tree_node \<Rightarrow> bool" where
  "endpoint_may_connect cd nodes who src dst =
     (if tn_id src = tn_id dst \<or> tn_parent_id src = [] then False
      else if tn_id dst \<noteq> tn_parent_id src \<and> at_or_under nodes (tn_id dst) (tn_parent_id src) \<and>
              (signer_has_permission cd dst who ConnectPrivate \<or> signer_has_permission cd dst who ConnectShared)
        then True
      else if canonical_principal cd who = [] \<or>
              canonical_principal cd who \<noteq> canonical_principal cd (tn_mgmt_pubkey src) then False
      else membership_reaches cd nodes who dst \<or>
           tn_mgmt_pubkey dst \<noteq> [] \<and> membership_reaches cd nodes (tn_mgmt_pubkey dst) src)"

section \<open>Peer permissions\<close>

record peer_permissions =
  pr_names :: "string list"
  pr_admin :: bool

definition collect_names :: "codec \<Rightarrow> string \<Rightarrow> tree_node \<Rightarrow> string list" where
  "collect_names cd who node =
     concat (map as_permissions
       (filter (\<lambda>a. canonical_principal cd (as_management_pubkey a) = canonical_principal cd who)
         (tn_assignments node)))"

function group_names :: "codec \<Rightarrow> node_map \<Rightarrow> string \<Rightarrow> string list \<Rightarrow> string \<Rightarrow> string list" where
  "group_names cd nodes who visited current =
     (if current = [] \<or> current \<in> set visited then []
      else case map_of nodes current of
             None \<Rightarrow> []
           | Some node \<Rightarrow>
               (if tn_type node = Customer then collect_names cd who node else []) @
               group_names cd nodes who (current # visited) (tn_parent_id node))"
  by pat_completeness auto
termination
  by (relation "measure (\<lambda>(cd, nodes, who, visited, current). unvisited nodes visited)")
    (use unvisited_less in force)+

declare covers_from.simps [simp del] group_names.simps [simp del]

definition peer_permissions :: "codec \<Rightarrow> node_map \<Rightarrow> string \<Rightarrow> tree_node \<Rightarrow> peer_permissions" where
  "peer_permissions cd nodes who device =
     (if canonical_principal cd who = [] then \<lparr>pr_names = [], pr_admin = False\<rparr>
      else let names = collect_names cd who device @ group_names cd nodes who [tn_id device] (tn_parent_id device);
               admin = signer_has_permission cd device who AdminPermission \<or>
                       tn_parent_id device \<noteq> [] \<and> admin_anchor cd nodes (tn_parent_id device) who \<noteq> None
           in \<lparr>pr_names = sorted_names (names @ (if admin then [''admin''] else [])), pr_admin = admin\<rparr>)"

section \<open>Moves\<close>

definition move_refusal :: "codec \<Rightarrow> node_map \<Rightarrow> string \<Rightarrow> string \<Rightarrow> string \<Rightarrow> assignment_ruling option" where
  "move_refusal cd nodes node_id new_parent_id signer =
     (case map_of nodes node_id of
        None \<Rightarrow> Some (NotFound, ''node not found'')
      | Some node \<Rightarrow>
          (case map_of nodes new_parent_id of
             None \<Rightarrow> Some (NotFound, ''new parent not found'')
           | Some parent \<Rightarrow>
               if tn_parent_id node = [] \<or> tn_type node = Root then Some (Forbidden, ''the root node cannot move'')
               else if tn_type node \<noteq> Endpoint \<and> tn_type node \<noteq> Customer
                 then Some (Invalid, ''only devices and groups move'')
               else if tn_type node = Customer \<and>
                       (case map_of nodes (tn_parent_id node) of None \<Rightarrow> True | Some p \<Rightarrow> tn_type p = Root)
                 then Some (Forbidden, ''a top-level group cannot move'')
               else if tn_type parent \<noteq> Customer then Some (Invalid, ''a node moves only under a group'')
               else if tn_parent_id node = new_parent_id
                 then Some (Conflict, ''the node is already under that group'')
               else if at_or_under nodes new_parent_id node_id
                 then Some (Invalid, ''a node cannot move under itself or its descendants'')
               else if \<not> (if tn_type node = Endpoint
                          then holds_or_administers cd nodes node_id signer DeleteNodePermission
                          else admin_anchor cd nodes node_id signer \<noteq> None)
                 then Some (Forbidden, if tn_type node = Endpoint
                                       then ''moving a device needs delete_node on it or admin above it''
                                       else ''moving a group needs admin on it or above it'')
               else if \<not> holds_or_administers cd nodes new_parent_id signer AddChild
                 then Some (Forbidden, ''moving needs add_child on the new parent'')
               else None))"

section \<open>Account deletion\<close>

record account_scope =
  sc_removed :: "string list"
  sc_swept_keys :: "string list"

definition sorted_ids :: "node_map \<Rightarrow> string list" where
  "sorted_ids nodes = sorted_list_of_set (fst ` set nodes)"

text \<open>The ids whose record names a parent, in id order.\<close>

definition children :: "node_map \<Rightarrow> string \<Rightarrow> string list" where
  "children nodes parent =
     filter (\<lambda>nid. map_option tn_parent_id (map_of nodes nid) = Some parent) (sorted_ids nodes)"

definition owned_by :: "codec \<Rightarrow> node_map \<Rightarrow> string \<Rightarrow> string \<Rightarrow> bool" where
  "owned_by cd nodes key nid =
     (case map_of nodes nid of
        None \<Rightarrow> False
      | Some node \<Rightarrow>
          (tn_type node = Customer \<or> tn_type node = Endpoint) \<and> tn_parent_id node \<noteq> [] \<and>
          canonical_principal cd (tn_mgmt_pubkey node) = key)"

text \<open>The children of one queue entry that are taken: not yet taken, and not a root.\<close>

definition taken_children :: "node_map \<Rightarrow> string list \<Rightarrow> string \<Rightarrow> string list" where
  "taken_children nodes doomed nid =
     filter (\<lambda>child. map_option tn_type (map_of nodes child) \<noteq> Some Root \<and> child \<notin> set doomed) (children nodes nid)"

lemma set_taken_children:
  "set (taken_children nodes doomed nid) =
    {c \<in> fst ` set nodes - set doomed. map_option tn_parent_id (map_of nodes c) = Some nid \<and>
       map_option tn_type (map_of nodes c) \<noteq> Some Root}"
  by (auto simp: taken_children_def children_def sorted_ids_def)

lemma taken_children_unvisited:
  "unvisited nodes (doomed @ taken_children nodes doomed nid) + length (taken_children nodes doomed nid) =
    unvisited nodes doomed"
proof -
  let ?new = "taken_children nodes doomed nid"
  have new: "set ?new \<subseteq> fst ` set nodes - set doomed" by (auto simp: set_taken_children)
  have "distinct ?new" by (simp add: taken_children_def children_def sorted_ids_def)
  then have "length ?new = card (set ?new)" by (simp add: distinct_card)
  moreover have "fst ` set nodes - set (doomed @ ?new) = (fst ` set nodes - set doomed) - set ?new" by auto
  moreover have "card (set ?new) \<le> card (fst ` set nodes - set doomed)" using new by (intro card_mono) auto
  ultimately show ?thesis using new card_Diff_subset [of "set ?new" "fst ` set nodes - set doomed"] by simp
qed

function scope_walk :: "node_map \<Rightarrow> string list \<Rightarrow> string list \<Rightarrow> string list" where
  "scope_walk nodes doomed [] = doomed"
| "scope_walk nodes doomed (q # queue) =
     scope_walk nodes (doomed @ taken_children nodes doomed q) (queue @ taken_children nodes doomed q)"
  by pat_completeness auto
termination
proof (relation "measure (\<lambda>(nodes, doomed, queue). unvisited nodes doomed + length queue)")
  show "((nodes, doomed @ taken_children nodes doomed q, queue @ taken_children nodes doomed q),
      (nodes, doomed, q # queue)) \<in> measure (\<lambda>(nodes, doomed, queue). unvisited nodes doomed + length queue)"
    for nodes doomed q queue
    using taken_children_unvisited [of nodes doomed q] by simp
qed simp

definition doomed_ids :: "codec \<Rightarrow> node_map \<Rightarrow> string \<Rightarrow> string list" where
  "doomed_ids cd nodes key =
     (let owned = filter (owned_by cd nodes key) (sorted_ids nodes) in scope_walk nodes owned owned)"

definition owner_of :: "codec \<Rightarrow> node_map \<Rightarrow> string \<Rightarrow> string" where
  "owner_of cd nodes nid =
     (case map_of nodes nid of None \<Rightarrow> [] | Some n \<Rightarrow> canonical_principal cd (tn_mgmt_pubkey n))"

text \<open>The keys of removed nodes that own no surviving node, and the principal's.\<close>

definition swept_keys :: "codec \<Rightarrow> node_map \<Rightarrow> string \<Rightarrow> string set" where
  "swept_keys cd nodes key =
     (let doomed = set (doomed_ids cd nodes key);
          surviving = owner_of cd nodes ` (fst ` set nodes - doomed)
      in insert key {k \<in> owner_of cd nodes ` doomed. k \<noteq> [] \<and> k \<notin> surviving})"

definition account_scope :: "codec \<Rightarrow> node_map \<Rightarrow> string \<Rightarrow> account_scope" where
  "account_scope cd nodes who =
     (let key = canonical_principal cd who
      in if key = [] then \<lparr>sc_removed = [], sc_swept_keys = []\<rparr>
         else \<lparr>sc_removed = sorted_list_of_set (set (doomed_ids cd nodes key)),
               sc_swept_keys = sorted_list_of_set (swept_keys cd nodes key)\<rparr>)"

section \<open>Ancestors\<close>

text \<open>\<open>up nodes x y\<close>: the parent chain that starts at \<open>x\<close> comes to \<open>y\<close>.\<close>

inductive up :: "node_map \<Rightarrow> string \<Rightarrow> string \<Rightarrow> bool" for nodes where
  self: "up nodes x x"
| parent: "x \<noteq> [] \<Longrightarrow> map_of nodes x = Some n \<Longrightarrow> up nodes (tn_parent_id n) y \<Longrightarrow> up nodes x y"

inductive_cases upE: "up nodes x y"

text \<open>The same chain as a list of ids without repetition.\<close>

fun chain :: "node_map \<Rightarrow> string list \<Rightarrow> bool" where
  "chain nodes [] = False"
| "chain nodes [x] = True"
| "chain nodes (x # y # zs) = (x \<noteq> [] \<and> (\<exists>n. map_of nodes x = Some n \<and> tn_parent_id n = y) \<and> chain nodes (y # zs))"

lemma chain_suffix: "chain nodes (xs @ ys) \<Longrightarrow> ys \<noteq> [] \<Longrightarrow> chain nodes ys"
proof (induction xs)
  case (Cons x xs)
  then show ?case by (cases "xs @ ys") auto
qed simp

lemma up_chain:
  assumes "up nodes x y"
  shows "\<exists>xs. chain nodes xs \<and> distinct xs \<and> hd xs = x \<and> last xs = y"
  using assms
proof induction
  case (self x)
  then show ?case by (intro exI [of _ "[x]"]) simp
next
  case (parent x n y)
  then obtain xs where xs: "chain nodes xs" "distinct xs" "hd xs = tn_parent_id n" "last xs = y" by blast
  then obtain z zs where z: "xs = z # zs" by (cases xs) auto
  show ?case
  proof (cases "x \<in> set xs")
    case True
    then obtain us vs where "xs = us @ x # vs" by (meson split_list)
    then show ?thesis using xs chain_suffix [of nodes us "x # vs"] by (intro exI [of _ "x # vs"]) auto
  next
    case False
    then show ?thesis using xs parent.hyps(1,2) z by (intro exI [of _ "x # xs"]) auto
  qed
qed

text \<open>
  The walks of the rules have one contract: a walk that carries the visited ids succeeds exactly if some id
  on the parent chain is a hit, also when the chain runs in a circle.
\<close>

locale parent_walk =
  fixes nodes :: node_map and walk :: "string list \<Rightarrow> string \<Rightarrow> bool" and hit :: "string \<Rightarrow> bool"
  assumes walk_step:
    "walk visited x \<longleftrightarrow> x \<noteq> [] \<and> x \<notin> set visited \<and>
       (hit x \<or> (\<exists>n. map_of nodes x = Some n \<and> walk (x # visited) (tn_parent_id n)))"
begin

lemma walk_chain:
  assumes "chain nodes xs" and "distinct xs" and "set xs \<inter> set visited = {}" and "last xs \<noteq> []" and "hit (last xs)"
  shows "walk visited (hd xs)"
  using assms
proof (induction xs arbitrary: visited)
  case (Cons x xs)
  show ?case
  proof (cases xs)
    case Nil
    then show ?thesis using Cons.prems by (subst walk_step) simp
  next
    case xs: (Cons y ys)
    then obtain n where "map_of nodes x = Some n" "tn_parent_id n = y" "x \<noteq> []" using Cons.prems(1) by auto
    moreover have "walk (x # visited) (hd xs)" using xs Cons.prems by (intro Cons.IH) auto
    ultimately show ?thesis using xs Cons.prems(3) by (subst walk_step) auto
  qed
qed simp

lemma walk_sound: "walk visited x \<Longrightarrow> \<exists>y. y \<noteq> [] \<and> up nodes x y \<and> hit y"
proof (induction "unvisited nodes visited" arbitrary: visited x rule: less_induct)
  case less
  from less.prems have x: "x \<noteq> []" "x \<notin> set visited"
    "hit x \<or> (\<exists>n. map_of nodes x = Some n \<and> walk (x # visited) (tn_parent_id n))"
    using walk_step [of visited x] by auto
  show ?case
  proof (cases "hit x")
    case True
    then show ?thesis using x by (blast intro: up.self)
  next
    case False
    then obtain n where n: "map_of nodes x = Some n" "walk (x # visited) (tn_parent_id n)" using x by blast
    from less.hyps [OF unvisited_less [OF x(2) n(1)] n(2)] n(1) x(1) show ?thesis by (blast intro: up.parent)
  qed
qed

lemma walk_iff: "walk [] x \<longleftrightarrow> (\<exists>y. y \<noteq> [] \<and> up nodes x y \<and> hit y)"
proof
  assume "\<exists>y. y \<noteq> [] \<and> up nodes x y \<and> hit y"
  then obtain y xs where "y \<noteq> []" "hit y" "chain nodes xs" "distinct xs" "hd xs = x" "last xs = y"
    using up_chain by blast
  then show "walk [] x" using walk_chain [of xs "[]"] by auto
qed (rule walk_sound)

end

interpretation anchor: parent_walk nodes "\<lambda>visited x. anchor_walk cd nodes signer visited x \<noteq> None"
  "\<lambda>x. \<exists>n. map_of nodes x = Some n \<and> signer_has_permission cd n signer AdminPermission" for cd nodes signer
  by unfold_locales (subst anchor_walk.simps, auto split: option.splits)

interpretation root: parent_walk nodes "\<lambda>visited x. x \<noteq> [] \<and> root_walk cd nodes signer visited x"
  "\<lambda>x. \<exists>n. map_of nodes x = Some n \<and> tn_parent_id n = [] \<and> signer_has_permission cd n signer AdminPermission"
  for cd nodes signer
  by unfold_locales (subst root_walk.simps, auto split: option.splits)

interpretation under: parent_walk nodes "under_walk nodes ancestor" "\<lambda>x. x = ancestor" for nodes ancestor
  by unfold_locales (subst under_walk.simps, auto split: option.splits)

interpretation covers: parent_walk nodes "covers_from cd nodes member"
  "\<lambda>x. \<exists>n. map_of nodes x = Some n \<and> tn_type n = Customer \<and> holds_literal_connect cd n member" for cd nodes member
  by unfold_locales (subst covers_from.simps, auto split: option.splits)

lemma at_or_under_iff: "at_or_under nodes x y \<longleftrightarrow> y \<noteq> [] \<and> up nodes x y"
  by (auto simp: at_or_under_def under.walk_iff)

lemma admin_anchor_iff:
  "admin_anchor cd nodes x signer \<noteq> None \<longleftrightarrow>
    (\<exists>y n. y \<noteq> [] \<and> up nodes x y \<and> map_of nodes y = Some n \<and> signer_has_permission cd n signer AdminPermission)"
  unfolding admin_anchor_def anchor.walk_iff by blast

lemma administers_root_iff:
  assumes "x \<noteq> []"
  shows "administers_root cd nodes x signer \<longleftrightarrow>
    (\<exists>y n. y \<noteq> [] \<and> up nodes x y \<and> map_of nodes y = Some n \<and> tn_parent_id n = [] \<and>
       signer_has_permission cd n signer AdminPermission)"
  using root.walk_iff [of x cd nodes signer] assms by (auto simp: administers_root_def)

text \<open>The anchor found is the nearest one; it lies on the chain and grants the signer administration.\<close>

lemma anchor_walk_Some:
  assumes "anchor_walk cd nodes signer visited x = Some y"
  shows "y \<noteq> [] \<and> up nodes x y \<and> (\<exists>n. map_of nodes y = Some n \<and> signer_has_permission cd n signer AdminPermission)"
  using assms
proof (induction cd nodes signer visited x rule: anchor_walk.induct)
  case (1 cd nodes signer visited x)
  from "1.prems" obtain n where x: "x \<noteq> []" "x \<notin> set visited" and n: "map_of nodes x = Some n"
    by (subst (asm) anchor_walk.simps) (auto split: if_splits option.splits)
  show ?case
  proof (cases "signer_has_permission cd n signer AdminPermission")
    case True
    then show ?thesis using "1.prems" x n by (subst (asm) anchor_walk.simps) (auto intro: up.self)
  next
    case False
    then have "anchor_walk cd nodes signer (x # visited) (tn_parent_id n) = Some y"
      using "1.prems" x n by (subst (asm) anchor_walk.simps) simp
    with 1 x n False show ?thesis by (auto intro: up.parent)
  qed
qed

lemma admin_anchor_Some:
  "admin_anchor cd nodes x signer = Some y \<Longrightarrow> y \<noteq> [] \<and> up nodes x y \<and>
    (\<exists>n. map_of nodes y = Some n \<and> signer_has_permission cd n signer AdminPermission)"
  unfolding admin_anchor_def by (rule anchor_walk_Some)

section \<open>The account scope\<close>

text \<open>\<open>beneath nodes x y\<close>: \<open>y\<close> is \<open>x\<close> or lies under it, through nodes that are not roots.\<close>

inductive beneath :: "node_map \<Rightarrow> string \<Rightarrow> string \<Rightarrow> bool" for nodes where
  here: "beneath nodes x x"
| child: "beneath nodes x y \<Longrightarrow> map_of nodes z = Some n \<Longrightarrow> tn_parent_id n = y \<Longrightarrow> tn_type n \<noteq> Root \<Longrightarrow>
    beneath nodes x z"

lemma set_taken_children_iff:
  "c \<in> set (taken_children nodes doomed q) \<longleftrightarrow>
    c \<notin> set doomed \<and> (\<exists>n. map_of nodes c = Some n \<and> tn_parent_id n = q \<and> tn_type n \<noteq> Root)"
proof -
  have "c \<in> fst ` set nodes" if "map_of nodes c = Some n" for n
    using map_of_SomeD [OF that] by (rule image_eqI [rotated]) simp
  then show ?thesis by (auto simp: set_taken_children)
qed

lemma scope_walk_sound:
  assumes "set queue \<subseteq> set doomed" and "\<forall>d \<in> set doomed. \<exists>s \<in> S. beneath nodes s d"
  shows "set doomed \<subseteq> set (scope_walk nodes doomed queue) \<and>
    (\<forall>d \<in> set (scope_walk nodes doomed queue). \<exists>s \<in> S. beneath nodes s d)"
  using assms
proof (induction nodes doomed queue rule: scope_walk.induct)
  case (2 nodes doomed q queue)
  let ?new = "taken_children nodes doomed q"
  have "\<forall>d \<in> set (doomed @ ?new). \<exists>s \<in> S. beneath nodes s d"
  proof
    fix d
    assume "d \<in> set (doomed @ ?new)"
    then consider "d \<in> set doomed" | "d \<in> set ?new" by auto
    then show "\<exists>s \<in> S. beneath nodes s d"
    proof cases
      case 2
      then obtain n where "map_of nodes d = Some n" "tn_parent_id n = q" "tn_type n \<noteq> Root"
        by (auto simp: set_taken_children_iff)
      moreover obtain s where "s \<in> S" "beneath nodes s q" using "2.prems" by auto
      ultimately show ?thesis by (blast intro: beneath.child)
    qed (use "2.prems"(2) in blast)
  qed
  moreover have "set (queue @ ?new) \<subseteq> set (doomed @ ?new)" using "2.prems"(1) by auto
  ultimately show ?case using "2.IH" by auto
qed simp

lemma scope_walk_closed:
  assumes "\<forall>d \<in> set doomed - set queue. \<forall>z n. map_of nodes z = Some n \<and> tn_parent_id n = d \<and> tn_type n \<noteq> Root \<longrightarrow>
    z \<in> set doomed"
  shows "\<forall>d \<in> set (scope_walk nodes doomed queue). \<forall>z n. map_of nodes z = Some n \<and> tn_parent_id n = d \<and>
    tn_type n \<noteq> Root \<longrightarrow> z \<in> set (scope_walk nodes doomed queue)"
  using assms
proof (induction nodes doomed queue rule: scope_walk.induct)
  case (2 nodes doomed q queue)
  let ?new = "taken_children nodes doomed q"
  have "z \<in> set (doomed @ ?new)"
    if d: "d \<in> set (doomed @ ?new) - set (queue @ ?new)" and z: "map_of nodes z = Some n" "tn_parent_id n = d" "tn_type n \<noteq> Root"
    for d z n
  proof (cases "d = q")
    case True
    with z have "z \<in> set doomed \<or> z \<in> set ?new" by (auto simp: set_taken_children_iff)
    then show ?thesis by auto
  next
    case False
    with d have "d \<in> set doomed - set (q # queue)" by auto
    with z "2.prems" have "z \<in> set doomed" by blast
    then show ?thesis by simp
  qed
  then show ?case unfolding scope_walk.simps by (intro "2.IH") blast
qed simp

lemma scope_walk_iff: "d \<in> set (scope_walk nodes owned owned) \<longleftrightarrow> (\<exists>s \<in> set owned. beneath nodes s d)"
proof
  assume "d \<in> set (scope_walk nodes owned owned)"
  then show "\<exists>s \<in> set owned. beneath nodes s d"
    using scope_walk_sound [of owned owned "set owned" nodes] beneath.here by blast
next
  assume "\<exists>s \<in> set owned. beneath nodes s d"
  then obtain s where s: "s \<in> set owned" and "beneath nodes s d" by blast
  from this(2) s show "d \<in> set (scope_walk nodes owned owned)"
  proof induction
    case (here x)
    then show ?case using scope_walk_sound [of owned owned "set owned" nodes] beneath.here by blast
  next
    case (child x y z n)
    then show ?case using scope_walk_closed [of owned owned nodes] by blast
  qed
qed

lemma beneath_key:
  assumes "beneath nodes x y" and "x \<in> fst ` set nodes"
  shows "y \<in> fst ` set nodes"
  using assms(1)
proof cases
  case (child w n)
  then show ?thesis using map_of_SomeD by (force intro: image_eqI)
qed (use assms(2) in simp)

section \<open>The order of the node map does not matter\<close>

definition same_tree :: "node_map \<Rightarrow> node_map \<Rightarrow> bool" where
  "same_tree m m' \<longleftrightarrow> distinct (map fst m) \<and> distinct (map fst m') \<and> map_of m = map_of m'"

lemma same_tree_sym: "same_tree m m' \<Longrightarrow> same_tree m' m"
  by (simp add: same_tree_def)

lemma same_tree_set: "same_tree m m' \<Longrightarrow> set m = set m'"
  unfolding same_tree_def by (metis map_of_inject_set)

lemma same_tree_get: "same_tree m m' \<Longrightarrow> map_of m x = map_of m' x"
  by (simp add: same_tree_def)

lemma same_tree_mset: "same_tree m m' \<Longrightarrow> mset m = mset m'"
  using same_tree_set [of m m'] by (simp add: same_tree_def distinct_map set_eq_iff_mset_eq_distinct)

lemma same_tree_list_ex: "same_tree m m' \<Longrightarrow> list_ex P m = list_ex P m'"
  by (simp add: list_ex_iff same_tree_set)

lemma same_tree_list_all: "same_tree m m' \<Longrightarrow> list_all P m = list_all P m'"
  by (simp add: list_all_iff same_tree_set)

named_theorems tree_cong \<open>the rules see a node map only through its nodes\<close>

lemma anchor_walk_cong:
  "map_of m = map_of m' \<Longrightarrow> anchor_walk cd m signer visited x = anchor_walk cd m' signer visited x"
proof (induction cd m signer visited x rule: anchor_walk.induct)
  case (1 cd m signer visited x)
  then show ?case
    by (cases "map_of m x") (simp_all add: anchor_walk.simps [of cd m signer visited x] anchor_walk.simps [of cd m' signer visited x])
qed

lemma root_walk_cong:
  "map_of m = map_of m' \<Longrightarrow> root_walk cd m signer visited x = root_walk cd m' signer visited x"
proof (induction cd m signer visited x rule: root_walk.induct)
  case (1 cd m signer visited x)
  then show ?case
    by (cases "map_of m x") (simp_all add: root_walk.simps [of cd m signer visited x] root_walk.simps [of cd m' signer visited x])
qed

lemma under_walk_cong: "map_of m = map_of m' \<Longrightarrow> under_walk m a visited x = under_walk m' a visited x"
proof (induction m a visited x rule: under_walk.induct)
  case (1 m a visited x)
  then show ?case
    by (cases "map_of m x") (simp_all add: under_walk.simps [of m a visited x] under_walk.simps [of m' a visited x])
qed

lemma scope_walk_cong: "same_tree m m' \<Longrightarrow> scope_walk m doomed queue = scope_walk m' doomed queue"
proof (induction m doomed queue rule: scope_walk.induct)
  case (2 m doomed q queue)
  have "taken_children m doomed q = taken_children m' doomed q"
    using same_tree_set [OF "2.prems"] same_tree_get [OF "2.prems"]
    by (simp add: taken_children_def children_def sorted_ids_def)
  with 2 show ?case by simp
qed simp

lemma admin_anchor_cong [tree_cong]: "same_tree m m' \<Longrightarrow> admin_anchor cd m x signer = admin_anchor cd m' x signer"
  by (simp add: admin_anchor_def same_tree_def anchor_walk_cong [of m m'])

lemma administers_root_cong [tree_cong]:
  "same_tree m m' \<Longrightarrow> administers_root cd m x signer = administers_root cd m' x signer"
  by (simp add: administers_root_def same_tree_def root_walk_cong [of m m'])

lemma at_or_under_cong [tree_cong]: "same_tree m m' \<Longrightarrow> at_or_under m x a = at_or_under m' x a"
  by (simp add: at_or_under_def same_tree_def under_walk_cong [of m m'])

lemma principal_joined_under_cong [tree_cong]:
  "same_tree m m' \<Longrightarrow> principal_joined_under cd m x who = principal_joined_under cd m' x who"
  unfolding principal_joined_under_def
  by (simp add: same_tree_list_ex [of m m'] under_walk_cong [of m m'] same_tree_def)

lemma delta_content_refusal_cong [tree_cong]:
  "same_tree m m' \<Longrightarrow> delta_content_refusal cd m delta = delta_content_refusal cd m' delta"
  by (simp add: delta_content_refusal_def create_refusal_def update_refusal_def tree_cong [of m m']
      same_tree_get [of m m'] Let_def cong: if_cong option.case_cong)

lemma holds_or_administers_cong [tree_cong]:
  "same_tree m m' \<Longrightarrow> holds_or_administers cd m x signer p = holds_or_administers cd m' x signer p"
  by (simp add: holds_or_administers_def tree_cong [of m m'] same_tree_get [of m m'] cong: if_cong option.case_cong)

lemma assignment_change_refusal_cong [tree_cong]:
  "same_tree m m' \<Longrightarrow> assignment_change_refusal cd m x signer who ps = assignment_change_refusal cd m' x signer who ps"
  by (simp add: assignment_change_refusal_def tree_cong [of m m'] same_tree_get [of m m'] cong: if_cong option.case_cong)

lemma removes_own_device_cong [tree_cong]:
  "same_tree m m' \<Longrightarrow> removes_own_device cd m x who j = removes_own_device cd m' x who j"
  by (simp add: removes_own_device_def same_tree_list_all [of m m'] same_tree_get [of m m'] cong: if_cong option.case_cong)

lemma invite_acceptance_refusal_cong [tree_cong]:
  "same_tree m m' \<Longrightarrow>
    invite_acceptance_refusal cd m x invitee inviter ps = invite_acceptance_refusal cd m' x invitee inviter ps"
proof -
  assume same: "same_tree m m'"
  then have "invite_held cd m x n inviter = invite_held cd m' x n inviter" for n
    by (simp add: fun_eq_iff invite_held_def tree_cong [of m m'])
  with same show ?thesis
    by (simp add: invite_acceptance_refusal_def invite_refusal_def tree_cong [of m m'] same_tree_get [of m m'] cong: if_cong option.case_cong)
qed

lemma move_refusal_cong [tree_cong]: "same_tree m m' \<Longrightarrow> move_refusal cd m x p signer = move_refusal cd m' x p signer"
  by (simp add: move_refusal_def tree_cong [of m m'] same_tree_get [of m m'] cong: if_cong option.case_cong)

lemma sorted_ids_cong [tree_cong]: "same_tree m m' \<Longrightarrow> sorted_ids m = sorted_ids m'"
  by (simp add: sorted_ids_def same_tree_set [of m m'])

lemma account_scope_cong [tree_cong]: "same_tree m m' \<Longrightarrow> account_scope cd m who = account_scope cd m' who"
proof -
  assume same: "same_tree m m'"
  have owned: "owned_by cd m = owned_by cd m'"
    by (intro ext) (simp only: owned_by_def same_tree_get [OF same])
  have doomed: "doomed_ids cd m = doomed_ids cd m'"
    by (intro ext) (simp only: doomed_ids_def owned sorted_ids_cong [OF same] scope_walk_cong [OF same])
  have owner: "owner_of cd m = owner_of cd m'"
    by (intro ext) (simp only: owner_of_def same_tree_get [OF same])
  show ?thesis
    by (simp only: account_scope_def swept_keys_def doomed owner same_tree_set [OF same])
qed

lemma node_key: "map_of nodes x = Some n \<Longrightarrow> x \<in> fst ` set nodes"
  using map_of_SomeD by (rule image_eqI [rotated]) simp_all

lemma doomed_ids_iff: "nid \<in> set (doomed_ids cd nodes key) \<longleftrightarrow> (\<exists>s. owned_by cd nodes key s \<and> beneath nodes s nid)"
proof -
  have "owned_by cd nodes key s \<Longrightarrow> s \<in> set (sorted_ids nodes)" for s
    by (auto simp: owned_by_def sorted_ids_def node_key split: option.splits)
  then show ?thesis by (auto simp: doomed_ids_def Let_def scope_walk_iff)
qed

lemma finite_swept_keys: "finite (swept_keys cd nodes key)"
  by (simp add: swept_keys_def Let_def)

lemma set_account_scope:
  assumes "canonical_principal cd who \<noteq> []"
  shows "set (sc_removed (account_scope cd nodes who)) = set (doomed_ids cd nodes (canonical_principal cd who))"
    and "set (sc_swept_keys (account_scope cd nodes who)) = swept_keys cd nodes (canonical_principal cd who)"
  using assms finite_swept_keys by (simp_all add: account_scope_def Let_def)

lemma account_scope_live:
  assumes "nid \<in> set (sc_removed (account_scope cd nodes who))"
  shows "\<exists>n. map_of nodes nid = Some n \<and> tn_type n \<noteq> Root"
proof -
  from assms obtain s where s: "owned_by cd nodes (canonical_principal cd who) s" "beneath nodes s nid"
    using set_account_scope(1) [of cd who nodes] doomed_ids_iff
    by (cases "canonical_principal cd who = []") (auto simp: account_scope_def)
  from s(2,1) show ?thesis by cases (auto simp: owned_by_def split: option.splits)
qed

lemma account_scope_keys:
  assumes "canonical_principal cd who \<noteq> []" and k: "k \<in> set (sc_swept_keys (account_scope cd nodes who))"
    "k \<noteq> canonical_principal cd who"
    and m: "map_of nodes m = Some n" "canonical_principal cd (tn_mgmt_pubkey n) = k"
  shows "m \<in> set (sc_removed (account_scope cd nodes who))"
proof (rule ccontr)
  let ?doomed = "set (doomed_ids cd nodes (canonical_principal cd who))"
  note sets = set_account_scope [OF assms(1), of nodes]
  assume "m \<notin> set (sc_removed (account_scope cd nodes who))"
  then have "owner_of cd nodes m \<in> owner_of cd nodes ` (fst ` set nodes - ?doomed)"
    using node_key [OF m(1)] unfolding sets by blast
  moreover have "owner_of cd nodes m = k" using m by (simp add: owner_of_def)
  ultimately show False using k unfolding sets swept_keys_def Let_def by blast
qed

text \<open>A small account: a group of the principal \<open>k\<close> with a device of another key.\<close>

definition account_example :: node_map where
  "account_example =
     [(''d'', default_node\<lparr>tn_id := ''d'', tn_parent_id := ''g'', tn_type := Endpoint, tn_mgmt_pubkey := ''o''\<rparr>),
      (''g'', default_node\<lparr>tn_id := ''g'', tn_parent_id := ''root'', tn_type := Customer, tn_mgmt_pubkey := ''k''\<rparr>),
      (''root'', default_node\<lparr>tn_id := ''root'', tn_type := Root\<rparr>)]"

section \<open>Properties\<close>

text \<open>C27. Administration is inherited down the tree and nothing else gives it: the code finds an anchor for a
  signer on a node exactly if the signer holds the administrator permission on the node or on one of its
  ancestors, even when broken parent links run in a circle; the anchor it names is such a node.\<close>

theorem admin_authority_is_inherited:
  "(admin_anchor cd nodes x signer \<noteq> None \<longleftrightarrow>
     (\<exists>y n. y \<noteq> [] \<and> up nodes x y \<and> map_of nodes y = Some n \<and> signer_has_permission cd n signer AdminPermission)) \<and>
   (case admin_anchor cd nodes x signer of
      None \<Rightarrow> True
    | Some y \<Rightarrow> y \<noteq> [] \<and> up nodes x y \<and>
        (\<exists>n. map_of nodes y = Some n \<and> signer_has_permission cd n signer AdminPermission))"
  using admin_anchor_iff [of cd nodes x signer] by (auto split: option.split dest: admin_anchor_Some)

text \<open>C26. Deleting an account removes exactly the account: the groups and devices whose management key is the
  principal's, and whatever lies beneath them; the root is never among them, and the swept keys are the
  principal's and those of removed nodes whose owner keeps no other node.\<close>

theorem account_scope_exact:
  assumes "canonical_principal cd who \<noteq> []"
  shows "(nid \<in> set (sc_removed (account_scope cd nodes who)) \<longleftrightarrow>
      (\<exists>s. owned_by cd nodes (canonical_principal cd who) s \<and> beneath nodes s nid)) \<and>
    (nid \<in> set (sc_removed (account_scope cd nodes who)) \<longrightarrow> (\<exists>n. map_of nodes nid = Some n \<and> tn_type n \<noteq> Root)) \<and>
    (k \<in> set (sc_swept_keys (account_scope cd nodes who)) \<longrightarrow> k = canonical_principal cd who \<or>
      (\<forall>m n. map_of nodes m = Some n \<and> canonical_principal cd (tn_mgmt_pubkey n) = k \<longrightarrow>
         m \<in> set (sc_removed (account_scope cd nodes who))))"
proof (intro conjI impI)
  show "nid \<in> set (sc_removed (account_scope cd nodes who)) \<longleftrightarrow>
      (\<exists>s. owned_by cd nodes (canonical_principal cd who) s \<and> beneath nodes s nid)"
    unfolding set_account_scope(1) [OF assms] by (rule doomed_ids_iff)
qed (use account_scope_live account_scope_keys [OF assms] in blast)+

theorem account_scope_exact_witness:
  "''d'' \<in> set (sc_removed (account_scope example_codec account_example ''k'')) \<and>
   ''root'' \<notin> set (sc_removed (account_scope example_codec account_example ''k''))"
proof -
  have key: "canonical_principal example_codec ''k'' = ''k''" by (simp add: canonical_principal_def starts_with_def kEd25519Prefix_def)
  have "owned_by example_codec account_example ''k'' ''g''"
    by (simp add: owned_by_def account_example_def canonical_principal_def starts_with_def kEd25519Prefix_def)
  moreover have "beneath account_example ''g'' ''d''"
    by (rule beneath.child [OF beneath.here]) (simp add: account_example_def, simp, simp)
  ultimately show ?thesis
    using account_scope_exact [of example_codec "''k''" "''d''" account_example] account_scope_exact [of example_codec "''k''" "''root''" account_example]
    by (auto simp: key account_example_def)
qed

end
