(* ===== verification/Link_Tokens.thy ===== *)
theory Link_Tokens
  imports Tree_Types
begin

text \<open>
  \<^verbatim>\<open>Auth/LinkTokenLedger.cpp\<close>: the signed events in the life of a link token (an invite) and the ledger
  that derives from them which tokens can be redeemed. \<open>Link_Ledger\<close> holds what the ledger promises.
\<close>

section \<open>The library\<close>

text \<open>libsodium's Ed25519 over arbitrary messages, beside the hash and the text encodings.\<close>

record library =
  lb_crypto :: crypto
  lb_hex :: hex_codec
  ed25519_verify :: "pubkey \<Rightarrow> byte list \<Rightarrow> sig \<Rightarrow> bool"
  ed25519_sign :: "byte list \<Rightarrow> byte list \<Rightarrow> sig"

abbreviation lb_codec :: "library \<Rightarrow> codec" where
  "lb_codec lb \<equiv> hx_json (lb_hex lb)"

definition hex_digest :: "library \<Rightarrow> digest \<Rightarrow> string" where
  "hex_digest lb d = to_hex (lb_hex lb) (be_bytes 32 d)"

section \<open>Events\<close>

definition kLinkTokenHashDomain :: string where "kLinkTokenHashDomain = ''lemonade-nexus/link-token-hash:v1''"
definition kLinkTokenEventDomain :: string where "kLinkTokenEventDomain = ''lemonade-nexus/link-token-event:v1''"
definition kLinkCodeHashDomain :: string where "kLinkCodeHashDomain = ''lemonade-nexus/link-code-hash:v1''"
definition kLinkCodeBindingDomain :: string where
  "kLinkCodeBindingDomain = ''lemonade-nexus/link-code-binding:v1''"

definition kLinkTokenMaxTtlSec :: u64 where "kLinkTokenMaxTtlSec = 3600"
definition kLinkCodeDigits :: nat where "kLinkCodeDigits = 8"
definition kLinkCodeMaxTtlSec :: u64 where "kLinkCodeMaxTtlSec = 600"
definition kLinkTokenRetentionSec :: u64 where "kLinkTokenRetentionSec = 600"
definition kLinkTokenMaxFutureSec :: u64 where "kLinkTokenMaxFutureSec = 300"
definition kLinkTokenMaxGeneration :: u32 where "kLinkTokenMaxGeneration = 8"
definition kLinkTokenMaxEventsPerToken :: nat where "kLinkTokenMaxEventsPerToken = 64"
definition kLinkTokenMaxTokens :: nat where "kLinkTokenMaxTokens = 16384"
definition kLinkTokenMaxFieldBytes :: nat where "kLinkTokenMaxFieldBytes = 256"
definition kLinkTokenMaxPermissions :: nat where "kLinkTokenMaxPermissions = 8"

text \<open>A value read from outside may be none of the four named kinds.\<close>

datatype link_token_event_kind = Mint | Spend | Refund | Revoke | OtherEvent byte

definition event_kind_code :: "link_token_event_kind \<Rightarrow> byte" where
  "event_kind_code kind = (case kind of Mint \<Rightarrow> 1 | Spend \<Rightarrow> 2 | Refund \<Rightarrow> 3 | Revoke \<Rightarrow> 4 | OtherEvent b \<Rightarrow> b)"

definition event_kind_of :: "byte \<Rightarrow> link_token_event_kind" where
  "event_kind_of b =
     (if b = 1 then Mint else if b = 2 then Spend else if b = 3 then Refund else if b = 4 then Revoke else OtherEvent b)"

record link_token_event =
  lt_kind :: link_token_event_kind
  lt_token_hash :: string
  lt_generation :: u32
  lt_network_id :: string
  lt_expires_at :: u64
  lt_group_node_id :: string
  lt_permissions :: "string list"
  lt_owner_user_id :: string
  lt_owner_pubkey :: string
  lt_created_at :: u64
  lt_code_hash :: string
  lt_code_signature :: string
  lt_timestamp :: u64
  lt_origin_pubkey :: string
  lt_origin_seq :: u64
  lt_signature :: string

definition is_lower_hex :: "string \<Rightarrow> bool" where
  "is_lower_hex s = list_all (\<lambda>c. char_between (CHR ''0'') (CHR ''9'') c \<or> char_between (CHR ''a'') (CHR ''f'') c) s"

definition bounded :: "string \<Rightarrow> bool" where
  "bounded s \<longleftrightarrow> length s \<le> kLinkTokenMaxFieldBytes"

definition event_kind_known :: "link_token_event_kind \<Rightarrow> bool" where
  "event_kind_known kind \<longleftrightarrow> kind = Mint \<or> kind = Spend \<or> kind = Refund \<or> kind = Revoke"

definition is_hex64 :: "string \<Rightarrow> bool" where
  "is_hex64 s \<longleftrightarrow> length s = 64 \<and> is_lower_hex s"

definition without_code :: "link_token_event \<Rightarrow> link_token_event" where
  "without_code e = e\<lparr>lt_code_hash := [], lt_code_signature := []\<rparr>"

definition verify_b64 :: "library \<Rightarrow> string \<Rightarrow> byte list \<Rightarrow> string \<Rightarrow> bool" where
  "verify_b64 lb origin msg signature =
     (case (from_base64 (lb_codec lb) origin, from_base64 (lb_codec lb) signature) of
        (Some pk, Some sg) \<Rightarrow>
          if length pk \<noteq> 32 \<or> length sg \<noteq> 64 then False
          else ed25519_verify lb (of_be_bytes pk) msg (of_be_bytes sg)
      | _ \<Rightarrow> False)"

definition kind_letter :: "link_token_event_kind \<Rightarrow> char" where
  "kind_letter kind =
     (case kind of Mint \<Rightarrow> CHR ''m'' | Spend \<Rightarrow> CHR ''s'' | Refund \<Rightarrow> CHR ''r'' | Revoke \<Rightarrow> CHR ''x''
      | OtherEvent b \<Rightarrow> CHR ''?'')"

definition link_token_hash_hex :: "library \<Rightarrow> string \<Rightarrow> string" where
  "link_token_hash_hex lb token =
     hex_digest lb (encoder_digest (lb_crypto lb) (add_string (canonical_encoder kLinkTokenHashDomain) token))"

definition is_link_code :: "string \<Rightarrow> bool" where
  "is_link_code secret \<longleftrightarrow>
     length secret = kLinkCodeDigits \<and> list_all (\<lambda>c. char_between (CHR ''0'') (CHR ''9'') c) secret"

definition link_code_hash_hex :: "library \<Rightarrow> string \<Rightarrow> string" where
  "link_code_hash_hex lb code =
     hex_digest lb (encoder_digest (lb_crypto lb) (add_string (canonical_encoder kLinkCodeHashDomain) code))"

definition link_code_binding_bytes :: "link_token_event \<Rightarrow> byte list" where
  "link_code_binding_bytes e =
     (let enc = canonical_encoder kLinkCodeBindingDomain;
          enc = add_string enc (lt_token_hash e);
          enc = add_string enc (lt_code_hash e);
          enc = add_string enc (lt_network_id e);
          enc = add_u64 enc (lt_expires_at e);
          enc = add_string enc (lt_origin_pubkey e)
      in add_u64 enc (lt_origin_seq e))"

definition link_code_expires_at :: "link_token_event \<Rightarrow> u64" where
  "link_code_expires_at mint = min (lt_expires_at mint) (lt_created_at mint + kLinkCodeMaxTtlSec)"

definition add_strings :: "encoder \<Rightarrow> string list \<Rightarrow> encoder" where
  "add_strings enc values = foldl add_string (add_u32 enc (of_nat (length values))) values"

definition link_token_event_signing_bytes :: "link_token_event \<Rightarrow> byte list" where
  "link_token_event_signing_bytes e =
     (let enc = canonical_encoder kLinkTokenEventDomain;
          enc = add_u16 enc (ucast (event_kind_code (lt_kind e)));
          enc = add_string enc (lt_token_hash e);
          enc = add_u32 enc (lt_generation e);
          enc = add_string enc (lt_network_id e);
          enc = add_u64 enc (lt_expires_at e);
          enc = add_string enc (lt_group_node_id e);
          enc = add_strings enc (lt_permissions e);
          enc = add_string enc (lt_owner_user_id e);
          enc = add_string enc (lt_owner_pubkey e);
          enc = add_u64 enc (lt_created_at e);
          enc = add_u64 enc (lt_timestamp e);
          enc = add_string enc (lt_origin_pubkey e)
      in add_u64 enc (lt_origin_seq e))"

definition link_token_event_signature_valid :: "library \<Rightarrow> link_token_event \<Rightarrow> bool" where
  "link_token_event_signature_valid lb e =
     (if \<not> verify_b64 lb (lt_origin_pubkey e) (link_token_event_signing_bytes e) (lt_signature e) then False
      else if lt_code_hash e = [] then lt_code_signature e = []
      else verify_b64 lb (lt_origin_pubkey e) (link_code_binding_bytes e) (lt_code_signature e))"

definition mint_shape_error :: "link_token_event \<Rightarrow> string option" where
  "mint_shape_error e =
     (if lt_generation e \<noteq> 0 then Some ''a mint is generation 0''
      else if lt_code_hash e = [] \<and> lt_code_signature e \<noteq> [] then Some ''a code signature needs a code hash''
      else if lt_code_hash e \<noteq> [] \<and> \<not> is_hex64 (lt_code_hash e)
        then Some ''code hash is not 64 lowercase hex digits''
      else if lt_code_hash e \<noteq> [] \<and> (lt_code_signature e = []) \<noteq> (lt_signature e = [])
        then Some ''a signed mint signs its code binding''
      else if lt_group_node_id e = [] \<or> lt_owner_user_id e = [] \<or> lt_owner_pubkey e = []
        then Some ''a mint names its group and owner''
      else if lt_created_at e = 0 \<or> lt_expires_at e \<le> lt_created_at e \<or>
              lt_expires_at e - lt_created_at e > kLinkTokenMaxTtlSec then Some ''mint lifetime out of bounds''
      else if length (lt_permissions e) > kLinkTokenMaxPermissions then Some ''too many permissions''
      else if list_ex (\<lambda>p. p = [] \<or> \<not> bounded p) (lt_permissions e) then Some ''invalid permission name''
      else None)"

definition link_token_event_shape_error :: "link_token_event \<Rightarrow> string option" where
  "link_token_event_shape_error e =
     (if \<not> event_kind_known (lt_kind e) then Some ''unknown event kind''
      else if length (lt_token_hash e) \<noteq> 64 \<or> \<not> is_lower_hex (lt_token_hash e)
        then Some ''token hash is not 64 lowercase hex digits''
      else if lt_generation e > kLinkTokenMaxGeneration then Some ''generation beyond the limit''
      else if lt_expires_at e = 0 \<or> lt_timestamp e = 0 \<or> lt_origin_seq e = 0
        then Some ''expiry, timestamp, and origin sequence must be set''
      else if lt_origin_pubkey e = [] then Some ''origin is empty''
      else if \<not> bounded (lt_token_hash e) \<or> \<not> bounded (lt_network_id e) \<or> \<not> bounded (lt_group_node_id e) \<or>
              \<not> bounded (lt_owner_user_id e) \<or> \<not> bounded (lt_owner_pubkey e) \<or> \<not> bounded (lt_origin_pubkey e) \<or>
              \<not> bounded (lt_signature e) \<or> \<not> bounded (lt_code_hash e) \<or> \<not> bounded (lt_code_signature e)
        then Some ''a field exceeds its bound''
      else if lt_kind e \<noteq> Mint \<and> (lt_code_hash e \<noteq> [] \<or> lt_code_signature e \<noteq> [])
        then Some ''only a mint carries a code binding''
      else if lt_kind e = Mint then mint_shape_error e
      else if lt_group_node_id e \<noteq> [] \<or> lt_permissions e \<noteq> [] \<or> lt_owner_user_id e \<noteq> [] \<or>
              lt_owner_pubkey e \<noteq> [] \<or> lt_created_at e \<noteq> 0 then Some ''only a mint carries grant fields''
      else if lt_kind e = Revoke \<and> lt_generation e \<noteq> 0 then Some ''a revoke is generation 0''
      else if lt_kind e = Refund \<and> lt_generation e \<ge> kLinkTokenMaxGeneration
        then Some ''a refund cannot open a generation beyond the limit''
      else None)"

definition link_token_event_time_error :: "link_token_event \<Rightarrow> u64 \<Rightarrow> string option" where
  "link_token_event_time_error e now_sec =
     (if now_sec \<ge> lt_expires_at e + kLinkTokenRetentionSec then Some (''the token'' @ CHR 0x27 # ''s retention ended'')
      else if lt_expires_at e > now_sec + kLinkTokenMaxTtlSec + kLinkTokenMaxFutureSec
        then Some ''expiry too far in the future''
      else if lt_timestamp e > now_sec + kLinkTokenMaxFutureSec then Some ''timestamp in the future''
      else None)"

definition link_token_event_key :: "link_token_event \<Rightarrow> string" where
  "link_token_event_key e =
     ''lt:'' @ lt_token_hash e @ '':'' @ [kind_letter (lt_kind e)] @
     (if lt_kind e \<noteq> Mint then '':'' @ decimal (unat (lt_generation e)) @ '':'' @ lt_origin_pubkey e else [])"

section \<open>The wire form\<close>

definition link_token_event_to_wire :: "link_token_event \<Rightarrow> json" where
  "link_token_event_to_wire e =
     json_object ([(''kind'', JUnsigned (ucast (event_kind_code (lt_kind e)))),
       (''token_hash'', JString (lt_token_hash e)), (''generation'', JUnsigned (ucast (lt_generation e))),
       (''network_id'', JString (lt_network_id e)), (''expires_at'', JUnsigned (lt_expires_at e)),
       (''group_node_id'', JString (lt_group_node_id e)),
       (''permissions'', JArray (map JString (lt_permissions e))),
       (''owner_user_id'', JString (lt_owner_user_id e)), (''owner_pubkey'', JString (lt_owner_pubkey e)),
       (''created_at'', JUnsigned (lt_created_at e)), (''timestamp'', JUnsigned (lt_timestamp e)),
       (''origin_pubkey'', JString (lt_origin_pubkey e)), (''origin_seq'', JUnsigned (lt_origin_seq e)),
       (''signature'', JString (lt_signature e))] @
       (if lt_code_hash e \<noteq> [] then [(''code_hash'', JString (lt_code_hash e))] else []) @
       (if lt_code_signature e \<noteq> [] then [(''code_signature'', JString (lt_code_signature e))] else []))"

definition wire_text :: "json \<Rightarrow> string \<Rightarrow> string option" where
  "wire_text j k =
     (case json_find j k of Some (JString s) \<Rightarrow> if bounded s then Some s else None | _ \<Rightarrow> None)"

definition wire_optional_text :: "json \<Rightarrow> string \<Rightarrow> string option" where
  "wire_optional_text j k = (case json_find j k of None \<Rightarrow> Some [] | Some _ \<Rightarrow> wire_text j k)"

text \<open>A signed number is taken if it is not negative.\<close>

definition wire_u64 :: "json \<Rightarrow> string \<Rightarrow> u64 option" where
  "wire_u64 j k =
     (case json_find j k of
        Some (JUnsigned n) \<Rightarrow> Some n
      | Some (JInteger n) \<Rightarrow> if 0 \<le> sint n then Some n else None
      | _ \<Rightarrow> None)"

definition wire_permission :: "json \<Rightarrow> string option" where
  "wire_permission v = (case v of JString s \<Rightarrow> if bounded s then Some s else None | _ \<Rightarrow> None)"

definition link_token_event_from_wire :: "json \<Rightarrow> link_token_event option" where
  "link_token_event_from_wire j =
     (if \<not> is_object j then None
      else do {
        kind \<leftarrow> wire_u64 j ''kind'';
        generation \<leftarrow> wire_u64 j ''generation'';
        token_hash \<leftarrow> wire_text j ''token_hash'';
        network_id \<leftarrow> wire_text j ''network_id'';
        expires_at \<leftarrow> wire_u64 j ''expires_at'';
        group_node_id \<leftarrow> wire_text j ''group_node_id'';
        owner_user_id \<leftarrow> wire_text j ''owner_user_id'';
        owner_pubkey \<leftarrow> wire_text j ''owner_pubkey'';
        created_at \<leftarrow> wire_u64 j ''created_at'';
        timestamp \<leftarrow> wire_u64 j ''timestamp'';
        origin_pubkey \<leftarrow> wire_text j ''origin_pubkey'';
        origin_seq \<leftarrow> wire_u64 j ''origin_seq'';
        signature \<leftarrow> wire_text j ''signature'';
        code_hash \<leftarrow> wire_optional_text j ''code_hash'';
        code_signature \<leftarrow> wire_optional_text j ''code_signature'';
        vs \<leftarrow> (case json_find j ''permissions'' of Some (JArray vs) \<Rightarrow> Some vs | _ \<Rightarrow> None);
        permissions \<leftarrow> those (map wire_permission vs);
        if kind > 0xFF \<or> generation > ucast kLinkTokenMaxGeneration \<or> length vs > kLinkTokenMaxPermissions then None
        else Some \<lparr>lt_kind = event_kind_of (ucast kind), lt_token_hash = token_hash, lt_generation = ucast generation,
               lt_network_id = network_id, lt_expires_at = expires_at, lt_group_node_id = group_node_id,
               lt_permissions = permissions, lt_owner_user_id = owner_user_id, lt_owner_pubkey = owner_pubkey,
               lt_created_at = created_at, lt_code_hash = code_hash, lt_code_signature = code_signature,
               lt_timestamp = timestamp, lt_origin_pubkey = origin_pubkey, lt_origin_seq = origin_seq,
               lt_signature = signature\<rparr> })"

section \<open>The ledger\<close>

datatype add_result = Added | Duplicate | RefusedEvent | Full

record link_token =
  tk_network_id :: string
  tk_expires_at :: u64
  tk_mint :: "link_token_event option"
  tk_events :: "(string, link_token_event) smap"

record link_token_ledger =
  ll_tokens :: "(string, link_token) smap"
  ll_codes :: "(string, string set) smap"

record live =
  lv_mint :: link_token_event
  lv_generation :: u32

definition empty_tokens :: link_token_ledger where
  "empty_tokens = \<lparr>ll_tokens = [], ll_codes = []\<rparr>"

definition index_code :: "link_token_event \<Rightarrow> (string, string set) smap \<Rightarrow> (string, string set) smap" where
  "index_code e codes =
     (if lt_kind e = Mint \<and> lt_code_hash e \<noteq> []
      then smap_put (lt_code_hash e)
             (insert (lt_token_hash e) (case map_of codes (lt_code_hash e) of None \<Rightarrow> {} | Some s \<Rightarrow> s)) codes
      else codes)"

text \<open>Adding to one token: the token and whether its mint was set.\<close>

definition add_to_token :: "link_token_event \<Rightarrow> link_token \<Rightarrow> add_result \<times> link_token" where
  "add_to_token e token =
     (let key = link_token_event_key e
      in case map_of (tk_events token) key of
           Some held \<Rightarrow>
             if held = e then (Duplicate, token)
             else if lt_kind e \<noteq> Mint \<or> without_code held \<noteq> without_code e then (RefusedEvent, token)
             else if lt_code_hash e = [] \<or> lt_code_hash held \<noteq> [] then (Duplicate, token)
             else (Added, token\<lparr>tk_events := smap_put key e (tk_events token), tk_mint := Some e\<rparr>)
         | None \<Rightarrow>
             if length (tk_events token) \<ge> kLinkTokenMaxEventsPerToken then (Full, token)
             else (Added, token\<lparr>tk_events := smap_put key e (tk_events token),
                                tk_mint := (if lt_kind e = Mint then Some e else tk_mint token)\<rparr>))"

definition add_event :: "link_token_event \<Rightarrow> u64 \<Rightarrow> link_token_ledger \<Rightarrow> add_result \<times> link_token_ledger" where
  "add_event e now_sec l =
     (if link_token_event_shape_error e \<noteq> None \<or> link_token_event_time_error e now_sec \<noteq> None then (RefusedEvent, l)
      else let held = map_of (ll_tokens l) (lt_token_hash e)
           in if held = None \<and> length (ll_tokens l) \<ge> kLinkTokenMaxTokens then (Full, l)
              else let token = (case held of Some t \<Rightarrow> t
                     | None \<Rightarrow> \<lparr>tk_network_id = lt_network_id e, tk_expires_at = lt_expires_at e, tk_mint = None,
                               tk_events = []\<rparr>)
                   in if tk_network_id token \<noteq> lt_network_id e \<or> tk_expires_at token \<noteq> lt_expires_at e
                        then (RefusedEvent, l)
                      else case add_to_token e token of
                             (result, token) \<Rightarrow>
                               (result, l\<lparr>ll_tokens := smap_put (lt_token_hash e) token (ll_tokens l),
                                          ll_codes := (if result = Added then index_code e (ll_codes l)
                                                       else ll_codes l)\<rparr>))"

definition spend_winner :: "link_token_ledger \<Rightarrow> string \<Rightarrow> u32 \<Rightarrow> string option" where
  "spend_winner l token_hash generation =
     (case map_of (ll_tokens l) token_hash of
        None \<Rightarrow> None
      | Some token \<Rightarrow>
          foldl (\<lambda>winner (key, e).
            if lt_kind e \<noteq> Spend \<or> lt_generation e \<noteq> generation then winner
            else case winner of None \<Rightarrow> Some (lt_origin_pubkey e)
                 | Some w \<Rightarrow> if lt_origin_pubkey e < w then Some (lt_origin_pubkey e) else winner)
            None (tk_events token))"

definition revoked :: "link_token_ledger \<Rightarrow> string \<Rightarrow> bool" where
  "revoked l token_hash =
     (case map_of (ll_tokens l) token_hash of
        None \<Rightarrow> False
      | Some token \<Rightarrow> list_ex (\<lambda>(key, e). lt_kind e = Revoke) (tk_events token))"

definition refunded_by :: "link_token \<Rightarrow> u32 \<Rightarrow> string \<Rightarrow> bool" where
  "refunded_by token generation origin =
     list_ex (\<lambda>(key, e). lt_kind e = Refund \<and> lt_generation e = generation \<and> lt_origin_pubkey e = origin)
       (tk_events token)"

text \<open>The loop over the generations, with the generations still to look at.\<close>

fun live_from :: "link_token_ledger \<Rightarrow> string \<Rightarrow> link_token \<Rightarrow> link_token_event \<Rightarrow> u32 list \<Rightarrow> live option" where
  "live_from l token_hash token mint [] = None"
| "live_from l token_hash token mint (g # gs) =
     (case spend_winner l token_hash g of
        None \<Rightarrow> Some \<lparr>lv_mint = mint, lv_generation = g\<rparr>
      | Some winner \<Rightarrow>
          if \<not> refunded_by token g winner then None else live_from l token_hash token mint gs)"

definition live :: "link_token_ledger \<Rightarrow> string \<Rightarrow> u64 \<Rightarrow> live option" where
  "live l token_hash now_sec =
     (case map_of (ll_tokens l) token_hash of
        None \<Rightarrow> None
      | Some token \<Rightarrow>
          (case tk_mint token of
             None \<Rightarrow> None
           | Some mint \<Rightarrow>
               if now_sec \<ge> tk_expires_at token \<or> revoked l token_hash then None
               else live_from l token_hash token mint
                      (map of_nat [0..<Suc (unat kLinkTokenMaxGeneration)])))"

definition code_current :: "link_token_ledger \<Rightarrow> u64 \<Rightarrow> string \<Rightarrow> bool" where
  "code_current l now_sec token_hash =
     (case map_of (ll_tokens l) token_hash of
        None \<Rightarrow> False
      | Some token \<Rightarrow> (case tk_mint token of None \<Rightarrow> False | Some mint \<Rightarrow> now_sec < link_code_expires_at mint))"

definition live_by_code :: "link_token_ledger \<Rightarrow> string \<Rightarrow> u64 \<Rightarrow> live option" where
  "live_by_code l code_hash now_sec =
     (case map_of (ll_codes l) code_hash of
        None \<Rightarrow> None
      | Some hashes \<Rightarrow>
          (case filter (code_current l now_sec) (sorted_list_of_set hashes) of
             [only] \<Rightarrow> live l only now_sec
           | _ \<Rightarrow> None))"

definition code_in_use :: "link_token_ledger \<Rightarrow> string \<Rightarrow> u64 \<Rightarrow> bool" where
  "code_in_use l code_hash now_sec =
     (case map_of (ll_codes l) code_hash of
        None \<Rightarrow> False
      | Some hashes \<Rightarrow> list_ex (code_current l now_sec) (sorted_list_of_set hashes))"

definition live_count_for_owner :: "link_token_ledger \<Rightarrow> string \<Rightarrow> u64 \<Rightarrow> nat" where
  "live_count_for_owner l owner now_sec =
     length (filter (\<lambda>(hash, token). (case tk_mint token of
         None \<Rightarrow> False | Some mint \<Rightarrow> lt_owner_user_id mint = owner \<and> live l hash now_sec \<noteq> None)) (ll_tokens l))"

definition prune :: "u64 \<Rightarrow> link_token_ledger \<Rightarrow> nat \<times> link_token_ledger" where
  "prune now_sec l =
     (let tokens = filter (\<lambda>(hash, token). \<not> now_sec \<ge> tk_expires_at token + kLinkTokenRetentionSec) (ll_tokens l);
          removed = length (ll_tokens l) - length tokens;
          codes = (if removed > 0
                   then filter (\<lambda>(code, hashes). hashes \<noteq> {})
                          (map (\<lambda>(code, hashes). (code, {h \<in> hashes. map_of tokens h \<noteq> None})) (ll_codes l))
                   else ll_codes l)
      in (removed, l\<lparr>ll_tokens := tokens, ll_codes := codes\<rparr>))"

definition events :: "link_token_ledger \<Rightarrow> link_token_event list" where
  "events l = concat (map (\<lambda>(hash, token). map snd (tk_events token)) (ll_tokens l))"

definition mints :: "link_token_ledger \<Rightarrow> link_token_event list" where
  "mints l = List.map_filter (\<lambda>(hash, token). tk_mint token) (ll_tokens l)"

end
