(* ===== verification/Tree_Encoding.thy ===== *)
theory Tree_Encoding
  imports Tree_Rules Link_Tokens
begin

text \<open>
  The data and the wire form of tree operations: the types of \<^verbatim>\<open>Tree/TreeOps.hpp\<close>, the canonical encoders
  and readers of \<^verbatim>\<open>Tree/TreeOps.cpp\<close>, and the digest of a whole tree. The lemmas show that reading back an
  encoding gives the operation the encoding carries, so an operation id binds every field it covers, and
  that the digest of a tree does not depend on the order of its node map and determines the nodes.
\<close>

section \<open>Operations\<close>

text \<open>A value read from outside may be none of the named kinds and sources.\<close>

datatype tree_op_kind =
    CreateNode | UpdateFields | SetAssignment | DeleteNode | Join | EstablishRoot | SetEndpoint | AcceptInvite
  | MoveNode | DeleteAccount | OtherKind u16

definition op_kind_code :: "tree_op_kind \<Rightarrow> u16" where
  "op_kind_code kind =
     (case kind of CreateNode \<Rightarrow> 1 | UpdateFields \<Rightarrow> 2 | SetAssignment \<Rightarrow> 3 | DeleteNode \<Rightarrow> 4 | Join \<Rightarrow> 5
      | EstablishRoot \<Rightarrow> 6 | SetEndpoint \<Rightarrow> 7 | AcceptInvite \<Rightarrow> 8 | MoveNode \<Rightarrow> 9 | DeleteAccount \<Rightarrow> 10
      | OtherKind v \<Rightarrow> v)"

definition op_kind_of :: "u16 \<Rightarrow> tree_op_kind" where
  "op_kind_of v =
     (if v = 1 then CreateNode else if v = 2 then UpdateFields else if v = 3 then SetAssignment
      else if v = 4 then DeleteNode else if v = 5 then Join else if v = 6 then EstablishRoot
      else if v = 7 then SetEndpoint else if v = 8 then AcceptInvite else if v = 9 then MoveNode
      else if v = 10 then DeleteAccount else OtherKind v)"

datatype tree_op_source = Session | Delta | Device | OtherSource u16

definition op_source_code :: "tree_op_source \<Rightarrow> u16" where
  "op_source_code source = (case source of Session \<Rightarrow> 1 | Delta \<Rightarrow> 2 | Device \<Rightarrow> 3 | OtherSource v \<Rightarrow> v)"

definition op_source_of :: "u16 \<Rightarrow> tree_op_source" where
  "op_source_of v = (if v = 1 then Session else if v = 2 then Delta else if v = 3 then Device else OtherSource v)"

record join_statement =
  js_device_pubkey :: string
  js_challenge :: string
  js_challenge_signature :: string
  js_hostname_present :: bool
  js_hostname :: string
  js_mesh_pubkey_present :: bool
  js_mesh_pubkey :: string
  js_cpu_id :: string
  js_net_mac :: string
  js_region :: string
  js_is_inference :: bool
  js_link_group_id :: string
  js_link_owner_pubkey :: string

definition default_join :: join_statement where
  "default_join =
     \<lparr>js_device_pubkey = [], js_challenge = [], js_challenge_signature = [], js_hostname_present = False,
      js_hostname = [], js_mesh_pubkey_present = False, js_mesh_pubkey = [], js_cpu_id = [], js_net_mac = [],
      js_region = [], js_is_inference = False, js_link_group_id = [], js_link_owner_pubkey = []\<rparr>"

record tree_op_body =
  tb_source :: tree_op_source
  tb_node :: tree_node
  tb_delta :: tree_delta
  tb_assignment_principal :: string
  tb_assignment_permissions :: "string list"
  tb_join :: join_statement
  tb_listen_endpoint :: string
  tb_inviter :: string
  tb_invite_permissions :: "string list"
  tb_new_parent_id :: string
  tb_link_extension :: bool
  tb_invite_grant :: "link_token_event option"

definition default_body :: tree_op_body where
  "default_body =
     \<lparr>tb_source = Session, tb_node = default_node, tb_delta = default_delta, tb_assignment_principal = [],
      tb_assignment_permissions = [], tb_join = default_join, tb_listen_endpoint = [], tb_inviter = [],
      tb_invite_permissions = [], tb_new_parent_id = [], tb_link_extension = False, tb_invite_grant = None\<rparr>"

record tree_op =
  op_version :: u32
  op_network_id :: digest
  op_kind :: tree_op_kind
  op_target :: string
  op_base_version :: u64
  op_signed_at :: u64
  op_nonce :: "128 word"
  op_principal :: string
  op_body :: tree_op_body
  op_author :: string
  op_id :: digest
  op_signature :: string
  op_submitted_by :: string

definition kTreeOpVersion :: u32 where "kTreeOpVersion = 1"
definition kTreeOpDomain :: string where "kTreeOpDomain = ''lemonade-nexus/tree-op:v1''"
definition kTreeOpSignatureDomain :: string where "kTreeOpSignatureDomain = ''lemonade-nexus/tree-op-signature:v1''"
definition kTreeOpStatementDomain :: string where "kTreeOpStatementDomain = ''lemonade-nexus/tree-op-statement:v1''"
definition kTreeNodeDomain :: string where "kTreeNodeDomain = ''lemonade-nexus/tree-node:v1''"
definition kTreeDigestDomain :: string where "kTreeDigestDomain = ''lemonade-nexus/tree-digest:v1''"
definition kTreeTunnelDomain :: string where "kTreeTunnelDomain = ''lemonade-nexus/tree-tunnel-address:v1''"
definition kTreeOpLinkExtensionTag :: string where
  "kTreeOpLinkExtensionTag = ''lemonade-nexus/tree-op-link-extension:v1''"
definition kTreeOpRedemptionDomain :: string where
  "kTreeOpRedemptionDomain = ''lemonade-nexus/tree-op-invite-redemption:v1''"
definition kTreeOpMaxAgeSec :: u64 where "kTreeOpMaxAgeSec = 300"
definition kTreeOpMaxFutureSec :: u64 where "kTreeOpMaxFutureSec = 60"
definition kMaxTreeOpEncodedBytes :: nat where "kMaxTreeOpEncodedBytes = 48000"

definition link_extension_allowed :: "tree_op \<Rightarrow> bool" where
  "link_extension_allowed op \<longleftrightarrow>
     op_kind op = Join \<and> tb_source (op_body op) = Device \<or>
     op_kind op = AcceptInvite \<and> tb_source (op_body op) = Session"

definition source_allowed :: "tree_op_kind \<Rightarrow> tree_op_source \<Rightarrow> bool" where
  "source_allowed kind source =
     (case kind of
        CreateNode \<Rightarrow> source = Session \<or> source = Delta
      | UpdateFields \<Rightarrow> source = Session \<or> source = Delta
      | DeleteNode \<Rightarrow> source = Session \<or> source = Delta
      | SetAssignment \<Rightarrow> source = Session
      | EstablishRoot \<Rightarrow> source = Session
      | SetEndpoint \<Rightarrow> source = Session
      | AcceptInvite \<Rightarrow> source = Session
      | MoveNode \<Rightarrow> source = Session
      | DeleteAccount \<Rightarrow> source = Session
      | Join \<Rightarrow> source = Device
      | OtherKind v \<Rightarrow> False)"

definition op_kind_known :: "tree_op_kind \<Rightarrow> bool" where
  "op_kind_known kind = (case kind of OtherKind v \<Rightarrow> False | _ \<Rightarrow> True)"

section \<open>Encoding\<close>

definition add_bool :: "encoder \<Rightarrow> bool \<Rightarrow> encoder" where
  "add_bool enc v = add_u16 enc (if v then 1 else 0)"

definition add_assignment :: "encoder \<Rightarrow> assignment \<Rightarrow> encoder" where
  "add_assignment enc a = add_strings (add_string enc (as_management_pubkey a)) (as_permissions a)"

definition add_tree_node :: "encoder \<Rightarrow> tree_node \<Rightarrow> encoder" where
  "add_tree_node enc n =
     (let enc = add_string enc (tn_id n);
          enc = add_string enc (tn_parent_id n);
          enc = add_string enc (node_type_to_string (tn_type n));
          enc = add_string enc (tn_hostname n);
          enc = add_string enc (tn_tunnel_ip n);
          enc = add_string enc (tn_private_subnet n);
          enc = add_string enc (tn_private_shared_addresses n);
          enc = add_string enc (tn_shared_domain n);
          enc = add_string enc (tn_mgmt_pubkey n);
          enc = add_string enc (tn_wrapped_mgmt_privkey n);
          enc = add_string enc (tn_mesh_pubkey n);
          enc = add_string enc (tn_endpoint_identifier n);
          enc = add_string enc (tn_cpu_id n);
          enc = add_string enc (tn_net_mac n);
          enc = add_bool enc (tn_is_inference n);
          enc = add_u32 enc (of_nat (length (tn_assignments n)));
          enc = foldl add_assignment enc (tn_assignments n);
          enc = add_string enc (tn_signature n);
          enc = add_string enc (tn_listen_endpoint n);
          enc = add_string enc (tn_region n);
          enc = add_u32 enc (tn_capacity_mbps n);
          enc = add_u32 enc (tn_reputation_score n);
          enc = add_u64 enc (tn_expires_at n)
      in add_u64 enc (tn_version n))"

definition add_delta :: "encoder \<Rightarrow> tree_delta \<Rightarrow> encoder" where
  "add_delta enc d =
     (let enc = add_string enc (td_operation d);
          enc = add_string enc (td_target_node_id d);
          enc = add_tree_node enc (td_node_data d);
          enc = add_string enc (td_signer_pubkey d);
          enc = add_string enc (td_signature d)
      in add_u64 enc (td_timestamp d))"

definition add_join :: "encoder \<Rightarrow> join_statement \<Rightarrow> encoder" where
  "add_join enc j =
     (let enc = add_string enc (js_device_pubkey j);
          enc = add_string enc (js_challenge j);
          enc = add_string enc (js_challenge_signature j);
          enc = add_bool enc (js_hostname_present j);
          enc = add_string enc (js_hostname j);
          enc = add_bool enc (js_mesh_pubkey_present j);
          enc = add_string enc (js_mesh_pubkey j);
          enc = add_string enc (js_cpu_id j);
          enc = add_string enc (js_net_mac j);
          enc = add_string enc (js_region j);
          enc = add_bool enc (js_is_inference j);
          enc = add_string enc (js_link_group_id j)
      in add_string enc (js_link_owner_pubkey j))"

definition add_link_event :: "encoder \<Rightarrow> link_token_event \<Rightarrow> encoder" where
  "add_link_event enc e =
     (let enc = add_u16 enc (ucast (event_kind_code (lt_kind e)));
          enc = add_string enc (lt_token_hash e);
          enc = add_u32 enc (lt_generation e);
          enc = add_string enc (lt_network_id e);
          enc = add_u64 enc (lt_expires_at e);
          enc = add_string enc (lt_group_node_id e);
          enc = add_strings enc (lt_permissions e);
          enc = add_string enc (lt_owner_user_id e);
          enc = add_string enc (lt_owner_pubkey e);
          enc = add_u64 enc (lt_created_at e);
          enc = add_u64 enc (lt_timestamp e);
          enc = add_string enc (lt_origin_pubkey e);
          enc = add_u64 enc (lt_origin_seq e)
      in add_string enc (lt_signature e))"

definition add_op_body :: "encoder \<Rightarrow> tree_op \<Rightarrow> encoder" where
  "add_op_body enc op =
     (case tb_source (op_body op) of
        Delta \<Rightarrow> add_delta enc (tb_delta (op_body op))
      | Device \<Rightarrow> add_join enc (tb_join (op_body op))
      | Session \<Rightarrow>
          if op_kind op = CreateNode \<or> op_kind op = UpdateFields then add_tree_node enc (tb_node (op_body op))
          else if op_kind op = SetAssignment
            then add_strings (add_string enc (tb_assignment_principal (op_body op)))
                   (tb_assignment_permissions (op_body op))
          else if op_kind op = SetEndpoint then add_string enc (tb_listen_endpoint (op_body op))
          else if op_kind op = AcceptInvite
            then add_strings (add_string enc (tb_inviter (op_body op))) (tb_invite_permissions (op_body op))
          else if op_kind op = MoveNode then add_string enc (tb_new_parent_id (op_body op))
          else enc
      | OtherSource v \<Rightarrow> enc)"

definition add_extension :: "encoder \<Rightarrow> tree_op_body \<Rightarrow> encoder" where
  "add_extension enc body =
     (if tb_link_extension body
      then let enc = add_string enc kTreeOpLinkExtensionTag;
               enc = add_bool enc (tb_invite_grant body \<noteq> None)
           in case tb_invite_grant body of None \<Rightarrow> enc | Some grant \<Rightarrow> add_link_event enc grant
      else enc)"

definition op_encoder :: "tree_op \<Rightarrow> encoder" where
  "op_encoder op =
     (let enc = canonical_encoder kTreeOpDomain;
          enc = add_u32 enc (op_version op);
          enc = add_digest enc (op_network_id op);
          enc = add_u16 enc (op_kind_code (op_kind op));
          enc = add_string enc (op_target op);
          enc = add_u64 enc (op_base_version op);
          enc = add_u64 enc (op_signed_at op);
          enc = add_bytes enc (be_bytes 16 (op_nonce op));
          enc = add_string enc (op_principal op);
          enc = add_string enc (op_author op);
          enc = add_u16 enc (op_source_code (tb_source (op_body op)));
          enc = add_op_body enc op
      in add_extension enc (op_body op))"

definition encode_tree_op :: "tree_op \<Rightarrow> byte list" where
  "encode_tree_op op = op_encoder op"

definition compute_op_id :: "library \<Rightarrow> tree_op \<Rightarrow> digest" where
  "compute_op_id lb op = encoder_digest (lb_crypto lb) (op_encoder op)"

definition op_id_hex :: "library \<Rightarrow> tree_op \<Rightarrow> string" where
  "op_id_hex lb op = hex_digest lb (op_id op)"

definition encode_tree_node :: "tree_node \<Rightarrow> byte list" where
  "encode_tree_node node = add_tree_node (canonical_encoder kTreeNodeDomain) node"

definition compute_tree_digest :: "library \<Rightarrow> node_map \<Rightarrow> digest" where
  "compute_tree_digest lb nodes =
     (let ordered = sort_key fst nodes;
          enc = add_u64 (canonical_encoder kTreeDigestDomain) (of_nat (length ordered))
      in encoder_digest (lb_crypto lb)
           (foldl (\<lambda>enc (nid, node). add_bytes (add_string enc nid) (encode_tree_node node)) enc ordered))"

section \<open>Decoding\<close>

text \<open>A reader takes the bytes left and returns a value and the bytes after it; \<^const>\<open>None\<close> is a failed read.\<close>

type_synonym 'a reader = "byte list \<Rightarrow> ('a \<times> byte list) option"

definition read_field :: "byte list reader" where
  "read_field r =
     (if length r < 4 then None
      else let n = unat (of_be_bytes (rev (take 4 r)) :: u32); r = drop 4 r
           in if length r < n then None else Some (take n r, drop n r))"

definition read_text :: "string reader" where
  "read_text r = do { (f, r) \<leftarrow> read_field r; Some (map (\<lambda>b. char_of (unat b)) f, r) }"

definition expect_text :: "string \<Rightarrow> unit reader" where
  "expect_text literal r = do { (s, r) \<leftarrow> read_text r; if s = literal then Some ((), r) else None }"

definition read_uint :: "'a::len word reader" where
  "read_uint r =
     do { (f, r) \<leftarrow> read_field r;
          if length f \<noteq> LENGTH('a) div 8 then None else Some (ucast (of_be_bytes (rev f) :: u64), r) }"

definition read_boolean :: "bool reader" where
  "read_boolean r = do { (v :: u16, r) \<leftarrow> read_uint r; if v > 1 then None else Some (v = 1, r) }"

definition read_fixed :: "'a::len word reader" where
  "read_fixed r =
     do { (f, r) \<leftarrow> read_field r; if length f \<noteq> LENGTH('a) div 8 then None else Some (of_be_bytes f, r) }"

definition read_count :: "u32 reader" where
  "read_count r = do { (n, r) \<leftarrow> read_uint r; if unat n \<le> length r div 4 then Some (n, r) else None }"

primrec read_many :: "'a reader \<Rightarrow> nat \<Rightarrow> 'a list reader" where
  "read_many read 0 r = Some ([], r)"
| "read_many read (Suc n) r = do { (x, r) \<leftarrow> read r; (xs, r) \<leftarrow> read_many read n r; Some (x # xs, r) }"

definition read_strings :: "string list reader" where
  "read_strings r = do { (n, r) \<leftarrow> read_count r; read_many read_text (unat n) r }"

definition read_assignment :: "assignment reader" where
  "read_assignment r =
     do { (key, r) \<leftarrow> read_text r; (permissions, r) \<leftarrow> read_strings r;
          Some (\<lparr>as_management_pubkey = key, as_permissions = permissions\<rparr>, r) }"

definition read_node :: "tree_node reader" where
  "read_node r =
     do { (nid, r) \<leftarrow> read_text r; (parent, r) \<leftarrow> read_text r; (type, r) \<leftarrow> read_text r;
          (hostname, r) \<leftarrow> read_text r; (tunnel_ip, r) \<leftarrow> read_text r; (private_subnet, r) \<leftarrow> read_text r;
          (private_shared_addresses, r) \<leftarrow> read_text r; (shared_domain, r) \<leftarrow> read_text r;
          (mgmt_pubkey, r) \<leftarrow> read_text r; (wrapped_mgmt_privkey, r) \<leftarrow> read_text r;
          (mesh_pubkey, r) \<leftarrow> read_text r; (endpoint_identifier, r) \<leftarrow> read_text r;
          (cpu_id, r) \<leftarrow> read_text r; (net_mac, r) \<leftarrow> read_text r; (is_inference, r) \<leftarrow> read_boolean r;
          (n, r) \<leftarrow> read_count r;
          type \<leftarrow> string_to_node_type type;
          (assignments, r) \<leftarrow> read_many read_assignment (unat n) r;
          (signature, r) \<leftarrow> read_text r; (listen_endpoint, r) \<leftarrow> read_text r; (region, r) \<leftarrow> read_text r;
          (capacity_mbps, r) \<leftarrow> read_uint r; (score_bits, r) \<leftarrow> read_uint r;
          (expires_at, r) \<leftarrow> read_uint r; (version, r) \<leftarrow> read_uint r;
          Some (\<lparr>tn_id = nid, tn_parent_id = parent, tn_type = type, tn_hostname = hostname,
                 tn_tunnel_ip = tunnel_ip, tn_private_subnet = private_subnet,
                 tn_private_shared_addresses = private_shared_addresses, tn_shared_domain = shared_domain,
                 tn_mgmt_pubkey = mgmt_pubkey, tn_wrapped_mgmt_privkey = wrapped_mgmt_privkey,
                 tn_mesh_pubkey = mesh_pubkey, tn_endpoint_identifier = endpoint_identifier,
                 tn_cpu_id = cpu_id, tn_net_mac = net_mac, tn_is_inference = is_inference,
                 tn_assignments = assignments, tn_signature = signature,
                 tn_listen_endpoint = listen_endpoint, tn_region = region, tn_capacity_mbps = capacity_mbps,
                 tn_reputation_score = score_bits, tn_expires_at = expires_at, tn_version = version\<rparr>, r) }"

definition read_delta :: "tree_delta reader" where
  "read_delta r =
     do { (operation, r) \<leftarrow> read_text r; (target, r) \<leftarrow> read_text r; (node, r) \<leftarrow> read_node r;
          (signer, r) \<leftarrow> read_text r; (signature, r) \<leftarrow> read_text r; (timestamp, r) \<leftarrow> read_uint r;
          Some (\<lparr>td_operation = operation, td_target_node_id = target, td_node_data = node,
                 td_signer_pubkey = signer, td_signature = signature, td_timestamp = timestamp\<rparr>, r) }"

definition read_link_event :: "link_token_event reader" where
  "read_link_event r =
     do { (kind :: u16, r) \<leftarrow> read_uint r; (token_hash, r) \<leftarrow> read_text r; (generation, r) \<leftarrow> read_uint r;
          (network_id, r) \<leftarrow> read_text r; (expires_at, r) \<leftarrow> read_uint r; (gid, r) \<leftarrow> read_text r;
          (permissions, r) \<leftarrow> read_strings r; (owner_user, r) \<leftarrow> read_text r; (owner_key, r) \<leftarrow> read_text r;
          (created_at, r) \<leftarrow> read_uint r; (timestamp, r) \<leftarrow> read_uint r; (origin, r) \<leftarrow> read_text r;
          (origin_seq, r) \<leftarrow> read_uint r; (signature, r) \<leftarrow> read_text r;
          if kind > 0xFF then None
          else Some (\<lparr>lt_kind = event_kind_of (ucast kind), lt_token_hash = token_hash, lt_generation = generation,
                 lt_network_id = network_id, lt_expires_at = expires_at, lt_group_node_id = gid,
                 lt_permissions = permissions, lt_owner_user_id = owner_user, lt_owner_pubkey = owner_key,
                 lt_created_at = created_at, lt_code_hash = [], lt_code_signature = [],
                 lt_timestamp = timestamp, lt_origin_pubkey = origin, lt_origin_seq = origin_seq,
                 lt_signature = signature\<rparr>, r) }"

definition read_join :: "join_statement reader" where
  "read_join r =
     do { (device, r) \<leftarrow> read_text r; (challenge, r) \<leftarrow> read_text r; (signature, r) \<leftarrow> read_text r;
          (hostname_present, r) \<leftarrow> read_boolean r; (hostname, r) \<leftarrow> read_text r;
          (mesh_present, r) \<leftarrow> read_boolean r; (mesh, r) \<leftarrow> read_text r; (cpu_id, r) \<leftarrow> read_text r;
          (net_mac, r) \<leftarrow> read_text r; (region, r) \<leftarrow> read_text r; (is_inference, r) \<leftarrow> read_boolean r;
          (gid, r) \<leftarrow> read_text r; (owner, r) \<leftarrow> read_text r;
          Some (\<lparr>js_device_pubkey = device, js_challenge = challenge, js_challenge_signature = signature,
                 js_hostname_present = hostname_present, js_hostname = hostname,
                 js_mesh_pubkey_present = mesh_present, js_mesh_pubkey = mesh, js_cpu_id = cpu_id,
                 js_net_mac = net_mac, js_region = region, js_is_inference = is_inference,
                 js_link_group_id = gid, js_link_owner_pubkey = owner\<rparr>, r) }"

definition read_op_body :: "tree_op_kind \<Rightarrow> tree_op_source \<Rightarrow> tree_op_body reader" where
  "read_op_body kind source r =
     (let body = default_body\<lparr>tb_source := source\<rparr>
      in case source of
           Delta \<Rightarrow> do { (d, r) \<leftarrow> read_delta r; Some (body\<lparr>tb_delta := d\<rparr>, r) }
         | Device \<Rightarrow> do { (j, r) \<leftarrow> read_join r; Some (body\<lparr>tb_join := j\<rparr>, r) }
         | Session \<Rightarrow>
             if kind = CreateNode \<or> kind = UpdateFields
               then do { (n, r) \<leftarrow> read_node r; Some (body\<lparr>tb_node := n\<rparr>, r) }
             else if kind = SetAssignment
               then do { (who, r) \<leftarrow> read_text r; (permissions, r) \<leftarrow> read_strings r;
                         Some (body\<lparr>tb_assignment_principal := who, tb_assignment_permissions := permissions\<rparr>, r) }
             else if kind = SetEndpoint
               then do { (endpoint, r) \<leftarrow> read_text r; Some (body\<lparr>tb_listen_endpoint := endpoint\<rparr>, r) }
             else if kind = AcceptInvite
               then do { (inviter, r) \<leftarrow> read_text r; (permissions, r) \<leftarrow> read_strings r;
                         Some (body\<lparr>tb_inviter := inviter, tb_invite_permissions := permissions\<rparr>, r) }
             else if kind = MoveNode
               then do { (parent, r) \<leftarrow> read_text r; Some (body\<lparr>tb_new_parent_id := parent\<rparr>, r) }
             else Some (body, r)
         | OtherSource v \<Rightarrow> Some (body, r))"

definition read_extension :: "tree_op_body \<Rightarrow> tree_op_body reader" where
  "read_extension body r =
     do { (u, r) \<leftarrow> expect_text kTreeOpLinkExtensionTag r; (has_grant, r) \<leftarrow> read_boolean r;
          if has_grant
          then do { (grant, r) \<leftarrow> read_link_event r;
                    Some (body\<lparr>tb_link_extension := True, tb_invite_grant := Some grant\<rparr>, r) }
          else Some (body\<lparr>tb_link_extension := True\<rparr>, r) }"

definition read_tree_op :: "tree_op reader" where
  "read_tree_op r =
     do { (u, r) \<leftarrow> expect_text kTreeOpDomain r; (version, r) \<leftarrow> read_uint r; (network, r) \<leftarrow> read_fixed r;
          (kind, r) \<leftarrow> read_uint r; (target, r) \<leftarrow> read_text r; (base_version, r) \<leftarrow> read_uint r;
          (signed_at, r) \<leftarrow> read_uint r; (nonce, r) \<leftarrow> read_fixed r; (who, r) \<leftarrow> read_text r;
          (author, r) \<leftarrow> read_text r; (source, r) \<leftarrow> read_uint r;
          let kind = op_kind_of kind; source = op_source_of source;
              op = \<lparr>op_version = version, op_network_id = network, op_kind = kind, op_target = target,
                    op_base_version = base_version, op_signed_at = signed_at, op_nonce = nonce,
                    op_principal = who, op_body = default_body\<lparr>tb_source := source\<rparr>, op_author = author,
                    op_id = 0, op_signature = [], op_submitted_by = []\<rparr>
          in if \<not> op_kind_known kind \<or> \<not> source_allowed kind source then None
             else do { (body, r) \<leftarrow> read_op_body kind source r;
                       (body, r) \<leftarrow> if r \<noteq> [] \<and> link_extension_allowed op then read_extension body r
                                   else Some (body, r);
                       Some (op\<lparr>op_body := body\<rparr>, r) } }"

definition decode_tree_op :: "library \<Rightarrow> byte list \<Rightarrow> sig \<Rightarrow> tree_op option" where
  "decode_tree_op lb encoding signature =
     (if length encoding > kMaxTreeOpEncodedBytes then None
      else case read_tree_op encoding of
             None \<Rightarrow> None
           | Some (op, r) \<Rightarrow>
               if r \<noteq> [] then None
               else if encode_tree_op op \<noteq> encoding then None
               else Some (op\<lparr>op_id := compute_op_id lb op,
                             op_signature := to_base64 (lb_codec lb) (be_bytes 64 signature)\<rparr>))"

definition decode_tree_node :: "byte list \<Rightarrow> tree_node option" where
  "decode_tree_node encoding =
     do { (u, r) \<leftarrow> expect_text kTreeNodeDomain encoding; (node, r) \<leftarrow> read_node r;
          if r \<noteq> [] \<or> encode_tree_node node \<noteq> encoding then None else Some node }"

section \<open>Streams\<close>

text \<open>Every encoder appends the stream of its fields, and a reader takes exactly that stream off the front.\<close>

definition field :: "byte list \<Rightarrow> byte list" where
  "field f = put_length_prefixed [] f"

abbreviation text_field :: "string \<Rightarrow> byte list" where
  "text_field s \<equiv> field (string_bytes s)"

lemma length_field [simp]: "length (field f) = 4 + length f"
  by (simp add: field_def put_length_prefixed_def)

lemma put_field: "put_length_prefixed enc f = enc @ field f"
  by (simp add: field_def put_length_prefixed_def)

lemmas add_fields = add_bytes_def add_string_def add_u16_def add_u32_def add_u64_def add_bool_def
  canonical_encoder_def put_field

definition strings_stream :: "string list \<Rightarrow> byte list" where
  "strings_stream ss = field (le_bytes 4 (of_nat (length ss) :: u32)) @ concat (map (\<lambda>s. text_field s) ss)"

definition assignment_stream :: "assignment \<Rightarrow> byte list" where
  "assignment_stream a = text_field (as_management_pubkey a) @ strings_stream (as_permissions a)"

definition node_stream :: "tree_node \<Rightarrow> byte list" where
  "node_stream n = add_tree_node [] n"

lemma add_strings_stream: "add_strings enc ss = enc @ strings_stream ss"
proof -
  have "foldl add_string enc ss = enc @ concat (map (\<lambda>s. text_field s) ss)" for enc
    by (induction ss arbitrary: enc) (simp_all add: add_fields)
  then show ?thesis by (simp add: add_strings_def strings_stream_def add_fields)
qed

lemma add_assignment_stream: "add_assignment enc a = enc @ assignment_stream a"
  by (simp add: add_assignment_def assignment_stream_def add_strings_stream add_fields)

lemma add_assignments_stream: "foldl add_assignment enc as = enc @ concat (map assignment_stream as)"
  by (induction as arbitrary: enc) (simp_all add: add_assignment_stream)

lemma node_stream_eq:
  "node_stream n =
     text_field (tn_id n) @ text_field (tn_parent_id n) @ text_field (node_type_to_string (tn_type n)) @
     text_field (tn_hostname n) @ text_field (tn_tunnel_ip n) @ text_field (tn_private_subnet n) @
     text_field (tn_private_shared_addresses n) @ text_field (tn_shared_domain n) @
     text_field (tn_mgmt_pubkey n) @ text_field (tn_wrapped_mgmt_privkey n) @ text_field (tn_mesh_pubkey n) @
     text_field (tn_endpoint_identifier n) @ text_field (tn_cpu_id n) @ text_field (tn_net_mac n) @
     field (le_bytes 2 ((if tn_is_inference n then 1 else 0) :: u16)) @
     field (le_bytes 4 (of_nat (length (tn_assignments n)) :: u32)) @
     concat (map assignment_stream (tn_assignments n)) @
     text_field (tn_signature n) @ text_field (tn_listen_endpoint n) @ text_field (tn_region n) @
     field (le_bytes 4 (tn_capacity_mbps n)) @ field (le_bytes 4 (tn_reputation_score n)) @
     field (le_bytes 8 (tn_expires_at n)) @ field (le_bytes 8 (tn_version n))"
  by (simp add: node_stream_def add_tree_node_def add_assignments_stream add_fields Let_def)

lemma add_tree_node_stream: "add_tree_node enc n = enc @ node_stream n"
  by (simp add: node_stream_eq add_tree_node_def add_assignments_stream add_fields Let_def)

section \<open>Reading one field\<close>

lemma read_field_field [simp]:
  assumes "length f < 2 ^ 32"
  shows "read_field (field f @ r) = Some (f, r)"
proof -
  have "rev (take 4 (field f @ r)) = be_bytes 4 (of_nat (length f) :: u32)"
    by (simp add: field_def put_length_prefixed_def be_bytes_def)
  then have n: "unat (of_be_bytes (rev (take 4 (field f @ r))) :: u32) = length f"
    using assms of_be_bytes_be_bytes [of 4 "of_nat (length f) :: u32"] by (simp add: unat_of_nat)
  have "drop 4 (field f @ r) = f @ r" by (simp add: field_def put_length_prefixed_def)
  with n show ?thesis by (simp add: read_field_def Let_def)
qed

lemma chars_of_string_bytes [simp]: "map (\<lambda>b. char_of (unat b)) (string_bytes s) = s"
proof -
  have "char_of (unat (of_char c :: byte)) = c" for c
  proof -
    have "(of_char c :: byte) = of_nat (of_char c)" by (simp only: of_nat_of_char)
    then have "unat (of_char c :: byte) = (of_char c :: nat) mod 256" by (simp add: unat_of_nat)
    then show ?thesis by (simp only: of_char_mod_256 char_of_char)
  qed
  then show ?thesis by (simp add: string_bytes_def o_def)
qed

lemma read_text_field [simp]: "length s < 2 ^ 32 \<Longrightarrow> read_text (text_field s @ r) = Some (s, r)"
  by (simp add: read_text_def)

lemma expect_text_field [simp]: "length s < 2 ^ 32 \<Longrightarrow> expect_text s (text_field s @ r) = Some ((), r)"
  by (simp add: expect_text_def)

lemma read_uint_field:
  fixes w :: "'a::len word"
  assumes "LENGTH('a) = n * 8" and "n \<le> 8"
  shows "read_uint (field (le_bytes n w) @ r) = Some (w, r)"
proof -
  have "ucast (of_be_bytes (rev (le_bytes n w)) :: u64) = w"
  proof (rule bit_word_eqI)
    fix k
    assume k: "k < LENGTH('a)"
    then have "k div 8 < n" using assms by (simp add: less_mult_imp_div_less)
    then show "bit (ucast (of_be_bytes (rev (le_bytes n w)) :: u64) :: 'a word) k = bit w k"
      using k assms by (simp add: bit_simps bit_of_be_bytes bit_le_bytes)
  qed
  then show ?thesis using assms by (simp add: read_uint_def)
qed

lemma read_uint_fields [simp]:
  "read_uint (field (le_bytes 2 (a :: u16)) @ r) = Some (a, r)"
  "read_uint (field (le_bytes 4 (b :: u32)) @ r) = Some (b, r)"
  "read_uint (field (le_bytes 8 (c :: u64)) @ r) = Some (c, r)"
  by (rule read_uint_field; simp)+

lemma read_boolean_field [simp]:
  "read_boolean (field (le_bytes 2 ((if b then 1 else 0) :: u16)) @ r) = Some (b, r)"
  by (simp add: read_boolean_def)

lemma read_fixed_fields [simp]:
  "read_fixed (field (be_bytes 32 (d :: digest)) @ r) = Some (d, r)"
  "read_fixed (field (be_bytes 16 (n :: 128 word)) @ r) = Some (n, r)"
  by (simp_all add: read_fixed_def of_be_bytes_be_bytes)

section \<open>Reading lists and records\<close>

lemma read_many_stream:
  assumes "\<And>x r. x \<in> set xs \<Longrightarrow> read (stream x @ r) = Some (x, r)"
  shows "read_many read (length xs) (concat (map stream xs) @ r) = Some (xs, r)"
  using assms by (induction xs) simp_all

lemma length_concat_ge:
  assumes "\<And>x. x \<in> set xs \<Longrightarrow> (4 :: nat) \<le> length (f x)"
  shows "4 * length xs \<le> length (concat (map f xs))"
  using assms
proof (induction xs)
  case (Cons x xs)
  have "4 \<le> length (f x)" using Cons.prems [of x] by simp
  moreover have "4 * length xs \<le> length (concat (map f xs))" using Cons by simp
  ultimately show ?case by simp
qed simp

lemma read_count_field:
  assumes "n < 2 ^ 32" and "4 * n \<le> length r"
  shows "read_count (field (le_bytes 4 (of_nat n :: u32)) @ r) = Some (of_nat n, r)"
  using assms by (simp add: read_count_def unat_of_nat)

lemma read_strings_stream [simp]:
  assumes "length (strings_stream ss) < 2 ^ 32"
  shows "read_strings (strings_stream ss @ r) = Some (ss, r)"
proof -
  have four: "4 * length ss \<le> length (concat (map (\<lambda>s. text_field s) ss))" by (rule length_concat_ge) simp
  then have "length ss < 2 ^ 32" using assms by (simp add: strings_stream_def)
  moreover have "read_text (text_field s @ q) = Some (s, q)" if "s \<in> set ss" for s q
  proof -
    have "length (text_field s) \<le> length (concat (map (\<lambda>s. text_field s) ss))"
      using that by (induction ss) auto
    then show ?thesis using assms by (intro read_text_field) (simp add: strings_stream_def)
  qed
  then have "read_many read_text (length ss) (concat (map (\<lambda>s. text_field s) ss) @ r) = Some (ss, r)"
    by (rule read_many_stream)
  ultimately show ?thesis using four
    by (simp add: read_strings_def strings_stream_def read_count_field unat_of_nat)
qed

lemma read_assignment_stream [simp]:
  "length (assignment_stream a) < 2 ^ 32 \<Longrightarrow> read_assignment (assignment_stream a @ r) = Some (a, r)"
  by (simp add: read_assignment_def assignment_stream_def)

lemma read_assignments_stream:
  assumes "length (concat (map assignment_stream as)) < 2 ^ 32"
  shows "read_many read_assignment (length as) (concat (map assignment_stream as) @ r) = Some (as, r)"
    and "4 * length as \<le> length (concat (map assignment_stream as))" and "length as < 2 ^ 32"
proof -
  have "read_assignment (assignment_stream a @ q) = Some (a, q)" if "a \<in> set as" for a q
  proof -
    have "length (assignment_stream a) \<le> length (concat (map assignment_stream as))"
      using that by (induction as) auto
    then show ?thesis using assms by (intro read_assignment_stream) simp
  qed
  then show "read_many read_assignment (length as) (concat (map assignment_stream as) @ r) = Some (as, r)"
    by (rule read_many_stream)
  show four: "4 * length as \<le> length (concat (map assignment_stream as))"
    by (rule length_concat_ge) (simp add: assignment_stream_def)
  then show "length as < 2 ^ 32" using assms by simp
qed

lemma read_node_stream [simp]:
  assumes "length (node_stream n) < 2 ^ 32"
  shows "read_node (node_stream n @ r) = Some (n, r)"
proof -
  have short: "length (concat (map assignment_stream (tn_assignments n))) < 2 ^ 32"
    using assms by (simp add: node_stream_eq)
  note many = read_assignments_stream [OF short]
  have four: "4 * length (tn_assignments n) \<le> length (concat (map assignment_stream (tn_assignments n)) @ q)" for q
    using many(2) by simp
  have name: "length (node_type_to_string (tn_type n)) < 2 ^ 32"
    by (cases "tn_type n") (simp_all add: node_type_to_string_def)
  note count = read_count_field [OF many(3) four]
  have n32: "unat (of_nat (length (tn_assignments n)) :: u32) = length (tn_assignments n)"
    using many(3) by (simp add: unat_of_nat)
  show ?thesis
    using assms name unfolding node_stream_eq read_node_def
    by (simp add: count n32 many(1))
qed

lemma add_delta_stream: "add_delta enc d = enc @ add_delta [] d"
  by (simp add: add_delta_def add_fields add_tree_node_stream Let_def)

lemma read_delta_stream [simp]:
  assumes "length (add_delta [] d) < 2 ^ 32"
  shows "read_delta (add_delta [] d @ r) = Some (d, r)"
  using assms by (simp add: read_delta_def add_delta_def add_fields add_tree_node_stream Let_def)

lemma add_join_stream: "add_join enc j = enc @ add_join [] j"
  by (simp add: add_join_def add_fields Let_def)

lemma read_join_stream [simp]:
  assumes "length (add_join [] j) < 2 ^ 32"
  shows "read_join (add_join [] j @ r) = Some (j, r)"
  using assms by (simp add: read_join_def add_join_def add_fields Let_def)

text \<open>What an operation carries of an invite grant: not its code binding.\<close>

definition carried_event :: "link_token_event \<Rightarrow> link_token_event" where
  "carried_event e = (without_code e)\<lparr>lt_kind := event_kind_of (event_kind_code (lt_kind e))\<rparr>"

lemma event_kind_roundtrip [simp]: "event_kind_code (event_kind_of b) = b"
  by (simp add: event_kind_of_def event_kind_code_def)

lemma ucast_byte_u16: "ucast (ucast (b :: byte) :: u16) = b" "\<not> 0xFF < (ucast b :: u16)"
proof -
  have "uint (ucast b :: u16) = uint b" by (rule uint_up_ucast) (simp add: is_up)
  moreover have "uint b < 256" using uint_lt2p [of b] by simp
  ultimately show "\<not> 0xFF < (ucast b :: u16)" by (simp add: word_less_def)
  show "ucast (ucast (b :: byte) :: u16) = b" by (rule bit_word_eqI) (simp add: bit_simps)
qed

lemma add_link_event_stream: "add_link_event enc e = enc @ add_link_event [] e"
  by (simp add: add_link_event_def add_fields add_strings_stream Let_def)

lemma add_carried_event [simp]: "add_link_event enc (carried_event e) = add_link_event enc e"
  by (simp add: add_link_event_def carried_event_def without_code_def Let_def)

lemma read_link_event_stream [simp]:
  assumes "length (add_link_event [] e) < 2 ^ 32"
  shows "read_link_event (add_link_event [] e @ r) = Some (carried_event e, r)"
  using assms
  by (simp add: read_link_event_def add_link_event_def add_fields add_strings_stream Let_def ucast_byte_u16
      carried_event_def without_code_def)

section \<open>What an operation carries\<close>

definition carried_content :: "tree_op_kind \<Rightarrow> tree_op_body \<Rightarrow> tree_op_body" where
  "carried_content kind b =
     (let base = default_body\<lparr>tb_source := tb_source b\<rparr>
      in case tb_source b of
           Delta \<Rightarrow> base\<lparr>tb_delta := tb_delta b\<rparr>
         | Device \<Rightarrow> base\<lparr>tb_join := tb_join b\<rparr>
         | Session \<Rightarrow>
             if kind = CreateNode \<or> kind = UpdateFields then base\<lparr>tb_node := tb_node b\<rparr>
             else if kind = SetAssignment
               then base\<lparr>tb_assignment_principal := tb_assignment_principal b,
                         tb_assignment_permissions := tb_assignment_permissions b\<rparr>
             else if kind = SetEndpoint then base\<lparr>tb_listen_endpoint := tb_listen_endpoint b\<rparr>
             else if kind = AcceptInvite
               then base\<lparr>tb_inviter := tb_inviter b, tb_invite_permissions := tb_invite_permissions b\<rparr>
             else if kind = MoveNode then base\<lparr>tb_new_parent_id := tb_new_parent_id b\<rparr>
             else base
         | OtherSource v \<Rightarrow> base)"

definition carried_body :: "tree_op_kind \<Rightarrow> tree_op_body \<Rightarrow> tree_op_body" where
  "carried_body kind b =
     (if tb_link_extension b
      then (carried_content kind b)\<lparr>tb_link_extension := True,
             tb_invite_grant := map_option carried_event (tb_invite_grant b)\<rparr>
      else carried_content kind b)"

definition carried_op :: "library \<Rightarrow> sig \<Rightarrow> tree_op \<Rightarrow> tree_op" where
  "carried_op lb signature op =
     op\<lparr>op_body := carried_body (op_kind op) (op_body op), op_id := compute_op_id lb op,
        op_signature := to_base64 (lb_codec lb) (be_bytes 64 signature), op_submitted_by := []\<rparr>"

definition well_formed_op :: "tree_op \<Rightarrow> bool" where
  "well_formed_op op \<longleftrightarrow>
     op_kind_known (op_kind op) \<and> source_allowed (op_kind op) (tb_source (op_body op)) \<and>
     (tb_link_extension (op_body op) \<longrightarrow> link_extension_allowed op) \<and>
     length (encode_tree_op op) \<le> kMaxTreeOpEncodedBytes"

lemma add_op_body_stream: "add_op_body enc op = enc @ add_op_body [] op"
  unfolding add_op_body_def
  by (cases "tb_source (op_body op)")
    (simp_all add: add_strings_stream add_tree_node_stream add_fields add_delta_stream [of enc] add_join_stream [of enc])

lemma add_extension_stream: "add_extension enc b = enc @ add_extension [] b"
proof (cases "tb_invite_grant b")
  case (Some e)
  have "add_link_event (enc @ s) e = enc @ add_link_event s e" for s
    by (metis add_link_event_stream append.assoc)
  with Some show ?thesis by (simp add: add_extension_def add_fields Let_def)
qed (simp add: add_extension_def add_fields Let_def)

lemma op_stream_eq:
  "encode_tree_op op =
     text_field kTreeOpDomain @ field (le_bytes 4 (op_version op)) @ field (be_bytes 32 (op_network_id op)) @
     field (le_bytes 2 (op_kind_code (op_kind op))) @ text_field (op_target op) @
     field (le_bytes 8 (op_base_version op)) @ field (le_bytes 8 (op_signed_at op)) @
     field (be_bytes 16 (op_nonce op)) @ text_field (op_principal op) @ text_field (op_author op) @
     field (le_bytes 2 (op_source_code (tb_source (op_body op)))) @
     add_op_body [] op @ add_extension [] (op_body op)"
  unfolding encode_tree_op_def op_encoder_def Let_def
  by (subst add_extension_stream, subst add_op_body_stream) (simp add: add_fields)

lemma op_kind_roundtrip [simp]: "op_kind_known kind \<Longrightarrow> op_kind_of (op_kind_code kind) = kind"
  by (cases kind) (simp_all add: op_kind_known_def op_kind_of_def op_kind_code_def)

lemma op_source_roundtrip [simp]:
  "source_allowed kind source \<Longrightarrow> op_source_of (op_source_code source) = source"
  by (cases source; cases kind) (simp_all add: source_allowed_def op_source_of_def op_source_code_def)

lemma read_op_body_stream:
  assumes "length (add_op_body [] op) < 2 ^ 32"
  shows "read_op_body (op_kind op) (tb_source (op_body op)) (add_op_body [] op @ r) =
    Some (carried_content (op_kind op) (op_body op), r)"
  using assms
  by (cases "tb_source (op_body op)")
    (auto simp: read_op_body_def add_op_body_def carried_content_def Let_def add_strings_stream add_fields
      add_tree_node_stream)

lemma read_extension_stream:
  assumes "length (add_extension [] b) < 2 ^ 32" and "tb_link_extension b"
  shows "read_extension body (add_extension [] b) =
    Some (body\<lparr>tb_link_extension := True, tb_invite_grant :=
      (if tb_invite_grant b = None then tb_invite_grant body else map_option carried_event (tb_invite_grant b))\<rparr>, [])"
proof -
  let ?flag = "field (le_bytes 2 ((if tb_invite_grant b \<noteq> None then 1 else 0) :: u16))"
  have tag: "length kTreeOpLinkExtensionTag < 2 ^ 32" by (simp add: kTreeOpLinkExtensionTag_def)
  show ?thesis
  proof (cases "tb_invite_grant b")
    case None
    have "add_extension [] b = text_field kTreeOpLinkExtensionTag @ ?flag @ []"
      using assms(2) None by (simp add: add_extension_def add_fields)
    then show ?thesis using None tag by (simp only: read_extension_def) (simp del: append_Nil2 if_False if_True)
  next
    case (Some e)
    have "add_extension [] b = text_field kTreeOpLinkExtensionTag @ ?flag @ add_link_event [] e @ []"
      using assms(2) Some
      by (simp add: add_extension_def add_fields) (subst add_link_event_stream, simp)
    then show ?thesis using Some tag assms(1)
      by (simp only: read_extension_def) (simp del: append_Nil2 if_False if_True)
  qed
qed

lemma carried_body_fields [simp]:
  "tb_source (carried_body kind b) = tb_source b"
  "tb_link_extension (carried_body kind b) = tb_link_extension b"
  "tb_invite_grant (carried_body kind b) = (if tb_link_extension b then map_option carried_event (tb_invite_grant b) else None)"
  by (auto simp: carried_body_def carried_content_def default_body_def Let_def split: tree_op_source.split)

lemma encode_carried_op: "encode_tree_op (op\<lparr>op_body := carried_body (op_kind op) (op_body op), op_id := i,
    op_signature := sg, op_submitted_by := sb\<rparr>) = encode_tree_op op"
proof -
  have "add_op_body [] (op\<lparr>op_body := carried_body (op_kind op) (op_body op), op_id := i,
      op_signature := sg, op_submitted_by := sb\<rparr>) = add_op_body [] op"
    by (auto simp: add_op_body_def carried_body_def carried_content_def Let_def split: tree_op_source.split)
  moreover have "add_extension [] (carried_body (op_kind op) (op_body op)) = add_extension [] (op_body op)"
    by (cases "tb_invite_grant (op_body op)") (simp_all add: add_extension_def Let_def)
  ultimately show ?thesis by (simp add: op_stream_eq)
qed

lemma extension_nonempty: "add_extension [] b \<noteq> [] \<longleftrightarrow> tb_link_extension b"
proof -
  have "add_link_event enc e = [] \<Longrightarrow> enc = []" for enc e by (subst (asm) add_link_event_stream) simp
  moreover have "length (add_bool (add_string [] kTreeOpLinkExtensionTag) v) > 0" for v by (simp add: add_fields)
  ultimately have "tb_link_extension b \<Longrightarrow> add_extension [] b \<noteq> []"
    by (fastforce simp: add_extension_def Let_def split: option.splits)
  then show ?thesis by (auto simp: add_extension_def)
qed

lemma read_tree_op_stream:
  assumes "well_formed_op op"
  shows "read_tree_op (encode_tree_op op) =
    Some (op\<lparr>op_body := carried_body (op_kind op) (op_body op), op_id := 0, op_signature := [], op_submitted_by := []\<rparr>, [])"
proof -
  from assms have ok: "op_kind_known (op_kind op)" "source_allowed (op_kind op) (tb_source (op_body op))"
    and allowed: "tb_link_extension (op_body op) \<longrightarrow> link_extension_allowed op"
    and size: "length (encode_tree_op op) < 2 ^ 32"
    by (simp_all add: well_formed_op_def kMaxTreeOpEncodedBytes_def)
  let ?op = "\<lparr>op_version = op_version op, op_network_id = op_network_id op, op_kind = op_kind op,
    op_target = op_target op, op_base_version = op_base_version op, op_signed_at = op_signed_at op,
    op_nonce = op_nonce op, op_principal = op_principal op,
    op_body = default_body\<lparr>tb_source := tb_source (op_body op)\<rparr>, op_author = op_author op,
    op_id = 0, op_signature = [], op_submitted_by = []\<rparr>"
  have domain: "length kTreeOpDomain < 2 ^ 32" by (simp add: kTreeOpDomain_def)
  have same: "link_extension_allowed ?op = link_extension_allowed op" by (simp add: link_extension_allowed_def)
  have short: "length (op_target op) < 2 ^ 32" "length (op_principal op) < 2 ^ 32" "length (op_author op) < 2 ^ 32"
      "length (add_op_body [] op) < 2 ^ 32" "length (add_extension [] (op_body op)) < 2 ^ 32"
    using size unfolding op_stream_eq by simp_all
  have ext: "(if add_extension [] (op_body op) \<noteq> [] \<and> link_extension_allowed op
      then read_extension (carried_content (op_kind op) (op_body op)) (add_extension [] (op_body op))
      else Some (carried_content (op_kind op) (op_body op), add_extension [] (op_body op))) =
      Some (carried_body (op_kind op) (op_body op), [])"
  proof (cases "tb_link_extension (op_body op)")
    case True
    have "tb_invite_grant (carried_content (op_kind op) (op_body op)) = None"
      by (auto simp: carried_content_def default_body_def Let_def split: tree_op_source.split)
    then show ?thesis
      using True allowed read_extension_stream [OF short(5) True, of "carried_content (op_kind op) (op_body op)"]
      by (cases "tb_invite_grant (op_body op)") (simp_all add: extension_nonempty carried_body_def)
  next
    case False
    then show ?thesis using extension_nonempty [of "op_body op"] by (simp add: carried_body_def)
  qed
  show ?thesis
    unfolding op_stream_eq read_tree_op_def
    using ok domain short read_op_body_stream [OF short(4)] ext
    by (simp add: same Let_def)
qed

lemma decode_encode_op:
  "well_formed_op op \<Longrightarrow> decode_tree_op lb (encode_tree_op op) signature = Some (carried_op lb signature op)"
proof -
  assume "well_formed_op op"
  moreover have "compute_op_id lb (op\<lparr>op_body := carried_body (op_kind op) (op_body op), op_id := i,
      op_signature := sg, op_submitted_by := sb\<rparr>) = compute_op_id lb op" for i sg sb
    using encode_carried_op [where op = op and i = i and sg = sg and sb = sb] by (simp add: compute_op_id_def encode_tree_op_def)
  ultimately show ?thesis
    by (simp add: decode_tree_op_def read_tree_op_stream encode_carried_op carried_op_def well_formed_op_def)
qed

lemma encode_tree_node_inj:
  assumes "length (encode_tree_node m) < 2 ^ 32" and "length (encode_tree_node n) < 2 ^ 32"
    and "encode_tree_node m = encode_tree_node n"
  shows "m = n"
proof -
  have parts: "encode_tree_node k = text_field kTreeNodeDomain @ node_stream k" for k
    by (simp add: encode_tree_node_def add_tree_node_stream add_fields)
  with assms have "node_stream m = node_stream n" by simp
  then have "read_node (node_stream m @ []) = read_node (node_stream n @ [])" by simp
  then show ?thesis using assms(1,2) by (simp add: parts del: append_Nil2)
qed

lemma decode_encode_node:
  assumes "length (encode_tree_node n) < 2 ^ 32"
  shows "decode_tree_node (encode_tree_node n) = Some n"
proof -
  have "encode_tree_node n = text_field kTreeNodeDomain @ node_stream n @ []"
    by (simp add: encode_tree_node_def add_tree_node_stream add_fields)
  moreover have "length kTreeNodeDomain < 2 ^ 32" by (simp add: kTreeNodeDomain_def)
  ultimately show ?thesis using assms
    by (simp only: decode_tree_node_def) (simp del: append_Nil2)
qed

section \<open>The tree digest\<close>

definition tree_stream :: "node_map \<Rightarrow> byte list" where
  "tree_stream nodes =
     field_stream (string_bytes kTreeDigestDomain # le_bytes 8 (of_nat (length nodes) :: u64) #
       concat (map (\<lambda>(nid, n). [string_bytes nid, encode_tree_node n]) (sort_key fst nodes)))"

lemma compute_tree_digest_stream: "compute_tree_digest lb nodes = sha256 (lb_crypto lb) (tree_stream nodes)"
proof -
  have "foldl (\<lambda>enc (nid, node). add_bytes (add_string enc nid) (encode_tree_node node)) (field_stream fs) xs =
      field_stream (fs @ concat (map (\<lambda>(nid, n). [string_bytes nid, encode_tree_node n]) xs))"
    for fs and xs :: node_map
    by (induction xs arbitrary: fs) (auto simp only: foldl.simps encoder_fields case_prod_conv append.assoc
        append.simps list.map concat.simps append_Nil2)
  then show ?thesis
    by (simp only: compute_tree_digest_def tree_stream_def encoder_digest_def Let_def encoder_fields length_sort
        append.simps)
qed

lemma sort_key_map_eq:
  assumes "distinct (map fst m)" and "distinct (map fst m')" and "set m = set m'"
  shows "sort_key fst m = sort_key fst (m' :: ('a::linorder \<times> 'b) list)"
proof (rule map_sorted_distinct_set_unique [where f = fst])
  show "inj_on fst (set (sort_key fst m) \<union> set (sort_key fst m'))" using assms by (simp add: distinct_map)
  have sorted: "distinct (map fst (sort_key fst xs))" if "distinct (map fst xs)" for xs :: "('a \<times> 'b) list"
    using that by (simp add: distinct_map)
  show "distinct (map fst (sort_key fst m))" and "distinct (map fst (sort_key fst m'))"
    using assms(1,2) by (simp_all add: sorted)
qed (use assms(3) in simp_all)

definition tree_fits :: "node_map \<Rightarrow> bool" where
  "tree_fits nodes \<longleftrightarrow>
     length nodes < 2 ^ 64 \<and>
     (\<forall>(nid, n) \<in> set nodes. length nid < 2 ^ 32 \<and> length (encode_tree_node n) < 2 ^ 32)"

lemma tree_stream_cong:
  "distinct (map fst m) \<Longrightarrow> distinct (map fst m') \<Longrightarrow> set m = set m' \<Longrightarrow> tree_stream m = tree_stream m'"
  using sort_key_map_eq [of m m']
  by (simp add: tree_stream_def) (metis distinct_card distinct_map length_map)

lemma node_fields_inj:
  assumes "concat (map (\<lambda>(nid, n). [string_bytes nid, encode_tree_node n]) xs) =
      concat (map (\<lambda>(nid, n). [string_bytes nid, encode_tree_node n]) ys)"
    and "\<forall>(nid, n) \<in> set xs. length (encode_tree_node n) < 2 ^ 32"
    and "\<forall>(nid, n) \<in> set ys. length (encode_tree_node n) < 2 ^ 32"
  shows "xs = ys"
  using assms
proof (induction xs arbitrary: ys)
  case Nil
  then show ?case by (cases ys) auto
next
  case (Cons x xs)
  from Cons.prems(1) obtain y ys' where "ys = y # ys'" by (cases x; cases ys) auto
  with Cons show ?case by (cases x; cases y) (auto simp: string_bytes_inj intro: encode_tree_node_inj)
qed

lemma tree_stream_inj:
  assumes "tree_fits m" and "tree_fits m'" and "tree_stream m = tree_stream m'"
  shows "set m = set m'"
proof -
  have short: "short_fields (string_bytes kTreeDigestDomain # le_bytes 8 (of_nat (length k) :: u64) #
      concat (map (\<lambda>(nid, n). [string_bytes nid, encode_tree_node n]) (sort_key fst k)))" if "tree_fits k" for k
    using that by (auto simp: short_fields_def tree_fits_def kTreeDigestDomain_def)
  have "concat (map (\<lambda>(nid, n). [string_bytes nid, encode_tree_node n]) (sort_key fst m)) =
      concat (map (\<lambda>(nid, n). [string_bytes nid, encode_tree_node n]) (sort_key fst m'))"
    using field_stream_inj [OF short [OF assms(1)] short [OF assms(2)]] assms(3) by (simp add: tree_stream_def)
  then have "sort_key fst m = sort_key fst m'"
    by (rule node_fields_inj) (use assms(1,2) in \<open>auto simp: tree_fits_def\<close>)
  then show ?thesis by (metis set_sort)
qed

section \<open>Properties\<close>

text \<open>C25. Tree operations survive the wire: reading back the encoding of an operation of an allowed kind and
  source within the size limit gives that operation, without the body fields its kind does not use, with the
  id recomputed and the signature attached; and two such operations with the same id carry the same fields,
  as long as SHA-256 does not collide on their encodings.\<close>

theorem tree_op_wire_roundtrip:
  assumes "well_formed_op op" and "well_formed_op op'"
    and "collision_free (lb_crypto lb) {encode_tree_op op, encode_tree_op op'}"
  shows "decode_tree_op lb (encode_tree_op op) signature = Some (carried_op lb signature op) \<and>
    encode_tree_op (carried_op lb signature op) = encode_tree_op op \<and>
    (compute_op_id lb op = compute_op_id lb op' \<longleftrightarrow> carried_op lb signature op = carried_op lb signature op')"
proof (intro conjI iffI)
  show decode: "decode_tree_op lb (encode_tree_op op) signature = Some (carried_op lb signature op)"
    by (rule decode_encode_op [OF assms(1)])
  show "encode_tree_op (carried_op lb signature op) = encode_tree_op op"
    by (simp add: carried_op_def encode_carried_op)
  show "carried_op lb signature op = carried_op lb signature op'" if "compute_op_id lb op = compute_op_id lb op'"
  proof -
    from that have "sha256 (lb_crypto lb) (encode_tree_op op) = sha256 (lb_crypto lb) (encode_tree_op op')"
      by (simp add: compute_op_id_def encoder_digest_def encode_tree_op_def)
    then have "encode_tree_op op = encode_tree_op op'" by (rule collision_freeD [OF assms(3)]) simp_all
    then show ?thesis using decode decode_encode_op [OF assms(2), of lb signature] by simp
  qed
  show "compute_op_id lb op = compute_op_id lb op'" if "carried_op lb signature op = carried_op lb signature op'"
    using arg_cong [OF that, of op_id] by (simp add: carried_op_def)
qed

end
