(* ===== verification/Tree_Ops.thy ===== *)
theory Tree_Ops
  imports Tree_Encoding
begin

text \<open>
  \<^verbatim>\<open>Tree/TreeOps.cpp\<close>: the validation and the planning of a signed tree operation. \<open>validate_op\<close> is the
  sequence of checks of the code, each a definition that names the refusal of its step; \<open>plan_op\<close> collects
  the writes of one operation in a copy-on-write overlay, and \<open>apply_effect\<close> puts them into the node map.
\<close>

section \<open>Verdicts, policy and committed ids\<close>

datatype tree_op_refusal =
    Malformed | WrongNetwork | Oversize | BadOpId | UntrustedSubmitter | BadSignature | BadStatement | StaleOp
  | Replayed | OpNotFound | AlreadyExists | StaleBaseVersion | OpForbidden | OpInvalid | ContentRefused
  | OpConflict | StorageError | Unavailable

text \<open>\<^const>\<open>None\<close> is an accepting verdict.\<close>

type_synonym verdict = "(tree_op_refusal \<times> string) option"

definition refuse :: "tree_op_refusal \<Rightarrow> string \<Rightarrow> verdict" where
  "refuse refusal reason = Some (refusal, reason)"

text \<open>One check after another: the first refusal counts.\<close>

definition and_then :: "verdict \<Rightarrow> verdict \<Rightarrow> verdict" where
  "and_then v w = (case v of None \<Rightarrow> w | Some r \<Rightarrow> Some r)"

definition unless :: "bool \<Rightarrow> tree_op_refusal \<Rightarrow> string \<Rightarrow> verdict" where
  "unless ok refusal reason = (if ok then None else refuse refusal reason)"

record tree_op_policy =
  tp_network_id :: digest
  tp_trusted_submitters :: "string list"
  tp_root_key :: string

record tree_state =
  ts_nodes :: node_map
  ts_policy :: tree_op_policy

definition find_node :: "tree_state \<Rightarrow> string \<Rightarrow> tree_node option" where
  "find_node state nid = map_of (ts_nodes state) nid"

type_synonym committed_op_ids = "(string, u64) smap"

definition committed_contains :: "committed_op_ids \<Rightarrow> string \<Rightarrow> bool" where
  "committed_contains committed i \<longleftrightarrow> map_of committed i \<noteq> None"

definition committed_insert :: "string \<Rightarrow> u64 \<Rightarrow> committed_op_ids \<Rightarrow> committed_op_ids" where
  "committed_insert i signed_at committed = smap_put i signed_at committed"

definition prune_signed_before :: "u64 \<Rightarrow> committed_op_ids \<Rightarrow> committed_op_ids" where
  "prune_signed_before cutoff committed = filter (\<lambda>(i, t). \<not> t < cutoff) committed"

definition kCommittedIdMarginSec :: u64 where "kCommittedIdMarginSec = 600"

definition committed_id_cutoff :: "u64 \<Rightarrow> u64" where
  "committed_id_cutoff block_time_sec =
     (let window = kTreeOpMaxAgeSec + kCommittedIdMarginSec
      in if block_time_sec > window then block_time_sec - window else 0)"

section \<open>Keys and signatures\<close>

text \<open>A listen endpoint: \<^verbatim>\<open>rfind\<close> splits at the last colon.\<close>

definition ascii_digit :: "char \<Rightarrow> bool" where
  "ascii_digit c \<longleftrightarrow> char_between (CHR ''0'') (CHR ''9'') c"

definition endpoint_char :: "char \<Rightarrow> bool" where
  "endpoint_char c \<longleftrightarrow> ascii_alnum c \<or> c \<in> {CHR ''.'', CHR ''-'', CHR '':'', CHR ''['', CHR '']''}"

definition endpoint_text_valid :: "string \<Rightarrow> bool" where
  "endpoint_text_valid endpoint =
     (if endpoint = [] then True
      else if length endpoint > 253 + 6 then False
      else if CHR '':'' \<notin> set endpoint then False
      else let digits = rev (takeWhile (\<lambda>c. c \<noteq> CHR '':'') (rev endpoint));
               colon = length endpoint - length digits - 1
           in if colon = 0 \<or> colon + 1 \<ge> length endpoint then False
              else if \<not> list_all endpoint_char endpoint then False
              else if length digits > 5 then False
              else list_all ascii_digit digits \<and> 1 \<le> undecimal digits \<and> undecimal digits \<le> 65535)"

definition decode_b64 :: "library \<Rightarrow> string \<Rightarrow> byte list option" where
  "decode_b64 lb s = from_base64 (lb_codec lb) s"

definition parse_ed25519_key :: "library \<Rightarrow> string \<Rightarrow> pubkey option" where
  "parse_ed25519_key lb key =
     (if \<not> starts_with key kEd25519Prefix then None
      else case decode_b64 lb (drop (length kEd25519Prefix) key) of
             None \<Rightarrow> None
           | Some bs \<Rightarrow> if length bs \<noteq> 32 then None else Some (of_be_bytes bs))"

definition parse_signature :: "library \<Rightarrow> string \<Rightarrow> sig option" where
  "parse_signature lb sig_b64 =
     (case decode_b64 lb sig_b64 of
        None \<Rightarrow> None
      | Some bs \<Rightarrow> if length bs \<noteq> 64 then None else Some (of_be_bytes bs))"

definition tree_op_signature_bytes :: "library \<Rightarrow> tree_op \<Rightarrow> sig option" where
  "tree_op_signature_bytes lb op = parse_signature lb (op_signature op)"

definition signing_message :: "digest \<Rightarrow> byte list" where
  "signing_message i = add_digest (canonical_encoder kTreeOpSignatureDomain) i"

definition delta_signature_valid :: "library \<Rightarrow> tree_delta \<Rightarrow> bool" where
  "delta_signature_valid lb delta =
     (case (parse_ed25519_key lb (td_signer_pubkey delta), parse_signature lb (td_signature delta)) of
        (Some pk, Some sg) \<Rightarrow> ed25519_verify lb pk (string_bytes (canonical_delta_json (lb_codec lb) delta)) sg
      | _ \<Rightarrow> False)"

definition redemption_id_hex :: "library \<Rightarrow> tree_op \<Rightarrow> string option" where
  "redemption_id_hex lb op =
     (case tb_invite_grant (op_body op) of
        None \<Rightarrow> None
      | Some grant \<Rightarrow> Some (hex_digest lb (encoder_digest (lb_crypto lb)
          (add_string (canonical_encoder kTreeOpRedemptionDomain) (lt_token_hash grant)))))"

definition statement_id_hex :: "library \<Rightarrow> tree_op \<Rightarrow> string option" where
  "statement_id_hex lb op =
     (let enc = canonical_encoder kTreeOpStatementDomain;
          done = (\<lambda>enc. Some (hex_digest lb (encoder_digest (lb_crypto lb) enc)))
      in case tb_source (op_body op) of
           Session \<Rightarrow> None
         | Delta \<Rightarrow> done (add_string (add_string enc ''delta'')
             (canonical_delta_json (lb_codec lb) (tb_delta (op_body op))))
         | Device \<Rightarrow>
             let js = tb_join (op_body op);
                 enc = add_string enc ''join'';
                 enc = (case parse_ed25519_key lb (js_device_pubkey js) of
                          Some key \<Rightarrow> add_digest enc key | None \<Rightarrow> add_string enc (js_device_pubkey js));
                 enc = (case decode_b64 lb (js_challenge js) of
                          Some challenge \<Rightarrow> add_bytes enc challenge | None \<Rightarrow> add_string enc (js_challenge js))
             in done enc
         | OtherSource v \<Rightarrow> done enc)"

definition record_committed :: "library \<Rightarrow> tree_op \<Rightarrow> committed_op_ids \<Rightarrow> committed_op_ids" where
  "record_committed lb op committed =
     (let committed = committed_insert (op_id_hex lb op) (op_signed_at op) committed;
          committed = (case statement_id_hex lb op of
                         Some i \<Rightarrow> committed_insert i (op_signed_at op) committed | None \<Rightarrow> committed)
      in case (redemption_id_hex lb op, tb_invite_grant (op_body op)) of
           (Some i, Some grant) \<Rightarrow> committed_insert i (lt_expires_at grant) committed
         | _ \<Rightarrow> committed)"

definition sign_tree_op :: "library \<Rightarrow> pubkey \<Rightarrow> byte list \<Rightarrow> tree_op \<Rightarrow> tree_op" where
  "sign_tree_op lb public_key private_key op =
     (let op = op\<lparr>op_author := kEd25519Prefix @ to_base64 (lb_codec lb) (be_bytes 32 public_key)\<rparr>;
          op = op\<lparr>op_id := compute_op_id lb op\<rparr>;
          sg = ed25519_sign lb private_key (signing_message (op_id op))
      in op\<lparr>op_signature := to_base64 (lb_codec lb) (be_bytes 64 sg)\<rparr>)"

definition derive_join_node_id :: "library \<Rightarrow> string \<Rightarrow> string" where
  "derive_join_node_id lb device_pubkey =
     (case parse_ed25519_key lb device_pubkey of
        None \<Rightarrow> []
      | Some key \<Rightarrow> take 32 (hex_digest lb (sha256 (lb_crypto lb) (be_bytes 32 key))))"

definition is_own_device_removal :: "library \<Rightarrow> tree_op \<Rightarrow> bool" where
  "is_own_device_removal lb op \<longleftrightarrow>
     op_kind op = DeleteNode \<and> tb_source (op_body op) \<noteq> Delta \<and> op_target op \<noteq> [] \<and>
     op_target op = derive_join_node_id lb (op_principal op)"

section \<open>Tunnel addresses\<close>

definition kTunnelBase :: u32 where "kTunnelBase = push_bit 24 10 OR push_bit 16 64"
definition kTunnelMask :: u32 where "kTunnelMask = 0xFFC00000"
definition kTreeTunnelFirstOffset :: nat where "kTreeTunnelFirstOffset = 2 ^ 16"
definition kTreeTunnelLastOffset :: nat where "kTreeTunnelLastOffset = 2 ^ 22 - 2"

text \<open>\<^verbatim>\<open>std::from_chars\<close> on one octet: the longest run of digits, at most three of them, at most 255.\<close>

definition read_octet :: "string \<Rightarrow> (u32 \<times> string) option" where
  "read_octet s =
     (let digits = takeWhile ascii_digit s
      in if digits = [] \<or> length digits > 3 \<or> undecimal digits > 255 then None
         else Some (of_nat (undecimal digits), drop (length digits) s))"

fun read_octets :: "nat \<Rightarrow> u32 \<Rightarrow> string \<Rightarrow> (u32 \<times> string) option" where
  "read_octets 0 v s = Some (v, s)"
| "read_octets (Suc n) v s =
     (case s of
        [] \<Rightarrow> None
      | c # s \<Rightarrow> if c \<noteq> CHR ''.'' then None
          else case read_octet s of
                 None \<Rightarrow> None
               | Some (part, s) \<Rightarrow> read_octets n (push_bit 8 v OR part) s)"

definition tunnel_offset :: "string \<Rightarrow> u32 option" where
  "tunnel_offset cidr =
     (if \<not> ends_with cidr ''/32'' then None
      else let addr = take (length cidr - 3) cidr
           in case read_octet addr of
                None \<Rightarrow> None
              | Some (part, s) \<Rightarrow>
                  (case read_octets 3 part s of
                     None \<Rightarrow> None
                   | Some (v, s) \<Rightarrow> if s \<noteq> [] \<or> v AND kTunnelMask \<noteq> kTunnelBase then None else Some (v - kTunnelBase)))"

definition tunnel_address_text :: "u32 \<Rightarrow> string" where
  "tunnel_address_text offset =
     (let v = kTunnelBase + offset
      in decimal (unat (drop_bit 24 v)) @ ''.'' @ decimal (unat (drop_bit 16 v AND 0xFF)) @ ''.'' @
         decimal (unat (drop_bit 8 v AND 0xFF)) @ ''.'' @ decimal (unat (v AND 0xFF)) @ ''/32'')"

definition tunnel_span :: nat where
  "tunnel_span = kTreeTunnelLastOffset - kTreeTunnelFirstOffset + 1"

function probe :: "u32 set \<Rightarrow> nat \<Rightarrow> nat \<Rightarrow> string" where
  "probe used start step =
     (if step < tunnel_span
      then let offset = of_nat (kTreeTunnelFirstOffset + (start + step) mod tunnel_span)
           in if offset \<notin> used then tunnel_address_text offset else probe used start (Suc step)
      else [])"
  by pat_completeness auto
termination by (relation "measure (\<lambda>(used, start, step). tunnel_span - step)") auto

declare probe.simps [simp del]

definition first_free_tunnel_address :: "crypto \<Rightarrow> u32 set \<Rightarrow> string \<Rightarrow> string" where
  "first_free_tunnel_address cr used nid =
     (let d = encoder_digest cr (add_string (canonical_encoder kTreeTunnelDomain) nid);
          seed = (of_be_bytes (rev (take 8 (be_bytes 32 d))) :: u64)
      in probe used (unat seed mod tunnel_span) 0)"

definition used_offsets :: "tree_node list \<Rightarrow> u32 set" where
  "used_offsets ns = set (List.map_filter (\<lambda>n. tunnel_offset (tn_tunnel_ip n)) ns)"

definition derive_tunnel_address :: "crypto \<Rightarrow> node_map \<Rightarrow> string \<Rightarrow> string" where
  "derive_tunnel_address cr nodes nid = first_free_tunnel_address cr (used_offsets (map snd nodes)) nid"

section \<open>The overlay\<close>

record overlay =
  ov_base :: node_map
  ov_changes :: "(string, tree_node option) smap"

definition overlay_find :: "overlay \<Rightarrow> string \<Rightarrow> tree_node option" where
  "overlay_find ov nid = (case map_of (ov_changes ov) nid of Some n \<Rightarrow> n | None \<Rightarrow> map_of (ov_base ov) nid)"

text \<open>Only called where the node is found; the change is applied to the writable copy.\<close>

definition overlay_edit :: "string \<Rightarrow> (tree_node \<Rightarrow> tree_node) \<Rightarrow> overlay \<Rightarrow> overlay" where
  "overlay_edit nid f ov =
     (case overlay_find ov nid of
        None \<Rightarrow> ov
      | Some n \<Rightarrow> ov\<lparr>ov_changes := smap_put nid (Some (f n)) (ov_changes ov)\<rparr>)"

definition overlay_put :: "tree_node \<Rightarrow> overlay \<Rightarrow> overlay" where
  "overlay_put node ov = ov\<lparr>ov_changes := smap_put (tn_id node) (Some node) (ov_changes ov)\<rparr>"

definition overlay_erase :: "string \<Rightarrow> overlay \<Rightarrow> overlay" where
  "overlay_erase nid ov = ov\<lparr>ov_changes := smap_put nid None (ov_changes ov)\<rparr>"

definition overlay_nodes :: "overlay \<Rightarrow> tree_node list" where
  "overlay_nodes ov =
     List.map_filter snd (ov_changes ov) @
     map snd (filter (\<lambda>(nid, n). map_of (ov_changes ov) nid = None) (ov_base ov))"

definition overlay_mesh_taken :: "overlay \<Rightarrow> string \<Rightarrow> string \<Rightarrow> bool" where
  "overlay_mesh_taken ov mesh own_id =
     (if mesh = [] then False else list_ex (\<lambda>n. tn_id n \<noteq> own_id \<and> tn_mesh_pubkey n = mesh) (overlay_nodes ov))"

definition overlay_identifier_taken :: "overlay \<Rightarrow> string \<Rightarrow> string \<Rightarrow> bool" where
  "overlay_identifier_taken ov identifier own_id =
     (if identifier = [] then False
      else list_ex (\<lambda>n. tn_id n \<noteq> own_id \<and> tn_endpoint_identifier n = identifier) (overlay_nodes ov))"

definition overlay_device_name_refusal :: "overlay \<Rightarrow> string \<Rightarrow> string \<Rightarrow> string \<Rightarrow> string option" where
  "overlay_device_name_refusal ov parent hostname own_id =
     (let label = device_label hostname;
          conflict = foldl (\<lambda>conflict n.
            if device_label_collides n parent label own_id \<and>
               (case conflict of None \<Rightarrow> True | Some c \<Rightarrow> tn_id n < tn_id c) then Some n else conflict)
            None (overlay_nodes ov)
      in device_name_refusal hostname conflict)"

definition overlay_free_tunnel_address :: "crypto \<Rightarrow> overlay \<Rightarrow> string \<Rightarrow> string" where
  "overlay_free_tunnel_address cr ov nid = first_free_tunnel_address cr (used_offsets (overlay_nodes ov)) nid"

definition overlay_child_ids :: "overlay \<Rightarrow> string \<Rightarrow> string list" where
  "overlay_child_ids ov parent = sort (map tn_id (filter (\<lambda>n. tn_parent_id n = parent) (overlay_nodes ov)))"

record tree_op_effect =
  ef_writes :: "tree_node list"
  ef_removals :: "string list"

definition written :: "node_map \<Rightarrow> string \<times> tree_node option \<Rightarrow> tree_node option" where
  "written base change =
     (case change of (nid, node) \<Rightarrow>
        map_option (\<lambda>n. n\<lparr>tn_id := nid,
          tn_version := (case map_of base nid of None \<Rightarrow> 0 | Some b \<Rightarrow> tn_version b) + 1\<rparr>) node)"

definition overlay_effect :: "overlay \<Rightarrow> tree_op_effect" where
  "overlay_effect ov =
     \<lparr>ef_writes = List.map_filter (written (ov_base ov)) (ov_changes ov),
      ef_removals = map fst (filter (\<lambda>(nid, node). node = None \<and> map_of (ov_base ov) nid \<noteq> None) (ov_changes ov))\<rparr>"

section \<open>Plans\<close>

text \<open>A plan is the refusal of its operation or the overlay with its changes.\<close>

type_synonym plan = "(tree_op_refusal \<times> string) + overlay"

definition grant_once :: "assignment \<Rightarrow> tree_node \<Rightarrow> tree_node" where
  "grant_once grant node =
     (if list_ex (\<lambda>a. as_management_pubkey a = as_management_pubkey grant) (tn_assignments node) then node
      else node\<lparr>tn_assignments := tn_assignments node @ [grant]\<rparr>)"

definition owner_permissions :: "string list" where
  "owner_permissions = [''read'', ''write'', ''add_child'', ''delete_node'', ''edit_node'']"

definition join_group :: "tree_op \<Rightarrow> tree_node" where
  "join_group op =
     (let js = tb_join (op_body op); nid = op_target op
      in default_node\<lparr>tn_id := ''customer-'' @ nid, tn_parent_id := ''root'', tn_type := Customer,
           tn_hostname := (if js_hostname_present js then js_hostname js else ''group-'' @ take 8 nid),
           tn_mgmt_pubkey := js_device_pubkey js,
           tn_assignments := [\<lparr>as_management_pubkey = js_device_pubkey js,
                               as_permissions = owner_permissions @ [''admin'']\<rparr>]\<rparr>)"

text \<open>Where the device goes: the group, and the overlay with a group that is made for it.\<close>

definition join_placement :: "tree_op \<Rightarrow> overlay \<Rightarrow> (tree_op_refusal \<times> string) + (string \<times> overlay)" where
  "join_placement op ov =
     (let js = tb_join (op_body op); nid = op_target op
      in case overlay_find ov nid of
           Some existing \<Rightarrow> Inr (tn_parent_id existing, ov)
         | None \<Rightarrow>
             if js_link_group_id js \<noteq> [] then
               (if overlay_find ov (js_link_group_id js) = None
                then Inl (OpConflict, ''link token group no longer exists'')
                else Inr (js_link_group_id js, ov))
             else Inr (''customer-'' @ nid,
                       if overlay_find ov (''customer-'' @ nid) = None then overlay_put (join_group op) ov else ov))"

definition lacks_admin :: "codec \<Rightarrow> string \<Rightarrow> assignment \<Rightarrow> bool" where
  "lacks_admin cd key a \<longleftrightarrow>
     canonical_principal cd (as_management_pubkey a) = canonical_principal cd key \<and> ''admin'' \<notin> set (as_permissions a)"

definition join_upgrade :: "codec \<Rightarrow> string \<Rightarrow> string \<Rightarrow> overlay \<Rightarrow> overlay" where
  "join_upgrade cd norm customer ov =
     (case overlay_find ov customer of
        None \<Rightarrow> ov
      | Some g \<Rightarrow>
          if tn_type g = Customer \<and>
             canonical_principal cd (tn_mgmt_pubkey g) = canonical_principal cd norm \<and>
             list_ex (lacks_admin cd norm) (tn_assignments g)
          then overlay_edit customer (\<lambda>n. n\<lparr>tn_assignments :=
                 map (\<lambda>a. if lacks_admin cd norm a then a\<lparr>as_permissions := as_permissions a @ [''admin'']\<rparr> else a)
                   (tn_assignments n)\<rparr>) ov
          else ov)"

definition join_endpoint :: "crypto \<Rightarrow> tree_op \<Rightarrow> string \<Rightarrow> overlay \<Rightarrow> tree_node" where
  "join_endpoint cr op customer ov =
     (let js = tb_join (op_body op); nid = op_target op; norm = js_device_pubkey js
      in default_node\<lparr>tn_id := nid, tn_parent_id := customer, tn_type := Endpoint,
           tn_hostname := (if js_hostname_present js then js_hostname js else ''endpoint-'' @ take 8 nid),
           tn_mgmt_pubkey := norm,
           tn_assignments :=
             (if js_link_group_id js \<noteq> []
              then [\<lparr>as_management_pubkey = norm, as_permissions = [''read'', ''write'', ''edit_node'']\<rparr>,
                    \<lparr>as_management_pubkey = js_link_owner_pubkey js, as_permissions = owner_permissions\<rparr>]
              else [\<lparr>as_management_pubkey = norm, as_permissions = owner_permissions\<rparr>]),
           tn_mesh_pubkey := (if js_mesh_pubkey_present js then js_mesh_pubkey js else []),
           tn_endpoint_identifier := derive_endpoint_identifier cr nid (js_region js) (js_cpu_id js) (js_net_mac js)
             (js_is_inference js),
           tn_cpu_id := js_cpu_id js, tn_net_mac := js_net_mac js, tn_region := js_region js,
           tn_is_inference := js_is_inference js,
           tn_tunnel_ip := overlay_free_tunnel_address cr ov nid\<rparr>)"

definition peer_grant :: "string \<Rightarrow> assignment" where
  "peer_grant key = \<lparr>as_management_pubkey = key, as_permissions = [''read'', ''connect_private'']\<rparr>"

text \<open>One round of the loop over the siblings.\<close>

definition join_sibling :: "codec \<Rightarrow> bool \<Rightarrow> string \<Rightarrow> string \<Rightarrow> overlay \<Rightarrow> string \<Rightarrow> overlay" where
  "join_sibling cd extension nid norm ov sid =
     (if sid = nid then ov
      else case overlay_find ov sid of
             None \<Rightarrow> ov
           | Some sibling \<Rightarrow>
               if tn_type sibling \<noteq> Endpoint then ov
               else if extension then
                 (let ov = (if tn_mgmt_pubkey sibling \<noteq> []
                            then overlay_edit nid (grant_link_peer_access cd (tn_mgmt_pubkey sibling)) ov else ov)
                  in if link_peer_access_missing cd sibling norm
                     then overlay_edit sid (grant_link_peer_access cd norm) ov else ov)
               else
                 (let ov = (if tn_mgmt_pubkey sibling \<noteq> []
                            then overlay_edit nid (grant_once (peer_grant (tn_mgmt_pubkey sibling))) ov else ov)
                  in if \<not> list_ex (\<lambda>a. as_management_pubkey a = norm) (tn_assignments sibling)
                     then overlay_edit sid (grant_once (peer_grant norm)) ov else ov))"

definition join_group_read :: "string \<Rightarrow> string \<Rightarrow> overlay \<Rightarrow> overlay" where
  "join_group_read norm customer ov =
     (case overlay_find ov customer of
        None \<Rightarrow> ov
      | Some g \<Rightarrow>
          if \<not> list_ex (\<lambda>a. as_management_pubkey a = norm) (tn_assignments g)
          then overlay_edit customer (grant_once \<lparr>as_management_pubkey = norm, as_permissions = [''read'']\<rparr>) ov
          else ov)"

definition join_new :: "crypto \<Rightarrow> codec \<Rightarrow> tree_op \<Rightarrow> string \<Rightarrow> overlay \<Rightarrow> plan" where
  "join_new cr cd op customer ov =
     (let js = tb_join (op_body op); nid = op_target op; norm = js_device_pubkey js;
          endpoint = join_endpoint cr op customer ov
      in if tn_tunnel_ip endpoint = [] then Inl (OpConflict, ''tunnel address pool exhausted'')
         else if overlay_find ov customer = None \<or>
                 overlay_identifier_taken ov (tn_endpoint_identifier endpoint) nid \<or>
                 overlay_mesh_taken ov (tn_mesh_pubkey endpoint) nid
           then Inl (OpConflict, ''endpoint identifier conflict'')
         else case overlay_device_name_refusal ov customer (tn_hostname endpoint) nid of
                Some r \<Rightarrow> Inl (OpConflict, r)
              | None \<Rightarrow>
                  let ov = overlay_put endpoint ov
                  in Inr (if js_link_group_id js \<noteq> []
                          then join_group_read norm customer
                                 (foldl (join_sibling cd (tb_link_extension (op_body op)) nid norm) ov
                                    (overlay_child_ids ov customer))
                          else ov))"

definition join_returning :: "crypto \<Rightarrow> tree_op \<Rightarrow> tree_node \<Rightarrow> overlay \<Rightarrow> plan" where
  "join_returning cr op existing ov =
     (let js = tb_join (op_body op); nid = op_target op;
          new_ip = (if tn_tunnel_ip existing = [] then overlay_free_tunnel_address cr ov nid else tn_tunnel_ip existing)
      in if new_ip = [] then Inl (OpConflict, ''tunnel address pool exhausted'')
         else let mesh = (if js_mesh_pubkey_present js then js_mesh_pubkey js else tn_mesh_pubkey existing);
                  new_mesh = (if overlay_mesh_taken ov mesh nid then tn_mesh_pubkey existing else mesh)
              in Inr (if tn_tunnel_ip existing \<noteq> new_ip \<or> tn_mesh_pubkey existing \<noteq> new_mesh
                      then overlay_edit nid (\<lambda>n. n\<lparr>tn_tunnel_ip := new_ip, tn_mesh_pubkey := new_mesh\<rparr>) ov
                      else ov))"

definition plan_join :: "crypto \<Rightarrow> codec \<Rightarrow> tree_op \<Rightarrow> overlay \<Rightarrow> plan" where
  "plan_join cr cd op ov =
     (if overlay_find ov ''root'' = None then Inl (OpNotFound, ''application root not established'')
      else case join_placement op ov of
             Inl r \<Rightarrow> Inl r
           | Inr (customer, placed) \<Rightarrow>
               let upgraded = join_upgrade cd (js_device_pubkey (tb_join (op_body op))) customer placed
               in case overlay_find ov (op_target op) of
                    None \<Rightarrow> join_new cr cd op customer upgraded
                  | Some existing \<Rightarrow> join_returning cr op existing upgraded)"

text \<open>The entries of a key leave one node of the scope.\<close>

definition drop_entries :: "(assignment \<Rightarrow> bool) \<Rightarrow> tree_node \<Rightarrow> tree_node" where
  "drop_entries P n = n\<lparr>tn_assignments := filter (\<lambda>a. \<not> P a) (tn_assignments n)\<rparr>"

definition names_principal :: "codec \<Rightarrow> string \<Rightarrow> assignment \<Rightarrow> bool" where
  "names_principal cd key a \<longleftrightarrow> canonical_principal cd (as_management_pubkey a) = key"

definition sweep_moved :: "codec \<Rightarrow> string \<Rightarrow> string \<Rightarrow> overlay \<Rightarrow> string \<Rightarrow> overlay" where
  "sweep_moved cd nid key ov sid =
     (if sid = nid then ov
      else case overlay_find ov sid of
             None \<Rightarrow> ov
           | Some n \<Rightarrow>
               if list_ex (names_principal cd key) (tn_assignments n)
               then overlay_edit sid (drop_entries (names_principal cd key)) ov else ov)"

definition scope_ids :: "overlay \<Rightarrow> string \<Rightarrow> string list" where
  "scope_ids ov parent = sort (overlay_child_ids ov parent @ (if parent \<noteq> [] then [parent] else []))"

definition plan_move :: "codec \<Rightarrow> tree_op \<Rightarrow> overlay \<Rightarrow> plan" where
  "plan_move cd op ov =
     (let nid = op_target op; new_parent = tb_new_parent_id (op_body op)
      in case overlay_find ov nid of
           None \<Rightarrow> Inl (OpNotFound, ''node not found'')
         | Some moving \<Rightarrow>
             if overlay_find ov new_parent = None then Inl (OpNotFound, ''new parent not found'')
             else let key = canonical_principal cd (tn_mgmt_pubkey moving);
                      moved = overlay_edit nid (\<lambda>n. n\<lparr>tn_parent_id := new_parent, tn_signature := []\<rparr>) ov
                  in if tn_type moving \<noteq> Endpoint \<or> key = [] then Inr moved
                     else if list_ex (\<lambda>n. tn_id n \<noteq> nid \<and> canonical_principal cd (tn_mgmt_pubkey n) = key)
                               (overlay_nodes moved) then Inr moved
                     else Inr (foldl (sweep_moved cd nid key) moved (scope_ids moved (tn_parent_id moving))))"

definition sweep_account :: "codec \<Rightarrow> string list \<Rightarrow> overlay \<Rightarrow> string \<Rightarrow> overlay" where
  "sweep_account cd swept ov nid =
     (let is_swept = (\<lambda>a. canonical_principal cd (as_management_pubkey a) \<in> set swept)
      in case overlay_find ov nid of
           None \<Rightarrow> ov
         | Some n \<Rightarrow>
             if tn_type n = Root \<or> tn_parent_id n = [] then ov
             else if list_ex is_swept (tn_assignments n) then overlay_edit nid (drop_entries is_swept) ov else ov)"

definition plan_delete_account :: "codec \<Rightarrow> tree_op \<Rightarrow> node_map \<Rightarrow> overlay \<Rightarrow> overlay" where
  "plan_delete_account cd op nodes ov =
     (let scope = account_scope cd nodes (op_principal op);
          ov = foldl (\<lambda>ov nid. overlay_erase nid ov) ov (sc_removed scope)
      in if sc_swept_keys scope = [] then ov
         else foldl (sweep_account cd (sc_swept_keys scope)) ov (sorted_ids nodes))"

definition make_root_node :: "string \<Rightarrow> tree_node" where
  "make_root_node root_key =
     default_node\<lparr>tn_id := ''root'', tn_parent_id := [], tn_type := Root, tn_hostname := ''root'',
       tn_mgmt_pubkey := root_key,
       tn_assignments := [\<lparr>as_management_pubkey = root_key, as_permissions = owner_permissions @ [''admin'']\<rparr>]\<rparr>"

definition op_node :: "tree_op \<Rightarrow> tree_node" where
  "op_node op = (if tb_source (op_body op) = Delta then td_node_data (tb_delta (op_body op)) else tb_node (op_body op))"

definition plan_create :: "tree_op \<Rightarrow> overlay \<Rightarrow> plan" where
  "plan_create op ov =
     (let nid = op_target op; node = (op_node op)\<lparr>tn_id := nid\<rparr>
      in if overlay_find ov nid \<noteq> None then Inl (AlreadyExists, ''node already exists'')
         else if tn_parent_id node = [] \<or> overlay_find ov (tn_parent_id node) = None
           then Inl (OpNotFound, ''parent not found'')
         else if overlay_identifier_taken ov (tn_endpoint_identifier node) nid
           then Inl (OpConflict, ''endpoint identifier already bound to another node'')
         else if overlay_mesh_taken ov (tn_mesh_pubkey node) nid
           then Inl (OpConflict, ''mesh public key already bound to another node'')
         else case (if tn_type node = Endpoint
                    then overlay_device_name_refusal ov (tn_parent_id node) (tn_hostname node) nid else None) of
                Some r \<Rightarrow> Inl (OpConflict, r)
              | None \<Rightarrow> Inr (overlay_put node ov))"

definition plan_update :: "tree_op \<Rightarrow> overlay \<Rightarrow> plan" where
  "plan_update op ov =
     (let nid = op_target op
      in case overlay_find ov nid of
           None \<Rightarrow> Inl (OpNotFound, ''node not found'')
         | Some before \<Rightarrow>
             let node = (op_node op)\<lparr>tn_id := nid\<rparr>
             in if overlay_mesh_taken ov (tn_mesh_pubkey node) nid
                  then Inl (OpConflict, ''mesh public key already bound to another node'')
                else case (if tn_type before = Endpoint \<and>
                              device_label (tn_hostname node) \<noteq> device_label (tn_hostname before)
                           then overlay_device_name_refusal ov (tn_parent_id before) (tn_hostname node) nid
                           else None) of
                       Some r \<Rightarrow> Inl (OpConflict, r)
                     | None \<Rightarrow> Inr (overlay_put node ov))"

definition sweep_deleted :: "string \<Rightarrow> overlay \<Rightarrow> string \<Rightarrow> overlay" where
  "sweep_deleted key ov sid =
     (let names = (\<lambda>a. as_management_pubkey a = key)
      in case overlay_find ov sid of
           None \<Rightarrow> ov
         | Some n \<Rightarrow>
             if tn_mgmt_pubkey n = key then ov
             else if list_ex names (tn_assignments n) then overlay_edit sid (drop_entries names) ov else ov)"

definition plan_delete :: "tree_op \<Rightarrow> overlay \<Rightarrow> plan" where
  "plan_delete op ov =
     (let nid = op_target op
      in case overlay_find ov nid of
           None \<Rightarrow> Inl (OpNotFound, ''node not found'')
         | Some doomed \<Rightarrow>
             let ov = overlay_erase nid ov
             in Inr (if tn_mgmt_pubkey doomed \<noteq> []
                     then foldl (sweep_deleted (tn_mgmt_pubkey doomed)) ov (scope_ids ov (tn_parent_id doomed))
                     else ov))"

text \<open>The operations that change one existing node.\<close>

definition plan_edit :: "tree_op \<Rightarrow> (tree_node \<Rightarrow> tree_node) \<Rightarrow> overlay \<Rightarrow> plan" where
  "plan_edit op f ov =
     (if overlay_find ov (op_target op) = None then Inl (OpNotFound, ''node not found'')
      else Inr (overlay_edit (op_target op) f ov))"

definition plan_changes :: "library \<Rightarrow> tree_op \<Rightarrow> node_map \<Rightarrow> overlay \<Rightarrow> plan" where
  "plan_changes lb op nodes ov =
     (let cd = lb_codec lb; body = op_body op
      in case op_kind op of
           CreateNode \<Rightarrow> plan_create op ov
         | UpdateFields \<Rightarrow> plan_update op ov
         | SetAssignment \<Rightarrow>
             plan_edit op (\<lambda>n. n\<lparr>tn_assignments := replace_assignment cd (tb_assignment_principal body)
               (tb_assignment_permissions body) (tn_assignments n)\<rparr>) ov
         | DeleteNode \<Rightarrow> plan_delete op ov
         | Join \<Rightarrow> plan_join (lb_crypto lb) cd op ov
         | EstablishRoot \<Rightarrow>
             if overlay_find ov (op_target op) \<noteq> None then Inl (AlreadyExists, ''node already exists'')
             else Inr (overlay_put (make_root_node (op_principal op)) ov)
         | SetEndpoint \<Rightarrow> plan_edit op (\<lambda>n. n\<lparr>tn_listen_endpoint := tb_listen_endpoint body\<rparr>) ov
         | AcceptInvite \<Rightarrow>
             plan_edit op (\<lambda>n. n\<lparr>tn_assignments := replace_assignment cd (op_principal op)
               (tb_invite_permissions body) (tn_assignments n)\<rparr>) ov
         | MoveNode \<Rightarrow> plan_move cd op ov
         | DeleteAccount \<Rightarrow> Inr (plan_delete_account cd op nodes ov)
         | OtherKind v \<Rightarrow> Inr ov)"

definition plan_op :: "library \<Rightarrow> tree_op \<Rightarrow> node_map \<Rightarrow> (tree_op_refusal \<times> string) + tree_op_effect" where
  "plan_op lb op nodes =
     (case plan_changes lb op nodes \<lparr>ov_base = nodes, ov_changes = []\<rparr> of
        Inl r \<Rightarrow> Inl r
      | Inr ov \<Rightarrow> Inr (overlay_effect ov))"

text \<open>Writing to the node map keeps the place of a key that is present.\<close>

fun map_put :: "string \<Rightarrow> tree_node \<Rightarrow> node_map \<Rightarrow> node_map" where
  "map_put k v [] = [(k, v)]"
| "map_put k v ((k', v') # m) = (if k' = k then (k, v) # m else (k', v') # map_put k v m)"

definition apply_effect :: "tree_op_effect \<Rightarrow> node_map \<Rightarrow> node_map" where
  "apply_effect effect nodes =
     foldl (\<lambda>nodes nid. filter (\<lambda>(k, n). k \<noteq> nid) nodes)
       (foldl (\<lambda>nodes node. map_put (tn_id node) node nodes) nodes (ef_writes effect)) (ef_removals effect)"

section \<open>Validation\<close>

definition ruling_verdict :: "assignment_ruling option \<Rightarrow> verdict" where
  "ruling_verdict ruling =
     map_option (\<lambda>(refusal, reason).
       (case refusal of NotFound \<Rightarrow> OpNotFound | Forbidden \<Rightarrow> OpForbidden | Invalid \<Rightarrow> OpInvalid | Conflict \<Rightarrow> OpConflict,
        reason)) ruling"

definition trusted_submitter :: "codec \<Rightarrow> tree_op_policy \<Rightarrow> string \<Rightarrow> bool" where
  "trusted_submitter cd policy canon \<longleftrightarrow>
     canon \<noteq> [] \<and> list_ex (\<lambda>t. canonical_principal cd t = canon) (tp_trusted_submitters policy)"

definition invite_grant_verdict :: "library \<Rightarrow> tree_op \<Rightarrow> link_token_event \<Rightarrow> tree_op_policy \<Rightarrow> u64 \<Rightarrow> verdict" where
  "invite_grant_verdict lb op grant policy block_time =
     (let cd = lb_codec lb; js = tb_join (op_body op)
      in if lt_kind grant \<noteq> Mint \<or> link_token_event_shape_error grant \<noteq> None
           then refuse BadStatement ''invite grant is malformed''
         else if \<not> trusted_submitter cd policy (canonical_principal cd (kEd25519Prefix @ lt_origin_pubkey grant))
           then refuse BadStatement ''invite grant origin is not a trusted submitter''
         else if \<not> link_token_event_signature_valid lb grant
           then refuse BadStatement ''invite grant signature does not verify''
         else if lt_network_id grant \<noteq> hex_digest lb (op_network_id op)
           then refuse WrongNetwork ''invite grant is bound to another network''
         else if block_time \<ge> lt_expires_at grant then refuse StaleOp ''invite expired''
         else if lt_created_at grant > block_time + kTreeOpMaxFutureSec
           then refuse StaleOp ''invite issued after the block time''
         else if op_kind op = Join
           then unless (js_link_group_id js = lt_group_node_id grant \<and> js_link_owner_pubkey js = lt_owner_pubkey grant)
                  BadStatement ''join differs from the invite grant''
         else unless (op_target op = lt_group_node_id grant \<and> tb_inviter (op_body op) = lt_owner_pubkey grant \<and>
                      tb_invite_permissions (op_body op) = lt_permissions grant)
                BadStatement ''invite acceptance differs from the invite grant'')"

text \<open>Step 1: format.\<close>

definition format_verdict :: "tree_op \<Rightarrow> verdict" where
  "format_verdict op =
     (let body = op_body op
      in if op_version op \<noteq> kTreeOpVersion then refuse Malformed ''unsupported op version''
         else if \<not> op_kind_known (op_kind op) then refuse Malformed ''unknown op kind''
         else if \<not> source_allowed (op_kind op) (tb_source body)
           then refuse Malformed ''op source does not fit the op kind''
         else if op_target op = [] then refuse Malformed ''op target is empty''
         else if op_principal op = [] then refuse Malformed ''op principal is empty''
         else if tb_link_extension body \<and> \<not> link_extension_allowed op
           then refuse Malformed ''only a join or an invite acceptance has a link extension''
         else if tb_invite_grant body \<noteq> None \<and> \<not> tb_link_extension body
           then refuse Malformed ''an invite grant needs the link extension''
         else None)"

text \<open>Steps 2 to 4: network, size, id, submitter and signature.\<close>

definition signature_verdict :: "library \<Rightarrow> tree_op \<Rightarrow> tree_op_policy \<Rightarrow> verdict" where
  "signature_verdict lb op policy =
     (if op_network_id op \<noteq> tp_network_id policy then refuse WrongNetwork ''op is bound to another network''
      else if length (encode_tree_op op) > kMaxTreeOpEncodedBytes then refuse Oversize ''op too large''
      else if compute_op_id lb op \<noteq> op_id op then refuse BadOpId ''op id does not match''
      else if \<not> trusted_submitter (lb_codec lb) policy (canonical_principal (lb_codec lb) (op_author op))
        then refuse UntrustedSubmitter ''op author is not a trusted submitter''
      else case (parse_ed25519_key lb (op_author op), parse_signature lb (op_signature op)) of
             (Some key, Some sg) \<Rightarrow>
               unless (ed25519_verify lb key (signing_message (op_id op)) sg)
                 BadSignature ''op signature does not verify''
           | _ \<Rightarrow> refuse BadSignature ''op signature does not verify'')"

text \<open>Step 5: freshness. The sums wrap at 64 bits.\<close>

definition freshness_verdict :: "tree_op \<Rightarrow> u64 \<Rightarrow> verdict" where
  "freshness_verdict op block_time =
     (if op_signed_at op = 0 then refuse StaleOp ''op has no signed time''
      else if op_signed_at op + kTreeOpMaxAgeSec < block_time then refuse StaleOp ''op is older than the freshness window''
      else if op_signed_at op > block_time + kTreeOpMaxFutureSec
        then refuse StaleOp ''op is newer than the freshness window''
      else None)"

text \<open>Step 6: replay.\<close>

definition replay_verdict :: "library \<Rightarrow> tree_op \<Rightarrow> committed_op_ids \<Rightarrow> verdict" where
  "replay_verdict lb op committed =
     (let held = (\<lambda>i. case i of None \<Rightarrow> False | Some i \<Rightarrow> committed_contains committed i)
      in if committed_contains committed (op_id_hex lb op) then refuse Replayed ''op already committed''
         else if held (statement_id_hex lb op) then refuse Replayed ''wrapped statement already committed''
         else if held (redemption_id_hex lb op) then refuse Replayed ''invite already redeemed''
         else None)"

text \<open>Step 7: the wrapped statement and the fields it fixes.\<close>

definition delta_statement_verdict :: "library \<Rightarrow> tree_op \<Rightarrow> verdict" where
  "delta_statement_verdict lb op =
     (let d = tb_delta (op_body op); kind = op_kind op
      in if \<not> (kind = CreateNode \<and> td_operation d = ''create_node'' \<or>
               kind = DeleteNode \<and> td_operation d = ''delete_node'' \<or>
               kind = UpdateFields \<and> required_permission_for (td_operation d) = EditNode)
           then refuse BadStatement ''delta operation does not fit the op''
         else if op_target op \<noteq> (if kind = CreateNode then tn_id (td_node_data d) else td_target_node_id d)
           then refuse BadStatement ''op target differs from the delta''
         else if op_principal op \<noteq> td_signer_pubkey d
           then refuse BadStatement ''op principal differs from the delta signer''
         else if op_signed_at op \<noteq> td_timestamp d then refuse BadStatement ''op signed time differs from the delta''
         else unless (delta_signature_valid lb d) BadStatement ''delta signature does not verify'')"

definition device_statement_verdict :: "library \<Rightarrow> tree_op \<Rightarrow> verdict" where
  "device_statement_verdict lb op =
     (let js = tb_join (op_body op);
          bad = refuse BadStatement ''join challenge signature does not verify''
      in if op_principal op \<noteq> js_device_pubkey js then refuse BadStatement ''op principal differs from the device key''
         else case (parse_ed25519_key lb (js_device_pubkey js), decode_b64 lb (js_challenge js),
                    parse_signature lb (js_challenge_signature js)) of
                (Some key, Some challenge, Some sg) \<Rightarrow>
                  if challenge = [] \<or> \<not> ed25519_verify lb key challenge sg then bad
                  else unless (op_target op = derive_join_node_id lb (js_device_pubkey js))
                         BadStatement (''join target is not the device'' @ CHR 0x27 # ''s node id'')
              | _ \<Rightarrow> bad)"

definition session_statement_verdict :: "library \<Rightarrow> tree_op \<Rightarrow> verdict" where
  "session_statement_verdict lb op =
     (let kind = op_kind op
      in if (kind = CreateNode \<or> kind = UpdateFields) \<and> tn_id (tb_node (op_body op)) \<noteq> op_target op
           then refuse Malformed ''node record id differs from the op target''
         else if kind = EstablishRoot \<and> op_target op \<noteq> ''root''
           then refuse Malformed (''the root op must target '' @ CHR 0x22 # ''root'' @ [CHR 0x22])
         else if kind = SetEndpoint \<and> \<not> endpoint_text_valid (tb_listen_endpoint (op_body op))
           then refuse Malformed ''listen endpoint is not host:port''
         else if kind = DeleteAccount \<and> op_target op \<noteq> derive_join_node_id lb (op_principal op)
           then refuse Malformed (''account id differs from the principal'' @ CHR 0x27 # ''s account'')
         else None)"

definition statement_verdict :: "library \<Rightarrow> tree_op \<Rightarrow> tree_op_policy \<Rightarrow> u64 \<Rightarrow> verdict" where
  "statement_verdict lb op policy block_time =
     and_then (case tb_source (op_body op) of
                 Delta \<Rightarrow> delta_statement_verdict lb op
               | Device \<Rightarrow> device_statement_verdict lb op
               | Session \<Rightarrow> session_statement_verdict lb op
               | OtherSource v \<Rightarrow> None)
       (case tb_invite_grant (op_body op) of
          None \<Rightarrow> None
        | Some grant \<Rightarrow> invite_grant_verdict lb op grant policy block_time)"

text \<open>Step 8: target existence and base version.\<close>

definition target_verdict :: "tree_op \<Rightarrow> node_map \<Rightarrow> verdict" where
  "target_verdict op nodes =
     (let target = map_of nodes (op_target op); kind = op_kind op
      in if kind = CreateNode \<or> kind = EstablishRoot then
           (if target \<noteq> None then refuse AlreadyExists ''node already exists''
            else unless (op_base_version op = 0) StaleBaseVersion ''create must use base version 0'')
         else if kind = DeleteAccount then
           unless (op_base_version op = 0) Malformed ''an account op uses base version 0''
         else if kind = Join then
           unless (op_base_version op = (case target of None \<Rightarrow> 0 | Some n \<Rightarrow> tn_version n))
             StaleBaseVersion ''the node changed; reload and retry''
         else case target of
                None \<Rightarrow> refuse OpNotFound ''node not found''
              | Some n \<Rightarrow> unless (op_base_version op = tn_version n)
                            StaleBaseVersion ''the node changed; reload and retry'')"

text \<open>Step 9: permission and content.\<close>

definition content_delta :: "tree_op \<Rightarrow> string \<Rightarrow> tree_node \<Rightarrow> tree_delta" where
  "content_delta op operation data =
     (if tb_source (op_body op) = Delta then tb_delta (op_body op)
      else default_delta\<lparr>td_operation := operation, td_target_node_id := op_target op, td_node_data := data,
             td_signer_pubkey := op_principal op\<rparr>)"

definition content_verdict :: "string option \<Rightarrow> verdict" where
  "content_verdict r = map_option (\<lambda>reason. (ContentRefused, reason)) r"

definition create_verdict :: "library \<Rightarrow> tree_op \<Rightarrow> node_map \<Rightarrow> verdict" where
  "create_verdict lb op nodes =
     (case map_of nodes (tn_parent_id (op_node op)) of
        None \<Rightarrow> refuse OpNotFound ''parent not found''
      | Some parent \<Rightarrow>
          if \<not> signer_has_permission (lb_codec lb) parent (op_principal op) AddChild
            then refuse OpForbidden ''no add_child permission on parent''
          else content_verdict (delta_content_refusal (lb_codec lb) nodes
                 (content_delta op ''create_node'' (op_node op))))"

definition update_verdict :: "library \<Rightarrow> tree_op \<Rightarrow> node_map \<Rightarrow> tree_node \<Rightarrow> verdict" where
  "update_verdict lb op nodes target =
     (if \<not> signer_has_permission (lb_codec lb) target (op_principal op) EditNode
        then refuse OpForbidden ''no edit_node permission''
      else content_verdict (delta_content_refusal (lb_codec lb) nodes
             (content_delta op ''update_node'' (op_node op))))"

definition delete_verdict :: "library \<Rightarrow> tree_op \<Rightarrow> node_map \<Rightarrow> tree_node \<Rightarrow> verdict" where
  "delete_verdict lb op nodes target =
     (let cd = lb_codec lb; session_op = tb_source (op_body op) \<noteq> Delta
      in if \<not> (session_op \<and> admin_anchor cd nodes (op_target op) (op_principal op) \<noteq> None) \<and>
            \<not> (session_op \<and> removes_own_device cd nodes (op_target op) (op_principal op)
                 (derive_join_node_id lb (op_principal op))) \<and>
            \<not> signer_has_permission cd target (op_principal op) DeleteNodePermission
           then refuse OpForbidden ''no delete_node permission''
         else content_verdict (delta_content_refusal cd nodes (content_delta op ''delete_node'' default_node)))"

definition root_verdict :: "library \<Rightarrow> tree_op \<Rightarrow> tree_op_policy \<Rightarrow> verdict" where
  "root_verdict lb op policy =
     (let cd = lb_codec lb
      in unless (\<not> (tp_root_key policy = [] \<or> canonical_principal cd (op_principal op) = [] \<or>
                    canonical_principal cd (op_principal op) \<noteq> canonical_principal cd (tp_root_key policy) \<or>
                    parse_ed25519_key lb (op_principal op) = None))
           OpForbidden ''principal is not the configured root key'')"

definition endpoint_verdict :: "library \<Rightarrow> tree_op \<Rightarrow> tree_node \<Rightarrow> verdict" where
  "endpoint_verdict lb op target =
     (let cd = lb_codec lb
      in unless (\<not> (tn_mgmt_pubkey target = [] \<or>
                    canonical_principal cd (tn_mgmt_pubkey target) \<noteq> canonical_principal cd (op_principal op)))
           OpForbidden (''only the node'' @ CHR 0x27 # ''s own key sets its endpoint''))"

text \<open>The kinds that dereference the target were refused in step 8 when it is missing.\<close>

definition on_target :: "tree_op \<Rightarrow> node_map \<Rightarrow> (tree_node \<Rightarrow> verdict) \<Rightarrow> verdict" where
  "on_target op nodes f = (case map_of nodes (op_target op) of None \<Rightarrow> None | Some n \<Rightarrow> f n)"

definition authority_verdict :: "library \<Rightarrow> tree_op \<Rightarrow> tree_state \<Rightarrow> verdict" where
  "authority_verdict lb op state =
     (let cd = lb_codec lb; nodes = ts_nodes state; body = op_body op
      in case op_kind op of
           CreateNode \<Rightarrow> create_verdict lb op nodes
         | UpdateFields \<Rightarrow> on_target op nodes (update_verdict lb op nodes)
         | DeleteNode \<Rightarrow> on_target op nodes (delete_verdict lb op nodes)
         | SetAssignment \<Rightarrow>
             ruling_verdict (assignment_change_refusal cd nodes (op_target op) (op_principal op)
               (tb_assignment_principal body) (tb_assignment_permissions body))
         | AcceptInvite \<Rightarrow>
             ruling_verdict (invite_acceptance_refusal cd nodes (op_target op) (op_principal op) (tb_inviter body)
               (tb_invite_permissions body))
         | MoveNode \<Rightarrow>
             ruling_verdict (move_refusal cd nodes (op_target op) (tb_new_parent_id body) (op_principal op))
         | EstablishRoot \<Rightarrow> root_verdict lb op (ts_policy state)
         | SetEndpoint \<Rightarrow> on_target op nodes (endpoint_verdict lb op)
         | _ \<Rightarrow> None)"

definition validate_op :: "library \<Rightarrow> tree_op \<Rightarrow> tree_state \<Rightarrow> u64 \<Rightarrow> committed_op_ids \<Rightarrow> verdict" where
  "validate_op lb op state block_time committed =
     and_then (format_verdict op)
    (and_then (signature_verdict lb op (ts_policy state))
    (and_then (freshness_verdict op block_time)
    (and_then (replay_verdict lb op committed)
    (and_then (statement_verdict lb op (ts_policy state) block_time)
    (and_then (target_verdict op (ts_nodes state))
    (and_then (authority_verdict lb op state)
      (case plan_op lb op (ts_nodes state) of Inl r \<Rightarrow> Some r | Inr effect \<Rightarrow> None)))))))"

end
