(* ===== verification/Tree_Invariant.thy ===== *)
theory Tree_Invariant
  imports Tree_Ops
begin

text \<open>
  What the operations of \<open>Tree_Ops\<close> do to a tree. An overlay is read as a partial map from ids to nodes, its
  view; applying the effect of an overlay gives that view with new versions. The lemmas follow the view
  through every plan: which fields of a node can change, which grants can appear, and that the invariant of
  the tree is kept.
\<close>

section \<open>Views\<close>

type_synonym view = "string \<rightharpoonup> tree_node"

definition overlay_ok :: "overlay \<Rightarrow> bool" where
  "overlay_ok ov \<longleftrightarrow>
     smap_ok (ov_changes ov) \<and> distinct (map fst (ov_base ov)) \<and>
     (\<forall>k n. overlay_find ov k = Some n \<longrightarrow> tn_id n = k)"

lemma overlay_find_start [simp]: "overlay_find \<lparr>ov_base = nodes, ov_changes = []\<rparr> = map_of nodes"
  by (simp add: overlay_find_def fun_eq_iff)

lemma overlay_find_put: "overlay_find (overlay_put n ov) = (overlay_find ov)(tn_id n \<mapsto> n)"
  by (auto simp: overlay_find_def overlay_put_def smap_get_put fun_eq_iff split: option.split)

lemma overlay_find_erase: "overlay_find (overlay_erase k ov) = (overlay_find ov)(k := None)"
  by (auto simp: overlay_find_def overlay_erase_def smap_get_put fun_eq_iff split: option.split)

lemma overlay_find_edit:
  "overlay_find (overlay_edit k f ov) = (overlay_find ov)(k := map_option f (overlay_find ov k))"
  by (cases "overlay_find ov k")
    (auto simp: overlay_edit_def overlay_find_def smap_get_put fun_eq_iff split: option.splits)

lemmas overlay_finds = overlay_find_put overlay_find_erase overlay_find_edit

lemma overlay_base [simp]:
  "ov_base (overlay_put n ov) = ov_base ov" "ov_base (overlay_erase k ov) = ov_base ov"
  "ov_base (overlay_edit k f ov) = ov_base ov"
  by (simp_all add: overlay_put_def overlay_erase_def overlay_edit_def split: option.split)

lemma overlay_ok_id: "overlay_ok ov \<Longrightarrow> overlay_find ov k = Some n \<Longrightarrow> tn_id n = k"
  by (simp add: overlay_ok_def)

lemma overlay_ok_start:
  "distinct (map fst nodes) \<Longrightarrow> (\<And>k n. map_of nodes k = Some n \<Longrightarrow> tn_id n = k) \<Longrightarrow>
    overlay_ok \<lparr>ov_base = nodes, ov_changes = []\<rparr>"
  by (simp add: overlay_ok_def)

lemma smap_ok_changes:
  "smap_ok (ov_changes ov) \<Longrightarrow> smap_ok (ov_changes (overlay_put n ov))"
  "smap_ok (ov_changes ov) \<Longrightarrow> smap_ok (ov_changes (overlay_erase k ov))"
  "smap_ok (ov_changes ov) \<Longrightarrow> smap_ok (ov_changes (overlay_edit k f ov))"
  by (simp_all add: overlay_put_def overlay_erase_def overlay_edit_def smap_ok_put split: option.split)

lemma overlay_ok_put: "overlay_ok ov \<Longrightarrow> overlay_ok (overlay_put n ov)"
  by (simp add: overlay_ok_def smap_ok_changes overlay_finds)

lemma overlay_ok_erase: "overlay_ok ov \<Longrightarrow> overlay_ok (overlay_erase k ov)"
  by (simp add: overlay_ok_def smap_ok_changes overlay_finds)

lemma overlay_ok_edit:
  assumes "overlay_ok ov" and "\<And>n. overlay_find ov k = Some n \<Longrightarrow> tn_id (f n) = tn_id n"
  shows "overlay_ok (overlay_edit k f ov)"
  using assms by (auto simp: overlay_ok_def smap_ok_changes overlay_finds)

lemma overlay_find_Some_iff:
  "overlay_find ov k = Some n \<longleftrightarrow>
    map_of (ov_changes ov) k = Some (Some n) \<or> map_of (ov_changes ov) k = None \<and> map_of (ov_base ov) k = Some n"
  by (auto simp: overlay_find_def split: option.split)

lemma set_map_filter_iff: "y \<in> set (List.map_filter f xs) \<longleftrightarrow> (\<exists>x \<in> set xs. f x = Some y)"
  by (induction xs) (auto simp: List.map_filter_simps split: option.splits)

lemma set_overlay_nodes:
  assumes "overlay_ok ov"
  shows "n \<in> set (overlay_nodes ov) \<longleftrightarrow> (\<exists>k. overlay_find ov k = Some n)"
proof -
  have changes: "(k, c) \<in> set (ov_changes ov) \<longleftrightarrow> map_of (ov_changes ov) k = Some c" for k c
    using assms by (simp add: overlay_ok_def smap_mem_iff)
  have base: "(k, c) \<in> set (ov_base ov) \<longleftrightarrow> map_of (ov_base ov) k = Some c" for k c
    using assms by (simp add: overlay_ok_def)
  have "n \<in> set (overlay_nodes ov) \<longleftrightarrow>
      (\<exists>k. map_of (ov_changes ov) k = Some (Some n)) \<or>
      (\<exists>k. map_of (ov_changes ov) k = None \<and> map_of (ov_base ov) k = Some n)"
    by (auto simp: overlay_nodes_def set_map_filter_iff changes base image_iff) (metis base changes snd_conv)+
  then show ?thesis unfolding overlay_find_Some_iff by blast
qed

section \<open>Applying an effect\<close>

text \<open>A written node carries its key as id and the next version.\<close>

definition stamp :: "node_map \<Rightarrow> string \<Rightarrow> tree_node \<Rightarrow> tree_node" where
  "stamp base k n =
     n\<lparr>tn_id := k, tn_version := (case map_of base k of None \<Rightarrow> 0 | Some b \<Rightarrow> tn_version b) + 1\<rparr>"

lemma map_of_map_put: "map_of (map_put k v m) = (map_of m)(k \<mapsto> v)"
  by (induction k v m rule: map_put.induct) (auto simp: fun_eq_iff)

lemma keys_map_put: "fst ` set (map_put k v m) = insert k (fst ` set m)"
  by (induction k v m rule: map_put.induct) auto

lemma distinct_map_put: "distinct (map fst m) \<Longrightarrow> distinct (map fst (map_put k v m))"
proof (induction k v m rule: map_put.induct)
  case (2 k v k' v' m)
  then show ?case using keys_map_put [of k v m] by auto
qed simp

lemma map_of_filter_key: "map_of (filter (\<lambda>(k, n). k \<noteq> nid) m) = (map_of m)(nid := None)"
  by (induction m) (auto simp: fun_eq_iff)

lemma map_of_writes:
  "map_of (foldl (\<lambda>m node. map_put (tn_id node) node m) m ws) = map_of m ++ map_of (rev (map (\<lambda>n. (tn_id n, n)) ws))"
  by (induction ws arbitrary: m) (simp_all add: map_of_map_put)

lemma map_of_removals:
  "map_of (foldl (\<lambda>m nid. filter (\<lambda>(k, n). k \<noteq> nid) m) m ids) k = (if k \<in> set ids then None else map_of m k)"
  by (induction ids arbitrary: m) (auto simp: map_of_filter_key)

lemma distinct_apply_effect: "distinct (map fst m) \<Longrightarrow> distinct (map fst (apply_effect e m))"
proof -
  have "distinct (map fst (foldl (\<lambda>m node. map_put (tn_id node) node m) m ws))" if "distinct (map fst m)"
    for ws and m :: node_map
    using that by (induction ws arbitrary: m) (simp_all add: distinct_map_put)
  moreover have "distinct (map fst (foldl (\<lambda>m nid. filter (\<lambda>(k, n). k \<noteq> nid) m) m ids))" if "distinct (map fst m)"
    for ids and m :: node_map
    using that by (induction ids arbitrary: m) (simp_all add: distinct_map_filter)
  moreover assume "distinct (map fst m)"
  ultimately show ?thesis by (simp add: apply_effect_def)
qed

lemma written_Some: "written base (k, c) = Some v \<longleftrightarrow> (\<exists>n. c = Some n \<and> v = stamp base k n)"
  by (auto simp: written_def stamp_def)

lemma written_simps [simp]: "written base (k, None) = None" "written base (k, Some n) = Some (stamp base k n)"
  by (simp_all add: written_def stamp_def)

lemma stamp_id [simp]: "tn_id (stamp base k n) = k"
  by (simp add: stamp_def)

lemma map_of_rev_distinct: "distinct (map fst xs) \<Longrightarrow> map_of (rev xs) = map_of xs"
proof -
  assume dist: "distinct (map fst xs)"
  then have "distinct (map fst (rev xs))" by (simp only: rev_map [symmetric] distinct_rev)
  with dist show ?thesis by (simp only: map_of_inject_set set_rev)
qed

lemma writes_of_changes:
  assumes "distinct (map fst changes)"
  shows "map_of (map (\<lambda>n. (tn_id n, n)) (List.map_filter (written base) changes)) k =
    (case map_of changes k of Some (Some n) \<Rightarrow> Some (stamp base k n) | _ \<Rightarrow> None)"
  using assms
proof (induction changes)
  case (Cons change changes)
  obtain j c where change: "change = (j, c)" by (cases change)
  have "map_of changes j = None" using Cons.prems by (simp add: change map_of_eq_None_iff)
  then show ?case
    using Cons by (cases c) (auto simp: change List.map_filter_simps split: option.splits)
qed (simp add: List.map_filter_simps)

lemma distinct_writes:
  "distinct (map fst changes) \<Longrightarrow>
    distinct (map fst (map (\<lambda>n. (tn_id n, n)) (List.map_filter (written base) changes)))"
proof (induction changes)
  case (Cons change changes)
  obtain j c where change: "change = (j, c)" by (cases change)
  have "tn_id n \<in> fst ` set changes" if "n \<in> set (List.map_filter (written base) changes)" for n
    using that by (auto simp: set_map_filter_iff written_Some image_iff intro!: bexI)
  with Cons show ?case
    by (cases c) (auto simp: change List.map_filter_simps image_iff)
qed (simp add: List.map_filter_simps)

lemma apply_overlay:
  assumes "overlay_ok ov"
  shows "map_of (apply_effect (overlay_effect ov) (ov_base ov)) k =
    (case map_of (ov_changes ov) k of
       None \<Rightarrow> map_of (ov_base ov) k
     | Some c \<Rightarrow> map_option (stamp (ov_base ov) k) c)"
proof -
  have ok: "smap_ok (ov_changes ov)" using assms by (simp add: overlay_ok_def)
  have removed: "k \<in> set (ef_removals (overlay_effect ov)) \<longleftrightarrow>
      map_of (ov_changes ov) k = Some None \<and> map_of (ov_base ov) k \<noteq> None"
  proof -
    have "k \<in> set (ef_removals (overlay_effect ov)) \<longleftrightarrow>
        (k, None) \<in> set (ov_changes ov) \<and> map_of (ov_base ov) k \<noteq> None"
      by (force simp: overlay_effect_def)
    then show ?thesis by (simp only: smap_mem_iff [OF ok])
  qed
  have "map_of (apply_effect (overlay_effect ov) (ov_base ov)) k =
      (if k \<in> set (ef_removals (overlay_effect ov)) then None
       else (map_of (ov_base ov) ++ map_of (rev (map (\<lambda>n. (tn_id n, n)) (ef_writes (overlay_effect ov))))) k)"
    by (simp add: apply_effect_def map_of_removals map_of_writes)
  moreover have "map_of (rev (map (\<lambda>n. (tn_id n, n)) (ef_writes (overlay_effect ov)))) k =
      (case map_of (ov_changes ov) k of Some (Some n) \<Rightarrow> Some (stamp (ov_base ov) k n) | _ \<Rightarrow> None)"
    using writes_of_changes [OF smap_ok_distinct [OF ok]] map_of_rev_distinct [OF distinct_writes [OF smap_ok_distinct [OF ok]]]
    by (simp only: overlay_effect_def tree_op_effect.simps)
  ultimately show ?thesis
    using removed by (auto simp: map_add_def split: option.splits)
qed

text \<open>So a node of the result is the node of the view, up to its version.\<close>

lemma apply_overlay_view:
  assumes "overlay_ok ov"
  shows "map_of (apply_effect (overlay_effect ov) (ov_base ov)) k = None \<longleftrightarrow> overlay_find ov k = None"
    and "map_of (apply_effect (overlay_effect ov) (ov_base ov)) k = Some n' \<Longrightarrow>
      \<exists>n v. overlay_find ov k = Some n \<and> n' = n\<lparr>tn_version := v\<rparr>"
proof -
  show "map_of (apply_effect (overlay_effect ov) (ov_base ov)) k = None \<longleftrightarrow> overlay_find ov k = None"
    by (auto simp: apply_overlay [OF assms] overlay_find_def split: option.splits)
  assume "map_of (apply_effect (overlay_effect ov) (ov_base ov)) k = Some n'"
  then show "\<exists>n v. overlay_find ov k = Some n \<and> n' = n\<lparr>tn_version := v\<rparr>"
  proof (cases "map_of (ov_changes ov) k")
    case None
    then have "overlay_find ov k = Some n' \<and> n' = n'\<lparr>tn_version := tn_version n'\<rparr>"
      using \<open>map_of (apply_effect _ _) k = _\<close> by (simp add: apply_overlay [OF assms] overlay_find_def)
    then show ?thesis by blast
  next
    case (Some c)
    then obtain n where c: "c = Some n" "n' = stamp (ov_base ov) k n"
      using \<open>map_of (apply_effect _ _) k = _\<close> by (auto simp: apply_overlay [OF assms])
    then have "tn_id n = k" using Some overlay_ok_id [OF assms, of k n] by (simp add: overlay_find_def)
    then have "n' = n\<lparr>tn_version := (case map_of (ov_base ov) k of None \<Rightarrow> 0 | Some b \<Rightarrow> tn_version b) + 1\<rparr>"
      using c by (simp add: stamp_def)
    then show ?thesis using Some c by (auto simp: overlay_find_def)
  qed
qed

section \<open>The invariant of the tree\<close>

definition view_ok :: "view \<Rightarrow> bool" where
  "view_ok F \<longleftrightarrow>
     (\<forall>k n. F k = Some n \<longrightarrow>
        tn_id n = k \<and> k \<noteq> [] \<and> F ''root'' \<noteq> None \<and>
        (tn_type n = Root \<longleftrightarrow> k = ''root'') \<and> (tn_parent_id n = [] \<longleftrightarrow> k = ''root'')) \<and>
     (\<forall>k l m n. F k = Some m \<longrightarrow> F l = Some n \<longrightarrow> tn_mesh_pubkey m \<noteq> [] \<longrightarrow>
        tn_mesh_pubkey m = tn_mesh_pubkey n \<longrightarrow> k = l) \<and>
     (\<forall>k l m n. F k = Some m \<longrightarrow> F l = Some n \<longrightarrow> tn_endpoint_identifier m \<noteq> [] \<longrightarrow>
        tn_endpoint_identifier m = tn_endpoint_identifier n \<longrightarrow> k = l)"

definition tree_ok :: "node_map \<Rightarrow> bool" where
  "tree_ok nodes \<longleftrightarrow> distinct (map fst nodes) \<and> view_ok (map_of nodes)"

lemma view_ok_node:
  assumes "view_ok F" and "F k = Some n"
  shows "tn_id n = k" "k \<noteq> []" "F ''root'' \<noteq> None" "tn_type n = Root \<longleftrightarrow> k = ''root''"
    "tn_parent_id n = [] \<longleftrightarrow> k = ''root''"
proof -
  from assms(1) have "F k = Some n \<longrightarrow> tn_id n = k \<and> k \<noteq> [] \<and> F ''root'' \<noteq> None \<and>
      (tn_type n = Root \<longleftrightarrow> k = ''root'') \<and> (tn_parent_id n = [] \<longleftrightarrow> k = ''root'')"
    unfolding view_ok_def by (elim conjE allE) assumption
  with assms(2) show "tn_id n = k" "k \<noteq> []" "F ''root'' \<noteq> None" "tn_type n = Root \<longleftrightarrow> k = ''root''"
    "tn_parent_id n = [] \<longleftrightarrow> k = ''root''" by blast+
qed

lemma view_ok_mesh:
  "view_ok F \<Longrightarrow> F k = Some m \<Longrightarrow> F l = Some n \<Longrightarrow> tn_mesh_pubkey m \<noteq> [] \<Longrightarrow>
    tn_mesh_pubkey m = tn_mesh_pubkey n \<Longrightarrow> k = l"
  unfolding view_ok_def by (elim conjE) metis

lemma view_ok_identifier:
  "view_ok F \<Longrightarrow> F k = Some m \<Longrightarrow> F l = Some n \<Longrightarrow> tn_endpoint_identifier m \<noteq> [] \<Longrightarrow>
    tn_endpoint_identifier m = tn_endpoint_identifier n \<Longrightarrow> k = l"
  unfolding view_ok_def by (elim conjE) metis

lemma view_okI:
  assumes "\<And>k n. F k = Some n \<Longrightarrow> tn_id n = k \<and> k \<noteq> [] \<and> F ''root'' \<noteq> None \<and>
      (tn_type n = Root \<longleftrightarrow> k = ''root'') \<and> (tn_parent_id n = [] \<longleftrightarrow> k = ''root'')"
    and "\<And>k l m n. F k = Some m \<Longrightarrow> F l = Some n \<Longrightarrow> tn_mesh_pubkey m \<noteq> [] \<Longrightarrow>
      tn_mesh_pubkey m = tn_mesh_pubkey n \<Longrightarrow> k \<noteq> l \<Longrightarrow> False"
    and "\<And>k l m n. F k = Some m \<Longrightarrow> F l = Some n \<Longrightarrow> tn_endpoint_identifier m \<noteq> [] \<Longrightarrow>
      tn_endpoint_identifier m = tn_endpoint_identifier n \<Longrightarrow> k \<noteq> l \<Longrightarrow> False"
  shows "view_ok F"
  unfolding view_ok_def
proof (intro conjI allI impI)
  fix k n
  assume "F k = Some n"
  from assms(1) [OF this] show "tn_id n = k" "k \<noteq> []" "F ''root'' \<noteq> None" "tn_type n = Root \<longleftrightarrow> k = ''root''"
    "tn_parent_id n = [] \<longleftrightarrow> k = ''root''" by simp_all
qed (rule ccontr, erule (4) assms(2), rule ccontr, erule (4) assms(3))

text \<open>Everything the invariant looks at.\<close>

definition shape :: "tree_node \<Rightarrow> string \<times> string \<times> node_type \<times> string \<times> string" where
  "shape n = (tn_id n, tn_parent_id n, tn_type n, tn_mesh_pubkey n, tn_endpoint_identifier n)"

lemma view_ok_shape:
  assumes ok: "view_ok F" and same: "\<And>k. map_option shape (G k) = map_option shape (F k)"
  shows "view_ok G"
proof (rule view_okI)
  have get: "\<exists>m. F k = Some m \<and> shape m = shape n" if "G k = Some n" for k n
    using same [of k] that by (cases "F k") auto
  fix k m
  assume k: "G k = Some m"
  then obtain m' where m': "F k = Some m'" "shape m' = shape m" using get by blast
  note ok_m = view_ok_node [OF ok m'(1)]
  have "G ''root'' \<noteq> None" using same [of "''root''"] ok_m(3) by auto
  with ok_m m'(2) show "tn_id m = k \<and> k \<noteq> [] \<and> G ''root'' \<noteq> None \<and> (tn_type m = Root \<longleftrightarrow> k = ''root'') \<and>
      (tn_parent_id m = [] \<longleftrightarrow> k = ''root'')"
    by (simp add: shape_def)
  fix l n
  assume "G l = Some n"
  then obtain n' where n': "F l = Some n'" "shape n' = shape n" using get by blast
  assume differ: "k \<noteq> l"
  show False if "tn_mesh_pubkey m \<noteq> []" "tn_mesh_pubkey m = tn_mesh_pubkey n"
    using view_ok_mesh [OF ok m'(1) n'(1)] m'(2) n'(2) that differ by (simp add: shape_def)
  show False if "tn_endpoint_identifier m \<noteq> []" "tn_endpoint_identifier m = tn_endpoint_identifier n"
    using view_ok_identifier [OF ok m'(1) n'(1)] m'(2) n'(2) that differ by (simp add: shape_def)
qed

lemma view_ok_new:
  assumes ok: "view_ok F" and new: "F k = None" "tn_id n = k" "k \<noteq> []" "tn_type n \<noteq> Root" "tn_parent_id n \<noteq> []"
    and root: "F ''root'' \<noteq> None"
    and mesh: "\<And>l m. tn_mesh_pubkey n \<noteq> [] \<Longrightarrow> F l = Some m \<Longrightarrow> tn_mesh_pubkey m \<noteq> tn_mesh_pubkey n"
    and ident: "\<And>l m. tn_endpoint_identifier n \<noteq> [] \<Longrightarrow> F l = Some m \<Longrightarrow>
      tn_endpoint_identifier m \<noteq> tn_endpoint_identifier n"
  shows "view_ok (F(k \<mapsto> n))"
proof (rule view_okI)
  have k: "k \<noteq> ''root''" using new(1) root by auto
  fix j m
  assume j: "(F(k \<mapsto> n)) j = Some m"
  show "tn_id m = j \<and> j \<noteq> [] \<and> (F(k \<mapsto> n)) ''root'' \<noteq> None \<and> (tn_type m = Root \<longleftrightarrow> j = ''root'') \<and>
      (tn_parent_id m = [] \<longleftrightarrow> j = ''root'')"
  proof (cases "j = k")
    case False
    with j have "F j = Some m" by simp
    from view_ok_node [OF ok this] k show ?thesis by simp
  qed (use j new root k in auto)
  fix l m'
  assume l: "(F(k \<mapsto> n)) l = Some m'" and differ: "j \<noteq> l"
  show False if "tn_mesh_pubkey m \<noteq> []" "tn_mesh_pubkey m = tn_mesh_pubkey m'"
    using j l differ that mesh view_ok_mesh [OF ok, of j m l m'] by (auto split: if_splits)
  show False if "tn_endpoint_identifier m \<noteq> []" "tn_endpoint_identifier m = tn_endpoint_identifier m'"
    using j l differ that ident view_ok_identifier [OF ok, of j m l m'] by (auto split: if_splits)
qed

lemma view_ok_replace:
  assumes ok: "view_ok F" and old: "F k = Some b" and n: "tn_id n = tn_id b" "tn_type n = tn_type b"
    "tn_parent_id n = [] \<longleftrightarrow> tn_parent_id b = []" "tn_endpoint_identifier n = tn_endpoint_identifier b"
    and mesh: "\<And>l m. tn_mesh_pubkey n \<noteq> [] \<Longrightarrow> l \<noteq> k \<Longrightarrow> F l = Some m \<Longrightarrow> tn_mesh_pubkey m \<noteq> tn_mesh_pubkey n"
  shows "view_ok (F(k \<mapsto> n))"
proof (rule view_okI)
  note b = view_ok_node [OF ok old]
  fix j m
  assume j: "(F(k \<mapsto> n)) j = Some m"
  show "tn_id m = j \<and> j \<noteq> [] \<and> (F(k \<mapsto> n)) ''root'' \<noteq> None \<and> (tn_type m = Root \<longleftrightarrow> j = ''root'') \<and>
      (tn_parent_id m = [] \<longleftrightarrow> j = ''root'')"
  proof (cases "j = k")
    case False
    with j have "F j = Some m" by simp
    from view_ok_node [OF ok this] show ?thesis by simp
  qed (use j b n in auto)
  fix l m'
  assume l: "(F(k \<mapsto> n)) l = Some m'" and differ: "j \<noteq> l"
  show False if "tn_mesh_pubkey m \<noteq> []" "tn_mesh_pubkey m = tn_mesh_pubkey m'"
    using j l differ that mesh [of j m] mesh [of l m'] view_ok_mesh [OF ok, of j m l m'] by (auto split: if_splits)
  show False if "tn_endpoint_identifier m \<noteq> []" "tn_endpoint_identifier m = tn_endpoint_identifier m'"
    using j l differ that n(4) view_ok_identifier [OF ok, of j m l m'] view_ok_identifier [OF ok old, of l m']
      view_ok_identifier [OF ok old, of j m] by (auto split: if_splits)
qed

lemma view_ok_erase:
  assumes "view_ok F" and "k \<noteq> ''root''"
  shows "view_ok (F(k := None))"
proof (rule view_okI)
  fix j m
  assume j: "(F(k := None)) j = Some m"
  then have "F j = Some m" by (simp split: if_splits)
  from view_ok_node [OF assms(1) this] assms(2)
  show "tn_id m = j \<and> j \<noteq> [] \<and> (F(k := None)) ''root'' \<noteq> None \<and> (tn_type m = Root \<longleftrightarrow> j = ''root'') \<and>
      (tn_parent_id m = [] \<longleftrightarrow> j = ''root'')"
    by simp
  fix l n
  assume "(F(k := None)) l = Some n" and differ: "j \<noteq> l"
  then have l: "F l = Some n" by (simp split: if_splits)
  show False if "tn_mesh_pubkey m \<noteq> []" "tn_mesh_pubkey m = tn_mesh_pubkey n"
    using view_ok_mesh [OF assms(1) \<open>F j = Some m\<close> l] that differ by simp
  show False if "tn_endpoint_identifier m \<noteq> []" "tn_endpoint_identifier m = tn_endpoint_identifier n"
    using view_ok_identifier [OF assms(1) \<open>F j = Some m\<close> l] that differ by simp
qed

lemma tree_ok_apply:
  assumes "overlay_ok ov" and "view_ok (overlay_find ov)"
  shows "tree_ok (apply_effect (overlay_effect ov) (ov_base ov))"
proof -
  let ?G = "map_of (apply_effect (overlay_effect ov) (ov_base ov))"
  have "map_option shape (?G k) = map_option shape (overlay_find ov k)" for k
    using apply_overlay_view [OF assms(1), of k] by (cases "?G k") (fastforce simp: shape_def)+
  then have "view_ok ?G" by (rule view_ok_shape [OF assms(2)])
  moreover have "distinct (map fst (ov_base ov))" using assms(1) by (simp add: overlay_ok_def)
  ultimately show ?thesis by (simp add: tree_ok_def distinct_apply_effect)
qed

section \<open>Changed assignments\<close>

text \<open>The permissions a node grants, by principal.\<close>

definition entries :: "codec \<Rightarrow> assignment list \<Rightarrow> (string \<times> string) set" where
  "entries cd as = (\<Union>a \<in> set as. {canonical_principal cd (as_management_pubkey a)} \<times> set (as_permissions a))"

definition grants :: "codec \<Rightarrow> tree_node \<Rightarrow> (string \<times> string) set" where
  "grants cd n = entries cd (tn_assignments n)"

lemma entries_simps [simp]:
  "entries cd [] = {}"
  "entries cd (a # as) = {canonical_principal cd (as_management_pubkey a)} \<times> set (as_permissions a) \<union> entries cd as"
  "entries cd (as @ bs) = entries cd as \<union> entries cd bs"
  by (simp_all add: entries_def Sigma_Un_distrib1)

lemma entries_filter: "entries cd (filter P as) \<subseteq> entries cd as"
  by (auto simp: entries_def)

lemma grants_simps [simp]: "grants cd (n\<lparr>tn_assignments := as\<rparr>) = entries cd as"
  by (simp add: grants_def)

text \<open>\<open>regranted cd A ov ov'\<close>: between the overlays only assignments differ, and what the node \<open>k\<close> grants in
  addition lies in \<open>A k\<close>.\<close>

definition regranted :: "codec \<Rightarrow> (string \<Rightarrow> (string \<times> string) set) \<Rightarrow> overlay \<Rightarrow> overlay \<Rightarrow> bool" where
  "regranted cd A ov ov' \<longleftrightarrow>
     ov_base ov' = ov_base ov \<and> (overlay_ok ov \<longrightarrow> overlay_ok ov') \<and>
     (\<forall>k. (overlay_find ov k = None \<longrightarrow> overlay_find ov' k = None) \<and>
        (\<forall>n. overlay_find ov k = Some n \<longrightarrow>
           (\<exists>as. overlay_find ov' k = Some (n\<lparr>tn_assignments := as\<rparr>) \<and>
              entries cd as \<subseteq> grants cd n \<union> A k)))"

lemma regrantedD:
  assumes "regranted cd A ov ov'"
  shows "ov_base ov' = ov_base ov" and "overlay_ok ov \<Longrightarrow> overlay_ok ov'"
    and "overlay_find ov k = None \<Longrightarrow> overlay_find ov' k = None"
    and "overlay_find ov k = Some n \<Longrightarrow> \<exists>as. overlay_find ov' k = Some (n\<lparr>tn_assignments := as\<rparr>) \<and>
      entries cd as \<subseteq> grants cd n \<union> A k"
  using assms unfolding regranted_def by blast+

lemma unchanged_node: "\<exists>as. n = n\<lparr>tn_assignments := as\<rparr> \<and> entries cd as \<subseteq> grants cd n \<union> B"
  by (intro exI [of _ "tn_assignments n"]) (simp add: grants_def)

lemma regranted_None_iff: "regranted cd A ov ov' \<Longrightarrow> overlay_find ov' k = None \<longleftrightarrow> overlay_find ov k = None"
  using regrantedD(3,4) [of cd A ov ov' k] by (cases "overlay_find ov k") auto

lemma regranted_refl: "regranted cd A ov ov"
  unfolding regranted_def using unchanged_node by auto

lemma regranted_trans:
  assumes "regranted cd A ov ov'" and "regranted cd A ov' ov''"
  shows "regranted cd A ov ov''"
  unfolding regranted_def
proof (intro conjI allI impI)
  show "ov_base ov'' = ov_base ov" using assms by (simp add: regranted_def)
  show "overlay_ok ov''" if "overlay_ok ov" using regrantedD(2) assms that by blast
  fix k
  show "overlay_find ov'' k = None" if "overlay_find ov k = None" using regrantedD(3) assms that by blast
  fix n
  assume "overlay_find ov k = Some n"
  from regrantedD(4) [OF assms(1) this] obtain as where as: "overlay_find ov' k = Some (n\<lparr>tn_assignments := as\<rparr>)"
    "entries cd as \<subseteq> grants cd n \<union> A k" by blast
  from regrantedD(4) [OF assms(2) this(1)] as(2)
  show "\<exists>as. overlay_find ov'' k = Some (n\<lparr>tn_assignments := as\<rparr>) \<and>
      entries cd as \<subseteq> grants cd n \<union> A k"
    by auto
qed

lemma regranted_foldl:
  assumes "\<And>ov x. regranted cd A ov (f ov x)"
  shows "regranted cd A ov (foldl f ov xs)"
  using assms regranted_refl regranted_trans by (induction xs arbitrary: ov) (simp_all, blast)

lemma regranted_edit:
  assumes "\<And>n. overlay_find ov k = Some n \<Longrightarrow>
    \<exists>as. f n = n\<lparr>tn_assignments := as\<rparr> \<and> entries cd as \<subseteq> grants cd n \<union> A k"
  shows "regranted cd A ov (overlay_edit k f ov)"
  unfolding regranted_def
proof (intro conjI allI impI)
  show "ov_base (overlay_edit k f ov) = ov_base ov" by simp
  show "overlay_ok (overlay_edit k f ov)" if "overlay_ok ov"
    using that by (rule overlay_ok_edit) (use assms in fastforce)
  fix j
  show "overlay_find (overlay_edit k f ov) j = None" if "overlay_find ov j = None"
    using that by (auto simp: overlay_find_edit)
  fix n
  assume n: "overlay_find ov j = Some n"
  show "\<exists>as. overlay_find (overlay_edit k f ov) j = Some (n\<lparr>tn_assignments := as\<rparr>) \<and>
      entries cd as \<subseteq> grants cd n \<union> A j"
  proof (cases "j = k")
    case True
    with n assms show ?thesis by (fastforce simp: overlay_find_edit)
  next
    case False
    then have "overlay_find (overlay_edit k f ov) j = Some n" using n by (simp add: overlay_find_edit)
    then show ?thesis using unchanged_node by simp
  qed
qed

lemma regranted_mono: "regranted cd A ov ov' \<Longrightarrow> (\<And>k. A k \<subseteq> B k) \<Longrightarrow> regranted cd B ov ov'"
  unfolding regranted_def by (meson Un_mono subset_refl subset_trans)

text \<open>Dropping entries grants nothing.\<close>

lemma regranted_drop: "regranted cd A ov (overlay_edit k (drop_entries P) ov)"
proof (rule regranted_edit)
  fix n
  show "\<exists>as. drop_entries P n = n\<lparr>tn_assignments := as\<rparr> \<and> entries cd as \<subseteq> grants cd n \<union> A k"
    by (intro exI [of _ "filter (\<lambda>a. \<not> P a) (tn_assignments n)"]) (use entries_filter [of cd "\<lambda>a. \<not> P a" "tn_assignments n"] in \<open>auto simp: drop_entries_def grants_def\<close>)
qed

lemma regranted_sweep_moved: "regranted cd A ov (sweep_moved cd' nid key ov sid)"
  by (simp add: sweep_moved_def regranted_refl regranted_drop split: option.split)

lemma regranted_sweep_account: "regranted cd A ov (sweep_account cd' swept ov nid)"
  by (simp add: sweep_account_def regranted_refl regranted_drop Let_def split: option.split)

lemma regranted_sweep_deleted: "regranted cd A ov (sweep_deleted key ov sid)"
  by (simp add: sweep_deleted_def regranted_refl regranted_drop Let_def split: option.split)

lemma regranted_view_ok:
  assumes "regranted cd A ov ov'" and "view_ok (overlay_find ov)"
  shows "view_ok (overlay_find ov')"
proof (rule view_ok_shape [OF assms(2)])
  fix k
  show "map_option shape (overlay_find ov' k) = map_option shape (overlay_find ov k)"
    using regrantedD(3,4) [OF assms(1), of k] by (cases "overlay_find ov k") (fastforce simp: shape_def)+
qed

text \<open>\<open>extended\<close> is the same for the nodes that were there; nodes may be added.\<close>

definition extended :: "codec \<Rightarrow> (string \<Rightarrow> (string \<times> string) set) \<Rightarrow> overlay \<Rightarrow> overlay \<Rightarrow> bool" where
  "extended cd A ov ov' \<longleftrightarrow>
     ov_base ov' = ov_base ov \<and> (overlay_ok ov \<longrightarrow> overlay_ok ov') \<and>
     (\<forall>k n. overlay_find ov k = Some n \<longrightarrow>
        (\<exists>as. overlay_find ov' k = Some (n\<lparr>tn_assignments := as\<rparr>) \<and>
           entries cd as \<subseteq> grants cd n \<union> A k))"

lemma extendedD:
  assumes "extended cd A ov ov'"
  shows "ov_base ov' = ov_base ov" and "overlay_ok ov \<Longrightarrow> overlay_ok ov'"
    and "overlay_find ov k = Some n \<Longrightarrow> \<exists>as. overlay_find ov' k = Some (n\<lparr>tn_assignments := as\<rparr>) \<and>
      entries cd as \<subseteq> grants cd n \<union> A k"
  using assms unfolding extended_def by blast+

lemma extended_regranted: "regranted cd A ov ov' \<Longrightarrow> extended cd A ov ov'"
  unfolding regranted_def extended_def by blast

lemma extended_refl: "extended cd A ov ov"
  by (rule extended_regranted [OF regranted_refl])

lemma extended_trans:
  assumes "extended cd A ov ov'" and "extended cd A ov' ov''"
  shows "extended cd A ov ov''"
  unfolding extended_def
proof (intro conjI allI impI)
  show "ov_base ov'' = ov_base ov" using assms by (simp add: extended_def)
  show "overlay_ok ov''" if "overlay_ok ov" using extendedD(2) assms that by blast
  fix k n
  assume "overlay_find ov k = Some n"
  from extendedD(3) [OF assms(1) this] obtain as where as: "overlay_find ov' k = Some (n\<lparr>tn_assignments := as\<rparr>)"
    "entries cd as \<subseteq> grants cd n \<union> A k" by blast
  from extendedD(3) [OF assms(2) this(1)] as(2)
  show "\<exists>as. overlay_find ov'' k = Some (n\<lparr>tn_assignments := as\<rparr>) \<and>
      entries cd as \<subseteq> grants cd n \<union> A k"
    by auto
qed

lemma extended_put:
  assumes "overlay_find ov (tn_id n) = None"
  shows "extended cd A ov (overlay_put n ov)"
  unfolding extended_def
proof (intro conjI allI impI)
  fix k m
  assume m: "overlay_find ov k = Some m"
  with assms have "k \<noteq> tn_id n" by auto
  with m have "overlay_find (overlay_put n ov) k = Some m" by (simp add: overlay_find_put)
  then show "\<exists>as. overlay_find (overlay_put n ov) k = Some (m\<lparr>tn_assignments := as\<rparr>) \<and>
      entries cd as \<subseteq> grants cd m \<union> A k"
    using unchanged_node by simp
qed (simp_all add: overlay_ok_put)

section \<open>Unique keys\<close>

lemma mesh_taken_iff:
  assumes "overlay_ok ov"
  shows "overlay_mesh_taken ov mesh own \<longleftrightarrow>
    mesh \<noteq> [] \<and> (\<exists>k n. overlay_find ov k = Some n \<and> k \<noteq> own \<and> tn_mesh_pubkey n = mesh)"
  using set_overlay_nodes [OF assms] overlay_ok_id [OF assms]
  by (auto simp: overlay_mesh_taken_def list_ex_iff) blast

lemma identifier_taken_iff:
  assumes "overlay_ok ov"
  shows "overlay_identifier_taken ov i own \<longleftrightarrow>
    i \<noteq> [] \<and> (\<exists>k n. overlay_find ov k = Some n \<and> k \<noteq> own \<and> tn_endpoint_identifier n = i)"
  using set_overlay_nodes [OF assms] overlay_ok_id [OF assms]
  by (auto simp: overlay_identifier_taken_def list_ex_iff) blast

lemma view_ok_put_new:
  assumes ov: "overlay_ok ov" "view_ok (overlay_find ov)" and root: "overlay_find ov ''root'' \<noteq> None"
    and n: "overlay_find ov (tn_id n) = None" "tn_id n \<noteq> []" "tn_type n \<noteq> Root" "tn_parent_id n \<noteq> []"
    and free: "\<not> overlay_mesh_taken ov (tn_mesh_pubkey n) (tn_id n)"
      "\<not> overlay_identifier_taken ov (tn_endpoint_identifier n) (tn_id n)"
  shows "view_ok (overlay_find (overlay_put n ov))"
  unfolding overlay_find_put
proof (rule view_ok_new [OF ov(2) n(1) refl n(2,3,4) root])
  fix l m
  assume l: "overlay_find ov l = Some m"
  then have "l \<noteq> tn_id n" using n(1) by auto
  with l show "tn_mesh_pubkey m \<noteq> tn_mesh_pubkey n" if "tn_mesh_pubkey n \<noteq> []"
    using free(1) that by (auto simp: mesh_taken_iff [OF ov(1)])
  from l \<open>l \<noteq> tn_id n\<close> show "tn_endpoint_identifier m \<noteq> tn_endpoint_identifier n" if "tn_endpoint_identifier n \<noteq> []"
    using free(2) that by (auto simp: identifier_taken_iff [OF ov(1)])
qed

section \<open>Joins\<close>

text \<open>What a join may add to a node that exists: peer access for the joining key on any node, and
  administration on the group whose own management key is the joining key.\<close>

definition join_grants :: "codec \<Rightarrow> string \<Rightarrow> view \<Rightarrow> string \<Rightarrow> (string \<times> string) set" where
  "join_grants cd norm F k =
     (let c = canonical_principal cd norm
      in {(c, ''read''), (c, ''connect_private'')} \<union>
         (case F k of
            Some n \<Rightarrow> if tn_type n = Customer \<and> canonical_principal cd (tn_mgmt_pubkey n) = c then {(c, ''admin'')} else {}
          | None \<Rightarrow> {}))"

lemma grant_once_grants:
  "\<exists>as. grant_once a n = n\<lparr>tn_assignments := as\<rparr> \<and> entries cd as \<subseteq>
    grants cd n \<union> {canonical_principal cd (as_management_pubkey a)} \<times> set (as_permissions a)"
proof (cases "list_ex (\<lambda>b. as_management_pubkey b = as_management_pubkey a) (tn_assignments n)")
  case True
  then show ?thesis by (intro exI [of _ "tn_assignments n"]) (auto simp: grant_once_def grants_def)
next
  case False
  then show ?thesis by (intro exI [of _ "tn_assignments n @ [a]"]) (auto simp: grant_once_def grants_def)
qed

lemma grant_first_grants:
  "entries cd (grant_first cd who as) \<subseteq>
    entries cd as \<union> {canonical_principal cd who} \<times> {''read'', ''connect_private''}"
  by (induction as) (auto simp: add_name_def split: if_splits)

lemma grant_link_peer_access_grants:
  "\<exists>as. grant_link_peer_access cd who n = n\<lparr>tn_assignments := as\<rparr> \<and> entries cd as \<subseteq>
    grants cd n \<union> {canonical_principal cd who} \<times> {''read'', ''connect_private''}"
proof (cases "link_peer_access_missing cd n who")
  case False
  then show ?thesis by (intro exI [of _ "tn_assignments n"]) (auto simp: grant_link_peer_access_def grants_def)
next
  case True
  then show ?thesis
    using grant_first_grants [of cd who "tn_assignments n"]
    by (intro exI [of _ "grant_first cd who (tn_assignments n)"]) (auto simp: grant_link_peer_access_def grants_def)
qed

lemma regranted_edit_subset:
  assumes "\<And>n. \<exists>as. f n = n\<lparr>tn_assignments := as\<rparr> \<and> entries cd as \<subseteq> grants cd n \<union> G"
    and "G \<subseteq> A k"
  shows "regranted cd A ov (overlay_edit k f ov)"
  by (rule regranted_edit) (use assms in blast)

abbreviation peer_access :: "codec \<Rightarrow> string \<Rightarrow> (string \<times> string) set" where
  "peer_access cd norm \<equiv> {canonical_principal cd norm} \<times> {''read'', ''connect_private''}"

lemma regranted_join_sibling:
  assumes nid: "A nid = UNIV" and peers: "\<And>k. peer_access cd norm \<subseteq> A k"
  shows "regranted cd A ov (join_sibling cd extension nid norm ov sid)"
proof -
  have own: "regranted cd A ov (if P then overlay_edit nid f ov else ov)"
    if "\<And>n. \<exists>as. f n = n\<lparr>tn_assignments := as\<rparr>" for P f ov
    using that nid by (auto intro!: regranted_edit regranted_refl)
  have reverse: "regranted cd A ov (if P then overlay_edit sid f ov else ov)"
    if "\<And>n. \<exists>as. f n = n\<lparr>tn_assignments := as\<rparr> \<and> entries cd as \<subseteq> grants cd n \<union> peer_access cd norm" for P f ov
    using regranted_edit_subset [where A = A and k = sid, OF that peers] regranted_refl by simp
  have peer: "\<exists>as. grant_once (peer_grant norm) n = n\<lparr>tn_assignments := as\<rparr> \<and>
      entries cd as \<subseteq> grants cd n \<union> peer_access cd norm" for n
    using grant_once_grants [of "peer_grant norm" n cd] by (simp add: peer_grant_def)
  have access: "\<exists>as. grant_link_peer_access cd who n = n\<lparr>tn_assignments := as\<rparr>" for who n
    using grant_link_peer_access_grants by blast
  have once: "\<exists>as. grant_once a n = n\<lparr>tn_assignments := as\<rparr>" for a n
    using grant_once_grants by blast
  show ?thesis
  proof (cases "overlay_find ov sid")
    case None
    then show ?thesis by (simp add: join_sibling_def regranted_refl)
  next
    case (Some sibling)
    let ?own = "\<lambda>f. if tn_mgmt_pubkey sibling \<noteq> [] then overlay_edit nid f ov else ov"
    have linked: "regranted cd A ov (if Q then overlay_edit sid (grant_link_peer_access cd norm) (?own f) else ?own f)"
      if "\<And>n. \<exists>as. f n = n\<lparr>tn_assignments := as\<rparr>" for f Q
      by (rule regranted_trans [OF own [OF that] reverse [OF grant_link_peer_access_grants]])
    have earlier: "regranted cd A ov (if Q then overlay_edit sid (grant_once (peer_grant norm)) (?own f) else ?own f)"
      if "\<And>n. \<exists>as. f n = n\<lparr>tn_assignments := as\<rparr>" for f Q
      by (rule regranted_trans [OF own [OF that] reverse [OF peer]])
    consider "sid = nid \<or> tn_type sibling \<noteq> Endpoint" | "sid \<noteq> nid" "tn_type sibling = Endpoint" extension
      | "sid \<noteq> nid" "tn_type sibling = Endpoint" "\<not> extension" by blast
    then show ?thesis
    proof cases
      case 2
      then show ?thesis
        using linked [of "grant_link_peer_access cd (tn_mgmt_pubkey sibling)", OF access]
        by (simp only: join_sibling_def Some Let_def option.case if_True if_False simp_thms)
    next
      case 3
      then show ?thesis
        using earlier [of "grant_once (peer_grant (tn_mgmt_pubkey sibling))", OF once]
        by (simp only: join_sibling_def Some Let_def option.case if_True if_False simp_thms)
    qed (auto simp: join_sibling_def Some regranted_refl)
  qed
qed

lemma entries_upgrade:
  "entries cd (map (\<lambda>a. if lacks_admin cd norm a then a\<lparr>as_permissions := as_permissions a @ [''admin'']\<rparr> else a) as)
    \<subseteq> entries cd as \<union> {(canonical_principal cd norm, ''admin'')}"
  by (induction as) (auto simp: lacks_admin_def)

lemma regranted_join_upgrade:
  assumes "\<And>g. overlay_find ov customer = Some g \<Longrightarrow> tn_type g = Customer \<Longrightarrow>
    canonical_principal cd (tn_mgmt_pubkey g) = canonical_principal cd norm \<Longrightarrow>
    (canonical_principal cd norm, ''admin'') \<in> A customer"
  shows "regranted cd A ov (join_upgrade cd norm customer ov)"
proof (cases "overlay_find ov customer")
  case None
  then show ?thesis by (simp add: join_upgrade_def regranted_refl)
next
  case (Some g)
  let ?f = "\<lambda>n. n\<lparr>tn_assignments := map (\<lambda>a. if lacks_admin cd norm a
    then a\<lparr>as_permissions := as_permissions a @ [''admin'']\<rparr> else a) (tn_assignments n)\<rparr>"
  have "regranted cd A ov (overlay_edit customer ?f ov)"
    if "tn_type g = Customer" "canonical_principal cd (tn_mgmt_pubkey g) = canonical_principal cd norm"
  proof (rule regranted_edit)
    fix n
    assume "overlay_find ov customer = Some n"
    then have "{(canonical_principal cd norm, ''admin'')} \<subseteq> A customer" using Some assms that by simp
    then have "entries cd (tn_assignments (?f n)) \<subseteq> grants cd n \<union> A customer"
      using entries_upgrade [of cd norm "tn_assignments n"] by (auto simp: grants_def)
    then show "\<exists>as. ?f n = n\<lparr>tn_assignments := as\<rparr> \<and> entries cd as \<subseteq> grants cd n \<union> A customer" by auto
  qed
  then show ?thesis by (simp add: join_upgrade_def Some regranted_refl)
qed

lemma regranted_join_group_read:
  assumes "(canonical_principal cd norm, ''read'') \<in> A customer"
  shows "regranted cd A ov (join_group_read norm customer ov)"
proof -
  let ?a = "\<lparr>as_management_pubkey = norm, as_permissions = [''read'']\<rparr>"
  have "regranted cd A ov (overlay_edit customer (grant_once ?a) ov)"
    by (rule regranted_edit_subset [where G = "{(canonical_principal cd norm, ''read'')}"])
      (use grant_once_grants [of ?a _ cd] assms in auto)
  then show ?thesis by (simp add: join_group_read_def regranted_refl split: option.split)
qed

text \<open>A new device: its node is new, and its group and siblings gain at most the join's grants.\<close>

lemma join_endpoint_fields [simp]:
  "tn_id (join_endpoint cr op customer ov) = op_target op"
  "tn_parent_id (join_endpoint cr op customer ov) = customer"
  "tn_type (join_endpoint cr op customer ov) = Endpoint"
  "tn_tunnel_ip (join_endpoint cr op customer ov) = overlay_free_tunnel_address cr ov (op_target op)"
  by (simp_all add: join_endpoint_def Let_def)

lemma join_new_cases:
  assumes "join_new cr cd op customer ov = Inr ov'"
  obtains "overlay_find ov customer \<noteq> None" "overlay_free_tunnel_address cr ov (op_target op) \<noteq> []"
    "\<not> overlay_identifier_taken ov (tn_endpoint_identifier (join_endpoint cr op customer ov)) (op_target op)"
    "\<not> overlay_mesh_taken ov (tn_mesh_pubkey (join_endpoint cr op customer ov)) (op_target op)"
    "\<And>A. A (op_target op) = UNIV \<Longrightarrow> (\<And>k. peer_access cd (js_device_pubkey (tb_join (op_body op))) \<subseteq> A k) \<Longrightarrow>
      regranted cd A (overlay_put (join_endpoint cr op customer ov) ov) ov'"
proof -
  let ?ov = "overlay_put (join_endpoint cr op customer ov) ov"
  let ?norm = "js_device_pubkey (tb_join (op_body op))"
  let ?linked = "join_group_read ?norm customer
    (foldl (join_sibling cd (tb_link_extension (op_body op)) (op_target op) ?norm) ?ov (overlay_child_ids ?ov customer))"
  from assms have found: "overlay_find ov customer \<noteq> None" "overlay_free_tunnel_address cr ov (op_target op) \<noteq> []"
    "\<not> overlay_identifier_taken ov (tn_endpoint_identifier (join_endpoint cr op customer ov)) (op_target op)"
    "\<not> overlay_mesh_taken ov (tn_mesh_pubkey (join_endpoint cr op customer ov)) (op_target op)"
    and result: "ov' = (if js_link_group_id (tb_join (op_body op)) \<noteq> [] then ?linked else ?ov)"
    by (simp_all add: join_new_def Let_def split: if_splits option.splits)
  have "regranted cd A ?ov ov'"
    if "A (op_target op) = UNIV" "\<And>k. peer_access cd ?norm \<subseteq> A k" for A
  proof -
    have "regranted cd A ?ov ?linked"
      by (rule regranted_trans [OF regranted_foldl regranted_join_group_read])
        (use that in \<open>auto intro: regranted_join_sibling\<close>)
    then show ?thesis by (simp add: result regranted_refl)
  qed
  with found show ?thesis by (rule that)
qed

lemma join_group_fields [simp]:
  "tn_id (join_group op) = ''customer-'' @ op_target op" "tn_parent_id (join_group op) = ''root''"
  "tn_type (join_group op) = Customer" "tn_mesh_pubkey (join_group op) = []"
  "tn_endpoint_identifier (join_group op) = []"
  by (simp_all add: join_group_def default_node_def Let_def)

lemma join_placement_new:
  assumes "join_placement op ov = Inr (customer, placed)" and "overlay_find ov (op_target op) = None"
  shows "customer \<noteq> []"
    and "placed = ov \<or> placed = overlay_put (join_group op) ov \<and> overlay_find ov (tn_id (join_group op)) = None"
  using assms by (auto simp: join_placement_def Let_def split: if_splits)

definition fresh_or :: "view \<Rightarrow> (string \<Rightarrow> (string \<times> string) set) \<Rightarrow> string \<Rightarrow> (string \<times> string) set" where
  "fresh_or F A k = (if F k = None then UNIV else A k)"

lemma plan_join_new:
  assumes plan: "plan_join cr cd op ov = Inr ov'" and new: "overlay_find ov (op_target op) = None"
    and ov: "overlay_ok ov" "view_ok (overlay_find ov)" and target: "op_target op \<noteq> []"
  shows "extended cd (fresh_or (overlay_find ov) (join_grants cd (js_device_pubkey (tb_join (op_body op))) (overlay_find ov)))
      ov ov' \<and> view_ok (overlay_find ov')"
proof -
  let ?norm = "js_device_pubkey (tb_join (op_body op))"
  let ?A = "fresh_or (overlay_find ov) (join_grants cd ?norm (overlay_find ov))"
  from plan obtain customer placed where root: "overlay_find ov ''root'' \<noteq> None"
    and placement: "join_placement op ov = Inr (customer, placed)"
    and joined: "join_new cr cd op customer (join_upgrade cd ?norm customer placed) = Inr ov'"
    using new by (auto simp: plan_join_def Let_def split: if_splits sum.splits prod.splits)
  let ?up = "join_upgrade cd ?norm customer placed"
  let ?endpoint = "join_endpoint cr op customer ?up"
  note place = join_placement_new [OF placement new]
  have not_group: "op_target op \<noteq> ''customer-'' @ op_target op" by simp
  have placed: "overlay_ok placed" "view_ok (overlay_find placed)" "extended cd ?A ov placed"
      "overlay_find placed ''root'' \<noteq> None" "overlay_find placed (op_target op) = None"
    using place(2) ov root new not_group
    by (auto simp: overlay_ok_put extended_refl extended_put overlay_find_put mesh_taken_iff identifier_taken_iff
        intro!: view_ok_put_new)
  have up: "regranted cd ?A placed ?up"
  proof (rule regranted_join_upgrade)
    fix g
    assume g: "overlay_find placed customer = Some g" "tn_type g = Customer"
      "canonical_principal cd (tn_mgmt_pubkey g) = canonical_principal cd ?norm"
    show "(canonical_principal cd ?norm, ''admin'') \<in> ?A customer"
    proof (cases "overlay_find ov customer")
      case (Some n)
      then obtain as where "overlay_find placed customer = Some (n\<lparr>tn_assignments := as\<rparr>)"
        using extendedD(3) [OF placed(3)] by blast
      then show ?thesis using g Some by (auto simp: fresh_or_def join_grants_def Let_def)
    qed (simp add: fresh_or_def)
  qed
  have up_ok: "overlay_ok ?up" "view_ok (overlay_find ?up)"
    using regrantedD(2) [OF up placed(1)] regranted_view_ok [OF up placed(2)] by auto
  have up_find: "overlay_find ?up (op_target op) = None" "overlay_find ?up ''root'' \<noteq> None"
    using placed(4,5) by (simp_all only: regranted_None_iff [OF up] not_False_eq_True)
  from joined show ?thesis
  proof (rule join_new_cases)
    assume taken: "\<not> overlay_identifier_taken ?up (tn_endpoint_identifier ?endpoint) (op_target op)"
        "\<not> overlay_mesh_taken ?up (tn_mesh_pubkey ?endpoint) (op_target op)"
      and rest: "\<And>A. A (op_target op) = UNIV \<Longrightarrow> (\<And>k. peer_access cd ?norm \<subseteq> A k) \<Longrightarrow>
        regranted cd A (overlay_put ?endpoint ?up) ov'"
    have "regranted cd ?A (overlay_put ?endpoint ?up) ov'"
      by (rule rest) (use new in \<open>auto simp: fresh_or_def join_grants_def Let_def\<close>)
    moreover have "extended cd ?A ?up (overlay_put ?endpoint ?up)" by (rule extended_put) (simp add: up_find)
    ultimately have "extended cd ?A ov ov'"
      using placed(3) extended_regranted [OF up] extended_regranted extended_trans by blast
    moreover have "view_ok (overlay_find (overlay_put ?endpoint ?up))"
      by (rule view_ok_put_new) (use up_ok up_find taken place(1) target in simp_all)
    ultimately show ?thesis
      using regranted_view_ok \<open>regranted cd ?A (overlay_put ?endpoint ?up) ov'\<close> by blast
  qed
qed

lemma join_returning_cases:
  assumes "join_returning cr op existing ov = Inr ov'"
  obtains (kept) "ov' = ov"
  | (changed) ip mesh where "ov' = overlay_edit (op_target op) (\<lambda>n. n\<lparr>tn_tunnel_ip := ip, tn_mesh_pubkey := mesh\<rparr>) ov"
    "tn_tunnel_ip existing \<noteq> [] \<Longrightarrow> ip = tn_tunnel_ip existing"
    "tn_tunnel_ip existing = [] \<Longrightarrow> ip = overlay_free_tunnel_address cr ov (op_target op)" "ip \<noteq> []"
    "mesh = tn_mesh_pubkey existing \<or> \<not> overlay_mesh_taken ov mesh (op_target op)"
proof -
  let ?ip = "if tn_tunnel_ip existing = [] then overlay_free_tunnel_address cr ov (op_target op) else tn_tunnel_ip existing"
  let ?js = "tb_join (op_body op)"
  let ?m = "if js_mesh_pubkey_present ?js then js_mesh_pubkey ?js else tn_mesh_pubkey existing"
  let ?mesh = "if overlay_mesh_taken ov ?m (op_target op) then tn_mesh_pubkey existing else ?m"
  from assms have "?ip \<noteq> []"
    and "ov' = (if tn_tunnel_ip existing \<noteq> ?ip \<or> tn_mesh_pubkey existing \<noteq> ?mesh
      then overlay_edit (op_target op) (\<lambda>n. n\<lparr>tn_tunnel_ip := ?ip, tn_mesh_pubkey := ?mesh\<rparr>) ov else ov)"
    by (simp_all add: join_returning_def Let_def split: if_split_asm)
  then show ?thesis using kept changed [where ip = ?ip and mesh = ?mesh] by (auto split: if_splits)
qed

lemma plan_join_returning:
  assumes plan: "plan_join cr cd op ov = Inr ov'" and old: "overlay_find ov (op_target op) = Some existing"
    and ov: "overlay_ok ov" "view_ok (overlay_find ov)"
  obtains up where "regranted cd (join_grants cd (js_device_pubkey (tb_join (op_body op))) (overlay_find ov)) ov up"
    and "join_returning cr op existing up = Inr ov'" and "view_ok (overlay_find ov')" and "overlay_ok ov'"
    and "ov_base ov' = ov_base ov"
proof -
  let ?norm = "js_device_pubkey (tb_join (op_body op))"
  let ?up = "join_upgrade cd ?norm (tn_parent_id existing) ov"
  from plan old have joined: "join_returning cr op existing ?up = Inr ov'"
    by (auto simp: plan_join_def join_placement_def Let_def split: if_splits)
  have up: "regranted cd (join_grants cd ?norm (overlay_find ov)) ov ?up"
    by (rule regranted_join_upgrade) (simp add: join_grants_def Let_def)
  have ok: "overlay_ok ?up" "view_ok (overlay_find ?up)"
    using regrantedD(2) [OF up ov(1)] regranted_view_ok [OF up ov(2)] by auto
  from regrantedD(4) [OF up old] obtain as where
    found: "overlay_find ?up (op_target op) = Some (existing\<lparr>tn_assignments := as\<rparr>)" by blast
  from joined have "view_ok (overlay_find ov') \<and> overlay_ok ov' \<and> ov_base ov' = ov_base ov"
  proof (cases rule: join_returning_cases)
    case kept
    then show ?thesis using ok regrantedD(1) [OF up] by simp
  next
    case (changed ip mesh)
    have "overlay_ok ov'" unfolding changed(1) by (rule overlay_ok_edit [OF ok(1)]) simp
    moreover have "view_ok (overlay_find ov')"
      unfolding changed(1) overlay_find_edit found option.map
    proof (rule view_ok_replace [OF ok(2) found])
      fix l m
      assume l: "l \<noteq> op_target op" "overlay_find ?up l = Some m"
      assume "tn_mesh_pubkey (existing\<lparr>tn_assignments := as, tn_tunnel_ip := ip, tn_mesh_pubkey := mesh\<rparr>) \<noteq> []"
      then have mesh: "mesh \<noteq> []" by simp
      have "tn_mesh_pubkey m \<noteq> mesh"
      proof
        assume same: "tn_mesh_pubkey m = mesh"
        then have "overlay_mesh_taken ?up mesh (op_target op)" unfolding mesh_taken_iff [OF ok(1)] using l mesh by blast
        with changed(5) have "tn_mesh_pubkey (existing\<lparr>tn_assignments := as\<rparr>) = mesh" by simp
        with view_ok_mesh [OF ok(2) found l(2)] same mesh have "op_target op = l" by simp
        with l(1) show False by simp
      qed
      then show "tn_mesh_pubkey m \<noteq>
          tn_mesh_pubkey (existing\<lparr>tn_assignments := as, tn_tunnel_ip := ip, tn_mesh_pubkey := mesh\<rparr>)" by simp
    qed simp_all
    ultimately show ?thesis using regrantedD(1) [OF up] changed(1) by simp
  qed
  with up joined show ?thesis by (intro that) auto
qed

section \<open>Free tunnel addresses\<close>

text \<open>A search that finds nothing has seen the whole range in use.\<close>

lemma probe_Nil:
  assumes "probe used s step = []" and "step \<le> i" and "i < tunnel_span"
  shows "of_nat (kTreeTunnelFirstOffset + (s + i) mod tunnel_span) \<in> used"
  using assms
proof (induction used s step rule: probe.induct)
  case (1 used s step)
  let ?o = "of_nat (kTreeTunnelFirstOffset + (s + step) mod tunnel_span) :: u32"
  have step: "step < tunnel_span" using "1.prems" by simp
  have "tunnel_address_text ?o \<noteq> []" by (simp add: tunnel_address_text_def Let_def)
  then have "?o \<in> used" and rest: "probe used s (Suc step) = []"
    using "1.prems"(1) step by (subst (asm) probe.simps, simp add: Let_def split: if_splits)+
  then show ?case
    using "1.IH" [OF step refl] "1.prems"(2,3) by (cases "i = step") auto
qed

text \<open>A range with a free address gives one.\<close>

lemma first_free_tunnel_address_found:
  assumes "finite used" and "card used < tunnel_span"
  shows "first_free_tunnel_address cr used nid \<noteq> []"
proof
  assume "first_free_tunnel_address cr used nid = []"
  then obtain s where s: "probe used s 0 = []" by (auto simp: first_free_tunnel_address_def Let_def)
  have span: "tunnel_span = 4128767" "kTreeTunnelFirstOffset = 65536"
    by (simp_all add: tunnel_span_def kTreeTunnelFirstOffset_def kTreeTunnelLastOffset_def)
  have "(\<lambda>r. of_nat (kTreeTunnelFirstOffset + r) :: u32) ` {..<tunnel_span} \<subseteq> used"
  proof
    fix v :: u32
    assume "v \<in> (\<lambda>r. of_nat (kTreeTunnelFirstOffset + r)) ` {..<tunnel_span}"
    then obtain r where r: "v = of_nat (kTreeTunnelFirstOffset + r)" "r < tunnel_span" by blast
    let ?i = "(r + (tunnel_span - s mod tunnel_span)) mod tunnel_span"
    have "(s + ?i) mod tunnel_span = (s mod tunnel_span + (r + (tunnel_span - s mod tunnel_span))) mod tunnel_span"
      by (simp add: mod_simps)
    also have "s mod tunnel_span + (r + (tunnel_span - s mod tunnel_span)) = r + tunnel_span"
      using mod_less_divisor [of tunnel_span s] by (simp add: span)
    finally have "(s + ?i) mod tunnel_span = r" using r(2) by simp
    moreover have "?i < tunnel_span" by (simp add: span)
    ultimately show "v \<in> used" using probe_Nil [OF s, of ?i] r(1) by simp
  qed
  moreover have "inj_on (\<lambda>r. of_nat (kTreeTunnelFirstOffset + r) :: u32) {..<tunnel_span}"
  proof (rule inj_onI)
    fix a b
    assume "a \<in> {..<tunnel_span}" "b \<in> {..<tunnel_span}"
      and "(of_nat (kTreeTunnelFirstOffset + a) :: u32) = of_nat (kTreeTunnelFirstOffset + b)"
    then show "a = b" by (auto simp: span word_of_nat_eq_iff take_bit_nat_eq_self simp del: of_nat_add)
  qed
  ultimately have "tunnel_span \<le> card used" using assms(1) by (metis card_image card_lessThan card_mono)
  with assms(2) show False by simp
qed

lemma overlay_free_tunnel_address_found:
  assumes "overlay_ok ov" and "dom (overlay_find ov) \<subseteq> set ids" and "length ids < tunnel_span"
  shows "overlay_free_tunnel_address cr ov nid \<noteq> []"
proof -
  let ?used = "used_offsets (overlay_nodes ov)"
  have "?used \<subseteq> (\<lambda>k. the (tunnel_offset (tn_tunnel_ip (the (overlay_find ov k))))) ` set ids"
  proof
    fix v
    assume "v \<in> ?used"
    then obtain k n where "overlay_find ov k = Some n" "tunnel_offset (tn_tunnel_ip n) = Some v"
      using set_overlay_nodes [OF assms(1)] by (auto simp: used_offsets_def set_map_filter_iff)
    then show "v \<in> (\<lambda>k. the (tunnel_offset (tn_tunnel_ip (the (overlay_find ov k))))) ` set ids"
      using assms(2) by (intro image_eqI [of _ _ k]) auto
  qed
  then have "card ?used \<le> card (set ids)" by (meson card_image_le card_mono finite_imageI finite_set le_trans)
  also have "\<dots> \<le> length ids" by (rule card_length)
  finally show ?thesis
    using assms(3) by (simp add: overlay_free_tunnel_address_def first_free_tunnel_address_found used_offsets_def)
qed

end
