(* ===== verification/Tree_Authority.thy ===== *)
theory Tree_Authority
  imports Tree_Invariant
begin

text \<open>
  What an accepted operation may do to the permission tree. \<open>lawful\<close> is the contract of
  \<^verbatim>\<open>validate_op\<close> and \<^verbatim>\<open>plan_op\<close> together: the tree keeps its invariant, nodes go only where the
  operation's principal may remove them, and the nodes that stay keep their identity and change
  parent, addresses, keys and grants only under the authority each of these needs. One lemma per
  kind of operation shows that its plan meets the contract.
\<close>

section \<open>The contract\<close>

definition may_remove :: "library \<Rightarrow> tree_op \<Rightarrow> node_map \<Rightarrow> string \<Rightarrow> tree_node \<Rightarrow> bool" where
  "may_remove lb op nodes k n =
     (let cd = lb_codec lb; who = op_principal op
      in k \<noteq> ''root'' \<and>
         (case op_kind op of
            DeleteNode \<Rightarrow> k = op_target op \<and>
              (signer_has_permission cd n who DeleteNodePermission \<or>
               tb_source (op_body op) = Session \<and>
                 (admin_anchor cd nodes k who \<noteq> None \<or> removes_own_device cd nodes k who (derive_join_node_id lb who)))
          | DeleteAccount \<Rightarrow>
              \<exists>s. owned_by cd nodes (canonical_principal cd who) s \<and> beneath nodes s k
          | _ \<Rightarrow> False))"

definition may_grant :: "library \<Rightarrow> tree_op \<Rightarrow> node_map \<Rightarrow> string \<Rightarrow> string \<times> string \<Rightarrow> bool" where
  "may_grant lb op nodes k g =
     (let cd = lb_codec lb; who = op_principal op; body = op_body op
      in case op_kind op of
           SetAssignment \<Rightarrow> k = op_target op \<and> fst g = canonical_principal cd (tb_assignment_principal body) \<and>
             snd g \<in> set (tb_assignment_permissions body) \<and> permission_name_known (snd g) \<and>
             (\<exists>anchor. admin_anchor cd nodes k who = Some anchor \<and>
                principal_joined_under cd nodes anchor (tb_assignment_principal body))
         | UpdateFields \<Rightarrow> k = op_target op \<and>
             (\<exists>anchor. admin_anchor cd nodes k who = Some anchor \<and> principal_joined_under cd nodes anchor (fst g))
         | AcceptInvite \<Rightarrow> k = op_target op \<and> fst g = canonical_principal cd who \<and>
             snd g \<in> set (tb_invite_permissions body) \<and> invite_permission_allowed (snd g) \<and>
             (\<exists>n. map_of nodes k = Some n \<and> tn_type n = Customer \<and>
                invite_held cd nodes k n (tb_inviter body) (snd g))
         | Join \<Rightarrow> g \<in> join_grants cd (js_device_pubkey (tb_join body)) (map_of nodes) k
         | _ \<Rightarrow> False)"

definition may_move :: "library \<Rightarrow> tree_op \<Rightarrow> node_map \<Rightarrow> string \<Rightarrow> string \<Rightarrow> bool" where
  "may_move lb op nodes k parent =
     (let cd = lb_codec lb; who = op_principal op
      in op_kind op = MoveNode \<and> k = op_target op \<and> k \<noteq> ''root'' \<and> parent = tb_new_parent_id (op_body op) \<and>
         \<not> at_or_under nodes parent k \<and> holds_or_administers cd nodes parent who AddChild \<and>
         (admin_anchor cd nodes k who \<noteq> None \<or> holds_or_administers cd nodes k who DeleteNodePermission))"

definition may_edit :: "library \<Rightarrow> tree_op \<Rightarrow> string \<Rightarrow> tree_node \<Rightarrow> bool" where
  "may_edit lb op k n \<longleftrightarrow>
     op_kind op = UpdateFields \<and> k = op_target op \<and> signer_has_permission (lb_codec lb) n (op_principal op) EditNode"

definition lawful_change :: "library \<Rightarrow> tree_op \<Rightarrow> node_map \<Rightarrow> string \<Rightarrow> tree_node \<Rightarrow> tree_node \<Rightarrow> bool" where
  "lawful_change lb op nodes k n n' =
     (let cd = lb_codec lb; joins = (op_kind op = Join \<and> k = op_target op)
      in tn_id n' = tn_id n \<and> tn_type n' = tn_type n \<and> tn_endpoint_identifier n' = tn_endpoint_identifier n \<and>
         canonical_principal cd (tn_mgmt_pubkey n') = canonical_principal cd (tn_mgmt_pubkey n) \<and>
         (tn_parent_id n' = tn_parent_id n \<or> may_move lb op nodes k (tn_parent_id n')) \<and>
         (tn_tunnel_ip n' = tn_tunnel_ip n \<or> joins \<and> tn_tunnel_ip n = [] \<or>
            may_edit lb op k n \<and> administers_root cd nodes k (op_principal op)) \<and>
         (tn_private_subnet n' = tn_private_subnet n \<or>
            may_edit lb op k n \<and> administers_root cd nodes k (op_principal op)) \<and>
         (tn_mesh_pubkey n' = tn_mesh_pubkey n \<or> joins \<or> may_edit lb op k n) \<and>
         (tn_listen_endpoint n' = tn_listen_endpoint n \<or> may_edit lb op k n \<or>
            op_kind op = SetEndpoint \<and> k = op_target op \<and>
              canonical_principal cd (tn_mgmt_pubkey n) = canonical_principal cd (op_principal op)) \<and>
         (tn_hostname n' = tn_hostname n \<or> may_edit lb op k n) \<and>
         grants cd n' \<subseteq> grants cd n \<union> {g. may_grant lb op nodes k g})"

definition lawful :: "library \<Rightarrow> tree_op \<Rightarrow> node_map \<Rightarrow> view \<Rightarrow> bool" where
  "lawful lb op nodes F \<longleftrightarrow>
     view_ok F \<and>
     (\<forall>k n. map_of nodes k = Some n \<longrightarrow>
        (case F k of None \<Rightarrow> may_remove lb op nodes k n | Some n' \<Rightarrow> lawful_change lb op nodes k n n'))"

text \<open>The overlay an operation starts from, and the contract on the overlay it plans.\<close>

abbreviation start :: "node_map \<Rightarrow> overlay" where
  "start nodes \<equiv> \<lparr>ov_base = nodes, ov_changes = []\<rparr>"

definition lawful_plan :: "library \<Rightarrow> tree_op \<Rightarrow> node_map \<Rightarrow> overlay \<Rightarrow> bool" where
  "lawful_plan lb op nodes ov \<longleftrightarrow> overlay_ok ov \<and> ov_base ov = nodes \<and> lawful lb op nodes (overlay_find ov)"

lemma lawful_change_same: "lawful_change lb op nodes k n n"
  by (simp add: lawful_change_def Let_def)

lemma lawful_change_assignments:
  "entries (lb_codec lb) as \<subseteq> grants (lb_codec lb) n \<union> {g. may_grant lb op nodes k g} \<Longrightarrow>
    lawful_change lb op nodes k n (n\<lparr>tn_assignments := as\<rparr>)"
  by (simp add: lawful_change_def Let_def)

lemma lawful_change_less:
  "lawful_change lb op nodes k n n' \<Longrightarrow> entries (lb_codec lb) as \<subseteq> grants (lb_codec lb) n' \<Longrightarrow>
    lawful_change lb op nodes k n (n'\<lparr>tn_assignments := as\<rparr>)"
  unfolding lawful_change_def Let_def by (elim conjE) (intro conjI; simp)

lemma lawfulI:
  assumes "view_ok F"
    and "\<And>k n. map_of nodes k = Some n \<Longrightarrow> F k = None \<Longrightarrow> may_remove lb op nodes k n"
    and "\<And>k n n'. map_of nodes k = Some n \<Longrightarrow> F k = Some n' \<Longrightarrow> lawful_change lb op nodes k n n'"
  shows "lawful lb op nodes F"
  using assms by (auto simp: lawful_def split: option.split)

lemma lawfulD:
  assumes "lawful lb op nodes F" and "map_of nodes k = Some n"
  shows "F k = None \<Longrightarrow> may_remove lb op nodes k n" and "F k = Some n' \<Longrightarrow> lawful_change lb op nodes k n n'"
  using assms unfolding lawful_def by (fastforce split: option.splits)+

lemma tree_ok_start:
  assumes "tree_ok nodes"
  shows "overlay_ok (start nodes)" and "view_ok (overlay_find (start nodes))" and "view_ok (map_of nodes)"
proof -
  show ok: "view_ok (map_of nodes)" using assms by (simp add: tree_ok_def)
  then show "view_ok (overlay_find (start nodes))" by simp
  show "overlay_ok (start nodes)"
    using assms view_ok_node(1) [OF ok] by (intro overlay_ok_start) (auto simp: tree_ok_def)
qed

text \<open>A plan that adds nodes and changes assignments only.\<close>

lemma lawful_plan_extended:
  assumes "tree_ok nodes" and ext: "extended (lb_codec lb) A (start nodes) ov" and ok: "view_ok (overlay_find ov)"
    and A: "\<And>k n. map_of nodes k = Some n \<Longrightarrow> A k \<subseteq> {g. may_grant lb op nodes k g}"
  shows "lawful_plan lb op nodes ov"
proof -
  have "lawful lb op nodes (overlay_find ov)"
  proof (rule lawfulI [OF ok])
    fix k n
    assume n: "map_of nodes k = Some n"
    then have "overlay_find (start nodes) k = Some n" by simp
    from extendedD(3) [OF ext this] obtain as where as: "overlay_find ov k = Some (n\<lparr>tn_assignments := as\<rparr>)"
      "entries (lb_codec lb) as \<subseteq> grants (lb_codec lb) n \<union> A k" by blast
    then show "overlay_find ov k = None \<Longrightarrow> may_remove lb op nodes k n" by simp
    fix n'
    assume "overlay_find ov k = Some n'"
    then show "lawful_change lb op nodes k n n'" using as A [OF n] by (auto intro!: lawful_change_assignments)
  qed
  then show ?thesis
    using extendedD(1,2) [OF ext] tree_ok_start(1) [OF assms(1)] by (simp add: lawful_plan_def)
qed

lemma lawful_plan_regranted:
  assumes "tree_ok nodes" and "regranted (lb_codec lb) A (start nodes) ov"
    and "\<And>k n. map_of nodes k = Some n \<Longrightarrow> A k \<subseteq> {g. may_grant lb op nodes k g}"
  shows "lawful_plan lb op nodes ov"
  using assms regranted_view_ok [OF assms(2)] tree_ok_start(2) [OF assms(1)]
  by (intro lawful_plan_extended [OF assms(1) extended_regranted [OF assms(2)]]) auto

text \<open>Taking entries away afterwards changes nothing.\<close>

lemma lawful_plan_swept:
  assumes plan: "lawful_plan lb op nodes ov" and swept: "regranted (lb_codec lb) (\<lambda>_. {}) ov ov'"
  shows "lawful_plan lb op nodes ov'"
proof -
  have law: "lawful lb op nodes (overlay_find ov)" using plan by (simp add: lawful_plan_def)
  have "lawful lb op nodes (overlay_find ov')"
  proof (rule lawfulI)
    show "view_ok (overlay_find ov')" using law by (intro regranted_view_ok [OF swept]) (simp add: lawful_def)
    fix k n
    assume n: "map_of nodes k = Some n"
    show "may_remove lb op nodes k n" if "overlay_find ov' k = None"
      using lawfulD(1) [OF law n] that by (simp add: regranted_None_iff [OF swept])
    fix n'
    assume n': "overlay_find ov' k = Some n'"
    then obtain m where m: "overlay_find ov k = Some m" using regrantedD(3) [OF swept] by (cases "overlay_find ov k") auto
    from regrantedD(4) [OF swept m] n' obtain as where
      "n' = m\<lparr>tn_assignments := as\<rparr>" "entries (lb_codec lb) as \<subseteq> grants (lb_codec lb) m" by auto
    then show "lawful_change lb op nodes k n n'" using lawful_change_less [OF lawfulD(2) [OF law n m]] by simp
  qed
  then show ?thesis using plan regrantedD(1,2) [OF swept] by (simp add: lawful_plan_def)
qed

text \<open>A plan that edits one node.\<close>

lemma lawful_plan_edit:
  assumes "tree_ok nodes" and n: "map_of nodes k = Some n" and change: "lawful_change lb op nodes k n (f n)"
    and f: "tn_parent_id (f n) = [] \<longleftrightarrow> tn_parent_id n = []"
    and mesh: "\<And>l m. tn_mesh_pubkey (f n) \<noteq> [] \<Longrightarrow> l \<noteq> k \<Longrightarrow> map_of nodes l = Some m \<Longrightarrow>
      tn_mesh_pubkey m \<noteq> tn_mesh_pubkey (f n)"
  shows "lawful_plan lb op nodes (overlay_edit k f (start nodes))"
proof -
  note ok = tree_ok_start [OF assms(1)]
  have fields: "tn_id (f n) = tn_id n" "tn_type (f n) = tn_type n" "tn_endpoint_identifier (f n) = tn_endpoint_identifier n"
    using change by (simp_all add: lawful_change_def Let_def)
  have find: "overlay_find (overlay_edit k f (start nodes)) = (map_of nodes)(k \<mapsto> f n)"
    using n by (simp add: overlay_find_edit)
  have "lawful lb op nodes ((map_of nodes)(k \<mapsto> f n))"
  proof (rule lawfulI)
    show "view_ok ((map_of nodes)(k \<mapsto> f n))" using view_ok_replace [OF ok(3) n] fields f mesh by blast
    fix j m
    assume m: "map_of nodes j = Some m"
    show "((map_of nodes)(k \<mapsto> f n)) j = None \<Longrightarrow> may_remove lb op nodes j m" using m by (simp split: if_splits)
    show "((map_of nodes)(k \<mapsto> f n)) j = Some n' \<Longrightarrow> lawful_change lb op nodes j m n'" for n'
      using m n change lawful_change_same by (auto split: if_splits)
  qed
  moreover have "overlay_ok (overlay_edit k f (start nodes))"
    by (rule overlay_ok_edit [OF ok(1)]) (use n fields in simp)
  ultimately show ?thesis by (simp add: lawful_plan_def find)
qed

section \<open>What acceptance tells\<close>

lemma verdict_None [simp]:
  "and_then v w = None \<longleftrightarrow> v = None \<and> w = None"
  "unless ok refusal reason = None \<longleftrightarrow> ok"
  "refuse refusal reason \<noteq> None"
  "ruling_verdict r = None \<longleftrightarrow> r = None"
  "content_verdict r' = None \<longleftrightarrow> r' = None"
  by (simp_all add: and_then_def unless_def refuse_def ruling_verdict_def content_verdict_def split: option.split)

lemma validate_op_None:
  assumes "validate_op lb op state bt committed = None"
  shows "format_verdict op = None" "signature_verdict lb op (ts_policy state) = None" "freshness_verdict op bt = None"
    "replay_verdict lb op committed = None" "statement_verdict lb op (ts_policy state) bt = None"
    "target_verdict op (ts_nodes state) = None" "authority_verdict lb op state = None"
    "\<exists>effect. plan_op lb op (ts_nodes state) = Inr effect"
  using assms by (simp_all add: validate_op_def split: sum.splits)

lemma format_None:
  assumes "format_verdict op = None"
  shows "op_kind_known (op_kind op)" "source_allowed (op_kind op) (tb_source (op_body op))" "op_target op \<noteq> []"
  using assms by (simp_all add: format_verdict_def Let_def split: if_splits)

lemma delta_statement:
  assumes "statement_verdict lb op policy bt = None" and "tb_source (op_body op) = Delta"
  shows "op_principal op = td_signer_pubkey (tb_delta (op_body op))"
    and "op_kind op = CreateNode \<Longrightarrow> td_operation (tb_delta (op_body op)) = ''create_node''"
    and "op_kind op = DeleteNode \<Longrightarrow> td_operation (tb_delta (op_body op)) = ''delete_node'' \<and>
      td_target_node_id (tb_delta (op_body op)) = op_target op"
    and "op_kind op = UpdateFields \<Longrightarrow> required_permission_for (td_operation (tb_delta (op_body op))) = EditNode \<and>
      td_target_node_id (tb_delta (op_body op)) = op_target op"
  using assms by (simp_all add: statement_verdict_def delta_statement_verdict_def Let_def split: if_splits)

lemma accepted_create:
  assumes "statement_verdict lb op policy bt = None" and "op_kind op = CreateNode"
    and "source_allowed (op_kind op) (tb_source (op_body op))" and "create_verdict lb op nodes = None"
  shows "create_refusal (lb_codec lb) nodes (op_node op) (op_principal op) = None"
    and "\<exists>parent. map_of nodes (tn_parent_id (op_node op)) = Some parent \<and>
      signer_has_permission (lb_codec lb) parent (op_principal op) AddChild"
proof -
  show "\<exists>parent. map_of nodes (tn_parent_id (op_node op)) = Some parent \<and>
      signer_has_permission (lb_codec lb) parent (op_principal op) AddChild"
    using assms(4) by (simp add: create_verdict_def split: option.splits if_splits)
  have "delta_content_refusal (lb_codec lb) nodes (content_delta op ''create_node'' (op_node op)) = None"
    using assms(4) by (simp add: create_verdict_def split: option.splits if_splits)
  then show "create_refusal (lb_codec lb) nodes (op_node op) (op_principal op) = None"
    using delta_statement [OF assms(1)] assms(2)
    by (cases "tb_source (op_body op) = Delta") (simp_all add: delta_content_refusal_def content_delta_def op_node_def default_delta_def Let_def)
qed

lemma accepted_update:
  assumes "statement_verdict lb op policy bt = None" and "op_kind op = UpdateFields"
    and n: "map_of nodes (op_target op) = Some n" and "update_verdict lb op nodes n = None"
  shows "update_refusal (lb_codec lb) nodes n (op_node op) (op_principal op) = None"
    and "may_edit lb op (op_target op) n"
proof -
  show "may_edit lb op (op_target op) n"
    using assms(2,4) by (simp add: update_verdict_def may_edit_def split: if_splits)
  have "delta_content_refusal (lb_codec lb) nodes (content_delta op ''update_node'' (op_node op)) = None"
    using assms(4) by (simp add: update_verdict_def split: if_splits)
  moreover have "op \<noteq> ''create_node'' \<and> op \<noteq> ''delete_node''" if "required_permission_for op = EditNode" for op
    using that by (auto simp: required_permission_for_def AddChild_def EditNode_def DeleteNodePermission_def)
  ultimately show "update_refusal (lb_codec lb) nodes n (op_node op) (op_principal op) = None"
    using delta_statement [OF assms(1)] assms(2) n
    by (cases "tb_source (op_body op) = Delta") (simp_all add: delta_content_refusal_def content_delta_def op_node_def default_delta_def Let_def)
qed

lemma accepted_delete:
  assumes "statement_verdict lb op policy bt = None" and "op_kind op = DeleteNode"
    and "source_allowed (op_kind op) (tb_source (op_body op))"
    and n: "map_of nodes (op_target op) = Some n" and "delete_verdict lb op nodes n = None"
    and ok: "view_ok (map_of nodes)"
  shows "op_target op \<noteq> ''root''" and "may_remove lb op nodes (op_target op) n"
proof -
  have "delta_content_refusal (lb_codec lb) nodes (content_delta op ''delete_node'' default_node) = None"
    using assms(5) by (simp add: delete_verdict_def Let_def split: if_splits)
  then have "tn_parent_id n \<noteq> []"
    using delta_statement [OF assms(1)] assms(2) n
    by (cases "tb_source (op_body op) = Delta")
      (simp_all add: delta_content_refusal_def content_delta_def default_delta_def Let_def split: if_splits)
  then show root: "op_target op \<noteq> ''root''" using view_ok_node(5) [OF ok n] by simp
  show "may_remove lb op nodes (op_target op) n"
    using root assms(2,3,5) by (auto simp: delete_verdict_def may_remove_def source_allowed_def Let_def split: if_splits)
qed

section \<open>The plan of each kind\<close>

lemma lawful_create:
  assumes tree: "tree_ok nodes" and target: "op_target op \<noteq> []"
    and refusal: "create_refusal (lb_codec lb) nodes (op_node op) (op_principal op) = None"
    and plan: "plan_create op (start nodes) = Inr ov"
  shows "lawful_plan lb op nodes ov"
proof -
  let ?node = "(op_node op)\<lparr>tn_id := op_target op\<rparr>"
  note ok = tree_ok_start [OF tree]
  from plan have ov: "ov = overlay_put ?node (start nodes)" and new: "map_of nodes (op_target op) = None"
    and parent: "tn_parent_id ?node \<noteq> []" "map_of nodes (tn_parent_id ?node) \<noteq> None"
    and free: "\<not> overlay_identifier_taken (start nodes) (tn_endpoint_identifier ?node) (op_target op)"
      "\<not> overlay_mesh_taken (start nodes) (tn_mesh_pubkey ?node) (op_target op)"
    by (simp_all add: plan_create_def Let_def split: if_splits option.splits)
  have root: "map_of nodes ''root'' \<noteq> None" using parent(2) view_ok_node(3) [OF ok(3)] by blast
  have kind: "tn_type ?node \<noteq> Root" using refusal by (simp add: create_refusal_def split: if_splits)
  have "view_ok (overlay_find ov)"
    unfolding ov by (rule view_ok_put_new) (use ok root new target kind parent free in simp_all)
  moreover have "extended (lb_codec lb) (\<lambda>_. {}) (start nodes) ov"
    unfolding ov by (rule extended_put) (use new in simp)
  ultimately show ?thesis using lawful_plan_extended [OF tree, of lb "\<lambda>_. {}"] by simp
qed

lemma set_sorted_names [simp]: "set (sorted_names names) = set names"
  by (simp add: sorted_names_def)

text \<open>The comparison of assignments by \<open>assignment_map\<close> is a comparison of what is granted.\<close>

lemma assignment_map_entries:
  "(c, p) \<in> entries cd as \<longleftrightarrow> (\<exists>perms. map_of (assignment_map cd as) c = Some perms \<and> p \<in> set perms)"
proof -
  let ?step = "\<lambda>out a. let key = canonical_principal cd (as_management_pubkey a);
      perms = (case map_of out key of None \<Rightarrow> [] | Some perms \<Rightarrow> perms)
    in smap_put key (perms @ as_permissions a) out"
  let ?held = "\<lambda>out. \<exists>perms. map_of out c = Some perms \<and> p \<in> set perms"
  have "?held (foldl ?step out as) \<longleftrightarrow> ?held out \<or> (c, p) \<in> entries cd as" for out
  proof (induction as arbitrary: out)
    case (Cons a as)
    have "?held (?step out a) \<longleftrightarrow> ?held out \<or> c = canonical_principal cd (as_management_pubkey a) \<and> p \<in> set (as_permissions a)"
      by (cases "map_of out (canonical_principal cd (as_management_pubkey a))") (auto simp: Let_def smap_get_put)
    then show ?case using Cons.IH [of "?step out a"] by auto
  qed simp
  from this [of "[]"] show ?thesis by (auto simp: assignment_map_def map_of_map)
qed

lemma update_grants:
  assumes "update_refusal cd nodes n data signer = None" and new: "g \<in> grants cd data" "g \<notin> grants cd n"
  shows "\<exists>anchor. admin_anchor cd nodes (tn_id n) signer = Some anchor \<and> principal_joined_under cd nodes anchor (fst g)"
proof -
  let ?before = "assignment_map cd (tn_assignments n)" and ?after = "assignment_map cd (tn_assignments data)"
  obtain c p where g: "g = (c, p)" by (cases g)
  from new(1) obtain perms where perms: "map_of ?after c = Some perms" "p \<in> set perms"
    unfolding g grants_def assignment_map_entries by blast
  from new(2) have before: "map_of ?before c \<noteq> Some perms"
    using perms(2) unfolding g grants_def assignment_map_entries by blast
  then have differ: "?before \<noteq> ?after" using perms(1) by auto
  from assms(1) have last: "(if ?before = ?after then None
      else case admin_anchor cd nodes (tn_id n) signer of
             None \<Rightarrow> Some ''only an admin of this node or an ancestor may change assignments''
           | Some anchor \<Rightarrow>
               if list_ex (\<lambda>(who, perms). map_of ?before who \<noteq> Some perms \<and> \<not> principal_joined_under cd nodes anchor who) ?after
                 then Some ''assignment names an identity that has not joined'' else None) = None"
    unfolding update_refusal_def Let_def by (simp split: if_split_asm)
  then obtain anchor where anchor: "admin_anchor cd nodes (tn_id n) signer = Some anchor"
    and all: "\<not> list_ex (\<lambda>(who, perms). map_of ?before who \<noteq> Some perms \<and> \<not> principal_joined_under cd nodes anchor who) ?after"
    using differ by (simp split: option.splits if_splits)
  have "principal_joined_under cd nodes anchor c"
    using all map_of_SomeD [OF perms(1)] before by (force simp: list_ex_iff)
  then show ?thesis using anchor g by simp
qed

lemma lawful_update:
  assumes tree: "tree_ok nodes" and n: "map_of nodes (op_target op) = Some n"
    and refusal: "update_refusal (lb_codec lb) nodes n (op_node op) (op_principal op) = None"
    and edit: "may_edit lb op (op_target op) n"
    and plan: "plan_update op (start nodes) = Inr ov"
  shows "lawful_plan lb op nodes ov"
proof -
  let ?node = "(op_node op)\<lparr>tn_id := op_target op\<rparr>" and ?cd = "lb_codec lb"
  note ok = tree_ok_start [OF tree]
  have nid: "tn_id n = op_target op" by (rule view_ok_node(1) [OF ok(3) n])
  from plan n have "ov = overlay_put ?node (start nodes)"
    and free: "\<not> overlay_mesh_taken (start nodes) (tn_mesh_pubkey ?node) (op_target op)"
    by (simp_all add: plan_update_def Let_def split: if_splits option.splits)
  then have ov: "ov = overlay_edit (op_target op) (\<lambda>_. ?node) (start nodes)"
    using n by (simp add: overlay_edit_def overlay_put_def)
  from refusal have same: "tn_parent_id ?node = tn_parent_id n" "tn_type ?node = tn_type n"
      "canonical_principal ?cd (tn_mgmt_pubkey ?node) = canonical_principal ?cd (tn_mgmt_pubkey n)"
      "tn_endpoint_identifier ?node = tn_endpoint_identifier n"
    and addresses: "tn_tunnel_ip ?node = tn_tunnel_ip n \<and> tn_private_subnet ?node = tn_private_subnet n \<or>
      administers_root ?cd nodes (op_target op) (op_principal op)"
    by (simp_all add: update_refusal_def nid split: if_splits)
  have kind: "op_kind op = UpdateFields" using edit by (simp add: may_edit_def)
  have "grants ?cd ?node \<subseteq> grants ?cd n \<union> {g. may_grant lb op nodes (op_target op) g}"
  proof
    fix g
    assume "g \<in> grants ?cd ?node"
    then have "g \<in> grants ?cd (op_node op)" by (simp add: grants_def)
    then show "g \<in> grants ?cd n \<union> {g. may_grant lb op nodes (op_target op) g}"
      using update_grants [OF refusal, of g] kind by (auto simp: may_grant_def nid Let_def)
  qed
  then have "lawful_change lb op nodes (op_target op) n ?node"
    using same addresses edit by (auto simp: lawful_change_def nid Let_def)
  moreover have "tn_mesh_pubkey m \<noteq> tn_mesh_pubkey ?node"
    if "tn_mesh_pubkey ?node \<noteq> []" "l \<noteq> op_target op" "map_of nodes l = Some m" for l m
    using free that by (auto simp: mesh_taken_iff [OF ok(1)])
  ultimately show ?thesis unfolding ov using same by (intro lawful_plan_edit [OF tree n]) auto
qed

lemma entries_replace:
  "entries cd (replace_assignment cd who perms as) \<subseteq> entries cd as \<union> {canonical_principal cd who} \<times> set perms"
  using entries_filter [of cd "\<lambda>a. canonical_principal cd (as_management_pubkey a) \<noteq> canonical_principal cd who" as]
  by (auto simp: replace_assignment_def)

lemma find_None: "List.find P xs = None \<Longrightarrow> x \<in> set xs \<Longrightarrow> \<not> P x"
  by (auto simp: find_None_iff)

lemma lawful_replace:
  assumes "tree_ok nodes" and "map_of nodes (op_target op) = Some n"
    and "\<And>p. p \<in> set perms \<Longrightarrow> may_grant lb op nodes (op_target op) (canonical_principal (lb_codec lb) who, p)"
    and "plan_edit op (\<lambda>n. n\<lparr>tn_assignments := replace_assignment (lb_codec lb) who perms (tn_assignments n)\<rparr>) (start nodes)
      = Inr ov"
  shows "lawful_plan lb op nodes ov"
proof -
  let ?f = "\<lambda>n. n\<lparr>tn_assignments := replace_assignment (lb_codec lb) who perms (tn_assignments n)\<rparr>"
  from assms(4) have ov: "ov = overlay_edit (op_target op) ?f (start nodes)"
    by (simp add: plan_edit_def split: if_splits)
  have "entries (lb_codec lb) (replace_assignment (lb_codec lb) who perms (tn_assignments n)) \<subseteq>
      grants (lb_codec lb) n \<union> {g. may_grant lb op nodes (op_target op) g}"
    using entries_replace [of "lb_codec lb" who perms "tn_assignments n"] assms(3) unfolding grants_def by auto
  then have "lawful_change lb op nodes (op_target op) n (?f n)" by (rule lawful_change_assignments)
  then show ?thesis unfolding ov
    by (intro lawful_plan_edit [OF assms(1,2)]) (use view_ok_mesh [OF tree_ok_start(3) [OF assms(1)] assms(2)] in \<open>auto dest: sym\<close>)
qed

lemma lawful_set_assignment:
  assumes "tree_ok nodes" and "op_kind op = SetAssignment"
    and refusal: "assignment_change_refusal (lb_codec lb) nodes (op_target op) (op_principal op)
      (tb_assignment_principal (op_body op)) (tb_assignment_permissions (op_body op)) = None"
    and "plan_edit op (\<lambda>n. n\<lparr>tn_assignments := replace_assignment (lb_codec lb) (tb_assignment_principal (op_body op))
      (tb_assignment_permissions (op_body op)) (tn_assignments n)\<rparr>) (start nodes) = Inr ov"
  shows "lawful_plan lb op nodes ov"
proof -
  let ?perms = "tb_assignment_permissions (op_body op)" and ?who = "tb_assignment_principal (op_body op)"
  from refusal obtain n where n: "map_of nodes (op_target op) = Some n"
    and known: "List.find (\<lambda>p. \<not> permission_name_known p) ?perms = None"
    and anchor: "?perms \<noteq> [] \<Longrightarrow> \<exists>anchor. admin_anchor (lb_codec lb) nodes (op_target op) (op_principal op) = Some anchor \<and>
      principal_joined_under (lb_codec lb) nodes anchor ?who"
    by (auto simp: assignment_change_refusal_def split: option.splits if_splits)
  show ?thesis
  proof (rule lawful_replace [OF assms(1) n _ assms(4)])
    fix p
    assume p: "p \<in> set ?perms"
    then have "?perms \<noteq> []" by auto
    from anchor [OF this] find_None [OF known p] p assms(2)
    show "may_grant lb op nodes (op_target op) (canonical_principal (lb_codec lb) ?who, p)"
      by (simp add: may_grant_def Let_def)
  qed
qed

lemma lawful_accept_invite:
  assumes "tree_ok nodes" and "op_kind op = AcceptInvite"
    and refusal: "invite_acceptance_refusal (lb_codec lb) nodes (op_target op) (op_principal op) (tb_inviter (op_body op))
      (tb_invite_permissions (op_body op)) = None"
    and "plan_edit op (\<lambda>n. n\<lparr>tn_assignments := replace_assignment (lb_codec lb) (op_principal op)
      (tb_invite_permissions (op_body op)) (tn_assignments n)\<rparr>) (start nodes) = Inr ov"
  shows "lawful_plan lb op nodes ov"
proof -
  let ?perms = "tb_invite_permissions (op_body op)" and ?inviter = "tb_inviter (op_body op)"
  from refusal have "invite_refusal (lb_codec lb) nodes (op_target op) ?inviter ?perms = None"
    by (simp add: invite_acceptance_refusal_def split: option.splits)
  then obtain n where n: "map_of nodes (op_target op) = Some n" "tn_type n = Customer"
    and allowed: "List.find (\<lambda>p. \<not> invite_permission_allowed p) ?perms = None"
    and held: "List.find (\<lambda>p. \<not> invite_held (lb_codec lb) nodes (op_target op) n ?inviter p) ?perms = None"
    by (simp add: invite_refusal_def split: option.splits if_splits)
  show ?thesis
  proof (rule lawful_replace [OF assms(1) n(1) _ assms(4)])
    fix p
    assume p: "p \<in> set ?perms"
    from find_None [OF allowed p] find_None [OF held p] p n assms(2)
    show "may_grant lb op nodes (op_target op) (canonical_principal (lb_codec lb) (op_principal op), p)"
      by (simp add: may_grant_def Let_def)
  qed
qed

lemma lawful_set_endpoint:
  assumes "tree_ok nodes" and "op_kind op = SetEndpoint" and n: "map_of nodes (op_target op) = Some n"
    and verdict: "endpoint_verdict lb op n = None"
    and plan: "plan_edit op (\<lambda>n. n\<lparr>tn_listen_endpoint := tb_listen_endpoint (op_body op)\<rparr>) (start nodes) = Inr ov"
  shows "lawful_plan lb op nodes ov"
proof -
  let ?f = "\<lambda>n :: tree_node. n\<lparr>tn_listen_endpoint := tb_listen_endpoint (op_body op)\<rparr>"
  from plan have ov: "ov = overlay_edit (op_target op) ?f (start nodes)" by (simp add: plan_edit_def split: if_splits)
  have "lawful_change lb op nodes (op_target op) n (?f n)"
    using verdict assms(2) by (auto simp: lawful_change_def endpoint_verdict_def grants_def Let_def)
  then show ?thesis unfolding ov
    by (intro lawful_plan_edit [OF assms(1) n]) (use view_ok_mesh [OF tree_ok_start(3) [OF assms(1)] n] in \<open>auto dest: sym\<close>)
qed

lemma lawful_establish:
  assumes tree: "tree_ok nodes" and "op_target op = ''root''" and new: "map_of nodes (op_target op) = None"
    and ov: "ov = overlay_put (make_root_node key) (start nodes)"
  shows "lawful_plan lb op nodes ov"
proof -
  note ok = tree_ok_start [OF tree]
  have empty: "map_of nodes k = None" for k
    using view_ok_node(3) [OF ok(3), of k] new assms(2) by (cases "map_of nodes k") auto
  have "overlay_find ov = [''root'' \<mapsto> make_root_node key]"
    unfolding ov overlay_find_put by (auto simp: fun_eq_iff empty make_root_node_def)
  moreover have "view_ok [''root'' \<mapsto> make_root_node key]"
    by (rule view_okI) (auto simp: make_root_node_def default_node_def split: if_splits)
  ultimately show ?thesis
    using ok(1) by (auto simp: lawful_plan_def lawful_def empty overlay_ok_put ov split: option.split)
qed

lemma lawful_delete:
  assumes tree: "tree_ok nodes" and n: "map_of nodes (op_target op) = Some n"
    and remove: "op_target op \<noteq> ''root''" "may_remove lb op nodes (op_target op) n"
    and plan: "plan_delete op (start nodes) = Inr ov"
  shows "lawful_plan lb op nodes ov"
proof -
  let ?erased = "overlay_erase (op_target op) (start nodes)"
  note ok = tree_ok_start [OF tree]
  have "lawful lb op nodes (overlay_find ?erased)"
    unfolding overlay_find_erase overlay_find_start
  proof (rule lawfulI)
    show "view_ok ((map_of nodes)(op_target op := None))" by (rule view_ok_erase [OF ok(3) remove(1)])
  qed (use n remove in \<open>auto simp: lawful_change_same split: if_splits\<close>)
  then have "lawful_plan lb op nodes ?erased" using ok(1) by (simp add: lawful_plan_def overlay_ok_erase)
  moreover have "regranted (lb_codec lb) (\<lambda>_. {}) ?erased ov"
    using plan n regranted_foldl [OF regranted_sweep_deleted] regranted_refl
    by (auto simp: plan_delete_def Let_def split: if_splits)
  ultimately show ?thesis by (rule lawful_plan_swept)
qed

lemma move_refusal_None:
  assumes "move_refusal cd nodes k parent signer = None"
  obtains n where "map_of nodes k = Some n" "tn_parent_id n \<noteq> []" "\<not> at_or_under nodes parent k"
    "holds_or_administers cd nodes parent signer AddChild" "map_of nodes parent \<noteq> None"
    "admin_anchor cd nodes k signer \<noteq> None \<or> holds_or_administers cd nodes k signer DeleteNodePermission"
  using assms by (auto simp: move_refusal_def split: option.splits if_splits)

lemma lawful_move:
  assumes tree: "tree_ok nodes" and kind: "op_kind op = MoveNode"
    and refusal: "move_refusal (lb_codec lb) nodes (op_target op) (tb_new_parent_id (op_body op)) (op_principal op) = None"
    and plan: "plan_move (lb_codec lb) op (start nodes) = Inr ov"
  shows "lawful_plan lb op nodes ov"
proof -
  let ?parent = "tb_new_parent_id (op_body op)" and ?k = "op_target op"
  let ?f = "\<lambda>n. n\<lparr>tn_parent_id := ?parent, tn_signature := []\<rparr>"
  let ?moved = "overlay_edit ?k ?f (start nodes)"
  note ok = tree_ok_start [OF tree]
  from refusal obtain n where n: "map_of nodes ?k = Some n" and root: "tn_parent_id n \<noteq> []"
    and move: "\<not> at_or_under nodes ?parent ?k" "holds_or_administers (lb_codec lb) nodes ?parent (op_principal op) AddChild"
      "admin_anchor (lb_codec lb) nodes ?k (op_principal op) \<noteq> None \<or>
       holds_or_administers (lb_codec lb) nodes ?k (op_principal op) DeleteNodePermission"
    and found: "map_of nodes ?parent \<noteq> None"
    by (rule move_refusal_None)
  have parent: "?parent \<noteq> []" using found view_ok_node(2) [OF ok(3)] by auto
  have "may_move lb op nodes ?k ?parent"
    using kind move root view_ok_node(5) [OF ok(3) n] by (simp add: may_move_def Let_def)
  then have "lawful_change lb op nodes ?k n (?f n)" by (simp add: lawful_change_def grants_def Let_def)
  then have "lawful_plan lb op nodes ?moved"
    by (intro lawful_plan_edit [OF tree n]) (use root parent view_ok_mesh [OF ok(3) n] in \<open>auto dest: sym\<close>)
  moreover have "regranted (lb_codec lb) (\<lambda>_. {}) ?moved ov"
    using plan n found regranted_foldl [OF regranted_sweep_moved] regranted_refl
    by (auto simp: plan_move_def Let_def split: if_splits)
  ultimately show ?thesis by (rule lawful_plan_swept)
qed

lemma overlay_erase_all:
  "overlay_ok ov \<Longrightarrow> overlay_ok (foldl (\<lambda>ov nid. overlay_erase nid ov) ov ids)"
  "ov_base (foldl (\<lambda>ov nid. overlay_erase nid ov) ov ids) = ov_base ov"
  "overlay_find (foldl (\<lambda>ov nid. overlay_erase nid ov) ov ids) = (\<lambda>k. if k \<in> set ids then None else overlay_find ov k)"
  by (induction ids arbitrary: ov) (auto simp: overlay_ok_erase overlay_find_erase)

lemma view_ok_erase_all: "view_ok F \<Longrightarrow> ''root'' \<notin> set ids \<Longrightarrow> view_ok (\<lambda>k. if k \<in> set ids then None else F k)"
proof (induction ids arbitrary: F)
  case (Cons i ids)
  have "(\<lambda>k. if k \<in> set (i # ids) then None else F k) = (\<lambda>k. if k \<in> set ids then None else (F(i := None)) k)" by auto
  moreover have "view_ok (\<lambda>k. if k \<in> set ids then None else (F(i := None)) k)"
    using Cons.prems by (intro Cons.IH view_ok_erase) auto
  ultimately show ?case by simp
qed simp

lemma lawful_delete_account:
  assumes tree: "tree_ok nodes" and kind: "op_kind op = DeleteAccount"
  shows "lawful_plan lb op nodes (plan_delete_account (lb_codec lb) op nodes (start nodes))"
proof -
  let ?scope = "account_scope (lb_codec lb) nodes (op_principal op)"
  let ?erased = "foldl (\<lambda>ov nid. overlay_erase nid ov) (start nodes) (sc_removed ?scope)"
  note ok = tree_ok_start [OF tree]
  have removed: "\<exists>s. owned_by (lb_codec lb) nodes (canonical_principal (lb_codec lb) (op_principal op)) s \<and> beneath nodes s k"
    if "k \<in> set (sc_removed ?scope)" for k
    using that set_account_scope(1) [of "lb_codec lb" "op_principal op" nodes] doomed_ids_iff
    by (cases "canonical_principal (lb_codec lb) (op_principal op) = []") (auto simp: account_scope_def)
  have root: "k \<noteq> ''root''" if "k \<in> set (sc_removed ?scope)" for k
  proof -
    from removed [OF that] obtain s where
      s: "owned_by (lb_codec lb) nodes (canonical_principal (lb_codec lb) (op_principal op)) s" "beneath nodes s k" by blast
    from s(2,1) obtain n where "map_of nodes k = Some n" "tn_type n \<noteq> Root"
      by cases (auto simp: owned_by_def split: option.splits)
    then show ?thesis using view_ok_node(4) [OF ok(3)] by blast
  qed
  have "lawful lb op nodes (overlay_find ?erased)"
    unfolding overlay_erase_all overlay_find_start
  proof (rule lawfulI)
    show "view_ok (\<lambda>k. if k \<in> set (sc_removed ?scope) then None else map_of nodes k)"
      using root by (intro view_ok_erase_all ok(3)) blast
  qed (use removed root kind in \<open>auto simp: lawful_change_same may_remove_def Let_def split: if_splits\<close>)
  then have "lawful_plan lb op nodes ?erased" using ok(1) by (simp add: lawful_plan_def overlay_erase_all)
  then show ?thesis
    by (rule lawful_plan_swept)
      (simp add: plan_delete_account_def Let_def regranted_refl regranted_foldl regranted_sweep_account)
qed

lemma lawful_join:
  assumes tree: "tree_ok nodes" and kind: "op_kind op = Join" and target: "op_target op \<noteq> []"
    and plan: "plan_join cr (lb_codec lb) op (start nodes) = Inr ov"
  shows "lawful_plan lb op nodes ov"
proof -
  let ?A = "join_grants (lb_codec lb) (js_device_pubkey (tb_join (op_body op))) (map_of nodes)"
  note ok = tree_ok_start [OF tree]
  have A: "?A k \<subseteq> {g. may_grant lb op nodes k g}" for k using kind by (auto simp: may_grant_def Let_def)
  show ?thesis
  proof (cases "map_of nodes (op_target op)")
    case None
    then have "overlay_find (start nodes) (op_target op) = None" by simp
    from plan_join_new [OF plan this ok(1,2) target]
    have "extended (lb_codec lb) (fresh_or (map_of nodes) ?A) (start nodes) ov" "view_ok (overlay_find ov)" by simp_all
    then show ?thesis by (rule lawful_plan_extended [OF tree]) (use A in \<open>simp add: fresh_or_def\<close>)
  next
    case (Some existing)
    then have "overlay_find (start nodes) (op_target op) = Some existing" by simp
    from plan_join_returning [OF plan this ok(1,2)] obtain mid where
      mid: "regranted (lb_codec lb) ?A (start nodes) mid" and joined: "join_returning cr op existing mid = Inr ov"
      and result: "view_ok (overlay_find ov)" "overlay_ok ov" "ov_base ov = nodes" by auto
    have law: "lawful lb op nodes (overlay_find mid)"
      using lawful_plan_regranted [OF tree mid A] by (simp add: lawful_plan_def)
    from joined have "lawful lb op nodes (overlay_find ov)"
    proof (cases rule: join_returning_cases)
      case (changed ip mesh)
      let ?f = "\<lambda>n. n\<lparr>tn_tunnel_ip := ip, tn_mesh_pubkey := mesh\<rparr>"
      have find: "overlay_find ov k = (if k = op_target op then map_option ?f (overlay_find mid k) else overlay_find mid k)" for k
        unfolding changed(1) overlay_find_edit by (simp split: option.split)
      show ?thesis
      proof (rule lawfulI [OF result(1)])
        fix k n
        assume n: "map_of nodes k = Some n"
        show "overlay_find ov k = None \<Longrightarrow> may_remove lb op nodes k n"
          using lawfulD(1) [OF law n] by (simp add: find split: if_splits)
        fix n'
        assume n': "overlay_find ov k = Some n'"
        show "lawful_change lb op nodes k n n'"
        proof (cases "k = op_target op")
          case True
          then obtain m where m: "overlay_find mid k = Some m" "n' = ?f m" using n' by (auto simp: find)
          from lawfulD(2) [OF law n m(1)] show ?thesis
            using True n Some m(2) kind changed(2) by (auto simp: lawful_change_def grants_def Let_def)
        qed (use n' lawfulD(2) [OF law n] in \<open>simp add: find\<close>)
      qed
    qed (use law in simp)
    then show ?thesis using result by (simp add: lawful_plan_def)
  qed
qed

section \<open>Every accepted operation is lawful\<close>

lemma plan_op_Inr: "plan_op lb op nodes = Inr effect \<longleftrightarrow>
    (\<exists>ov. plan_changes lb op nodes (start nodes) = Inr ov \<and> effect = overlay_effect ov)"
  by (auto simp: plan_op_def split: sum.splits)

lemma accepted_lawful_plan:
  assumes tree: "tree_ok (ts_nodes state)" and valid: "validate_op lb op state bt committed = None"
    and plan: "plan_changes lb op (ts_nodes state) (start (ts_nodes state)) = Inr ov"
  shows "lawful_plan lb op (ts_nodes state) ov"
proof -
  let ?nodes = "ts_nodes state"
  note v = validate_op_None [OF valid]
  note f = format_None [OF v(1)]
  note ok = tree_ok_start [OF tree]
  have session: "tb_source (op_body op) = Session" if "op_kind op = EstablishRoot"
    using f(2) that by (simp add: source_allowed_def)
  have on_target: "\<exists>n. map_of ?nodes (op_target op) = Some n"
    if "op_kind op \<in> {UpdateFields, DeleteNode, SetEndpoint}"
    using v(6) that by (auto simp: target_verdict_def Let_def split: option.splits)
  show ?thesis
  proof (cases "op_kind op")
    case CreateNode
    then show ?thesis
      using lawful_create [OF tree f(3) accepted_create(1) [OF v(5) CreateNode f(2)]] v(7) plan
      by (simp add: authority_verdict_def plan_changes_def Let_def)
  next
    case UpdateFields
    then obtain n where n: "map_of ?nodes (op_target op) = Some n" using on_target by auto
    have "update_verdict lb op ?nodes n = None" using v(7) UpdateFields n by (simp add: authority_verdict_def on_target_def Let_def)
    from lawful_update [OF tree n accepted_update [OF v(5) UpdateFields n this]] plan UpdateFields
    show ?thesis by (simp add: plan_changes_def Let_def)
  next
    case DeleteNode
    then obtain n where n: "map_of ?nodes (op_target op) = Some n" using on_target by auto
    have "delete_verdict lb op ?nodes n = None" using v(7) DeleteNode n by (simp add: authority_verdict_def on_target_def Let_def)
    from lawful_delete [OF tree n accepted_delete [OF v(5) DeleteNode f(2) n this ok(3)]] plan DeleteNode
    show ?thesis by (simp add: plan_changes_def Let_def)
  next
    case SetEndpoint
    then obtain n where n: "map_of ?nodes (op_target op) = Some n" using on_target by auto
    from lawful_set_endpoint [OF tree SetEndpoint n] v(7) n plan SetEndpoint
    show ?thesis by (simp add: authority_verdict_def on_target_def plan_changes_def Let_def)
  next
    case EstablishRoot
    then have "op_target op = ''root''"
      using v(5) session by (simp add: statement_verdict_def session_statement_verdict_def Let_def split: if_splits)
    from lawful_establish [OF tree this _ refl] plan EstablishRoot
    show ?thesis by (auto simp: plan_changes_def Let_def split: if_splits)
  next
    case SetAssignment
    with lawful_set_assignment [OF tree] v(7) plan show ?thesis by (simp add: authority_verdict_def plan_changes_def Let_def)
  next
    case AcceptInvite
    with lawful_accept_invite [OF tree] v(7) plan show ?thesis by (simp add: authority_verdict_def plan_changes_def Let_def)
  next
    case MoveNode
    with lawful_move [OF tree] v(7) plan show ?thesis by (simp add: authority_verdict_def plan_changes_def Let_def)
  next
    case DeleteAccount
    with lawful_delete_account [OF tree] plan show ?thesis by (auto simp: plan_changes_def Let_def)
  next
    case Join
    with lawful_join [OF tree _ f(3)] plan show ?thesis by (simp add: plan_changes_def Let_def)
  next
    case (OtherKind x)
    then show ?thesis using f(1) by (simp add: op_kind_known_def)
  qed
qed

lemma lawful_change_version:
  "lawful_change lb op nodes k n n' \<Longrightarrow> lawful_change lb op nodes k n (n'\<lparr>tn_version := v\<rparr>)"
  by (simp add: lawful_change_def grants_def Let_def)

lemma lawful_plan_applied:
  assumes "lawful_plan lb op nodes ov"
  shows "lawful lb op nodes (map_of (apply_effect (overlay_effect ov) nodes))"
    and "tree_ok (apply_effect (overlay_effect ov) nodes)"
proof -
  have ov: "overlay_ok ov" "ov_base ov = nodes" and law: "lawful lb op nodes (overlay_find ov)"
    using assms by (auto simp: lawful_plan_def)
  note view = apply_overlay_view [OF ov(1), unfolded ov(2)]
  have "view_ok (overlay_find ov)" using law by (simp add: lawful_def)
  from tree_ok_apply [OF ov(1) this] show tree: "tree_ok (apply_effect (overlay_effect ov) nodes)" by (simp add: ov(2))
  show "lawful lb op nodes (map_of (apply_effect (overlay_effect ov) nodes))"
  proof (rule lawfulI)
    show "view_ok (map_of (apply_effect (overlay_effect ov) nodes))" using tree by (simp add: tree_ok_def)
    fix k n
    assume n: "map_of nodes k = Some n"
    show "map_of (apply_effect (overlay_effect ov) nodes) k = None \<Longrightarrow> may_remove lb op nodes k n"
      using lawfulD(1) [OF law n] view(1) by simp
    fix n'
    assume "map_of (apply_effect (overlay_effect ov) nodes) k = Some n'"
    from view(2) [OF this] lawfulD(2) [OF law n] show "lawful_change lb op nodes k n n'"
      using lawful_change_version by blast
  qed
qed

lemma accepted_lawful:
  assumes "tree_ok (ts_nodes state)" and "validate_op lb op state bt committed = None"
    and "plan_op lb op (ts_nodes state) = Inr effect"
  shows "lawful lb op (ts_nodes state) (map_of (apply_effect effect (ts_nodes state)))"
    and "tree_ok (apply_effect effect (ts_nodes state))"
  using assms(3) lawful_plan_applied [OF accepted_lawful_plan [OF assms(1,2)]] by (auto simp: plan_op_Inr)

end
