(* ===== verification/Tree_Chain.thy ===== *)
theory Tree_Chain
  imports Tree_Authority "HOL-Library.Sublist"
begin

text \<open>
  Batches of tree operations along the consensus chain: \<^verbatim>\<open>Tree/TreeBatch.cpp\<close> (the wire form of a batch)
  and \<^verbatim>\<open>Tree/TreeChain.cpp\<close> (the state a batch is checked against, the batch a leader selects, and the
  root that chains the blocks). The tree a replica holds is the tree these functions produce, so the
  contract of one operation is lifted here to every tree a chain of checked blocks reaches, and an
  operation, a signed statement or an invite that a block has used is shown never to be used again.
\<close>

section \<open>Batches\<close>

definition kMaxTreeBatchOps :: nat where "kMaxTreeBatchOps = 128"
definition kMaxTreeBatchOpBytes :: nat where "kMaxTreeBatchOpBytes = 48000"
definition kEd25519SignatureSize :: nat where "kEd25519SignatureSize = 64"

record tree_batch =
  ba_ops :: "tree_op list"

definition tree_batch_op_bytes :: "tree_batch \<Rightarrow> nat" where
  "tree_batch_op_bytes batch = foldl (\<lambda>total op. total + length (encode_tree_op op)) 0 (ba_ops batch)"

fun encode_batch_ops :: "library \<Rightarrow> nat \<Rightarrow> byte list \<Rightarrow> tree_op list \<Rightarrow> byte list option" where
  "encode_batch_ops lb op_bytes out [] = Some out"
| "encode_batch_ops lb op_bytes out (op # ops) =
     (case tree_op_signature_bytes lb op of
        None \<Rightarrow> None
      | Some signature \<Rightarrow>
          let encoded = encode_tree_op op; op_bytes = op_bytes + length encoded
          in if op_bytes > kMaxTreeBatchOpBytes then None
             else encode_batch_ops lb op_bytes
                    (out @ le_bytes 4 (of_nat (length encoded) :: u32) @ encoded @ be_bytes 64 signature) ops)"

definition encode_tree_batch :: "library \<Rightarrow> tree_batch \<Rightarrow> byte list option" where
  "encode_tree_batch lb batch =
     (if ba_ops batch = [] \<or> length (ba_ops batch) > kMaxTreeBatchOps then None
      else encode_batch_ops lb 0 (le_bytes 2 (of_nat (length (ba_ops batch)) :: u16)) (ba_ops batch))"

fun decode_batch_ops :: "library \<Rightarrow> nat \<Rightarrow> nat \<Rightarrow> byte list \<Rightarrow> (tree_op list \<times> byte list) option" where
  "decode_batch_ops lb 0 op_bytes bytes = Some ([], bytes)"
| "decode_batch_ops lb (Suc n) op_bytes bytes =
     (if length bytes < 4 then None
      else let len = unat (of_be_bytes (rev (take 4 bytes)) :: u32); bytes = drop 4 bytes
           in if len > kMaxTreeBatchOpBytes - op_bytes then None
              else if length bytes < len + kEd25519SignatureSize then None
              else case decode_tree_op lb (take len bytes)
                          (of_be_bytes (take kEd25519SignatureSize (drop len bytes))) of
                     None \<Rightarrow> None
                   | Some op \<Rightarrow>
                       (case decode_batch_ops lb n (op_bytes + len) (drop (len + kEd25519SignatureSize) bytes) of
                          None \<Rightarrow> None
                        | Some (ops, rest) \<Rightarrow> Some (op # ops, rest)))"

definition decode_tree_batch :: "library \<Rightarrow> byte list \<Rightarrow> tree_batch option" where
  "decode_tree_batch lb bytes =
     (if length bytes < 2 then None
      else let count = unat (of_be_bytes (rev (take 2 bytes)) :: u16)
           in if count = 0 \<or> count > kMaxTreeBatchOps then None
              else case decode_batch_ops lb count 0 (drop 2 bytes) of
                     Some (ops, []) \<Rightarrow> Some \<lparr>ba_ops = ops\<rparr>
                   | _ \<Rightarrow> None)"

section \<open>Chain state\<close>

definition kTreeStateRootDomain :: string where "kTreeStateRootDomain = ''lemonade-nexus/tree-state-root:v2''"
definition kTreeBaseRootDomain :: string where "kTreeBaseRootDomain = ''lemonade-nexus/tree-base-root:v1''"
definition kTreeCommittedIdsDomain :: string where
  "kTreeCommittedIdsDomain = ''lemonade-nexus/tree-committed-ids:v1''"

record tree_chain_state =
  cs_nodes :: node_map
  cs_committed :: committed_op_ids
  cs_last_block_time_ms :: u64
  cs_root :: digest

record tree_block_result =
  br_verdict :: verdict
  br_failed_index :: nat
  br_tree_digest :: digest
  br_root :: digest
  br_effects :: "tree_op_effect list"

definition empty_result :: tree_block_result where
  "empty_result = \<lparr>br_verdict = None, br_failed_index = 0, br_tree_digest = 0, br_root = 0, br_effects = []\<rparr>"

definition compute_committed_digest :: "library \<Rightarrow> committed_op_ids \<Rightarrow> digest" where
  "compute_committed_digest lb committed =
     encoder_digest (lb_crypto lb)
       (foldl (\<lambda>enc (i, signed_at). add_u64 (add_string enc i) signed_at)
          (add_u64 (canonical_encoder kTreeCommittedIdsDomain) (of_nat (length committed))) committed)"

definition tree_state_root :: "library \<Rightarrow> digest \<Rightarrow> digest \<Rightarrow> digest \<Rightarrow> digest \<Rightarrow> digest" where
  "tree_state_root lb previous_root ops_digest tree_digest committed_digest =
     encoder_digest (lb_crypto lb)
       (add_digest (add_digest (add_digest (add_digest (canonical_encoder kTreeStateRootDomain)
          previous_root) ops_digest) tree_digest) committed_digest)"

definition chain_state_root :: "library \<Rightarrow> digest \<Rightarrow> digest \<Rightarrow> tree_chain_state \<Rightarrow> digest" where
  "chain_state_root lb previous_root ops_digest state =
     tree_state_root lb previous_root ops_digest (compute_tree_digest lb (cs_nodes state))
       (compute_committed_digest lb (cs_committed state))"

definition base_state_root :: "library \<Rightarrow> digest \<Rightarrow> digest" where
  "base_state_root lb tree_digest =
     encoder_digest (lb_crypto lb) (add_digest (canonical_encoder kTreeBaseRootDomain) tree_digest)"

section \<open>Blocks\<close>

definition batch_shape :: "tree_batch \<Rightarrow> u64 \<Rightarrow> tree_chain_state \<Rightarrow> verdict" where
  "batch_shape batch block_time_ms state =
     (if ba_ops batch = [] then refuse Malformed ''empty tree batch''
      else if length (ba_ops batch) > kMaxTreeBatchOps then refuse Oversize ''tree batch holds too many ops''
      else if tree_batch_op_bytes batch > kMaxTreeBatchOpBytes then refuse Oversize ''tree batch is too large''
      else if block_time_ms \<le> cs_last_block_time_ms state
        then refuse StaleOp ''block time does not advance past the last tree block''
      else None)"

definition finish_block ::
  "library \<Rightarrow> u64 \<Rightarrow> digest \<Rightarrow> tree_chain_state \<Rightarrow> tree_block_result \<Rightarrow> tree_chain_state \<times> tree_block_result" where
  "finish_block lb block_time_ms ops_digest state out =
     (let committed = prune_signed_before (committed_id_cutoff (block_time_ms div 1000)) (cs_committed state);
          tree_digest = compute_tree_digest lb (cs_nodes state);
          root = tree_state_root lb (cs_root state) ops_digest tree_digest (compute_committed_digest lb committed)
      in (state\<lparr>cs_committed := committed, cs_last_block_time_ms := block_time_ms, cs_root := root\<rparr>,
          out\<lparr>br_tree_digest := tree_digest, br_root := root\<rparr>))"

text \<open>The loop over the operations of a batch: the state the earlier ones produced, and their effects; a
  refusal carries the index of the operation.\<close>

definition apply_op :: "library \<Rightarrow> tree_op \<Rightarrow> tree_op_effect \<Rightarrow> tree_chain_state \<Rightarrow> tree_chain_state" where
  "apply_op lb op effect state =
     state\<lparr>cs_nodes := apply_effect effect (cs_nodes state), cs_committed := record_committed lb op (cs_committed state)\<rparr>"

fun apply_ops :: "library \<Rightarrow> tree_op list \<Rightarrow> nat \<Rightarrow> tree_chain_state \<Rightarrow>
    (tree_op_refusal \<times> string) \<times> nat + tree_chain_state \<times> tree_op_effect list" where
  "apply_ops lb [] i state = Inr (state, [])"
| "apply_ops lb (op # ops) i state =
     (case plan_op lb op (cs_nodes state) of
        Inl r \<Rightarrow> Inl (r, i)
      | Inr effect \<Rightarrow>
          (case apply_ops lb ops (Suc i) (apply_op lb op effect state) of
             Inl e \<Rightarrow> Inl e
           | Inr (final, effects) \<Rightarrow> Inr (final, effect # effects)))"

definition judge_op :: "library \<Rightarrow> tree_op_policy \<Rightarrow> u64 \<Rightarrow> tree_op \<Rightarrow> tree_chain_state \<Rightarrow>
    (tree_op_refusal \<times> string) + tree_op_effect" where
  "judge_op lb policy block_time_sec op state =
     (case validate_op lb op \<lparr>ts_nodes = cs_nodes state, ts_policy = policy\<rparr> block_time_sec (cs_committed state) of
        Some r \<Rightarrow> Inl r
      | None \<Rightarrow> plan_op lb op (cs_nodes state))"

fun check_ops :: "library \<Rightarrow> tree_op_policy \<Rightarrow> u64 \<Rightarrow> tree_op list \<Rightarrow> nat \<Rightarrow> tree_chain_state \<Rightarrow>
    (tree_op_refusal \<times> string) \<times> nat + tree_chain_state \<times> tree_op_effect list" where
  "check_ops lb policy block_time_sec [] i state = Inr (state, [])"
| "check_ops lb policy block_time_sec (op # ops) i state =
     (case judge_op lb policy block_time_sec op state of
        Inl r \<Rightarrow> Inl (r, i)
      | Inr effect \<Rightarrow>
          (case check_ops lb policy block_time_sec ops (Suc i) (apply_op lb op effect state) of
             Inl e \<Rightarrow> Inl e
           | Inr (final, effects) \<Rightarrow> Inr (final, effect # effects)))"

definition close_block :: "library \<Rightarrow> u64 \<Rightarrow> digest \<Rightarrow> tree_chain_state \<Rightarrow>
    (tree_op_refusal \<times> string) \<times> nat + tree_chain_state \<times> tree_op_effect list \<Rightarrow> tree_chain_state \<times> tree_block_result" where
  "close_block lb block_time_ms ops_digest state outcome =
     (case outcome of
        Inl (r, i) \<Rightarrow> (state, empty_result\<lparr>br_verdict := Some r, br_failed_index := i\<rparr>)
      | Inr (final, effects) \<Rightarrow> finish_block lb block_time_ms ops_digest final (empty_result\<lparr>br_effects := effects\<rparr>))"

definition apply_certified_batch ::
  "library \<Rightarrow> tree_chain_state \<Rightarrow> tree_batch \<Rightarrow> u64 \<Rightarrow> digest \<Rightarrow> tree_chain_state \<times> tree_block_result" where
  "apply_certified_batch lb state batch block_time_ms ops_digest =
     (case batch_shape batch block_time_ms state of
        Some r \<Rightarrow> (state, empty_result\<lparr>br_verdict := Some r\<rparr>)
      | None \<Rightarrow> close_block lb block_time_ms ops_digest state (apply_ops lb (ba_ops batch) 0 state))"

definition check_batch ::
  "library \<Rightarrow> tree_chain_state \<Rightarrow> tree_batch \<Rightarrow> u64 \<Rightarrow> digest \<Rightarrow> tree_op_policy \<Rightarrow> tree_chain_state \<times> tree_block_result" where
  "check_batch lb state batch block_time_ms ops_digest policy =
     (case batch_shape batch block_time_ms state of
        Some r \<Rightarrow> (state, empty_result\<lparr>br_verdict := Some r\<rparr>)
      | None \<Rightarrow> close_block lb block_time_ms ops_digest state
          (check_ops lb policy (block_time_ms div 1000) (ba_ops batch) 0 state))"

text \<open>The leader's selection: what was taken so far is carried in order.\<close>

record tree_batch_selection =
  se_batch :: tree_batch
  se_refused :: "(string \<times> (tree_op_refusal \<times> string)) list"

fun select_ops :: "library \<Rightarrow> tree_op_policy \<Rightarrow> u64 \<Rightarrow> nat \<Rightarrow> nat \<Rightarrow> tree_op list \<Rightarrow> nat \<Rightarrow> nat \<Rightarrow>
    tree_chain_state \<Rightarrow> tree_batch_selection \<Rightarrow> tree_batch_selection" where
  "select_ops lb policy bt op_limit max_wire [] op_bytes wire_bytes state out = out"
| "select_ops lb policy bt op_limit max_wire (op # ops) op_bytes wire_bytes state out =
     (if length (ba_ops (se_batch out)) \<ge> op_limit then out
      else let size = length (encode_tree_op op); wire = 4 + size + kEd25519SignatureSize
           in if op_bytes + size > kMaxTreeBatchOpBytes \<or> wire_bytes + wire > max_wire
                then select_ops lb policy bt op_limit max_wire ops op_bytes wire_bytes state out
              else case judge_op lb policy bt op state of
                     Inl r \<Rightarrow> select_ops lb policy bt op_limit max_wire ops op_bytes wire_bytes state
                       (out\<lparr>se_refused := se_refused out @ [(op_id_hex lb op, r)]\<rparr>)
                   | Inr effect \<Rightarrow> select_ops lb policy bt op_limit max_wire ops (op_bytes + size) (wire_bytes + wire)
                       (apply_op lb op effect state) (out\<lparr>se_batch := \<lparr>ba_ops = ba_ops (se_batch out) @ [op]\<rparr>\<rparr>))"

definition select_batch ::
  "library \<Rightarrow> tree_chain_state \<Rightarrow> tree_op list \<Rightarrow> u64 \<Rightarrow> tree_op_policy \<Rightarrow> nat \<Rightarrow> nat \<Rightarrow> tree_batch_selection" where
  "select_batch lb state candidates block_time_ms policy max_ops max_wire_bytes =
     (let out = \<lparr>se_batch = \<lparr>ba_ops = []\<rparr>, se_refused = []\<rparr>
      in if block_time_ms \<le> cs_last_block_time_ms state then out
         else select_ops lb policy (block_time_ms div 1000) (min max_ops kMaxTreeBatchOps) max_wire_bytes candidates 0 2
                state out)"

section \<open>Checking and applying\<close>

lemma judge_op_Inr:
  assumes "judge_op lb policy bt op state = Inr effect"
  shows "validate_op lb op \<lparr>ts_nodes = cs_nodes state, ts_policy = policy\<rparr> bt (cs_committed state) = None"
    and "plan_op lb op (cs_nodes state) = Inr effect"
  using assms by (simp_all add: judge_op_def split: option.splits)

lemma check_ops_apply: "check_ops lb policy bt ops i state = Inr out \<Longrightarrow> apply_ops lb ops i state = Inr out"
  by (induction lb policy bt ops i state arbitrary: out rule: check_ops.induct)
    (auto dest: judge_op_Inr split: sum.splits)

lemma apply_op_fields [simp]:
  "cs_nodes (apply_op lb op effect state) = apply_effect effect (cs_nodes state)"
  "cs_committed (apply_op lb op effect state) = record_committed lb op (cs_committed state)"
  "cs_last_block_time_ms (apply_op lb op effect state) = cs_last_block_time_ms state"
  by (simp_all add: apply_op_def)

lemma finish_block_verdict: "br_verdict (snd (finish_block lb ms od state out)) = br_verdict out"
  by (simp add: finish_block_def Let_def)

text \<open>The accepted batches.\<close>

lemma check_batch_accepts:
  "br_verdict (snd (check_batch lb state batch ms od policy)) = None \<longleftrightarrow>
    batch_shape batch ms state = None \<and>
    (\<exists>final effects. check_ops lb policy (ms div 1000) (ba_ops batch) 0 state = Inr (final, effects))"
  by (auto simp: check_batch_def close_block_def empty_result_def finish_block_verdict split: option.split sum.split)

lemma check_batch_state:
  assumes "check_batch lb state batch ms od policy = (state', r)" and "br_verdict r = None"
  obtains final effects where "batch_shape batch ms state = None"
    "check_ops lb policy (ms div 1000) (ba_ops batch) 0 state = Inr (final, effects)"
    "cs_nodes state' = cs_nodes final" "cs_last_block_time_ms state' = ms"
    "cs_committed state' = prune_signed_before (committed_id_cutoff (ms div 1000)) (cs_committed final)"
    "cs_root state' = chain_state_root lb (cs_root final) od state'"
  using assms check_batch_accepts [of lb state batch ms od policy]
  by (auto simp: check_batch_def close_block_def finish_block_def chain_state_root_def Let_def)

lemma batch_shape_None:
  "batch_shape batch ms state = None \<longleftrightarrow>
    ba_ops batch \<noteq> [] \<and> length (ba_ops batch) \<le> kMaxTreeBatchOps \<and>
    tree_batch_op_bytes batch \<le> kMaxTreeBatchOpBytes \<and> cs_last_block_time_ms state < ms"
  by (auto simp: batch_shape_def not_le)

section \<open>Chains of checked blocks\<close>

inductive chain_reaches :: "library \<Rightarrow> tree_chain_state \<Rightarrow> tree_chain_state \<Rightarrow> bool" for lb s where
  here: "chain_reaches lb s s"
| block: "chain_reaches lb s t \<Longrightarrow> check_batch lb t batch ms od policy = (u, r) \<Longrightarrow> br_verdict r = None \<Longrightarrow>
    chain_reaches lb s u"

text \<open>The root stays, and with it the key that administers the tree.\<close>

definition root_kept :: "codec \<Rightarrow> node_map \<Rightarrow> node_map \<Rightarrow> bool" where
  "root_kept cd nodes nodes' \<longleftrightarrow>
     (\<forall>n. map_of nodes ''root'' = Some n \<longrightarrow>
        (\<exists>n'. map_of nodes' ''root'' = Some n' \<and>
           canonical_principal cd (tn_mgmt_pubkey n') = canonical_principal cd (tn_mgmt_pubkey n)))"

lemma root_kept_refl: "root_kept cd nodes nodes"
  by (simp add: root_kept_def)

lemma root_kept_trans: "root_kept cd a b \<Longrightarrow> root_kept cd b c \<Longrightarrow> root_kept cd a c"
  unfolding root_kept_def by metis

lemma lawful_root_kept:
  assumes "lawful lb op nodes (map_of nodes')"
  shows "root_kept (lb_codec lb) nodes nodes'"
  unfolding root_kept_def
proof (intro allI impI)
  fix n
  assume n: "map_of nodes ''root'' = Some n"
  have "map_of nodes' ''root'' \<noteq> None" using lawfulD(1) [OF assms n] by (auto simp: may_remove_def Let_def)
  then obtain n' where n': "map_of nodes' ''root'' = Some n'" by blast
  with lawfulD(2) [OF assms n n'] show "\<exists>n'. map_of nodes' ''root'' = Some n' \<and>
      canonical_principal (lb_codec lb) (tn_mgmt_pubkey n') = canonical_principal (lb_codec lb) (tn_mgmt_pubkey n)"
    by (simp add: lawful_change_def Let_def)
qed

lemma check_ops_tree:
  assumes "check_ops lb policy bt ops i state = Inr (final, effects)" and "tree_ok (cs_nodes state)"
  shows "tree_ok (cs_nodes final) \<and> root_kept (lb_codec lb) (cs_nodes state) (cs_nodes final)"
  using assms
proof (induction lb policy bt ops i state arbitrary: effects rule: check_ops.induct)
  case (2 lb policy bt op ops i state)
  from "2.prems"(1) obtain effect es where judged: "judge_op lb policy bt op state = Inr effect"
    and rest: "check_ops lb policy bt ops (Suc i) (apply_op lb op effect state) = Inr (final, es)"
    by (auto split: sum.splits)
  note step = judge_op_Inr [OF judged]
  have law: "lawful lb op (cs_nodes state) (map_of (apply_effect effect (cs_nodes state)))"
    and tree: "tree_ok (apply_effect effect (cs_nodes state))"
    using accepted_lawful [OF _ step(1)] step(2) "2.prems"(2) by simp_all
  from "2.IH" [OF judged rest] tree lawful_root_kept [OF law] show ?case by (auto intro: root_kept_trans)
qed (simp add: root_kept_refl)

lemma chain_tree:
  assumes "chain_reaches lb s t" and "tree_ok (cs_nodes s)"
  shows "tree_ok (cs_nodes t) \<and> root_kept (lb_codec lb) (cs_nodes s) (cs_nodes t)"
  using assms(1)
proof induction
  case here
  then show ?case using assms(2) by (simp add: root_kept_refl)
next
  case (block t batch ms od policy u r)
  from block.hyps(2,3) obtain final effects where
    run: "check_ops lb policy (ms div 1000) (ba_ops batch) 0 t = Inr (final, effects)"
    and nodes: "cs_nodes u = cs_nodes final"
    by (rule check_batch_state)
  from check_ops_tree [OF run] block.IH show ?case unfolding nodes by (blast intro: root_kept_trans)
qed

section \<open>Selection\<close>

lemma tree_batch_op_bytes_sum: "tree_batch_op_bytes batch = (\<Sum>op \<leftarrow> ba_ops batch. length (encode_tree_op op))"
proof -
  have "foldl (\<lambda>total op. total + length (encode_tree_op op)) t ops = t + (\<Sum>op \<leftarrow> ops. length (encode_tree_op op))" for t ops
    by (induction ops arbitrary: t) simp_all
  then show ?thesis by (simp add: tree_batch_op_bytes_def)
qed

abbreviation batch_wire :: "tree_op list \<Rightarrow> nat" where
  "batch_wire ops \<equiv> (\<Sum>op \<leftarrow> ops. 4 + length (encode_tree_op op) + kEd25519SignatureSize)"

lemma select_ops_spec:
  assumes "op_bytes \<le> kMaxTreeBatchOpBytes"
  shows "\<exists>new final effects.
    ba_ops (se_batch (select_ops lb policy bt op_limit max_wire ops op_bytes wire_bytes state out)) = ba_ops (se_batch out) @ new \<and>
    subseq new ops \<and> length new \<le> op_limit - length (ba_ops (se_batch out)) \<and>
    op_bytes + (\<Sum>op \<leftarrow> new. length (encode_tree_op op)) \<le> kMaxTreeBatchOpBytes \<and>
    (new \<noteq> [] \<longrightarrow> wire_bytes + batch_wire new \<le> max_wire) \<and>
    check_ops lb policy bt new i state = Inr (final, effects)"
  using assms(1)
proof (induction lb policy bt op_limit max_wire ops op_bytes wire_bytes state out arbitrary: i rule: select_ops.induct)
  case (1 lb policy bt op_limit max_wire op_bytes wire_bytes state out)
  then show ?case by (intro exI [of _ "[]"]) simp
next
  case (2 lb policy bt op_limit max_wire op ops op_bytes wire_bytes state out)
  let ?size = "length (encode_tree_op op)"
  let ?skip = "op_bytes + ?size > kMaxTreeBatchOpBytes \<or> wire_bytes + (4 + ?size + kEd25519SignatureSize) > max_wire"
  consider (full) "length (ba_ops (se_batch out)) \<ge> op_limit"
    | (skip) "\<not> length (ba_ops (se_batch out)) \<ge> op_limit" ?skip
    | (refused) r where "\<not> length (ba_ops (se_batch out)) \<ge> op_limit" "\<not> ?skip" "judge_op lb policy bt op state = Inl r"
    | (taken) effect where "\<not> length (ba_ops (se_batch out)) \<ge> op_limit" "\<not> ?skip" "judge_op lb policy bt op state = Inr effect"
    by (cases "judge_op lb policy bt op state") auto
  then show ?case
  proof cases
    case full
    then show ?thesis using "2.prems" by (intro exI [of _ "[]"]) simp
  next
    case skip
    from "2.IH"(1) [OF skip(1) refl refl skip(2) "2.prems", of i] skip show ?thesis
      by (simp add: Let_def) (metis list_emb_Cons)
  next
    case refused
    from "2.IH"(2) [OF refused(1) refl refl refused(2,3) "2.prems", of i] refused show ?thesis
      by (simp add: Let_def) (metis list_emb_Cons)
  next
    case taken
    from taken(2) have "op_bytes + ?size \<le> kMaxTreeBatchOpBytes" by simp
    from "2.IH"(3) [OF taken(1) refl refl taken(2,3) this, of "Suc i"] obtain new final effects where
      new: "ba_ops (se_batch (select_ops lb policy bt op_limit max_wire (op # ops) op_bytes wire_bytes state out)) =
          ba_ops (se_batch out) @ op # new" "subseq new ops" "length new \<le> op_limit - Suc (length (ba_ops (se_batch out)))"
        "op_bytes + ?size + (\<Sum>op \<leftarrow> new. length (encode_tree_op op)) \<le> kMaxTreeBatchOpBytes"
        "new \<noteq> [] \<longrightarrow> wire_bytes + (4 + ?size + kEd25519SignatureSize) + batch_wire new \<le> max_wire"
        "check_ops lb policy bt new (Suc i) (apply_op lb op effect state) = Inr (final, effects)"
      using taken by (auto simp: Let_def)
    show ?thesis
      by (intro exI [of _ "op # new"] exI [of _ final] exI [of _ "effect # effects"]) (use new taken in auto)
  qed
qed

lemma check_ops_valid:
  assumes "check_ops lb policy bt ops i state = Inr out" and "op \<in> set ops"
  shows "\<exists>state' :: tree_chain_state. validate_op lb op \<lparr>ts_nodes = cs_nodes state', ts_policy = policy\<rparr> bt (cs_committed state') = None"
  using assms
proof (induction lb policy bt ops i state arbitrary: out rule: check_ops.induct)
  case (2 lb policy bt op' ops i state)
  from "2.prems"(1) obtain effect out' where judged: "judge_op lb policy bt op' state = Inr effect"
    and rest: "check_ops lb policy bt ops (Suc i) (apply_op lb op' effect state) = Inr out'"
    by (auto split: sum.splits)
  show ?case
  proof (cases "op = op'")
    case True
    then show ?thesis using judge_op_Inr(1) [OF judged] by blast
  qed (use "2.IH" [OF judged rest] "2.prems"(2) in simp)
qed simp

lemma valid_signature:
  assumes "validate_op lb op state bt committed = None"
  shows "tree_op_signature_bytes lb op \<noteq> None"
  using validate_op_None(2) [OF assms]
  by (auto simp: signature_verdict_def tree_op_signature_bytes_def split: if_splits option.splits)

lemma encode_batch_ops_fits:
  assumes "\<forall>op \<in> set ops. tree_op_signature_bytes lb op \<noteq> None"
    and "op_bytes + (\<Sum>op \<leftarrow> ops. length (encode_tree_op op)) \<le> kMaxTreeBatchOpBytes"
  shows "\<exists>bytes. encode_batch_ops lb op_bytes out ops = Some bytes \<and> length bytes = length out + batch_wire ops"
  using assms
proof (induction ops arbitrary: op_bytes out)
  case (Cons op ops)
  then obtain sg where sg: "tree_op_signature_bytes lb op = Some sg" by auto
  let ?enc = "encode_tree_op op"
  from Cons.prems Cons.IH [of "op_bytes + length ?enc" "out @ le_bytes 4 (of_nat (length ?enc) :: u32) @ ?enc @ be_bytes 64 sg"]
  show ?case by (auto simp: Let_def kEd25519SignatureSize_def sg)
qed simp

section \<open>Used once\<close>

text \<open>What an accepted operation uses up: its id and its signed statement at the time it was signed, and
  its invite until the invite expires.\<close>

definition used_ids :: "library \<Rightarrow> tree_op \<Rightarrow> (string \<times> u64) set" where
  "used_ids lb op =
     insert (op_id_hex lb op, op_signed_at op)
       ((\<lambda>i. (i, op_signed_at op)) ` set_option (statement_id_hex lb op) \<union>
        (case tb_invite_grant (op_body op) of
           None \<Rightarrow> {}
         | Some grant \<Rightarrow> (\<lambda>i. (i, lt_expires_at grant)) ` set_option (redemption_id_hex lb op)))"

lemma redemption_iff: "redemption_id_hex lb op = None \<longleftrightarrow> tb_invite_grant (op_body op) = None"
  by (simp add: redemption_id_hex_def split: option.split)

lemma replay_None:
  assumes "replay_verdict lb op committed = None" and "(i, T) \<in> used_ids lb op"
  shows "map_of committed i = None"
  using assms
  by (auto simp: replay_verdict_def used_ids_def committed_contains_def Let_def split: if_splits option.splits)

lemma record_committed_other:
  "i \<notin> fst ` used_ids lb op \<Longrightarrow> map_of (record_committed lb op committed) i = map_of committed i"
  by (auto simp: record_committed_def used_ids_def committed_insert_def smap_get_put Let_def redemption_iff
      split: option.splits)

lemma record_committed_own:
  assumes "(i, T) \<in> used_ids lb op"
  shows "\<exists>t. map_of (record_committed lb op committed) i = Some t \<and>
    (t = T \<or> (\<exists>grant. tb_invite_grant (op_body op) = Some grant \<and> t = lt_expires_at grant))"
  using assms
  by (auto simp: record_committed_def used_ids_def committed_insert_def smap_get_put Let_def redemption_iff
      split: option.splits)

text \<open>The times of an accepted operation; a block time in seconds is far from the end of 64 bits.\<close>

definition block_seconds :: "u64 \<Rightarrow> bool" where
  "block_seconds bt \<longleftrightarrow> unat bt < 2 ^ 63"

lemma block_seconds_div [simp]: "block_seconds (ms div 1000)"
proof -
  have "unat (ms div 1000) = unat ms div 1000" by (simp add: unat_div)
  moreover have "unat ms < 2 ^ 64" using unsigned_less [of ms] by simp
  ultimately show ?thesis by (simp add: block_seconds_def)
qed

lemma unat_add_small: "unat a + unat b < 2 ^ 64 \<Longrightarrow> unat (a + b) = unat a + unat (b :: u64)"
  by (simp add: unat_word_ariths)

lemma fresh_times:
  assumes "freshness_verdict op bt = None" and "block_seconds bt"
  shows "unat (op_signed_at op) \<le> unat bt + 60" and "unat bt \<le> unat (op_signed_at op) + 300"
proof -
  have future: "unat (bt + kTreeOpMaxFutureSec) = unat bt + 60"
    using assms(2) by (subst unat_add_small) (simp_all add: block_seconds_def kTreeOpMaxFutureSec_def)
  from assms(1) have le: "op_signed_at op \<le> bt + kTreeOpMaxFutureSec" "bt \<le> op_signed_at op + kTreeOpMaxAgeSec"
    by (auto simp: freshness_verdict_def not_less split: if_splits)
  from le(1) show early: "unat (op_signed_at op) \<le> unat bt + 60" by (simp add: word_le_nat_alt future)
  then have "unat (op_signed_at op + kTreeOpMaxAgeSec) = unat (op_signed_at op) + 300"
    using assms(2) by (subst unat_add_small) (simp_all add: block_seconds_def kTreeOpMaxAgeSec_def)
  with le(2) show "unat bt \<le> unat (op_signed_at op) + 300" by (simp add: word_le_nat_alt)
qed

lemma grant_time:
  assumes "statement_verdict lb op policy bt = None" and "tb_invite_grant (op_body op) = Some grant"
  shows "bt < lt_expires_at grant"
  using assms by (auto simp: statement_verdict_def invite_grant_verdict_def Let_def not_le split: if_splits)

text \<open>An id is remembered for a time as long as an operation of that time could pass the freshness check.\<close>

definition remembered :: "string \<times> u64 \<Rightarrow> committed_op_ids \<Rightarrow> u64 \<Rightarrow> bool" where
  "remembered u committed bt \<longleftrightarrow>
     (\<exists>t. map_of committed (fst u) = Some t \<and> unat (snd u) \<le> unat t + 60) \<or> unat (snd u) + 300 < unat bt"

lemma remembered_later: "remembered u committed bt \<Longrightarrow> bt \<le> bt' \<Longrightarrow> remembered u committed bt'"
  by (auto simp: remembered_def word_le_nat_alt)

lemma remembered_refused:
  assumes "remembered u committed bt" and "block_seconds bt"
    and valid: "validate_op lb op state bt committed = None"
  shows "u \<notin> used_ids lb op"
proof
  assume u: "u \<in> used_ids lb op"
  note v = validate_op_None [OF valid]
  have "map_of committed (fst u) = None" using replay_None [OF v(4), of "fst u" "snd u"] u by simp
  with assms(1) have old: "unat (snd u) + 300 < unat bt" by (simp add: remembered_def)
  have "unat bt \<le> unat (snd u) + 300"
    using u fresh_times(2) [OF v(3) assms(2)] grant_time [OF v(5)]
    by (auto simp: used_ids_def word_less_nat_alt split: option.splits)
  with old show False by simp
qed

lemma remembered_recorded:
  assumes "validate_op lb op state bt committed = None" and "block_seconds bt" and "u \<in> used_ids lb op"
  shows "remembered u (record_committed lb op committed) bt"
proof -
  note v = validate_op_None [OF assms(1)]
  obtain i T where u: "u = (i, T)" by (cases u)
  from record_committed_own [of i T] assms(3) u obtain t where t: "map_of (record_committed lb op committed) i = Some t"
    "t = T \<or> (\<exists>grant. tb_invite_grant (op_body op) = Some grant \<and> t = lt_expires_at grant)" by blast
  have "unat T \<le> unat t + 60"
  proof (cases "t = T")
    case False
    then obtain grant where grant: "tb_invite_grant (op_body op) = Some grant" "t = lt_expires_at grant" using t(2) by blast
    have "T = op_signed_at op" using assms(3) u False grant by (auto simp: used_ids_def)
    then show ?thesis using fresh_times(1) [OF v(3) assms(2)] grant_time [OF v(5) grant(1)] grant(2) by (simp add: word_less_nat_alt)
  qed simp
  then show ?thesis using t(1) u by (auto simp: remembered_def)
qed

lemma remembered_kept:
  assumes "remembered u committed bt" and "block_seconds bt" and "validate_op lb op state bt committed = None"
  shows "remembered u (record_committed lb op committed) bt"
proof (cases "map_of committed (fst u)")
  case (Some t)
  have "fst u \<notin> fst ` used_ids lb op"
    using replay_None [OF validate_op_None(4) [OF assms(3)], of "fst u"] Some by auto
  then show ?thesis using assms(1) by (simp add: remembered_def record_committed_other)
qed (use assms(1) in \<open>auto simp: remembered_def\<close>)

lemma remembered_pruned:
  assumes "remembered u committed bt" and distinct: "distinct (map fst committed)"
  shows "remembered u (prune_signed_before (committed_id_cutoff bt) committed) bt"
proof (cases "unat (snd u) + 300 < unat bt")
  case False
  then obtain t where t: "map_of committed (fst u) = Some t" "unat (snd u) \<le> unat t + 60"
    using assms(1) by (auto simp: remembered_def)
  have "\<not> t < committed_id_cutoff bt"
  proof
    assume cut: "t < committed_id_cutoff bt"
    then have "900 < bt" and "t < bt - 900"
      by (auto simp: committed_id_cutoff_def kTreeOpMaxAgeSec_def kCommittedIdMarginSec_def Let_def split: if_splits)
    then have "unat t + 900 < unat bt" by (simp add: word_less_nat_alt unat_sub_if' split: if_splits)
    then show False using t(2) False by simp
  qed
  then have "(fst u, t) \<in> set (prune_signed_before (committed_id_cutoff bt) committed)"
    using map_of_SomeD [OF t(1)] by (auto simp: prune_signed_before_def)
  moreover have "distinct (map fst (prune_signed_before (committed_id_cutoff bt) committed))"
    unfolding prune_signed_before_def using distinct by (rule distinct_map_filter)
  ultimately show ?thesis using t(2) by (auto simp: remembered_def)
qed (simp add: remembered_def)

text \<open>Through a batch and along a chain.\<close>

lemma smap_ok_record: "smap_ok committed \<Longrightarrow> smap_ok (record_committed lb op committed)"
  by (simp add: record_committed_def committed_insert_def smap_ok_put Let_def split: option.split)

lemma smap_ok_prune: "smap_ok committed \<Longrightarrow> smap_ok (prune_signed_before cutoff committed)"
  by (simp add: prune_signed_before_def smap_ok_filter)

lemma check_ops_ids:
  assumes "check_ops lb policy bt ops i state = Inr (final, effects)" and "block_seconds bt" and "smap_ok (cs_committed state)"
  shows "smap_ok (cs_committed final) \<and>
    (\<forall>u. remembered u (cs_committed state) bt \<longrightarrow>
       remembered u (cs_committed final) bt \<and> (\<forall>op \<in> set ops. u \<notin> used_ids lb op)) \<and>
    (\<forall>op \<in> set ops. \<forall>u \<in> used_ids lb op. remembered u (cs_committed final) bt) \<and>
    sorted_wrt (\<lambda>op op'. used_ids lb op \<inter> used_ids lb op' = {}) ops"
  using assms
proof (induction lb policy bt ops i state arbitrary: effects rule: check_ops.induct)
  case (2 lb policy bt op ops i state)
  from "2.prems"(1) obtain effect es where judged: "judge_op lb policy bt op state = Inr effect"
    and rest: "check_ops lb policy bt ops (Suc i) (apply_op lb op effect state) = Inr (final, es)"
    by (auto split: sum.splits)
  note valid = judge_op_Inr(1) [OF judged]
  have IH: "smap_ok (cs_committed final)"
    "remembered u (record_committed lb op (cs_committed state)) bt \<Longrightarrow>
      remembered u (cs_committed final) bt \<and> (\<forall>op \<in> set ops. u \<notin> used_ids lb op)"
    "\<forall>op \<in> set ops. \<forall>u \<in> used_ids lb op. remembered u (cs_committed final) bt"
    "sorted_wrt (\<lambda>op op'. used_ids lb op \<inter> used_ids lb op' = {}) ops" for u
    using "2.IH" [OF judged rest "2.prems"(2)] smap_ok_record [OF "2.prems"(3)] unfolding apply_op_fields by blast+
  have own: "remembered u (record_committed lb op (cs_committed state)) bt" if "u \<in> used_ids lb op" for u
    by (rule remembered_recorded [OF valid "2.prems"(2) that])
  show ?case
  proof (intro conjI allI impI ballI)
    show "smap_ok (cs_committed final)" by (rule IH(1))
    fix u
    assume "remembered u (cs_committed state) bt"
    note kept = IH(2) [OF remembered_kept [OF this "2.prems"(2) valid]]
      and refused = remembered_refused [OF this "2.prems"(2) valid]
    show "remembered u (cs_committed final) bt" using kept by blast
    show "u \<notin> used_ids lb o'" if "o' \<in> set (op # ops)" for o' using kept refused that by auto
  next
    fix o' u
    assume "o' \<in> set (op # ops)" "u \<in> used_ids lb o'"
    then show "remembered u (cs_committed final) bt" using IH(2) [OF own, of u] IH(3) by (cases "o' = op") auto
  next
    show "sorted_wrt (\<lambda>op op'. used_ids lb op \<inter> used_ids lb op' = {}) (op # ops)"
      using IH(2) [OF own] IH(4) by auto
  qed
qed simp

abbreviation chain_seconds :: "tree_chain_state \<Rightarrow> u64" where
  "chain_seconds s \<equiv> cs_last_block_time_ms s div 1000"

lemma seconds_mono: "(a :: u64) \<le> b \<Longrightarrow> a div 1000 \<le> b div 1000"
  by (simp add: word_le_nat_alt unat_div div_le_mono)

lemma check_batch_ids:
  assumes "check_batch lb s batch ms od policy = (t, r)" and "br_verdict r = None" and "smap_ok (cs_committed s)"
  shows "smap_ok (cs_committed t)"
    and "remembered u (cs_committed s) (chain_seconds s) \<Longrightarrow>
      remembered u (cs_committed t) (chain_seconds t) \<and> (\<forall>op \<in> set (ba_ops batch). u \<notin> used_ids lb op)"
    and "op \<in> set (ba_ops batch) \<Longrightarrow> u \<in> used_ids lb op \<Longrightarrow> remembered u (cs_committed t) (chain_seconds t)"
    and "sorted_wrt (\<lambda>op op'. used_ids lb op \<inter> used_ids lb op' = {}) (ba_ops batch)"
proof -
  from assms(1,2) obtain final effects where shape: "batch_shape batch ms s = None"
    and run: "check_ops lb policy (ms div 1000) (ba_ops batch) 0 s = Inr (final, effects)"
    and t: "cs_last_block_time_ms t = ms"
      "cs_committed t = prune_signed_before (committed_id_cutoff (ms div 1000)) (cs_committed final)"
    by (rule check_batch_state)
  note ids = check_ops_ids [OF run block_seconds_div assms(3)]
  have final: "smap_ok (cs_committed final)" using ids by blast
  show "smap_ok (cs_committed t)" unfolding t by (rule smap_ok_prune [OF final])
  have pruned: "remembered u (cs_committed t) (chain_seconds t)" if "remembered u (cs_committed final) (ms div 1000)" for u
    unfolding t by (rule remembered_pruned [OF that smap_ok_distinct [OF final]])
  have "chain_seconds s \<le> ms div 1000" using shape by (intro seconds_mono less_imp_le) (simp add: batch_shape_None)
  then show "remembered u (cs_committed s) (chain_seconds s) \<Longrightarrow>
      remembered u (cs_committed t) (chain_seconds t) \<and> (\<forall>op \<in> set (ba_ops batch). u \<notin> used_ids lb op)"
    using ids remembered_later pruned by blast
  show "op \<in> set (ba_ops batch) \<Longrightarrow> u \<in> used_ids lb op \<Longrightarrow> remembered u (cs_committed t) (chain_seconds t)"
    using ids pruned by blast
  show "sorted_wrt (\<lambda>op op'. used_ids lb op \<inter> used_ids lb op' = {}) (ba_ops batch)" using ids by blast
qed

lemma chain_ids:
  assumes "chain_reaches lb s t" and "smap_ok (cs_committed s)"
  shows "smap_ok (cs_committed t) \<and>
    (\<forall>u. remembered u (cs_committed s) (chain_seconds s) \<longrightarrow> remembered u (cs_committed t) (chain_seconds t))"
  using assms(1)
proof induction
  case (block t batch ms od policy u r)
  then show ?case using check_batch_ids(1,2) [OF block.hyps(2,3)] by blast
qed (use assms(2) in simp)

text \<open>The uses of two operations are apart if they share their encoding, their delta or their invite.\<close>

lemma valid_well_formed:
  assumes "validate_op lb op state bt committed = None"
  shows "well_formed_op op" and "op_id op = compute_op_id lb op"
  using validate_op_None(1,2) [OF assms]
  by (auto simp: format_verdict_def signature_verdict_def well_formed_op_def Let_def not_less split: if_splits)

definition same_use :: "tree_op \<Rightarrow> tree_op \<Rightarrow> bool" where
  "same_use op op' \<longleftrightarrow>
     encode_tree_op op = encode_tree_op op' \<or>
     tb_source (op_body op) = Delta \<and> tb_source (op_body op') = Delta \<and> tb_delta (op_body op) = tb_delta (op_body op') \<or>
     tb_invite_grant (op_body op) \<noteq> None \<and> tb_invite_grant (op_body op) = tb_invite_grant (op_body op')"

lemma same_use_ids:
  assumes "same_use op op'" and valid: "validate_op lb op state bt committed = None"
    and valid': "validate_op lb op' state' bt' committed' = None"
  shows "used_ids lb op \<inter> used_ids lb op' \<noteq> {}"
proof -
  consider (encoding) "encode_tree_op op = encode_tree_op op'"
    | (delta) "tb_source (op_body op) = Delta" "tb_source (op_body op') = Delta" "tb_delta (op_body op) = tb_delta (op_body op')"
    | (grant) g where "tb_invite_grant (op_body op) = Some g" "tb_invite_grant (op_body op') = Some g"
    using assms(1) unfolding same_use_def by force
  then show ?thesis
  proof cases
    case encoding
    then have "carried_op lb 0 op = carried_op lb 0 op'"
      using decode_encode_op [OF valid_well_formed(1) [OF valid], of lb 0]
        decode_encode_op [OF valid_well_formed(1) [OF valid'], of lb 0] by simp
    then have "op_signed_at (carried_op lb 0 op) = op_signed_at (carried_op lb 0 op')"
      "op_id (carried_op lb 0 op) = op_id (carried_op lb 0 op')" by simp_all
    then have "op_signed_at op = op_signed_at op'" "op_id_hex lb op = op_id_hex lb op'"
      using valid_well_formed(2) [OF valid] valid_well_formed(2) [OF valid'] by (simp_all add: carried_op_def op_id_hex_def)
    then show ?thesis by (auto simp: used_ids_def)
  next
    case delta
    have signed: "op_signed_at o1 = td_timestamp (tb_delta (op_body o1))"
      if "statement_verdict lb o1 p b = None" "tb_source (op_body o1) = Delta" for o1 p b
      using that by (simp add: statement_verdict_def delta_statement_verdict_def Let_def split: if_splits)
    from signed [OF validate_op_None(5) [OF valid] delta(1)] signed [OF validate_op_None(5) [OF valid'] delta(2)]
    have "op_signed_at op = op_signed_at op'" using delta(3) by simp
    then show ?thesis using delta by (auto simp: used_ids_def statement_id_hex_def Let_def)
  next
    case grant
    then show ?thesis by (auto simp: used_ids_def redemption_id_hex_def)
  qed
qed

section \<open>The wire form of a batch\<close>

lemma le_bytes_of_bytes:
  assumes "length bs = n" and "n * 8 \<le> LENGTH('a::len)"
  shows "le_bytes n (of_be_bytes (rev bs) :: 'a word) = bs"
proof (rule nth_equalityI)
  fix i
  assume "i < length (le_bytes n (of_be_bytes (rev bs) :: 'a word))"
  then have i: "i < n" by simp
  show "le_bytes n (of_be_bytes (rev bs) :: 'a word) ! i = bs ! i"
  proof (rule bit_word_eqI)
    fix j
    assume "j < LENGTH(8)"
    then have j: "j < 8" by simp
    with i assms(2) have "i * 8 + j < LENGTH('a)" by linarith
    moreover have "(i * 8 + j) div 8 = i" "(i * 8 + j) mod 8 = j" using j by simp_all
    ultimately show "bit (le_bytes n (of_be_bytes (rev bs) :: 'a word) ! i) j = bit (bs ! i) j"
      using i j assms(1) by (simp add: bit_le_bytes bit_of_be_bytes)
  qed
qed (use assms(1) in simp)

lemma be_bytes_of_bytes:
  "length bs = n \<Longrightarrow> n * 8 \<le> LENGTH('a::len) \<Longrightarrow> be_bytes n (of_be_bytes bs :: 'a word) = bs"
  using le_bytes_of_bytes [of "rev bs" n, where 'a = 'a] by (simp add: be_bytes_def)

lemma encode_op_header [simp]:
  "encode_tree_op (op\<lparr>op_id := i, op_signature := sg\<rparr>) = encode_tree_op op"
  by (simp add: encode_tree_op_def op_encoder_def add_op_body_def Let_def cong: tree_op_source.case_cong if_cong)

lemma decode_tree_op_Some:
  assumes "decode_tree_op lb encoding signature = Some op" and "codec_ok (lb_codec lb)"
  shows "encode_tree_op op = encoding" and "tree_op_signature_bytes lb op = Some signature"
proof -
  from assms(1) obtain op' where enc: "encode_tree_op op' = encoding"
    and op: "op = op'\<lparr>op_id := compute_op_id lb op', op_signature := to_base64 (lb_codec lb) (be_bytes 64 signature)\<rparr>"
    by (auto simp: decode_tree_op_def split: option.splits if_splits)
  show "encode_tree_op op = encoding" unfolding op using enc by simp
  have "from_base64 (lb_codec lb) (to_base64 (lb_codec lb) (be_bytes 64 signature)) = Some (be_bytes 64 signature)"
    using assms(2) by (simp add: codec_ok_def from_base64_def to_base64_def)
  then show "tree_op_signature_bytes lb op = Some signature"
    by (simp add: op tree_op_signature_bytes_def parse_signature_def decode_b64_def of_be_bytes_be_bytes)
qed

lemma encode_batch_ops_append:
  "encode_batch_ops lb op_bytes out ops = map_option (\<lambda>w. out @ w) (encode_batch_ops lb op_bytes [] ops)"
proof (induction ops arbitrary: op_bytes out)
  case (Cons op ops)
  show ?case
    using Cons.IH [of "op_bytes + length (encode_tree_op op)"
        "out @ le_bytes 4 (of_nat (length (encode_tree_op op)) :: u32) @ encode_tree_op op @ be_bytes 64 (the (tree_op_signature_bytes lb op))"]
      Cons.IH [of "op_bytes + length (encode_tree_op op)"
        "le_bytes 4 (of_nat (length (encode_tree_op op)) :: u32) @ encode_tree_op op @ be_bytes 64 (the (tree_op_signature_bytes lb op))"]
    by (cases "tree_op_signature_bytes lb op") (simp_all add: Let_def option.map_comp comp_def)
qed simp

lemma split_fields: "xs = take a xs @ take b (drop a xs) @ take c (drop b (drop a xs)) @ drop (b + c) (drop a xs)"
proof -
  have "drop (b + c) (drop a xs) = drop c (drop b (drop a xs))" by (simp add: add_ac)
  then show ?thesis by (simp only: append_take_drop_id)
qed

lemma decode_batch_ops_canonical:
  assumes "decode_batch_ops lb n op_bytes bytes = Some (ops, rest)" and "codec_ok (lb_codec lb)"
    and "op_bytes \<le> kMaxTreeBatchOpBytes"
  shows "length ops = n \<and> (\<exists>w. encode_batch_ops lb op_bytes [] ops = Some w \<and> bytes = w @ rest)"
  using assms
proof (induction lb n op_bytes bytes arbitrary: ops rule: decode_batch_ops.induct)
  case (2 lb n op_bytes bytes)
  let ?word = "of_be_bytes (rev (take 4 bytes)) :: u32" and ?bytes = "drop 4 bytes"
  let ?len = "unat ?word"
  let ?sg = "of_be_bytes (take kEd25519SignatureSize (drop ?len ?bytes)) :: sig"
  from "2.prems"(1) obtain op ops' where long: "4 \<le> length bytes" "?len + kEd25519SignatureSize \<le> length ?bytes"
    and fits: "?len \<le> kMaxTreeBatchOpBytes - op_bytes"
    and op: "decode_tree_op lb (take ?len ?bytes) ?sg = Some op"
    and tail: "decode_batch_ops lb n (op_bytes + ?len) (drop (?len + kEd25519SignatureSize) ?bytes) = Some (ops', rest)"
    and ops: "ops = op # ops'"
    by (auto simp: Let_def not_less split: if_splits option.splits)
  note decoded = decode_tree_op_Some [OF op "2.prems"(2)]
  have len: "length (encode_tree_op op) = ?len" using decoded(1) long by simp
  have bound: "op_bytes + ?len \<le> kMaxTreeBatchOpBytes" using fits "2.prems"(3) by simp
  have "\<not> length bytes < 4" "\<not> kMaxTreeBatchOpBytes - op_bytes < ?len" "\<not> length ?bytes < ?len + kEd25519SignatureSize"
    using long fits by simp_all
  from "2.IH" [OF this(1) refl refl this(2,3) op tail "2.prems"(2) bound] obtain w where
    w: "length ops' = n" "encode_batch_ops lb (op_bytes + ?len) [] ops' = Some w"
      "drop (?len + kEd25519SignatureSize) ?bytes = w @ rest" by blast
  have "le_bytes 4 (of_nat (length (encode_tree_op op)) :: u32) = take 4 bytes"
    using long(1) le_bytes_of_bytes [of "take 4 bytes" 4, where 'a = 32] by (simp add: len)
  moreover have "be_bytes 64 ?sg = take 64 (drop ?len ?bytes)"
    using long(2) be_bytes_of_bytes [of "take 64 (drop ?len ?bytes)" 64, where 'a = 512] by (simp add: kEd25519SignatureSize_def)
  moreover have "bytes = take 4 bytes @ take ?len ?bytes @ take 64 (drop ?len ?bytes) @ drop (?len + 64) ?bytes"
    by (rule split_fields)
  ultimately have "bytes = (le_bytes 4 (of_nat (length (encode_tree_op op)) :: u32) @ encode_tree_op op @ be_bytes 64 ?sg) @ w @ rest"
    using w(3) decoded(1) by (simp add: kEd25519SignatureSize_def)
  moreover have "encode_batch_ops lb op_bytes [] ops =
      Some ((le_bytes 4 (of_nat (length (encode_tree_op op)) :: u32) @ encode_tree_op op @ be_bytes 64 ?sg) @ w)"
    using bound w(2) decoded(2) len
      encode_batch_ops_append [of lb "op_bytes + ?len"
        "le_bytes 4 (of_nat (length (encode_tree_op op)) :: u32) @ encode_tree_op op @ be_bytes 64 ?sg" ops']
    by (simp add: ops)
  ultimately show ?case using w(1) by (simp add: ops)
qed simp

end
