(* ===== verification/Tree_Safety.thy ===== *)
theory Tree_Safety
  imports Tree_Chain
begin

text \<open>
  What the permission tree promises its users: every accepted operation stays within the authority of the
  principals behind it, every tree a chain of checked blocks reaches is well formed and keeps its root, what
  a block has used is never used again, replicas that apply a certified batch get the state the quorum
  checked, a leader's selection passes the check of the others, and a state root stands for one history. A
  last theorem shows a weakness: a join adopts the node that somebody else made under the device's id.
\<close>

section \<open>The streams behind a state root\<close>

definition committed_stream :: "committed_op_ids \<Rightarrow> byte list" where
  "committed_stream committed =
     field_stream (string_bytes kTreeCommittedIdsDomain # le_bytes 8 (of_nat (length committed) :: u64) #
       concat (map (\<lambda>(i, t). [string_bytes i, le_bytes 8 t]) committed))"

definition root_stream :: "library \<Rightarrow> digest \<Rightarrow> digest \<Rightarrow> tree_chain_state \<Rightarrow> byte list" where
  "root_stream lb previous_root ops_digest s =
     field_stream [string_bytes kTreeStateRootDomain, be_bytes 32 previous_root, be_bytes 32 ops_digest,
       be_bytes 32 (compute_tree_digest lb (cs_nodes s)), be_bytes 32 (compute_committed_digest lb (cs_committed s))]"

definition ids_fit :: "committed_op_ids \<Rightarrow> bool" where
  "ids_fit committed \<longleftrightarrow> (\<forall>(i, t) \<in> set committed. length i < 2 ^ 32)"

lemma compute_committed_digest_stream:
  "compute_committed_digest lb committed = sha256 (lb_crypto lb) (committed_stream committed)"
proof -
  have "foldl (\<lambda>enc (i, t). add_u64 (add_string enc i) t) (field_stream fs) xs =
      field_stream (fs @ concat (map (\<lambda>(i, t). [string_bytes i, le_bytes 8 t]) xs))"
    for fs and xs :: committed_op_ids
    by (induction xs arbitrary: fs) (auto simp only: foldl.simps encoder_fields case_prod_conv append.assoc
        append.simps list.map concat.simps append_Nil2)
  then show ?thesis
    by (simp only: compute_committed_digest_def committed_stream_def encoder_digest_def Let_def encoder_fields append.simps)
qed

lemma chain_state_root_stream: "chain_state_root lb p od s = sha256 (lb_crypto lb) (root_stream lb p od s)"
  by (simp only: chain_state_root_def tree_state_root_def root_stream_def encoder_digest_def encoder_fields append.simps)

lemma id_fields_inj:
  assumes "concat (map (\<lambda>(i, t). [string_bytes i, le_bytes 8 t]) xs) =
      concat (map (\<lambda>(i, t). [string_bytes i, le_bytes 8 (t :: u64)]) ys)"
  shows "xs = ys"
  using assms
proof (induction xs arbitrary: ys)
  case Nil
  then show ?case by (cases ys) auto
next
  case (Cons x xs)
  then obtain y ys' where "ys = y # ys'" by (cases ys) (auto split: prod.splits)
  with Cons show ?case by (auto simp: stream_simps split: prod.splits)
qed

lemma committed_stream_inj:
  assumes "ids_fit c" and "ids_fit c'" and "committed_stream c = committed_stream c'"
  shows "c = c'"
proof -
  have short: "short_fields (string_bytes kTreeCommittedIdsDomain # le_bytes 8 (of_nat (length k) :: u64) #
      concat (map (\<lambda>(i, t). [string_bytes i, le_bytes 8 t]) k))" if "ids_fit k" for k :: committed_op_ids
    using that by (auto simp: short_fields_def ids_fit_def kTreeCommittedIdsDomain_def)
  show ?thesis
    using field_stream_inj [OF short [OF assms(1)] short [OF assms(2)]] assms(3) id_fields_inj
    by (auto simp: committed_stream_def)
qed

section \<open>The wire form\<close>

definition carried_batch :: "library \<Rightarrow> tree_batch \<Rightarrow> tree_batch" where
  "carried_batch lb batch =
     \<lparr>ba_ops = map (\<lambda>op. carried_op lb (the (tree_op_signature_bytes lb op)) op) (ba_ops batch)\<rparr>"

lemma decode_encoded_ops:
  assumes "encode_batch_ops lb op_bytes [] ops = Some w" and "list_all well_formed_op ops"
  shows "decode_batch_ops lb (length ops) op_bytes (w @ rest) =
    Some (map (\<lambda>op. carried_op lb (the (tree_op_signature_bytes lb op)) op) ops, rest)"
  using assms
proof (induction ops arbitrary: op_bytes w)
  case (Cons op ops)
  let ?enc = "encode_tree_op op"
  from Cons.prems(1) obtain sg w' where sg: "tree_op_signature_bytes lb op = Some sg"
    and fits: "op_bytes + length ?enc \<le> kMaxTreeBatchOpBytes"
    and w': "encode_batch_ops lb (op_bytes + length ?enc) [] ops = Some w'"
    and w: "w = le_bytes 4 (of_nat (length ?enc) :: u32) @ ?enc @ be_bytes 64 sg @ w'"
    by (auto simp: Let_def encode_batch_ops_append [of lb _ "le_bytes 4 _ @ _"] split: option.splits if_splits)
  have "length ?enc < 2 ^ 32" using fits by (simp add: kMaxTreeBatchOpBytes_def)
  then have size: "unat (of_nat (length ?enc) :: u32) = length ?enc" by (simp add: unat_of_nat take_bit_nat_eq_self)
  have word: "of_be_bytes (rev (le_bytes 4 (v :: u32))) = v" for v
    using of_be_bytes_be_bytes [of 4 v] by (simp add: be_bytes_def)
  have "decode_tree_op lb ?enc sg = Some (carried_op lb sg op)"
    using Cons.prems(2) by (intro decode_encode_op) simp
  with Cons.IH [OF w'] Cons.prems(2) fits show ?case
    by (simp add: w sg word size Let_def kEd25519SignatureSize_def of_be_bytes_be_bytes)
qed simp

lemma encoded_batch_decodes:
  assumes "list_all well_formed_op (ba_ops batch)" and "encode_tree_batch lb batch = Some bytes"
  shows "decode_tree_batch lb bytes = Some (carried_batch lb batch)"
proof -
  let ?n = "of_nat (length (ba_ops batch)) :: u16"
  from assms(2) have some: "ba_ops batch \<noteq> []" "length (ba_ops batch) \<le> kMaxTreeBatchOps"
    and run: "encode_batch_ops lb 0 (le_bytes 2 ?n) (ba_ops batch) = Some bytes"
    by (auto simp: encode_tree_batch_def split: if_splits)
  from run obtain w where w: "encode_batch_ops lb 0 [] (ba_ops batch) = Some w" "bytes = le_bytes 2 ?n @ w"
    unfolding encode_batch_ops_append [of lb 0 "le_bytes 2 ?n"] by auto
  have count: "unat ?n = length (ba_ops batch)"
    using some(2) by (simp add: kMaxTreeBatchOps_def unat_of_nat take_bit_nat_eq_self)
  have word: "of_be_bytes (rev (le_bytes 2 (v :: u16))) = v" for v
    using of_be_bytes_be_bytes [of 2 v] by (simp add: be_bytes_def)
  from decode_encoded_ops [OF w(1) assms(1), of "[]"] some show ?thesis
    by (simp add: decode_tree_batch_def carried_batch_def w(2) word count Let_def)
qed

lemma decoded_batch_canonical:
  assumes "codec_ok (lb_codec lb)" and "decode_tree_batch lb bytes = Some batch"
  shows "encode_tree_batch lb batch = Some bytes"
proof -
  let ?count = "of_be_bytes (rev (take 2 bytes)) :: u16"
  from assms(2) obtain ops where long: "2 \<le> length bytes" and count: "?count \<noteq> 0" "unat ?count \<le> kMaxTreeBatchOps"
    and run: "decode_batch_ops lb (unat ?count) 0 (drop 2 bytes) = Some (ops, [])" and batch: "batch = \<lparr>ba_ops = ops\<rparr>"
    by (auto simp: decode_tree_batch_def Let_def not_less unat_eq_0 split: if_splits option.splits prod.splits list.splits)
  from decode_batch_ops_canonical [OF run assms(1)] have
    len: "length ops = unat ?count" and ops: "encode_batch_ops lb 0 [] ops = Some (drop 2 bytes)" by auto
  have "le_bytes 2 (of_nat (length ops) :: u16) = take 2 bytes"
    using long le_bytes_of_bytes [of "take 2 bytes" 2, where 'a = 16] by (simp add: len)
  moreover have "ops \<noteq> []" using len count(1) by (auto simp: unat_eq_0)
  ultimately show ?thesis
    using ops len count encode_batch_ops_append [of lb 0 "take 2 bytes" ops] by (simp add: encode_tree_batch_def batch)
qed

section \<open>Joins of a stored node\<close>

text \<open>A join that finds its node keeps its owner, type and place, and adds no node, as long as the tunnel range has
  a free address.\<close>

lemma plan_join_existing:
  assumes "tree_ok nodes" and "op_kind op = Join" and "map_of nodes (op_target op) = Some existing"
    and "length nodes < tunnel_span"
  shows "\<exists>effect n. plan_op lb op nodes = Inr effect \<and> map_of (apply_effect effect nodes) (op_target op) = Some n \<and>
    tn_mgmt_pubkey n = tn_mgmt_pubkey existing \<and> tn_type n = tn_type existing \<and> tn_parent_id n = tn_parent_id existing \<and>
    dom (map_of (apply_effect effect nodes)) = dom (map_of nodes)"
proof -
  note ok = tree_ok_start [OF assms(1)]
  have find: "overlay_find (start nodes) (op_target op) = Some existing" using assms(3) by simp
  let ?norm = "js_device_pubkey (tb_join (op_body op))"
  let ?up = "join_upgrade (lb_codec lb) ?norm (tn_parent_id existing) (start nodes)"
  have root: "map_of nodes ''root'' \<noteq> None" by (rule view_ok_node(3) [OF ok(3) assms(3)])
  have up: "regranted (lb_codec lb) (join_grants (lb_codec lb) ?norm (overlay_find (start nodes))) (start nodes) ?up"
    by (rule regranted_join_upgrade) (simp add: join_grants_def Let_def)
  have dom: "dom (overlay_find ?up) = dom (map_of nodes)" using regranted_None_iff [OF up] by (auto simp: dom_def)
  have "overlay_free_tunnel_address (lb_crypto lb) ?up (op_target op) \<noteq> []"
    using regrantedD(2) [OF up ok(1)] assms(4)
    by (intro overlay_free_tunnel_address_found [of _ "map fst nodes"]) (simp_all add: dom dom_map_of_conv_image_fst)
  then have "\<exists>ov. join_returning (lb_crypto lb) op existing ?up = Inr ov"
    by (cases "tn_tunnel_ip existing = []") (simp_all add: join_returning_def Let_def)
  then obtain ov where joined: "join_returning (lb_crypto lb) op existing ?up = Inr ov" by blast
  then have plan: "plan_join (lb_crypto lb) (lb_codec lb) op (start nodes) = Inr ov"
    using find root by (simp add: plan_join_def join_placement_def Let_def)
  from plan_join_returning [OF plan find ok(1,2)] have ov: "overlay_ok ov" "ov_base ov = nodes" by auto
  from regrantedD(4) [OF up find] obtain as where "overlay_find ?up (op_target op) = Some (existing\<lparr>tn_assignments := as\<rparr>)"
    by blast
  with joined obtain m where m: "overlay_find ov (op_target op) = Some m" "tn_mgmt_pubkey m = tn_mgmt_pubkey existing"
      "tn_type m = tn_type existing" "tn_parent_id m = tn_parent_id existing" "dom (overlay_find ov) = dom (map_of nodes)"
    using dom by (cases rule: join_returning_cases) (auto simp: overlay_find_edit)
  have "plan_op lb op nodes = Inr (overlay_effect ov)"
    using plan assms(2) by (simp add: plan_op_def plan_changes_def Let_def)
  moreover obtain n where "map_of (apply_effect (overlay_effect ov) nodes) (op_target op) = Some n"
    using apply_overlay_view(1) [OF ov(1), of "op_target op"] m(1) by (auto simp: ov(2))
  moreover from apply_overlay_view(2) [OF ov(1), of "op_target op" n] this m(1-4) have
    "tn_mgmt_pubkey n = tn_mgmt_pubkey existing \<and> tn_type n = tn_type existing \<and> tn_parent_id n = tn_parent_id existing"
    by (auto simp: ov(2))
  moreover have "dom (map_of (apply_effect (overlay_effect ov) nodes)) = dom (map_of nodes)"
    using apply_overlay_view(1) [OF ov(1)] m(5) unfolding ov(2) by (auto simp: dom_def)
  ultimately show ?thesis by blast
qed

lemma plan_create_applied:
  assumes "tree_ok nodes" and "op_kind op = CreateNode" and "plan_op lb op nodes = Inr effect"
  shows "\<exists>v. map_of (apply_effect effect nodes) (op_target op) = Some ((op_node op)\<lparr>tn_id := op_target op, tn_version := v\<rparr>)"
    and "length (apply_effect effect nodes) = Suc (length nodes)"
proof -
  let ?node = "(op_node op)\<lparr>tn_id := op_target op\<rparr>" and ?result = "apply_effect effect nodes"
  note ok = tree_ok_start [OF assms(1)]
  obtain ov where effect: "effect = overlay_effect ov" and ov: "ov = overlay_put ?node (start nodes)"
      and new: "map_of nodes (op_target op) = None"
    using assms(2,3) by (auto simp: plan_op_def plan_changes_def plan_create_def Let_def split: if_splits option.splits)
  have applied: "overlay_ok ov" "ov_base ov = nodes" "overlay_find ov = (map_of nodes)(op_target op \<mapsto> ?node)"
    using overlay_ok_put [OF ok(1)] by (simp_all add: ov overlay_find_put)
  note view = apply_overlay_view [OF applied(1), unfolded applied(2), folded effect]
  obtain n where n: "map_of ?result (op_target op) = Some n" using view(1) [of "op_target op"] applied(3) by auto
  then show "\<exists>v. map_of ?result (op_target op) = Some ((op_node op)\<lparr>tn_id := op_target op, tn_version := v\<rparr>)"
    using view(2) [OF n] applied(3) by auto
  have "dom (map_of ?result) = insert (op_target op) (dom (map_of nodes))"
    using view(1) applied(3) by (auto simp: dom_def split: if_splits)
  then have "card (dom (map_of ?result)) = Suc (card (dom (map_of nodes)))"
    using new by (simp add: finite_dom_map_of domIff)
  moreover have "card (dom (map_of m)) = length m" if "distinct (map fst m)" for m :: node_map
    using that distinct_card [of "map fst m"] by (simp add: dom_map_of_conv_image_fst)
  ultimately show "length ?result = Suc (length nodes)"
    using assms(1) by (simp add: tree_ok_def distinct_apply_effect)
qed


text \<open>No check of a join looks at who made the node that it finds.\<close>

lemma join_accepted_iff:
  assumes "op_kind op = Join" and "plan_op lb op (ts_nodes state) = Inr effect"
  shows "validate_op lb op state t committed = None \<longleftrightarrow>
    format_verdict op = None \<and> signature_verdict lb op (ts_policy state) = None \<and> freshness_verdict op t = None \<and>
    replay_verdict lb op committed = None \<and> statement_verdict lb op (ts_policy state) t = None \<and>
    target_verdict op (ts_nodes state) = None"
  using assms by (simp add: validate_op_def authority_verdict_def Let_def)

section \<open>An example\<close>

text \<open>A tree of one key: a block establishes the root, the next sets its listen endpoint.\<close>

definition example_key :: string where "example_key = kEd25519Prefix @ replicate 64 (CHR 0x00)"

definition example_library :: library where
  "example_library =
     \<lparr>lb_crypto = \<lparr>sha256 = (\<lambda>s. of_nat (length s)), sign_detached = (\<lambda>key d. ucast d), verify_detached = (\<lambda>key d s. True)\<rparr>,
      lb_hex = \<lparr>hx_json = example_codec, sodium_bin2hex = nibbles, sodium_hex2bin = of_nibbles\<rparr>,
      ed25519_verify = (\<lambda>key message signature. True), ed25519_sign = (\<lambda>key message. 0)\<rparr>"

definition example_policy :: tree_op_policy where
  "example_policy = \<lparr>tp_network_id = 7, tp_trusted_submitters = [example_key], tp_root_key = example_key\<rparr>"

definition example_op :: "tree_op_kind \<Rightarrow> u64 \<Rightarrow> u64 \<Rightarrow> tree_op_body \<Rightarrow> tree_op" where
  "example_op kind base_version signed_at body =
     (let op = \<lparr>op_version = kTreeOpVersion, op_network_id = 7, op_kind = kind, op_target = ''root'',
                op_base_version = base_version, op_signed_at = signed_at, op_nonce = 0, op_principal = example_key,
                op_body = body, op_author = example_key, op_id = 0, op_signature = replicate 128 (CHR 0x00),
                op_submitted_by = []\<rparr>
      in op\<lparr>op_id := compute_op_id example_library op\<rparr>)"

definition example_establish :: tree_op where
  "example_establish = example_op EstablishRoot 0 1000 default_body"

definition example_set_endpoint :: tree_op where
  "example_set_endpoint = example_op SetEndpoint 1 2000 (default_body\<lparr>tb_listen_endpoint := ''host:80''\<rparr>)"

definition example_genesis :: tree_chain_state where
  "example_genesis = \<lparr>cs_nodes = [], cs_committed = [], cs_last_block_time_ms = 0, cs_root = 0\<rparr>"


lemma nibbles_zero: "nibbles (replicate n 0) = replicate (2 * n) (CHR 0x00)"
  by (induction n) (simp_all add: char_of_def)

lemma of_nibbles_zero: "of_nibbles (replicate (2 * n) (CHR 0x00)) = Some (replicate n 0)"
  by (metis nibbles_zero of_nibbles)

lemma example_texts [simp]:
  "nibbles (replicate 32 0) = replicate 64 (CHR 0x00)"
  "of_nibbles (replicate 64 (CHR 0x00)) = Some (replicate 32 0)"
  "of_nibbles (replicate 128 (CHR 0x00)) = Some (replicate 64 0)"
  using nibbles_zero [of 32] of_nibbles_zero [of 32] of_nibbles_zero [of 64] by simp_all

lemma example_library_simps [simp]:
  "sha256 (lb_crypto example_library) s = of_nat (length s)"
  "lb_codec example_library = example_codec"
  "ed25519_verify example_library key message sg"
  "from_base64 example_codec (replicate 64 (CHR 0x00)) = Some (replicate 32 0)"
  "from_base64 example_codec (replicate 128 (CHR 0x00)) = Some (replicate 64 0)"
  "to_base64 example_codec (replicate 32 0) = replicate 64 (CHR 0x00)"
  by (simp_all add: example_library_def example_codec_def from_base64_def to_base64_def)

lemma starts_with_key [simp]: "starts_with example_key kEd25519Prefix" "\<not> starts_with (replicate 64 (CHR 0x00)) kEd25519Prefix"
  "drop (length kEd25519Prefix) example_key = replicate 64 (CHR 0x00)" "example_key \<noteq> []" "replicate 64 (CHR 0x00) \<noteq> []"
  by (simp_all add: example_key_def starts_with_def kEd25519Prefix_def numeral_eq_Suc)

lemma canonical_example_key [simp]: "canonical_principal example_codec example_key = example_key"
  by (simp add: canonical_principal_def canonical_key_b64_def Let_def) (simp add: example_key_def)

lemma parse_example_key [simp]: "parse_ed25519_key example_library example_key = Some (of_be_bytes (replicate 32 0))"
  by (simp add: parse_ed25519_key_def decode_b64_def)

lemma parse_example_signature [simp]:
  "parse_signature example_library (replicate 128 (CHR 0x00)) = Some (of_be_bytes (replicate 64 0))"
  by (simp add: parse_signature_def decode_b64_def)

lemma compute_op_id_id [simp]: "compute_op_id lb (op\<lparr>op_id := i\<rparr>) = compute_op_id lb op"
  by (simp add: compute_op_id_def op_encoder_def add_op_body_def Let_def cong: tree_op_source.case_cong if_cong)


lemma encoder_lengths [simp]:
  "length (canonical_encoder d) = 4 + length d" "length (add_string enc s) = length enc + 4 + length s"
  "length (add_bytes enc b) = length enc + 4 + length b" "length (add_u16 enc v) = length enc + 6"
  "length (add_u32 enc w) = length enc + 8" "length (add_u64 enc x) = length enc + 12"
  by (simp_all add: canonical_encoder_def add_string_def add_bytes_def add_u16_def add_u32_def add_u64_def
      put_length_prefixed_def string_bytes_def Let_def)

lemma example_op_fields [simp]:
  "op_version (example_op kind v t body) = kTreeOpVersion" "op_network_id (example_op kind v t body) = 7"
  "op_kind (example_op kind v t body) = kind" "op_target (example_op kind v t body) = ''root''"
  "op_base_version (example_op kind v t body) = v" "op_signed_at (example_op kind v t body) = t"
  "op_principal (example_op kind v t body) = example_key" "op_body (example_op kind v t body) = body"
  "op_author (example_op kind v t body) = example_key" "op_nonce (example_op kind v t body) = 0"
  "op_signature (example_op kind v t body) = replicate 128 (CHR 0x00)"
  by (simp_all add: example_op_def Let_def)

lemma example_op_id [simp]: "compute_op_id example_library (example_op kind v t body) = op_id (example_op kind v t body)"
  unfolding example_op_def Let_def compute_op_id_id by simp

lemma example_key_length [simp]: "length example_key = 72"
  by (simp add: example_key_def kEd25519Prefix_def)

lemma example_lengths:
  "length (encode_tree_op example_establish) = 289" "length (encode_tree_op example_set_endpoint) = 300"
  by (simp_all add: example_establish_def example_set_endpoint_def encode_tree_op_def op_encoder_def add_op_body_def
      add_extension_def default_body_def kTreeOpDomain_def)

lemma example_signed:
  assumes "length (encode_tree_op (example_op kind v t body)) \<le> 48000"
  shows "signature_verdict example_library (example_op kind v t body) example_policy = None"
  using assms by (simp add: signature_verdict_def example_policy_def kMaxTreeOpEncodedBytes_def trusted_submitter_def)

lemma establish_valid:
  "validate_op example_library example_establish \<lparr>ts_nodes = [], ts_policy = example_policy\<rparr> 1000 [] = None"
  unfolding validate_op_def verdict_None
  apply (intro conjI)
  subgoal by (simp add: format_verdict_def example_establish_def default_body_def op_kind_known_def source_allowed_def)
  subgoal using example_lengths(1) unfolding example_establish_def tree_state.simps by (intro example_signed) simp
  subgoal by (simp add: freshness_verdict_def example_establish_def kTreeOpMaxAgeSec_def kTreeOpMaxFutureSec_def)
  subgoal by (simp add: replay_verdict_def committed_contains_def example_establish_def default_body_def statement_id_hex_def
      redemption_id_hex_def)
  subgoal by (simp add: statement_verdict_def session_statement_verdict_def example_establish_def default_body_def)
  subgoal by (simp add: target_verdict_def example_establish_def)
  subgoal by (simp add: authority_verdict_def root_verdict_def example_establish_def example_policy_def Let_def)
  subgoal by (simp add: plan_op_def plan_changes_def example_establish_def Let_def overlay_find_def)
  done


definition example_tree :: "string \<Rightarrow> u64 \<Rightarrow> node_map" where
  "example_tree endpoint version =
     [(''root'', (make_root_node example_key)\<lparr>tn_listen_endpoint := endpoint, tn_version := version\<rparr>)]"

definition example_effect :: tree_op_effect where
  "example_effect = \<lparr>ef_writes = map snd (example_tree [] 1), ef_removals = []\<rparr>"

lemma establish_plan: "plan_op example_library example_establish [] = Inr example_effect"
  by (simp add: plan_op_def plan_changes_def example_establish_def Let_def overlay_find_def overlay_put_def
      overlay_effect_def written_def make_root_node_def default_node_def example_effect_def example_tree_def map_filter_simps)

lemma establish_apply: "apply_effect example_effect [] = example_tree [] 1"
  by (simp add: apply_effect_def example_effect_def example_tree_def make_root_node_def)


lemma nibbles_inj [simp]: "nibbles xs = nibbles ys \<longleftrightarrow> xs = ys"
  by (metis of_nibbles option.inject)

lemma example_ids:
  "op_id_hex example_library example_establish = nibbles (be_bytes 32 (289 :: digest))"
  "op_id_hex example_library example_set_endpoint = nibbles (be_bytes 32 (300 :: digest))"
proof -
  have hash: "op_id (example_op kind v t body) = of_nat (length (encode_tree_op (example_op kind v t body)))" for kind v t body
    unfolding example_op_id [symmetric] compute_op_id_def encoder_digest_def encode_tree_op_def by simp
  have "op_id example_establish = 289" "op_id example_set_endpoint = 300"
    using example_lengths unfolding example_establish_def example_set_endpoint_def hash by simp_all
  then show "op_id_hex example_library example_establish = nibbles (be_bytes 32 (289 :: digest))"
    "op_id_hex example_library example_set_endpoint = nibbles (be_bytes 32 (300 :: digest))"
    by (simp_all add: op_id_hex_def hex_digest_def to_hex_def example_library_def)
qed

lemma example_batch_statements [simp]:
  "statement_id_hex example_library example_establish = None" "redemption_id_hex example_library example_establish = None"
  "statement_id_hex example_library example_set_endpoint = None" "redemption_id_hex example_library example_set_endpoint = None"
  by (simp_all add: example_establish_def example_set_endpoint_def default_body_def statement_id_hex_def redemption_id_hex_def)

abbreviation example_committed :: committed_op_ids where
  "example_committed \<equiv> [(nibbles (be_bytes 32 (289 :: digest)), 1000)]"

lemma example_endpoint_text: "endpoint_text_valid ''host:80''"
  by (simp add: endpoint_text_valid_def endpoint_char_def ascii_alnum_def ascii_digit_def char_between_def undecimal_def)

lemma set_endpoint_valid:
  "validate_op example_library example_set_endpoint \<lparr>ts_nodes = example_tree [] 1, ts_policy = example_policy\<rparr> 2000
    example_committed = None"
  unfolding validate_op_def verdict_None
  apply (intro conjI)
  subgoal by (simp add: format_verdict_def example_set_endpoint_def default_body_def op_kind_known_def source_allowed_def)
  subgoal using example_lengths(2) unfolding example_set_endpoint_def tree_state.simps by (intro example_signed) simp
  subgoal by (simp add: freshness_verdict_def example_set_endpoint_def kTreeOpMaxAgeSec_def kTreeOpMaxFutureSec_def)
  subgoal by (simp add: replay_verdict_def committed_contains_def example_ids stream_simps)
  subgoal by (simp add: statement_verdict_def session_statement_verdict_def example_set_endpoint_def default_body_def example_endpoint_text)
  subgoal by (simp add: target_verdict_def example_set_endpoint_def example_tree_def)
  subgoal by (simp add: authority_verdict_def endpoint_verdict_def on_target_def example_set_endpoint_def example_tree_def make_root_node_def Let_def)
  subgoal by (simp add: plan_op_def plan_changes_def plan_edit_def example_set_endpoint_def example_tree_def Let_def overlay_find_def)
  done

definition example_first :: tree_chain_state where
  "example_first = fst (check_batch example_library example_genesis \<lparr>ba_ops = [example_establish]\<rparr> 1000000 0 example_policy)"

lemma establish_judged: "judge_op example_library example_policy 1000 example_establish example_genesis = Inr example_effect"
  by (simp add: judge_op_def example_genesis_def establish_valid establish_plan)

lemma record_establish: "record_committed example_library example_establish [] = example_committed"
  by (simp add: record_committed_def committed_insert_def example_ids) (simp add: example_establish_def)

lemma first_block:
  "br_verdict (snd (check_batch example_library example_genesis \<lparr>ba_ops = [example_establish]\<rparr> 1000000 0 example_policy)) = None"
  unfolding check_batch_accepts
  by (simp add: batch_shape_None tree_batch_op_bytes_sum establish_judged kMaxTreeBatchOps_def kMaxTreeBatchOpBytes_def
      example_lengths) (simp add: example_genesis_def)


lemma first_state:
  "cs_nodes example_first = example_tree [] 1" "cs_committed example_first = example_committed"
  "cs_last_block_time_ms example_first = 1000000"
proof -
  let ?run = "check_batch example_library example_genesis \<lparr>ba_ops = [example_establish]\<rparr> 1000000 0 example_policy"
  have "?run = (example_first, snd ?run)" by (simp add: example_first_def)
  from this first_block obtain final effects where
    run: "check_ops example_library example_policy (1000000 div 1000) (ba_ops \<lparr>ba_ops = [example_establish]\<rparr>) 0 example_genesis =
      Inr (final, effects)"
    and t: "cs_nodes example_first = cs_nodes final" "cs_last_block_time_ms example_first = 1000000"
      "cs_committed example_first = prune_signed_before (committed_id_cutoff (1000000 div 1000)) (cs_committed final)"
    by (rule check_batch_state)
  from run have "final = apply_op example_library example_establish example_effect example_genesis"
    by (simp add: establish_judged)
  then show "cs_nodes example_first = example_tree [] 1" "cs_committed example_first = example_committed"
    "cs_last_block_time_ms example_first = 1000000"
    using t by (simp_all add: example_genesis_def establish_apply record_establish prune_signed_before_def committed_id_cutoff_def
        kTreeOpMaxAgeSec_def kCommittedIdMarginSec_def)
qed

lemma second_block:
  "br_verdict (snd (check_batch example_library example_first \<lparr>ba_ops = [example_set_endpoint]\<rparr> 2000000 0 example_policy)) = None"
proof -
  have "\<exists>effect. judge_op example_library example_policy 2000 example_set_endpoint example_first = Inr effect"
    using set_endpoint_valid validate_op_None(8) [OF set_endpoint_valid] by (simp add: judge_op_def first_state)
  then show ?thesis
    unfolding check_batch_accepts
    by (auto simp: batch_shape_None tree_batch_op_bytes_sum kMaxTreeBatchOps_def kMaxTreeBatchOpBytes_def
        example_lengths first_state)
qed

lemma tree_ok_Nil [simp]: "tree_ok []"
  by (simp add: tree_ok_def view_ok_def)

lemma example_tree_ok: "tree_ok (example_tree [] 1)"
  using accepted_lawful(2) [of "\<lparr>ts_nodes = [], ts_policy = example_policy\<rparr>", OF _ establish_valid] establish_plan establish_apply by simp

lemma example_selection:
  "ba_ops (se_batch (select_batch example_library example_genesis [example_establish] 1000000 example_policy 4 1000)) = [example_establish]"
  by (simp add: select_batch_def establish_judged example_lengths kMaxTreeBatchOps_def kMaxTreeBatchOpBytes_def
      kEd25519SignatureSize_def Let_def) (simp add: example_genesis_def)

text \<open>Mallory owns a group and makes a node there under the id of a device that has not joined yet; then the
  device joins.\<close>

definition device_id :: string where "device_id = derive_join_node_id example_library example_key"

definition example_signed_op :: "tree_op \<Rightarrow> tree_op" where
  "example_signed_op op = op\<lparr>op_id := compute_op_id example_library op\<rparr>"

definition mallory_group :: tree_node where
  "mallory_group = default_node\<lparr>tn_id := ''g'', tn_parent_id := ''root'', tn_type := Customer, tn_mgmt_pubkey := ''mallory'',
     tn_assignments := [\<lparr>as_management_pubkey = ''mallory'', as_permissions = owner_permissions @ [''admin'']\<rparr>], tn_version := 1\<rparr>"

definition squatter :: tree_node where
  "squatter = default_node\<lparr>tn_id := device_id, tn_parent_id := ''g'', tn_type := Endpoint, tn_mgmt_pubkey := ''mallory''\<rparr>"

definition squat_op :: tree_op where
  "squat_op = example_signed_op ((example_op CreateNode 0 2000 (default_body\<lparr>tb_node := squatter\<rparr>))
     \<lparr>op_target := device_id, op_principal := ''mallory''\<rparr>)"

definition squatted_join :: tree_op where
  "squatted_join = example_signed_op ((example_op Join 1 2000 (default_body\<lparr>tb_source := Device, tb_join :=
     default_join\<lparr>js_device_pubkey := example_key, js_challenge := replicate 64 (CHR 0x00),
       js_challenge_signature := replicate 128 (CHR 0x00)\<rparr>\<rparr>))\<lparr>op_target := device_id\<rparr>)"

definition group_tree :: node_map where
  "group_tree = (''g'', mallory_group) # example_tree [] 1"

definition squatted_tree :: node_map where
  "squatted_tree = group_tree @ [(device_id, squatter\<lparr>tn_version := 1\<rparr>)]"

lemma device_id_facts [simp]: "length device_id = 32" "device_id \<noteq> []" "device_id \<noteq> ''root''" "device_id \<noteq> ''g''"
  "''root'' \<noteq> device_id" "''g'' \<noteq> device_id"
proof -
  have "length (nibbles xs) = 2 * length xs" for xs by (induction xs) auto
  then have "length (hex_digest example_library d) = 64" for d
    by (simp add: hex_digest_def to_hex_def example_library_def)
  then show len: "length device_id = 32" by (simp add: device_id_def derive_join_node_id_def)
  show "device_id \<noteq> []" "device_id \<noteq> ''root''" "device_id \<noteq> ''g''" "''root'' \<noteq> device_id" "''g'' \<noteq> device_id"
    using len by (auto dest: arg_cong [of _ _ length])
qed

lemma group_tree_ok: "tree_ok group_tree"
  unfolding tree_ok_def
proof
  show "view_ok (map_of group_tree)"
    by (rule view_okI) (auto simp: group_tree_def mallory_group_def example_tree_def default_node_def make_root_node_def split: if_splits)
qed (simp add: group_tree_def example_tree_def)

lemma squat_op_fields [simp]:
  "op_kind squat_op = CreateNode" "op_target squat_op = device_id" "op_node squat_op = squatter"
  by (simp_all add: squat_op_def example_signed_op_def op_node_def default_body_def)

lemma squat_plan: "plan_op example_library squat_op group_tree = Inr \<lparr>ef_writes = [squatter\<lparr>tn_version := 1\<rparr>], ef_removals = []\<rparr>"
  by (simp add: plan_op_def plan_changes_def plan_create_def Let_def overlay_find_def overlay_put_def overlay_effect_def
      written_def squatter_def group_tree_def example_tree_def default_node_def overlay_identifier_taken_def
      overlay_mesh_taken_def overlay_device_name_refusal_def device_name_refusal_def map_filter_simps)

lemma squat_apply: "apply_effect \<lparr>ef_writes = [squatter\<lparr>tn_version := 1\<rparr>], ef_removals = []\<rparr> group_tree = squatted_tree"
  by (simp add: apply_effect_def group_tree_def squatted_tree_def example_tree_def squatter_def)

lemma example_signed_op_id:
  "compute_op_id lb (example_signed_op op) = compute_op_id lb op"
  "op_id (example_signed_op op) = compute_op_id example_library op"
  "encode_tree_op (example_signed_op op) = encode_tree_op op"
  by (simp_all add: example_signed_op_def encode_tree_op_def op_encoder_def add_op_body_def Let_def
      cong: tree_op_source.case_cong if_cong)

lemma example_signed_op_valid:
  assumes "length (encode_tree_op op) \<le> 48000" and "op_network_id op = 7" and "op_author op = example_key"
    and "op_signature op = replicate 128 (CHR 0x00)"
  shows "signature_verdict example_library (example_signed_op op) example_policy = None"
  using assms
  by (simp add: signature_verdict_def example_signed_op_id example_policy_def kMaxTreeOpEncodedBytes_def trusted_submitter_def)
    (simp add: example_signed_op_def)

lemma replay_fresh: "replay_verdict lb op [] = None"
  by (cases "statement_id_hex lb op"; cases "redemption_id_hex lb op") (simp_all add: replay_verdict_def committed_contains_def)

lemma squat_valid:
  "validate_op example_library squat_op \<lparr>ts_nodes = group_tree, ts_policy = example_policy\<rparr> 2000 [] = None"
  unfolding validate_op_def verdict_None
  apply (intro conjI)
  subgoal by (simp add: format_verdict_def squat_op_def example_signed_op_def default_body_def op_kind_known_def source_allowed_def)
  subgoal
    unfolding squat_op_def tree_state.simps
    by (rule example_signed_op_valid)
      (simp_all add: encode_tree_op_def op_encoder_def add_op_body_def add_extension_def default_body_def kTreeOpDomain_def
        add_tree_node_def add_bool_def add_strings_def squatter_def default_node_def node_type_to_string_def Let_def)
  subgoal by (simp add: freshness_verdict_def squat_op_def example_signed_op_def kTreeOpMaxAgeSec_def kTreeOpMaxFutureSec_def)
  subgoal by (rule replay_fresh)
  subgoal by (simp add: statement_verdict_def session_statement_verdict_def squat_op_def example_signed_op_def default_body_def
      squatter_def)
  subgoal by (simp add: target_verdict_def group_tree_def example_tree_def) (simp add: squat_op_def example_signed_op_def)
  subgoal by (simp add: authority_verdict_def create_verdict_def group_tree_def Let_def squatter_def mallory_group_def)
     (simp add: squat_op_def example_signed_op_def signer_has_permission_def owner_permissions_def permission_from_string_def
      has_permission_def content_verdict_def delta_content_refusal_def content_delta_def default_body_def default_delta_def create_refusal_def default_node_def)
  subgoal by (simp add: squat_plan)
  done

lemma squatted_join_valid:
  "format_verdict squatted_join = None" "signature_verdict example_library squatted_join example_policy = None"
  "freshness_verdict squatted_join 2000 = None" "replay_verdict example_library squatted_join [] = None"
  "statement_verdict example_library squatted_join example_policy 2000 = None" "target_verdict squatted_join squatted_tree = None"
  subgoal by (simp add: format_verdict_def squatted_join_def example_signed_op_def default_body_def op_kind_known_def source_allowed_def)
  subgoal
    unfolding squatted_join_def tree_state.simps
    by (rule example_signed_op_valid)
      (simp_all add: encode_tree_op_def op_encoder_def add_op_body_def add_extension_def default_body_def kTreeOpDomain_def
        add_join_def add_bool_def default_join_def Let_def)
  subgoal by (simp add: freshness_verdict_def squatted_join_def example_signed_op_def kTreeOpMaxAgeSec_def kTreeOpMaxFutureSec_def)
  subgoal by (rule replay_fresh)
  subgoal by (simp add: statement_verdict_def device_statement_verdict_def squatted_join_def example_signed_op_def default_body_def
      decode_b64_def device_id_def)
  subgoal by (simp add: target_verdict_def squatted_join_def example_signed_op_def squatted_tree_def group_tree_def example_tree_def)
  done

text \<open>Two histories under one hash: the table holds the streams behind their roots, whose digests are their
  places in the table.\<close>

definition example_root_stream :: "digest \<Rightarrow> byte list" where
  "example_root_stream tree_digest =
     field_stream [string_bytes kTreeStateRootDomain, be_bytes 32 (0 :: digest), be_bytes 32 (0 :: digest),
       be_bytes 32 tree_digest, be_bytes 32 (5 :: digest)]"

definition root_library :: library where
  "root_library = example_library\<lparr>lb_crypto :=
     example_crypto [committed_stream [], tree_stream [], tree_stream (example_tree [] 1), example_root_stream 4, example_root_stream 3]\<rparr>"

abbreviation root_state :: "node_map \<Rightarrow> tree_chain_state" where
  "root_state nodes \<equiv> \<lparr>cs_nodes = nodes, cs_committed = [], cs_last_block_time_ms = 0, cs_root = 0\<rparr>"

lemma example_tree_fits: "tree_fits []" "tree_fits (example_tree [] 1)"
proof -
  have "length (encode_tree_node ((make_root_node example_key)\<lparr>tn_listen_endpoint := [], tn_version := 1\<rparr>)) < 2 ^ 32"
    by (simp add: encode_tree_node_def add_tree_node_def add_assignment_def add_bool_def add_strings_def make_root_node_def
        default_node_def owner_permissions_def kTreeNodeDomain_def node_type_to_string_def Let_def)
  then show "tree_fits []" "tree_fits (example_tree [] 1)" by (simp_all add: tree_fits_def example_tree_def)
qed

lemma root_digests:
  "compute_committed_digest root_library [] = 5" "compute_tree_digest root_library [] = 4"
  "compute_tree_digest root_library (example_tree [] 1) = 3"
proof -
  have domains: "tree_stream nodes \<noteq> committed_stream c" for nodes c
    unfolding tree_stream_def committed_stream_def
    by (subst field_stream_domain) (simp_all add: kTreeDigestDomain_def kTreeCommittedIdsDomain_def)
  have trees: "tree_stream (example_tree [] 1) \<noteq> tree_stream []"
    using tree_stream_inj [OF example_tree_fits(2,1)] by (auto simp: example_tree_def)
  show "compute_committed_digest root_library [] = 5" "compute_tree_digest root_library [] = 4"
    "compute_tree_digest root_library (example_tree [] 1) = 3"
    using domains trees
    by (simp_all add: compute_committed_digest_stream compute_tree_digest_stream root_library_def example_simps)
qed

section \<open>Properties\<close>

text \<open>C3. No operation exceeds the authority behind it. Applying an accepted operation to a well-formed tree
  gives a well-formed tree in which a node is gone only if the principal may remove it (or owns the account
  it lies under), and a node that stayed keeps its id, type, identifier and management key, has another
  parent only by a move that the principal may make, other addresses only by a root administrator or by a
  join that gives an address to a device without one, another mesh key, listen endpoint or host name only by
  the device itself or an editor, and grants more than before only where an administrator granted it to an
  identity that has joined, where the inviter holds what the invite grants, or the peer access of a join.\<close>

theorem accepted_operation_lawful:
  assumes "tree_ok (ts_nodes state)" and "validate_op lb op state block_time committed = None"
    and "plan_op lb op (ts_nodes state) = Inr effect"
  shows "tree_ok (apply_effect effect (ts_nodes state)) \<and>
    lawful lb op (ts_nodes state) (map_of (apply_effect effect (ts_nodes state)))"
  using accepted_lawful [OF assms] by simp

theorem accepted_operation_lawful_witness:
  "\<exists>effect. plan_op example_library example_set_endpoint (example_tree [] 1) = Inr effect \<and>
     tree_ok (apply_effect effect (example_tree [] 1)) \<and>
     lawful example_library example_set_endpoint (example_tree [] 1) (map_of (apply_effect effect (example_tree [] 1)))"
  using accepted_operation_lawful [OF _ set_endpoint_valid] validate_op_None(8) [OF set_endpoint_valid] example_tree_ok
  by auto

text \<open>C10. Along every chain of checked blocks the tree stays well formed: each record carries its key as id, there
  is at most one root, it is the node \<open>root\<close>, exists as soon as any node does and is the only node without
  a parent, and no two nodes share a mesh key or an endpoint identifier. Once established the root is never
  removed and its management key never changes.\<close>

theorem chain_keeps_tree:
  assumes "chain_reaches lb s t" and "tree_ok (cs_nodes s)"
  shows "tree_ok (cs_nodes t) \<and> root_kept (lb_codec lb) (cs_nodes s) (cs_nodes t)"
  by (rule chain_tree [OF assms])

theorem chain_keeps_tree_witness:
  "root_kept example_codec (cs_nodes example_first)
     (cs_nodes (fst (check_batch example_library example_first \<lparr>ba_ops = [example_set_endpoint]\<rparr> 2000000 0 example_policy)))"
  using chain_keeps_tree [OF chain_reaches.block [OF chain_reaches.here prod.collapse [symmetric] second_block]]
    example_tree_ok by (simp add: first_state)

text \<open>C4. Nothing is used twice. An operation, a signed delta or an invite, that is one mint event, that a checked
  block used is not used again in the same block nor in any block that a chain of checked blocks can place
  after it, although the ids of old operations are pruned with every block.\<close>

theorem operation_used_once:
  assumes "smap_ok (cs_committed s)"
    and "check_batch lb s batch ms od policy = (t, r)" and "br_verdict r = None"
    and "chain_reaches lb t u"
    and "check_batch lb u batch' ms' od' policy' = (v, r')" and "br_verdict r' = None"
  shows "sorted_wrt (\<lambda>op op'. \<not> same_use op op') (ba_ops batch @ ba_ops batch')"
proof -
  have valid: "\<exists>st bt c. validate_op lb op st bt c = None"
    if "check_batch lb s batch ms od policy = (t, r)" "br_verdict r = None" "op \<in> set (ba_ops batch)"
    for s batch ms od policy t r op
  proof -
    from that(1,2) obtain final effects where
      "check_ops lb policy (ms div 1000) (ba_ops batch) 0 s = Inr (final, effects)" by (rule check_batch_state)
    from check_ops_valid [OF this that(3)] show ?thesis by blast
  qed
  note first = check_batch_ids [OF assms(2,3,1)]
  have ok: "smap_ok (cs_committed u)" using chain_ids [OF assms(4) first(1)] by blast
  note second = check_batch_ids [OF assms(5,6) ok]
  have "used_ids lb op \<inter> used_ids lb op' = {}" if "op \<in> set (ba_ops batch)" "op' \<in> set (ba_ops batch')" for op op'
    using first(3) [OF that(1)] chain_ids [OF assms(4) first(1)] second(2) that(2) by blast
  with first(4) second(4) have apart:
    "sorted_wrt (\<lambda>op op'. used_ids lb op \<inter> used_ids lb op' = {}) (ba_ops batch @ ba_ops batch')"
    by (simp add: sorted_wrt_append)
  show ?thesis
  proof (rule sorted_wrt_mono_rel [OF _ apart])
    fix op op'
    assume "op \<in> set (ba_ops batch @ ba_ops batch')" "op' \<in> set (ba_ops batch @ ba_ops batch')"
      and disjoint: "used_ids lb op \<inter> used_ids lb op' = {}"
    then obtain st bt c st' bt' c' where "validate_op lb op st bt c = None" "validate_op lb op' st' bt' c' = None"
      using valid [OF assms(2,3)] valid [OF assms(5,6)] by (metis Un_iff set_append)
    with disjoint show "\<not> same_use op op'" using same_use_ids by blast
  qed
qed

theorem operation_used_once_witness: "\<not> same_use example_establish example_set_endpoint"
  using operation_used_once [of example_genesis, OF _ prod.collapse [symmetric] first_block, folded example_first_def,
      OF _ chain_reaches.here prod.collapse [symmetric] second_block]
  by (simp add: example_genesis_def)

text \<open>C16. A replica that applies a certified batch without validation gets the state, roots and effects that the
  members got when they checked it.\<close>

theorem certified_batch_applies:
  assumes "br_verdict (snd (check_batch lb s batch ms od policy)) = None"
  shows "apply_certified_batch lb s batch ms od = check_batch lb s batch ms od policy"
proof -
  from assms obtain final effects where "batch_shape batch ms s = None"
    "check_ops lb policy (ms div 1000) (ba_ops batch) 0 s = Inr (final, effects)"
    unfolding check_batch_accepts by blast
  with check_ops_apply show ?thesis by (simp add: apply_certified_batch_def check_batch_def)
qed

theorem certified_batch_applies_witness:
  "cs_nodes (fst (apply_certified_batch example_library example_genesis \<lparr>ba_ops = [example_establish]\<rparr> 1000000 0)) = example_tree [] 1"
  using certified_batch_applies [OF first_block] first_state by (simp add: example_first_def)

text \<open>C19. A leader's selection is a batch the others accept: it takes candidates in their order, at most
  the allowed number, and a batch that is not empty passes the check on the state it was selected for and
  has a wire form within the byte limit.\<close>

theorem selected_batch_checks:
  assumes "ba_ops (se_batch (select_batch lb s candidates ms policy max_ops max_wire)) \<noteq> []"
  shows "br_verdict (snd (check_batch lb s (se_batch (select_batch lb s candidates ms policy max_ops max_wire)) ms od policy)) = None \<and>
    subseq (ba_ops (se_batch (select_batch lb s candidates ms policy max_ops max_wire))) candidates \<and>
    length (ba_ops (se_batch (select_batch lb s candidates ms policy max_ops max_wire))) \<le> max_ops \<and>
    (\<exists>bytes. encode_tree_batch lb (se_batch (select_batch lb s candidates ms policy max_ops max_wire)) = Some bytes \<and>
       length bytes \<le> max_wire)"
proof -
  let ?out = "\<lparr>se_batch = \<lparr>ba_ops = []\<rparr>, se_refused = []\<rparr>"
  let ?batch = "se_batch (select_batch lb s candidates ms policy max_ops max_wire)"
  from assms have time: "cs_last_block_time_ms s < ms" by (auto simp: select_batch_def Let_def not_le split: if_splits)
  then have batch: "?batch = se_batch (select_ops lb policy (ms div 1000) (min max_ops kMaxTreeBatchOps) max_wire candidates 0 2 s ?out)"
    by (simp add: select_batch_def Let_def)
  from select_ops_spec [of 0 lb policy "ms div 1000" "min max_ops kMaxTreeBatchOps" max_wire candidates 2 s ?out 0]
  obtain final effects where sub: "subseq (ba_ops ?batch) candidates"
    and len: "length (ba_ops ?batch) \<le> min max_ops kMaxTreeBatchOps"
    and size: "(\<Sum>op \<leftarrow> ba_ops ?batch. length (encode_tree_op op)) \<le> kMaxTreeBatchOpBytes"
    and wire: "ba_ops ?batch \<noteq> [] \<longrightarrow> 2 + batch_wire (ba_ops ?batch) \<le> max_wire"
    and run: "check_ops lb policy (ms div 1000) (ba_ops ?batch) 0 s = Inr (final, effects)"
    unfolding batch by auto
  have "batch_shape ?batch ms s = None"
    using assms len size time by (simp add: batch_shape_None tree_batch_op_bytes_sum)
  with run have "br_verdict (snd (check_batch lb s ?batch ms od policy)) = None" by (simp add: check_batch_accepts)
  moreover have "\<forall>op \<in> set (ba_ops ?batch). tree_op_signature_bytes lb op \<noteq> None"
    using check_ops_valid [OF run] valid_signature by blast
  then have "\<exists>bytes. encode_tree_batch lb ?batch = Some bytes \<and> length bytes \<le> max_wire"
    using encode_batch_ops_fits [of "ba_ops ?batch" lb 0 "le_bytes 2 (of_nat (length (ba_ops ?batch)) :: u16)"] assms len size wire
    by (auto simp: encode_tree_batch_def)
  ultimately show ?thesis using sub len by simp
qed

theorem selected_batch_checks_witness:
  "br_verdict (snd (check_batch example_library example_genesis (se_batch (select_batch example_library example_genesis
     [example_establish] 1000000 example_policy 4 1000)) 1000000 0 example_policy)) = None"
  using selected_batch_checks [of example_library example_genesis "[example_establish]" 1000000 example_policy 4 1000]
    example_selection by simp

text \<open>C24. Batches survive the wire, and their wire form is canonical: the encoding of a batch of well-formed
  operations decodes to those operations with their ids and signatures, and bytes that decode are exactly
  the encoding of the batch they decode to, so two different messages never stand for one batch.\<close>

theorem batch_wire_roundtrip:
  assumes ok: "codec_ok (lb_codec lb)" and "list_all well_formed_op (ba_ops batch)"
    and "encode_tree_batch lb batch = Some bytes"
  shows "decode_tree_batch lb bytes = Some (carried_batch lb batch) \<and>
    (\<forall>bytes' batch'. decode_tree_batch lb bytes' = Some batch' \<longrightarrow> encode_tree_batch lb batch' = Some bytes')"
proof (intro conjI allI impI)
  show "encode_tree_batch lb batch' = Some bytes'" if "decode_tree_batch lb bytes' = Some batch'" for bytes' batch'
    by (rule decoded_batch_canonical [OF ok that])
  show "decode_tree_batch lb bytes = Some (carried_batch lb batch)"
    by (rule encoded_batch_decodes [OF assms(2,3)])
qed

theorem batch_wire_roundtrip_witness:
  "\<exists>bytes. encode_tree_batch example_library \<lparr>ba_ops = [example_establish]\<rparr> = Some bytes \<and>
     decode_tree_batch example_library bytes = Some (carried_batch example_library \<lparr>ba_ops = [example_establish]\<rparr>)"
proof -
  obtain bytes where bytes: "encode_tree_batch example_library \<lparr>ba_ops = [example_establish]\<rparr> = Some bytes"
    using valid_signature [OF establish_valid] example_lengths(1)
    by (auto simp: encode_tree_batch_def kMaxTreeBatchOps_def kMaxTreeBatchOpBytes_def Let_def)
  moreover have "list_all well_formed_op [example_establish]" using valid_well_formed(1) [OF establish_valid] by simp
  ultimately show ?thesis using batch_wire_roundtrip [of example_library "\<lparr>ba_ops = [example_establish]\<rparr>" bytes] by simp
qed

text \<open>C18. A state root stands for one history: where SHA-256 does not collide on the streams behind them, two
  roots are equal exactly if the previous roots, the operations' digests, the nodes of the trees and the
  remembered ids are equal.\<close>

theorem state_root_binds:
  assumes "distinct (map fst (cs_nodes s))" and "distinct (map fst (cs_nodes s'))"
    and "tree_fits (cs_nodes s)" and "tree_fits (cs_nodes s')" and "ids_fit (cs_committed s)" and "ids_fit (cs_committed s')"
    and "collision_free (lb_crypto lb) {root_stream lb p od s, root_stream lb p' od' s', tree_stream (cs_nodes s),
      tree_stream (cs_nodes s'), committed_stream (cs_committed s), committed_stream (cs_committed s')}"
  shows "chain_state_root lb p od s = chain_state_root lb p' od' s' \<longleftrightarrow>
    p = p' \<and> od = od' \<and> map_of (cs_nodes s) = map_of (cs_nodes s') \<and> cs_committed s = cs_committed s'"
proof
  note inj = collision_freeD [OF assms(7)]
  assume "chain_state_root lb p od s = chain_state_root lb p' od' s'"
  then have "root_stream lb p od s = root_stream lb p' od' s'"
    unfolding chain_state_root_stream by (rule inj) simp_all
  then have fields: "p = p'" "od = od'" "compute_tree_digest lb (cs_nodes s) = compute_tree_digest lb (cs_nodes s')"
      "compute_committed_digest lb (cs_committed s) = compute_committed_digest lb (cs_committed s')"
    by (simp_all add: root_stream_def stream_simps append_eq_append_conv)
  have "tree_stream (cs_nodes s) = tree_stream (cs_nodes s')"
    using fields(3) unfolding compute_tree_digest_stream by (rule inj) simp_all
  then have "set (cs_nodes s) = set (cs_nodes s')" by (rule tree_stream_inj [OF assms(3,4)])
  then have "map_of (cs_nodes s) = map_of (cs_nodes s')" using assms(1,2) by (simp add: map_of_inject_set)
  moreover have "committed_stream (cs_committed s) = committed_stream (cs_committed s')"
    using fields(4) unfolding compute_committed_digest_stream by (rule inj) simp_all
  then have "cs_committed s = cs_committed s'" by (rule committed_stream_inj [OF assms(5,6)])
  ultimately show "p = p' \<and> od = od' \<and> map_of (cs_nodes s) = map_of (cs_nodes s') \<and> cs_committed s = cs_committed s'"
    using fields by simp
next
  assume same: "p = p' \<and> od = od' \<and> map_of (cs_nodes s) = map_of (cs_nodes s') \<and> cs_committed s = cs_committed s'"
  then have "set (cs_nodes s) = set (cs_nodes s')" using assms(1,2) by (simp add: map_of_inject_set)
  then have "compute_tree_digest lb (cs_nodes s) = compute_tree_digest lb (cs_nodes s')"
    using tree_stream_cong [OF assms(1,2)] by (simp add: compute_tree_digest_stream)
  with same show "chain_state_root lb p od s = chain_state_root lb p' od' s'" by (simp add: chain_state_root_def)
qed

theorem state_root_binds_witness:
  "chain_state_root root_library 0 0 (root_state []) \<noteq> chain_state_root root_library 0 0 (root_state (example_tree [] 1))"
proof -
  have streams: "root_stream root_library 0 0 (root_state []) = example_root_stream 4"
    "root_stream root_library 0 0 (root_state (example_tree [] 1)) = example_root_stream 3"
    by (simp_all add: root_stream_def example_root_stream_def root_digests)
  have "collision_free (lb_crypto root_library) {root_stream root_library 0 0 (root_state []),
      root_stream root_library 0 0 (root_state (example_tree [] 1)), tree_stream [], tree_stream (example_tree [] 1),
      committed_stream [], committed_stream []}"
    unfolding streams by (simp add: root_library_def example_collision_free)
  moreover have "map_of (example_tree [] 1) \<noteq> Map.empty" "distinct (map fst (example_tree [] 1))"
    by (simp_all add: example_tree_def)
  ultimately show ?thesis
    using state_root_binds [of "root_state []" "root_state (example_tree [] 1)" root_library 0 0 0 0] example_tree_fits
    by (auto simp: ids_fit_def)
qed

text \<open>C40. A join adopts a node that somebody else made. Take an accepted creation of a node, by any principal that
  may add children at its parent, and any join with the id of that node as its target, planned on the tree
  after the creation. As long as that tree has fewer nodes than the tunnel range has addresses, the join is
  planned; the node keeps the management key, the type and the parent that its creator gave it, and no node is
  added, so the device gets no group of its own. Whether the join is accepted depends on the join alone and on
  its base version: no check compares the device's key with the management key of the node.\<close>

theorem join_adopts_foreign_node:
  assumes "tree_ok (ts_nodes state)" and "op_kind create = CreateNode" and "validate_op lb create state t committed = None"
    and "plan_op lb create (ts_nodes state) = Inr made" and "nodes = apply_effect made (ts_nodes state)"
    and "op_kind op = Join" and "op_target op = op_target create" and "length nodes < tunnel_span"
  shows "(\<exists>effect n. plan_op lb op nodes = Inr effect \<and> map_of (apply_effect effect nodes) (op_target op) = Some n \<and>
      tn_mgmt_pubkey n = tn_mgmt_pubkey (op_node create) \<and> tn_type n = tn_type (op_node create) \<and>
      tn_parent_id n = tn_parent_id (op_node create) \<and> dom (map_of (apply_effect effect nodes)) = dom (map_of nodes)) \<and>
    (validate_op lb op (state\<lparr>ts_nodes := nodes\<rparr>) t' committed' = None \<longleftrightarrow>
      format_verdict op = None \<and> signature_verdict lb op (ts_policy state) = None \<and> freshness_verdict op t' = None \<and>
      replay_verdict lb op committed' = None \<and> statement_verdict lb op (ts_policy state) t' = None \<and>
      target_verdict op nodes = None)"
proof -
  have tree: "tree_ok nodes" using accepted_lawful(2) [OF assms(1,3,4)] assms(5) by simp
  obtain v where "map_of nodes (op_target op) = Some ((op_node create)\<lparr>tn_id := op_target create, tn_version := v\<rparr>)"
    using plan_create_applied(1) [OF assms(1,2,4)] assms(5,7) by auto
  note joined = plan_join_existing [OF tree assms(6) this assms(8), of lb]
  then obtain effect where "plan_op lb op (ts_nodes (state\<lparr>ts_nodes := nodes\<rparr>)) = Inr effect" by auto
  from joined join_accepted_iff [OF assms(6) this, of t' committed'] show ?thesis by simp
qed

theorem join_adopts_foreign_node_witness:
  "validate_op example_library squat_op \<lparr>ts_nodes = group_tree, ts_policy = example_policy\<rparr> 2000 [] = None \<and>
   validate_op example_library squatted_join \<lparr>ts_nodes = squatted_tree, ts_policy = example_policy\<rparr> 2000 [] = None \<and>
   (\<exists>effect n. plan_op example_library squatted_join squatted_tree = Inr effect \<and>
     map_of (apply_effect effect squatted_tree) (derive_join_node_id example_library example_key) = Some n \<and>
     tn_mgmt_pubkey n = ''mallory'' \<and> tn_parent_id n = ''g'' \<and>
     map_of (apply_effect effect squatted_tree) (''customer-'' @ derive_join_node_id example_library example_key) = None)"
proof -
  let ?state = "\<lparr>ts_nodes = group_tree, ts_policy = example_policy\<rparr>"
  have fields: "op_kind squatted_join = Join" "op_target squatted_join = op_target squat_op" "op_target squat_op = device_id"
    by (simp_all add: squatted_join_def example_signed_op_def)
  have "length squatted_tree < tunnel_span"
    by (simp add: squatted_tree_def group_tree_def example_tree_def tunnel_span_def kTreeTunnelFirstOffset_def kTreeTunnelLastOffset_def)
  note adopted = join_adopts_foreign_node [of ?state squat_op, unfolded tree_state.simps, OF group_tree_ok _ squat_valid squat_plan
      squat_apply [symmetric] fields(1,2) this, of 2000 "[]"]
  then obtain effect n where e: "plan_op example_library squatted_join squatted_tree = Inr effect"
      "map_of (apply_effect effect squatted_tree) device_id = Some n" "tn_mgmt_pubkey n = ''mallory''" "tn_parent_id n = ''g''"
      "dom (map_of (apply_effect effect squatted_tree)) = dom (map_of squatted_tree)"
    using fields by (auto simp: squatter_def)
  have "map_of squatted_tree (''customer-'' @ device_id) = None"
    by (auto simp: squatted_tree_def group_tree_def example_tree_def dest: arg_cong [of _ _ length])
  then have "map_of (apply_effect effect squatted_tree) (''customer-'' @ device_id) = None" using e(5) by (metis domIff)
  then show ?thesis using e adopted squat_valid squatted_join_valid unfolding device_id_def [symmetric] by auto
qed

theorem tree_op_wire_roundtrip_witness:
  "decode_tree_op example_library (encode_tree_op example_establish) 0 = Some (carried_op example_library 0 example_establish) \<and>
   compute_op_id example_library example_establish \<noteq> compute_op_id example_library example_set_endpoint"
proof -
  have "collision_free (lb_crypto example_library) {encode_tree_op example_establish, encode_tree_op example_set_endpoint}"
    by (auto simp: collision_free_def inj_on_def example_lengths)
  moreover have "carried_op example_library 0 example_establish \<noteq> carried_op example_library 0 example_set_endpoint"
  proof
    assume "carried_op example_library 0 example_establish = carried_op example_library 0 example_set_endpoint"
    from arg_cong [OF this, of op_signed_at] show False
      by (simp add: carried_op_def example_establish_def example_set_endpoint_def)
  qed
  ultimately show ?thesis
    using tree_op_wire_roundtrip [OF valid_well_formed(1) [OF establish_valid] valid_well_formed(1) [OF set_endpoint_valid],
        of example_library 0] by simp
qed

end
