(* ===== verification/Link_Ledger.thy ===== *)
theory Link_Ledger
  imports Link_Tokens
begin

text \<open>
  The state of the link token ledger is a function of the events it holds: whatever the order in which the
  events of a token arrive on the nodes of a mesh, two ledgers that hold the same events are the same
  ledger, index of link codes included, and so agree on every token. A token is live exactly if it was
  minted, is not expired and not revoked, and every generation before the live one was refunded by the
  origin that won its spend.
\<close>

section \<open>The invariant\<close>

definition token_ok :: "string \<Rightarrow> link_token \<Rightarrow> bool" where
  "token_ok h t \<longleftrightarrow>
     smap_ok (tk_events t) \<and> tk_events t \<noteq> [] \<and>
     (\<forall>(k, e) \<in> set (tk_events t). k = link_token_event_key e \<and> lt_token_hash e = h \<and>
        lt_network_id e = tk_network_id t \<and> lt_expires_at e = tk_expires_at t) \<and>
     (\<forall>m. tk_mint t = Some m \<longleftrightarrow> m \<in> snd ` set (tk_events t) \<and> lt_kind m = Mint)"

definition held_mint :: "(string, link_token) smap \<Rightarrow> string \<Rightarrow> link_token_event option" where
  "held_mint tokens h = Option.bind (map_of tokens h) tk_mint"

definition coded :: "(string, link_token) smap \<Rightarrow> string \<Rightarrow> string set" where
  "coded tokens c = {h. c \<noteq> [] \<and> (\<exists>m. held_mint tokens h = Some m \<and> lt_code_hash m = c)}"

abbreviation code_set :: "(string, string set) smap \<Rightarrow> string \<Rightarrow> string set" where
  "code_set codes c \<equiv> (case map_of codes c of None \<Rightarrow> {} | Some s \<Rightarrow> s)"

definition ledger_ok :: "link_token_ledger \<Rightarrow> bool" where
  "ledger_ok l \<longleftrightarrow>
     smap_ok (ll_tokens l) \<and> smap_ok (ll_codes l) \<and>
     (\<forall>h t. map_of (ll_tokens l) h = Some t \<longrightarrow> token_ok h t) \<and>
     (\<forall>c. code_set (ll_codes l) c = coded (ll_tokens l) c \<and> map_of (ll_codes l) c \<noteq> Some {})"

lemma ledger_token: "ledger_ok l \<Longrightarrow> map_of (ll_tokens l) h = Some t \<Longrightarrow> token_ok h t"
  by (simp add: ledger_ok_def)

lemma token_okD:
  assumes "token_ok h t"
  shows "smap_ok (tk_events t)" and "tk_events t \<noteq> []"
    and "(k, e) \<in> set (tk_events t) \<Longrightarrow> k = link_token_event_key e \<and> lt_token_hash e = h \<and>
      lt_network_id e = tk_network_id t \<and> lt_expires_at e = tk_expires_at t"
    and "tk_mint t = Some m \<longleftrightarrow> m \<in> snd ` set (tk_events t) \<and> lt_kind m = Mint"
  using assms by (auto simp: token_ok_def)

lemma mint_key: "lt_kind e = Mint \<Longrightarrow> lt_kind e' = Mint \<Longrightarrow> lt_token_hash e = lt_token_hash e' \<Longrightarrow>
    link_token_event_key e = link_token_event_key e'"
  by (simp add: link_token_event_key_def)

lemma smap_put_not_Nil [simp]: "smap_put k v m \<noteq> []"
  by (cases m) auto

lemma set_smap_put:
  assumes "smap_ok m"
  shows "set (smap_put k v m) = insert (k, v) {(k', v') \<in> set m. k' \<noteq> k}"
proof -
  have "(a, b) \<in> set (smap_put k v m) \<longleftrightarrow> (a, b) \<in> insert (k, v) {(k', v') \<in> set m. k' \<noteq> k}" for a b
    by (auto simp: smap_mem_iff [OF smap_ok_put [OF assms]] smap_mem_iff [OF assms] smap_get_put split: if_splits)
  then show ?thesis by auto
qed

text \<open>A token that holds an event of one hash, network and expiry takes another.\<close>

definition token_accepts :: "string \<Rightarrow> link_token \<Rightarrow> bool" where
  "token_accepts h t \<longleftrightarrow> token_ok h t \<or> tk_events t = [] \<and> tk_mint t = None"

lemma token_accepts_events:
  assumes "token_accepts h t" and "(k, e) \<in> set (tk_events t)"
  shows "k = link_token_event_key e \<and> lt_token_hash e = h \<and> lt_network_id e = tk_network_id t \<and> lt_expires_at e = tk_expires_at t"
  using assms token_okD(3) by (auto simp: token_accepts_def)

lemma token_accepts_mint:
  assumes "token_accepts h t"
  shows "tk_mint t = Some m \<longleftrightarrow> m \<in> snd ` set (tk_events t) \<and> lt_kind m = Mint"
  using assms token_okD(4) by (auto simp: token_accepts_def)

lemma token_ok_put:
  assumes t: "token_accepts (lt_token_hash e) t"
    and e: "lt_network_id e = tk_network_id t" "lt_expires_at e = tk_expires_at t"
    and same: "\<And>held. map_of (tk_events t) (link_token_event_key e) = Some held \<Longrightarrow> lt_kind held = lt_kind e"
  shows "token_ok (lt_token_hash e) (t\<lparr>tk_events := smap_put (link_token_event_key e) e (tk_events t),
    tk_mint := (if lt_kind e = Mint then Some e else tk_mint t)\<rparr>)" (is "token_ok _ ?t")
proof -
  have ok: "smap_ok (tk_events t)" using t token_okD(1) by (auto simp: token_accepts_def)
  note events = token_accepts_events [OF t]
  have "tk_mint ?t = Some m \<longleftrightarrow> m \<in> snd ` set (tk_events ?t) \<and> lt_kind m = Mint" for m
  proof (cases "lt_kind e = Mint")
    case True
    have "k = link_token_event_key e" if "(k, m) \<in> set (tk_events t)" "lt_kind m = Mint" for k m
      using events [OF that(1)] mint_key [OF that(2) True] by simp
    then show ?thesis using True by (force simp: set_smap_put [OF ok])
  next
    case False
    have "k \<noteq> link_token_event_key e" if "(k, m) \<in> set (tk_events t)" "lt_kind m = Mint" for k m
      using same that False by (auto simp: smap_mem_iff [OF ok])
    then show ?thesis using False token_accepts_mint [OF t, of m] by (force simp: set_smap_put [OF ok])
  qed
  then show ?thesis
    using events e by (auto simp: token_ok_def smap_ok_put [OF ok] set_smap_put [OF ok])
qed

lemma add_to_token_ok:
  assumes t: "token_accepts (lt_token_hash e) t"
    and e: "lt_network_id e = tk_network_id t" "lt_expires_at e = tk_expires_at t"
    and run: "add_to_token e t = (result, t')"
  shows "token_ok (lt_token_hash e) t' \<and>
    (result = Added \<longrightarrow> tk_mint t' = (if lt_kind e = Mint then Some e else tk_mint t)) \<and>
    (result = Added \<longrightarrow> lt_kind e = Mint \<longrightarrow> (case tk_mint t of None \<Rightarrow> True | Some m \<Rightarrow> lt_code_hash m = [])) \<and>
    (result \<noteq> Added \<longrightarrow> t' = t)"
proof -
  let ?key = "link_token_event_key e"
  have ok: "smap_ok (tk_events t)" using t token_okD(1) by (auto simp: token_accepts_def)
  have held: "tk_mint t = None" if "map_of (tk_events t) ?key = None" "lt_kind e = Mint"
  proof (rule ccontr)
    assume "tk_mint t \<noteq> None"
    then obtain m k where m: "(k, m) \<in> set (tk_events t)" "lt_kind m = Mint" using token_accepts_mint [OF t] by fastforce
    with token_accepts_events [OF t m(1)] mint_key [OF m(2) that(2)] have "(?key, m) \<in> set (tk_events t)" by simp
    with that(1) show False by (simp add: smap_mem_iff [OF ok])
  qed
  show ?thesis
  proof (cases "map_of (tk_events t) ?key")
    case None
    have "tk_events t \<noteq> [] \<or> length (tk_events t) < kLinkTokenMaxEventsPerToken" by (simp add: kLinkTokenMaxEventsPerToken_def)
    then show ?thesis
      using run None t held [OF None] token_ok_put [OF t e] None
      by (auto simp: add_to_token_def token_accepts_def Let_def split: if_splits option.splits)
  next
    case (Some other)
    then have "(?key, other) \<in> set (tk_events t)" by (simp add: smap_mem_iff [OF ok])
    then have token: "token_ok (lt_token_hash e) t" using t by (auto simp: token_accepts_def)
    have kind: "lt_kind other = lt_kind e" if "without_code other = without_code e"
      using arg_cong [OF that, of lt_kind] by (simp add: without_code_def)
    have mint: "tk_mint t = Some other" if "lt_kind other = Mint"
      using token_accepts_mint [OF t] that \<open>(?key, other) \<in> _\<close> by force
    show ?thesis
      using run Some token kind mint token_ok_put [OF t e]
      by (auto simp: add_to_token_def Let_def split: if_splits)
  qed
qed

text \<open>The token an event is added to.\<close>

definition token_for :: "link_token_event \<Rightarrow> link_token_ledger \<Rightarrow> link_token" where
  "token_for e l =
     (case map_of (ll_tokens l) (lt_token_hash e) of
        Some t \<Rightarrow> t
      | None \<Rightarrow> \<lparr>tk_network_id = lt_network_id e, tk_expires_at = lt_expires_at e, tk_mint = None, tk_events = []\<rparr>)"

lemma add_event_changes:
  "snd (add_event e now l) = l \<or>
   lt_network_id e = tk_network_id (token_for e l) \<and> lt_expires_at e = tk_expires_at (token_for e l) \<and>
   snd (add_event e now l) = l\<lparr>ll_tokens := smap_put (lt_token_hash e) (snd (add_to_token e (token_for e l))) (ll_tokens l),
     ll_codes := (if fst (add_to_token e (token_for e l)) = Added then index_code e (ll_codes l) else ll_codes l)\<rparr>"
  unfolding add_event_def Let_def token_for_def [symmetric]
  by (simp add: case_prod_unfold)

lemma held_mint_put: "held_mint (smap_put h t tokens) = (held_mint tokens)(h := tk_mint t)"
  by (auto simp: held_mint_def smap_get_put)

lemma add_event_ok:
  assumes ok: "ledger_ok l"
  shows "ledger_ok (snd (add_event e now l))"
proof (cases "snd (add_event e now l) = l")
  case True
  show ?thesis unfolding True by (rule ok)
next
  case False
  let ?h = "lt_token_hash e"
  define t where "t = token_for e l"
  obtain result t' where run: "add_to_token e t = (result, t')" by fastforce
  from False run have fits: "lt_network_id e = tk_network_id t" "lt_expires_at e = tk_expires_at t"
    and l': "snd (add_event e now l) = l\<lparr>ll_tokens := smap_put ?h t' (ll_tokens l),
      ll_codes := (if result = Added then index_code e (ll_codes l) else ll_codes l)\<rparr>"
    using add_event_changes [of e now l] by (simp_all add: t_def)
  have accepts: "token_accepts ?h t"
    using ledger_token [OF ok, of ?h] by (cases "map_of (ll_tokens l) ?h") (simp_all add: t_def token_for_def token_accepts_def)
  note added = add_to_token_ok [OF accepts fits run]
  have maps: "smap_ok (ll_tokens l)" "smap_ok (ll_codes l)" using ok by (simp_all add: ledger_ok_def)
  have codes: "code_set (ll_codes l) c = coded (ll_tokens l) c" "map_of (ll_codes l) c \<noteq> Some {}" for c
    using ok by (simp_all add: ledger_ok_def)
  have mint: "held_mint (ll_tokens l) ?h = tk_mint t" by (simp add: t_def token_for_def held_mint_def split: option.split)
  have "code_set (ll_codes (snd (add_event e now l))) c = coded (ll_tokens (snd (add_event e now l))) c \<and>
      map_of (ll_codes (snd (add_event e now l))) c \<noteq> Some {}" for c
  proof (cases "result = Added \<and> lt_kind e = Mint \<and> lt_code_hash e \<noteq> []")
    case True
    then have "tk_mint t' = Some e" and uncoded: "\<And>m. tk_mint t = Some m \<Longrightarrow> lt_code_hash m = []"
      using added by (auto split: option.splits)
    then have "coded (smap_put ?h t' (ll_tokens l)) c = coded (ll_tokens l) c \<union> (if c = lt_code_hash e then {?h} else {})"
      using True mint by (auto simp: coded_def held_mint_put split: if_splits)
    then show ?thesis
      using True codes [of c] by (auto simp: l' index_code_def smap_get_put split: option.splits if_splits)
  next
    case False
    have same: "(if result = Added then index_code e (ll_codes l) else ll_codes l) = ll_codes l"
      using False by (auto simp: index_code_def)
    have "coded (smap_put ?h t' (ll_tokens l)) c = coded (ll_tokens l) c"
    proof (cases "result = Added \<and> lt_kind e = Mint")
      case True
      then have "tk_mint t' = Some e" "lt_code_hash e = []" "\<And>m. tk_mint t = Some m \<Longrightarrow> lt_code_hash m = []"
        using added False by (auto split: option.splits)
      then show ?thesis using mint by (auto simp: coded_def held_mint_put split: if_splits)
    next
      case False
      then have "tk_mint t' = tk_mint t" using added by auto
      then have "held_mint (smap_put ?h t' (ll_tokens l)) = held_mint (ll_tokens l)" using mint by (auto simp: held_mint_put)
      then show ?thesis by (simp add: coded_def)
    qed
    then show ?thesis using codes [of c] by (simp add: l' same)
  qed
  moreover have "smap_ok (ll_codes (snd (add_event e now l)))" using maps by (simp add: l' index_code_def smap_ok_put)
  moreover have "token_ok h u" if "map_of (ll_tokens (snd (add_event e now l))) h = Some u" for h u
    using that added ledger_token [OF ok, of h u] by (simp add: l' smap_get_put split: if_splits)
  ultimately show ?thesis using maps by (simp add: ledger_ok_def l' smap_ok_put)
qed

lemma map_of_filter_value:
  assumes "distinct (map fst m)"
  shows "map_of (filter (\<lambda>(k, v). P v) m) k = (case map_of m k of None \<Rightarrow> None | Some v \<Rightarrow> if P v then Some v else None)"
proof -
  have "distinct (map fst (filter (\<lambda>(k, v). P v) m))" using assms by (rule distinct_map_filter)
  then have "map_of (filter (\<lambda>(k, v). P v) m) k = Some v \<longleftrightarrow> map_of m k = Some v \<and> P v" for v
    using assms by (simp add: map_of_eq_Some_iff)
  from this [of "the (map_of m k)"] this [of "the (map_of (filter (\<lambda>(k, v). P v) m) k)"] show ?thesis
    by (cases "map_of m k"; cases "map_of (filter (\<lambda>(k, v). P v) m) k") auto
qed

lemma filter_same_length: "length xs \<le> length (filter P xs) \<Longrightarrow> filter P xs = xs"
  using length_filter_less [of _ xs P] by (force simp: filter_id_conv)

lemma prune_ok:
  assumes ok: "ledger_ok l"
  shows "ledger_ok (snd (prune now l))"
proof -
  let ?keep = "\<lambda>t. \<not> now \<ge> tk_expires_at t + kLinkTokenRetentionSec"
  let ?tokens = "filter (\<lambda>(h, t). ?keep t) (ll_tokens l)"
  let ?cut = "map (\<lambda>(code, hashes). (code, {h \<in> hashes. map_of ?tokens h \<noteq> None})) (ll_codes l)"
  have maps: "smap_ok (ll_tokens l)" "smap_ok (ll_codes l)" using ok by (simp_all add: ledger_ok_def)
  have codes: "code_set (ll_codes l) c = coded (ll_tokens l) c" "map_of (ll_codes l) c \<noteq> Some {}" for c
    using ok by (simp_all add: ledger_ok_def)
  have tokens: "map_of ?tokens h = (case map_of (ll_tokens l) h of None \<Rightarrow> None | Some t \<Rightarrow> if ?keep t then Some t else None)" for h
    by (rule map_of_filter_value [OF smap_ok_distinct [OF maps(1)]])
  show ?thesis
  proof (cases "length (ll_tokens l) - length ?tokens > 0")
    case False
    then have "?tokens = ll_tokens l" by (intro filter_same_length) simp
    then show ?thesis using ok False by (simp add: prune_def Let_def)
  next
    case True
    have keys: "map fst ?cut = map fst (ll_codes l)" by (simp add: comp_def case_prod_unfold)
    have cut_ok: "smap_ok ?cut" using maps(2) unfolding smap_ok_def keys .
    have cut: "map_of ?cut c = map_option (\<lambda>hashes. {h \<in> hashes. map_of ?tokens h \<noteq> None}) (map_of (ll_codes l) c)" for c
      by (simp add: map_of_map)
    have coded: "coded ?tokens c = {h \<in> coded (ll_tokens l) c. map_of ?tokens h \<noteq> None}" for c
      by (auto simp: coded_def held_mint_def tokens split: option.splits if_splits)
    have l': "snd (prune now l) = l\<lparr>ll_tokens := ?tokens, ll_codes := filter (\<lambda>(code, hashes). hashes \<noteq> {}) ?cut\<rparr>"
      using True by (simp add: prune_def Let_def)
    have "code_set (filter (\<lambda>(code, hashes). hashes \<noteq> {}) ?cut) c = coded ?tokens c \<and>
        map_of (filter (\<lambda>(code, hashes). hashes \<noteq> {}) ?cut) c \<noteq> Some {}" for c
      unfolding map_of_filter_value [OF smap_ok_distinct [OF cut_ok]] cut coded using codes [of c]
      by (auto split: option.splits)
    moreover have "token_ok h t" if "map_of ?tokens h = Some t" for h t
      using that ledger_token [OF ok, of h t] by (simp add: tokens split: option.splits if_splits)
    ultimately show ?thesis using maps cut_ok unfolding l' by (simp add: ledger_ok_def smap_ok_filter)
  qed
qed

section \<open>Ledgers a node can hold\<close>

inductive reachable_ledger :: "link_token_ledger \<Rightarrow> bool" where
  empty: "reachable_ledger empty_tokens"
| add: "reachable_ledger l \<Longrightarrow> reachable_ledger (snd (add_event e now l))"
| prune: "reachable_ledger l \<Longrightarrow> reachable_ledger (snd (prune now l))"

lemma reachable_ok: "reachable_ledger l \<Longrightarrow> ledger_ok l"
proof (induction rule: reachable_ledger.induct)
  case empty
  then show ?case by (simp add: ledger_ok_def empty_tokens_def coded_def held_mint_def)
qed (simp_all add: add_event_ok prune_ok)

lemma events_iff:
  assumes "ledger_ok l"
  shows "e \<in> set (events l) \<longleftrightarrow> (\<exists>h t. map_of (ll_tokens l) h = Some t \<and> e \<in> snd ` set (tk_events t))"
proof -
  have ok: "smap_ok (ll_tokens l)" using assms by (simp add: ledger_ok_def)
  have "e \<in> set (events l) \<longleftrightarrow> (\<exists>(h, t) \<in> set (ll_tokens l). e \<in> snd ` set (tk_events t))"
    by (simp add: events_def case_prod_unfold)
  then show ?thesis using smap_mem_iff [OF ok] by fastforce
qed

lemma held_events:
  assumes "ledger_ok l" and "map_of (ll_tokens l) h = Some t"
  shows "(k, e) \<in> set (tk_events t) \<longleftrightarrow> e \<in> set (events l) \<and> lt_token_hash e = h \<and> k = link_token_event_key e"
proof
  have token: "token_ok h t" using assms by (simp add: ledger_ok_def)
  assume "(k, e) \<in> set (tk_events t)"
  with token_okD(3) [OF token this] assms(2) show "e \<in> set (events l) \<and> lt_token_hash e = h \<and> k = link_token_event_key e"
    unfolding events_iff [OF assms(1)] by force
next
  assume e: "e \<in> set (events l) \<and> lt_token_hash e = h \<and> k = link_token_event_key e"
  then obtain h' t' k' where t': "map_of (ll_tokens l) h' = Some t'" "(k', e) \<in> set (tk_events t')"
    unfolding events_iff [OF assms(1)] by force
  then have "token_ok h' t'" using assms(1) by (simp add: ledger_ok_def)
  from token_okD(3) [OF this t'(2)] t' e assms(2) show "(k, e) \<in> set (tk_events t)" by auto
qed

lemma token_unique:
  assumes "ledger_ok l" "ledger_ok l'" and same: "set (events l) = set (events l')"
    and t: "map_of (ll_tokens l) h = Some t" "map_of (ll_tokens l') h = Some t'"
  shows "t = t'"
proof -
  have ok: "token_ok h t" "token_ok h t'" using assms by (simp_all add: ledger_ok_def)
  have "set (tk_events t) = set (tk_events t')"
    using held_events [OF assms(1) t(1)] held_events [OF assms(2) t(2)] same by auto
  then have events: "tk_events t = tk_events t'"
    using token_okD(1) [OF ok(1)] token_okD(1) [OF ok(2)]
    by (intro smap_ext) (simp_all add: map_of_inject_set smap_ok_distinct)
  obtain k e where "(k, e) \<in> set (tk_events t)" using token_okD(2) [OF ok(1)] by (cases "tk_events t") auto
  with token_okD(3) [OF ok(1) this] token_okD(3) [OF ok(2), of k e] events
  have "tk_network_id t = tk_network_id t'" "tk_expires_at t = tk_expires_at t'" by auto
  moreover have "tk_mint t = tk_mint t'"
    using token_okD(4) [OF ok(1)] token_okD(4) [OF ok(2)] events by (metis not_None_eq)
  ultimately show ?thesis using events by (cases t, cases t') simp
qed

lemma ledger_unique:
  assumes ok: "ledger_ok l" "ledger_ok l'" and same: "set (events l) = set (events l')"
  shows "l = l'"
proof -
  have found: "map_of (ll_tokens k) h \<noteq> None \<longleftrightarrow> (\<exists>e \<in> set (events k). lt_token_hash e = h)" if k: "ledger_ok k" for k h
  proof
    assume "map_of (ll_tokens k) h \<noteq> None"
    then obtain t where t: "map_of (ll_tokens k) h = Some t" by blast
    then have "token_ok h t" using k by (simp add: ledger_ok_def)
    then obtain key e where "(key, e) \<in> set (tk_events t)" using token_okD(2) by (cases "tk_events t") auto
    with held_events [OF k t] show "\<exists>e \<in> set (events k). lt_token_hash e = h" by blast
  next
    assume "\<exists>e \<in> set (events k). lt_token_hash e = h"
    then obtain e where held: "e \<in> set (events k)" "lt_token_hash e = h" by blast
    then obtain h' t key where e: "lt_token_hash e = h" "map_of (ll_tokens k) h' = Some t" "(key, e) \<in> set (tk_events t)"
      unfolding events_iff [OF k] by force
    with held_events [OF k e(2)] show "map_of (ll_tokens k) h \<noteq> None" by auto
  qed
  have "map_of (ll_tokens l) h = map_of (ll_tokens l') h" for h
    using found [OF ok(1), of h] found [OF ok(2), of h] same token_unique [OF ok same, of h] by (metis not_None_eq)
  then have tokens: "ll_tokens l = ll_tokens l'" using ok by (intro smap_ext) (auto simp: ledger_ok_def)
  have "map_of (ll_codes l) c = map_of (ll_codes l') c" for c
  proof -
    have "code_set (ll_codes l) c = code_set (ll_codes l') c" "map_of (ll_codes l) c \<noteq> Some {}" "map_of (ll_codes l') c \<noteq> Some {}"
      using ok tokens by (simp_all add: ledger_ok_def)
    then show ?thesis by (auto split: option.splits)
  qed
  then have "ll_codes l = ll_codes l'" using ok by (intro smap_ext) (auto simp: ledger_ok_def)
  with tokens show ?thesis by (cases l, cases l') simp
qed

section \<open>Live tokens\<close>

definition spends :: "link_token \<Rightarrow> u32 \<Rightarrow> string set" where
  "spends token g = {lt_origin_pubkey e | e. e \<in> snd ` set (tk_events token) \<and> lt_kind e = Spend \<and> lt_generation e = g}"

lemma spend_winner_min:
  assumes "map_of (ll_tokens l) h = Some token"
  shows "spend_winner l h g = (if spends token g = {} then None else Some (Min (spends token g)))"
proof -
  let ?step = "\<lambda>winner (key :: string, e :: link_token_event). if lt_kind e \<noteq> Spend \<or> lt_generation e \<noteq> g then winner
    else case winner of None \<Rightarrow> Some (lt_origin_pubkey e)
         | Some w \<Rightarrow> if lt_origin_pubkey e < w then Some (lt_origin_pubkey e) else winner"
  let ?S = "\<lambda>xs :: (string \<times> link_token_event) list. {lt_origin_pubkey e | e. e \<in> snd ` set xs \<and> lt_kind e = Spend \<and> lt_generation e = g}"
  have finite: "finite (?S xs)" for xs
    by (rule finite_subset [of _ "lt_origin_pubkey ` snd ` set xs"]) auto
  have "foldl ?step None xs = (if ?S xs = {} then None else Some (Min (?S xs)))" for xs
  proof (induction xs rule: rev_induct)
    case (snoc x xs)
    obtain key e where x: "x = (key, e)" by (cases x)
    have S: "?S (xs @ [x]) = (if lt_kind e = Spend \<and> lt_generation e = g then insert (lt_origin_pubkey e) (?S xs) else ?S xs)"
      by (auto simp: x)
    define T where "T = ?S xs"
    define w where "w = Min T"
    have IH: "foldl ?step None xs = (if T = {} then None else Some w)" and "finite T"
      using snoc.IH finite [of xs] by (simp_all only: T_def w_def)
    then have insert: "Min (insert a T) = (if T = {} then a else min a w)" for a by (simp add: w_def)
    show ?case unfolding S T_def [symmetric] foldl_append IH
      by (simp add: x insert min_def le_less w_def [symmetric])
  qed simp
  then show ?thesis using assms by (simp add: spend_winner_def spends_def)
qed

lemma live_from_Some:
  "live_from l h token mint gs = Some v \<longleftrightarrow>
    (\<exists>i < length gs. v = \<lparr>lv_mint = mint, lv_generation = gs ! i\<rparr> \<and> spend_winner l h (gs ! i) = None \<and>
       (\<forall>j < i. \<exists>w. spend_winner l h (gs ! j) = Some w \<and> refunded_by token (gs ! j) w))"
proof (induction gs)
  case (Cons g gs)
  show ?case
  proof (cases "spend_winner l h g")
    case None
    then show ?thesis by (auto intro: exI [of _ 0] dest: spec [of _ 0] simp: gr0_conv_Suc)
  next
    case (Some w)
    then show ?thesis using Cons.IH by (auto simp: Ex_less_Suc2 All_less_Suc2)
  qed
qed simp

abbreviation generations :: "u32 list" where
  "generations \<equiv> map of_nat [0..<Suc (unat kLinkTokenMaxGeneration)]"

lemma generations_nth: "i < 9 \<Longrightarrow> generations ! i = of_nat i" "length generations = 9"
  by (simp_all add: kLinkTokenMaxGeneration_def del: upt_Suc)

section \<open>An example\<close>

definition example_event :: "link_token_event_kind \<Rightarrow> link_token_event" where
  "example_event kind =
     \<lparr>lt_kind = kind, lt_token_hash = replicate 64 (CHR ''a''), lt_generation = 0, lt_network_id = ''n'', lt_expires_at = 2000,
      lt_group_node_id = (if kind = Mint then ''g'' else []), lt_permissions = [],
      lt_owner_user_id = (if kind = Mint then ''u'' else []), lt_owner_pubkey = (if kind = Mint then ''k'' else []),
      lt_created_at = (if kind = Mint then 1000 else 0), lt_code_hash = [], lt_code_signature = [], lt_timestamp = 1000,
      lt_origin_pubkey = ''o'', lt_origin_seq = 1, lt_signature = []\<rparr>"

lemma example_event_accepted:
  "link_token_event_shape_error (example_event Mint) = None" "link_token_event_time_error (example_event Mint) 1000 = None"
  "link_token_event_shape_error (example_event Spend) = None" "link_token_event_time_error (example_event Spend) 1000 = None"
  by (simp_all add: link_token_event_shape_error_def mint_shape_error_def link_token_event_time_error_def example_event_def
      event_kind_known_def is_lower_hex_def char_between_def kLinkTokenMaxGeneration_def bounded_def kLinkTokenMaxFieldBytes_def
      kLinkTokenMaxTtlSec_def kLinkTokenRetentionSec_def kLinkTokenMaxFutureSec_def kLinkTokenMaxPermissions_def list_all_iff)

lemma example_event_keys: "link_token_event_key (example_event Mint) \<noteq> link_token_event_key (example_event Spend)"
  by (simp add: link_token_event_key_def example_event_def kind_letter_def)

definition example_order :: "link_token_event_kind list \<Rightarrow> link_token_ledger" where
  "example_order kinds = foldl (\<lambda>l kind. snd (add_event (example_event kind) 1000 l)) empty_tokens kinds"

lemma example_order_reachable: "reachable_ledger (example_order kinds)"
proof (induction kinds rule: rev_induct)
  case Nil
  then show ?case by (simp add: example_order_def reachable_ledger.empty)
next
  case (snoc kind kinds)
  then show ?case using reachable_ledger.add by (simp add: example_order_def)
qed

lemma example_order_events:
  "set (events (example_order [Mint, Spend])) = {example_event Mint, example_event Spend}"
  "set (events (example_order [Spend, Mint])) = {example_event Mint, example_event Spend}"
  using example_event_accepted example_event_keys
  by (auto simp: example_order_def add_event_def empty_tokens_def add_to_token_def events_def Let_def
      kLinkTokenMaxTokens_def kLinkTokenMaxEventsPerToken_def example_event_def set_smap_put smap_ok_Cons)

section \<open>Properties\<close>

text \<open>C17. Link token ledgers converge: two ledgers that were built by adding events in any order, at any times and
  with any pruning in between, are equal as soon as they hold the same events, so they answer every query
  alike and know the same link codes.\<close>

theorem ledgers_converge:
  assumes "reachable_ledger l" and "reachable_ledger l'" and "set (events l) = set (events l')"
  shows "l = l'"
  using ledger_unique [OF reachable_ok [OF assms(1)] reachable_ok [OF assms(2)] assms(3)] .

theorem ledgers_converge_witness: "example_order [Mint, Spend] = example_order [Spend, Mint]"
  using ledgers_converge [OF example_order_reachable example_order_reachable, of "[Mint, Spend]" "[Spend, Mint]"]
    example_order_events by simp

text \<open>C28. A link token is live in a generation exactly if it was minted, has not expired and is not revoked, nobody
  spent that generation, and every earlier generation was spent and refunded by the origin that won it, the
  least origin key among its spenders.\<close>

theorem live_token_iff:
  "live l h now = Some v \<longleftrightarrow>
    (\<exists>token m. map_of (ll_tokens l) h = Some token \<and> tk_mint token = Some m \<and> now < tk_expires_at token \<and>
       (\<forall>e \<in> snd ` set (tk_events token). lt_kind e \<noteq> Revoke) \<and>
       (\<exists>i \<le> 8. v = \<lparr>lv_mint = m, lv_generation = of_nat i\<rparr> \<and> spends token (of_nat i) = {} \<and>
          (\<forall>j < i. spends token (of_nat j) \<noteq> {} \<and> refunded_by token (of_nat j) (Min (spends token (of_nat j))))))"
proof (cases "map_of (ll_tokens l) h")
  case (Some token)
  have loop: "live_from l h token m generations = Some v \<longleftrightarrow>
      (\<exists>i \<le> 8. v = \<lparr>lv_mint = m, lv_generation = of_nat i\<rparr> \<and> spends token (of_nat i) = {} \<and>
         (\<forall>j < i. spends token (of_nat j) \<noteq> {} \<and> refunded_by token (of_nat j) (Min (spends token (of_nat j)))))" for m
  proof -
    have "live_from l h token m generations = Some v \<longleftrightarrow>
        (\<exists>i < 9. v = \<lparr>lv_mint = m, lv_generation = of_nat i\<rparr> \<and> spend_winner l h (of_nat i) = None \<and>
           (\<forall>j < i. \<exists>w. spend_winner l h (of_nat j) = Some w \<and> refunded_by token (of_nat j) w))"
      unfolding live_from_Some generations_nth(2)
      by (intro ex_cong conj_cong refl) (auto simp: generations_nth(1) simp del: upt_Suc)
    moreover have "i < 9 \<longleftrightarrow> i \<le> 8" for i :: nat by auto
    ultimately show ?thesis unfolding spend_winner_min [OF Some] by auto
  qed
  have "revoked l h \<longleftrightarrow> (\<exists>e \<in> snd ` set (tk_events token). lt_kind e = Revoke)"
    using Some by (force simp: revoked_def list_ex_iff)
  then show ?thesis
    unfolding live_def Some loop by (auto simp: loop not_le Some simp del: upt_Suc split: option.split)
qed (simp add: live_def)

theorem live_token_iff_witness:
  "live (example_order [Mint]) (replicate 64 (CHR ''a'')) 1500 = Some \<lparr>lv_mint = example_event Mint, lv_generation = 0\<rparr>"
proof -
  let ?h = "replicate 64 (CHR ''a'')"
  let ?token = "\<lparr>tk_network_id = ''n'', tk_expires_at = 2000, tk_mint = Some (example_event Mint),
    tk_events = [(link_token_event_key (example_event Mint), example_event Mint)]\<rparr>"
  have "map_of (ll_tokens (example_order [Mint])) ?h = Some ?token"
    using example_event_accepted(1,2)
    by (simp add: example_order_def add_event_def empty_tokens_def add_to_token_def Let_def kLinkTokenMaxTokens_def
        kLinkTokenMaxEventsPerToken_def) (simp add: example_event_def)
  moreover have "spends ?token 0 = {}" "lt_kind (example_event Mint) \<noteq> Revoke" by (auto simp: spends_def example_event_def)
  ultimately show ?thesis unfolding live_token_iff by (intro exI [of _ ?token]) (auto intro: exI [of _ 0])
qed

end
