(* ===== verification/Spec2Isabelle.thy ===== *)
theory Spec2Isabelle
  imports Hotstuff_World Epoch_Manager Authority_Chain Eligibility_Service Tree_Safety Link_Ledger
begin

text \<open>
  A model of the security mesh and the permission tree of Lemonade Nexus (\<^verbatim>\<open>src/projects/LemonadeNexus\<close>,
  directories \<^verbatim>\<open>Security\<close>, \<^verbatim>\<open>Tree\<close>, and parts of \<^verbatim>\<open>Auth\<close>, \<^verbatim>\<open>ACL\<close> and \<^verbatim>\<open>Routing\<close>, under \<^verbatim>\<open>src\<close> and
  \<^verbatim>\<open>include/LemonadeNexus\<close>), and the theorems that make it correct.

  \<^bold>\<open>The program.\<close> Servers of the mesh form a committee, Tier 1, that runs a HotStuff consensus and is
  replaced once per epoch. A member votes with a key frozen for the epoch and writes its safety state
  before it votes. Members attest each other's platforms and sign what they saw; the ledger of these
  observations says which nodes are eligible, consensus finalizes a commitment to that state, and the
  pool it names is ranked by hash to select the next committee. The handoff to it is committed by the old
  committee, so that a client holding only the Genesis key can walk from the first epoch to the current
  one.

  The blocks that consensus orders carry operations on the permission tree: the root, the customers'
  groups, their devices, and the grants each node holds for management keys. An operation wraps a signed
  delta, a device's join statement or a session request; every member validates it against the tree, the
  policy and the ids already used, plans its effect, and chains a state root over the result. Link tokens
  invite devices and accounts into groups; the servers keep a ledger of mints, spends, refunds and
  revocations that grows by gossip, and an operation may carry the mint that invited it.

  \<^bold>\<open>Conventions.\<close> Byte arrays are words (\<open>digest\<close>, \<open>node_id\<close>, \<open>sig\<close>), fixed-width integers are words of that
  width and wrap as in the code, \<^verbatim>\<open>std::size_t\<close> counts are \<^typ>\<open>nat\<close>, \<^verbatim>\<open>std::map\<close> is a sorted association list
  (\<open>smap\<close>, with the invariant \<open>smap_ok\<close>), \<^verbatim>\<open>std::set\<close> is a set read through its sorted list, \<^verbatim>\<open>std::optional\<close> is
  an option, an enumeration of outcomes is a datatype with the source's constructors. A class is a record,
  a method is a function from the record to the result and the new record. SHA-256 and Ed25519 are fields
  of the argument \<open>crypto\<close>; what is relied on of them is a hypothesis: the hash does not collide on the byte
  streams named (\<open>collision_free\<close>), and correct members sign only what the model makes them sign. JSON text,
  base64 and hexadecimal digits are fields of the arguments \<open>codec\<close> and \<open>hex_codec\<close> with a round trip as
  hypothesis; the tree takes the three together as \<open>library\<close>. The hash map of tree nodes is an association
  list with distinct keys (\<open>node_map\<close>). \<open>Example_Crypto\<close> holds functions that satisfy these hypotheses; the examples use them.

  \<^bold>\<open>Theories, in the order of dependence.\<close>
  \<^item> \<open>Nexus_Prelude\<close>: byte strings, decimal numbers, sorted maps, counting lemmas.
  \<^item> \<open>Canonical_Encoding\<close> (\<^verbatim>\<open>CanonicalEncoding.cpp\<close>): the length-prefixed encoder, unambiguous on field lists
    and between domains.
  \<^item> \<open>Security_Policy\<close> (\<^verbatim>\<open>SecurityConstants.hpp\<close>, \<^verbatim>\<open>Tier1TargetPolicy.hpp\<close>): quorum formulas and targets; two
    quorums share a correct member.
  \<^item> \<open>Consensus_Types\<close>, \<open>Quorum_Validation\<close> (\<^verbatim>\<open>ConsensusTypes.cpp\<close>, \<^verbatim>\<open>BlockPayload.cpp\<close>, \<^verbatim>\<open>VoteKey.cpp\<close>,
    \<^verbatim>\<open>QuorumValidation.cpp\<close>, \<^verbatim>\<open>CommitProof.cpp\<close>): proposals, votes, certificates, their digests, and their
    validation; validated certificates stand for votes that were cast, and those of one view agree.
  \<^item> \<open>Store_Interface\<close>: the locale of what the replica needs of its store. \<open>Consensus_Store\<close>
    (\<^verbatim>\<open>ConsensusStore.cpp\<close>, \<^verbatim>\<open>DurableWrite.cpp\<close>, \<^verbatim>\<open>HotStuffState.cpp\<close>) interprets it with the file store over a
    disk on which every call may fail and every moment may be a crash; \<open>Hotstuff_Json\<close> is the JSON form.
  \<^item> \<open>Leader_Pacemaker\<close> (\<^verbatim>\<open>LeaderSelection.cpp\<close>, \<^verbatim>\<open>Pacemaker.cpp\<close>): leader rotation and view timeouts.
  \<^item> \<open>Hotstuff_Service\<close>, \<open>Hotstuff_Replica\<close> (\<^verbatim>\<open>HotStuffService.cpp\<close>): the replica, every handler, its invariant
    and its behaviour over restarts. \<open>Hotstuff_Agreement\<close>, \<open>Hotstuff_Progress\<close>, \<open>Hotstuff_World\<close>: agreement
    of committed blocks for a committee of such replicas, termination and page bounds, and the fork that
    the commit rule allows when views are not consecutive.
  \<^item> \<open>Platform_Claims\<close> (\<^verbatim>\<open>VerifiedPlatformClaims.cpp\<close>, \<^verbatim>\<open>AttestationProfileId.cpp\<close>, \<^verbatim>\<open>Tier1Evidence.cpp\<close>,
    \<^verbatim>\<open>Tier1Eligibility.cpp\<close>): claim sets and the one eligibility decision.
  \<^item> \<open>Eligibility_Types\<close>, \<open>Eligibility_Ledger\<close> (\<^verbatim>\<open>EligibilityObservation.cpp\<close>, \<^verbatim>\<open>ParticipationProof.cpp\<close>,
    \<^verbatim>\<open>EligibilityState.cpp\<close>, \<^verbatim>\<open>EligibilityLedger.cpp\<close>): signed observations, states, and the ledger; a mesh fact
    has a correct witness.
  \<^item> \<open>Eligibility_Store\<close>, \<open>Eligibility_Service\<close> (\<^verbatim>\<open>EligibilityStore.cpp\<close>, \<^verbatim>\<open>EligibilityService.cpp\<close>): the durable
    files and the service above the ledger; what a released pool contains, that two nodes with one
    finalized commitment release one pool, and that a flushed state survives a crash while the directory can be synced.
  \<^item> \<open>Epoch_Types\<close>, \<open>Epoch_Manager\<close> (\<^verbatim>\<open>Tier1Set.cpp\<close>, \<^verbatim>\<open>Tier1Selector.cpp\<close>, \<^verbatim>\<open>EpochState.cpp\<close>,
    \<^verbatim>\<open>NextEpochPlan.cpp\<close>, \<^verbatim>\<open>EpochManager.cpp\<close>): selection, handoffs, and the transition between epochs;
    a replaced member leaves the shortfall flag set also where the target is met.
  \<^item> \<open>Authority_Chain\<close> (\<^verbatim>\<open>BootstrapCertificate.cpp\<close>, \<^verbatim>\<open>AuthorityChain.cpp\<close>, \<^verbatim>\<open>Tier1Membership.cpp\<close>): the walk
    from the Genesis key to the current authority; there is one chain per Genesis key.
  \<^item> \<open>Tree_Types\<close>, \<open>Tree_Rules\<close> (\<^verbatim>\<open>TreeTypes.cpp\<close>, \<^verbatim>\<open>DeviceLabel.cpp\<close>, \<^verbatim>\<open>Permission.hpp\<close>,
    \<^verbatim>\<open>IdentifierDerivation.cpp\<close>, \<^verbatim>\<open>TreeRules.cpp\<close>): nodes, principals, permissions, and the rules of who may do
    what; administration is inherited along parents, and the scope of an account is exact.
  \<^item> \<open>Link_Tokens\<close>, \<open>Link_Ledger\<close> (\<^verbatim>\<open>LinkTokenLedger.cpp\<close>): link token events, their checks, and the ledger;
    ledgers with the same events are equal, and when a token is live.
  \<^item> \<open>Tree_Encoding\<close>, \<open>Tree_Ops\<close> (\<^verbatim>\<open>TreeOps.cpp\<close>): operations and their canonical form with its reader, then
    validation step by step, the overlay on which an operation is planned, and its effect.
  \<^item> \<open>Tree_Invariant\<close>, \<open>Tree_Authority\<close>: the invariant of the tree and of overlays, and the contract \<open>lawful\<close>
    that every accepted operation meets.
  \<^item> \<open>Tree_Chain\<close>, \<open>Tree_Safety\<close> (\<^verbatim>\<open>TreeBatch.cpp\<close>, \<^verbatim>\<open>TreeChain.cpp\<close>): batches, blocks and state roots; along
    every chain of blocks the tree keeps its invariant and nothing is used twice, certified batches apply as
    they were checked, a leader's selection is accepted, and a join may adopt a node somebody else made.

  \<^bold>\<open>Fuel and bounds.\<close> The two loops of the replica that follow parent digests may run forever on a cyclic
  block store; they are walks that return an option, and \<open>calls_return\<close> shows that they return where the
  hash has no cycle on the known blocks. The walks along parents in the tree and the account scope end on
  every node map, also one with a cycle, because the ids visited are keys of the map; the search for a
  tunnel address ends after one round of its range, with an address if one is free. Every other loop is a structural recursion or a fold. Epoch and
  link counts are bounded by \<open>2 ^ 64 - 1\<close> where a theorem needs that a counter does not wrap.

  \<^bold>\<open>Not modelled.\<close> Sockets, threads and timers (gossip, transport, relay, tunnels, the HTTP API and the
  client library), parsing of hardware evidence over OpenSSL and the TPM stack, sealed storage, the
  threshold key generation of the FROST crate, upgrades, the epoch store, and of the permission tree what
  surrounds the chain: its log and replication, the pool and the submission of operations, the merge of
  older trees, and the service that serves it. Log lines and display names are left out everywhere.
\<close>

end
